(* ===== verification/Prelude.thy ===== *)
theory Prelude
  imports Complex_Main "HOL-Library.AList" "HOL-Library.Char_ord"
begin

text \<open>
  Shared vocabulary of the development: the JavaScript notions the TypeScript sources use
  (strings, \<^verbatim>\<open>Map\<close> and plain objects with insertion order, \<^verbatim>\<open>Array.prototype\<close> helpers) and
  the generic lemmas about them that the component theories use.

  \<^item> A JavaScript string is a \<^typ>\<open>string\<close>; the model ranges over code units below 256.
  \<^item> A \<^verbatim>\<open>Map\<close>, \<^verbatim>\<open>Record<string, _>\<close> or plain object used as a dictionary is an association
    list in enumeration order; \<open>map_set\<close> overwrites in place and appends a new key at the
    end, as the language does.
  \<^item> A \<^verbatim>\<open>Set\<close> is a list in insertion order when its order is observable.
\<close>

named_theorems js_simps \<open>equations of the JavaScript library functions of the model\<close>
named_theorems diag_simps \<open>when a validator check reports an error\<close>

section \<open>Strings\<close>

text \<open>The code units \<^verbatim>\<open>String.prototype.trim\<close> removes, below 256: the white space and
  line terminators TAB, LF, VT, FF, CR, SPACE and NBSP.\<close>

definition js_space :: "char \<Rightarrow> bool" where
  "js_space c \<longleftrightarrow> c \<in> {CHR 0x09, CHR 0x0A, CHR 0x0B, CHR 0x0C, CHR 0x0D, CHR 0x20, CHR 0xA0}"

definition trim :: "string \<Rightarrow> string" where
  "trim s = rev (dropWhile js_space (rev (dropWhile js_space s)))"

definition is_digit :: "char \<Rightarrow> bool" where
  "is_digit c \<longleftrightarrow> CHR ''0'' \<le> c \<and> c \<le> CHR ''9''"

definition is_alpha :: "char \<Rightarrow> bool" where
  "is_alpha c \<longleftrightarrow> (CHR ''a'' \<le> c \<and> c \<le> CHR ''z'') \<or> (CHR ''A'' \<le> c \<and> c \<le> CHR ''Z'')"

definition starts_with :: "string \<Rightarrow> string \<Rightarrow> bool" where
  "starts_with p s \<longleftrightarrow> take (length p) s = p"

definition ends_with :: "string \<Rightarrow> string \<Rightarrow> bool" where
  "ends_with p s \<longleftrightarrow> starts_with (rev p) (rev s)"

lemma trim_Nil [simp]: "trim [] = []"
  by (simp add: trim_def)

lemma trim_eq_Nil: "trim s = [] \<longleftrightarrow> (\<forall>c \<in> set s. js_space c)"
proof -
  have "trim s = [] \<longleftrightarrow> (\<forall>c \<in> set (dropWhile js_space s). js_space c)"
    by (simp add: trim_def dropWhile_eq_Nil_conv)
  also have "\<dots> \<longleftrightarrow> (\<forall>c \<in> set s. js_space c)"
    by (induction s) auto
  finally show ?thesis .
qed

lemma starts_with_append [simp]: "starts_with p (p @ s)"
  by (simp add: starts_with_def)

lemma starts_with_iff: "starts_with p s \<longleftrightarrow> (\<exists>r. s = p @ r)"
  by (metis append_eq_conv_conj append_take_drop_id starts_with_def)

text \<open>The decimal text of a number inside a template literal.\<close>

definition digit_char :: "nat \<Rightarrow> char" where
  "digit_char d = char_of (48 + d)"

fun nat_str :: "nat \<Rightarrow> string" where
  "nat_str n = (if n < 10 then [digit_char n] else nat_str (n div 10) @ [digit_char (n mod 10)])"

declare nat_str.simps [simp del]

lemma digit_char_inj: "a < 10 \<Longrightarrow> b < 10 \<Longrightarrow> digit_char a = digit_char b \<Longrightarrow> a = b"
  by (simp add: digit_char_def char_of_eq_iff take_bit_eq_mod)

lemma digit_char_digit: "d < 10 \<Longrightarrow> is_digit (digit_char d) \<and> (of_char (digit_char d) :: nat) = 48 + d"
  by (simp add: is_digit_def digit_char_def less_eq_char_def take_bit_eq_mod)

lemma nat_str_digits: "list_all is_digit (nat_str n)"
proof (induction n rule: nat_str.induct)
  case (1 n)
  then show ?case by (subst nat_str.simps) (simp add: digit_char_digit)
qed

lemma nat_str_Nil [simp]: "nat_str n \<noteq> []" "[] \<noteq> nat_str n"
  by (subst nat_str.simps, simp)+

lemma nat_str_inj: "nat_str m = nat_str n \<Longrightarrow> m = n"
proof (induction m arbitrary: n rule: nat_str.induct)
  case (1 m)
  show ?case
  proof (cases "m < 10")
    case True
    with "1.prems" show ?thesis
      by (subst (asm) nat_str.simps, subst (asm) (2) nat_str.simps)
        (auto split: if_splits dest: digit_char_inj)
  next
    case False
    with "1.prems" have n: "\<not> n < 10" and d: "nat_str (m div 10) = nat_str (n div 10)"
      and l: "digit_char (m mod 10) = digit_char (n mod 10)"
      by (subst (asm) nat_str.simps, subst (asm) (2) nat_str.simps, simp split: if_splits)+
    from False d have "m div 10 = n div 10" by (rule "1.IH")
    moreover from l have "m mod 10 = n mod 10" by (intro digit_char_inj) simp_all
    ultimately show ?thesis by (metis div_mult_mod_eq)
  qed
qed

lemma inj_nat_str: "inj nat_str"
  by (rule injI) (rule nat_str_inj)

section \<open>Numbers\<close>

text \<open>A JavaScript number as the checks of options and of request parameters see it.\<close>

datatype number = Num rat | PosInf | NegInf | NaN

fun num_less :: "number \<Rightarrow> number \<Rightarrow> bool" where
  "num_less (Num a) (Num b) = (a < b)"
| "num_less NegInf (Num _) = True"
| "num_less NegInf PosInf = True"
| "num_less (Num _) PosInf = True"
| "num_less _ _ = False"

fun is_integer :: "number \<Rightarrow> bool" where
  "is_integer (Num a) = (of_int \<lfloor>a\<rfloor> = a)"
| "is_integer _ = False"

fun is_finite :: "number \<Rightarrow> bool" where
  "is_finite (Num _) = True"
| "is_finite _ = False"

section \<open>Ordered maps\<close>

text \<open>\<^verbatim>\<open>Map.get\<close>, \<^verbatim>\<open>Map.set\<close>, \<^verbatim>\<open>Map.has\<close>, \<^verbatim>\<open>Map.delete\<close>, \<^verbatim>\<open>Map.keys\<close>.\<close>

type_synonym ('k, 'v) omap = "('k \<times> 'v) list"

definition map_get :: "('k, 'v) omap \<Rightarrow> 'k \<Rightarrow> 'v option" where
  "map_get m k = map_of m k"

definition map_set :: "'k \<Rightarrow> 'v \<Rightarrow> ('k, 'v) omap \<Rightarrow> ('k, 'v) omap" where
  "map_set k v m = AList.update k v m"

definition map_has :: "('k, 'v) omap \<Rightarrow> 'k \<Rightarrow> bool" where
  "map_has m k \<longleftrightarrow> map_get m k \<noteq> None"

definition map_delete :: "'k \<Rightarrow> ('k, 'v) omap \<Rightarrow> ('k, 'v) omap" where
  "map_delete k m = filter (\<lambda>(k', _). k' \<noteq> k) m"

definition map_keys :: "('k, 'v) omap \<Rightarrow> 'k list" where
  "map_keys m = map fst m"

text \<open>
  What a client of \<^verbatim>\<open>Map\<close> relies on: \<open>get\<close> after \<open>set\<close> and after \<open>delete\<close>, and that keys are
  held once. The client lemmas below are proved from these laws alone.
\<close>

locale js_map =
  fixes empty :: 'm
    and get :: "'m \<Rightarrow> 'k \<Rightarrow> 'v option"
    and set_entry :: "'k \<Rightarrow> 'v \<Rightarrow> 'm \<Rightarrow> 'm"
    and delete :: "'k \<Rightarrow> 'm \<Rightarrow> 'm"
    and keys :: "'m \<Rightarrow> 'k list"
    and invar :: "'m \<Rightarrow> bool"
  assumes get_empty: "get empty k = None"
    and get_set: "get (set_entry k v m) k' = (if k' = k then Some v else get m k')"
    and get_delete: "get (delete k m) k' = (if k' = k then None else get m k')"
    and keys_get: "k \<in> set (keys m) \<longleftrightarrow> get m k \<noteq> None"
    and invar_distinct: "invar m \<Longrightarrow> distinct (keys m)"
    and invar_empty: "invar empty"
    and invar_set: "invar m \<Longrightarrow> invar (set_entry k v m)"
    and invar_delete: "invar m \<Longrightarrow> invar (delete k m)"
begin

lemma keys_set: "set (keys (set_entry k v m)) = insert k (set (keys m))"
  by (auto simp: keys_get get_set split: if_splits)

lemma keys_delete: "set (keys (delete k m)) = set (keys m) - {k}"
  by (auto simp: keys_get get_delete split: if_splits)

text \<open>A loop that sets one entry per element: the last element with a key decides.\<close>

lemma get_fold_set:
  "get (fold (\<lambda>x m. set_entry (f x) (g x) m) xs m) k =
     (case find (\<lambda>x. f x = k) (rev xs) of None \<Rightarrow> get m k | Some x \<Rightarrow> Some (g x))"
  by (induction xs rule: rev_induct) (auto simp: get_set)

lemma invar_fold_set: "invar m \<Longrightarrow> invar (fold (\<lambda>x m. set_entry (f x) (g x) m) xs m)"
  by (induction xs arbitrary: m) (auto intro: invar_set)

lemma keys_fold_set:
  "set (keys (fold (\<lambda>x m. set_entry (f x) (g x) m) xs m)) = f ` set xs \<union> set (keys m)"
  by (induction xs arbitrary: m) (auto simp: keys_set)

end

lemma map_get_Nil [simp]: "map_get [] k = None"
  by (simp add: map_get_def)

lemma map_get_Cons [simp]: "map_get ((k', v) # m) k = (if k' = k then Some v else map_get m k)"
  by (simp add: map_get_def)

lemma map_get_set [simp]: "map_get (map_set k v m) k' = (if k' = k then Some v else map_get m k')"
  by (simp add: map_get_def map_set_def update_conv')

lemma map_get_delete [simp]: "map_get (map_delete k m) k' = (if k' = k then None else map_get m k')"
  by (induction m) (auto simp: map_delete_def)

lemma map_keys_get: "k \<in> set (map_keys m) \<longleftrightarrow> map_get m k \<noteq> None"
  by (simp add: map_keys_def map_get_def map_of_eq_None_iff)

lemma distinct_keys_delete: "distinct (map_keys m) \<Longrightarrow> distinct (map_keys (map_delete k m))"
  by (simp add: map_keys_def map_delete_def distinct_map_filter)

interpretation omap: js_map "[]" map_get map_set map_delete map_keys "\<lambda>m. distinct (map_keys m)"
proof (unfold_locales, goal_cases)
  case (7 m k v)
  then show ?case by (simp add: map_keys_def map_set_def distinct_update)
next
  case (8 m k)
  then show ?case by (rule distinct_keys_delete)
next
  case (4 k m)
  show ?case by (rule map_keys_get)
qed (simp_all add: map_keys_def)

lemma map_has_iff: "map_has m k \<longleftrightarrow> k \<in> set (map_keys m)"
  by (simp add: map_has_def map_keys_get)

lemma map_get_SomeD: "map_get m k = Some v \<Longrightarrow> (k, v) \<in> set m"
  by (simp add: map_get_def map_of_SomeD)

section \<open>Lists\<close>

lemma find_by_key: "distinct (map f xs) \<Longrightarrow> x \<in> set xs \<Longrightarrow> find (\<lambda>y. f y = f x) xs = Some x"
  by (induction xs) auto

lemma find_SomeD: "find P xs = Some x \<Longrightarrow> x \<in> set xs \<and> P x"
  by (induction xs) (auto split: if_splits)

text \<open>\<^verbatim>\<open>xs.forEach((x, i) => ...)\<close> and \<^verbatim>\<open>xs.map((x, i) => ...)\<close>.\<close>

definition indexed :: "'a list \<Rightarrow> (nat \<times> 'a) list" where
  "indexed xs = zip [0..<length xs] xs"

lemma indexed_Nil [simp]: "indexed [] = []"
  by (simp add: indexed_def)

lemma set_indexed: "(i, x) \<in> set (indexed xs) \<longleftrightarrow> i < length xs \<and> x = xs ! i"
  by (force simp: indexed_def set_zip)

lemma map_snd_indexed [simp]: "map snd (indexed xs) = xs"
  by (simp add: indexed_def)

lemma map_fst_indexed [simp]: "map fst (indexed xs) = [0..<length xs]"
  by (simp add: indexed_def)

lemma length_indexed [simp]: "length (indexed xs) = length xs"
  by (simp add: indexed_def)

lemma indexed_map: "indexed (map f xs) = map (\<lambda>(i, x). (i, f x)) (indexed xs)"
  by (simp add: indexed_def zip_map2)

text \<open>An optional string that the code tests for truthiness: absent and empty are falsy.\<close>

definition truthy :: "string option \<Rightarrow> bool" where
  "truthy s \<longleftrightarrow> (case s of None \<Rightarrow> False | Some t \<Rightarrow> t \<noteq> '''')"

lemma truthy_simps [simp]: "\<not> truthy None" "truthy (Some t) \<longleftrightarrow> t \<noteq> ''''"
  by (simp_all add: truthy_def)

lemma truthyE: "truthy s \<Longrightarrow> (\<And>t. s = Some t \<Longrightarrow> t \<noteq> '''' \<Longrightarrow> P) \<Longrightarrow> P"
  by (cases s) auto

end
