(* ===== verification/Domain_Types.thy ===== *)
theory Domain_Types
  imports Prelude Complex_Main
begin

text \<open>
  The data model of the workflow modeller (\<^verbatim>\<open>workflow-modeller/src/domain/types.ts\<close> and the
  shapes \<^verbatim>\<open>schema.ts\<close> infers): JSON values, boundary events, decision tables, the nine step
  variants, definitions, graph nodes and edges, diagnostics.

  A passthrough object keeps the keys its schema does not name; the model holds them in an
  \<open>extra\<close> association list. A number is its rational value. \<^verbatim>\<open>message\<close> texts of diagnostics are
  presentation only and are left out; every field a diagnostic carries besides is kept.
\<close>

section \<open>JSON values\<close>

datatype json =
    JNull
  | JBool bool
  | JNum rat
  | JStr string
  | JArr "json list"
  | JObj "(string \<times> json) list"

type_synonym fields = "(string, json) omap"

fun is_JArr :: "json \<Rightarrow> bool" where
  "is_JArr (JArr _) = True"
| "is_JArr _ = False"

section \<open>Steps and definitions\<close>

type_synonym step_id = string

record boundary_event =
  evt_type :: string
  evt_duration :: string
  evt_interrupting :: bool
  evt_targetStepId :: step_id
  evt_extra :: fields

record decision_table_rule =
  rule_when :: "(string, string) omap"
  rule_outputs :: "fields option"
  rule_extra :: fields

record decision_table =
  tbl_rules :: "decision_table_rule list"
  tbl_extra :: fields

record step_common =
  c_id :: step_id
  c_name :: string
  c_description :: "string option"
  c_extra :: fields

datatype step_type =
    SERVICE_TASK | USER_TASK | DECISION | DECISION_TABLE | TRANSFORMATION | WAIT
  | PARALLEL_GATEWAY | JOIN_GATEWAY | END

text \<open>One constructor per member of the union \<^verbatim>\<open>Step\<close>; after the common part the fields of the
  variant in the order of its schema.\<close>

datatype step =
    ServiceTask (common: step_common) (nextStep: "step_id option") (jobType: "string option")
      (delegateClass: "string option") (retryCount: "nat option")
      (boundaryEvents: "boundary_event list option")
  | UserTask (common: step_common) (nextStep: "step_id option") (jobType: "string option")
      (boundaryEvents: "boundary_event list option")
  | Decision (common: step_common) (conditionalNextSteps: "(string, step_id) omap")
  | DecisionTable (common: step_common) (hitPolicy: "string option") (nextStepReq: step_id)
      (decisionTable: decision_table)
  | Transformation (common: step_common) (nextStepReq: step_id) (transformations: fields)
  | Wait (common: step_common) (nextStepReq: step_id)
      (boundaryEvents: "boundary_event list option")
  | ParallelGateway (common: step_common) (parallelNextSteps: "step_id list") (joinStep: step_id)
  | JoinGateway (common: step_common) (nextStepReq: step_id)
  | End (common: step_common)

fun type_of :: "step \<Rightarrow> step_type" where
  "type_of (ServiceTask _ _ _ _ _ _) = SERVICE_TASK"
| "type_of (UserTask _ _ _ _) = USER_TASK"
| "type_of (Decision _ _) = DECISION"
| "type_of (DecisionTable _ _ _ _) = DECISION_TABLE"
| "type_of (Transformation _ _ _) = TRANSFORMATION"
| "type_of (Wait _ _ _) = WAIT"
| "type_of (ParallelGateway _ _ _) = PARALLEL_GATEWAY"
| "type_of (JoinGateway _ _) = JOIN_GATEWAY"
| "type_of (End _) = END"

text \<open>The literal of the union \<^verbatim>\<open>StepType\<close>.\<close>

fun type_text :: "step_type \<Rightarrow> string" where
  "type_text SERVICE_TASK = ''SERVICE_TASK''"
| "type_text USER_TASK = ''USER_TASK''"
| "type_text DECISION = ''DECISION''"
| "type_text DECISION_TABLE = ''DECISION_TABLE''"
| "type_text TRANSFORMATION = ''TRANSFORMATION''"
| "type_text WAIT = ''WAIT''"
| "type_text PARALLEL_GATEWAY = ''PARALLEL_GATEWAY''"
| "type_text JOIN_GATEWAY = ''JOIN_GATEWAY''"
| "type_text END = ''END''"

abbreviation step_id :: "step \<Rightarrow> step_id" where
  "step_id s \<equiv> c_id (common s)"

abbreviation step_name :: "step \<Rightarrow> string" where
  "step_name s \<equiv> c_name (common s)"

abbreviation step_extra :: "step \<Rightarrow> fields" where
  "step_extra s \<equiv> c_extra (common s)"

record workflow_definition =
  def_id :: string
  def_version :: "rat option"
  def_name :: string
  def_description :: "string option"
  autoStartNextWorkflow :: "bool option"
  nextWorkflowId :: "string option"
  steps :: "step list"
  metadata :: "fields option"
  def_extra :: fields

abbreviation step_ids :: "workflow_definition \<Rightarrow> step_id list" where
  "step_ids d \<equiv> map step_id (steps d)"

section \<open>Graph\<close>

datatype edge_variant =
    Sequential
  | Conditional string
  | Parallel
  | JoinTarget
  | JoinOut
  | Boundary nat

record graph_node =
  n_id :: step_id
  n_type :: step_type
  n_name :: string
  n_isEntry :: bool
  n_step :: step

record graph_edge =
  e_id :: string
  e_from :: step_id
  e_to :: step_id
  e_variant :: edge_variant
  e_sourceHandle :: "string option"

section \<open>Diagnostics\<close>

datatype severity = Error | Warning | Info

datatype diagnostic_code =
    ID_FORMAT | NAME_REQUIRED | STEPS_NONEMPTY | STEP_ID_UNIQUE | STEP_ID_REQUIRED
  | STEP_TYPE_VALID | NEXT_WORKFLOW_CONSISTENCY | DECISION_HAS_BRANCHES
  | TRANSFORMATION_HAS_NEXT | TRANSFORMATION_HAS_ENTRIES | WAIT_HAS_NEXT
  | PARALLEL_MIN_BRANCHES | PARALLEL_HAS_JOIN | JOIN_HAS_NEXT | REF_RESOLVES
  | ALL_REACHABLE | END_REACHABLE | BOUNDARY_TYPE | BOUNDARY_DURATION
  | BOUNDARY_TARGET_RESOLVES | BOUNDARY_PARENT_SUPPORTS | NO_NESTED_PARALLEL
  | DECISION_EXPR_SYNTAX | DECISION_EXPR_NON_BOOLEAN | DECISION_EXPR_UNKNOWN_IDENT
  | DECISION_EXPR_REFS | TRANSFORMATION_EXPR_SYNTAX | UNKNOWN_FIELDS_PRESENT | GRAPH_CYCLE
  | DECISION_TABLE_HAS_RULES | DECISION_TABLE_HAS_NEXT | DECISION_TABLE_HIT_POLICY_UNKNOWN
  | DECISION_TABLE_AGGREGATOR_ON_NON_C | DECISION_TABLE_LEGACY_THEN
  | DECISION_TABLE_LEGACY_DEFAULT_NEXT_STEP | DECISION_TABLE_UNREACHABLE_RULE
  | DT_CELL_EXPR_SYNTAX | DT_CELL_EXPR_NON_BOOLEAN | DT_CELL_EXPR_UNKNOWN_IDENT
  | DT_OUTPUT_EXPR_SYNTAX | STEP_FIELD_INVALID

record diagnostic =
  code :: diagnostic_code
  severity :: severity
  nodeId :: "step_id option"
  fieldName :: "string option"
  branchKey :: "string option"
  boundaryIndex :: "nat option"
  ruleIndex :: "nat option"
  cellColumn :: "string option"

text \<open>A diagnostic literal with the two mandatory fields; the optional ones are set by record
  update, in the way the object literals of the code list them.\<close>

definition diag :: "diagnostic_code \<Rightarrow> severity \<Rightarrow> diagnostic" where
  "diag c s = \<lparr>code = c, severity = s, nodeId = None, fieldName = None, branchKey = None,
     boundaryIndex = None, ruleIndex = None, cellColumn = None\<rparr>"

lemma diag_sel [simp]:
  "code (diag c s) = c" "severity (diag c s) = s" "nodeId (diag c s) = None"
  "fieldName (diag c s) = None" "branchKey (diag c s) = None"
  by (simp_all add: diag_def)

text \<open>The diagnostics of a report that carry a given code, and the ones that are errors.\<close>

definition with_code :: "diagnostic_code \<Rightarrow> diagnostic list \<Rightarrow> diagnostic list" where
  "with_code c ds = filter (\<lambda>d. code d = c) ds"

definition errors :: "diagnostic list \<Rightarrow> diagnostic list" where
  "errors ds = filter (\<lambda>d. severity d = Error) ds"

lemma errors_simps [simp]:
  "errors [] = []" "errors (d # ds) = (if severity d = Error then d # errors ds else errors ds)"
  "errors (xs @ ys) = errors xs @ errors ys"
  by (simp_all add: errors_def)

lemma errors_map_const [simp]: "errors (map (\<lambda>_. d) xs) = (if severity d = Error then map (\<lambda>_. d) xs else [])"
  by (induction xs) simp_all

lemma errors_concat: "errors (concat xss) = concat (map errors xss)"
  by (induction xss) simp_all

lemma errors_Nil_iff: "errors ds = [] \<longleftrightarrow> (\<forall>d \<in> set ds. severity d \<noteq> Error)"
  by (simp add: errors_def filter_empty_conv)

lemma with_code_simps [simp]:
  "with_code c [] = []" "with_code c (d # ds) = (if code d = c then d # with_code c ds else with_code c ds)"
  "with_code c (xs @ ys) = with_code c xs @ with_code c ys"
  by (simp_all add: with_code_def)

end
