(* ===== verification/Graph.thy ===== *)
theory Graph
  imports Domain_Types
begin

text \<open>
  \<^verbatim>\<open>workflow-modeller/src/domain/graph.ts\<close>: the nodes and edges the canvas draws for a
  definition, and the id index. Functions that push onto an \<^verbatim>\<open>out\<close> array return the list of
  what they push.
\<close>

section \<open>Edges\<close>

fun variant_kind :: "edge_variant \<Rightarrow> string" where
  "variant_kind Sequential = ''sequential''"
| "variant_kind (Conditional _) = ''conditional''"
| "variant_kind Parallel = ''parallel''"
| "variant_kind JoinTarget = ''join-target''"
| "variant_kind JoinOut = ''join-out''"
| "variant_kind (Boundary _) = ''boundary''"

definition discriminator :: "edge_variant \<Rightarrow> string" where
  "discriminator v =
     (case v of
        Conditional expression \<Rightarrow> ''conditional:'' @ expression
      | Boundary index \<Rightarrow> ''boundary:'' @ nat_str index
      | _ \<Rightarrow> variant_kind v)"

definition edgeId :: "step_id \<Rightarrow> step_id \<Rightarrow> edge_variant \<Rightarrow> string option \<Rightarrow> string" where
  "edgeId from to v key =
     from @ ''--'' @ discriminator v @ (case key of None \<Rightarrow> '''' | Some k \<Rightarrow> '':'' @ k)
       @ ''-->'' @ to"

definition makeEdge :: "step_id \<Rightarrow> step_id \<Rightarrow> edge_variant \<Rightarrow> graph_edge" where
  "makeEdge from to v =
     \<lparr>e_id = edgeId from to v None, e_from = from, e_to = to, e_variant = v,
      e_sourceHandle = None\<rparr>"

definition pushBoundaryEdges :: "step_id \<Rightarrow> boundary_event list option \<Rightarrow> graph_edge list" where
  "pushBoundaryEdges i events =
     (case events of
        None \<Rightarrow> []
      | Some evts \<Rightarrow>
          map (\<lambda>(index, evt). makeEdge i (evt_targetStepId evt) (Boundary index)) (indexed evts))"

fun pushStepEdges :: "step \<Rightarrow> graph_edge list" where
  "pushStepEdges (ServiceTask c next _ _ _ events) =
     (if truthy next then [makeEdge (c_id c) (the next) Sequential] else [])
       @ pushBoundaryEdges (c_id c) events"
| "pushStepEdges (UserTask c next _ events) =
     (if truthy next then [makeEdge (c_id c) (the next) Sequential] else [])
       @ pushBoundaryEdges (c_id c) events"
| "pushStepEdges (Wait c next events) =
     makeEdge (c_id c) next Sequential # pushBoundaryEdges (c_id c) events"
| "pushStepEdges (Decision c branches) =
     map (\<lambda>(expression, target).
            (makeEdge (c_id c) target (Conditional expression))
              \<lparr>e_sourceHandle := Some (''branch:'' @ expression)\<rparr>) branches"
| "pushStepEdges (DecisionTable c _ next _) = [makeEdge (c_id c) next Sequential]"
| "pushStepEdges (Transformation c next _) = [makeEdge (c_id c) next Sequential]"
| "pushStepEdges (ParallelGateway c targets _) =
     map (\<lambda>(i, target).
            (makeEdge (c_id c) target Parallel)
              \<lparr>e_sourceHandle := Some (''parallel:'' @ nat_str i)\<rparr>) (indexed targets)"
| "pushStepEdges (JoinGateway c next) = [makeEdge (c_id c) next JoinOut]"
| "pushStepEdges (End _) = []"

definition toEdges :: "workflow_definition \<Rightarrow> graph_edge list" where
  "toEdges d = concat (map pushStepEdges (steps d))"

section \<open>Nodes and index\<close>

definition toNodes :: "workflow_definition \<Rightarrow> graph_node list" where
  "toNodes d =
     map (\<lambda>(i, s). \<lparr>n_id = step_id s, n_type = type_of s, n_name = step_name s,
            n_isEntry = (i = 0), n_step = s\<rparr>) (indexed (steps d))"

definition indexSteps :: "workflow_definition \<Rightarrow> (step_id, step) omap" where
  "indexSteps d = fold (\<lambda>s m. map_set (step_id s) s m) (steps d) []"

section \<open>Lemmas\<close>

lemma makeEdge_sel [simp]:
  "e_id (makeEdge f t v) = edgeId f t v None" "e_from (makeEdge f t v) = f"
  "e_to (makeEdge f t v) = t" "e_variant (makeEdge f t v) = v"
  "e_sourceHandle (makeEdge f t v) = None"
  by (simp_all add: makeEdge_def)

lemma indexSteps_get:
  "map_get (indexSteps d) i = find (\<lambda>s. step_id s = i) (rev (steps d))"
  by (simp add: indexSteps_def omap.get_fold_set split: option.splits)

lemma indexSteps_keys: "set (map_keys (indexSteps d)) = set (step_ids d)"
  by (simp add: indexSteps_def omap.keys_fold_set) (simp add: map_keys_def)

lemma indexSteps_has: "map_has (indexSteps d) i \<longleftrightarrow> i \<in> set (step_ids d)"
  by (simp add: map_has_iff indexSteps_keys)

lemma indexSteps_getD: "map_get (indexSteps d) i = Some s \<Longrightarrow> s \<in> set (steps d) \<and> step_id s = i"
  by (auto simp: indexSteps_get dest: find_SomeD)

lemma indexSteps_unique:
  assumes "distinct (step_ids d)" and "s \<in> set (steps d)"
  shows "map_get (indexSteps d) (step_id s) = Some s"
proof -
  from assms(2) have "step_id s \<in> set (map_keys (indexSteps d))"
    by (simp add: indexSteps_keys)
  then obtain t where t: "map_get (indexSteps d) (step_id s) = Some t"
    by (auto simp: map_keys_get)
  with assms show ?thesis
    by (auto dest!: indexSteps_getD simp: distinct_map inj_on_def)
qed

lemma pushStepEdges_from: "e \<in> set (pushStepEdges s) \<Longrightarrow> e_from e = step_id s"
  by (cases s) (auto simp: pushBoundaryEdges_def split: option.splits if_splits)

end
