(* ===== verification/Rename.thy ===== *)
theory Rename
  imports Graph
begin

text \<open>
  \<^verbatim>\<open>workflow-modeller/src/domain/rename.ts\<close>: replacing a step id everywhere in a definition.
  The thrown \<^verbatim>\<open>Error\<close> is the left value of a sum.
\<close>

section \<open>Model\<close>

datatype rename_error = StepIdExists step_id step_id

definition remap :: "step_id \<Rightarrow> step_id \<Rightarrow> step_id \<Rightarrow> step_id" where
  "remap oldId newId i = (if i = oldId then newId else i)"

definition withRemappedBoundary ::
  "(step_id \<Rightarrow> step_id) \<Rightarrow> boundary_event list option \<Rightarrow> boundary_event list option" where
  "withRemappedBoundary f events =
     map_option (map (\<lambda>evt. evt\<lparr>evt_targetStepId := f (evt_targetStepId evt)\<rparr>)) events"

definition remapBase :: "step_id \<Rightarrow> step_id \<Rightarrow> step_common \<Rightarrow> step_common" where
  "remapBase oldId newId c = (if c_id c = oldId then c\<lparr>c_id := newId\<rparr> else c)"

fun remapStep :: "step_id \<Rightarrow> step_id \<Rightarrow> step \<Rightarrow> step" where
  "remapStep oldId newId (ServiceTask c next jt dc rc events) =
     ServiceTask (remapBase oldId newId c) (map_option (remap oldId newId) next) jt dc rc
       (withRemappedBoundary (remap oldId newId) events)"
| "remapStep oldId newId (UserTask c next jt events) =
     UserTask (remapBase oldId newId c) (map_option (remap oldId newId) next) jt
       (withRemappedBoundary (remap oldId newId) events)"
| "remapStep oldId newId (Wait c next events) =
     Wait (remapBase oldId newId c) (remap oldId newId next)
       (withRemappedBoundary (remap oldId newId) events)"
| "remapStep oldId newId (Transformation c next ts) =
     Transformation (remapBase oldId newId c) (remap oldId newId next) ts"
| "remapStep oldId newId (JoinGateway c next) =
     JoinGateway (remapBase oldId newId c) (remap oldId newId next)"
| "remapStep oldId newId (Decision c branches) =
     Decision (remapBase oldId newId c)
       (map (\<lambda>(expr, target). (expr, remap oldId newId target)) branches)"
| "remapStep oldId newId (DecisionTable c hp next tbl) =
     DecisionTable (remapBase oldId newId c) hp (remap oldId newId next) tbl"
| "remapStep oldId newId (ParallelGateway c targets join) =
     ParallelGateway (remapBase oldId newId c) (map (remap oldId newId) targets)
       (remap oldId newId join)"
| "remapStep oldId newId (End c) = End (remapBase oldId newId c)"

definition renameStepId ::
  "workflow_definition \<Rightarrow> step_id \<Rightarrow> step_id \<Rightarrow> rename_error + workflow_definition" where
  "renameStepId d oldId newId =
     (if oldId = newId then Inr d
      else if list_ex (\<lambda>s. step_id s = newId) (steps d) then Inl (StepIdExists oldId newId)
      else Inr (d\<lparr>steps := map (remapStep oldId newId) (steps d)\<rparr>))"

section \<open>References of a step\<close>

text \<open>Every place of a step that names another step: what a rename has to rewrite.\<close>

definition boundary_refs :: "boundary_event list option \<Rightarrow> step_id list" where
  "boundary_refs events = (case events of None \<Rightarrow> [] | Some evts \<Rightarrow> map evt_targetStepId evts)"

fun step_refs :: "step \<Rightarrow> step_id list" where
  "step_refs (ServiceTask _ next _ _ _ events) =
     (case next of None \<Rightarrow> [] | Some n \<Rightarrow> [n]) @ boundary_refs events"
| "step_refs (UserTask _ next _ events) =
     (case next of None \<Rightarrow> [] | Some n \<Rightarrow> [n]) @ boundary_refs events"
| "step_refs (Decision _ branches) = map snd branches"
| "step_refs (DecisionTable _ _ next _) = [next]"
| "step_refs (Transformation _ next _) = [next]"
| "step_refs (Wait _ next events) = next # boundary_refs events"
| "step_refs (ParallelGateway _ targets join) = targets @ [join]"
| "step_refs (JoinGateway _ next) = [next]"
| "step_refs (End _) = []"

definition def_refs :: "workflow_definition \<Rightarrow> step_id list" where
  "def_refs d = concat (map step_refs (steps d))"

section \<open>Lemmas\<close>

lemma remap_simps [simp]: "remap a b a = b" "i \<noteq> a \<Longrightarrow> remap a b i = i"
  by (simp_all add: remap_def)

lemma remap_inverse: "i \<noteq> b \<Longrightarrow> remap b a (remap a b i) = i"
  by (simp add: remap_def)

lemma remap_not_old: "a \<noteq> b \<Longrightarrow> remap a b i \<noteq> a"
  by (simp add: remap_def)

lemma inj_on_remap: "b \<notin> A \<Longrightarrow> inj_on (remap a b) A"
  by (auto simp: inj_on_def remap_def split: if_splits)

lemma c_id_remapBase [simp]: "c_id (remapBase a b c) = remap a b (c_id c)"
  by (simp add: remapBase_def remap_def)

lemma remapBase_inverse: "c_id c \<noteq> b \<Longrightarrow> remapBase b a (remapBase a b c) = c"
  by (auto simp: remapBase_def)

lemma step_id_remapStep [simp]: "step_id (remapStep a b s) = remap a b (step_id s)"
  by (cases s) simp_all

lemma type_of_remapStep [simp]: "type_of (remapStep a b s) = type_of s"
  by (cases s) simp_all

lemma boundary_refs_remap: "boundary_refs (withRemappedBoundary f ev) = map f (boundary_refs ev)"
  by (cases ev) (simp_all add: boundary_refs_def withRemappedBoundary_def)

lemma step_refs_remapStep: "step_refs (remapStep a b s) = map (remap a b) (step_refs s)"
  by (cases s) (auto simp: boundary_refs_remap split: option.splits)

lemma remapBoundary_inverse:
  "b \<notin> set (boundary_refs ev) \<Longrightarrow>
   withRemappedBoundary (remap b a) (withRemappedBoundary (remap a b) ev) = ev"
  by (cases ev) (auto simp: withRemappedBoundary_def boundary_refs_def remap_def intro!: map_idI)

lemma remapOption_inverse:
  "next \<noteq> Some b \<Longrightarrow> map_option (remap b a) (map_option (remap a b) next) = next"
  by (cases "next") (auto simp: remap_inverse)

lemma remapStep_inverse:
  assumes "step_id s \<noteq> b" and "b \<notin> set (step_refs s)"
  shows "remapStep b a (remapStep a b s) = s"
  using assms
  by (cases s)
    (force simp: remapBase_inverse remapBoundary_inverse remapOption_inverse
       intro!: map_idI remap_inverse split: option.splits)+

lemma renameStepId_Inr_iff:
  "renameStepId d a b = Inr d' \<longleftrightarrow>
     (if a = b then d' = d
      else b \<notin> set (step_ids d) \<and> d' = d\<lparr>steps := map (remapStep a b) (steps d)\<rparr>)"
  by (auto simp: renameStepId_def list_ex_iff)

lemma pushBoundaryEdges_remap:
  "map (\<lambda>e. (e_from e, e_to e, e_variant e)) (pushBoundaryEdges (f i) (withRemappedBoundary f ev)) =
   map (\<lambda>e. (f (e_from e), f (e_to e), e_variant e)) (pushBoundaryEdges i ev)"
  by (cases ev)
    (simp_all add: pushBoundaryEdges_def withRemappedBoundary_def indexed_map case_prod_beta)

lemma truthy_remap: "a \<noteq> '''' \<Longrightarrow> b \<noteq> '''' \<Longrightarrow> truthy (map_option (remap a b) t) = truthy t"
  by (cases t) (auto simp: remap_def)

lemma the_remap: "truthy t \<Longrightarrow> the (map_option (remap a b) t) = remap a b (the t)"
  by (cases t) auto

lemma pushStepEdges_remap:
  assumes "a \<noteq> ''''" and "b \<noteq> ''''"
  shows "map (\<lambda>e. (e_from e, e_to e, e_variant e)) (pushStepEdges (remapStep a b s)) =
    map (\<lambda>e. (remap a b (e_from e), remap a b (e_to e), e_variant e)) (pushStepEdges s)"
  using assms
  by (cases s)
    (auto simp: pushBoundaryEdges_remap truthy_remap the_remap indexed_map case_prod_beta)

text \<open>A definition with one waiting step and one end, for the concrete instances below.\<close>

definition sample_flow :: "step_id \<Rightarrow> step_id \<Rightarrow> workflow_definition" where
  "sample_flow i j =
     \<lparr>def_id = ''w'', def_version = None, def_name = ''W'', def_description = None,
      autoStartNextWorkflow = None, nextWorkflowId = None,
      steps = [Wait \<lparr>c_id = i, c_name = ''A'', c_description = None, c_extra = []\<rparr> j None,
               End \<lparr>c_id = j, c_name = ''B'', c_description = None, c_extra = []\<rparr>],
      metadata = None, def_extra = []\<rparr>"

section \<open>Properties\<close>

text \<open>Renaming a step transports the whole graph: the edges of the renamed definition are,
  in the same order and with the same variants, the edges of the original with both end points
  renamed. No edge is lost, added or redirected. Both ids are non-empty, since the empty id is
  how an unset \<^verbatim>\<open>nextStep\<close> is stored.\<close>

theorem rename_transports_edges:
  assumes "oldId \<noteq> ''''" and "newId \<noteq> ''''" and "renameStepId d oldId newId = Inr d'"
  shows "map (\<lambda>e. (e_from e, e_to e, e_variant e)) (toEdges d') =
    map (\<lambda>e. (remap oldId newId (e_from e), remap oldId newId (e_to e), e_variant e)) (toEdges d)"
proof (cases "oldId = newId")
  case True
  with assms(3) show ?thesis by (simp add: renameStepId_Inr_iff remap_def)
next
  case False
  with assms(3) have "steps d' = map (remapStep oldId newId) (steps d)"
    by (simp add: renameStepId_Inr_iff)
  then show ?thesis
    by (simp add: toEdges_def map_concat o_def pushStepEdges_remap [OF assms(1,2)])
qed

theorem rename_transports_edges_witness:
  "map (\<lambda>e. (e_from e, e_to e, e_variant e)) (toEdges (sample_flow ''x'' ''b'')) = [(''x'', ''b'', Sequential)]"
  using rename_transports_edges [of "''a''" "''x''" "sample_flow ''a'' ''b''" "sample_flow ''x'' ''b''"]
  by (simp add: sample_flow_def renameStepId_def toEdges_def pushBoundaryEdges_def
      withRemappedBoundary_def remapBase_def)

text \<open>A rename to an unused id is reversible: if the new id occurs neither as a step id nor
  as a reference, renaming back gives the original definition, fields the code does not touch
  included.\<close>

theorem rename_roundtrip:
  assumes "newId \<notin> set (def_refs d)" and "renameStepId d oldId newId = Inr d'"
  shows "renameStepId d' newId oldId = Inr d"
proof (cases "oldId = newId")
  case True
  with assms(2) show ?thesis by (simp add: renameStepId_def)
next
  case False
  with assms(2) have fresh: "newId \<notin> set (step_ids d)"
    and d': "d' = d\<lparr>steps := map (remapStep oldId newId) (steps d)\<rparr>"
    by (simp_all add: renameStepId_Inr_iff)
  have "map (remapStep newId oldId) (map (remapStep oldId newId) (steps d)) = steps d"
    using fresh assms(1)
    by (auto simp: def_refs_def intro!: map_idI remapStep_inverse)
  moreover have "oldId \<notin> set (step_ids d')"
    using False by (auto simp: d' remap_def)
  ultimately show ?thesis using False by (simp add: renameStepId_Inr_iff d')
qed

theorem rename_roundtrip_witness: "renameStepId (sample_flow ''x'' ''b'') ''x'' ''a'' = Inr (sample_flow ''a'' ''b'')"
  using rename_roundtrip [of "''x''" "sample_flow ''a'' ''b''" "''a''" "sample_flow ''x'' ''b''"]
  by (simp add: sample_flow_def renameStepId_def withRemappedBoundary_def remapBase_def def_refs_def
      boundary_refs_def)

text \<open>What a successful rename guarantees: the ids of the steps are the old ones with the
  one id replaced (so uniqueness is kept), and the old id occurs nowhere any more, neither as a
  step id nor as a reference.\<close>

theorem rename_ids:
  assumes "oldId \<noteq> newId" and "renameStepId d oldId newId = Inr d'"
  shows "step_ids d' = map (remap oldId newId) (step_ids d) \<and>
    (distinct (step_ids d) \<longrightarrow> distinct (step_ids d')) \<and>
    oldId \<notin> set (step_ids d') \<and> oldId \<notin> set (def_refs d')"
proof -
  from assms have fresh: "newId \<notin> set (step_ids d)"
    and st: "steps d' = map (remapStep oldId newId) (steps d)"
    by (simp_all add: renameStepId_Inr_iff)
  have ids: "step_ids d' = map (remap oldId newId) (step_ids d)" by (simp add: st)
  moreover have "distinct (step_ids d) \<longrightarrow> distinct (step_ids d')"
    unfolding ids using inj_on_remap [OF fresh] by (metis distinct_map)
  moreover have "oldId \<notin> set (step_ids d')"
    using assms(1) unfolding ids by (auto dest: remap_not_old [THEN not_sym])
  moreover have "oldId \<notin> set (def_refs d')"
    using assms(1) by (auto simp: def_refs_def st step_refs_remapStep dest: remap_not_old [THEN not_sym])
  ultimately show ?thesis by blast
qed

theorem rename_ids_witness: "distinct (step_ids (sample_flow ''x'' ''b'')) \<and> ''a'' \<notin> set (def_refs (sample_flow ''x'' ''b''))"
  using rename_ids [of "''a''" "''x''" "sample_flow ''a'' ''b''" "sample_flow ''x'' ''b''"]
  by (simp add: sample_flow_def renameStepId_def withRemappedBoundary_def remapBase_def)

end
