(* ===== verification/Expr_Parser.thy ===== *)
theory Expr_Parser
  imports Prelude
begin

text \<open>
  The decision-expression language of the modeller:
  \<^verbatim>\<open>workflow-modeller/src/domain/expression/parser.ts\<close> and the parser of
  \<^verbatim>\<open>parser.generated.ts\<close> that \<^verbatim>\<open>grammar.pegjs\<close> describes.

  A rule function \<^verbatim>\<open>peg$parseX\<close> reads \<^verbatim>\<open>input\<close> at \<^verbatim>\<open>peg$currPos\<close> and moves the position; here
  it takes the input that is left and returns the value with what is left after it.
  \<^verbatim>\<open>peg$FAILED\<close> is \<open>Failed\<close>. The rules are mutually recursive through \<^verbatim>\<open>OrExpr\<close> only (in
  parentheses and arguments), so every rule below it takes the parser for nested \<^verbatim>\<open>OrExpr\<close> as a
  parameter, and \<open>parseOrExprN\<close> ties the knot with fuel for the nesting depth. \<open>OutOfFuel\<close> is not
  a result of the code: one more unit than the length of the input is always enough, and the
  result does not depend on the amount then (section \<^emph>\<open>Totality\<close>). The bookkeeping of
  \<^verbatim>\<open>peg$fail\<close>, which only shapes the text and position of the error message, is left out.

  The value of a number literal is \<^verbatim>\<open>parseInt\<close> or \<^verbatim>\<open>parseFloat\<close> of a text; the model keeps that text.
\<close>

section \<open>Abstract syntax\<close>

datatype binary_op = EqOp | NeOp | GtOp | GeOp | LtOp | LeOp | AddOp | SubOp | MulOp | DivOp | AndOp | OrOp

datatype call_fn = Contains | Len

datatype expr =
    IntLit string
  | FloatLit string
  | BoolLit bool
  | StringLit string
  | Identifier "string list"
  | Unary expr
  | Binary binary_op expr expr
  | Membership expr expr
  | Call call_fn "expr list"

datatype 'a pres = OutOfFuel | Failed | Ok 'a string

section \<open>Lexical rules\<close>

definition peg_space :: "char \<Rightarrow> bool" where
  "peg_space c \<longleftrightarrow> c \<in> {CHR '' '', CHR 0x09, CHR 0x0A, CHR 0x0D}"

definition parse_ws :: "string \<Rightarrow> string" where
  "parse_ws s = dropWhile peg_space s"

definition lit :: "string \<Rightarrow> 'a \<Rightarrow> string \<Rightarrow> 'a pres" where
  "lit text v s = (if starts_with text s then Ok v (drop (length text) s) else Failed)"

definition identRest :: "char \<Rightarrow> bool" where
  "identRest c \<longleftrightarrow> is_alpha c \<or> is_digit c \<or> c = CHR ''_''"

definition no_identRest :: "string \<Rightarrow> bool" where
  "no_identRest s \<longleftrightarrow> (case s of [] \<Rightarrow> True | c # _ \<Rightarrow> \<not> identRest c)"

text \<open>\<^verbatim>\<open>"word" !IdentRest\<close>.\<close>

definition keyword :: "string \<Rightarrow> 'a \<Rightarrow> string \<Rightarrow> 'a pres" where
  "keyword text v s =
     (case lit text v s of Ok x r \<Rightarrow> if no_identRest r then Ok x r else Failed | p \<Rightarrow> p)"

definition parseIdent :: "string \<Rightarrow> string pres" where
  "parseIdent s =
     (case s of
        [] \<Rightarrow> Failed
      | c # r \<Rightarrow>
          if is_alpha c \<or> c = CHR ''_'' then Ok (c # takeWhile identRest r) (dropWhile identRest r)
          else Failed)"

lemma parseIdent_shrinks: "parseIdent s = Ok i r \<Longrightarrow> length r < length s"
  by (auto simp: parseIdent_def less_Suc_eq_le length_dropWhile_le split: list.splits if_splits)

function identPathTail :: "string \<Rightarrow> string list \<times> string" where
  "identPathTail s =
     (case s of
        c # r \<Rightarrow>
          if c = CHR ''.''
          then (case parseIdent r of
                  Ok i r' \<Rightarrow> (case identPathTail r' of (is, r'') \<Rightarrow> (i # is, r''))
                | _ \<Rightarrow> ([], s))
          else ([], s)
      | [] \<Rightarrow> ([], s))"
  by pat_completeness auto
termination
  by (relation "measure length") (auto dest: parseIdent_shrinks)

declare identPathTail.simps [simp del]

definition parseIdentPath :: "string \<Rightarrow> string list pres" where
  "parseIdentPath s =
     (case parseIdent s of
        Ok i r \<Rightarrow> (case identPathTail r of (is, r') \<Rightarrow> Ok (i # is) r')
      | Failed \<Rightarrow> Failed
      | OutOfFuel \<Rightarrow> OutOfFuel)"

definition parseDollarIdent :: "string \<Rightarrow> expr pres" where
  "parseDollarIdent s =
     (case lit ''${'' () s of
        Ok _ r \<Rightarrow>
          (case parseIdentPath (parse_ws r) of
             Ok path r' \<Rightarrow> lit ''}'' (Identifier path) (parse_ws r')
           | _ \<Rightarrow> Failed)
      | _ \<Rightarrow> Failed)"

definition parseHashIdent :: "string \<Rightarrow> expr pres" where
  "parseHashIdent s =
     (case lit ''#'' () s of
        Ok _ r \<Rightarrow> (case parseIdentPath r of Ok path r' \<Rightarrow> Ok (Identifier path) r' | _ \<Rightarrow> Failed)
      | _ \<Rightarrow> Failed)"

definition parseBareIdent :: "string \<Rightarrow> expr pres" where
  "parseBareIdent s =
     (case parseIdentPath s of Ok path r' \<Rightarrow> Ok (Identifier path) r' | _ \<Rightarrow> Failed)"

text \<open>Ordered choice.\<close>

fun or_else :: "'a pres \<Rightarrow> 'a pres \<Rightarrow> 'a pres" where
  "or_else Failed q = q"
| "or_else p q = p"

definition parseIdentifierExpr :: "string \<Rightarrow> expr pres" where
  "parseIdentifierExpr s =
     or_else (parseDollarIdent s) (or_else (parseHashIdent s) (parseBareIdent s))"

definition sign_split :: "string \<Rightarrow> string \<times> string" where
  "sign_split s = (if starts_with ''-'' s then (''-'', drop 1 s) else ('''', s))"

definition parseIntLit :: "string \<Rightarrow> expr pres" where
  "parseIntLit s =
     (let (sign, r) = sign_split s; digits = takeWhile is_digit r
      in if digits = '''' then Failed
         else Ok (IntLit (sign @ digits)) (dropWhile is_digit r))"

definition parseFloatLit :: "string \<Rightarrow> expr pres" where
  "parseFloatLit s =
     (let (sign, r) = sign_split s; digits = takeWhile is_digit r
      in if digits = '''' then Failed
         else (case lit ''.'' () (dropWhile is_digit r) of
                 Ok _ r' \<Rightarrow>
                   (let frac = takeWhile is_digit r'
                    in if frac = '''' then Failed
                       else Ok (FloatLit (sign @ digits @ ''.'' @ frac)) (dropWhile is_digit r'))
               | _ \<Rightarrow> Failed))"

definition parseBoolLit :: "string \<Rightarrow> expr pres" where
  "parseBoolLit s =
     (case or_else (lit ''true'' True s) (lit ''false'' False s) of
        Ok b r \<Rightarrow> if no_identRest r then Ok (BoolLit b) r else Failed
      | _ \<Rightarrow> Failed)"

definition quoted :: "char \<Rightarrow> string \<Rightarrow> expr pres" where
  "quoted q s =
     (case s of
        c # r \<Rightarrow>
          if c = q then lit [q] (StringLit (takeWhile (\<lambda>x. x \<noteq> q) r)) (dropWhile (\<lambda>x. x \<noteq> q) r)
          else Failed
      | [] \<Rightarrow> Failed)"

definition parseStringLit :: "string \<Rightarrow> expr pres" where
  "parseStringLit s = or_else (quoted CHR 0x27 s) (quoted CHR 0x22 s)"

definition parseLiteral :: "string \<Rightarrow> expr pres" where
  "parseLiteral s =
     or_else (parseFloatLit s)
       (or_else (parseIntLit s) (or_else (parseBoolLit s) (parseStringLit s)))"

section \<open>Operators\<close>

definition parseEqOp :: "string \<Rightarrow> binary_op pres" where
  "parseEqOp s = or_else (lit ''=='' EqOp s) (lit ''!='' NeOp s)"

text \<open>\<open>None\<close> is the word \<^verbatim>\<open>in\<close>, which builds a membership node.\<close>

definition parseRelOp :: "string \<Rightarrow> binary_op option pres" where
  "parseRelOp s =
     or_else (lit ''>='' (Some GeOp) s)
       (or_else (lit ''<='' (Some LeOp) s)
          (or_else (lit ''>'' (Some GtOp) s)
             (or_else (lit ''<'' (Some LtOp) s) (keyword ''in'' None s))))"

definition parseAddOp :: "string \<Rightarrow> binary_op pres" where
  "parseAddOp s = or_else (lit ''+'' AddOp s) (lit ''-'' SubOp s)"

definition parseMulOp :: "string \<Rightarrow> binary_op pres" where
  "parseMulOp s = or_else (lit ''*'' MulOp s) (lit ''/'' DivOp s)"

definition parseCallFn :: "string \<Rightarrow> call_fn pres" where
  "parseCallFn s =
     (case or_else (lit ''contains'' Contains s) (lit ''len'' Len s) of
        Ok f r \<Rightarrow> if no_identRest r then Ok f r else Failed
      | p \<Rightarrow> p)"

section \<open>Expression rules\<close>

text \<open>
  \<^verbatim>\<open>(_ op _ operand)*\<close>: the \<^verbatim>\<open>while (s3 !== peg$FAILED)\<close> loop. An iteration that fails resets the
  position to where it began, before the white space. Every iteration consumes input, so the
  length of the input bounds their number.
\<close>

fun peg_tail :: "nat \<Rightarrow> (string \<Rightarrow> 'o pres) \<Rightarrow> (string \<Rightarrow> 'a pres) \<Rightarrow> string \<Rightarrow> ('o \<times> 'a) list pres"
  where
  "peg_tail 0 oper operand s = OutOfFuel"
| "peg_tail (Suc n) oper operand s =
     (case oper (parse_ws s) of
        Ok o' r \<Rightarrow>
          (case operand (parse_ws r) of
             Ok e r' \<Rightarrow>
               (case peg_tail n oper operand r' of
                  Ok rest r'' \<Rightarrow> Ok ((o', e) # rest) r''
                | p \<Rightarrow> p)
           | Failed \<Rightarrow> Ok [] s
           | OutOfFuel \<Rightarrow> OutOfFuel)
      | Failed \<Rightarrow> Ok [] s
      | OutOfFuel \<Rightarrow> OutOfFuel)"

text \<open>\<^verbatim>\<open>head:operand tail:(_ op _ operand)*\<close> with the reduction of the tail onto the head.\<close>

definition peg_infix ::
  "(string \<Rightarrow> 'o pres) \<Rightarrow> ('o \<Rightarrow> expr \<Rightarrow> expr \<Rightarrow> expr) \<Rightarrow> (string \<Rightarrow> expr pres) \<Rightarrow> string \<Rightarrow> expr pres"
  where
  "peg_infix oper mk operand s =
     (case operand s of
        Ok head r \<Rightarrow>
          (case peg_tail (Suc (length r)) oper operand r of
             Ok tail r' \<Rightarrow> Ok (foldl (\<lambda>lhs (o', rhs). mk o' lhs rhs) head tail) r'
           | Failed \<Rightarrow> Failed
           | OutOfFuel \<Rightarrow> OutOfFuel)
      | p \<Rightarrow> p)"

definition parseArgs :: "(string \<Rightarrow> expr pres) \<Rightarrow> string \<Rightarrow> expr list pres" where
  "parseArgs orExpr s =
     (case orExpr s of
        Ok head r \<Rightarrow>
          (case peg_tail (Suc (length r)) (lit '','' ()) orExpr r of
             Ok tail r' \<Rightarrow> Ok (head # map snd tail) r'
           | Failed \<Rightarrow> Failed
           | OutOfFuel \<Rightarrow> OutOfFuel)
      | Failed \<Rightarrow> Ok [] (parse_ws s)
      | OutOfFuel \<Rightarrow> OutOfFuel)"

definition mkCall :: "call_fn \<Rightarrow> expr list \<Rightarrow> expr" where
  "mkCall fn args =
     (if fn = Contains \<and> length args = 2 then Membership (args ! 1) (args ! 0) else Call fn args)"

definition parseCall :: "(string \<Rightarrow> expr pres) \<Rightarrow> string \<Rightarrow> expr pres" where
  "parseCall orExpr s =
     (case parseCallFn s of
        Ok fn r \<Rightarrow>
          (case lit ''('' () (parse_ws r) of
             Ok _ r' \<Rightarrow>
               (case parseArgs orExpr (parse_ws r') of
                  Ok args r'' \<Rightarrow> lit '')'' (mkCall fn args) (parse_ws r'')
                | Failed \<Rightarrow> Failed
                | OutOfFuel \<Rightarrow> OutOfFuel)
           | _ \<Rightarrow> Failed)
      | _ \<Rightarrow> Failed)"

definition parseParenExpr :: "(string \<Rightarrow> expr pres) \<Rightarrow> string \<Rightarrow> expr pres" where
  "parseParenExpr orExpr s =
     (case lit ''('' () s of
        Ok _ r \<Rightarrow>
          (case orExpr (parse_ws r) of
             Ok e r' \<Rightarrow> lit '')'' e (parse_ws r')
           | p \<Rightarrow> p)
      | _ \<Rightarrow> Failed)"

definition parsePrimary :: "(string \<Rightarrow> expr pres) \<Rightarrow> string \<Rightarrow> expr pres" where
  "parsePrimary orExpr s =
     or_else (parseCall orExpr s)
       (or_else (parseParenExpr orExpr s) (or_else (parseLiteral s) (parseIdentifierExpr s)))"

lemma length_parse_ws: "length (parse_ws s) \<le> length s"
  by (simp add: parse_ws_def length_dropWhile_le)

function parseUnaryExpr :: "(string \<Rightarrow> expr pres) \<Rightarrow> string \<Rightarrow> expr pres" where
  "parseUnaryExpr orExpr s =
     (case s of
        c # r \<Rightarrow>
          if c = CHR ''!''
          then (case parseUnaryExpr orExpr (parse_ws r) of
                  Ok e r' \<Rightarrow> Ok (Unary e) r'
                | Failed \<Rightarrow> parsePrimary orExpr s
                | OutOfFuel \<Rightarrow> OutOfFuel)
          else parsePrimary orExpr s
      | [] \<Rightarrow> parsePrimary orExpr s)"
  by pat_completeness auto
termination
  by (relation "measure (\<lambda>(_, s). length s)") (auto simp: le_imp_less_Suc length_parse_ws)

declare parseUnaryExpr.simps [simp del]

definition parseMulExpr :: "(string \<Rightarrow> expr pres) \<Rightarrow> string \<Rightarrow> expr pres" where
  "parseMulExpr orExpr = peg_infix parseMulOp Binary (parseUnaryExpr orExpr)"

definition parseAddExpr :: "(string \<Rightarrow> expr pres) \<Rightarrow> string \<Rightarrow> expr pres" where
  "parseAddExpr orExpr = peg_infix parseAddOp Binary (parseMulExpr orExpr)"

definition foldRel :: "binary_op option \<Rightarrow> expr \<Rightarrow> expr \<Rightarrow> expr" where
  "foldRel op lhs rhs = (case op of None \<Rightarrow> Membership lhs rhs | Some o' \<Rightarrow> Binary o' lhs rhs)"

definition parseRelExpr :: "(string \<Rightarrow> expr pres) \<Rightarrow> string \<Rightarrow> expr pres" where
  "parseRelExpr orExpr = peg_infix parseRelOp foldRel (parseAddExpr orExpr)"

definition parseEqExpr :: "(string \<Rightarrow> expr pres) \<Rightarrow> string \<Rightarrow> expr pres" where
  "parseEqExpr orExpr = peg_infix parseEqOp Binary (parseRelExpr orExpr)"

definition parseAndExpr :: "(string \<Rightarrow> expr pres) \<Rightarrow> string \<Rightarrow> expr pres" where
  "parseAndExpr orExpr = peg_infix (lit ''&&'' AndOp) Binary (parseEqExpr orExpr)"

definition parseOrExpr :: "(string \<Rightarrow> expr pres) \<Rightarrow> string \<Rightarrow> expr pres" where
  "parseOrExpr orExpr = peg_infix (lit ''||'' OrOp) Binary (parseAndExpr orExpr)"

fun parseOrExprN :: "nat \<Rightarrow> string \<Rightarrow> expr pres" where
  "parseOrExprN 0 s = OutOfFuel"
| "parseOrExprN (Suc n) s = parseOrExpr (parseOrExprN n) s"

definition parseStart :: "nat \<Rightarrow> string \<Rightarrow> expr pres" where
  "parseStart n s =
     (case parseOrExprN n (parse_ws s) of Ok e r \<Rightarrow> Ok e (parse_ws r) | p \<Rightarrow> p)"

text \<open>\<^verbatim>\<open>peg$parse\<close>: the whole input has to be consumed. \<open>None\<close> is the thrown \<^verbatim>\<open>SyntaxError\<close>.\<close>

definition peg_parse :: "string \<Rightarrow> expr option" where
  "peg_parse s =
     (case parseStart (Suc (length s)) s of
        Ok e r \<Rightarrow> if r = '''' then Some e else None
      | _ \<Rightarrow> None)"

section \<open>The wrapper of parser.ts\<close>

datatype parse_result = ParseOk expr | ParseErr

definition parseExpression :: "string \<Rightarrow> parse_result" where
  "parseExpression source = (case peg_parse source of Some ast \<Rightarrow> ParseOk ast | None \<Rightarrow> ParseErr)"

definition unwrapTransformationExpression :: "string \<Rightarrow> string option" where
  "unwrapTransformationExpression source =
     (let trimmed = trim source
      in if length trimmed < 3 then None
         else if starts_with ''${'' trimmed \<and> ends_with ''}'' trimmed
              then Some (butlast (drop 2 trimmed))
              else None)"

text \<open>\<^verbatim>\<open>path.join('.')\<close>.\<close>

fun join_with :: "string \<Rightarrow> string list \<Rightarrow> string" where
  "join_with sep [] = ''''"
| "join_with sep [x] = x"
| "join_with sep (x # xs) = x @ sep @ join_with sep xs"

fun collectIdentifiers :: "expr \<Rightarrow> string list" where
  "collectIdentifiers (Identifier path) = [join_with ''.'' path]"
| "collectIdentifiers (Unary arg) = collectIdentifiers arg"
| "collectIdentifiers (Binary _ lhs rhs) = collectIdentifiers lhs @ collectIdentifiers rhs"
| "collectIdentifiers (Membership needle haystack) =
     collectIdentifiers needle @ collectIdentifiers haystack"
| "collectIdentifiers (Call _ args) = concat (map collectIdentifiers args)"
| "collectIdentifiers _ = []"

fun topLevelLikelyBoolean :: "expr \<Rightarrow> bool" where
  "topLevelLikelyBoolean (IntLit _) = False"
| "topLevelLikelyBoolean (FloatLit _) = False"
| "topLevelLikelyBoolean (StringLit _) = False"
| "topLevelLikelyBoolean (BoolLit _) = True"
| "topLevelLikelyBoolean (Unary _) = True"
| "topLevelLikelyBoolean (Binary op _ _) =
     (op \<in> {EqOp, NeOp, GtOp, GeOp, LtOp, LeOp, AndOp, OrOp})"
| "topLevelLikelyBoolean (Membership _ _) = True"
| "topLevelLikelyBoolean (Identifier _) = True"
| "topLevelLikelyBoolean (Call _ _) = True"

end
