(* ===== verification/Expr_Totality.thy ===== *)
theory Expr_Totality
  imports Expr_Parser
begin

text \<open>
  Totality of the expression parser: every rule consumes input, so the fuel of the nesting depth
  and of the repetition loops never runs out when it exceeds the length of the input, and the
  result does not depend on it. The rules share one contract (\<open>grammar_rule\<close>), interpreted for
  each level of the grammar.
\<close>

section \<open>Consumption, totality, agreement\<close>

definition shrinks :: "(string \<Rightarrow> 'a pres) \<Rightarrow> bool" where
  "shrinks p \<longleftrightarrow> (\<forall>s x r. p s = Ok x r \<longrightarrow> length r < length s)"

definition total_below :: "nat \<Rightarrow> (string \<Rightarrow> 'a pres) \<Rightarrow> bool" where
  "total_below k p \<longleftrightarrow> (\<forall>s. length s < k \<longrightarrow> p s \<noteq> OutOfFuel)"

definition agree_below :: "nat \<Rightarrow> (string \<Rightarrow> 'a pres) \<Rightarrow> (string \<Rightarrow> 'a pres) \<Rightarrow> bool" where
  "agree_below k p q \<longleftrightarrow> (\<forall>s. length s < k \<longrightarrow> p s = q s)"

named_theorems peg_shrinks

lemma shrinksD: "shrinks p \<Longrightarrow> p s = Ok x r \<Longrightarrow> length r < length s"
  by (simp add: shrinks_def)

lemma or_else_cases:
  "or_else p q = Ok x r \<longleftrightarrow> p = Ok x r \<or> p = Failed \<and> q = Ok x r"
  "or_else p q = OutOfFuel \<longleftrightarrow> p = OutOfFuel \<or> p = Failed \<and> q = OutOfFuel"
  "or_else p q = Failed \<longleftrightarrow> p = Failed \<and> q = Failed"
  by (cases p; simp)+

lemma lit_Ok: "lit t v s = Ok x r \<longleftrightarrow> x = v \<and> s = t @ r"
  by (auto simp: lit_def starts_with_def) (metis append_take_drop_id)

lemma lit_total [simp]: "lit t v s \<noteq> OutOfFuel" "keyword t v s \<noteq> OutOfFuel"
  by (auto simp: lit_def keyword_def split: pres.splits)

lemma shrinks_lit [peg_shrinks]: "t \<noteq> '''' \<Longrightarrow> shrinks (lit t v)"
  by (auto simp: shrinks_def lit_Ok)

lemma shrinks_or_else [peg_shrinks]:
  "shrinks p \<Longrightarrow> shrinks q \<Longrightarrow> shrinks (\<lambda>s. or_else (p s) (q s))"
  by (auto simp: shrinks_def or_else_cases)

lemma shrinks_keyword [peg_shrinks]: "t \<noteq> '''' \<Longrightarrow> shrinks (keyword t v)"
  by (auto simp: shrinks_def keyword_def lit_Ok split: pres.splits if_splits)

lemma ws_less: "length s < n \<Longrightarrow> length (parse_ws s) < n"
  using length_parse_ws [of s] by linarith

lemma identPathTail_length: "length (snd (identPathTail s)) \<le> length s"
proof (induction s rule: identPathTail.induct)
  case (1 s)
  then show ?case
    by (subst identPathTail.simps)
      (fastforce split: list.splits pres.splits prod.splits dest: parseIdent_shrinks)
qed

lemma shrinks_IdentPath [peg_shrinks]: "shrinks parseIdentPath"
  unfolding shrinks_def parseIdentPath_def
  by (auto split: pres.splits prod.splits dest!: parseIdent_shrinks)
    (metis identPathTail_length le_less_trans snd_conv)

lemma shrinks_IdentifierExpr [peg_shrinks]: "shrinks parseIdentifierExpr"
proof -
  have "shrinks parseDollarIdent"
    unfolding shrinks_def parseDollarIdent_def
    by (auto split: pres.splits simp: lit_Ok dest!: shrinksD [OF shrinks_IdentPath])
      (metis length_parse_ws length_append append_Cons le_add2 length_Cons less_Suc_eq order.strict_trans2 less_or_eq_imp_le less_SucI)
  moreover have "shrinks parseHashIdent" "shrinks parseBareIdent"
    unfolding shrinks_def parseHashIdent_def parseBareIdent_def
    by (fastforce split: pres.splits simp: lit_Ok dest!: shrinksD [OF shrinks_IdentPath])+
  ultimately show ?thesis
    unfolding parseIdentifierExpr_def [abs_def] by (intro peg_shrinks)
qed

lemma span_length: "takeWhile P s \<noteq> [] \<Longrightarrow> length (dropWhile P s) < length s"
  by (cases s) (auto simp: less_Suc_eq_le length_dropWhile_le split: if_splits)

lemma sign_split_length: "sign_split s = (sg, r) \<Longrightarrow> length r \<le> length s"
  by (auto simp: sign_split_def split: if_splits)

lemma shrinks_numbers [peg_shrinks]: "shrinks parseIntLit" "shrinks parseFloatLit"
proof -
  show "shrinks parseIntLit"
    unfolding shrinks_def parseIntLit_def Let_def
    by (fastforce split: prod.splits if_splits dest: sign_split_length span_length)
  show "shrinks parseFloatLit"
    unfolding shrinks_def
  proof (intro allI impI)
    fix s x r
    assume "parseFloatLit s = Ok x r"
    then obtain sg t u where t: "sign_split s = (sg, t)" "takeWhile is_digit t \<noteq> []"
      and u: "dropWhile is_digit t = ''.'' @ u" "takeWhile is_digit u \<noteq> []" "r = dropWhile is_digit u"
      by (auto simp: parseFloatLit_def Let_def lit_Ok split: prod.splits if_splits pres.splits)
    from u have "length r < length (dropWhile is_digit t)"
      using span_length [OF u(2)] by simp
    also have "\<dots> < length t" using t(2) by (rule span_length)
    also have "\<dots> \<le> length s" using t(1) by (rule sign_split_length)
    finally show "length r < length s" .
  qed
qed

lemma shrinks_Literal [peg_shrinks]: "shrinks parseLiteral"
proof -
  have "shrinks parseBoolLit"
    unfolding shrinks_def parseBoolLit_def
    by (auto simp: or_else_cases lit_Ok split: pres.splits if_splits)
  moreover have "shrinks (quoted q)" for q
    unfolding shrinks_def quoted_def
    by (auto simp: lit_Ok split: list.splits if_splits)
      (metis length_dropWhile_le length_Cons less_SucI less_eq_Suc_le)
  ultimately show ?thesis
    unfolding parseLiteral_def [abs_def] parseStringLit_def by (intro peg_shrinks)
qed

lemma shrinks_ops [peg_shrinks]:
  "shrinks parseEqOp" "shrinks parseRelOp" "shrinks parseAddOp" "shrinks parseMulOp"
  unfolding parseEqOp_def [abs_def] parseRelOp_def [abs_def] parseAddOp_def [abs_def]
    parseMulOp_def [abs_def]
  by (intro peg_shrinks; simp)+

lemma lexical_total [simp]:
  "parseEqOp s \<noteq> OutOfFuel" "parseRelOp s \<noteq> OutOfFuel" "parseAddOp s \<noteq> OutOfFuel"
  "parseMulOp s \<noteq> OutOfFuel" "parseLiteral s \<noteq> OutOfFuel" "parseIdentifierExpr s \<noteq> OutOfFuel"
  by (auto simp: parseEqOp_def parseRelOp_def parseAddOp_def parseMulOp_def or_else_cases
      parseLiteral_def parseFloatLit_def parseIntLit_def parseBoolLit_def parseStringLit_def
      quoted_def Let_def parseIdentifierExpr_def parseDollarIdent_def parseHashIdent_def
      parseBareIdent_def split: pres.splits prod.splits list.splits if_splits)

lemma parseCallFn_shrinks: "parseCallFn s = Ok f r \<Longrightarrow> length r < length s"
  by (auto simp: parseCallFn_def or_else_cases lit_Ok split: pres.splits if_splits)

lemma peg_tail_le:
  assumes "shrinks oper" "shrinks operand"
  shows "peg_tail n oper operand s = Ok xs r \<Longrightarrow> length r \<le> length s"
proof (induction n arbitrary: s xs)
  case (Suc n)
  from Suc.prems consider "r = s"
    | o' u e v xs' where "oper (parse_ws s) = Ok o' u" "operand (parse_ws u) = Ok e v"
        "peg_tail n oper operand v = Ok xs' r"
    by (auto split: pres.splits)
  then show ?case
  proof cases
    case 2
    then have "length r \<le> length v" by (intro Suc.IH)
    also have "\<dots> < length (parse_ws u)" using 2(2) by (rule shrinksD [OF assms(2)])
    also have "\<dots> \<le> length u" by (rule length_parse_ws)
    also have "\<dots> < length (parse_ws s)" using 2(1) by (rule shrinksD [OF assms(1)])
    also have "\<dots> \<le> length s" by (rule length_parse_ws)
    finally show ?thesis by simp
  qed simp
qed simp

lemma peg_tail_not_Failed: "peg_tail n oper operand s \<noteq> Failed"
  by (induction n arbitrary: s) (auto split: pres.splits)

lemma peg_tail_total:
  assumes "shrinks oper" "shrinks operand" "\<And>s. oper s \<noteq> OutOfFuel" "total_below k operand"
  shows "length s < k \<Longrightarrow> length s < n \<Longrightarrow> peg_tail n oper operand s \<noteq> OutOfFuel"
proof (induction n arbitrary: s)
  case (Suc n)
  show ?case
  proof (cases "oper (parse_ws s)")
    case (Ok x r)
    then have r: "length (parse_ws r) < length s"
      using assms(1) length_parse_ws [of s] by (intro ws_less) (auto dest: shrinksD)
    show ?thesis
    proof (cases "operand (parse_ws r)")
      case ok: (Ok e r')
      then have "length r' < length s" using r shrinksD [OF assms(2)] by fastforce
      then have "peg_tail n oper operand r' \<noteq> OutOfFuel" using Suc by simp
      then show ?thesis using Ok ok by (auto split: pres.splits)
    qed (use Ok r Suc.prems assms(4) in \<open>auto simp: total_below_def\<close>)
  qed (use assms(3) in auto)
qed simp

lemma peg_tail_agree:
  assumes "shrinks oper" "shrinks operand" "agree_below k operand operand'"
  shows "length s < k \<Longrightarrow> peg_tail n oper operand s = peg_tail n oper operand' s"
proof (induction n arbitrary: s)
  case (Suc n)
  show ?case
  proof (cases "oper (parse_ws s)")
    case (Ok x r)
    then have r: "length (parse_ws r) < length s"
      using assms(1) length_parse_ws [of s] by (intro ws_less) (auto dest: shrinksD)
    then have eq: "operand (parse_ws r) = operand' (parse_ws r)"
      using Suc.prems assms(3) by (simp add: agree_below_def)
    show ?thesis
    proof (cases "operand (parse_ws r)")
      case ok: (Ok e r')
      then have "length r' < length s" using r shrinksD [OF assms(2)] by fastforce
      then have "peg_tail n oper operand r' = peg_tail n oper operand' r'" using Suc by simp
      then show ?thesis using Ok ok eq by simp
    qed (use Ok eq in auto)
  qed auto
qed simp

text \<open>One infix level.\<close>

lemma shrinks_infix [peg_shrinks]:
  assumes "shrinks oper" "shrinks operand" shows "shrinks (peg_infix oper mk operand)"
  unfolding shrinks_def
proof (intro allI impI)
  fix s x r assume "peg_infix oper mk operand s = Ok x r"
  then obtain h u xs where "operand s = Ok h u" "peg_tail (Suc (length u)) oper operand u = Ok xs r"
    by (auto simp: peg_infix_def simp del: peg_tail.simps split: pres.splits)
  then show "length r < length s"
    using shrinksD [OF assms(2)] peg_tail_le [OF assms] by (blast intro: le_less_trans)
qed

lemma total_infix:
  assumes "shrinks oper" "shrinks operand" "\<And>s. oper s \<noteq> OutOfFuel" "total_below k operand"
  shows "total_below k (peg_infix oper mk operand)"
  unfolding total_below_def peg_infix_def
proof (intro allI impI)
  fix s :: string assume s: "length s < k"
  show "(case operand s of
      Ok head r \<Rightarrow> (case peg_tail (Suc (length r)) oper operand r of
          Ok tail r' \<Rightarrow> Ok (foldl (\<lambda>lhs (o', rhs). mk o' lhs rhs) head tail) r'
        | Failed \<Rightarrow> Failed | OutOfFuel \<Rightarrow> OutOfFuel)
    | p \<Rightarrow> p) \<noteq> OutOfFuel"
  proof (cases "operand s")
    case (Ok x r)
    then have "peg_tail (Suc (length r)) oper operand r \<noteq> OutOfFuel"
      using s shrinksD [OF assms(2) Ok] by (intro peg_tail_total [OF assms]) auto
    with Ok show ?thesis by (auto split: pres.splits)
  qed (use s assms(4) in \<open>auto simp: total_below_def\<close>)
qed

lemma agree_infix:
  assumes "shrinks oper" "shrinks operand" "agree_below k operand operand'"
  shows "agree_below k (peg_infix oper mk operand) (peg_infix oper mk operand')"
  unfolding agree_below_def peg_infix_def
proof (intro allI impI)
  fix s :: string assume s: "length s < k"
  then have eq: "operand s = operand' s" using assms(3) by (simp add: agree_below_def)
  show "(case operand s of
      Ok head r \<Rightarrow> (case peg_tail (Suc (length r)) oper operand r of
          Ok tail r' \<Rightarrow> Ok (foldl (\<lambda>lhs (o', rhs). mk o' lhs rhs) head tail) r'
        | Failed \<Rightarrow> Failed | OutOfFuel \<Rightarrow> OutOfFuel)
    | p \<Rightarrow> p) = (case operand' s of
      Ok head r \<Rightarrow> (case peg_tail (Suc (length r)) oper operand' r of
          Ok tail r' \<Rightarrow> Ok (foldl (\<lambda>lhs (o', rhs). mk o' lhs rhs) head tail) r'
        | Failed \<Rightarrow> Failed | OutOfFuel \<Rightarrow> OutOfFuel)
    | p \<Rightarrow> p)"
  proof (cases "operand s")
    case (Ok x r)
    then have "peg_tail (Suc (length r)) oper operand r = peg_tail (Suc (length r)) oper operand' r"
      using s shrinksD [OF assms(2) Ok] by (intro peg_tail_agree [OF assms]) auto
    with Ok eq show ?thesis by simp
  qed (use eq in auto)
qed


lemma total_below_mono: "total_below k p \<Longrightarrow> j \<le> k \<Longrightarrow> total_below j p"
  by (simp add: total_below_def)

lemma agree_below_mono: "agree_below k p q \<Longrightarrow> j \<le> k \<Longrightarrow> agree_below j p q"
  by (simp add: agree_below_def)

subsection \<open>Arguments, calls and parentheses\<close>

lemma parseArgs_le:
  assumes "shrinks orExpr" shows "parseArgs orExpr s = Ok x r \<Longrightarrow> length r \<le> length s"
  using length_parse_ws [of s] peg_tail_le [OF shrinks_lit assms] shrinksD [OF assms, of s]
  by (fastforce simp: parseArgs_def simp del: peg_tail.simps split: pres.splits)

lemma parseArgs_total:
  assumes "shrinks orExpr" "total_below k orExpr" "length s < k"
  shows "parseArgs orExpr s \<noteq> OutOfFuel"
proof (cases "orExpr s")
  case (Ok x r)
  then have "peg_tail (Suc (length r)) (lit '','' ()) orExpr r \<noteq> OutOfFuel"
    using assms shrinksD [OF assms(1) Ok]
    by (intro peg_tail_total [where k = k] shrinks_lit) auto
  with Ok show ?thesis by (auto simp: parseArgs_def simp del: peg_tail.simps split: pres.splits)
qed (use assms in \<open>auto simp: parseArgs_def total_below_def\<close>)

lemma parseArgs_agree:
  assumes "shrinks orExpr" "agree_below k orExpr orExpr'" "length s < k"
  shows "parseArgs orExpr s = parseArgs orExpr' s"
proof -
  have eq: "orExpr s = orExpr' s" using assms by (simp add: agree_below_def)
  show ?thesis
  proof (cases "orExpr s")
    case (Ok x r)
    then have "peg_tail (Suc (length r)) (lit '','' ()) orExpr r =
        peg_tail (Suc (length r)) (lit '','' ()) orExpr' r"
      using assms shrinksD [OF assms(1) Ok]
      by (intro peg_tail_agree [where k = k] shrinks_lit) auto
    with Ok eq show ?thesis by (simp add: parseArgs_def del: peg_tail.simps)
  qed (use eq in \<open>auto simp: parseArgs_def\<close>)
qed

lemma shrinks_Call [peg_shrinks]:
  assumes "shrinks orExpr" shows "shrinks (parseCall orExpr)"
  unfolding shrinks_def
proof (intro allI impI)
  fix s x r assume "parseCall orExpr s = Ok x r"
  then obtain fn u v xs w where c: "parseCallFn s = Ok fn u" "parse_ws u = ''('' @ v"
    "parseArgs orExpr (parse_ws v) = Ok xs w" "parse_ws w = '')'' @ r"
    by (auto simp: parseCall_def lit_Ok split: pres.splits)
  have "length r < length w" using length_parse_ws [of w] c(4) by simp
  also have "\<dots> \<le> length (parse_ws v)" using c(3) by (rule parseArgs_le [OF assms])
  also have "\<dots> < length (parse_ws u)" using length_parse_ws [of v] c(2) by simp
  also have "\<dots> \<le> length u" by (rule length_parse_ws)
  also have "\<dots> < length s" using c(1) by (rule parseCallFn_shrinks)
  finally show "length r < length s" .
qed

lemma shrinks_ParenExpr [peg_shrinks]:
  assumes "shrinks orExpr" shows "shrinks (parseParenExpr orExpr)"
  unfolding shrinks_def
proof (intro allI impI)
  fix s x r assume "parseParenExpr orExpr s = Ok x r"
  then obtain u v where c: "s = ''('' @ u" "orExpr (parse_ws u) = Ok x v" "parse_ws v = '')'' @ r"
    by (auto simp: parseParenExpr_def lit_Ok split: pres.splits)
  have "length r < length v" using length_parse_ws [of v] c(3) by simp
  also have "\<dots> < length (parse_ws u)" using c(2) by (rule shrinksD [OF assms])
  also have "\<dots> < length s" using length_parse_ws [of u] c(1) by simp
  finally show "length r < length s" .
qed

lemma callArgs_less:
  "parseCallFn s = Ok fn u \<Longrightarrow> lit ''('' () (parse_ws u) = Ok x v \<Longrightarrow> length s < Suc k \<Longrightarrow>
   length (parse_ws v) < k"
  using length_parse_ws [of u] length_parse_ws [of v] parseCallFn_shrinks [of s fn u]
  by (auto simp: lit_Ok)

lemma parenArg_less: "lit ''('' () s = Ok x u \<Longrightarrow> length s < Suc k \<Longrightarrow> length (parse_ws u) < k"
  using length_parse_ws [of u] by (auto simp: lit_Ok)

lemma total_Primary:
  assumes "shrinks orExpr" "total_below k orExpr"
  shows "total_below (Suc k) (parsePrimary orExpr)"
proof -
  have "parseCall orExpr s \<noteq> OutOfFuel" if "length s < Suc k" for s
    using that parseArgs_total [OF assms] callArgs_less
    by (auto simp: parseCall_def split: pres.splits)
  moreover have "parseParenExpr orExpr s \<noteq> OutOfFuel" if "length s < Suc k" for s
    using that assms(2) parenArg_less
    by (auto simp: parseParenExpr_def total_below_def split: pres.splits)
  ultimately show ?thesis
    by (simp add: total_below_def parsePrimary_def or_else_cases)
qed

lemma agree_Primary:
  assumes "shrinks orExpr" "agree_below k orExpr orExpr'"
  shows "agree_below (Suc k) (parsePrimary orExpr) (parsePrimary orExpr')"
proof -
  have "parseCall orExpr s = parseCall orExpr' s" if "length s < Suc k" for s
    using that parseArgs_agree [OF assms] callArgs_less
    by (auto simp: parseCall_def split: pres.splits)
  moreover have "parseParenExpr orExpr s = parseParenExpr orExpr' s" if "length s < Suc k" for s
    using that assms(2) parenArg_less
    by (auto simp: parseParenExpr_def agree_below_def split: pres.splits)
  ultimately show ?thesis
    by (simp add: agree_below_def parsePrimary_def)
qed


lemma shrinks_Primary: "shrinks orExpr \<Longrightarrow> shrinks (parsePrimary orExpr)"
  unfolding parsePrimary_def [abs_def] by (intro peg_shrinks)

subsection \<open>The contract of a grammar rule\<close>

text \<open>
  A rule built on a parser for nested expressions consumes input, calls the nested parser on
  shorter inputs only, and so extends the length up to which the nested parser is total and
  well defined by one.
\<close>

locale grammar_rule =
  fixes rule :: "(string \<Rightarrow> expr pres) \<Rightarrow> string \<Rightarrow> expr pres"
  assumes rule_shrinks: "shrinks p \<Longrightarrow> shrinks (rule p)"
    and rule_total: "shrinks p \<Longrightarrow> total_below k p \<Longrightarrow> total_below (Suc k) (rule p)"
    and rule_agree: "shrinks p \<Longrightarrow> agree_below k p q \<Longrightarrow> agree_below (Suc k) (rule p) (rule q)"
begin

lemma infix_rule:
  assumes "shrinks oper" and "\<And>s. oper s \<noteq> OutOfFuel"
  shows "grammar_rule (\<lambda>p. peg_infix oper mk (rule p))"
proof
  fix p q :: "string \<Rightarrow> expr pres" and k
  assume p: "shrinks p"
  then show "shrinks (peg_infix oper mk (rule p))"
    by (intro shrinks_infix assms(1) rule_shrinks)
  show "total_below (Suc k) (peg_infix oper mk (rule p))" if "total_below k p"
    using p that by (intro total_infix assms rule_shrinks rule_total)
  show "agree_below (Suc k) (peg_infix oper mk (rule p)) (peg_infix oper mk (rule q))"
    if "agree_below k p q"
    using p that by (intro agree_infix assms(1) rule_shrinks rule_agree)
qed

lemma knot_shrinks:
  assumes "f 0 = (\<lambda>_. OutOfFuel)" and "\<And>n. f (Suc n) = rule (f n)"
  shows "shrinks (f n)"
  by (induction n) (auto simp: assms rule_shrinks, simp add: shrinks_def)

lemma knot_total:
  assumes "f 0 = (\<lambda>_. OutOfFuel)" and "\<And>n. f (Suc n) = rule (f n)"
  shows "total_below n (f n)"
proof (induction n)
  case (Suc n)
  then show ?case by (simp add: assms(2) rule_total knot_shrinks [OF assms])
qed (simp add: total_below_def)

lemma knot_agree:
  assumes "f 0 = (\<lambda>_. OutOfFuel)" and "\<And>n. f (Suc n) = rule (f n)"
  shows "agree_below n (f n) (f (n + m))"
proof (induction n)
  case (Suc n)
  then show ?case by (simp add: assms(2) rule_agree knot_shrinks [OF assms])
qed (simp add: agree_below_def)

end

lemma unary_induct:
  assumes "\<And>s. (\<And>c r. s = c # r \<Longrightarrow> c = CHR ''!'' \<Longrightarrow> P (parse_ws r)) \<Longrightarrow> P s"
  shows "P s"
proof (induction s rule: measure_induct_rule [where f = length])
  case (less s)
  then show ?case
    using assms length_parse_ws by (metis le_imp_less_Suc length_Cons)
qed

lemma shrinks_Unary:
  assumes "shrinks orExpr" shows "shrinks (parseUnaryExpr orExpr)"
proof -
  have "parseUnaryExpr orExpr s = Ok x r \<longrightarrow> length r < length s" for s x r
  proof (induction s arbitrary: x r rule: unary_induct)
    case (1 s)
    show ?case
    proof
      assume "parseUnaryExpr orExpr s = Ok x r"
      then consider "parsePrimary orExpr s = Ok x r"
        | u e where "s = CHR ''!'' # u" "parseUnaryExpr orExpr (parse_ws u) = Ok e r"
        by (subst (asm) parseUnaryExpr.simps) (auto split: list.splits if_splits pres.splits)
      then show "length r < length s"
      proof cases
        case 2
        then have "length r < length (parse_ws u)" using "1" by blast
        also have "\<dots> < length s" using length_parse_ws [of u] 2(1) by simp
        finally show ?thesis .
      qed (rule shrinksD [OF shrinks_Primary [OF assms]])
    qed
  qed
  then show ?thesis by (simp add: shrinks_def)
qed

lemma total_Unary:
  assumes "total_below k (parsePrimary orExpr)" shows "total_below k (parseUnaryExpr orExpr)"
proof -
  have "length s < k \<longrightarrow> parseUnaryExpr orExpr s \<noteq> OutOfFuel" for s
  proof (induction s rule: unary_induct)
    case (1 s)
    show ?case
    proof
      assume s: "length s < k"
      then have prim: "parsePrimary orExpr s \<noteq> OutOfFuel"
        using assms by (simp add: total_below_def)
      have "parseUnaryExpr orExpr (parse_ws r) \<noteq> OutOfFuel" if "s = CHR ''!'' # r" for r
        using that s by (intro "1" [rule_format] ws_less) auto
      with prim show "parseUnaryExpr orExpr s \<noteq> OutOfFuel"
        by (simp add: parseUnaryExpr.simps [of orExpr s] split: list.split pres.split) blast
    qed
  qed
  then show ?thesis by (simp add: total_below_def)
qed

lemma agree_Unary:
  assumes "agree_below k (parsePrimary p) (parsePrimary q)"
  shows "agree_below k (parseUnaryExpr p) (parseUnaryExpr q)"
proof -
  have "length s < k \<longrightarrow> parseUnaryExpr p s = parseUnaryExpr q s" for s
  proof (induction s rule: unary_induct)
    case (1 s)
    then show ?case
      using assms ws_less
      by (subst (1 2) parseUnaryExpr.simps)
        (auto simp: agree_below_def split: list.splits if_splits pres.splits)
  qed
  then show ?thesis by (simp add: agree_below_def)
qed

interpretation unary: grammar_rule parseUnaryExpr
  by unfold_locales
    (simp_all add: shrinks_Unary total_Unary total_Primary agree_Unary agree_Primary)

interpretation mul: grammar_rule parseMulExpr
  unfolding parseMulExpr_def [abs_def] by (intro unary.infix_rule peg_shrinks) simp

interpretation add: grammar_rule parseAddExpr
  unfolding parseAddExpr_def [abs_def] by (intro mul.infix_rule peg_shrinks) simp

interpretation rel: grammar_rule parseRelExpr
  unfolding parseRelExpr_def [abs_def] by (intro add.infix_rule peg_shrinks) simp

interpretation equality: grammar_rule parseEqExpr
  unfolding parseEqExpr_def [abs_def] by (intro rel.infix_rule peg_shrinks) simp

interpretation conj_level: grammar_rule parseAndExpr
  unfolding parseAndExpr_def [abs_def] by (intro equality.infix_rule peg_shrinks) simp_all

interpretation disj_level: grammar_rule parseOrExpr
  unfolding parseOrExpr_def [abs_def] by (intro conj_level.infix_rule peg_shrinks) simp_all

lemma parseOrExprN_knot:
  "parseOrExprN 0 = (\<lambda>_. OutOfFuel)" "parseOrExprN (Suc n) = parseOrExpr (parseOrExprN n)"
  by (simp_all add: fun_eq_iff)

lemmas orExpr_shrinks = disj_level.knot_shrinks [OF parseOrExprN_knot]
lemmas orExpr_total = disj_level.knot_total [OF parseOrExprN_knot]
lemmas orExpr_agree = disj_level.knot_agree [OF parseOrExprN_knot]

section \<open>Properties\<close>

text \<open>C24. The parser is total: for every input, any fuel above its length gives a result that is
  not out of fuel, and always the same one. So the fuel of \<open>peg_parse\<close> is enough, and the code's
  loops and recursion end on every input.\<close>

theorem parser_total:
  assumes "length s < n"
  shows "parseStart n s = parseStart (Suc (length s)) s \<and> parseStart n s \<noteq> OutOfFuel"
proof -
  have ws: "length (parse_ws s) < Suc (length s)" by (rule ws_less) simp
  then have "parseOrExprN (Suc (length s)) (parse_ws s) =
      parseOrExprN (Suc (length s) + (n - Suc (length s))) (parse_ws s)"
    using orExpr_agree unfolding agree_below_def by blast
  moreover have "parseOrExprN (Suc (length s)) (parse_ws s) \<noteq> OutOfFuel"
    using ws orExpr_total unfolding total_below_def by blast
  ultimately show ?thesis
    using assms by (auto simp: parseStart_def simp del: parseOrExprN.simps split: pres.splits)
qed

theorem parser_total_witness:
  "parseStart 9 ''!(a)'' = parseStart 5 ''!(a)'' \<and> parseStart 9 ''!(a)'' \<noteq> OutOfFuel"
  using parser_total [of "''!(a)''" 9] by (auto simp: numeral_eq_Suc)

end
