(* ===== verification/Expr_Roundtrip.thy ===== *)
theory Expr_Roundtrip
  imports Expr_Totality
begin

text \<open>
  What the expression parser accepts: a printer for the syntax trees, the trees that have a text
  (\<open>wf_expr\<close>), and that the parser reads every printed tree back and returns no other tree. The
  printer is a specification device: it has no counterpart in the code.
\<close>

section \<open>A printer\<close>

fun op_text :: "binary_op \<Rightarrow> string" where
  "op_text EqOp = ''==''"
| "op_text NeOp = ''!=''"
| "op_text GtOp = ''>''"
| "op_text GeOp = ''>=''"
| "op_text LtOp = ''<''"
| "op_text LeOp = ''<=''"
| "op_text AddOp = ''+''"
| "op_text SubOp = ''-''"
| "op_text MulOp = ''*''"
| "op_text DivOp = ''/''"
| "op_text AndOp = ''&&''"
| "op_text OrOp = ''||''"

fun fn_text :: "call_fn \<Rightarrow> string" where
  "fn_text Contains = ''contains''"
| "fn_text Len = ''len''"

definition quote_of :: "string \<Rightarrow> char" where
  "quote_of s = (if CHR 0x27 \<in> set s then CHR 0x22 else CHR 0x27)"

fun print_expr :: "expr \<Rightarrow> string" where
  "print_expr (IntLit t) = t"
| "print_expr (FloatLit t) = t"
| "print_expr (BoolLit b) = (if b then ''true'' else ''false'')"
| "print_expr (StringLit s) = quote_of s # s @ [quote_of s]"
| "print_expr (Identifier path) = ''#'' @ join_with ''.'' path"
| "print_expr (Unary e) = ''!'' @ print_expr e"
| "print_expr (Binary op l r) = ''('' @ print_expr l @ '' '' @ op_text op @ '' '' @ print_expr r @ '')''"
| "print_expr (Membership n h) = ''('' @ print_expr n @ '' in '' @ print_expr h @ '')''"
| "print_expr (Call fn args) = fn_text fn @ ''('' @ join_with '', '' (map print_expr args) @ '')''"

definition is_numeral :: "string \<Rightarrow> bool" where
  "is_numeral t \<longleftrightarrow> t \<noteq> '''' \<and> list_all is_digit t"

definition valid_ident :: "string \<Rightarrow> bool" where
  "valid_ident i \<longleftrightarrow> (case i of [] \<Rightarrow> False | c # r \<Rightarrow> (is_alpha c \<or> c = CHR ''_'') \<and> list_all identRest r)"

definition int_text :: "string \<Rightarrow> bool" where
  "int_text t \<longleftrightarrow> is_numeral (snd (sign_split t))"

definition float_text :: "string \<Rightarrow> bool" where
  "float_text t \<longleftrightarrow> (let u = snd (sign_split t); f = dropWhile is_digit u
     in takeWhile is_digit u \<noteq> '''' \<and> (case f of [] \<Rightarrow> False | c # g \<Rightarrow> c = CHR ''.'' \<and> is_numeral g))"

fun wf_expr :: "expr \<Rightarrow> bool" where
  "wf_expr (IntLit t) \<longleftrightarrow> int_text t"
| "wf_expr (FloatLit t) \<longleftrightarrow> float_text t"
| "wf_expr (BoolLit _) \<longleftrightarrow> True"
| "wf_expr (StringLit s) \<longleftrightarrow> CHR 0x27 \<notin> set s \<or> CHR 0x22 \<notin> set s"
| "wf_expr (Identifier path) \<longleftrightarrow> path \<noteq> [] \<and> list_all valid_ident path"
| "wf_expr (Unary e) \<longleftrightarrow> wf_expr e"
| "wf_expr (Binary _ l r) \<longleftrightarrow> wf_expr l \<and> wf_expr r"
| "wf_expr (Membership n h) \<longleftrightarrow> wf_expr n \<and> wf_expr h"
| "wf_expr (Call fn args) \<longleftrightarrow> \<not> (fn = Contains \<and> length args = 2) \<and> list_all wf_expr args"


lemma lit_Cons [simp]: "lit (c # t) v (d # s) = (if c = d then lit t v s else Failed)"
  by (simp add: lit_def starts_with_def)
lemma lit_Nil [simp]: "lit [] v s = Ok v s" "lit (c # t) v [] = Failed"
  by (simp_all add: lit_def starts_with_def)

definition delimited :: "string \<Rightarrow> bool" where
  "delimited r \<longleftrightarrow> (case r of [] \<Rightarrow> True | c # _ \<Rightarrow> c \<in> {CHR '')'', CHR '','', CHR '' ''})"

lemma delimitedD:
  assumes "delimited r"
  shows "no_identRest r" "takeWhile is_digit r = []" "dropWhile is_digit r = r"
    "takeWhile identRest r = []" "dropWhile identRest r = r" "lit ''.'' v r = Failed"
  using assms
  by (auto simp: delimited_def no_identRest_def identRest_def is_digit_def is_alpha_def split: list.splits)

lemma parse_ws_idle: "\<not> peg_space c \<Longrightarrow> parse_ws (c # s) = c # s"
  by (simp add: parse_ws_def)

lemma infix_pass:
  assumes "operand s = Ok e r" "oper (parse_ws r) = Failed"
  shows "peg_infix oper mk operand s = Ok e r"
  using assms by (simp add: peg_infix_def)

lemma infix_hit:
  assumes "operand s = Ok l ra" "oper (parse_ws ra) = Ok o' rb" "operand (parse_ws rb) = Ok e rc"
    "oper (parse_ws rc) = Failed" "shrinks oper" "shrinks operand"
  shows "peg_infix oper mk operand s = Ok (mk o' l e) rc"
proof -
  have "length ra > 0" using shrinksD [OF assms(5,2)] length_parse_ws [of ra] by linarith
  then obtain n where n: "length ra = Suc n" by (cases "length ra") auto
  show ?thesis using assms(1-4) by (simp add: peg_infix_def n)
qed

subsection \<open>Printed atoms are read back\<close>

lemma takeWhile_all: "list_all P xs \<Longrightarrow> takeWhile P (xs @ r) = xs @ takeWhile P r"
  by (induction xs) auto
lemma dropWhile_all: "list_all P xs \<Longrightarrow> dropWhile P (xs @ r) = dropWhile P r"
  by (induction xs) auto

lemma digit_facts:
  "is_digit c \<Longrightarrow> c \<noteq> CHR ''c'' \<and> c \<noteq> CHR ''l'' \<and> c \<noteq> CHR ''('' \<and> c \<noteq> CHR ''-'' \<and> c \<noteq> CHR ''!'' \<and> \<not> peg_space c \<and> c \<noteq> CHR '')''"
  by (auto simp: is_digit_def peg_space_def)

lemma numeral_Cons: "is_numeral t \<longleftrightarrow> (\<exists>c u. t = c # u \<and> is_digit c \<and> list_all is_digit u)"
  by (cases t) (auto simp: is_numeral_def)

lemma callFn_first: "c \<noteq> CHR ''c'' \<Longrightarrow> c \<noteq> CHR ''l'' \<Longrightarrow> parseCall p (c # s) = Failed"
  by (simp add: parseCall_def parseCallFn_def)

lemma paren_first: "c \<noteq> CHR ''('' \<Longrightarrow> parseParenExpr p (c # s) = Failed"
  by (simp add: parseParenExpr_def)

lemma sign_splitE:
  obtains sg w where "t = sg @ w" "sg \<in> {'''', ''-''}" "snd (sign_split t) = w"
proof (cases "starts_with ''-'' t")
  case True
  then obtain u where "t = ''-'' @ u" by (auto simp: starts_with_iff)
  with that [of "''-''" u] show ?thesis by (simp add: sign_split_def starts_with_def)
next
  case False
  with that [of "''''" t] show ?thesis by (simp add: sign_split_def)
qed

lemma sign_split_signed:
  "sg \<in> {'''', ''-''} \<Longrightarrow> is_digit c \<Longrightarrow> sign_split (sg @ c # u) = (sg, c # u)"
  by (auto simp: sign_split_def starts_with_def dest: digit_facts)

lemma signed_first:
  assumes "sg \<in> {'''', ''-''}" "is_digit c"
  shows "parseCall p (sg @ c # s) = Failed" "parseParenExpr p (sg @ c # s) = Failed"
  using assms digit_facts [OF assms(2)] by (auto simp: callFn_first paren_first)

lemma primary_IntLit:
  assumes "int_text t" "delimited r"
  shows "parsePrimary p (t @ r) = Ok (IntLit t) r"
proof -
  obtain sg w where w: "t = sg @ w" "sg \<in> {'''', ''-''}" "snd (sign_split t) = w"
    by (rule sign_splitE)
  with assms(1) obtain c u
    where t: "t = sg @ c # u" "sg \<in> {'''', ''-''}" "is_digit c" "list_all is_digit u"
    by (auto simp: int_text_def numeral_Cons)
  note d = delimitedD [OF assms(2)]
  have "parseFloatLit (t @ r) = Failed"
    using t by (simp add: parseFloatLit_def sign_split_signed takeWhile_all dropWhile_all d)
  moreover have "parseIntLit (t @ r) = Ok (IntLit t) r"
    using t d by (simp add: parseIntLit_def sign_split_signed takeWhile_all dropWhile_all)
  moreover have "parseCall p (t @ r) = Failed" "parseParenExpr p (t @ r) = Failed"
    using signed_first [OF t(2,3)] t(1) by simp_all
  ultimately show ?thesis by (simp add: parsePrimary_def parseLiteral_def)
qed

lemma float_text_split:
  assumes "float_text t"
  shows "\<exists>sg c u v. t = sg @ c # u @ ''.'' @ v \<and> sg \<in> {'''', ''-''} \<and> is_digit c \<and>
    list_all is_digit u \<and> is_numeral v"
proof -
  obtain sg w where t: "t = sg @ w" "sg \<in> {'''', ''-''}" and w_def: "snd (sign_split t) = w"
    by (rule sign_splitE)
  from assms obtain v where v: "dropWhile is_digit w = CHR ''.'' # v" "is_numeral v"
      "takeWhile is_digit w \<noteq> ''''"
    by (auto simp: float_text_def w_def Let_def split: list.splits)
  then obtain c u where cu: "takeWhile is_digit w = c # u" by (cases "takeWhile is_digit w") auto
  have all: "list_all is_digit (c # u)"
    unfolding cu [symmetric] by (auto simp: list_all_iff dest: set_takeWhileD)
  have "w = (c # u) @ CHR ''.'' # v"
    using takeWhile_dropWhile_id [of is_digit w] v(1) cu by simp
  with t all v(2) show ?thesis by (intro exI [of _ sg] exI [of _ c] exI [of _ u] exI [of _ v]) simp
qed

lemma primary_FloatLit:
  assumes "float_text t" "delimited r"
  shows "parsePrimary p (t @ r) = Ok (FloatLit t) r"
proof -
  obtain sg c u v where t: "t = sg @ c # u @ ''.'' @ v" "sg \<in> {'''', ''-''}" "is_digit c"
      "list_all is_digit u" "is_numeral v"
    using float_text_split [OF assms(1)] by blast
  note d = delimitedD [OF assms(2)]
  have dot: "\<not> is_digit CHR ''.''" by (simp add: is_digit_def)
  have "parseFloatLit (t @ r) = Ok (FloatLit t) r"
    using t d dot
    by (auto simp: parseFloatLit_def sign_split_signed takeWhile_all dropWhile_all is_numeral_def Let_def)
  moreover have "parseCall p (t @ r) = Failed" "parseParenExpr p (t @ r) = Failed"
    using signed_first [OF t(2,3)] t(1) by simp_all
  ultimately show ?thesis by (simp add: parsePrimary_def parseLiteral_def)
qed

lemma alpha_not_number:
  "\<not> is_digit c \<Longrightarrow> c \<noteq> CHR ''-'' \<Longrightarrow> parseFloatLit (c # s) = Failed \<and> parseIntLit (c # s) = Failed"
  by (simp add: parseFloatLit_def parseIntLit_def sign_split_def starts_with_def)

lemma primary_BoolLit:
  assumes "delimited r"
  shows "parsePrimary p ((if b then ''true'' else ''false'') @ r) = Ok (BoolLit b) r"
  using delimitedD(1) [OF assms]
  by (simp add: parsePrimary_def parseLiteral_def parseBoolLit_def callFn_first paren_first
      alpha_not_number is_digit_def)

lemma primary_StringLit:
  assumes "CHR 0x27 \<notin> set t \<or> CHR 0x22 \<notin> set t"
  shows "parsePrimary p (quote_of t # t @ quote_of t # r) = Ok (StringLit t) r"
proof -
  have q: "quote_of t \<in> {CHR 0x27, CHR 0x22}" "quote_of t \<notin> set t"
    using assms by (auto simp: quote_of_def)
  then have "list_all (\<lambda>x. x \<noteq> quote_of t) t" by (auto simp: list_all_iff)
  then have tw: "takeWhile (\<lambda>x. x \<noteq> quote_of t) (t @ quote_of t # r) = t"
      "dropWhile (\<lambda>x. x \<noteq> quote_of t) (t @ quote_of t # r) = quote_of t # r"
    by (simp_all add: takeWhile_all dropWhile_all)
  have "parseStringLit (quote_of t # t @ quote_of t # r) = Ok (StringLit t) r"
    using q(1) tw by (auto simp: parseStringLit_def quoted_def)
  moreover have "parseBoolLit (quote_of t # t @ quote_of t # r) = Failed"
    using q(1) by (auto simp: parseBoolLit_def)
  ultimately show ?thesis using q(1)
    by (auto simp: parsePrimary_def parseLiteral_def callFn_first paren_first alpha_not_number
        is_digit_def)
qed

lemma parseIdent_valid:
  "valid_ident i \<Longrightarrow> takeWhile identRest r = [] \<Longrightarrow> parseIdent (i @ r) = Ok i (dropWhile identRest r)"
  by (auto simp: valid_ident_def parseIdent_def takeWhile_all dropWhile_all split: list.splits)

lemma identPathTail_print:
  assumes "list_all valid_ident is" "delimited r"
  shows "identPathTail (concat (map (\<lambda>i. CHR ''.'' # i) is) @ r) = (is, r)"
  using assms(1)
proof (induction "is")
  case Nil
  then show ?case using assms(2)
    by (subst identPathTail.simps) (auto simp: delimited_def split: list.splits)
next
  case (Cons i "is")
  have dot: "\<not> identRest CHR ''.''" by (simp add: identRest_def is_alpha_def is_digit_def)
  have "takeWhile identRest (concat (map (\<lambda>i. CHR ''.'' # i) is) @ r) = []"
    using dot delimitedD(4) [OF assms(2)] by (cases "is") auto
  moreover have "dropWhile identRest (concat (map (\<lambda>i. CHR ''.'' # i) is) @ r) =
      concat (map (\<lambda>i. CHR ''.'' # i) is) @ r"
    using dot delimitedD(5) [OF assms(2)] by (cases "is") auto
  ultimately show ?case
    using Cons by (subst identPathTail.simps) (simp add: parseIdent_valid)
qed

lemma join_with_Cons: "join_with sep (x # xs) = x @ concat (map (\<lambda>y. sep @ y) xs)"
  by (induction xs arbitrary: x) auto

lemma primary_Identifier:
  assumes "path \<noteq> []" "list_all valid_ident path" "delimited r"
  shows "parsePrimary p (CHR ''#'' # join_with ''.'' path @ r) = Ok (Identifier path) r"
proof -
  obtain i "is" where path: "path = i # is" using assms(1) by (cases path) auto
  have dot: "\<not> identRest CHR ''.''" by (simp add: identRest_def is_alpha_def is_digit_def)
  let ?u = "concat (map (\<lambda>i. CHR ''.'' # i) is) @ r"
  have "takeWhile identRest ?u = []" "dropWhile identRest ?u = ?u"
    using dot delimitedD(4,5) [OF assms(3)] by (cases "is"; auto)+
  then have "parseIdentPath (join_with ''.'' path @ r) = Ok path r"
    using assms path identPathTail_print [of "is" r]
    by (simp add: parseIdentPath_def join_with_Cons parseIdent_valid)
  then have "parseHashIdent (CHR ''#'' # join_with ''.'' path @ r) = Ok (Identifier path) r"
    by (simp add: parseHashIdent_def)
  then show ?thesis
    by (simp add: parsePrimary_def parseLiteral_def parseBoolLit_def parseStringLit_def quoted_def
        callFn_first paren_first alpha_not_number is_digit_def parseIdentifierExpr_def
        parseDollarIdent_def)
qed


subsection \<open>From one level of the grammar to the next\<close>

lemma unary_primary: "c \<noteq> CHR ''!'' \<Longrightarrow> parseUnaryExpr p (c # s) = parsePrimary p (c # s)"
  by (simp add: parseUnaryExpr.simps [of p "c # s"])

lemma orExprN_rules_shrink:
  "shrinks (parseUnaryExpr (parseOrExprN n))" "shrinks (parseMulExpr (parseOrExprN n))"
  "shrinks (parseAddExpr (parseOrExprN n))" "shrinks (parseRelExpr (parseOrExprN n))"
  "shrinks (parseEqExpr (parseOrExprN n))" "shrinks (parseAndExpr (parseOrExprN n))"
  by (intro unary.rule_shrinks mul.rule_shrinks add.rule_shrinks rel.rule_shrinks
      equality.rule_shrinks conj_level.rule_shrinks orExpr_shrinks)+

text \<open>No operator of the grammar begins at \<open>r\<close>.\<close>

definition no_operator :: "string \<Rightarrow> bool" where
  "no_operator r \<longleftrightarrow> parseMulOp (parse_ws r) = Failed \<and> parseAddOp (parse_ws r) = Failed \<and>
     parseRelOp (parse_ws r) = Failed \<and> parseEqOp (parse_ws r) = Failed \<and>
     lit ''&&'' AndOp (parse_ws r) = Failed \<and> lit ''||'' OrOp (parse_ws r) = Failed"

lemma parse_ws_Nil [simp]: "parse_ws [] = []"
  by (simp add: parse_ws_def)

lemma no_operator_end: "no_operator []" "no_operator (CHR '')'' # r)" "no_operator (CHR '','' # r)"
  by (simp_all add: no_operator_def parseMulOp_def parseAddOp_def parseRelOp_def parseEqOp_def
      keyword_def parse_ws_def peg_space_def)

lemmas level_defs = parseMulExpr_def parseAddExpr_def parseRelExpr_def parseEqExpr_def
  parseAndExpr_def parseOrExpr_def

lemma or_of_unary:
  assumes "parseUnaryExpr p s = Ok e r" and "no_operator r"
  shows "parseOrExpr p s = Ok e r"
  using assms unfolding level_defs no_operator_def by (intro infix_pass; simp)

lemma op_text_reads:
  shows "op \<in> {MulOp, DivOp} \<Longrightarrow> parseMulOp (parse_ws ('' '' @ op_text op @ '' '' @ s)) = Ok op ('' '' @ s)"
    and "op \<notin> {MulOp, DivOp} \<Longrightarrow> parseMulOp (parse_ws ('' '' @ op_text op @ '' '' @ s)) = Failed"
    and "op \<in> {AddOp, SubOp} \<Longrightarrow> parseAddOp (parse_ws ('' '' @ op_text op @ '' '' @ s)) = Ok op ('' '' @ s)"
    and "op \<notin> {AddOp, SubOp} \<Longrightarrow> parseAddOp (parse_ws ('' '' @ op_text op @ '' '' @ s)) = Failed"
    and "op \<in> {GtOp, GeOp, LtOp, LeOp} \<Longrightarrow> parseRelOp (parse_ws ('' '' @ op_text op @ '' '' @ s)) = Ok (Some op) ('' '' @ s)"
    and "op \<in> {EqOp, NeOp, AndOp, OrOp} \<Longrightarrow> parseRelOp (parse_ws ('' '' @ op_text op @ '' '' @ s)) = Failed"
    and "op \<in> {EqOp, NeOp} \<Longrightarrow> parseEqOp (parse_ws ('' '' @ op_text op @ '' '' @ s)) = Ok op ('' '' @ s)"
    and "op \<in> {AndOp, OrOp} \<Longrightarrow> parseEqOp (parse_ws ('' '' @ op_text op @ '' '' @ s)) = Failed"
    and "lit ''&&'' AndOp (parse_ws ('' '' @ op_text AndOp @ '' '' @ s)) = Ok AndOp ('' '' @ s)"
    and "lit ''&&'' AndOp (parse_ws ('' '' @ op_text OrOp @ '' '' @ s)) = Failed"
    and "lit ''||'' OrOp (parse_ws ('' '' @ op_text OrOp @ '' '' @ s)) = Ok OrOp ('' '' @ s)"
  by (cases op; simp add: parse_ws_def peg_space_def parseMulOp_def parseAddOp_def parseRelOp_def
      parseEqOp_def keyword_def)+

lemma in_reads:
  "parseMulOp (parse_ws ('' in '' @ s)) = Failed" "parseAddOp (parse_ws ('' in '' @ s)) = Failed"
  "parseRelOp (parse_ws ('' in '' @ s)) = Ok None ('' '' @ s)"
  by (simp_all add: parse_ws_def peg_space_def parseMulOp_def parseAddOp_def parseRelOp_def
      keyword_def no_identRest_def identRest_def is_alpha_def is_digit_def)

lemma level_up:
  assumes "no_operator r"
  shows "parseUnaryExpr p s = Ok e r \<Longrightarrow> parseMulExpr p s = Ok e r"
    and "parseMulExpr p s = Ok e r \<Longrightarrow> parseAddExpr p s = Ok e r"
    and "parseAddExpr p s = Ok e r \<Longrightarrow> parseRelExpr p s = Ok e r"
    and "parseRelExpr p s = Ok e r \<Longrightarrow> parseEqExpr p s = Ok e r"
    and "parseEqExpr p s = Ok e r \<Longrightarrow> parseAndExpr p s = Ok e r"
    and "parseAndExpr p s = Ok e r \<Longrightarrow> parseOrExpr p s = Ok e r"
  using assms unfolding level_defs no_operator_def by (auto intro: infix_pass)

lemma or_of_binary:
  assumes l: "parseUnaryExpr (parseOrExprN n) s = Ok l ('' '' @ op_text op @ '' '' @ u)"
    and r: "parseUnaryExpr (parseOrExprN n) (parse_ws ('' '' @ u)) = Ok e r"
    and stop: "no_operator r"
  shows "parseOrExpr (parseOrExprN n) s = Ok (Binary op l e) r"
proof -
  let ?p = "parseOrExprN n" and ?t = "'' '' @ op_text op @ '' '' @ u"
  note up = level_up [OF stop]
  note R1 = up(1) [OF r] note R2 = up(2) [OF R1] note R3 = up(3) [OF R2]
  note R4 = up(4) [OF R3] note R5 = up(5) [OF R4]
  note stops = stop [unfolded no_operator_def]
  have L1: "parseMulExpr ?p s = Ok l ?t" if "op \<notin> {MulOp, DivOp}"
    using l that unfolding parseMulExpr_def by (intro infix_pass op_text_reads)
  have L2: "parseAddExpr ?p s = Ok l ?t" if "op \<notin> {MulOp, DivOp, AddOp, SubOp}"
    using L1 that unfolding parseAddExpr_def by (intro infix_pass op_text_reads) auto
  have L3: "parseRelExpr ?p s = Ok l ?t" if "op \<in> {EqOp, NeOp, AndOp, OrOp}"
    using L2 that unfolding parseRelExpr_def by (intro infix_pass op_text_reads) auto
  have L4: "parseEqExpr ?p s = Ok l ?t" if "op \<in> {AndOp, OrOp}"
    using L3 that unfolding parseEqExpr_def by (intro infix_pass op_text_reads) auto
  have L5: "parseAndExpr ?p s = Ok l ?t" if "op = OrOp"
    using L4 that op_text_reads(10) unfolding parseAndExpr_def by (intro infix_pass) auto
  consider "op \<in> {MulOp, DivOp}" | "op \<in> {AddOp, SubOp}" | "op \<in> {GtOp, GeOp, LtOp, LeOp}"
    | "op \<in> {EqOp, NeOp}" | "op = AndOp" | "op = OrOp"
    by (cases op) auto
  then show ?thesis
  proof cases
    case 1
    have "parseMulExpr ?p s = Ok (Binary op l e) r"
      unfolding parseMulExpr_def
      by (rule infix_hit [where operand = "parseUnaryExpr ?p" and oper = "parseMulOp" and ra = ?t
            and rb = "'' '' @ u" and rc = r, OF _ _ _ _ shrinks_ops(4) orExprN_rules_shrink(1)])
        (use 1 l r op_text_reads(1) stops in blast)+
    then show ?thesis by (intro up(2-6))
  next
    case 2
    have "parseAddExpr ?p s = Ok (Binary op l e) r"
      unfolding parseAddExpr_def
      by (rule infix_hit [where operand = "parseMulExpr ?p" and oper = "parseAddOp" and ra = ?t
            and rb = "'' '' @ u" and rc = r, OF _ _ _ _ shrinks_ops(3) orExprN_rules_shrink(2)])
        (use 2 L1 R1 op_text_reads(3) stops in blast)+
    then show ?thesis by (intro up(3-6))
  next
    case 3
    have "parseRelExpr ?p s = Ok (foldRel (Some op) l e) r"
      unfolding parseRelExpr_def
      by (rule infix_hit [where operand = "parseAddExpr ?p" and oper = "parseRelOp" and ra = ?t
            and rb = "'' '' @ u" and rc = r, OF _ _ _ _ shrinks_ops(2) orExprN_rules_shrink(3)])
        (use 3 L2 R2 op_text_reads(5) stops in blast)+
    then show ?thesis by (intro up(4-6)) (simp add: foldRel_def)
  next
    case 4
    have "parseEqExpr ?p s = Ok (Binary op l e) r"
      unfolding parseEqExpr_def
      by (rule infix_hit [where operand = "parseRelExpr ?p" and oper = "parseEqOp" and ra = ?t
            and rb = "'' '' @ u" and rc = r, OF _ _ _ _ shrinks_ops(1) orExprN_rules_shrink(4)])
        (use 4 L3 R3 op_text_reads(7) stops in blast)+
    then show ?thesis by (intro up(5-6))
  next
    case 5
    have "parseAndExpr ?p s = Ok (Binary AndOp l e) r"
      unfolding parseAndExpr_def
      by (rule infix_hit [where operand = "parseEqExpr ?p" and oper = "lit ''&&'' AndOp" and ra = ?t
            and rb = "'' '' @ u" and rc = r, OF _ _ _ _ shrinks_lit orExprN_rules_shrink(5)])
        (use 5 L4 R4 op_text_reads(9) stops in blast)+
    then have "parseAndExpr ?p s = Ok (Binary op l e) r" using 5 by simp
    then show ?thesis by (rule up(6))
  next
    case 6
    have "parseOrExpr ?p s = Ok (Binary OrOp l e) r"
      unfolding parseOrExpr_def
      by (rule infix_hit [where operand = "parseAndExpr ?p" and oper = "lit ''||'' OrOp" and ra = ?t
            and rb = "'' '' @ u" and rc = r, OF _ _ _ _ shrinks_lit orExprN_rules_shrink(6)])
        (use 6 L5 R5 op_text_reads(11) stops in blast)+
    then show ?thesis using 6 by simp
  qed
qed

lemma or_of_membership:
  assumes l: "parseUnaryExpr (parseOrExprN n) s = Ok l ('' in '' @ u)"
    and r: "parseUnaryExpr (parseOrExprN n) (parse_ws ('' '' @ u)) = Ok e r"
    and stop: "no_operator r"
  shows "parseOrExpr (parseOrExprN n) s = Ok (Membership l e) r"
proof -
  note up = level_up [OF stop]
  note R1 = up(1) [OF r] note R2 = up(2) [OF R1]
  have L1: "parseMulExpr (parseOrExprN n) s = Ok l ('' in '' @ u)"
    using l unfolding parseMulExpr_def by (intro infix_pass in_reads)
  then have L2: "parseAddExpr (parseOrExprN n) s = Ok l ('' in '' @ u)"
    unfolding parseAddExpr_def by (intro infix_pass in_reads)
  have "parseRelExpr (parseOrExprN n) s = Ok (foldRel None l e) r"
    unfolding parseRelExpr_def
    by (rule infix_hit [where operand = "parseAddExpr (parseOrExprN n)" and oper = parseRelOp
          and ra = "'' in '' @ u" and rb = "'' '' @ u" and rc = r,
          OF _ _ _ _ shrinks_ops(2) orExprN_rules_shrink(3)])
      (use L2 R2 in_reads(3) stop [unfolded no_operator_def] in blast)+
  then show ?thesis by (intro up(4-6)) (simp add: foldRel_def)
qed

section \<open>Printed trees are read back\<close>

lemma print_first:
  "wf_expr e \<Longrightarrow> \<exists>c s. print_expr e = c # s \<and> \<not> peg_space c \<and> c \<noteq> CHR '')''"
proof (induction e rule: print_expr.induct)
  case (1 t)
  then obtain sg c u where "t = sg @ c # u" "sg \<in> {'''', ''-''}" "is_digit c"
    by (metis int_text_def numeral_Cons sign_splitE wf_expr.simps(1))
  then show ?case by (auto dest: digit_facts simp: peg_space_def)
next
  case (2 t)
  then obtain sg c u where "t = sg @ c # u" "sg \<in> {'''', ''-''}" "is_digit c"
    using float_text_split [of t] by (auto; metis)
  then show ?case by (auto dest: digit_facts simp: peg_space_def)
next
  case (9 fn args) then show ?case by (cases fn) (auto simp: peg_space_def)
qed (auto simp: quote_of_def peg_space_def)

lemma parse_ws_print: "wf_expr e \<Longrightarrow> parse_ws (print_expr e @ r) = print_expr e @ r"
  using print_first [of e] by (auto simp: parse_ws_idle)

lemma parse_ws_space: "parse_ws (CHR '' '' # s) = parse_ws s"
  by (simp add: parse_ws_def peg_space_def)

lemma delimited_simps [simp]:
  "delimited []" "delimited (CHR '')'' # r)" "delimited (CHR '','' # r)" "delimited (CHR '' '' # r)"
  by (simp_all add: delimited_def)

lemma unary_of_paren:
  assumes "parseOrExprN n s = Ok e (CHR '')'' # r)" "parse_ws s = s"
  shows "parseUnaryExpr (parseOrExprN n) (CHR ''('' # s) = Ok e r"
  using assms
  by (simp add: unary_primary parsePrimary_def callFn_first parseParenExpr_def parse_ws_idle peg_space_def)

lemma orExpr_none: "n > 0 \<Longrightarrow> parseOrExprN n (CHR '')'' # r) = Failed"
  by (cases n) (simp_all add: level_defs peg_infix_def unary_primary parsePrimary_def callFn_first
    paren_first parseLiteral_def alpha_not_number is_digit_def parseBoolLit_def parseStringLit_def quoted_def
    parseIdentifierExpr_def parseDollarIdent_def parseHashIdent_def parseBareIdent_def parseIdentPath_def
    parseIdent_def is_alpha_def)

lemma or_of_print:
  assumes "parseUnaryExpr (parseOrExprN m) s = Ok e r" "no_operator r"
  shows "parseOrExprN (Suc m) s = Ok e r"
  using assms by (simp add: or_of_unary)

definition reads :: "nat \<Rightarrow> expr \<Rightarrow> bool" where
  "reads n e \<longleftrightarrow> (\<forall>r. delimited r \<longrightarrow> parseUnaryExpr (parseOrExprN n) (print_expr e @ r) = Ok e r)"

lemma args_tail:
  assumes "list_all (reads m) es" "list_all wf_expr es" "length es < k"
  shows "peg_tail k (lit '','' ()) (parseOrExprN (Suc m))
      (concat (map (\<lambda>e. '', '' @ print_expr e) es) @ '')'' @ r) =
    Ok (map (Pair ()) es) (CHR '')'' # r)"
  using assms
proof (induction es arbitrary: k)
  case Nil
  then obtain j where "k = Suc j" by (cases k) auto
  then show ?case by (simp add: parse_ws_idle peg_space_def)
next
  case (Cons e es)
  then obtain j where k: "k = Suc j" by (cases k) auto
  let ?u = "concat (map (\<lambda>e. '', '' @ print_expr e) es) @ '')'' @ r"
  have d: "delimited ?u" "no_operator ?u" by (cases es; simp add: no_operator_end)+
  have "parseOrExprN (Suc m) (print_expr e @ ?u) = Ok e ?u"
    using Cons.prems(1) d by (intro or_of_print) (simp_all add: reads_def)
  then show ?case
    using Cons k by (simp add: parse_ws_idle peg_space_def parse_ws_space parse_ws_print del: parseOrExprN.simps)
qed

lemma length_concat_args: "length es \<le> length (concat (map (\<lambda>e. '', '' @ print_expr e) es))"
  by (induction es) auto

lemma args_print:
  assumes "list_all (reads m) es" "list_all wf_expr es"
  shows "parseArgs (parseOrExprN (Suc m)) (parse_ws (join_with '', '' (map print_expr es) @ CHR '')'' # r))
    = Ok es (CHR '')'' # r)"
proof (cases es)
  case Nil
  then show ?thesis
    by (simp add: parseArgs_def parse_ws_idle peg_space_def orExpr_none del: parseOrExprN.simps)
next
  case (Cons e fs)
  let ?c = "concat (map (\<lambda>e. '', '' @ print_expr e) fs)"
  let ?u = "?c @ '')'' @ r"
  have d: "delimited ?u" "no_operator ?u" by (cases fs; simp add: no_operator_end)+
  have printed: "join_with '', '' (map print_expr es) @ CHR '')'' # r = print_expr e @ ?u"
    by (simp add: Cons join_with_Cons o_def)
  have "parseOrExprN (Suc m) (print_expr e @ ?u) = Ok e ?u"
    using assms d Cons by (intro or_of_print) (simp_all add: reads_def)
  moreover have "peg_tail (Suc (length ?u)) (lit '','' ()) (parseOrExprN (Suc m)) ?u =
      Ok (map (Pair ()) fs) (CHR '')'' # r)"
    using assms Cons length_concat_args [of fs] by (intro args_tail) auto
  ultimately show ?thesis
    using assms Cons
    unfolding printed by (simp add: parse_ws_print parseArgs_def o_def del: parseOrExprN.simps peg_tail.simps)
qed

lemma call_print:
  assumes "list_all (reads m) es" "list_all wf_expr es" "\<not> (fn = Contains \<and> length es = 2)"
  shows "reads (Suc m) (Call fn es)"
proof -
  let ?a = "join_with '', '' (map print_expr es)"
  have "parseUnaryExpr (parseOrExprN (Suc m)) (fn_text fn @ ''('' @ ?a @ CHR '')'' # r) = Ok (Call fn es) r" for r
  proof -
    have "parseCallFn (fn_text fn @ ''('' @ ?a @ CHR '')'' # r) = Ok fn (''('' @ ?a @ CHR '')'' # r)"
      by (cases fn) (simp_all add: parseCallFn_def no_identRest_def identRest_def is_alpha_def is_digit_def)
    then have "parseCall (parseOrExprN (Suc m)) (fn_text fn @ ''('' @ ?a @ CHR '')'' # r) = Ok (Call fn es) r"
      using args_print [OF assms(1,2), of r] assms(3)
      by (simp add: parseCall_def parse_ws_idle peg_space_def mkCall_def del: parseOrExprN.simps)
    then show ?thesis
      by (cases fn) (simp_all add: unary_primary parsePrimary_def del: parseOrExprN.simps)
  qed
  then show ?thesis by (simp add: reads_def)
qed


lemma member_length: "x \<in> set xs \<Longrightarrow> length (f x) \<le> length (join_with sep (map f xs))"
  by (induction xs rule: induct_list012) auto

lemma paren_binary:
  assumes "reads m l" "reads m e" "wf_expr l" "wf_expr e"
  shows "reads (Suc m) (Binary op l e)"
  unfolding reads_def
proof (intro allI impI)
  fix r
  let ?s = "print_expr l @ '' '' @ op_text op @ '' '' @ print_expr e @ CHR '')'' # r"
  have "parseOrExpr (parseOrExprN m) ?s = Ok (Binary op l e) (CHR '')'' # r)"
  proof (rule or_of_binary)
    show "parseUnaryExpr (parseOrExprN m) ?s = Ok l ('' '' @ op_text op @ '' '' @ (print_expr e @ CHR '')'' # r))"
      using assms(1) by (simp add: reads_def)
    show "parseUnaryExpr (parseOrExprN m) (parse_ws ('' '' @ print_expr e @ CHR '')'' # r)) = Ok e (CHR '')'' # r)"
      using assms(2,4) by (simp add: reads_def parse_ws_space parse_ws_print)
  qed (rule no_operator_end)
  then show "parseUnaryExpr (parseOrExprN (Suc m)) (print_expr (Binary op l e) @ r) = Ok (Binary op l e) r"
    using unary_of_paren [of "Suc m" ?s] parse_ws_print [OF assms(3)] by simp
qed

lemma paren_membership:
  assumes "reads m l" "reads m e" "wf_expr l" "wf_expr e"
  shows "reads (Suc m) (Membership l e)"
  unfolding reads_def
proof (intro allI impI)
  fix r
  let ?s = "print_expr l @ '' in '' @ print_expr e @ CHR '')'' # r"
  have "parseOrExpr (parseOrExprN m) ?s = Ok (Membership l e) (CHR '')'' # r)"
  proof (rule or_of_membership)
    show "parseUnaryExpr (parseOrExprN m) ?s = Ok l ('' in '' @ (print_expr e @ CHR '')'' # r))"
      using assms(1) by (simp add: reads_def)
    show "parseUnaryExpr (parseOrExprN m) (parse_ws ('' '' @ print_expr e @ CHR '')'' # r)) = Ok e (CHR '')'' # r)"
      using assms(2,4) by (simp add: reads_def parse_ws_space parse_ws_print)
  qed (rule no_operator_end)
  then show "parseUnaryExpr (parseOrExprN (Suc m)) (print_expr (Membership l e) @ r) = Ok (Membership l e) r"
    using unary_of_paren [of "Suc m" ?s] parse_ws_print [OF assms(3)] by simp
qed

lemma unary_bang:
  assumes "reads n e" "wf_expr e" shows "reads n (Unary e)"
  using assms by (simp add: reads_def parseUnaryExpr.simps [of _ "CHR ''!'' # _"] parse_ws_print)

lemma reads_primary:
  assumes "\<And>r. delimited r \<Longrightarrow> parsePrimary (parseOrExprN n) (print_expr e @ r) = Ok e r"
    "print_expr e = c # s" "c \<noteq> CHR ''!''"
  shows "reads n e"
  using assms by (simp add: reads_def unary_primary)

lemma print_reads: "wf_expr e \<Longrightarrow> length (print_expr e) \<le> n \<Longrightarrow> reads n e"
proof (induction e arbitrary: n rule: print_expr.induct)
  case (1 t)
  then have t: "int_text t" by simp
  obtain c s where "t = c # s" using print_first [OF 1(1)] by auto
  moreover have "c \<noteq> CHR ''!''" if "t = c # s" for c s
    using t that by (auto simp: int_text_def sign_split_def starts_with_def numeral_Cons is_digit_def split: if_splits)
  ultimately show ?case using primary_IntLit [OF t] by (intro reads_primary) simp_all
next
  case (2 t)
  then have t: "float_text t" by simp
  then obtain c s where "t = c # s" "c \<noteq> CHR ''!''"
    using float_text_split [OF t] by (auto dest: digit_facts)
  then show ?case using primary_FloatLit [OF t] by (intro reads_primary) simp_all
next
  case (3 b)
  then show ?case using primary_BoolLit [of _ "parseOrExprN n" b]
    by (cases b) (auto intro!: reads_primary)
next
  case (4 s)
  then show ?case using primary_StringLit [of s "parseOrExprN n"]
    by (auto intro!: reads_primary simp: quote_of_def split: if_splits)
next
  case (5 path)
  then show ?case using primary_Identifier [of path _ "parseOrExprN n"]
    by (auto intro!: reads_primary)
next
  case (6 e)
  then show ?case by (intro unary_bang) simp_all
next
  case (7 op l r)
  then obtain m where m: "n = Suc m" by (cases n) auto
  then have "reads m l" "reads m r" using 7 by simp_all
  then show ?case using 7 m by (auto intro: paren_binary)
next
  case (8 l r)
  then obtain m where m: "n = Suc m" by (cases n) auto
  then have "reads m l" "reads m r" using 8 by simp_all
  then show ?case using 8 m by (auto intro: paren_membership)
next
  case (9 fn args)
  then obtain m where m: "n = Suc m" by (cases n) auto
  have "reads m a" if "a \<in> set args" for a
    using 9 m that member_length [of a args print_expr "'', ''"]
    by (auto simp: list_all_iff)
  then show ?case using 9(2) m by (auto intro!: call_print simp: list_all_iff)
qed

text \<open>Printed trees are read back.\<close>

lemma parse_print: "wf_expr e \<Longrightarrow> peg_parse (print_expr e) = Some e"
proof -
  assume wf: "wf_expr e"
  then have "reads (length (print_expr e)) e" by (intro print_reads) simp_all
  then have "parseUnaryExpr (parseOrExprN (length (print_expr e))) (print_expr e) = Ok e []"
    by (auto simp: reads_def dest: spec [of _ "[]"])
  then have "parseOrExprN (Suc (length (print_expr e))) (print_expr e) = Ok e []"
    by (rule or_of_print) (rule no_operator_end)
  then show ?thesis
    using parse_ws_print [OF wf, of "[]"]
    by (simp add: peg_parse_def parseStart_def del: parseOrExprN.simps)
qed

section \<open>Soundness\<close>

text \<open>Every tree a rule returns satisfies \<open>wf_expr\<close>.\<close>

definition sound :: "(string \<Rightarrow> expr pres) \<Rightarrow> bool" where
  "sound p \<longleftrightarrow> (\<forall>s e r. p s = Ok e r \<longrightarrow> wf_expr e)"

lemma soundD: "sound p \<Longrightarrow> p s = Ok e r \<Longrightarrow> wf_expr e"
  by (auto simp: sound_def)

lemma peg_tail_sound:
  "sound operand \<Longrightarrow> peg_tail n oper operand s = Ok xs r \<Longrightarrow> list_all wf_expr (map snd xs)"
  by (induction n arbitrary: s xs r) (auto split: pres.splits dest: soundD)

lemma foldl_sound:
  assumes "\<And>o' l r. wf_expr l \<Longrightarrow> wf_expr r \<Longrightarrow> wf_expr (mk o' l r)"
  shows "wf_expr h \<Longrightarrow> list_all wf_expr (map snd xs) \<Longrightarrow> wf_expr (foldl (\<lambda>lhs (o', rhs). mk o' lhs rhs) h xs)"
  by (induction xs arbitrary: h) (auto simp: assms)

lemma infix_sound:
  assumes "sound operand" "\<And>o' l r. wf_expr l \<Longrightarrow> wf_expr r \<Longrightarrow> wf_expr (mk o' l r)"
  shows "sound (peg_infix oper mk operand)"
  unfolding sound_def
proof (intro allI impI)
  fix s e r assume "peg_infix oper mk operand s = Ok e r"
  then obtain h u xs where "operand s = Ok h u" "peg_tail (Suc (length u)) oper operand u = Ok xs r"
      and e: "e = foldl (\<lambda>lhs (o', rhs). mk o' lhs rhs) h xs"
    by (auto simp: peg_infix_def simp del: peg_tail.simps split: pres.splits)
  then have "wf_expr h" "list_all wf_expr (map snd xs)"
    using soundD [OF assms(1)] peg_tail_sound [OF assms(1)] by blast+
  then show "wf_expr e" unfolding e by (intro foldl_sound assms(2))
qed

lemma args_sound:
  assumes "sound p" "parseArgs p s = Ok es r" shows "list_all wf_expr es"
proof (cases "p s")
  case (Ok h u)
  then obtain xs where "peg_tail (Suc (length u)) (lit '','' ()) p u = Ok xs r" "es = h # map snd xs"
    using assms(2) by (auto simp: parseArgs_def simp del: peg_tail.simps split: pres.splits)
  then show ?thesis
    using soundD [OF assms(1) Ok] peg_tail_sound [OF assms(1)] by (simp del: peg_tail.simps)
qed (use assms(2) in \<open>simp_all add: parseArgs_def\<close>)

lemma mkCall_sound: "list_all wf_expr es \<Longrightarrow> wf_expr (mkCall fn es)"
  by (auto simp: mkCall_def list_all_length)

lemma call_sound: "sound p \<Longrightarrow> sound (parseCall p)"
  unfolding sound_def [of "parseCall p"]
  by (auto simp: parseCall_def lit_Ok split: pres.splits intro!: mkCall_sound dest: args_sound)

lemma paren_sound: "sound p \<Longrightarrow> sound (parseParenExpr p)"
  unfolding sound_def [of "parseParenExpr p"]
  by (auto simp: parseParenExpr_def lit_Ok split: pres.splits dest: soundD)

lemma takeWhile_all_id: "list_all P (takeWhile P xs)"
  by (auto simp: list_all_iff dest: set_takeWhileD)

lemma sign_split_digits:
  "sign_split s = (sg, u) \<Longrightarrow> list_all is_digit (c # d) \<Longrightarrow> sign_split (sg @ (c # d) @ v) = (sg, (c # d) @ v)"
  by (auto simp: sign_split_def starts_with_def dest: digit_facts split: if_splits)

lemma IntLit_sound: "parseIntLit s = Ok e r \<Longrightarrow> wf_expr e"
proof -
  assume a: "parseIntLit s = Ok e r"
  obtain sg u where sp: "sign_split s = (sg, u)" by (cases "sign_split s")
  with a have tw: "takeWhile is_digit u \<noteq> []" and e: "e = IntLit (sg @ takeWhile is_digit u)"
    by (auto simp: parseIntLit_def Let_def split: if_splits)
  obtain c d where cd: "takeWhile is_digit u = c # d" using tw by (cases "takeWhile is_digit u") auto
  have all: "list_all is_digit (c # d)" using takeWhile_all_id [of is_digit u] cd by simp
  then show "wf_expr e"
    using e cd sign_split_digits [OF sp, of c d "[]"]
    by (simp add: int_text_def is_numeral_def)
qed

lemma FloatLit_sound: "parseFloatLit s = Ok e r \<Longrightarrow> wf_expr e"
proof -
  assume a: "parseFloatLit s = Ok e r"
  obtain sg u where sp: "sign_split s = (sg, u)" by (cases "sign_split s")
  with a obtain v where tw: "takeWhile is_digit u \<noteq> []" "takeWhile is_digit v \<noteq> []"
      and e: "e = FloatLit (sg @ takeWhile is_digit u @ ''.'' @ takeWhile is_digit v)"
    by (auto simp: parseFloatLit_def Let_def split: if_splits pres.splits)
  obtain c d where cd: "takeWhile is_digit u = c # d" using tw by (cases "takeWhile is_digit u") auto
  have all: "list_all is_digit (c # d)" using takeWhile_all_id [of is_digit u] cd by simp
  have dot: "\<not> is_digit CHR ''.''" by (simp add: is_digit_def)
  show "wf_expr e"
    using e cd sign_split_digits [OF sp all, of "''.'' @ takeWhile is_digit v"] all dot tw(2)
      takeWhile_all_id [of is_digit v]
    by (simp add: float_text_def is_numeral_def Let_def takeWhile_all dropWhile_all)
qed

lemma StringLit_sound: "parseStringLit s = Ok e r \<Longrightarrow> wf_expr e"
  by (auto simp: parseStringLit_def quoted_def lit_Ok or_else_cases split: list.splits if_splits
      dest: set_takeWhileD)

lemma BoolLit_sound: "parseBoolLit s = Ok e r \<Longrightarrow> wf_expr e"
  by (auto simp: parseBoolLit_def split: pres.splits if_splits)

lemma parseIdent_sound: "parseIdent s = Ok i r \<Longrightarrow> valid_ident i"
  by (auto simp: parseIdent_def valid_ident_def takeWhile_all_id split: list.splits if_splits)

lemma identPathTail_sound: "identPathTail s = (is, r) \<Longrightarrow> list_all valid_ident is"
proof (induction s arbitrary: "is" r rule: measure_induct_rule [where f = length])
  case (less s)
  from less(2) consider "is = []"
    | u i v js where "s = CHR ''.'' # u" "parseIdent u = Ok i v" "identPathTail v = (js, r)" "is = i # js"
    by (subst (asm) identPathTail.simps) (auto split: list.splits if_splits pres.splits prod.splits)
  then show ?case
  proof cases
    case 2
    then have "length v < length s" using parseIdent_shrinks [of u i v] by simp
    then show ?thesis using less(1) 2 parseIdent_sound [of u i v] by simp
  qed simp
qed

lemma identPath_sound: "parseIdentPath s = Ok path r \<Longrightarrow> wf_expr (Identifier path)"
proof -
  assume "parseIdentPath s = Ok path r"
  then obtain i u "is" where "parseIdent s = Ok i u" "identPathTail u = (is, r)" "path = i # is"
    by (auto simp: parseIdentPath_def split: pres.splits prod.splits)
  then show ?thesis using parseIdent_sound identPathTail_sound by simp
qed

lemma Identifier_sound: "parseIdentifierExpr s = Ok e r \<Longrightarrow> wf_expr e"
  using identPath_sound
  by (auto simp: parseIdentifierExpr_def parseDollarIdent_def parseHashIdent_def parseBareIdent_def
      or_else_cases lit_Ok simp del: wf_expr.simps split: pres.splits)

lemma primary_sound: "sound p \<Longrightarrow> sound (parsePrimary p)"
  using call_sound [of p] paren_sound [of p] IntLit_sound FloatLit_sound BoolLit_sound StringLit_sound
    Identifier_sound
  unfolding sound_def [of "parsePrimary p"] parsePrimary_def parseLiteral_def or_else_cases
  by (blast dest: soundD)

lemma unary_sound:
  assumes "sound p" shows "sound (parseUnaryExpr p)"
proof -
  have "\<forall>e r. parseUnaryExpr p s = Ok e r \<longrightarrow> wf_expr e" for s
  proof (induction s rule: unary_induct)
    case (1 s)
    show ?case
    proof (intro allI impI)
      fix e r assume "parseUnaryExpr p s = Ok e r"
      then consider "parsePrimary p s = Ok e r"
        | u a where "s = CHR ''!'' # u" "parseUnaryExpr p (parse_ws u) = Ok a r" "e = Unary a"
        by (subst (asm) parseUnaryExpr.simps) (auto split: list.splits if_splits pres.splits)
      then show "wf_expr e"
        using "1" soundD [OF primary_sound [OF assms]] by cases auto
    qed
  qed
  then show ?thesis by (simp add: sound_def)
qed

lemma or_sound: "sound p \<Longrightarrow> sound (parseOrExpr p)"
  unfolding level_defs
  by (intro infix_sound unary_sound) (auto simp: foldRel_def split: option.split)

lemma orN_sound: "sound (parseOrExprN n)"
  by (induction n) (simp_all add: parseOrExprN_knot or_sound, simp add: sound_def)

lemma parse_sound: "peg_parse s = Some e \<Longrightarrow> wf_expr e"
  using soundD [OF orN_sound]
  by (auto simp: peg_parse_def parseStart_def simp del: parseOrExprN.simps split: pres.splits if_splits)

section \<open>Properties\<close>

text \<open>C23. Printing and parsing round trip, and the language of trees is exactly known: a tree is
  the result of parsing some text if and only if it satisfies \<open>wf_expr\<close> (numerals and identifiers
  are lexically right, no string holds both kinds of quotes, and no two-argument \<^verbatim>\<open>contains\<close> is
  left as a call), and then parsing its printed text gives back the same tree.\<close>

theorem parse_image_roundtrip:
  "((\<exists>s. parseExpression s = ParseOk e) \<longleftrightarrow> wf_expr e) \<and>
   (parseExpression (print_expr e) = ParseOk e \<longleftrightarrow> wf_expr e)"
  using parse_print [of e] parse_sound
  by (auto simp: parseExpression_def split: option.splits; metis)

end
