(* ===== verification/Lint.thy ===== *)
theory Lint
  imports Domain_Types Expr_Roundtrip
begin

text \<open>
  \<^verbatim>\<open>workflow-modeller/src/domain/expression/lint.ts\<close>: the diagnostics of one decision or
  transformation expression. Functions that build an \<^verbatim>\<open>out\<close> array return its content in push
  order. A \<^verbatim>\<open>Set\<close> of variable names is a list in insertion order.
\<close>

section \<open>Model\<close>

record lint_context =
  ctx_nodeId :: "step_id option"
  ctx_field :: "string option"
  ctx_branchKey :: "string option"

text \<open>The spread \<^verbatim>\<open>...ctx\<close> in a diagnostic literal.\<close>

definition with_ctx :: "lint_context \<Rightarrow> diagnostic \<Rightarrow> diagnostic" where
  "with_ctx ctx d = d\<lparr>nodeId := ctx_nodeId ctx, fieldName := ctx_field ctx, branchKey := ctx_branchKey ctx\<rparr>"

text \<open>\<^verbatim>\<open>path.split('.', 1)[0]\<close>.\<close>

definition root_of :: "string \<Rightarrow> string" where
  "root_of path = takeWhile (\<lambda>c. c \<noteq> CHR ''.'') path"

text \<open>The loop over the identifiers; the accumulator is the set \<^verbatim>\<open>seen\<close>.\<close>

fun unknownRoots :: "string list \<Rightarrow> string list \<Rightarrow> string list \<Rightarrow> string list" where
  "unknownRoots knownVars seen [] = []"
| "unknownRoots knownVars seen (path # paths) =
     (let root = root_of path
      in if root \<in> set knownVars \<or> root \<in> set seen then unknownRoots knownVars seen paths
         else root # unknownRoots knownVars (seen @ [root]) paths)"

definition lintDecisionExpression ::
  "string \<Rightarrow> string list \<Rightarrow> lint_context \<Rightarrow> diagnostic list" where
  "lintDecisionExpression source knownVars ctx =
     (case parseExpression source of
        ParseErr \<Rightarrow> [with_ctx ctx (diag DECISION_EXPR_SYNTAX Error)]
      | ParseOk ast \<Rightarrow>
          (if \<not> topLevelLikelyBoolean ast
           then [with_ctx ctx (diag DECISION_EXPR_NON_BOOLEAN Error)] else [])
          @ (if knownVars \<noteq> []
             then map (\<lambda>_. with_ctx ctx (diag DECISION_EXPR_UNKNOWN_IDENT Warning))
                    (unknownRoots knownVars [] (collectIdentifiers ast))
             else []))"

definition lintTransformationExpression :: "string \<Rightarrow> lint_context \<Rightarrow> diagnostic list" where
  "lintTransformationExpression source ctx =
     (case unwrapTransformationExpression source of
        None \<Rightarrow> []
      | Some inner \<Rightarrow>
          (case parseExpression inner of
             ParseErr \<Rightarrow> [with_ctx ctx (diag TRANSFORMATION_EXPR_SYNTAX Error)]
           | ParseOk _ \<Rightarrow> []))"

section \<open>Lemmas\<close>

lemma with_ctx_sel [simp]:
  "code (with_ctx ctx d) = code d" "severity (with_ctx ctx d) = severity d"
  "nodeId (with_ctx ctx d) = ctx_nodeId ctx"
  by (simp_all add: with_ctx_def)

lemma set_unknownRoots:
  "set (unknownRoots known seen paths) = root_of ` set paths - set known - set seen"
  by (induction paths arbitrary: seen) (auto simp: Let_def)

lemma distinct_unknownRoots: "distinct (unknownRoots known seen paths)"
  by (induction paths arbitrary: seen) (auto simp: Let_def set_unknownRoots)

text \<open>When a text is accepted as a decision expression.\<close>

definition decision_text :: "string \<Rightarrow> bool" where
  "decision_text source \<longleftrightarrow>
     (case parseExpression source of ParseErr \<Rightarrow> False | ParseOk ast \<Rightarrow> topLevelLikelyBoolean ast)"

definition transformation_text :: "string \<Rightarrow> bool" where
  "transformation_text source \<longleftrightarrow>
     (case unwrapTransformationExpression source of
        None \<Rightarrow> True | Some inner \<Rightarrow> parseExpression inner \<noteq> ParseErr)"

lemma lintDecision_errors [diag_simps]:
  "errors (lintDecisionExpression s known ctx) = [] \<longleftrightarrow> decision_text s"
  by (auto simp: lintDecisionExpression_def decision_text_def split: parse_result.splits)

lemma lintTransformation_errors [diag_simps]:
  "errors (lintTransformationExpression s ctx) = [] \<longleftrightarrow> transformation_text s"
  by (auto simp: lintTransformationExpression_def transformation_text_def
      split: option.splits parse_result.splits)

text \<open>Only arithmetic results and number or string literals are rejected as non-boolean.\<close>

lemma not_boolean_iff:
  "\<not> topLevelLikelyBoolean e \<longleftrightarrow>
     (\<exists>t. e = IntLit t \<or> e = FloatLit t \<or> e = StringLit t) \<or>
     (\<exists>op l r. e = Binary op l r \<and> op \<in> {AddOp, SubOp, MulOp, DivOp})"
proof (cases e)
  case (Binary op l r)
  then show ?thesis by (cases op) auto
qed auto

section \<open>Properties\<close>

text \<open>Linting a decision expression reports exactly one warning for each root variable that the
  expression names and no transformation produces, and only when some variable is known; the
  number of warnings is the number of such roots.\<close>

theorem unknown_identifier_warnings:
  assumes "parseExpression source = ParseOk ast"
  shows "length (with_code DECISION_EXPR_UNKNOWN_IDENT (lintDecisionExpression source known ctx)) =
    (if known = [] then 0 else card (root_of ` set (collectIdentifiers ast) - set known))"
proof -
  have "length (unknownRoots known [] (collectIdentifiers ast)) =
      card (root_of ` set (collectIdentifiers ast) - set known)"
    using distinct_card [OF distinct_unknownRoots, of known "[]" "collectIdentifiers ast"]
    by (simp add: set_unknownRoots)
  then show ?thesis
    using assms by (simp add: lintDecisionExpression_def with_code_def o_def)
qed

theorem unknown_identifier_warnings_witness:
  "length (with_code DECISION_EXPR_UNKNOWN_IDENT
     (lintDecisionExpression ''(#a == #b)'' [''a''] \<lparr>ctx_nodeId = None, ctx_field = None, ctx_branchKey = None\<rparr>)) = 1"
proof -
  let ?e = "Binary EqOp (Identifier [''a'']) (Identifier [''b''])"
  have "wf_expr ?e" by (simp add: valid_ident_def is_alpha_def)
  from parse_print [OF this] have p: "parseExpression ''(#a == #b)'' = ParseOk ?e"
    by (simp add: parseExpression_def)
  have "root_of ` set (collectIdentifiers ?e) - set [''a''] = {''b''}" by (auto simp: root_of_def)
  with unknown_identifier_warnings [OF p] show ?thesis by simp
qed

end
