(* ===== verification/Validate.thy ===== *)
theory Validate
  imports Rename Lint
begin

text \<open>
  The checks of \<^verbatim>\<open>workflow-modeller/src/domain/validate.ts\<close> and the key tables of
  \<^verbatim>\<open>schema.ts\<close>. A check that pushes onto \<^verbatim>\<open>out\<close> returns the list of what it pushes; \<open>validate\<close>
  appends them in call order.

  Steps are typed here, so \<^verbatim>\<open>checkStepTypesValid\<close> and the \<^verbatim>\<open>default\<close> branches for unknown step
  types have no case of their own. An imported text cannot have such a step, since the schema rejects
  it, but \<^verbatim>\<open>loadFromEngine\<close> and \<^verbatim>\<open>loadDraft\<close> do not consult the schema: a definition of the engine or of
  a stored draft with a step type outside \<^verbatim>\<open>STEP_TYPES\<close>, which the source reports, is outside this model.
\<close>

section \<open>Key tables\<close>

definition STEP_TYPES :: "step_type list" where
  "STEP_TYPES = [SERVICE_TASK, USER_TASK, DECISION, DECISION_TABLE, TRANSFORMATION, WAIT,
     PARALLEL_GATEWAY, JOIN_GATEWAY, END]"

fun KNOWN_STEP_KEYS :: "step_type \<Rightarrow> string list" where
  "KNOWN_STEP_KEYS SERVICE_TASK =
     [''id'', ''name'', ''type'', ''description'', ''nextStep'', ''jobType'', ''delegateClass'',
      ''retryCount'', ''boundaryEvents'']"
| "KNOWN_STEP_KEYS USER_TASK =
     [''id'', ''name'', ''type'', ''description'', ''nextStep'', ''jobType'', ''boundaryEvents'']"
| "KNOWN_STEP_KEYS DECISION = [''id'', ''name'', ''type'', ''description'', ''conditionalNextSteps'']"
| "KNOWN_STEP_KEYS DECISION_TABLE =
     [''id'', ''name'', ''type'', ''description'', ''hitPolicy'', ''nextStep'', ''decisionTable'']"
| "KNOWN_STEP_KEYS TRANSFORMATION =
     [''id'', ''name'', ''type'', ''description'', ''nextStep'', ''transformations'']"
| "KNOWN_STEP_KEYS WAIT =
     [''id'', ''name'', ''type'', ''description'', ''nextStep'', ''boundaryEvents'']"
| "KNOWN_STEP_KEYS PARALLEL_GATEWAY =
     [''id'', ''name'', ''type'', ''description'', ''parallelNextSteps'', ''joinStep'']"
| "KNOWN_STEP_KEYS JOIN_GATEWAY = [''id'', ''name'', ''type'', ''description'', ''nextStep'']"
| "KNOWN_STEP_KEYS END = [''id'', ''name'', ''type'', ''description'']"

definition KNOWN_ROOT_KEYS :: "string list" where
  "KNOWN_ROOT_KEYS =
     [''id'', ''version'', ''name'', ''description'', ''autoStartNextWorkflow'', ''nextWorkflowId'',
      ''steps'', ''metadata'']"

text \<open>\<^verbatim>\<open>Object.keys\<close> of a step and of a definition: the present keys of the schema, then the
  passthrough ones. \<open>opt_key\<close> is a key whose value may be absent.\<close>

definition opt_key :: "string \<Rightarrow> 'a option \<Rightarrow> string list" where
  "opt_key k v = (case v of None \<Rightarrow> [] | Some _ \<Rightarrow> [k])"

definition common_keys :: "step_common \<Rightarrow> string list" where
  "common_keys c = [''id'', ''name'', ''type''] @ opt_key ''description'' (c_description c)"

fun step_keys :: "step \<Rightarrow> string list" where
  "step_keys (ServiceTask c next jt dc rc evs) =
     common_keys c @ opt_key ''nextStep'' next @ opt_key ''jobType'' jt @ opt_key ''delegateClass'' dc
       @ opt_key ''retryCount'' rc @ opt_key ''boundaryEvents'' evs @ map_keys (c_extra c)"
| "step_keys (UserTask c next jt evs) =
     common_keys c @ opt_key ''nextStep'' next @ opt_key ''jobType'' jt
       @ opt_key ''boundaryEvents'' evs @ map_keys (c_extra c)"
| "step_keys (Decision c _) = common_keys c @ [''conditionalNextSteps''] @ map_keys (c_extra c)"
| "step_keys (DecisionTable c hp _ _) =
     common_keys c @ opt_key ''hitPolicy'' hp @ [''nextStep'', ''decisionTable''] @ map_keys (c_extra c)"
| "step_keys (Transformation c _ _) =
     common_keys c @ [''nextStep'', ''transformations''] @ map_keys (c_extra c)"
| "step_keys (Wait c _ evs) =
     common_keys c @ [''nextStep''] @ opt_key ''boundaryEvents'' evs @ map_keys (c_extra c)"
| "step_keys (ParallelGateway c _ _) =
     common_keys c @ [''parallelNextSteps'', ''joinStep''] @ map_keys (c_extra c)"
| "step_keys (JoinGateway c _) = common_keys c @ [''nextStep''] @ map_keys (c_extra c)"
| "step_keys (End c) = common_keys c @ map_keys (c_extra c)"

definition root_keys :: "workflow_definition \<Rightarrow> string list" where
  "root_keys d =
     [''id''] @ opt_key ''version'' (def_version d) @ [''name'']
       @ opt_key ''description'' (def_description d)
       @ opt_key ''autoStartNextWorkflow'' (autoStartNextWorkflow d)
       @ opt_key ''nextWorkflowId'' (nextWorkflowId d) @ [''steps'']
       @ opt_key ''metadata'' (metadata d) @ map_keys (def_extra d)"

section \<open>Patterns\<close>

definition id_char :: "char \<Rightarrow> bool" where
  "id_char c \<longleftrightarrow> is_alpha c \<or> is_digit c \<or> c \<in> {CHR ''_'', CHR '':'', CHR ''-''}"

definition ID_PATTERN :: "string \<Rightarrow> bool" where
  "ID_PATTERN s \<longleftrightarrow> s \<noteq> '''' \<and> list_all id_char s"

text \<open>\<^verbatim>\<open>(\d+X)?\<close> at the start of the input; what is left. After a run of digits only one letter
  can follow, so the greedy choice is the only one that can succeed.\<close>

definition opt_component :: "char \<Rightarrow> string \<Rightarrow> string" where
  "opt_component x s =
     (case dropWhile is_digit s of
        c # r \<Rightarrow> if takeWhile is_digit s \<noteq> '''' \<and> c = x then r else s
      | [] \<Rightarrow> s)"

text \<open>\<^verbatim>\<open>(\d+(?:\.\d+)?S)?\<close>.\<close>

definition opt_seconds :: "string \<Rightarrow> string" where
  "opt_seconds s =
     (case dropWhile is_digit s of
        c # r \<Rightarrow>
          if takeWhile is_digit s = '''' then s
          else if c = CHR ''.''
          then (case dropWhile is_digit r of
                  c' # r' \<Rightarrow> if takeWhile is_digit r \<noteq> '''' \<and> c' = CHR ''S'' then r' else s
                | [] \<Rightarrow> s)
          else if c = CHR ''S'' then r else s
      | [] \<Rightarrow> s)"

definition ISO_DURATION_PATTERN :: "string \<Rightarrow> bool" where
  "ISO_DURATION_PATTERN s \<longleftrightarrow>
     (case s of
        [] \<Rightarrow> False
      | p # body \<Rightarrow>
          p = CHR ''P'' \<and> body \<noteq> '''' \<and>
          (let date = opt_component CHR ''D'' (opt_component CHR ''W''
                        (opt_component CHR ''M'' (opt_component CHR ''Y'' body)))
           in case date of
                [] \<Rightarrow> True
              | t # time \<Rightarrow>
                  t = CHR ''T'' \<and> time \<noteq> '''' \<and> is_digit (hd time) \<and>
                  opt_seconds (opt_component CHR ''M'' (opt_component CHR ''H'' time)) = ''''))"

definition HIT_POLICIES :: "string list" where
  "HIT_POLICIES = [''U'', ''F'', ''A'', ''R'', ''C'', ''C+'', ''C#'', ''C>'', ''C<'']"

text \<open>\<^verbatim>\<open>!s || s.trim() === ''\<close>.\<close>

definition blank :: "string \<Rightarrow> bool" where
  "blank s \<longleftrightarrow> s = '''' \<or> trim s = ''''"

section \<open>Checks of the definition\<close>

definition checkIdFormat :: "workflow_definition \<Rightarrow> diagnostic list" where
  "checkIdFormat d =
     (if def_id d = '''' \<or> \<not> ID_PATTERN (def_id d) \<or> length (def_id d) > 256
      then [(diag ID_FORMAT Error)\<lparr>fieldName := Some ''id''\<rparr>] else [])"

definition checkNameRequired :: "workflow_definition \<Rightarrow> diagnostic list" where
  "checkNameRequired d =
     (if blank (def_name d) then [(diag NAME_REQUIRED Error)\<lparr>fieldName := Some ''name''\<rparr>] else [])
     @ concat (map (\<lambda>s. if blank (step_name s)
          then [(diag NAME_REQUIRED Error)\<lparr>nodeId := Some (step_id s), fieldName := Some ''name''\<rparr>]
          else []) (steps d))"

definition checkStepsNonEmpty :: "workflow_definition \<Rightarrow> diagnostic list" where
  "checkStepsNonEmpty d =
     (if length (steps d) = 0 then [(diag STEPS_NONEMPTY Error)\<lparr>fieldName := Some ''steps''\<rparr>] else [])"

text \<open>The loop of \<^verbatim>\<open>checkStepIdsUnique\<close>; the first argument is the set \<^verbatim>\<open>seen\<close>.\<close>

fun duplicateIds :: "step_id list \<Rightarrow> step list \<Rightarrow> diagnostic list" where
  "duplicateIds seen [] = []"
| "duplicateIds seen (s # rest) =
     (if step_id s \<in> set seen
      then [(diag STEP_ID_UNIQUE Error)\<lparr>nodeId := Some (step_id s), fieldName := Some ''id''\<rparr>] else [])
     @ duplicateIds (step_id s # seen) rest"

definition checkStepIdsUnique :: "workflow_definition \<Rightarrow> diagnostic list" where
  "checkStepIdsUnique d = duplicateIds [] (steps d)"

definition checkStepIdsPresent :: "workflow_definition \<Rightarrow> diagnostic list" where
  "checkStepIdsPresent d =
     concat (map (\<lambda>s. if blank (step_id s)
       then [(diag STEP_ID_REQUIRED Error)\<lparr>fieldName := Some ''id''\<rparr>] else []) (steps d))"

definition checkStepTypesValid :: "workflow_definition \<Rightarrow> diagnostic list" where
  "checkStepTypesValid d =
     concat (map (\<lambda>s. if type_of s \<notin> set STEP_TYPES
       then [(diag STEP_TYPE_VALID Error)\<lparr>nodeId := Some (step_id s), fieldName := Some ''type''\<rparr>]
       else []) (steps d))"

definition checkNextWorkflowConsistency :: "workflow_definition \<Rightarrow> diagnostic list" where
  "checkNextWorkflowConsistency d =
     (let enabled = (autoStartNextWorkflow d = Some True);
          hasId = (case nextWorkflowId d of None \<Rightarrow> False | Some i \<Rightarrow> trim i \<noteq> '''')
      in if enabled \<noteq> hasId
         then [(diag NEXT_WORKFLOW_CONSISTENCY Error)\<lparr>fieldName := Some ''nextWorkflowId''\<rparr>] else [])"

section \<open>Checks of one step\<close>

text \<open>A diagnostic with \<^verbatim>\<open>nodeId: step.id\<close> and a \<^verbatim>\<open>field\<close>, pushed under a condition.\<close>

definition report_if :: "bool \<Rightarrow> diagnostic_code \<Rightarrow> severity \<Rightarrow> step_id \<Rightarrow> string \<Rightarrow> diagnostic list" where
  "report_if b c sev i f =
     (if b then [(diag c sev)\<lparr>nodeId := Some i, fieldName := Some f\<rparr>] else [])"

text \<open>The second loop over the rules; the first argument is \<^verbatim>\<open>firstCatchAllIndex\<close>, \<open>None\<close> for -1.\<close>

fun unreachableRules :: "nat option \<Rightarrow> step_id \<Rightarrow> (nat \<times> decision_table_rule) list \<Rightarrow> diagnostic list" where
  "unreachableRules first i [] = []"
| "unreachableRules first i ((k, rule) # rest) =
     (case first of
        Some j \<Rightarrow>
          (if k > j then [(diag DECISION_TABLE_UNREACHABLE_RULE Warning)\<lparr>nodeId := Some i,
              fieldName := Some ''decisionTable.rules'', ruleIndex := Some k\<rparr>] else [])
          @ unreachableRules first i rest
      | None \<Rightarrow> unreachableRules (if rule_when rule = [] then Some k else None) i rest)"

definition forbiddenFields :: "string list" where
  "forbiddenFields =
     [''conditionalNextSteps'', ''transformations'', ''parallelNextSteps'', ''joinStep'', ''jobType'',
      ''delegateClass'', ''retryCount'', ''boundaryEvents'']"

definition checkDecisionTableShape :: "step_common \<Rightarrow> string option \<Rightarrow> step_id \<Rightarrow> decision_table \<Rightarrow> diagnostic list" where
  "checkDecisionTableShape c hp next tbl =
     report_if (length (tbl_rules tbl) = 0) DECISION_TABLE_HAS_RULES Error (c_id c) ''decisionTable.rules''
     @ report_if (blank next) DECISION_TABLE_HAS_NEXT Error (c_id c) ''nextStep''
     @ report_if (case hp of None \<Rightarrow> False | Some p \<Rightarrow> p \<notin> set HIT_POLICIES)
         DECISION_TABLE_HIT_POLICY_UNKNOWN Error (c_id c) ''hitPolicy''
     @ report_if (case hp of None \<Rightarrow> False | Some p \<Rightarrow> length p > 1 \<and> p ! 0 \<noteq> CHR ''C'' \<and>
            p ! 1 \<in> {CHR ''+'', CHR ''#'', CHR ''>'', CHR ''<''})
         DECISION_TABLE_AGGREGATOR_ON_NON_C Error (c_id c) ''hitPolicy''
     @ concat (map (\<lambda>(k, rule). map (\<lambda>e. e\<lparr>ruleIndex := Some k\<rparr>)
          (report_if (map_has (rule_extra rule) ''then'') DECISION_TABLE_LEGACY_THEN Error (c_id c)
             ''decisionTable.rules'')) (indexed (tbl_rules tbl)))
     @ report_if (map_has (tbl_extra tbl) ''defaultNextStep'') DECISION_TABLE_LEGACY_DEFAULT_NEXT_STEP
         Error (c_id c) ''decisionTable.defaultNextStep''
     @ concat (map (\<lambda>f. report_if (map_has (c_extra c) f) STEP_FIELD_INVALID Error (c_id c) f)
          forbiddenFields)
     @ unreachableRules None (c_id c) (indexed (tbl_rules tbl))"

fun checkStepVariantShape :: "step \<Rightarrow> diagnostic list" where
  "checkStepVariantShape (Decision c branches) =
     report_if (length (map_keys branches) = 0) DECISION_HAS_BRANCHES Error (c_id c)
       ''conditionalNextSteps''"
| "checkStepVariantShape (DecisionTable c hp next tbl) = checkDecisionTableShape c hp next tbl"
| "checkStepVariantShape (Transformation c next ts) =
     report_if (blank next) TRANSFORMATION_HAS_NEXT Error (c_id c) ''nextStep''
     @ report_if (length (map_keys ts) = 0) TRANSFORMATION_HAS_ENTRIES Error (c_id c) ''transformations''"
| "checkStepVariantShape (Wait c next _) =
     report_if (blank next) WAIT_HAS_NEXT Error (c_id c) ''nextStep''"
| "checkStepVariantShape (ParallelGateway c targets join) =
     report_if (length targets < 2) PARALLEL_MIN_BRANCHES Error (c_id c) ''parallelNextSteps''
     @ report_if (blank join) PARALLEL_HAS_JOIN Error (c_id c) ''joinStep''"
| "checkStepVariantShape (JoinGateway c next) =
     report_if (blank next) JOIN_HAS_NEXT Error (c_id c) ''nextStep''"
| "checkStepVariantShape (ServiceTask _ _ _ _ _ _) = []"
| "checkStepVariantShape (UserTask _ _ _ _) = []"
| "checkStepVariantShape (End _) = []"

type_synonym step_index = "(step_id, step) omap"

definition missing :: "step_id \<Rightarrow> string \<Rightarrow> string option \<Rightarrow> diagnostic" where
  "missing i f key =
     (diag REF_RESOLVES Error)\<lparr>nodeId := Some i, fieldName := Some f, branchKey := key\<rparr>"

definition checkOptRef :: "step_index \<Rightarrow> step_id \<Rightarrow> string \<Rightarrow> step_id option \<Rightarrow> diagnostic list" where
  "checkOptRef index i f next =
     (if truthy next \<and> \<not> map_has index (the next) then [missing i f None] else [])"

fun checkRefsResolve :: "step_index \<Rightarrow> step \<Rightarrow> diagnostic list" where
  "checkRefsResolve index (ServiceTask c next _ _ _ _) = checkOptRef index (c_id c) ''nextStep'' next"
| "checkRefsResolve index (UserTask c next _ _) = checkOptRef index (c_id c) ''nextStep'' next"
| "checkRefsResolve index (Wait c next _) = checkOptRef index (c_id c) ''nextStep'' (Some next)"
| "checkRefsResolve index (Transformation c next _) = checkOptRef index (c_id c) ''nextStep'' (Some next)"
| "checkRefsResolve index (JoinGateway c next) = checkOptRef index (c_id c) ''nextStep'' (Some next)"
| "checkRefsResolve index (Decision c branches) =
     concat (map (\<lambda>(expr, target).
        if \<not> map_has index target then [missing (c_id c) ''conditionalNextSteps'' (Some expr)] else [])
      branches)"
| "checkRefsResolve index (DecisionTable c _ next _) = checkOptRef index (c_id c) ''nextStep'' (Some next)"
| "checkRefsResolve index (ParallelGateway c targets join) =
     concat (map (\<lambda>target.
        if \<not> map_has index target then [missing (c_id c) ''parallelNextSteps'' None] else []) targets)
     @ checkOptRef index (c_id c) ''joinStep'' (Some join)"
| "checkRefsResolve index (End _) = []"

definition supports_boundary :: "step \<Rightarrow> bool" where
  "supports_boundary s \<longleftrightarrow> type_of s \<in> {SERVICE_TASK, USER_TASK, WAIT}"

definition boundary_diag :: "diagnostic_code \<Rightarrow> step_id \<Rightarrow> nat \<Rightarrow> diagnostic" where
  "boundary_diag c i k =
     (diag c Error)\<lparr>nodeId := Some i, fieldName := Some ''boundaryEvents'', boundaryIndex := Some k\<rparr>"

definition checkBoundaryEvent :: "step_index \<Rightarrow> step_id \<Rightarrow> nat \<Rightarrow> boundary_event \<Rightarrow> diagnostic list" where
  "checkBoundaryEvent index i k evt =
     (if evt_type evt \<noteq> ''TIMER'' then [boundary_diag BOUNDARY_TYPE i k] else [])
     @ (if evt_duration evt = '''' \<or> \<not> ISO_DURATION_PATTERN (evt_duration evt)
        then [boundary_diag BOUNDARY_DURATION i k] else [])
     @ (if evt_targetStepId evt = '''' \<or> \<not> map_has index (evt_targetStepId evt)
        then [boundary_diag BOUNDARY_TARGET_RESOLVES i k] else [])"

definition checkBoundaryEvents :: "step_index \<Rightarrow> step \<Rightarrow> diagnostic list" where
  "checkBoundaryEvents index s =
     (if \<not> supports_boundary s
      then (case map_get (step_extra s) ''boundaryEvents'' of
              Some v \<Rightarrow> report_if (is_JArr v) BOUNDARY_PARENT_SUPPORTS Error (step_id s) ''boundaryEvents''
            | None \<Rightarrow> [])
      else (case boundaryEvents s of
              None \<Rightarrow> []
            | Some events \<Rightarrow>
                concat (map (\<lambda>(k, evt). checkBoundaryEvent index (step_id s) k evt) (indexed events))))"

text \<open>The \<^verbatim>\<open>Set\<close> of \<^verbatim>\<open>collectKnownVariables\<close>: its order is never observed.\<close>

definition collectKnownVariables :: "workflow_definition \<Rightarrow> string list" where
  "collectKnownVariables d =
     remdups (concat (map (\<lambda>s. case s of Transformation _ _ ts \<Rightarrow> map_keys ts | _ \<Rightarrow> []) (steps d)))"

fun remapCellCode :: "diagnostic_code \<Rightarrow> diagnostic_code" where
  "remapCellCode DECISION_EXPR_SYNTAX = DT_CELL_EXPR_SYNTAX"
| "remapCellCode DECISION_EXPR_NON_BOOLEAN = DT_CELL_EXPR_NON_BOOLEAN"
| "remapCellCode DECISION_EXPR_UNKNOWN_IDENT = DT_CELL_EXPR_UNKNOWN_IDENT"
| "remapCellCode c = c"

definition checkRuleExpressions ::
  "string list \<Rightarrow> step_id \<Rightarrow> nat \<Rightarrow> decision_table_rule \<Rightarrow> diagnostic list" where
  "checkRuleExpressions knownVars i k rule =
     concat (map (\<lambda>(column, expr).
        if blank expr then []
        else map (\<lambda>e. e\<lparr>code := remapCellCode (code e), ruleIndex := Some k, cellColumn := Some column\<rparr>)
               (lintDecisionExpression expr knownVars
                  \<lparr>ctx_nodeId = Some i, ctx_field = Some ''decisionTable.rules'', ctx_branchKey = None\<rparr>))
       (rule_when rule))
     @ (case rule_outputs rule of
          None \<Rightarrow> []
        | Some outputs \<Rightarrow>
            concat (map (\<lambda>(key, v). case v of
                JStr text \<Rightarrow>
                  map (\<lambda>e. e\<lparr>code := (if code e = TRANSFORMATION_EXPR_SYNTAX then DT_OUTPUT_EXPR_SYNTAX
                                      else code e), ruleIndex := Some k\<rparr>)
                    (lintTransformationExpression text
                       \<lparr>ctx_nodeId = Some i, ctx_field = Some ''decisionTable.rules'', ctx_branchKey = Some key\<rparr>)
              | _ \<Rightarrow> []) outputs))"

fun checkExpressions :: "workflow_definition \<Rightarrow> step \<Rightarrow> diagnostic list" where
  "checkExpressions d (Decision c branches) =
     concat (map (\<lambda>expr. lintDecisionExpression expr (collectKnownVariables d)
        \<lparr>ctx_nodeId = Some (c_id c), ctx_field = Some ''conditionalNextSteps'', ctx_branchKey = Some expr\<rparr>)
      (map_keys branches))"
| "checkExpressions d (Transformation c _ ts) =
     concat (map (\<lambda>(key, v). case v of
         JStr text \<Rightarrow> lintTransformationExpression text
           \<lparr>ctx_nodeId = Some (c_id c), ctx_field = Some ''transformations'', ctx_branchKey = Some key\<rparr>
       | _ \<Rightarrow> []) ts)"
| "checkExpressions d (DecisionTable c _ _ tbl) =
     concat (map (\<lambda>(k, rule). checkRuleExpressions (collectKnownVariables d) (c_id c) k rule)
      (indexed (tbl_rules tbl)))"
| "checkExpressions d _ = []"

section \<open>Checks of the graph\<close>

definition checkParallelJoinTarget :: "workflow_definition \<Rightarrow> step_index \<Rightarrow> diagnostic list" where
  "checkParallelJoinTarget d index =
     concat (map (\<lambda>s. case s of
         ParallelGateway c _ join \<Rightarrow>
           (case map_get index join of
              None \<Rightarrow> []
            | Some j \<Rightarrow> report_if (type_of j \<noteq> JOIN_GATEWAY) PARALLEL_HAS_JOIN Error (c_id c) ''joinStep'')
       | _ \<Rightarrow> []) (steps d))"

fun outgoingTargets :: "step \<Rightarrow> step_id list" where
  "outgoingTargets (ServiceTask _ next _ _ _ _) = (if truthy next then [the next] else [])"
| "outgoingTargets (UserTask _ next _ _) = (if truthy next then [the next] else [])"
| "outgoingTargets (Wait _ next _) = [next]"
| "outgoingTargets (Transformation _ next _) = [next]"
| "outgoingTargets (JoinGateway _ next) = [next]"
| "outgoingTargets (Decision _ branches) = map snd branches"
| "outgoingTargets (DecisionTable _ _ next _) = (if next \<noteq> '''' then [next] else [])"
| "outgoingTargets (ParallelGateway _ targets _) = targets"
| "outgoingTargets (End _) = []"

definition allOutgoing :: "step \<Rightarrow> step_id list" where
  "allOutgoing s =
     outgoingTargets s
     @ (if supports_boundary s
        then (case boundaryEvents s of None \<Rightarrow> [] | Some events \<Rightarrow> map evt_targetStepId events)
        else [])"

text \<open>The stack of a walk is a list with its top first: pushing the targets in order leaves the
  last one on top. \<open>visited\<close> is the \<^verbatim>\<open>Set\<close> in insertion order.\<close>

definition push_all :: "'a list \<Rightarrow> 'a list \<Rightarrow> 'a list \<Rightarrow> 'a list" where
  "push_all targets visited stack = rev (filter (\<lambda>t. t \<notin> set visited) targets) @ stack"

lemma walk_measure:
  "id' \<notin> set visited \<Longrightarrow> map_get index id' = Some s \<Longrightarrow>
   card (set (map_keys index) - set (visited @ [id'])) < card (set (map_keys index) - set visited)"
proof -
  assume a: "id' \<notin> set visited" "map_get index id' = Some s"
  then have k: "id' \<in> set (map_keys index)" by (simp add: map_keys_get)
  have "set (map_keys index) - set (visited @ [id']) \<subset> set (map_keys index) - set visited"
    using a(1) k by auto
  then show ?thesis by (intro psubset_card_mono) simp_all
qed

function reachLoop :: "step_index \<Rightarrow> step_id list \<Rightarrow> step_id list \<Rightarrow> step_id list" where
  "reachLoop index visited [] = visited"
| "reachLoop index visited (id' # stack) =
     (if id' = '''' \<or> id' \<in> set visited then reachLoop index visited stack
      else (case map_get index id' of
              None \<Rightarrow> reachLoop index (visited @ [id']) stack
            | Some s \<Rightarrow>
                reachLoop index (visited @ [id']) (push_all (allOutgoing s) (visited @ [id']) stack)))"
  by pat_completeness auto
termination
proof (relation "measures [\<lambda>(index, visited, _). card (set (map_keys index) - set visited),
     \<lambda>(_, _, stack). length stack]", goal_cases)
  case (3 index visited id' stack)
  then have "set (map_keys index) - set (visited @ [id']) = set (map_keys index) - set visited"
    by (auto simp: map_keys_get)
  then show ?case by simp
next
  case (4 index visited id' stack s)
  then show ?case using walk_measure [of id' visited index s] by simp
qed simp_all

definition checkReachability :: "workflow_definition \<Rightarrow> step_index \<Rightarrow> diagnostic list" where
  "checkReachability d index =
     (case steps d of
        [] \<Rightarrow> []
      | entry # _ \<Rightarrow>
          (let visited = reachLoop index [] [step_id entry]
           in concat (map (\<lambda>s. if step_id s \<notin> set visited
                  then [(diag ALL_REACHABLE Error)\<lparr>nodeId := Some (step_id s)\<rparr>] else []) (steps d))
              @ (if list_ex (\<lambda>i. map_option type_of (map_get index i) = Some END) visited then []
                 else [diag END_REACHABLE Error])))"

text \<open>The walk of \<^verbatim>\<open>checkNestedParallel\<close> from one gateway with join step \<open>join\<close>: the visited set and
  the diagnostics pushed.\<close>

function nestedLoop ::
  "step_index \<Rightarrow> step_id \<Rightarrow> step_id list \<Rightarrow> diagnostic list \<Rightarrow> step_id list \<Rightarrow> step_id list \<times> diagnostic list"
  where
  "nestedLoop index join visited out [] = (visited, out)"
| "nestedLoop index join visited out (id' # stack) =
     (if id' = '''' \<or> id' \<in> set visited then nestedLoop index join visited out stack
      else if id' = join then nestedLoop index join visited out stack
      else (case map_get index id' of
              None \<Rightarrow> nestedLoop index join (visited @ [id']) out stack
            | Some s \<Rightarrow>
                nestedLoop index join (visited @ [id'])
                  (out @ (if type_of s = PARALLEL_GATEWAY
                          then [(diag NO_NESTED_PARALLEL Error)\<lparr>nodeId := Some (step_id s)\<rparr>] else []))
                  (push_all (outgoingTargets s) (visited @ [id']) stack)))"
  by pat_completeness simp_all
termination
proof (relation "measures [\<lambda>(index, _, visited, _, _). card (set (map_keys index) - set visited),
     \<lambda>(_, _, _, _, stack). length stack]", goal_cases)
  case (4 index join visited out id' stack)
  then have "set (map_keys index) - set (visited @ [id']) = set (map_keys index) - set visited"
    by (auto simp: map_keys_get)
  then show ?case by simp
next
  case (5 index join visited out id' stack s)
  then show ?case using walk_measure [of id' visited index s] by simp
qed simp_all

definition checkNestedParallel :: "workflow_definition \<Rightarrow> step_index \<Rightarrow> diagnostic list" where
  "checkNestedParallel d index =
     concat (map (\<lambda>s. case s of
         ParallelGateway _ targets join \<Rightarrow> snd (nestedLoop index join [] [] (rev targets))
       | _ \<Rightarrow> []) (steps d))"

datatype color = White | Gray | Black

text \<open>
  The recursive \<^verbatim>\<open>dfs\<close> of \<^verbatim>\<open>checkGraphCycle\<close> on the state \<^verbatim>\<open>(color, onCycle)\<close>, with fuel for the
  recursion depth. \<open>dfsTargets\<close> is its loop; the flag says that the loop returned from \<^verbatim>\<open>dfs\<close> on a
  gray target, before the node is painted black.
\<close>

type_synonym dfs_state = "(step_id, color) omap \<times> step_id list"

fun dfs :: "nat \<Rightarrow> step_index \<Rightarrow> step_id \<Rightarrow> dfs_state \<Rightarrow> dfs_state option"
and dfsTargets :: "nat \<Rightarrow> step_index \<Rightarrow> step_id list \<Rightarrow> dfs_state \<Rightarrow> (bool \<times> dfs_state) option" where
  "dfs 0 index id' st = None"
| "dfs (Suc n) index id' (color, onCycle) =
     (if onCycle \<noteq> [] then Some (color, onCycle)
      else
        (case (case map_get index id' of
                 None \<Rightarrow> Some (False, map_set id' Gray color, onCycle)
               | Some s \<Rightarrow> dfsTargets n index (allOutgoing s) (map_set id' Gray color, onCycle)) of
           None \<Rightarrow> None
         | Some (returned, color', onCycle') \<Rightarrow>
             Some (if returned then color' else map_set id' Black color', onCycle')))"
| "dfsTargets n index [] st = Some (False, st)"
| "dfsTargets n index (target # rest) (color, onCycle) =
     (case map_get color target of
        Some Gray \<Rightarrow> Some (True, color, onCycle @ [target])
      | Some White \<Rightarrow>
          (case dfs n index target (color, onCycle) of
             None \<Rightarrow> None
           | Some st \<Rightarrow> dfsTargets n index rest st)
      | _ \<Rightarrow> dfsTargets n index rest (color, onCycle))"

text \<open>The loop over the steps that starts a search from every white one.\<close>

fun dfsRoots :: "nat \<Rightarrow> step_index \<Rightarrow> step list \<Rightarrow> dfs_state \<Rightarrow> dfs_state option" where
  "dfsRoots n index [] st = Some st"
| "dfsRoots n index (s # rest) st =
     (case (if map_get (fst st) (step_id s) = Some White then dfs n index (step_id s) st else Some st) of
        None \<Rightarrow> None
      | Some st' \<Rightarrow> if snd st' \<noteq> [] then Some st' else dfsRoots n index rest st')"

definition findCycle :: "workflow_definition \<Rightarrow> step_index \<Rightarrow> step_id list option" where
  "findCycle d index =
     map_option snd (dfsRoots (Suc (length (steps d))) index (steps d)
       (fold (\<lambda>s m. map_set (step_id s) White m) (steps d) [], []))"

definition checkGraphCycle :: "workflow_definition \<Rightarrow> step_index \<Rightarrow> diagnostic list" where
  "checkGraphCycle d index =
     (case findCycle d index of
        Some (node # _) \<Rightarrow> [(diag GRAPH_CYCLE Warning)\<lparr>nodeId := Some node\<rparr>]
      | _ \<Rightarrow> [])"

definition checkUnknownFields :: "workflow_definition \<Rightarrow> diagnostic list" where
  "checkUnknownFields d =
     (if filter (\<lambda>k. k \<notin> set KNOWN_ROOT_KEYS) (root_keys d) \<noteq> []
      then [diag UNKNOWN_FIELDS_PRESENT Warning] else [])
     @ concat (map (\<lambda>s.
         if filter (\<lambda>k. k \<notin> set (KNOWN_STEP_KEYS (type_of s))) (step_keys s) \<noteq> []
         then [(diag UNKNOWN_FIELDS_PRESENT Warning)\<lparr>nodeId := Some (step_id s)\<rparr>] else []) (steps d))"

section \<open>The validator\<close>

definition validate :: "workflow_definition \<Rightarrow> diagnostic list" where
  "validate d =
     (let stepIndex = indexSteps d
      in checkIdFormat d @ checkNameRequired d @ checkStepsNonEmpty d @ checkStepIdsUnique d
         @ checkStepIdsPresent d @ checkStepTypesValid d @ checkNextWorkflowConsistency d
         @ concat (map (\<lambda>s. checkStepVariantShape s @ checkRefsResolve stepIndex s
             @ checkBoundaryEvents stepIndex s @ checkExpressions d s) (steps d))
         @ checkParallelJoinTarget d stepIndex @ checkReachability d stepIndex
         @ checkNestedParallel d stepIndex @ checkGraphCycle d stepIndex @ checkUnknownFields d)"

end
