(* ===== verification/Graph_Walks.thy ===== *)
theory Graph_Walks
  imports Validate
begin

text \<open>
  Correctness of the three graph searches of \<^verbatim>\<open>validate.ts\<close>: the two stack walks visit exactly the
  reachable ids, and the coloured depth-first search finds a node on a cycle if and only if there is
  one. The contract of a stack walk is the locale \<open>stack_walk\<close>, interpreted for \<open>reachLoop\<close> and for
  \<open>nestedLoop\<close>.
\<close>

section \<open>Stack walks\<close>

text \<open>
  A loop that pops a node, drops it when it is to be skipped or visited already, and otherwise
  marks it and pushes its unvisited successors. Both walks of the validator follow these laws;
  the set they visit is the set reachable through nodes that are not skipped.
\<close>

locale stack_walk =
  fixes loop :: "'a list \<Rightarrow> 'a list \<Rightarrow> 'a list"
    and succ :: "'a \<Rightarrow> 'a list"
    and skip :: "'a \<Rightarrow> bool"
  assumes loop_Nil: "loop visited [] = visited"
    and loop_skip: "skip i \<or> i \<in> set visited \<Longrightarrow> loop visited (i # stack) = loop visited stack"
    and loop_visit: "\<not> skip i \<Longrightarrow> i \<notin> set visited \<Longrightarrow>
      loop visited (i # stack) = loop (visited @ [i]) (push_all (succ i) (visited @ [i]) stack)"
    and finite_succ: "finite {i. succ i \<noteq> []}"
begin

definition edge :: "('a \<times> 'a) set" where
  "edge = {(i, t). t \<in> set (succ i) \<and> \<not> skip t}"

definition closed :: "'a list \<Rightarrow> 'a list \<Rightarrow> bool" where
  "closed visited stack \<longleftrightarrow> (\<forall>i \<in> set visited. edge `` {i} \<subseteq> set visited \<union> set stack)"

lemma walk_wf: "wf (measures [\<lambda>(visited, _). card ({i. succ i \<noteq> []} - set visited), \<lambda>(_, stack). length stack])"
  by simp

lemma walk_induct [consumes 0, case_names Nil Skip Visit]:
  assumes nil: "\<And>visited. P visited []"
    and skp: "\<And>visited i stack. skip i \<or> i \<in> set visited \<Longrightarrow> P visited stack \<Longrightarrow> P visited (i # stack)"
    and vis: "\<And>visited i stack. \<not> skip i \<Longrightarrow> i \<notin> set visited \<Longrightarrow>
      P (visited @ [i]) (push_all (succ i) (visited @ [i]) stack) \<Longrightarrow> P visited (i # stack)"
  shows "P visited stack"
proof -
  let ?E = "{i. succ i \<noteq> []}"
  have "case x of (v, s) \<Rightarrow> P v s" for x
  proof (induction x rule: wf_induct_rule [OF walk_wf])
    case (1 x)
    obtain v s where x: "x = (v, s)" by (cases x)
    have "P v s"
    proof (cases s)
      case (Cons i st)
      show ?thesis
      proof (cases "skip i \<or> i \<in> set v")
        case True
        then have "P v st" using 1 [of "(v, st)"] x Cons by simp
        with True Cons skp show ?thesis by blast
      next
        case False
        have "((v @ [i], push_all (succ i) (v @ [i]) st), x) \<in>
            measures [\<lambda>(visited, _). card (?E - set visited), \<lambda>(_, stack). length stack]"
        proof (cases "succ i = []")
          case True
          then have "?E - set (v @ [i]) = ?E - set v" by auto
          with True show ?thesis by (simp add: x Cons push_all_def)
        next
          case ne: False
          have "?E - set (v @ [i]) \<subset> ?E - set v" using False ne by auto
          then have "card (?E - set (v @ [i])) < card (?E - set v)"
            using finite_succ by (intro psubset_card_mono) simp_all
          then show ?thesis by (simp add: x)
        qed
        from 1 [OF this] have "P (v @ [i]) (push_all (succ i) (v @ [i]) st)" by simp
        with False Cons vis show ?thesis by blast
      qed
    qed (simp add: nil)
    then show ?case by (simp add: x)
  qed
  from this [of "(visited, stack)"] show ?thesis by simp
qed

lemma closed_push:
  "closed visited (i # stack) \<Longrightarrow> closed (visited @ [i]) (push_all (succ i) (visited @ [i]) stack)"
  by (auto simp: closed_def push_all_def edge_def)

lemma closed_reach:
  assumes "closed visited stack" "i \<in> set visited" "(i, x) \<in> edge\<^sup>*"
  shows "x \<in> set visited \<union> edge\<^sup>* `` {j \<in> set stack. \<not> skip j}"
  using assms(3)
proof (induction rule: rtrancl_induct)
  case (step y z)
  then have z: "\<not> skip z" by (simp add: edge_def)
  from step(3) consider "y \<in> set visited" | "y \<in> edge\<^sup>* `` {j \<in> set stack. \<not> skip j}" by blast
  then show ?case
  proof cases
    case 1
    then have "z \<in> set visited \<or> z \<in> set stack"
      using assms(1) step(2) by (auto simp: closed_def)
    with z show ?thesis by auto
  next
    case 2
    with step(2) show ?thesis by (auto intro: rtrancl_into_rtrancl)
  qed
qed (use assms in simp)

lemma start_Cons:
  "edge\<^sup>* `` {j \<in> set (i # stack). \<not> skip j} =
   (if skip i then {} else edge\<^sup>* `` {i}) \<union> edge\<^sup>* `` {j \<in> set stack. \<not> skip j}"
  by auto

lemma loop_range:
  "closed visited stack \<Longrightarrow>
   set (loop visited stack) = set visited \<union> edge\<^sup>* `` {i \<in> set stack. \<not> skip i}"
proof (induction visited stack rule: walk_induct)
  case (Nil visited)
  then show ?case by (simp add: loop_Nil)
next
  case (Skip visited i stack)
  have cl: "closed visited stack"
    using Skip by (auto simp: closed_def edge_def)
  have "edge\<^sup>* `` {i} \<subseteq> set visited \<union> edge\<^sup>* `` {j \<in> set stack. \<not> skip j}" if "\<not> skip i"
    using closed_reach [OF cl, of i] Skip(1) that by blast
  then show ?case
    unfolding start_Cons using Skip(2) [OF cl] loop_skip [OF Skip(1), of stack] by auto
next
  case (Visit visited i stack)
  let ?v = "visited @ [i]" and ?st = "push_all (succ i) (visited @ [i]) stack"
  have cl: "closed ?v ?st" using Visit(4) by (rule closed_push)
  have eq: "set (loop visited (i # stack)) = set ?v \<union> edge\<^sup>* `` {j \<in> set ?st. \<not> skip j}"
    using Visit(3) [OF cl] loop_visit [OF Visit(1,2)] by simp
  have "edge\<^sup>* `` {i} \<subseteq> set ?v \<union> edge\<^sup>* `` {j \<in> set ?st. \<not> skip j}"
    using closed_reach [OF cl, of i] by auto
  moreover have "edge\<^sup>* `` {j \<in> set stack. \<not> skip j} \<subseteq> edge\<^sup>* `` {j \<in> set ?st. \<not> skip j}"
    by (auto simp: push_all_def)
  moreover have "edge\<^sup>* `` {j \<in> set ?st. \<not> skip j} \<subseteq> edge\<^sup>* `` {i} \<union> edge\<^sup>* `` {j \<in> set stack. \<not> skip j}"
    by (auto simp: push_all_def edge_def intro: converse_rtrancl_into_rtrancl)
  ultimately show ?case
    unfolding start_Cons eq using Visit(1) by auto
qed

lemma loop_from: "set (loop [] stack) = edge\<^sup>* `` {i \<in> set stack. \<not> skip i}"
  by (subst loop_range) (simp_all add: closed_def)

lemma distinct_loop: "distinct visited \<Longrightarrow> distinct (loop visited stack)"
  by (induction visited stack rule: walk_induct) (simp_all add: loop_Nil loop_skip loop_visit)

end

section \<open>The two walks\<close>

text \<open>Successors in the index: none for an id that names no step.\<close>

definition succ_by :: "(step \<Rightarrow> step_id list) \<Rightarrow> step_index \<Rightarrow> step_id \<Rightarrow> step_id list" where
  "succ_by out index i = (case map_get index i of None \<Rightarrow> [] | Some s \<Rightarrow> out s)"

lemma succ_by_simps [simp]:
  "map_get index i = None \<Longrightarrow> succ_by out index i = []"
  "map_get index i = Some s \<Longrightarrow> succ_by out index i = out s"
  by (simp_all add: succ_by_def)

lemma finite_succ_by: "finite {i. succ_by out index i \<noteq> []}"
proof (rule finite_subset)
  show "{i. succ_by out index i \<noteq> []} \<subseteq> set (map_keys index)"
    by (auto simp: map_keys_get intro: succ_by_simps(1))
qed simp

lemma push_all_Nil [simp]: "push_all [] visited stack = stack"
  by (simp add: push_all_def)

interpretation reach: stack_walk "reachLoop index" "succ_by allOutgoing index" "\<lambda>i. i = ''''" for index
proof
  fix i :: step_id and visited stack
  assume "i \<noteq> ''''" "i \<notin> set visited"
  then show "reachLoop index visited (i # stack) = reachLoop index (visited @ [i])
      (push_all (succ_by allOutgoing index i) (visited @ [i]) stack)"
    by (cases "map_get index i") simp_all
qed (auto simp: finite_succ_by)

text \<open>What the nested walk pushes for one visited id.\<close>

definition nested_diag :: "step_index \<Rightarrow> step_id \<Rightarrow> diagnostic list" where
  "nested_diag index i =
     (if map_option type_of (map_get index i) = Some PARALLEL_GATEWAY
      then [(diag NO_NESTED_PARALLEL Error)\<lparr>nodeId := Some i\<rparr>] else [])"

text \<open>An index holds every step under its own id.\<close>

definition indexed_by_id :: "step_index \<Rightarrow> bool" where
  "indexed_by_id index \<longleftrightarrow> (\<forall>i s. map_get index i = Some s \<longrightarrow> step_id s = i)"

lemma nested_step:
  assumes "indexed_by_id index" "i \<noteq> ''''" "i \<notin> set visited" "i \<noteq> join"
  shows "nestedLoop index join visited out (i # stack) =
    nestedLoop index join (visited @ [i]) (out @ nested_diag index i)
      (push_all (succ_by outgoingTargets index i) (visited @ [i]) stack)"
proof (cases "map_get index i")
  case (Some s)
  with assms(1) have "step_id s = i" by (simp add: indexed_by_id_def)
  with Some assms show ?thesis by (simp add: nested_diag_def)
qed (use assms in \<open>simp add: nested_diag_def\<close>)

lemma nested_out:
  "nestedLoop index join visited (a @ b) stack = map_prod id (append a) (nestedLoop index join visited b stack)"
proof (induction index join visited b stack rule: nestedLoop.induct)
  case (2 index join visited b i stack)
  then show ?case by (cases "map_get index i") simp_all
qed simp

lemma nested_fst: "fst (nestedLoop index join visited out stack) = fst (nestedLoop index join visited [] stack)"
  using nested_out [of index join visited out "[]" stack] by simp

interpretation nested: stack_walk "\<lambda>visited stack. fst (nestedLoop index join visited [] stack)"
  "succ_by outgoingTargets index" "\<lambda>i. i = '''' \<or> i = join" for index join
proof
  fix i :: step_id and visited stack
  assume "\<not> (i = '''' \<or> i = join)" "i \<notin> set visited"
  then show "fst (nestedLoop index join visited [] (i # stack)) =
      fst (nestedLoop index join (visited @ [i]) [] (push_all (succ_by outgoingTargets index i) (visited @ [i]) stack))"
    by (cases "map_get index i") (simp_all add: nested_fst [of _ _ _ "[_]"])
qed (auto simp: finite_succ_by)

lemma nested_snd:
  assumes "indexed_by_id index"
  shows "\<exists>new. fst (nestedLoop index join visited [] stack) = visited @ new \<and>
    snd (nestedLoop index join visited [] stack) = concat (map (nested_diag index) new)"
proof (induction visited stack rule: nested.walk_induct [where index = index and join = join])
  case (Visit visited i stack)
  let ?st = "push_all (succ_by outgoingTargets index i) (visited @ [i]) stack"
  from Visit(3) obtain new where new:
      "fst (nestedLoop index join (visited @ [i]) [] ?st) = (visited @ [i]) @ new"
      "snd (nestedLoop index join (visited @ [i]) [] ?st) = concat (map (nested_diag index) new)"
    by blast
  have "nestedLoop index join visited [] (i # stack) =
      map_prod id (append (nested_diag index i)) (nestedLoop index join (visited @ [i]) [] ?st)"
    using Visit(1,2) nested_step [OF assms, of i visited join "[]" stack]
      nested_out [of index join "visited @ [i]" "nested_diag index i" "[]" ?st] by simp
  then show ?case using new by (intro exI [of _ "i # new"]) simp
qed auto

section \<open>The coloured search\<close>

text \<open>The edges the search follows: targets that are no step id have no colour and are passed over.\<close>

definition flow_edge :: "step_index \<Rightarrow> step_id set \<Rightarrow> (step_id \<times> step_id) set" where
  "flow_edge index ids = {(i, t). \<exists>s. map_get index i = Some s \<and> t \<in> set (allOutgoing s) \<and> t \<in> ids}"

definition painted :: "(step_id, color) omap \<Rightarrow> color \<Rightarrow> step_id set" where
  "painted m c = {i. map_get m i = Some c}"

lemma painted_set:
  "painted (map_set i c m) c' = (if c = c' then insert i (painted m c') else painted m c' - {i})"
  by (auto simp: painted_def)

lemma painted_disjoint: "c \<noteq> c' \<Longrightarrow> painted m c \<inter> painted m c' = {}"
  by (auto simp: painted_def)

lemma finite_painted: "finite (painted m c)"
  by (rule finite_subset [of _ "set (map_keys m)"]) (auto simp: painted_def map_keys_get)

definition colored :: "(step_id, color) omap \<Rightarrow> step_id set" where
  "colored m = painted m White \<union> painted m Gray \<union> painted m Black"

lemma colored_iff: "i \<in> colored m \<longleftrightarrow> map_get m i \<noteq> None"
proof (cases "map_get m i")
  case (Some c)
  then show ?thesis by (cases c) (auto simp: colored_def painted_def)
qed (simp add: colored_def painted_def)

lemma colored_set: "colored (map_set i c m) = insert i (colored m)"
  by (auto simp: colored_iff split: if_splits)

text \<open>What holds of a search that has found no cycle: black nodes lead to black nodes only, and lie
  on no cycle.\<close>

definition settled :: "(step_id \<times> step_id) set \<Rightarrow> step_id set \<Rightarrow> bool" where
  "settled E B \<longleftrightarrow> E `` B \<subseteq> B \<and> (\<forall>b \<in> B. (b, b) \<notin> E\<^sup>+)"

lemma settled_trancl: "(b, x) \<in> E\<^sup>* \<Longrightarrow> settled E B \<Longrightarrow> b \<in> B \<Longrightarrow> x \<in> B"
  by (induction rule: rtrancl_induct) (auto simp: settled_def)

lemma settled_insert:
  assumes "settled E B" "E `` {i} \<subseteq> B" "i \<notin> B"
  shows "settled E (insert i B)"
proof -
  have "(i, i) \<notin> E\<^sup>+"
  proof
    assume "(i, i) \<in> E\<^sup>+"
    then obtain t where "(i, t) \<in> E" "(t, i) \<in> E\<^sup>*" by (meson tranclD)
    with assms have "i \<in> B" using settled_trancl by blast
    with assms(3) show False by blast
  qed
  with assms show ?thesis by (auto simp: settled_def)
qed

text \<open>The outcome of a search step that started without a cycle: it keeps the gray nodes and grows
  the settled black ones, or it has found a node on a cycle.\<close>

definition progress :: "(step_id \<times> step_id) set \<Rightarrow> dfs_state \<Rightarrow> dfs_state \<Rightarrow> bool" where
  "progress E st st' \<longleftrightarrow> colored (fst st') = colored (fst st) \<and>
     painted (fst st') White \<subseteq> painted (fst st) White \<and>
     (if snd st' = [] then painted (fst st') Gray = painted (fst st) Gray \<and>
        painted (fst st) Black \<subseteq> painted (fst st') Black \<and> settled E (painted (fst st') Black)
      else (hd (snd st'), hd (snd st')) \<in> E\<^sup>+)"

lemma progress_refl: "snd st = [] \<Longrightarrow> settled E (painted (fst st) Black) \<Longrightarrow> progress E st st"
  by (simp add: progress_def)

lemma progress_trans:
  "progress E st st' \<Longrightarrow> snd st' = [] \<Longrightarrow> progress E st' st'' \<Longrightarrow> progress E st st''"
  by (auto simp: progress_def split: if_splits)

text \<open>Before a search step: no cycle found yet, black nodes settled, fuel for the white ones.\<close>

definition searching :: "step_index \<Rightarrow> step_id set \<Rightarrow> nat \<Rightarrow> dfs_state \<Rightarrow> bool" where
  "searching index ids n st \<longleftrightarrow> colored (fst st) = ids \<and> card (painted (fst st) White) \<le> n \<and>
     snd st = [] \<and> settled (flow_edge index ids) (painted (fst st) Black)"

lemma searching_progress:
  "searching index ids n st \<Longrightarrow> progress (flow_edge index ids) st st' \<Longrightarrow> snd st' = [] \<Longrightarrow>
   searching index ids n st'"
  by (auto simp: searching_def progress_def dest!: card_mono [OF finite_painted])

text \<open>Once a cycle is found the remaining iterations change neither the colours nor the first node.\<close>

lemma dfs_after:
  "snd st \<noteq> [] \<Longrightarrow> card (painted (fst st) White) \<le> n \<Longrightarrow>
   \<exists>ret onCycle. dfsTargets n index ts st = Some (ret, fst st, onCycle) \<and> onCycle \<noteq> [] \<and>
     hd onCycle = hd (snd st)"
proof (induction ts)
  case (Cons t ts)
  obtain color onCycle where st: "st = (color, onCycle)" by (cases st)
  show ?case
  proof (cases "map_get color t = Some White")
    case True
    then have "painted color White \<noteq> {}" by (auto simp: painted_def)
    then have "n \<noteq> 0" using Cons.prems(2) st finite_painted [of color White] by auto
    then have "dfs n index t st = Some st" using Cons.prems(1) st by (cases n) auto
    with Cons st True show ?thesis by simp
  next
    case False
    with Cons st show ?thesis by (auto split: option.split color.split)
  qed
qed (cases st, auto)

definition dfs_ok :: "(step_id \<times> step_id) set \<Rightarrow> step_id \<Rightarrow> dfs_state \<Rightarrow> dfs_state option \<Rightarrow> bool" where
  "dfs_ok E i st res \<longleftrightarrow> (\<exists>st'. res = Some st' \<and> progress E st st' \<and>
     (snd st' = [] \<longrightarrow> i \<in> painted (fst st') Black))"

definition targets_ok :: "(step_id \<times> step_id) set \<Rightarrow> step_id set \<Rightarrow> dfs_state \<Rightarrow>
    (bool \<times> dfs_state) option \<Rightarrow> bool" where
  "targets_ok E ts st res \<longleftrightarrow> (\<exists>ret st'. res = Some (ret, st') \<and> progress E st st' \<and>
     (ret \<longrightarrow> snd st' \<noteq> []) \<and> (snd st' = [] \<longrightarrow> ts \<subseteq> painted (fst st') Black))"

lemma searching_gray:
  assumes "searching index ids (Suc n) (color, [])" "i \<in> painted color White"
  shows "searching index ids n (map_set i Gray color, [])"
proof -
  have "card (painted color White - {i}) \<le> n"
    using assms finite_painted [of color White]
    by (auto simp: searching_def card_Diff_singleton)
  moreover have "i \<notin> painted color Black" "i \<in> colored color"
    using assms(2) by (auto simp: painted_def colored_iff)
  ultimately show ?thesis
    using assms(1) by (simp add: searching_def painted_set colored_set insert_absorb)
qed

lemma progress_blacken:
  assumes "progress E (map_set i Gray color, []) (color', [])" "E `` {i} \<subseteq> painted color' Black"
    "i \<in> painted color White"
  shows "progress E (color, []) (map_set i Black color', [])"
proof -
  have i: "i \<notin> painted color Gray" "i \<notin> painted color Black" "i \<in> colored color"
    using assms(3) by (auto simp: painted_def colored_iff)
  from assms(1) have g: "painted color' Gray = insert i (painted color Gray)"
    and c: "colored color' = colored color" and w: "painted color' White \<subseteq> painted color White - {i}"
    and b: "painted color Black \<subseteq> painted color' Black" and s: "settled E (painted color' Black)"
    using i by (simp_all add: progress_def painted_set colored_set insert_absorb)
  have "i \<in> painted color' Gray" using g by simp
  then have "i \<notin> painted color' Black" by (simp add: painted_def)
  with s assms(2) have "settled E (insert i (painted color' Black))" by (rule settled_insert)
  with g c w b i show ?thesis
    by (auto simp: progress_def painted_set colored_set)
qed

lemma progress_cycle:
  assumes "progress E (map_set i Gray color, []) (color', onCycle)" "onCycle \<noteq> []"
    "i \<in> painted color White" "color'' \<in> {color', map_set i Black color'}"
  shows "progress E (color, []) (color'', onCycle)"
proof -
  have i: "i \<in> colored color" using assms(3) by (auto simp: painted_def colored_iff)
  have c: "colored color' = colored color" and w: "painted color' White \<subseteq> painted color White - {i}"
    using assms(1,3) i by (simp_all add: progress_def painted_set colored_set insert_absorb)
  show ?thesis
    using assms(1,2,4) c w i by (auto simp: progress_def painted_set colored_set)
qed

lemma dfs_step:
  assumes s: "searching index ids (Suc n) (color, [])" and i: "i \<in> painted color White"
    and t: "\<And>s. map_get index i = Some s \<Longrightarrow>
      targets_ok (flow_edge index ids) (set (allOutgoing s) \<inter> ids) (map_set i Gray color, [])
        (dfsTargets n index (allOutgoing s) (map_set i Gray color, []))"
  shows "dfs_ok (flow_edge index ids) i (color, []) (dfs (Suc n) index i (color, []))"
proof (cases "map_get index i")
  case None
  have "progress (flow_edge index ids) (map_set i Gray color, []) (map_set i Gray color, [])"
    using searching_gray [OF s i] by (intro progress_refl) (simp_all add: searching_def)
  then have "progress (flow_edge index ids) (color, []) (map_set i Black (map_set i Gray color), [])"
    using None i by (intro progress_blacken) (auto simp: flow_edge_def)
  with None show ?thesis by (simp add: dfs_ok_def painted_set)
next
  case (Some s)
  from t [OF this] obtain ret color' onCycle where r:
      "dfsTargets n index (allOutgoing s) (map_set i Gray color, []) = Some (ret, color', onCycle)"
      "progress (flow_edge index ids) (map_set i Gray color, []) (color', onCycle)"
      "ret \<longrightarrow> onCycle \<noteq> []" "onCycle = [] \<longrightarrow> set (allOutgoing s) \<inter> ids \<subseteq> painted color' Black"
    by (auto simp: targets_ok_def)
  show ?thesis
  proof (cases "onCycle = []")
    case True
    have "flow_edge index ids `` {i} \<subseteq> painted color' Black"
      using r(4) True Some by (auto simp: flow_edge_def)
    with r True have "progress (flow_edge index ids) (color, []) (map_set i Black color', [])"
      by (intro progress_blacken i) simp_all
    with r True Some show ?thesis by (simp add: dfs_ok_def painted_set)
  next
    case False
    then have "progress (flow_edge index ids) (color, []) (if ret then color' else map_set i Black color', onCycle)"
      by (intro progress_cycle [OF r(2) _ i]) auto
    with r False Some show ?thesis by (simp add: dfs_ok_def)
  qed
qed

lemma targets_rest:
  assumes "progress E st st'" "snd st' = []" "targets_ok E ts st' res" "t \<in> painted (fst st') Black \<or> t \<notin> ids"
  shows "targets_ok E (insert t ts \<inter> ids) st res"
proof -
  from assms(3) obtain ret st'' where r: "res = Some (ret, st'')" "progress E st' st''"
      "ret \<longrightarrow> snd st'' \<noteq> []" "snd st'' = [] \<longrightarrow> ts \<subseteq> painted (fst st'') Black"
    by (auto simp: targets_ok_def)
  have "snd st'' = [] \<Longrightarrow> painted (fst st') Black \<subseteq> painted (fst st'') Black"
    using r(2) by (simp add: progress_def)
  with r assms(4) progress_trans [OF assms(1,2) r(2)] show ?thesis
    by (auto simp: targets_ok_def)
qed

lemma targets_cycle:
  assumes "progress E st st'" "snd st' \<noteq> []" "card (painted (fst st') White) \<le> n"
  shows "targets_ok E T st (dfsTargets n index ts st')"
proof -
  from dfs_after [OF assms(2,3), of index ts] obtain ret onCycle where
      "dfsTargets n index ts st' = Some (ret, fst st', onCycle)" "onCycle \<noteq> []" "hd onCycle = hd (snd st')"
    by blast
  with assms(1,2) show ?thesis by (simp add: targets_ok_def progress_def)
qed

lemma progress_white:
  "searching index ids n st \<Longrightarrow> progress E st st' \<Longrightarrow> card (painted (fst st') White) \<le> n"
  by (auto simp: searching_def progress_def dest!: card_mono [OF finite_painted])

text \<open>A node the loop may be in: gray, and led to by every gray node.\<close>

definition current :: "(step_id \<times> step_id) set \<Rightarrow> step_id \<Rightarrow> dfs_state \<Rightarrow> bool" where
  "current E i st \<longleftrightarrow> i \<in> painted (fst st) Gray \<and> (\<forall>g \<in> painted (fst st) Gray. (g, i) \<in> E\<^sup>*)"

lemma current_progress: "current E i st \<Longrightarrow> progress E st st' \<Longrightarrow> snd st' = [] \<Longrightarrow> current E i st'"
  by (simp add: current_def progress_def)

definition enterable :: "(step_id \<times> step_id) set \<Rightarrow> step_id \<Rightarrow> dfs_state \<Rightarrow> bool" where
  "enterable E i st \<longleftrightarrow> i \<in> painted (fst st) White \<and> (\<forall>g \<in> painted (fst st) Gray. (g, i) \<in> E\<^sup>*)"

lemma current_enter: "enterable E i (color, []) \<Longrightarrow> current E i (map_set i Gray color, [])"
  by (auto simp: enterable_def current_def painted_set)

lemma targets_step:
  assumes s: "searching index ids n (color, [])" and cur: "current (flow_edge index ids) i (color, [])"
    and e: "t \<in> ids \<Longrightarrow> (i, t) \<in> flow_edge index ids"
    and d: "enterable (flow_edge index ids) t (color, []) \<Longrightarrow>
      dfs_ok (flow_edge index ids) t (color, []) (dfs n index t (color, []))"
    and r: "\<And>st. progress (flow_edge index ids) (color, []) st \<Longrightarrow> snd st = [] \<Longrightarrow>
      targets_ok (flow_edge index ids) (set ts \<inter> ids) st (dfsTargets n index ts st)"
  shows "targets_ok (flow_edge index ids) (set (t # ts) \<inter> ids) (color, [])
    (dfsTargets n index (t # ts) (color, []))"
proof -
  let ?E = "flow_edge index ids"
  have same: "progress ?E (color, []) (color, [])" using s by (intro progress_refl) (simp_all add: searching_def)
  have ids: "t \<in> ids \<longleftrightarrow> map_get color t \<noteq> None"
    using s colored_iff [of t color] by (simp add: searching_def)
  have rest: "targets_ok ?E (insert t (set ts) \<inter> ids) (color, []) (dfsTargets n index ts st)"
    if "progress ?E (color, []) st" "snd st = []" "t \<in> painted (fst st) Black \<or> t \<notin> ids" for st
    using targets_rest [OF that(1,2) r [OF that(1,2)] that(3)] by (simp add: Int_insert_left Int_assoc split: if_splits)
  consider "map_get color t = None" | "map_get color t = Some Black" | "map_get color t = Some Gray"
    | "map_get color t = Some White"
    by (metis color.exhaust option.exhaust)
  then show ?thesis
  proof cases
    case 3
    then have "(t, i) \<in> ?E\<^sup>*" "(i, t) \<in> ?E" using cur e ids by (auto simp: current_def painted_def)
    then have "(t, t) \<in> ?E\<^sup>+" by (meson rtrancl_into_trancl1)
    with 3 show ?thesis by (auto simp: targets_ok_def progress_def)
  next
    case 4
    then have "(i, t) \<in> ?E" using e ids by simp
    then have "enterable ?E t (color, [])"
      using cur 4 by (auto simp: enterable_def current_def painted_def intro: rtrancl_into_rtrancl)
    from d [OF this] obtain st' where st': "dfs n index t (color, []) = Some st'" "progress ?E (color, []) st'"
        "snd st' = [] \<longrightarrow> t \<in> painted (fst st') Black" by (auto simp: dfs_ok_def)
    show ?thesis
    proof (cases "snd st' = []")
      case True
      with st' 4 rest show ?thesis by simp
    next
      case False
      with st' 4 targets_cycle [OF st'(2) False progress_white [OF s st'(2)]] show ?thesis by simp
    qed
  qed (use rest [OF same] ids in \<open>simp_all add: painted_def\<close>)
qed

lemma dfs_correct:
  "searching index ids n st \<Longrightarrow> enterable (flow_edge index ids) i st \<Longrightarrow>
   dfs_ok (flow_edge index ids) i st (dfs n index i st)"
proof (induction n arbitrary: i st)
  case 0
  then show ?case using finite_painted by (auto simp: searching_def enterable_def)
next
  case (Suc n)
  have targets: "targets_ok (flow_edge index ids) (set ts \<inter> ids) st' (dfsTargets n index ts st')"
    if "searching index ids n st'" "current (flow_edge index ids) j st'"
      "\<forall>t \<in> set ts \<inter> ids. (j, t) \<in> flow_edge index ids" for ts j st'
    using that
  proof (induction ts arbitrary: st')
    case Nil
    then show ?case by (auto simp: targets_ok_def searching_def intro: progress_refl)
  next
    case (Cons t ts)
    obtain color where st': "st' = (color, [])" using Cons.prems(1) by (cases st') (simp add: searching_def)
    show ?case
      unfolding st'
    proof (rule targets_step)
      show "targets_ok (flow_edge index ids) (set ts \<inter> ids) st2 (dfsTargets n index ts st2)"
        if "progress (flow_edge index ids) (color, []) st2" "snd st2 = []" for st2
      proof (rule Cons.IH)
        show "searching index ids n st2" "current (flow_edge index ids) j st2"
          using that Cons.prems(1,2) searching_progress current_progress unfolding st' by blast+
      qed (use Cons.prems(3) in auto)
    qed (use Cons st' Suc.IH in auto)
  qed
  obtain color where st: "st = (color, [])" using Suc.prems(1) by (cases st) (simp add: searching_def)
  have w: "i \<in> painted color White" using Suc.prems(2) st by (simp add: enterable_def)
  show ?case
    unfolding st
  proof (rule dfs_step)
    show "targets_ok (flow_edge index ids) (set (allOutgoing s) \<inter> ids) (map_set i Gray color, [])
        (dfsTargets n index (allOutgoing s) (map_set i Gray color, []))" if "map_get index i = Some s" for s
      using Suc.prems st that w
      by (intro targets [of _ i] searching_gray current_enter) (auto simp: flow_edge_def)
  qed (use Suc.prems st w in auto)
qed

lemma roots_correct:
  assumes "searching index ids n st" "painted (fst st) Gray = {}" "set (map step_id ss) \<subseteq> ids"
  shows "\<exists>st'. dfsRoots n index ss st = Some st' \<and> progress (flow_edge index ids) st st' \<and>
    (snd st' = [] \<longrightarrow> set (map step_id ss) \<subseteq> painted (fst st') Black)"
  using assms
proof (induction ss arbitrary: st)
  case Nil
  then show ?case by (auto simp: searching_def intro: progress_refl)
next
  case (Cons s ss)
  let ?E = "flow_edge index ids"
  let ?r = "if map_get (fst st) (step_id s) = Some White then dfs n index (step_id s) st else Some st"
  have "dfs_ok ?E (step_id s) st ?r"
  proof (cases "map_get (fst st) (step_id s) = Some White")
    case True
    with Cons.prems show ?thesis
      by (auto intro!: dfs_correct simp: enterable_def painted_def)
  next
    case False
    have "step_id s \<in> colored (fst st)" using Cons.prems(1,3) by (simp add: searching_def)
    with False Cons.prems(2) have "step_id s \<in> painted (fst st) Black" by (auto simp: colored_def painted_def)
    with False Cons.prems(1) show ?thesis by (auto simp: dfs_ok_def searching_def intro: progress_refl)
  qed
  then obtain st' where st': "?r = Some st'" "progress ?E st st'"
      "snd st' = [] \<longrightarrow> step_id s \<in> painted (fst st') Black" by (auto simp: dfs_ok_def)
  show ?case
  proof (cases "snd st' = []")
    case True
    then have "painted (fst st') Gray = {}" using st'(2) Cons.prems(2) by (simp add: progress_def)
    then obtain st'' where r: "dfsRoots n index ss st' = Some st''" "progress ?E st' st''"
        "snd st'' = [] \<longrightarrow> set (map step_id ss) \<subseteq> painted (fst st'') Black"
      using Cons.IH [of st'] searching_progress [OF Cons.prems(1) st'(2) True] Cons.prems(3) by auto
    then have "snd st'' = [] \<longrightarrow> painted (fst st') Black \<subseteq> painted (fst st'') Black"
      by (simp add: progress_def)
    with r st' True progress_trans [OF st'(2) True r(2)] show ?thesis by auto
  next
    case False
    with st' show ?thesis by auto
  qed
qed

lemma initial_colors:
  "map_get (fold (\<lambda>s m. map_set (step_id s) White m) ss []) i =
   (if i \<in> set (map step_id ss) then Some White else None)"
  by (induction ss rule: rev_induct) auto

lemma findCycle_correct:
  fixes d index
  defines "E \<equiv> flow_edge index (set (step_ids d))"
  assumes "set (map_keys index) \<subseteq> set (step_ids d)"
  obtains "findCycle d index = Some []" "acyclic E"
  | node rest where "findCycle d index = Some (node # rest)" "(node, node) \<in> E\<^sup>+"
proof -
  let ?c = "fold (\<lambda>s m. map_set (step_id s) White m) (steps d) []"
  have paint: "painted ?c White = set (step_ids d)" "painted ?c Gray = {}" "painted ?c Black = {}"
    by (auto simp: painted_def initial_colors split: if_splits)
  have "card (set (step_ids d)) \<le> Suc (length (steps d))"
    using card_length [of "step_ids d"] by simp
  then have "searching index (set (step_ids d)) (Suc (length (steps d))) (?c, [])"
    by (simp add: searching_def paint colored_def settled_def)
  from roots_correct [OF this, of "steps d"] obtain st' where st':
      "dfsRoots (Suc (length (steps d))) index (steps d) (?c, []) = Some st'" "progress E (?c, []) st'"
      "snd st' = [] \<longrightarrow> set (step_ids d) \<subseteq> painted (fst st') Black"
    unfolding E_def fst_conv paint(2) by (metis subset_refl)
  then have f: "findCycle d index = Some (snd st')" by (simp add: findCycle_def)
  show thesis
  proof (cases "snd st'")
    case Nil
    with st' have "settled E (painted (fst st') Black)" by (simp add: progress_def)
    moreover have "x \<in> set (step_ids d)" if "(x, x) \<in> E\<^sup>+" for x
    proof -
      from that obtain y where "(x, y) \<in> E" by (meson tranclD)
      then have "x \<in> set (map_keys index)" by (auto simp: E_def flow_edge_def map_keys_get)
      with assms(2) show ?thesis by blast
    qed
    ultimately have "acyclic E"
      using st'(3) Nil unfolding acyclic_def settled_def by blast
    with f Nil that(1) show ?thesis by simp
  next
    case (Cons node rest)
    with st'(2) have "(node, node) \<in> E\<^sup>+" by (simp add: progress_def)
    with f Cons that(2) show ?thesis by simp
  qed
qed

end
