(* ===== verification/Validate_Spec.thy ===== *)
theory Validate_Spec
  imports Graph_Walks
begin

text \<open>
  What \<open>validate\<close> decides: \<open>valid_definition\<close> is a specification of a correct definition in terms of
  its steps and the step graph, and the validator reports no error exactly on the definitions that
  satisfy it. The lemmas of the collection \<open>diag_simps\<close> say when each check reports an error.
\<close>

section \<open>The abstract specification of a valid definition\<close>

text \<open>The step graph, without an index: who leads to whom, along every outgoing reference and along
  the regular ones that do not enter \<open>join\<close>.\<close>

definition step_flow :: "workflow_definition \<Rightarrow> (step_id \<times> step_id) set" where
  "step_flow d = {(step_id s, t) | s t. s \<in> set (steps d) \<and> t \<in> set (allOutgoing s)}"

definition branch_flow :: "workflow_definition \<Rightarrow> step_id \<Rightarrow> (step_id \<times> step_id) set" where
  "branch_flow d join = {(step_id s, t) | s t. s \<in> set (steps d) \<and> t \<in> set (outgoingTargets s) \<and> t \<noteq> join}"

fun shape_ok :: "step \<Rightarrow> bool" where
  "shape_ok (Decision _ branches) \<longleftrightarrow> branches \<noteq> []"
| "shape_ok (DecisionTable c hp next tbl) \<longleftrightarrow>
     tbl_rules tbl \<noteq> [] \<and> \<not> blank next \<and> (\<forall>p. hp = Some p \<longrightarrow> p \<in> set HIT_POLICIES) \<and>
     (\<forall>rule \<in> set (tbl_rules tbl). \<not> map_has (rule_extra rule) ''then'') \<and>
     \<not> map_has (tbl_extra tbl) ''defaultNextStep'' \<and>
     (\<forall>f \<in> set forbiddenFields. \<not> map_has (c_extra c) f)"
| "shape_ok (Transformation _ next ts) \<longleftrightarrow> \<not> blank next \<and> ts \<noteq> []"
| "shape_ok (Wait _ next _) \<longleftrightarrow> \<not> blank next"
| "shape_ok (ParallelGateway _ targets join) \<longleftrightarrow> 2 \<le> length targets \<and> \<not> blank join"
| "shape_ok (JoinGateway _ next) \<longleftrightarrow> \<not> blank next"
| "shape_ok _ \<longleftrightarrow> True"

text \<open>Every step a step names exists; an empty \<^verbatim>\<open>nextStep\<close> of a task counts as absent.\<close>

definition refs_ok :: "workflow_definition \<Rightarrow> step \<Rightarrow> bool" where
  "refs_ok d s \<longleftrightarrow> set (allOutgoing s) \<subseteq> set (step_ids d) \<and>
     (\<forall>c targets join. s = ParallelGateway c targets join \<longrightarrow> join \<in> set (step_ids d))"

definition boundary_ok :: "step \<Rightarrow> bool" where
  "boundary_ok s \<longleftrightarrow>
     (if supports_boundary s
      then \<forall>evt \<in> set (case boundaryEvents s of None \<Rightarrow> [] | Some evts \<Rightarrow> evts).
             evt_type evt = ''TIMER'' \<and> ISO_DURATION_PATTERN (evt_duration evt)
      else \<forall>v. map_get (step_extra s) ''boundaryEvents'' = Some v \<longrightarrow> \<not> is_JArr v)"

definition rule_exprs_ok :: "decision_table_rule \<Rightarrow> bool" where
  "rule_exprs_ok rule \<longleftrightarrow>
     (\<forall>(column, expr) \<in> set (rule_when rule). blank expr \<or> decision_text expr) \<and>
     (\<forall>outputs key text. rule_outputs rule = Some outputs \<and> (key, JStr text) \<in> set outputs \<longrightarrow>
        transformation_text text)"

fun exprs_ok :: "step \<Rightarrow> bool" where
  "exprs_ok (Decision _ branches) \<longleftrightarrow> (\<forall>expr \<in> set (map_keys branches). decision_text expr)"
| "exprs_ok (Transformation _ _ ts) \<longleftrightarrow>
     (\<forall>key text. (key, JStr text) \<in> set ts \<longrightarrow> transformation_text text)"
| "exprs_ok (DecisionTable _ _ _ tbl) \<longleftrightarrow> (\<forall>rule \<in> set (tbl_rules tbl). rule_exprs_ok rule)"
| "exprs_ok _ \<longleftrightarrow> True"

definition next_workflow_ok :: "workflow_definition \<Rightarrow> bool" where
  "next_workflow_ok d \<longleftrightarrow>
     (autoStartNextWorkflow d = Some True) = (\<exists>i. nextWorkflowId d = Some i \<and> trim i \<noteq> '''')"

definition joins_ok :: "workflow_definition \<Rightarrow> bool" where
  "joins_ok d \<longleftrightarrow> (\<forall>c targets join j. ParallelGateway c targets join \<in> set (steps d) \<and>
     j \<in> set (steps d) \<and> step_id j = join \<longrightarrow> type_of j = JOIN_GATEWAY)"

text \<open>No branch of a gateway meets a gateway before the join.\<close>

definition no_nesting :: "workflow_definition \<Rightarrow> bool" where
  "no_nesting d \<longleftrightarrow> (\<forall>c targets join t p. ParallelGateway c targets join \<in> set (steps d) \<and>
     t \<in> set targets \<and> t \<noteq> join \<and> p \<in> set (steps d) \<and> type_of p = PARALLEL_GATEWAY \<longrightarrow>
     (t, step_id p) \<notin> (branch_flow d join)\<^sup>*)"

definition valid_definition :: "workflow_definition \<Rightarrow> bool" where
  "valid_definition d \<longleftrightarrow>
     ID_PATTERN (def_id d) \<and> length (def_id d) \<le> 256 \<and> \<not> blank (def_name d) \<and>
     steps d \<noteq> [] \<and> distinct (step_ids d) \<and> next_workflow_ok d \<and>
     (\<forall>s \<in> set (steps d). \<not> blank (step_id s) \<and> \<not> blank (step_name s) \<and> shape_ok s \<and> refs_ok d s \<and>
        boundary_ok s \<and> exprs_ok s) \<and>
     joins_ok d \<and> no_nesting d \<and>
     (\<forall>s \<in> set (steps d). (step_id (hd (steps d)), step_id s) \<in> (step_flow d)\<^sup>*) \<and>
     (\<exists>s \<in> set (steps d). type_of s = END)"

section \<open>When each check reports an error\<close>

lemma report_if_errors [diag_simps]: "errors (report_if b c Error i f) = [] \<longleftrightarrow> \<not> b"
  "errors (report_if b c Warning i f) = []"
  by (simp_all add: report_if_def)

lemma errors_concat_Nil [diag_simps]: "errors (concat (map f xs)) = [] \<longleftrightarrow> (\<forall>x \<in> set xs. errors (f x) = [])"
  by (simp add: errors_concat)

lemma errors_map_update [diag_simps]:
  "(\<And>e. severity (f e) = severity e) \<Longrightarrow> errors (map f ds) = [] \<longleftrightarrow> errors ds = []"
  by (simp add: errors_Nil_iff)

lemma blank_Nil [simp]: "blank ''''"
  by (simp add: blank_def)

lemma checkIdFormat_ok [diag_simps]:
  "errors (checkIdFormat d) = [] \<longleftrightarrow> ID_PATTERN (def_id d) \<and> length (def_id d) \<le> 256"
  by (auto simp: checkIdFormat_def ID_PATTERN_def)

lemma checkNameRequired_ok [diag_simps]:
  "errors (checkNameRequired d) = [] \<longleftrightarrow> \<not> blank (def_name d) \<and> (\<forall>s \<in> set (steps d). \<not> blank (step_name s))"
  by (auto simp: checkNameRequired_def diag_simps)

lemma checkStepsNonEmpty_ok [diag_simps]: "errors (checkStepsNonEmpty d) = [] \<longleftrightarrow> steps d \<noteq> []"
  by (simp add: checkStepsNonEmpty_def)

lemma duplicateIds_ok:
  "errors (duplicateIds seen ss) = [] \<longleftrightarrow> distinct (map step_id ss) \<and> set seen \<inter> set (map step_id ss) = {}"
  by (induction ss arbitrary: seen) auto

lemma checkStepIdsUnique_ok [diag_simps]: "errors (checkStepIdsUnique d) = [] \<longleftrightarrow> distinct (step_ids d)"
  by (simp add: checkStepIdsUnique_def duplicateIds_ok)

lemma checkStepIdsPresent_ok [diag_simps]:
  "errors (checkStepIdsPresent d) = [] \<longleftrightarrow> (\<forall>s \<in> set (steps d). \<not> blank (step_id s))"
  by (simp add: checkStepIdsPresent_def diag_simps)

lemma checkStepTypesValid_never [diag_simps]: "checkStepTypesValid d = []"
proof -
  have "type_of s \<in> set STEP_TYPES" for s by (cases s) (simp_all add: STEP_TYPES_def)
  then show ?thesis by (simp add: checkStepTypesValid_def)
qed

lemma checkNextWorkflow_ok [diag_simps]: "errors (checkNextWorkflowConsistency d) = [] \<longleftrightarrow> next_workflow_ok d"
  by (simp add: checkNextWorkflowConsistency_def next_workflow_ok_def Let_def split: option.splits)

lemma unreachableRules_errors [diag_simps]: "errors (unreachableRules first i rs) = []"
  by (induction first i rs rule: unreachableRules.induct) (auto split: option.splits)

lemma hit_policy_aggregator:
  "p \<in> set HIT_POLICIES \<Longrightarrow> \<not> (length p > 1 \<and> p ! 0 \<noteq> CHR ''C'' \<and> p ! 1 \<in> {CHR ''+'', CHR ''#'', CHR ''>'', CHR ''<''})"
  by (auto simp: HIT_POLICIES_def)

lemma ball_indexed: "(\<forall>(k, x) \<in> set (indexed xs). P x) \<longleftrightarrow> (\<forall>x \<in> set xs. P x)"
proof -
  have "set xs = snd ` set (indexed xs)" by (metis map_snd_indexed set_map)
  then show ?thesis by force
qed

lemma errors_indexed:
  assumes "\<And>k x. errors (f k x) = [] \<longleftrightarrow> P x"
  shows "errors (concat (map (\<lambda>(k, x). f k x) (indexed xs))) = [] \<longleftrightarrow> (\<forall>x \<in> set xs. P x)"
  using assms ball_indexed [of xs P] by (simp add: errors_concat split_def)

lemma checkDecisionTable_ok:
  "errors (checkDecisionTableShape c hp next tbl) = [] \<longleftrightarrow> shape_ok (DecisionTable c hp next tbl)"
proof -
  let ?then = "concat (map (\<lambda>(k, rule). map (\<lambda>e. e\<lparr>ruleIndex := Some k\<rparr>)
          (report_if (map_has (rule_extra rule) ''then'') DECISION_TABLE_LEGACY_THEN Error (c_id c)
             ''decisionTable.rules'')) (indexed (tbl_rules tbl)))"
  have "errors ?then = [] \<longleftrightarrow> (\<forall>rule \<in> set (tbl_rules tbl). \<not> map_has (rule_extra rule) ''then'')"
    by (rule errors_indexed) (simp add: diag_simps)
  moreover have "(case hp of None \<Rightarrow> False | Some p \<Rightarrow> length p > 1 \<and> p ! 0 \<noteq> CHR ''C'' \<and>
      p ! 1 \<in> {CHR ''+'', CHR ''#'', CHR ''>'', CHR ''<''}) \<longrightarrow>
      (case hp of None \<Rightarrow> False | Some p \<Rightarrow> p \<notin> set HIT_POLICIES)"
    using hit_policy_aggregator by (auto split: option.split)
  moreover have "(case hp of None \<Rightarrow> False | Some p \<Rightarrow> p \<notin> set HIT_POLICIES) \<longleftrightarrow>
      \<not> (\<forall>p. hp = Some p \<longrightarrow> p \<in> set HIT_POLICIES)"
    by (simp split: option.split)
  ultimately show ?thesis
    unfolding checkDecisionTableShape_def errors_simps append_is_Nil_conv diag_simps shape_ok.simps
      length_0_conv by blast
qed

lemma checkShape_ok [diag_simps]: "errors (checkStepVariantShape s) = [] \<longleftrightarrow> shape_ok s"
  by (cases s) (auto simp: diag_simps checkDecisionTable_ok map_keys_def simp del: shape_ok.simps(2))

lemma checkOptRef_ok [diag_simps]:
  "errors (checkOptRef index i f next) = [] \<longleftrightarrow> (truthy next \<longrightarrow> map_has index (the next))"
  by (simp add: checkOptRef_def missing_def)

lemma checkBoundaryEvent_ok [diag_simps]:
  "errors (checkBoundaryEvent index i k evt) = [] \<longleftrightarrow> evt_type evt = ''TIMER'' \<and>
     ISO_DURATION_PATTERN (evt_duration evt) \<and> evt_targetStepId evt \<noteq> '''' \<and> map_has index (evt_targetStepId evt)"
  by (auto simp: checkBoundaryEvent_def boundary_diag_def ISO_DURATION_PATTERN_def)

definition events_of :: "step \<Rightarrow> boundary_event list" where
  "events_of s = (if supports_boundary s then (case boundaryEvents s of None \<Rightarrow> [] | Some evts \<Rightarrow> evts) else [])"

lemma checkBoundaryEvents_ok [diag_simps]:
  "errors (checkBoundaryEvents index s) = [] \<longleftrightarrow> boundary_ok s \<and>
     (\<forall>evt \<in> set (events_of s). evt_targetStepId evt \<noteq> '''' \<and> map_has index (evt_targetStepId evt))"
proof (cases "supports_boundary s")
  case True
  have "errors (concat (map (\<lambda>(k, evt). checkBoundaryEvent index (step_id s) k evt) (indexed events))) = [] \<longleftrightarrow>
      (\<forall>evt \<in> set events. evt_type evt = ''TIMER'' \<and> ISO_DURATION_PATTERN (evt_duration evt) \<and>
         evt_targetStepId evt \<noteq> '''' \<and> map_has index (evt_targetStepId evt))" for events
    by (rule errors_indexed) (rule checkBoundaryEvent_ok)
  with True show ?thesis
    by (auto simp: checkBoundaryEvents_def boundary_ok_def events_of_def split: option.split)
next
  case False
  then show ?thesis
    by (auto simp: checkBoundaryEvents_def boundary_ok_def events_of_def diag_simps split: option.split)
qed

lemma allOutgoing_events: "set (allOutgoing s) = set (outgoingTargets s) \<union> evt_targetStepId ` set (events_of s)"
  unfolding allOutgoing_def events_of_def
  by (cases "supports_boundary s"; cases "boundaryEvents s"; simp)

text \<open>Given that no step id is blank and that required references are filled in, references resolve
  exactly when the two reference checks are silent.\<close>

lemma refs_checks_ok:
  assumes "\<forall>s \<in> set (steps d). \<not> blank (step_id s)" "shape_ok s"
  shows "errors (checkRefsResolve (indexSteps d) s) = [] \<and> errors (checkBoundaryEvents (indexSteps d) s) = []
     \<longleftrightarrow> refs_ok d s \<and> boundary_ok s"
proof -
  have ne: "'''' \<notin> set (step_ids d)" using assms(1) by force
  then have "t \<noteq> '''' \<and> t \<in> set (step_ids d) \<longleftrightarrow> t \<in> set (step_ids d)" for t by blast
  then have ev: "errors (checkBoundaryEvents (indexSteps d) s) = [] \<longleftrightarrow> boundary_ok s \<and>
      evt_targetStepId ` set (events_of s) \<subseteq> set (step_ids d)"
    by (simp only: diag_simps indexSteps_has image_subset_iff)
  have "errors (checkRefsResolve (indexSteps d) s) = [] \<longleftrightarrow> set (outgoingTargets s) \<subseteq> set (step_ids d) \<and>
      (\<forall>c targets join. s = ParallelGateway c targets join \<longrightarrow> join \<in> set (step_ids d))"
    using assms(2) ne
    by (cases s) (force simp: diag_simps missing_def indexSteps_has split: if_splits elim!: truthyE)+
  with ev show ?thesis by (auto simp: refs_ok_def allOutgoing_events)
qed

lemma errors_cells:
  "errors (map (\<lambda>e. e\<lparr>code := f e, ruleIndex := k, cellColumn := col\<rparr>) ds) = [] \<longleftrightarrow> errors ds = []"
  "errors (map (\<lambda>e. e\<lparr>code := f e, ruleIndex := k\<rparr>) ds) = [] \<longleftrightarrow> errors ds = []"
  by (simp_all add: errors_Nil_iff)

lemma checkRule_ok: "errors (checkRuleExpressions known i k rule) = [] \<longleftrightarrow> rule_exprs_ok rule"
  unfolding checkRuleExpressions_def errors_simps append_is_Nil_conv rule_exprs_ok_def
proof (intro conj_cong, goal_cases)
  case 1
  show ?case
    unfolding errors_concat_Nil split_def
    by (rule ball_cong) (simp_all add: errors_cells diag_simps)
next
  case 2
  have "errors (case v of JStr text \<Rightarrow> map (\<lambda>e. e\<lparr>code := f e, ruleIndex := Some k\<rparr>)
      (lintTransformationExpression text ctx) | _ \<Rightarrow> []) = [] \<longleftrightarrow>
     (\<forall>text. v = JStr text \<longrightarrow> transformation_text text)" for v f ctx
    by (cases v) (simp_all add: errors_cells diag_simps)
  then show ?case
    by (cases "rule_outputs rule") (auto simp: errors_concat_Nil split_def)
qed

lemma checkExpressions_ok [diag_simps]: "errors (checkExpressions d s) = [] \<longleftrightarrow> exprs_ok s"
proof (cases s)
  case (Transformation c nx ts)
  have "errors (case v of JStr text \<Rightarrow> lintTransformationExpression text ctx | _ \<Rightarrow> []) = [] \<longleftrightarrow>
     (\<forall>text. v = JStr text \<longrightarrow> transformation_text text)" for v ctx
    by (cases v) (simp_all add: diag_simps)
  then show ?thesis by (auto simp: Transformation errors_concat_Nil split_def)
next
  case (DecisionTable c hp nx tbl)
  have "errors (concat (map (\<lambda>(k, rule). checkRuleExpressions (collectKnownVariables d) (c_id c) k rule)
      (indexed (tbl_rules tbl)))) = [] \<longleftrightarrow> (\<forall>rule \<in> set (tbl_rules tbl). rule_exprs_ok rule)"
    by (rule errors_indexed) (rule checkRule_ok)
  then show ?thesis by (simp add: DecisionTable)
qed (simp_all add: diag_simps)

lemma checkJoins_ok:
  assumes "distinct (step_ids d)"
  shows "errors (checkParallelJoinTarget d (indexSteps d)) = [] \<longleftrightarrow> joins_ok d"
proof -
  have get: "map_get (indexSteps d) i = Some j \<longleftrightarrow> j \<in> set (steps d) \<and> step_id j = i" for i j
    using indexSteps_getD indexSteps_unique [OF assms] by blast
  have "errors (case s of ParallelGateway c _ join \<Rightarrow> (case map_get (indexSteps d) join of None \<Rightarrow> []
        | Some j \<Rightarrow> report_if (type_of j \<noteq> JOIN_GATEWAY) PARALLEL_HAS_JOIN Error (c_id c) ''joinStep'') | _ \<Rightarrow> []) = []
      \<longleftrightarrow> (\<forall>c targets join j. s = ParallelGateway c targets join \<and> map_get (indexSteps d) join = Some j
         \<longrightarrow> type_of j = JOIN_GATEWAY)" for s
    by (cases s) (auto simp: diag_simps split: option.split)
  then show ?thesis
    unfolding checkParallelJoinTarget_def errors_concat_Nil joins_ok_def get by blast
qed

section \<open>Reachability\<close>

lemma index_flow:
  assumes "distinct (step_ids d)"
  shows "map_get (indexSteps d) i = Some s \<longleftrightarrow> s \<in> set (steps d) \<and> step_id s = i"
  using indexSteps_getD indexSteps_unique [OF assms] by blast

lemma set_succ_by: "t \<in> set (succ_by out index i) \<longleftrightarrow> (\<exists>s. map_get index i = Some s \<and> t \<in> set (out s))"
  by (cases "map_get index i") simp_all

lemma reach_edge_index:
  "stack_walk.edge (succ_by allOutgoing (indexSteps d)) (\<lambda>i. i = '''') =
   {(i, t). \<exists>s. map_get (indexSteps d) i = Some s \<and> t \<in> set (allOutgoing s) \<and> t \<noteq> ''''}"
  by (auto simp: reach.edge_def set_succ_by)

text \<open>The ids a definition's entry leads to, with the index the validator uses.\<close>

definition reached :: "workflow_definition \<Rightarrow> step_id set" where
  "reached d = {i. steps d \<noteq> [] \<and> step_id (hd (steps d)) \<noteq> '''' \<and> (step_id (hd (steps d)), i) \<in>
     {(i, t). \<exists>s. map_get (indexSteps d) i = Some s \<and> t \<in> set (allOutgoing s) \<and> t \<noteq> ''''}\<^sup>*}"

lemma reachLoop_reached:
  "steps d = entry # rest \<Longrightarrow> set (reachLoop (indexSteps d) [] [step_id entry]) = reached d"
  using reach.loop_from [of "indexSteps d" "[step_id entry]"]
  by (auto simp: reach_edge_index reached_def)

lemma checkReachability_eq:
  "checkReachability d (indexSteps d) =
     (if steps d = [] then [] else
        map (\<lambda>s. (diag ALL_REACHABLE Error)\<lparr>nodeId := Some (step_id s)\<rparr>)
          (filter (\<lambda>s. step_id s \<notin> reached d) (steps d))
        @ (if \<exists>i s. i \<in> reached d \<and> map_get (indexSteps d) i = Some s \<and> type_of s = END then []
           else [diag END_REACHABLE Error]))"
proof (cases "steps d")
  case (Cons entry rest)
  have unreach: "concat (map (\<lambda>s. if step_id s \<notin> V then [f s] else []) ss) = map f (filter (\<lambda>s. step_id s \<notin> V) ss)"
    for V ss and f :: "step \<Rightarrow> diagnostic"
    by (induction ss) auto
  have "list_ex (\<lambda>i. map_option type_of (map_get (indexSteps d) i) = Some END)
      (reachLoop (indexSteps d) [] [step_id entry]) \<longleftrightarrow>
      (\<exists>i s. i \<in> reached d \<and> map_get (indexSteps d) i = Some s \<and> type_of s = END)"
    using reachLoop_reached [OF Cons] by (auto simp: list_ex_iff)
  moreover have "checkReachability d (indexSteps d) =
      (let visited = reachLoop (indexSteps d) [] [step_id entry]
       in concat (map (\<lambda>s. if step_id s \<notin> set visited
            then [(diag ALL_REACHABLE Error)\<lparr>nodeId := Some (step_id s)\<rparr>] else []) (steps d))
          @ (if list_ex (\<lambda>i. map_option type_of (map_get (indexSteps d) i) = Some END) visited then []
             else [diag END_REACHABLE Error]))"
    by (simp add: checkReachability_def Cons del: reachLoop.simps)
  moreover have "steps d \<noteq> []" using Cons by simp
  ultimately show ?thesis
    by (simp only: Let_def reachLoop_reached [OF Cons] unreach if_False)
qed (simp add: checkReachability_def)

lemma reached_flow:
  assumes "distinct (step_ids d)" "\<forall>s \<in> set (steps d). \<not> blank (step_id s) \<and> refs_ok d s" "steps d \<noteq> []"
  shows "reached d = {i. (step_id (hd (steps d)), i) \<in> (step_flow d)\<^sup>*}"
proof -
  have ne: "'''' \<notin> set (step_ids d)" using assms(2) by force
  have "{(i, t). \<exists>s. map_get (indexSteps d) i = Some s \<and> t \<in> set (allOutgoing s) \<and> t \<noteq> ''''} = step_flow d"
    using assms(2) ne by (auto simp: step_flow_def index_flow [OF assms(1)] refs_ok_def subset_eq)
  moreover have "step_id (hd (steps d)) \<noteq> ''''"
    using assms(2,3) by (cases "steps d") auto
  ultimately show ?thesis using assms(3) by (simp add: reached_def)
qed

lemma checkReachability_ok:
  assumes "distinct (step_ids d)" "\<forall>s \<in> set (steps d). \<not> blank (step_id s) \<and> refs_ok d s" "steps d \<noteq> []"
  shows "errors (checkReachability d (indexSteps d)) = [] \<longleftrightarrow>
    (\<forall>s \<in> set (steps d). (step_id (hd (steps d)), step_id s) \<in> (step_flow d)\<^sup>*) \<and>
    (\<exists>s \<in> set (steps d). type_of s = END)"
proof -
  have "errors (map (\<lambda>s. (diag ALL_REACHABLE Error)\<lparr>nodeId := Some (step_id s)\<rparr>) ss) = [] \<longleftrightarrow> ss = []" for ss
    by (cases ss) simp_all
  then show ?thesis
    using assms(3) by (auto simp: checkReachability_eq reached_flow [OF assms] index_flow [OF assms(1)] filter_empty_conv)
qed

section \<open>Nested gateways\<close>

lemma indexSteps_by_id: "indexed_by_id (indexSteps d)"
  by (auto simp: indexed_by_id_def dest: indexSteps_getD)

text \<open>The ids met from the branches of a gateway before its join.\<close>

definition branch_reached :: "workflow_definition \<Rightarrow> step_id list \<Rightarrow> step_id \<Rightarrow> step_id set" where
  "branch_reached d targets join =
     {(i, t). \<exists>s. map_get (indexSteps d) i = Some s \<and> t \<in> set (outgoingTargets s) \<and> t \<noteq> '''' \<and> t \<noteq> join}\<^sup>*
       `` {t \<in> set targets. t \<noteq> '''' \<and> t \<noteq> join}"

lemma nestedLoop_reached:
  "set (fst (nestedLoop (indexSteps d) join [] [] (rev targets))) = branch_reached d targets join"
proof -
  have "nested.edge (indexSteps d) join = {(i, t). \<exists>s. map_get (indexSteps d) i = Some s \<and>
      t \<in> set (outgoingTargets s) \<and> t \<noteq> '''' \<and> t \<noteq> join}"
    by (auto simp: nested.edge_def set_succ_by)
  then show ?thesis
    using nested.loop_from [of "indexSteps d" join "rev targets"] by (simp add: branch_reached_def)
qed

lemma nestedLoop_diags:
  "set (snd (nestedLoop (indexSteps d) join [] [] (rev targets))) =
   (\<lambda>i. (diag NO_NESTED_PARALLEL Error)\<lparr>nodeId := Some i\<rparr>) ` {i. i \<in> branch_reached d targets join \<and>
      map_option type_of (map_get (indexSteps d) i) = Some PARALLEL_GATEWAY}"
proof -
  obtain new where "fst (nestedLoop (indexSteps d) join [] [] (rev targets)) = new"
      "snd (nestedLoop (indexSteps d) join [] [] (rev targets)) = concat (map (nested_diag (indexSteps d)) new)"
    using nested_snd [OF indexSteps_by_id, of d join "[]" "rev targets"] by auto
  with nestedLoop_reached [of d join targets] show ?thesis
    by (auto simp: nested_diag_def split: if_splits)
qed

lemma set_checkNestedParallel:
  "set (checkNestedParallel d (indexSteps d)) =
   (\<lambda>i. (diag NO_NESTED_PARALLEL Error)\<lparr>nodeId := Some i\<rparr>) ` {i. \<exists>c targets join p.
      ParallelGateway c targets join \<in> set (steps d) \<and> i \<in> branch_reached d targets join \<and>
      map_get (indexSteps d) i = Some p \<and> type_of p = PARALLEL_GATEWAY}" (is "?L = ?R")
proof -
  have one: "set (case s of ParallelGateway _ targets join \<Rightarrow> snd (nestedLoop (indexSteps d) join [] [] (rev targets))
      | _ \<Rightarrow> []) = (\<lambda>i. (diag NO_NESTED_PARALLEL Error)\<lparr>nodeId := Some i\<rparr>) ` {i. \<exists>c targets join.
         s = ParallelGateway c targets join \<and> i \<in> branch_reached d targets join \<and>
         map_option type_of (map_get (indexSteps d) i) = Some PARALLEL_GATEWAY}" for s
    by (cases s) (simp_all add: nestedLoop_diags)
  show ?thesis
    unfolding checkNestedParallel_def set_concat set_map image_image one image_UN [symmetric]
    by (rule arg_cong [where f = "image _"]) auto
qed

lemma branch_reached_flow:
  assumes "distinct (step_ids d)" "\<forall>s \<in> set (steps d). \<not> blank (step_id s) \<and> refs_ok d s"
    "ParallelGateway c targets join \<in> set (steps d)"
  shows "branch_reached d targets join = (branch_flow d join)\<^sup>* `` {t \<in> set targets. t \<noteq> join}"
proof -
  have ne: "'''' \<notin> set (step_ids d)" using assms(2) by force
  have sub: "set (outgoingTargets s) \<subseteq> set (step_ids d)" if "s \<in> set (steps d)" for s
    using assms(2) that by (auto simp: refs_ok_def allOutgoing_events)
  have "{(i, t). \<exists>s. map_get (indexSteps d) i = Some s \<and> t \<in> set (outgoingTargets s) \<and> t \<noteq> '''' \<and> t \<noteq> join}
      = branch_flow d join"
    using sub ne unfolding branch_flow_def index_flow [OF assms(1)] by blast
  moreover have "{t \<in> set targets. t \<noteq> '''' \<and> t \<noteq> join} = {t \<in> set targets. t \<noteq> join}"
    using sub [OF assms(3)] ne by auto
  ultimately show ?thesis by (simp add: branch_reached_def)
qed

lemma checkNestedParallel_ok:
  assumes "distinct (step_ids d)" "\<forall>s \<in> set (steps d). \<not> blank (step_id s) \<and> refs_ok d s"
  shows "errors (checkNestedParallel d (indexSteps d)) = [] \<longleftrightarrow> no_nesting d"
proof -
  have "errors (checkNestedParallel d (indexSteps d)) = [] \<longleftrightarrow> set (checkNestedParallel d (indexSteps d)) = {}"
    unfolding errors_Nil_iff set_checkNestedParallel by simp
  also have "\<dots> \<longleftrightarrow> (\<forall>c targets join i p. ParallelGateway c targets join \<in> set (steps d) \<and>
      i \<in> (branch_flow d join)\<^sup>* `` {t \<in> set targets. t \<noteq> join} \<and> p \<in> set (steps d) \<and> step_id p = i \<longrightarrow>
      type_of p \<noteq> PARALLEL_GATEWAY)"
    unfolding set_checkNestedParallel index_flow [OF assms(1)]
    image_is_empty using branch_reached_flow [OF assms] by blast
  also have "\<dots> \<longleftrightarrow> no_nesting d"
    unfolding no_nesting_def by blast
  finally show ?thesis .
qed

section \<open>Warnings only\<close>

lemma checkGraphCycle_errors [diag_simps]: "errors (checkGraphCycle d index) = []"
  by (simp add: checkGraphCycle_def split: option.split list.split)

lemma checkUnknownFields_errors [diag_simps]: "errors (checkUnknownFields d) = []"
  by (simp add: checkUnknownFields_def diag_simps)

lemma valid_iff: "errors (validate d) = [] \<longleftrightarrow> valid_definition d"
proof -
  let ?ix = "indexSteps d"
  have split: "errors (validate d) = [] \<longleftrightarrow>
    (ID_PATTERN (def_id d) \<and> length (def_id d) \<le> 256 \<and> \<not> blank (def_name d) \<and>
     steps d \<noteq> [] \<and> distinct (step_ids d) \<and> next_workflow_ok d) \<and>
    (\<forall>s \<in> set (steps d). \<not> blank (step_id s)) \<and> (\<forall>s \<in> set (steps d). \<not> blank (step_name s)) \<and>
    (\<forall>s \<in> set (steps d). shape_ok s \<and> errors (checkRefsResolve ?ix s) = [] \<and>
       errors (checkBoundaryEvents ?ix s) = [] \<and> exprs_ok s) \<and>
    errors (checkParallelJoinTarget d ?ix) = [] \<and> errors (checkReachability d ?ix) = [] \<and>
    errors (checkNestedParallel d ?ix) = []"
    unfolding validate_def Let_def errors_simps append_is_Nil_conv errors_concat_Nil
      checkIdFormat_ok checkNameRequired_ok checkStepsNonEmpty_ok checkStepIdsUnique_ok
      checkStepIdsPresent_ok checkStepTypesValid_never checkNextWorkflow_ok checkShape_ok
      checkExpressions_ok checkGraphCycle_errors checkUnknownFields_errors by blast
  show ?thesis
  proof (cases "(\<forall>s \<in> set (steps d). \<not> blank (step_id s)) \<and> (\<forall>s \<in> set (steps d). shape_ok s) \<and>
      distinct (step_ids d) \<and> steps d \<noteq> []")
    case True
    then have refs: "(\<forall>s \<in> set (steps d). errors (checkRefsResolve ?ix s) = [] \<and> errors (checkBoundaryEvents ?ix s) = [])
        \<longleftrightarrow> (\<forall>s \<in> set (steps d). refs_ok d s \<and> boundary_ok s)"
      using refs_checks_ok by blast
    show ?thesis
    proof (cases "\<forall>s \<in> set (steps d). refs_ok d s")
      case refs_ok: True
      with True have p: "\<forall>s \<in> set (steps d). \<not> blank (step_id s) \<and> refs_ok d s" "distinct (step_ids d)" "steps d \<noteq> []"
        by simp_all
      show ?thesis
        unfolding split valid_definition_def checkJoins_ok [OF p(2)] checkReachability_ok [OF p(2,1,3)]
          checkNestedParallel_ok [OF p(2,1)]
        using refs by blast
    next
      case False
      with refs show ?thesis unfolding split valid_definition_def by blast
    qed
  next
    case False
    then show ?thesis unfolding split valid_definition_def by blast
  qed
qed

section \<open>Which check reports which code\<close>

definition codes :: "diagnostic list \<Rightarrow> diagnostic_code set" where
  "codes ds = code ` set ds"

lemma codes_simps [simp]:
  "codes [] = {}" "codes (x # xs) = insert (code x) (codes xs)" "codes (xs @ ys) = codes xs \<union> codes ys"
  "codes (concat xss) = (\<Union>xs \<in> set xss. codes xs)"
  by (auto simp: codes_def)

lemma with_code_codes: "with_code c ds = [] \<longleftrightarrow> c \<notin> codes ds"
  by (auto simp: with_code_def codes_def filter_empty_conv)

lemma codes_report_if: "codes (report_if b c sev i f) \<subseteq> {c}"
  by (simp add: report_if_def)

lemma codes_map_update: "(\<And>e. code (f e) = code e) \<Longrightarrow> codes (map f ds) = codes ds"
  by (simp add: codes_def image_image)

definition graph_codes :: "diagnostic_code set" where
  "graph_codes = {ALL_REACHABLE, END_REACHABLE, NO_NESTED_PARALLEL, GRAPH_CYCLE}"

lemma codes_lint:
  "codes (lintDecisionExpression s known ctx) \<subseteq> {DECISION_EXPR_SYNTAX, DECISION_EXPR_NON_BOOLEAN, DECISION_EXPR_UNKNOWN_IDENT}"
  "codes (lintTransformationExpression s ctx) \<subseteq> {TRANSFORMATION_EXPR_SYNTAX}"
  by (auto simp: lintDecisionExpression_def lintTransformationExpression_def codes_def
      split: parse_result.splits option.splits)

text \<open>A report without codes of the graph searches.\<close>

definition local_report :: "diagnostic list \<Rightarrow> bool" where
  "local_report ds \<longleftrightarrow> codes ds \<inter> graph_codes = {}"

lemma local_report_simps [simp]:
  "local_report []" "local_report (x # xs) \<longleftrightarrow> code x \<notin> graph_codes \<and> local_report xs"
  "local_report (xs @ ys) \<longleftrightarrow> local_report xs \<and> local_report ys"
  "local_report (concat xss) \<longleftrightarrow> (\<forall>xs \<in> set xss. local_report xs)"
  by (auto simp: local_report_def)

lemma local_report_if: "c \<notin> graph_codes \<Longrightarrow> local_report (report_if b c sev i f)"
  by (simp add: report_if_def)

lemma local_report_map: "(\<And>e. e \<in> set ds \<Longrightarrow> code (f e) \<notin> graph_codes) \<Longrightarrow> local_report (map f ds)"
  by (auto simp: local_report_def codes_def)

lemma local_lint:
  "local_report (lintDecisionExpression s known ctx)" "local_report (lintTransformationExpression s ctx)"
  using codes_lint(1) [of s known ctx] codes_lint(2) [of s ctx] by (auto simp: local_report_def graph_codes_def)

lemma local_unreachable: "local_report (unreachableRules first i rs)"
  by (induction first i rs rule: unreachableRules.induct) (auto simp: graph_codes_def split: option.splits)

lemma local_shape: "local_report (checkStepVariantShape s)"
proof -
  have "local_report (map (\<lambda>e. e\<lparr>ruleIndex := Some k\<rparr>) (report_if b DECISION_TABLE_LEGACY_THEN Error i f))" for k b i f
    by (simp add: report_if_def graph_codes_def)
  then show ?thesis
    by (cases s) (auto simp: checkDecisionTableShape_def graph_codes_def intro!: local_report_if local_unreachable)
qed

lemma local_refs: "local_report (checkRefsResolve index s)"
  by (cases s) (auto simp: checkOptRef_def missing_def graph_codes_def)

lemma local_boundary: "local_report (checkBoundaryEvents index s)"
  by (auto simp: checkBoundaryEvents_def checkBoundaryEvent_def boundary_diag_def graph_codes_def
      intro!: local_report_if split: option.split)

lemma remapCellCode_local: "c \<notin> graph_codes \<Longrightarrow> remapCellCode c \<notin> graph_codes"
  by (cases c) (auto simp: graph_codes_def)

lemma local_code: "local_report ds \<Longrightarrow> e \<in> set ds \<Longrightarrow> code e \<notin> graph_codes"
  by (auto simp: local_report_def codes_def)

lemma local_rule: "local_report (checkRuleExpressions known i k rule)"
proof -
  have "local_report (map (\<lambda>e. e\<lparr>code := remapCellCode (code e), ruleIndex := Some k, cellColumn := Some col\<rparr>)
      (lintDecisionExpression expr known ctx))" for col expr ctx
    using local_code [OF local_lint(1)] by (intro local_report_map) (simp add: remapCellCode_local)
  moreover have "local_report (map (\<lambda>e. e\<lparr>code := (if code e = TRANSFORMATION_EXPR_SYNTAX then DT_OUTPUT_EXPR_SYNTAX
      else code e), ruleIndex := Some k\<rparr>) (lintTransformationExpression src ctx))" for src ctx
    using local_code [OF local_lint(2)] by (intro local_report_map) (simp add: graph_codes_def)
  ultimately show ?thesis
    by (auto simp: checkRuleExpressions_def split: option.split json.split)
qed

lemma local_exprs: "local_report (checkExpressions d s)"
  by (cases s) (auto simp: local_lint local_rule split: json.split)

lemma local_heads:
  "local_report (checkIdFormat d)" "local_report (checkNameRequired d)" "local_report (checkStepsNonEmpty d)"
  "local_report (checkStepIdsPresent d)" "local_report (checkNextWorkflowConsistency d)"
  "local_report (checkUnknownFields d)"
  by (auto simp: checkIdFormat_def checkNameRequired_def checkStepsNonEmpty_def checkStepIdsPresent_def
      checkNextWorkflowConsistency_def checkUnknownFields_def graph_codes_def Let_def)

lemma local_unique: "local_report (checkStepIdsUnique d)"
proof -
  have "local_report (duplicateIds seen ss)" for seen ss
    by (induction ss arbitrary: seen) (auto simp: graph_codes_def)
  then show ?thesis by (simp add: checkStepIdsUnique_def)
qed

lemma local_joins: "local_report (checkParallelJoinTarget d index)"
  by (auto simp: checkParallelJoinTarget_def graph_codes_def intro!: local_report_if split: step.split option.split)

lemma with_code_graph:
  "c \<in> graph_codes \<Longrightarrow> local_report ds \<Longrightarrow> with_code c ds = []"
  by (auto simp: with_code_codes local_report_def)

lemma validate_graph_codes:
  assumes "c \<in> graph_codes"
  shows "with_code c (validate d) = with_code c (checkReachability d (indexSteps d)) @
    with_code c (checkNestedParallel d (indexSteps d)) @ with_code c (checkGraphCycle d (indexSteps d))"
proof -
  have "local_report (concat (map (\<lambda>s. checkStepVariantShape s @ checkRefsResolve (indexSteps d) s
      @ checkBoundaryEvents (indexSteps d) s @ checkExpressions d s) (steps d)))"
    by (auto simp: local_shape local_refs local_boundary local_exprs)
  from with_code_graph [OF assms this] show ?thesis
    by (simp add: validate_def Let_def with_code_graph [OF assms] local_heads local_unique local_joins
        checkStepTypesValid_never)
qed

lemma reach_codes: "codes (checkReachability d (indexSteps d)) \<subseteq> {ALL_REACHABLE, END_REACHABLE}"
  by (auto simp: checkReachability_eq codes_def)

lemma nested_codes: "codes (checkNestedParallel d (indexSteps d)) \<subseteq> {NO_NESTED_PARALLEL}"
  by (auto simp: set_checkNestedParallel codes_def)

lemma cycle_codes: "codes (checkGraphCycle d index) \<subseteq> {GRAPH_CYCLE}"
  by (simp add: checkGraphCycle_def split: option.split list.split)

lemma validate_reach:
  "c \<in> {ALL_REACHABLE, END_REACHABLE} \<Longrightarrow>
   with_code c (validate d) = with_code c (checkReachability d (indexSteps d))"
  using nested_codes [of d] cycle_codes [of d "indexSteps d"]
  by (subst validate_graph_codes) (auto simp: graph_codes_def with_code_codes)

lemma validate_nested:
  "with_code NO_NESTED_PARALLEL (validate d) = checkNestedParallel d (indexSteps d)"
proof -
  have "with_code NO_NESTED_PARALLEL (checkNestedParallel d (indexSteps d)) = checkNestedParallel d (indexSteps d)"
    by (auto simp: with_code_def set_checkNestedParallel filter_id_conv)
  moreover have "with_code NO_NESTED_PARALLEL (checkReachability d (indexSteps d)) = []"
      "with_code NO_NESTED_PARALLEL (checkGraphCycle d (indexSteps d)) = []"
    using reach_codes [of d] cycle_codes [of d "indexSteps d"] by (auto simp: with_code_codes)
  ultimately show ?thesis
    by (subst validate_graph_codes) (simp_all add: graph_codes_def)
qed

lemma validate_cycle:
  "with_code GRAPH_CYCLE (validate d) = checkGraphCycle d (indexSteps d)"
proof -
  have "with_code GRAPH_CYCLE (checkGraphCycle d (indexSteps d)) = checkGraphCycle d (indexSteps d)"
    by (simp add: checkGraphCycle_def split: option.split list.split)
  moreover have "with_code GRAPH_CYCLE (checkReachability d (indexSteps d)) = []"
      "with_code GRAPH_CYCLE (checkNestedParallel d (indexSteps d)) = []"
    using reach_codes [of d] nested_codes [of d] by (auto simp: with_code_codes)
  ultimately show ?thesis
    by (subst validate_graph_codes) (simp_all add: graph_codes_def)
qed

text \<open>The graph of outgoing references between the step ids of a definition.\<close>

definition ref_graph :: "workflow_definition \<Rightarrow> (step_id \<times> step_id) set" where
  "ref_graph d = flow_edge (indexSteps d) (set (step_ids d))"

section \<open>Properties\<close>

text \<open>C1. The validator decides the specification: it reports no diagnostic of severity error if and
  only if the definition satisfies \<open>valid_definition\<close>.\<close>

theorem validate_spec: "errors (validate d) = [] \<longleftrightarrow> valid_definition d"
  by (rule valid_iff)

text \<open>C5. Reachability is exact: the validator reports ALL_REACHABLE for exactly the steps, in order,
  that no path of outgoing references from the entry step reaches, and END_REACHABLE exactly when a
  non-empty definition has no reachable END step.\<close>

theorem reachability_report:
  "map nodeId (with_code ALL_REACHABLE (validate d)) =
     map Some (filter (\<lambda>i. i \<notin> reached d) (step_ids d)) \<and>
   (with_code END_REACHABLE (validate d) = [] \<longleftrightarrow> steps d = [] \<or>
     (\<exists>i s. i \<in> reached d \<and> map_get (indexSteps d) i = Some s \<and> type_of s = END))"
proof -
  have a: "with_code ALL_REACHABLE (map (\<lambda>s. (diag ALL_REACHABLE Error)\<lparr>nodeId := Some (step_id s)\<rparr>) ss) =
      map (\<lambda>s. (diag ALL_REACHABLE Error)\<lparr>nodeId := Some (step_id s)\<rparr>) ss"
    "with_code END_REACHABLE (map (\<lambda>s. (diag ALL_REACHABLE Error)\<lparr>nodeId := Some (step_id s)\<rparr>) ss) = []" for ss
    by (induction ss) simp_all
  show ?thesis
    by (simp add: validate_reach checkReachability_eq a filter_map o_def)
qed

text \<open>C8. Cycle detection is exact: the search ends, and the validator warns of a cycle if and only if
  the graph of the steps' outgoing references has one; the node it names lies on a cycle.\<close>

theorem cycle_report:
  "findCycle d (indexSteps d) \<noteq> None \<and>
   (with_code GRAPH_CYCLE (validate d) = [] \<longleftrightarrow> acyclic (ref_graph d)) \<and>
   nodeId ` set (with_code GRAPH_CYCLE (validate d)) \<subseteq> Some ` {node. (node, node) \<in> (ref_graph d)\<^sup>+}"
proof -
  have "set (map_keys (indexSteps d)) \<subseteq> set (step_ids d)" by (simp add: indexSteps_keys)
  from findCycle_correct [OF this] show ?thesis
  proof cases
    case 1
    then show ?thesis by (simp add: validate_cycle checkGraphCycle_def ref_graph_def)
  next
    case (2 node rest)
    then show ?thesis by (auto simp: validate_cycle checkGraphCycle_def ref_graph_def acyclic_def)
  qed
qed

text \<open>Nesting is exact: NO_NESTED_PARALLEL is reported for a step if and only if it is a parallel
  gateway that some gateway's branches reach without entering that gateway's join step.\<close>

theorem nested_parallel_report:
  "nodeId ` set (with_code NO_NESTED_PARALLEL (validate d)) =
   Some ` {i. \<exists>c targets join p. ParallelGateway c targets join \<in> set (steps d) \<and>
      i \<in> branch_reached d targets join \<and> map_get (indexSteps d) i = Some p \<and> type_of p = PARALLEL_GATEWAY}"
  by (simp add: validate_nested set_checkNestedParallel image_image)

end
