(* ===== verification/Definition_Validity.thy ===== *)
theory Definition_Validity
  imports Validate_Spec
begin

text \<open>
  What the validator, the rename operation and the canvas graph guarantee together: a rename keeps a
  definition free of errors, and on such a definition the canvas shows the graph the validator
  searched.
\<close>

section \<open>Renaming keeps a definition valid\<close>

lemma outgoing_remap:
  assumes "a \<noteq> ''''" and "b \<noteq> ''''"
  shows "outgoingTargets (remapStep a b s) = map (remap a b) (outgoingTargets s)"
  using assms by (cases s) (auto simp: truthy_remap the_remap remap_def)

lemma boundaryEvents_remap:
  "supports_boundary s \<Longrightarrow>
   boundaryEvents (remapStep a b s) = withRemappedBoundary (remap a b) (boundaryEvents s)"
  by (cases s) (simp_all add: supports_boundary_def)

lemma supports_boundary_remap [simp]: "supports_boundary (remapStep a b s) = supports_boundary s"
  by (simp add: supports_boundary_def)

lemma allOutgoing_remap:
  assumes "a \<noteq> ''''" and "b \<noteq> ''''"
  shows "allOutgoing (remapStep a b s) = map (remap a b) (allOutgoing s)"
proof (cases "supports_boundary s")
  case True
  then show ?thesis
    using boundary_refs_remap [of "remap a b" "boundaryEvents s"]
    by (simp add: allOutgoing_def outgoing_remap [OF assms] boundaryEvents_remap boundary_refs_def)
qed (simp add: allOutgoing_def outgoing_remap [OF assms])

lemma extra_remap [simp]: "step_extra (remapStep a b s) = step_extra s" "step_name (remapStep a b s) = step_name s"
  by (cases s; simp add: remapBase_def)+

lemma shape_remap: "\<not> blank b \<Longrightarrow> shape_ok s \<Longrightarrow> shape_ok (remapStep a b s)"
  by (cases s) (auto simp: remap_def remapBase_def)

lemma exprs_remap: "exprs_ok s \<Longrightarrow> exprs_ok (remapStep a b s)"
  by (cases s) (force simp: map_keys_def)+

lemma boundary_remap: "boundary_ok s \<Longrightarrow> boundary_ok (remapStep a b s)"
  by (cases "boundaryEvents s")
    (auto simp: boundary_ok_def boundaryEvents_remap withRemappedBoundary_def split: if_splits)

lemma remapStep_Parallel:
  "remapStep a b s = ParallelGateway c' targets' join' \<Longrightarrow>
   \<exists>c targets join. s = ParallelGateway c targets join \<and> targets' = map (remap a b) targets \<and> join' = remap a b join"
  by (cases s) auto

lemma refs_remap:
  assumes "a \<noteq> ''''" "b \<noteq> ''''" "step_ids d' = map (remap a b) (step_ids d)" "refs_ok d s"
  shows "refs_ok d' (remapStep a b s)"
proof -
  have ids: "set (step_ids d') = remap a b ` set (step_ids d)" using assms(3) by (metis set_map)
  have "set (allOutgoing (remapStep a b s)) \<subseteq> remap a b ` set (step_ids d)"
    using assms(4) by (auto simp: refs_ok_def allOutgoing_remap [OF assms(1,2)])
  then show ?thesis
    using assms(4) unfolding refs_ok_def ids by (blast dest: remapStep_Parallel)
qed

text \<open>Paths under an injective renaming of the nodes.\<close>

lemma rtrancl_map_prod: "(x, y) \<in> R\<^sup>* \<Longrightarrow> (f x, f y) \<in> (map_prod f f ` R)\<^sup>*"
  by (induction rule: rtrancl_induct) (auto intro: rtrancl_into_rtrancl)

lemma rtrancl_map_prodD:
  assumes "(f x, z) \<in> (map_prod f f ` R)\<^sup>*" "inj_on f A" "R \<subseteq> A \<times> A" "x \<in> A"
  shows "\<exists>y. z = f y \<and> y \<in> A \<and> (x, y) \<in> R\<^sup>*"
  using assms(1)
proof (induction rule: rtrancl_induct)
  case (step u v)
  then obtain y where y: "u = f y" "y \<in> A" "(x, y) \<in> R\<^sup>*" by blast
  from step(2) obtain y' w where w: "u = f y'" "v = f w" "(y', w) \<in> R" by auto
  with y assms(2,3) have "y' = y" by (auto dest: inj_onD)
  with w y assms(3) show ?case by (auto intro: rtrancl_into_rtrancl)
qed (use assms(4) in blast)

lemma step_flow_remap:
  assumes "a \<noteq> ''''" "b \<noteq> ''''" "steps d' = map (remapStep a b) (steps d)"
  shows "step_flow d' = map_prod (remap a b) (remap a b) ` step_flow d"
  unfolding step_flow_def assms(3) using allOutgoing_remap [OF assms(1,2)] by force

lemma branch_flow_remap:
  assumes "a \<noteq> ''''" "b \<noteq> ''''" "steps d' = map (remapStep a b) (steps d)"
    "inj_on (remap a b) (set (step_ids d))" "join \<in> set (step_ids d)" "\<forall>s \<in> set (steps d). refs_ok d s"
  shows "branch_flow d' (remap a b join) = map_prod (remap a b) (remap a b) ` branch_flow d join"
proof -
  have "t \<in> set (step_ids d)" if "s \<in> set (steps d)" "t \<in> set (outgoingTargets s)" for s t
    using assms(6) that by (auto simp: refs_ok_def allOutgoing_events)
  then have "remap a b t \<noteq> remap a b join \<longleftrightarrow> t \<noteq> join" if "s \<in> set (steps d)" "t \<in> set (outgoingTargets s)" for s t
    using assms(4,5) that by (metis inj_onD)
  then show ?thesis
    unfolding branch_flow_def assms(3) using outgoing_remap [OF assms(1,2)] by force
qed

lemma no_nesting_remap:
  assumes "a \<noteq> ''''" "b \<noteq> ''''" "steps d' = map (remapStep a b) (steps d)"
    "inj_on (remap a b) (set (step_ids d))" "\<forall>s \<in> set (steps d). refs_ok d s" "no_nesting d"
  shows "no_nesting d'"
  unfolding no_nesting_def
proof (intro allI impI notI; elim conjE)
  fix c' targets' join' t' p'
  assume g: "ParallelGateway c' targets' join' \<in> set (steps d')" and t': "t' \<in> set targets'" "t' \<noteq> join'"
    and p': "p' \<in> set (steps d')" "type_of p' = PARALLEL_GATEWAY" and path: "(t', step_id p') \<in> (branch_flow d' join')\<^sup>*"
  from g assms(3) obtain s where s: "s \<in> set (steps d)" "remapStep a b s = ParallelGateway c' targets' join'" by auto
  then obtain c targets join where pg: "s = ParallelGateway c targets join" "targets' = map (remap a b) targets"
      "join' = remap a b join" by (blast dest: remapStep_Parallel)
  from t' pg obtain t where t: "t \<in> set targets" "t' = remap a b t" "t \<noteq> join" by auto
  from p' assms(3) obtain p where p: "p \<in> set (steps d)" "p' = remapStep a b p" by auto
  have ids: "join \<in> set (step_ids d)" "t \<in> set (step_ids d)"
    using assms(5) s(1) pg t(1) by (force simp: refs_ok_def allOutgoing_events)+
  have sub: "branch_flow d join \<subseteq> set (step_ids d) \<times> set (step_ids d)"
    using assms(5) by (fastforce simp: branch_flow_def refs_ok_def allOutgoing_events)
  have "branch_flow d' join' = map_prod (remap a b) (remap a b) ` branch_flow d join"
    unfolding pg(3) using assms ids by (intro branch_flow_remap)
  with path t have "(remap a b t, remap a b (step_id p)) \<in> (map_prod (remap a b) (remap a b) ` branch_flow d join)\<^sup>*"
    by (simp add: p(2))
  from rtrancl_map_prodD [OF this assms(4) sub ids(2)] obtain y where
      y: "remap a b (step_id p) = remap a b y" "y \<in> set (step_ids d)" "(t, y) \<in> (branch_flow d join)\<^sup>*" by blast
  then have "step_id p = y" using assms(4) p(1) by (auto dest: inj_onD)
  moreover have "type_of p = PARALLEL_GATEWAY" using p(2) p'(2) by simp
  ultimately show False
    using y(3) assms(6) s(1) t(1,3) p(1) unfolding no_nesting_def pg(1) by blast
qed

lemma joins_remap:
  assumes "steps d' = map (remapStep a b) (steps d)" "inj_on (remap a b) (set (step_ids d))"
    "\<forall>s \<in> set (steps d). refs_ok d s" "joins_ok d"
  shows "joins_ok d'"
  unfolding joins_ok_def
proof (intro allI impI; elim conjE)
  fix c' targets' join' j'
  assume g: "ParallelGateway c' targets' join' \<in> set (steps d')" and j': "j' \<in> set (steps d')" "step_id j' = join'"
  from g assms(1) obtain s where s: "s \<in> set (steps d)" "remapStep a b s = ParallelGateway c' targets' join'" by auto
  then obtain c targets join where pg: "s = ParallelGateway c targets join" "join' = remap a b join" by (blast dest: remapStep_Parallel)
  from j' assms(1) obtain j where j: "j \<in> set (steps d)" "j' = remapStep a b j" by auto
  have "join \<in> set (step_ids d)" using assms(3) s(1) pg by (auto simp: refs_ok_def)
  then have "step_id j = join" using assms(2) j j'(2) pg by (auto dest: inj_onD)
  with assms(4) s pg j show "type_of j' = JOIN_GATEWAY" by (auto simp: joins_ok_def)
qed

lemma valid_remap:
  assumes v: "valid_definition d" and a: "a \<noteq> ''''" and b: "\<not> blank b" "b \<notin> set (step_ids d)"
    and d': "d' = d\<lparr>steps := map (remapStep a b) (steps d)\<rparr>"
  shows "valid_definition d'"
proof -
  have nb: "b \<noteq> ''''" using b(1) by auto
  have st: "steps d' = map (remapStep a b) (steps d)" by (simp add: d')
  have ids: "step_ids d' = map (remap a b) (step_ids d)" by (simp add: st)
  have inj: "inj_on (remap a b) (set (step_ids d))" using b(2) by (rule inj_on_remap)
  have refs: "\<forall>s \<in> set (steps d). refs_ok d s" and ne: "steps d \<noteq> []" using v by (auto simp: valid_definition_def)
  have "distinct (step_ids d)" using v by (simp add: valid_definition_def)
  with inj have "distinct (step_ids d')" unfolding ids by (metis distinct_map)
  moreover have "\<forall>s \<in> set (steps d'). \<not> blank (step_id s) \<and> \<not> blank (step_name s) \<and> shape_ok s \<and> refs_ok d' s \<and>
      boundary_ok s \<and> exprs_ok s"
    using v b(1) shape_remap [OF b(1)] refs_remap [OF a nb ids] boundary_remap exprs_remap
    by (auto simp: st valid_definition_def remap_def)
  moreover have "joins_ok d'" "no_nesting d'"
    using v by (auto intro: joins_remap [OF st inj refs] no_nesting_remap [OF a nb st inj refs] simp: valid_definition_def)
  moreover have "\<forall>s \<in> set (steps d'). (step_id (hd (steps d')), step_id s) \<in> (step_flow d')\<^sup>*"
    using v ne rtrancl_map_prod [where f = "remap a b"]
    by (auto simp: valid_definition_def st step_flow_remap [OF a nb st] hd_map)
  moreover have "\<exists>s \<in> set (steps d'). type_of s = END" using v by (auto simp: valid_definition_def st)
  moreover have "next_workflow_ok d'" using v by (simp add: valid_definition_def next_workflow_ok_def d')
  ultimately show ?thesis using v ne by (simp add: valid_definition_def d')
qed

section \<open>Properties\<close>

text \<open>C33. Renaming a step of a definition without errors to an id that is not blank gives a definition
  without errors: no reference dangles, everything stays reachable, joins keep matching and no
  gateway becomes nested.\<close>

theorem rename_keeps_valid:
  assumes "errors (validate d) = []" and "oldId \<in> set (step_ids d)" and "\<not> blank newId"
    and "renameStepId d oldId newId = Inr d'"
  shows "errors (validate d') = []"
proof (cases "oldId = newId")
  case False
  have v: "valid_definition d" using assms(1) by (simp add: valid_iff)
  with assms(2) have "oldId \<noteq> ''''" by (auto simp: valid_definition_def)
  then show ?thesis
    using valid_remap [OF v] assms(3,4) False by (simp add: valid_iff renameStepId_Inr_iff)
qed (use assms in \<open>simp add: renameStepId_def\<close>)

lemma sample_flow_valid:
  assumes "\<not> blank i" "\<not> blank j" "i \<noteq> j"
  shows "valid_definition (sample_flow i j)"
proof -
  let ?d = "sample_flow i j"
  let ?s = "Wait \<lparr>c_id = i, c_name = ''A'', c_description = None, c_extra = []\<rparr> j None"
  let ?e = "End \<lparr>c_id = j, c_name = ''B'', c_description = None, c_extra = []\<rparr>"
  have st: "steps ?d = [?s, ?e]" by (simp add: sample_flow_def)
  have out: "allOutgoing ?s = [j]" "allOutgoing ?e = []" by (simp_all add: allOutgoing_def supports_boundary_def)
  have "(i, j) \<in> step_flow ?d" unfolding step_flow_def st using out by force
  then have flow: "(i, j) \<in> (step_flow ?d)\<^sup>*" by (rule r_into_rtrancl)
  have names: "\<not> blank ''A''" "\<not> blank ''B''" "\<not> blank ''W''" by (simp_all add: blank_def trim_def js_space_def)
  have one: "\<not> blank (step_id s) \<and> \<not> blank (step_name s) \<and> shape_ok s \<and> refs_ok ?d s \<and> boundary_ok s \<and> exprs_ok s"
    if "s \<in> set (steps ?d)" for s
    using that assms names out by (auto simp: st refs_ok_def boundary_ok_def supports_boundary_def)
  have head: "ID_PATTERN (def_id ?d)" "length (def_id ?d) \<le> 256" "\<not> blank (def_name ?d)" "next_workflow_ok ?d"
    using names by (simp_all add: sample_flow_def ID_PATTERN_def id_char_def is_alpha_def next_workflow_ok_def)
  have tail: "joins_ok ?d" "no_nesting ?d" by (simp_all add: joins_ok_def no_nesting_def st)
  show ?thesis
    unfolding valid_definition_def using head tail one flow assms by (simp add: st)
qed

theorem rename_keeps_valid_witness: "errors (validate (sample_flow ''x'' ''b'')) = []"
proof (rule rename_keeps_valid)
  have b: "\<not> blank ''a''" "\<not> blank ''b''" "\<not> blank ''x''" by (simp_all add: blank_def trim_def js_space_def)
  then show "errors (validate (sample_flow ''a'' ''b'')) = []" "\<not> blank ''x''"
    by (simp_all add: valid_iff sample_flow_valid)
  show "''a'' \<in> set (step_ids (sample_flow ''a'' ''b''))" by (simp add: sample_flow_def)
  show "renameStepId (sample_flow ''a'' ''b'') ''a'' ''x'' = Inr (sample_flow ''x'' ''b'')"
    by (simp add: sample_flow_def renameStepId_def withRemappedBoundary_def remapBase_def)
qed

section \<open>The canvas draws the graph the validator checks\<close>

lemma map_indexed_snd [simp]: "map (\<lambda>p. f (snd p)) (indexed xs) = map f xs"
  using map_map [of f snd "indexed xs"] by (simp add: o_def)

lemma boundary_edges_to: "map e_to (pushBoundaryEdges i ev) = boundary_refs ev"
  by (cases ev) (simp_all add: pushBoundaryEdges_def boundary_refs_def split_def o_def)

lemma canvas_step_edges:
  "(\<forall>c hp tbl. s \<noteq> DecisionTable c hp '''' tbl) \<Longrightarrow> map e_to (pushStepEdges s) = allOutgoing s"
proof (cases s)
  case (DecisionTable c hp nx tbl)
  then show "(\<forall>c hp tbl. s \<noteq> DecisionTable c hp '''' tbl) \<Longrightarrow> ?thesis"
    by (auto simp: allOutgoing_def supports_boundary_def)
qed (auto simp: allOutgoing_def supports_boundary_def boundary_edges_to split_def o_def boundary_refs_def)

text \<open>On a definition without errors the edges the canvas draws and the step graph the validator
  searches are the same: an edge leads from one step id to another exactly when the first step refers
  to the second, and both ends of every edge are steps.\<close>

theorem canvas_shows_step_graph:
  assumes "errors (validate d) = []"
  shows "(\<lambda>e. (e_from e, e_to e)) ` set (toEdges d) = step_flow d \<and>
    step_flow d \<subseteq> set (step_ids d) \<times> set (step_ids d)"
proof -
  have v: "valid_definition d" using assms by (simp add: valid_iff)
  have ok: "map e_to (pushStepEdges s) = allOutgoing s" if "s \<in> set (steps d)" for s
  proof (rule canvas_step_edges)
    have "shape_ok s" using v that by (simp add: valid_definition_def)
    then show "\<forall>c hp tbl. s \<noteq> DecisionTable c hp '''' tbl" by auto
  qed
  have "(\<lambda>e. (e_from e, e_to e)) ` set (pushStepEdges s) = {step_id s} \<times> set (allOutgoing s)"
    if "s \<in> set (steps d)" for s
  proof -
    have "set (allOutgoing s) = e_to ` set (pushStepEdges s)" by (metis ok that set_map)
    moreover have "(\<lambda>e. (e_from e, e_to e)) ` set (pushStepEdges s) = (\<lambda>e. (step_id s, e_to e)) ` set (pushStepEdges s)"
      by (rule image_cong) (simp_all add: pushStepEdges_from)
    ultimately show ?thesis by auto
  qed
  then have "(\<lambda>e. (e_from e, e_to e)) ` set (toEdges d) = step_flow d"
    by (auto simp: toEdges_def step_flow_def image_UN)
  moreover have "step_flow d \<subseteq> set (step_ids d) \<times> set (step_ids d)"
    using v by (force simp: valid_definition_def step_flow_def refs_ok_def)
  ultimately show ?thesis by blast
qed

theorem canvas_shows_step_graph_witness:
  "(\<lambda>e. (e_from e, e_to e)) ` set (toEdges (sample_flow ''a'' ''b'')) = step_flow (sample_flow ''a'' ''b'')"
proof -
  have b: "\<not> blank ''a''" "\<not> blank ''b''" by (simp_all add: blank_def trim_def js_space_def)
  have "errors (validate (sample_flow ''a'' ''b'')) = []" using b by (simp add: valid_iff sample_flow_valid)
  from canvas_shows_step_graph [OF this] show ?thesis by blast
qed

end
