(* ===== verification/Duration.thy ===== *)
theory Duration
  imports Validate
begin

text \<open>
  The pattern \<^verbatim>\<open>ISO_DURATION_PATTERN\<close> of \<^verbatim>\<open>validate.ts\<close> against a declarative grammar of durations.
\<close>

section \<open>The duration grammar\<close>

text \<open>The declarative reading of the pattern: a component is empty or a numeral with its letter.\<close>

definition component :: "char \<Rightarrow> string \<Rightarrow> bool" where
  "component x c \<longleftrightarrow> c = '''' \<or> (\<exists>n. is_numeral n \<and> c = n @ [x])"

definition seconds :: "string \<Rightarrow> bool" where
  "seconds c \<longleftrightarrow> component CHR ''S'' c \<or> (\<exists>n m. is_numeral n \<and> is_numeral m \<and> c = n @ ''.'' @ m @ ''S'')"

definition time_part :: "string \<Rightarrow> bool" where
  "time_part t \<longleftrightarrow> t = '''' \<or> (\<exists>h m s. component CHR ''H'' h \<and> component CHR ''M'' m \<and> seconds s \<and>
     h @ m @ s \<noteq> '''' \<and> t = ''T'' @ h @ m @ s)"

definition iso_duration :: "string \<Rightarrow> bool" where
  "iso_duration s \<longleftrightarrow> (\<exists>y mo w d t. component CHR ''Y'' y \<and> component CHR ''M'' mo \<and> component CHR ''W'' w \<and>
     component CHR ''D'' d \<and> time_part t \<and> y @ mo @ w @ d @ t \<noteq> '''' \<and> s = ''P'' @ y @ mo @ w @ d @ t)"

lemma opt_component_split: "\<exists>c. component x c \<and> s = c @ opt_component x s"
proof (cases "opt_component x s = s")
  case True
  then show ?thesis by (intro exI [of _ "[]"]) (simp add: component_def)
next
  case False
  then obtain r where r: "dropWhile is_digit s = x # r" "takeWhile is_digit s \<noteq> ''''" "opt_component x s = r"
    by (auto simp: opt_component_def split: list.splits if_splits)
  have "is_numeral (takeWhile is_digit s)" using r(2) by (simp add: is_numeral_def takeWhile_all_id)
  then have "component x (takeWhile is_digit s @ [x])" by (auto simp: component_def)
  moreover have "s = (takeWhile is_digit s @ [x]) @ r"
    using takeWhile_dropWhile_id [of is_digit s] r(1) by simp
  ultimately show ?thesis using r(3) by metis
qed

text \<open>What a component leaves alone: a rest that does not begin with digits followed by its letter.\<close>

definition passes :: "char \<Rightarrow> string \<Rightarrow> bool" where
  "passes x r \<longleftrightarrow> takeWhile is_digit r = '''' \<or> (\<forall>u. dropWhile is_digit r \<noteq> x # u)"

lemma opt_component_pass: "passes x r \<Longrightarrow> opt_component x r = r"
  by (auto simp: opt_component_def passes_def split: list.split)

lemma opt_component_hit:
  assumes "component x c" "passes x r" "\<not> is_digit x"
  shows "opt_component x (c @ r) = r"
  using assms(1) unfolding component_def
proof
  assume "\<exists>n. is_numeral n \<and> c = n @ [x]"
  then obtain n where "n \<noteq> ''''" "list_all is_digit n" "c = n @ [x]" by (auto simp: is_numeral_def)
  with assms(3) show ?thesis by (auto simp: opt_component_def takeWhile_all dropWhile_all)
qed (simp add: opt_component_pass assms(2))

lemma passes_component:
  "component y c \<Longrightarrow> y \<noteq> x \<Longrightarrow> \<not> is_digit y \<Longrightarrow> passes x r \<Longrightarrow> passes x (c @ r)"
  by (auto simp: component_def is_numeral_def passes_def takeWhile_all dropWhile_all)

lemma passes_end: "passes x ''''" "\<not> is_digit t \<Longrightarrow> passes x (t # r)"
  by (simp_all add: passes_def)

lemma passes_seconds: "seconds c \<Longrightarrow> x \<notin> {CHR ''S'', CHR ''.''} \<Longrightarrow> passes x c"
  by (auto simp: seconds_def component_def is_numeral_def passes_def takeWhile_all dropWhile_all is_digit_def)

lemma is_numeral_takeWhile: "takeWhile is_digit s \<noteq> '''' \<Longrightarrow> is_numeral (takeWhile is_digit s)"
  by (simp add: is_numeral_def takeWhile_all_id)

lemma seconds_of_opt:
  assumes "opt_seconds s = ''''" shows "seconds s"
proof (cases "s = ''''")
  case False
  let ?n = "takeWhile is_digit s"
  from assms False obtain c r where cr: "dropWhile is_digit s = c # r" "?n \<noteq> ''''"
    and body: "(if c = CHR ''.'' then (case dropWhile is_digit r of
                  c' # r' \<Rightarrow> if takeWhile is_digit r \<noteq> '''' \<and> c' = CHR ''S'' then r' else s
                | [] \<Rightarrow> s) else if c = CHR ''S'' then r else s) = ''''"
    by (auto simp: opt_seconds_def split: list.splits if_splits)
  have s: "s = ?n @ c # r" using takeWhile_dropWhile_id [of is_digit s] cr(1) by simp
  show ?thesis
  proof (cases "c = CHR ''.''")
    case True
    with body False have "dropWhile is_digit r = ''S''" "takeWhile is_digit r \<noteq> ''''"
      by (auto split: list.splits if_splits)
    then have "r = takeWhile is_digit r @ ''S''" "is_numeral (takeWhile is_digit r)"
      using takeWhile_dropWhile_id [of is_digit r] is_numeral_takeWhile by simp_all
    moreover have "s = ?n @ ''.'' @ takeWhile is_digit r @ ''S''" using s True calculation(1) by simp
    ultimately show ?thesis using is_numeral_takeWhile [OF cr(2)] unfolding seconds_def by blast
  next
    case ne: False
    with body False have "c = CHR ''S''" "r = ''''" by (auto split: if_splits)
    with s have "s = ?n @ [CHR ''S'']" by simp
    with is_numeral_takeWhile [OF cr(2)] show ?thesis unfolding seconds_def component_def by blast
  qed
qed (simp add: seconds_def component_def)

lemma opt_of_seconds: "seconds s \<Longrightarrow> opt_seconds s = ''''"
  by (auto simp: seconds_def component_def is_numeral_def opt_seconds_def takeWhile_all dropWhile_all is_digit_def)

lemma component_first:
  "component x c \<Longrightarrow> c @ r \<noteq> '''' \<Longrightarrow> c = '''' \<or> is_digit (hd (c @ r))"
  by (auto simp: component_def numeral_Cons)

lemma seconds_first: "seconds c \<Longrightarrow> c \<noteq> '''' \<Longrightarrow> is_digit (hd c)"
  by (auto simp: seconds_def component_def numeral_Cons)

lemma letters: "\<not> is_digit CHR ''Y''" "\<not> is_digit CHR ''M''" "\<not> is_digit CHR ''W''" "\<not> is_digit CHR ''D''"
  "\<not> is_digit CHR ''H''" "\<not> is_digit CHR ''T''"
  by (simp_all add: is_digit_def)

lemma time_match:
  "time \<noteq> '''' \<and> is_digit (hd time) \<and> opt_seconds (opt_component CHR ''M'' (opt_component CHR ''H'' time)) = ''''
   \<longleftrightarrow> time_part (CHR ''T'' # time)" (is "?L \<longleftrightarrow> ?R")
proof
  assume L: ?L
  obtain h where h: "component CHR ''H'' h" "time = h @ opt_component CHR ''H'' time"
    using opt_component_split by blast
  obtain m where m: "component CHR ''M'' m" "opt_component CHR ''H'' time = m @ opt_component CHR ''M'' (opt_component CHR ''H'' time)"
    using opt_component_split by blast
  have "seconds (opt_component CHR ''M'' (opt_component CHR ''H'' time))" using L seconds_of_opt by blast
  moreover have "time = h @ m @ opt_component CHR ''M'' (opt_component CHR ''H'' time)" using h m by metis
  moreover from this have "h @ m @ opt_component CHR ''M'' (opt_component CHR ''H'' time) \<noteq> ''''" using L by simp
  ultimately show ?R using h(1) m(1) unfolding time_part_def by (metis append_Cons append_Nil)
next
  assume ?R
  then obtain h m s where t: "component CHR ''H'' h" "component CHR ''M'' m" "seconds s" "h @ m @ s \<noteq> ''''" "time = h @ m @ s"
    by (auto simp: time_part_def)
  have "opt_component CHR ''H'' time = m @ s"
    unfolding t(5) using t(3) letters
    by (intro opt_component_hit [OF t(1)] passes_component [OF t(2)] passes_seconds) auto
  moreover have "opt_component CHR ''M'' (m @ s) = s"
    using t letters by (intro opt_component_hit passes_seconds) auto
  moreover have "is_digit (hd time)"
    using component_first [OF t(1), of "m @ s"] component_first [OF t(2), of s] seconds_first [OF t(3)] t(4,5)
    by (cases "h = ''''"; cases "m = ''''") auto
  ultimately show ?L using t(4,5) opt_of_seconds [OF t(3)] by simp
qed

lemma passes_time: "time_part t \<Longrightarrow> passes x t"
  using letters by (auto simp: time_part_def intro: passes_end)

lemma iso_of_pattern:
  assumes "ISO_DURATION_PATTERN s" shows "iso_duration s"
proof -
  from assms obtain body where s: "s = CHR ''P'' # body" "body \<noteq> ''''"
    by (auto simp: ISO_DURATION_PATTERN_def split: list.splits)
  obtain y where y: "component CHR ''Y'' y" "body = y @ opt_component CHR ''Y'' body"
    using opt_component_split by blast
  let ?b1 = "opt_component CHR ''Y'' body"
  obtain mo where mo: "component CHR ''M'' mo" "?b1 = mo @ opt_component CHR ''M'' ?b1"
    using opt_component_split by blast
  let ?b2 = "opt_component CHR ''M'' ?b1"
  obtain w where w: "component CHR ''W'' w" "?b2 = w @ opt_component CHR ''W'' ?b2"
    using opt_component_split by blast
  let ?b3 = "opt_component CHR ''W'' ?b2"
  obtain d where d: "component CHR ''D'' d" "?b3 = d @ opt_component CHR ''D'' ?b3"
    using opt_component_split by blast
  let ?t = "opt_component CHR ''D'' ?b3"
  have "time_part ?t"
  proof (cases ?t)
    case (Cons t time)
    with assms s have "t = CHR ''T''" "time \<noteq> '''' \<and> is_digit (hd time) \<and>
        opt_seconds (opt_component CHR ''M'' (opt_component CHR ''H'' time)) = ''''"
      by (simp_all add: ISO_DURATION_PATTERN_def Let_def)
    with Cons time_match show ?thesis by simp
  qed (simp add: time_part_def)
  moreover have "body = y @ mo @ w @ d @ ?t" using y(2) mo(2) w(2) d(2) by metis
  ultimately show ?thesis
    unfolding iso_duration_def using s y(1) mo(1) w(1) d(1) by (metis append_Cons append_Nil)
qed

lemma pattern_of_iso:
  assumes "iso_duration s" shows "ISO_DURATION_PATTERN s"
proof -
  from assms obtain y mo w d t where c: "component CHR ''Y'' y" "component CHR ''M'' mo" "component CHR ''W'' w"
     "component CHR ''D'' d" "time_part t" "y @ mo @ w @ d @ t \<noteq> ''''" "s = ''P'' @ y @ mo @ w @ d @ t"
    by (auto simp: iso_duration_def)
  note p = passes_component [OF c(2)] passes_component [OF c(3)] passes_component [OF c(4)] passes_time [OF c(5)]
  have "opt_component CHR ''Y'' (y @ mo @ w @ d @ t) = mo @ w @ d @ t"
    by (intro opt_component_hit [OF c(1)] p) (simp_all add: letters)
  moreover have "opt_component CHR ''M'' (mo @ w @ d @ t) = w @ d @ t"
    by (intro opt_component_hit [OF c(2)] p(2-4)) (simp_all add: letters)
  moreover have "opt_component CHR ''W'' (w @ d @ t) = d @ t"
    by (intro opt_component_hit [OF c(3)] p(3,4)) (simp_all add: letters)
  moreover have "opt_component CHR ''D'' (d @ t) = t"
    by (intro opt_component_hit [OF c(4)] p(4)) (simp_all add: letters)
  ultimately have date: "opt_component CHR ''D'' (opt_component CHR ''W'' (opt_component CHR ''M''
      (opt_component CHR ''Y'' (y @ mo @ w @ d @ t)))) = t" by simp
  have s: "s = CHR ''P'' # (y @ mo @ w @ d @ t)" using c(7) by simp
  show ?thesis
  proof (cases "t = ''''")
    case True
    with date c(6) show ?thesis unfolding s ISO_DURATION_PATTERN_def by (simp del: append_is_Nil_conv)
  next
    case False
    with c(5) obtain tm where tm: "t = CHR ''T'' # tm" by (auto simp: time_part_def)
    with c(5) have "tm \<noteq> '''' \<and> is_digit (hd tm) \<and> opt_seconds (opt_component CHR ''M'' (opt_component CHR ''H'' tm)) = ''''"
      by (simp add: time_match)
    then show ?thesis unfolding s ISO_DURATION_PATTERN_def Let_def list.case date using tm c(6) by simp
  qed
qed

text \<open>The duration pattern accepts exactly the ISO-8601 durations of the contract: a \<^verbatim>\<open>P\<close>, then
  optional years, months, weeks and days, then optionally \<^verbatim>\<open>T\<close> with at least one of hours, minutes
  and seconds (which may have a fraction), and not \<^verbatim>\<open>P\<close> alone.\<close>

theorem duration_pattern_grammar: "ISO_DURATION_PATTERN s \<longleftrightarrow> iso_duration s"
  using iso_of_pattern pattern_of_iso by blast

end
