(* ===== verification/Import_Export.thy ===== *)
theory Import_Export
  imports Definition_Validity
begin

text \<open>
  \<^verbatim>\<open>workflow-modeller/src/io/export.ts\<close>, \<^verbatim>\<open>io/import.ts\<close> and \<^verbatim>\<open>extractEmbeddedModeller\<close> of
  \<^verbatim>\<open>store/workflowStore.ts\<close>: the layout that travels inside \<^verbatim>\<open>metadata.workflowModeller\<close>, and the
  import of a JSON text. \<^verbatim>\<open>JSON.parse\<close>, \<^verbatim>\<open>JSON.stringify\<close> and the schema's \<^verbatim>\<open>safeParse\<close> (of the package
  zod) are arguments.
\<close>

section \<open>JSON values as JavaScript sees them\<close>

text \<open>\<^verbatim>\<open>v.k\<close> on a JSON value, for a key that is no built-in property; \<^verbatim>\<open>Object.entries(v)\<close> of an
  object or array; the entries a spread \<^verbatim>\<open>...v\<close> contributes, where the characters of a string count
  too.\<close>

definition json_prop :: "json \<Rightarrow> string \<Rightarrow> json option" where
  "json_prop v k = (case v of JObj kvs \<Rightarrow> map_get kvs k | _ \<Rightarrow> None)"

fun json_entries :: "json \<Rightarrow> fields" where
  "json_entries (JObj kvs) = kvs"
| "json_entries (JArr xs) = map (\<lambda>(i, x). (nat_str i, x)) (indexed xs)"
| "json_entries _ = []"

fun json_spread :: "json \<Rightarrow> fields" where
  "json_spread (JStr s) = map (\<lambda>(i, c). (nat_str i, JStr [c])) (indexed s)"
| "json_spread v = json_entries v"

text \<open>\<^verbatim>\<open>v && typeof v === 'object'\<close>: objects and arrays, not \<^verbatim>\<open>null\<close>.\<close>

fun is_object :: "json \<Rightarrow> bool" where
  "is_object (JObj _) = True"
| "is_object (JArr _) = True"
| "is_object _ = False"

section \<open>Layout\<close>

record position =
  pos_x :: rat
  pos_y :: rat

type_synonym layout = "(step_id, position) omap"
type_synonym edge_handles = fields

definition position_json :: "position \<Rightarrow> json" where
  "position_json p = JObj [(''x'', JNum (pos_x p)), (''y'', JNum (pos_y p))]"

definition layout_json :: "layout \<Rightarrow> json" where
  "layout_json l = JObj (map (\<lambda>(i, p). (i, position_json p)) l)"

definition embedLayout ::
  "workflow_definition \<Rightarrow> layout \<Rightarrow> edge_handles option \<Rightarrow> workflow_definition" where
  "embedLayout d layout edgeHandles =
     (let meta = (case metadata d of None \<Rightarrow> [] | Some m \<Rightarrow> m);
          wm = (case map_get meta ''workflowModeller'' of None \<Rightarrow> JObj [] | Some JNull \<Rightarrow> JObj [] | Some v \<Rightarrow> v);
          wmData = map_set ''layout'' (layout_json layout) (json_spread wm);
          wmData' = (case edgeHandles of
                       Some h \<Rightarrow> if map_keys h \<noteq> [] then map_set ''edgeHandles'' (JObj h) wmData else wmData
                     | None \<Rightarrow> wmData)
      in d\<lparr>metadata := Some (map_set ''workflowModeller'' (JObj wmData') meta)\<rparr>)"

record export_options =
  includeLayout :: bool
  opt_layout :: "layout option"
  opt_edgeHandles :: "edge_handles option"
  pretty :: "bool option"

definition exportJson ::
  "(workflow_definition \<Rightarrow> nat option \<Rightarrow> string) \<Rightarrow> workflow_definition \<Rightarrow> export_options \<Rightarrow> string" where
  "exportJson stringify d opts =
     (let final = (case opt_layout opts of
                     Some l \<Rightarrow> if includeLayout opts then embedLayout d l (opt_edgeHandles opts) else d
                   | None \<Rightarrow> d)
      in stringify final (if pretty opts = Some False then None else Some 2))"

text \<open>One entry of the raw layout; \<open>None\<close> when it has no numeric \<^verbatim>\<open>x\<close> and \<^verbatim>\<open>y\<close>.\<close>

definition read_position :: "json \<Rightarrow> position option" where
  "read_position pos =
     (if is_object pos
      then (case (json_prop pos ''x'', json_prop pos ''y'') of
              (Some (JNum x), Some (JNum y)) \<Rightarrow> Some \<lparr>pos_x = x, pos_y = y\<rparr>
            | _ \<Rightarrow> None)
      else None)"

definition read_layout :: "fields \<Rightarrow> layout" where
  "read_layout entries =
     fold (\<lambda>(i, pos) l. case read_position pos of None \<Rightarrow> l | Some p \<Rightarrow> map_set i p l) entries []"

definition extractEmbeddedModeller :: "workflow_definition \<Rightarrow> layout \<times> edge_handles" where
  "extractEmbeddedModeller d =
     (let wm = Option.bind (metadata d) (\<lambda>m. map_get m ''workflowModeller'');
          rawLayout = Option.bind wm (\<lambda>v. json_prop v ''layout'');
          rawHandles = Option.bind wm (\<lambda>v. json_prop v ''edgeHandles'')
      in (case rawLayout of Some v \<Rightarrow> if is_object v then read_layout (json_entries v) else [] | None \<Rightarrow> [],
          case rawHandles of Some v \<Rightarrow> if is_object v then json_spread v else [] | None \<Rightarrow> []))"

section \<open>Import\<close>

datatype import_result =
    ImportOk workflow_definition "string list"
  | ImportErr "string list"

text \<open>The text of the warnings; \<open>quote\<close> is the double quote.\<close>

abbreviation quote :: "string" where
  "quote \<equiv> [CHR 0x22]"

definition collectUnknownFieldWarnings :: "workflow_definition \<Rightarrow> string list" where
  "collectUnknownFieldWarnings d =
     (let rootExtras = filter (\<lambda>k. k \<notin> set KNOWN_ROOT_KEYS) (root_keys d)
      in (if length rootExtras > 0
          then [''Unknown top-level field(s): '' @ join_with '', '' rootExtras] else [])
         @ concat (map (\<lambda>s.
             let extras = filter (\<lambda>k. k \<notin> set (KNOWN_STEP_KEYS (type_of s))) (step_keys s)
             in if length extras > 0
                then [''Step '' @ quote @ step_id s @ quote @ '' has unknown field(s): ''
                        @ join_with '', '' extras]
                else []) (steps d)))"

text \<open>\<open>jsonParse\<close> gives the value or the message of the thrown error; \<open>safeParse\<close> the data or the
  issues, each with its path and message.\<close>

definition importJson ::
  "(string \<Rightarrow> string + json) \<Rightarrow> (json \<Rightarrow> (string list \<times> string) list + workflow_definition) \<Rightarrow>
   string \<Rightarrow> import_result" where
  "importJson jsonParse safeParse src =
     (case jsonParse src of
        Inl msg \<Rightarrow> ImportErr [''Invalid JSON: '' @ msg]
      | Inr raw \<Rightarrow>
          (case safeParse raw of
             Inl issues \<Rightarrow>
               ImportErr (map (\<lambda>(path, msg).
                 (if join_with ''.'' path = '''' then ''<root>'' else join_with ''.'' path) @ '': '' @ msg) issues)
           | Inr d \<Rightarrow> ImportOk d (collectUnknownFieldWarnings d)))"

section \<open>Lemmas\<close>

lemma read_position_json [simp]: "read_position (position_json p) = Some p"
  by (simp add: read_position_def position_json_def json_prop_def)

lemma map_set_new: "k \<notin> set (map_keys m) \<Longrightarrow> map_set k v m = m @ [(k, v)]"
  by (induction m) (auto simp: map_set_def map_keys_def)

lemma read_layout_json:
  assumes "distinct (map_keys l)"
  shows "read_layout (map (\<lambda>(i, p). (i, position_json p)) l) = l"
  using assms
proof (induction l rule: rev_induct)
  case (snoc e l)
  obtain i p where "e = (i, p)" by (cases e)
  with snoc show ?case
    by (simp add: read_layout_def map_keys_def map_set_new)
qed (simp add: read_layout_def)

lemma unknown_keys_root: "filter (\<lambda>k. k \<notin> set KNOWN_ROOT_KEYS) (root_keys d) =
    filter (\<lambda>k. k \<notin> set KNOWN_ROOT_KEYS) (map_keys (def_extra d))"
  by (simp add: root_keys_def opt_key_def KNOWN_ROOT_KEYS_def split: option.split)

lemma unknown_keys_step:
  "filter (\<lambda>k. k \<notin> set (KNOWN_STEP_KEYS (type_of s))) (step_keys s) =
   filter (\<lambda>k. k \<notin> set (KNOWN_STEP_KEYS (type_of s))) (map_keys (step_extra s))"
  by (cases s) (simp_all add: common_keys_def opt_key_def split: option.split)

lemma length_concat_single: "length (concat (map (\<lambda>x. if P x then [f x] else []) xs)) = length (filter P xs)"
  by (induction xs) auto

lemma map_get_numbered:
  assumes "\<not> list_all is_digit k"
  shows "map_get (map (\<lambda>(i, x). (nat_str i, f x)) (indexed xs)) k = None"
proof -
  have "k \<notin> set (map_keys (map (\<lambda>(i, x). (nat_str i, f x)) (indexed xs)))"
    using assms nat_str_digits by (auto simp: map_keys_def)
  then show ?thesis by (simp add: map_keys_get)
qed

lemma json_spread_prop: "\<not> list_all is_digit k \<Longrightarrow> map_get (json_spread v) k = json_prop v k"
  using map_get_numbered [of k "\<lambda>x. x"] map_get_numbered [of k "\<lambda>c. JStr [c]"]
  by (cases v) (simp_all add: json_prop_def)

text \<open>The value \<^verbatim>\<open>metadata.workflowModeller\<close> of a definition, and of one with an embedded layout.\<close>

definition modeller_prop :: "workflow_definition \<Rightarrow> string \<Rightarrow> json option" where
  "modeller_prop d k = Option.bind (Option.bind (metadata d) (\<lambda>m. map_get m ''workflowModeller'')) (\<lambda>v. json_prop v k)"

lemma extract_by_prop:
  "extractEmbeddedModeller d =
    (case modeller_prop d ''layout'' of Some v \<Rightarrow> if is_object v then read_layout (json_entries v) else [] | None \<Rightarrow> [],
     case modeller_prop d ''edgeHandles'' of Some v \<Rightarrow> if is_object v then json_spread v else [] | None \<Rightarrow> [])"
  by (simp add: extractEmbeddedModeller_def modeller_prop_def Let_def)

lemma modeller_prop_embed:
  assumes "\<not> list_all is_digit k"
  shows "modeller_prop (embedLayout d l handles) k =
    (if k = ''edgeHandles'' \<and> (\<exists>h. handles = Some h \<and> h \<noteq> []) then Some (JObj (the handles))
     else if k = ''layout'' then Some (layout_json l) else modeller_prop d k)"
proof -
  let ?wm = "case map_get (case metadata d of None \<Rightarrow> [] | Some m \<Rightarrow> m) ''workflowModeller'' of
     None \<Rightarrow> JObj [] | Some JNull \<Rightarrow> JObj [] | Some v \<Rightarrow> v"
  have "json_prop ?wm k = modeller_prop d k"
    by (auto simp: modeller_prop_def json_prop_def split: option.split json.split)
  then have "map_get (json_spread ?wm) k = modeller_prop d k" using assms by (simp add: json_spread_prop)
  then show ?thesis
    by (auto simp: embedLayout_def modeller_prop_def [of "d\<lparr>metadata := _\<rparr>"] Let_def json_prop_def map_keys_def
        split: option.split)
qed

section \<open>Properties\<close>

text \<open>The layout survives a trip through the definition: what \<open>extractEmbeddedModeller\<close> reads out of
  the result of \<open>embedLayout\<close> is the embedded layout, with every position, and the edge handles (when
  there are any; otherwise the handles the definition carried before).\<close>

theorem embed_extract_roundtrip:
  assumes "distinct (map_keys layout)"
  shows "extractEmbeddedModeller (embedLayout d layout handles) =
    (layout, if handles = None \<or> handles = Some [] then snd (extractEmbeddedModeller d) else the handles)"
proof -
  have k: "\<not> list_all is_digit ''layout''" "\<not> list_all is_digit ''edgeHandles''" by (simp_all add: is_digit_def)
  show ?thesis
    unfolding extract_by_prop modeller_prop_embed [OF k(1)] modeller_prop_embed [OF k(2)]
    using read_layout_json [OF assms] by (cases handles) (auto simp: layout_json_def)
qed

theorem embed_extract_roundtrip_witness:
  "extractEmbeddedModeller (embedLayout (sample_flow ''a'' ''b'') [(''a'', \<lparr>pos_x = 1, pos_y = 2\<rparr>)]
     (Some [(''e'', JNull)])) = ([(''a'', \<lparr>pos_x = 1, pos_y = 2\<rparr>)], [(''e'', JNull)])"
  using embed_extract_roundtrip [of "[(''a'', \<lparr>pos_x = 1, pos_y = 2\<rparr>)]" "sample_flow ''a'' ''b''" "Some [(''e'', JNull)]"]
  by (simp add: map_keys_def)

text \<open>Embedding a layout changes only metadata: the steps, and with them the validation report's
  errors, stay the same.\<close>

theorem embed_keeps_errors: "errors (validate (embedLayout d layout handles)) = [] \<longleftrightarrow> errors (validate d) = []"
proof -
  let ?d = "embedLayout d layout handles"
  have "steps ?d = steps d" "def_id ?d = def_id d" "def_name ?d = def_name d"
      "autoStartNextWorkflow ?d = autoStartNextWorkflow d" "nextWorkflowId ?d = nextWorkflowId d"
    by (simp_all add: embedLayout_def Let_def)
  then show ?thesis
    by (simp add: valid_iff valid_definition_def next_workflow_ok_def refs_ok_def joins_ok_def no_nesting_def
        step_flow_def branch_flow_def)
qed

text \<open>Import and validation agree on unknown fields: an accepted import carries exactly one warning
  for every diagnostic UNKNOWN_FIELDS_PRESENT that \<open>checkUnknownFields\<close> gives for the definition, and
  they are there exactly when some passthrough key is outside the contract.\<close>

theorem import_warnings_match_validator:
  assumes "importJson jsonParse safeParse src = ImportOk d warnings"
  shows "length warnings = length (checkUnknownFields d) \<and>
    (warnings = [] \<longleftrightarrow> set (map_keys (def_extra d)) \<subseteq> set KNOWN_ROOT_KEYS \<and>
       list_all (\<lambda>s. set (map_keys (step_extra s)) \<subseteq> set (KNOWN_STEP_KEYS (type_of s))) (steps d))"
proof -
  have w: "warnings = collectUnknownFieldWarnings d"
    using assms by (auto simp: importJson_def split: sum.splits)
  have "length warnings = length (checkUnknownFields d)"
    unfolding w collectUnknownFieldWarnings_def checkUnknownFields_def Let_def
      length_greater_0_conv length_append length_concat_single by simp
  moreover have "warnings = [] \<longleftrightarrow> set (map_keys (def_extra d)) \<subseteq> set KNOWN_ROOT_KEYS \<and>
       list_all (\<lambda>s. set (map_keys (step_extra s)) \<subseteq> set (KNOWN_STEP_KEYS (type_of s))) (steps d)"
    unfolding w collectUnknownFieldWarnings_def Let_def unknown_keys_root unknown_keys_step
    by (auto simp: filter_empty_conv list_all_iff)
  ultimately show ?thesis by blast
qed

theorem import_warnings_match_validator_witness: "length (checkUnknownFields (sample_flow ''a'' ''b'')) = 0"
proof -
  have "importJson (\<lambda>_. Inr JNull) (\<lambda>_. Inr (sample_flow ''a'' ''b'')) ''{}'' =
      ImportOk (sample_flow ''a'' ''b'') []"
    by (simp add: importJson_def collectUnknownFieldWarnings_def sample_flow_def root_keys_def opt_key_def
        common_keys_def map_keys_def KNOWN_ROOT_KEYS_def)
  from import_warnings_match_validator [OF this] show ?thesis by simp
qed

end
