(* ===== verification/Layout.thy ===== *)
theory Layout
  imports Import_Export
begin

text \<open>
  \<^verbatim>\<open>workflow-modeller/src/canvas/layout.ts\<close>: the graph handed to the layout engine (the package elkjs, an
  argument here) and the positions read from its answer.
\<close>

section \<open>Model\<close>

definition NODE_WIDTH :: nat where
  "NODE_WIDTH = 180"

record elk_port =
  port_id :: string
  port_side :: string

record elk_child =
  child_id :: string
  child_width :: nat
  child_height :: nat
  child_ports :: "elk_port list"

record elk_edge =
  elk_edge_id :: string
  elk_sources :: "string list"
  elk_targets :: "string list"

record elk_graph =
  elk_children :: "elk_child list"
  elk_edges :: "elk_edge list"

definition nodeHeight :: "graph_node \<Rightarrow> nat" where
  "nodeHeight n =
     (case n_step n of
        Decision _ branches \<Rightarrow> max 70 (length (map_keys branches) * 28)
      | ParallelGateway _ targets _ \<Rightarrow> max 70 (length targets * 28)
      | _ \<Rightarrow> 70)"

definition east_port :: "string \<Rightarrow> elk_port" where
  "east_port i = \<lparr>port_id = i, port_side = ''EAST''\<rparr>"

definition nodePorts :: "graph_node \<Rightarrow> elk_port list" where
  "nodePorts n =
     \<lparr>port_id = n_id n @ ''__in'', port_side = ''WEST''\<rparr> #
     (case n_step n of
        Decision _ branches \<Rightarrow>
          map (\<lambda>(i, _). east_port (n_id n @ ''__branch_'' @ nat_str i)) (indexed (map_keys branches))
      | ParallelGateway _ targets _ \<Rightarrow>
          map (\<lambda>(i, _). east_port (n_id n @ ''__parallel_'' @ nat_str i)) (indexed targets)
      | End _ \<Rightarrow> []
      | _ \<Rightarrow> [east_port (n_id n @ ''__out'')])"

text \<open>\<^verbatim>\<open>xs.indexOf(x)\<close>, \<open>None\<close> for -1, and \<^verbatim>\<open>s.replace(pat, '')\<close> for a plain string.\<close>

fun index_of :: "'a \<Rightarrow> 'a list \<Rightarrow> nat option" where
  "index_of x [] = None"
| "index_of x (y # ys) = (if x = y then Some 0 else map_option Suc (index_of x ys))"

fun replace_first :: "string \<Rightarrow> string \<Rightarrow> string" where
  "replace_first pat [] = []"
| "replace_first pat (c # r) =
     (if starts_with pat (c # r) then drop (length pat) (c # r) else c # replace_first pat r)"

definition elkSourcePort :: "graph_edge \<Rightarrow> graph_node \<Rightarrow> string" where
  "elkSourcePort e source =
     (case (e_variant e, n_step source) of
        (Conditional expression, Decision _ branches) \<Rightarrow>
          e_from e @ ''__branch_'' @ nat_str (case index_of expression (map_keys branches) of Some i \<Rightarrow> i | None \<Rightarrow> 0)
      | (Parallel, _) \<Rightarrow>
          e_from e @ ''__parallel_''
            @ (if truthy (e_sourceHandle e) then replace_first ''parallel:'' (the (e_sourceHandle e)) else ''0'')
      | _ \<Rightarrow> e_from e @ ''__out'')"

definition elkGraph :: "graph_node list \<Rightarrow> graph_edge list \<Rightarrow> elk_graph" where
  "elkGraph nodes edges =
     (let nodeById = fold (\<lambda>n m. map_set (n_id n) n m) nodes []
      in \<lparr>elk_children = map (\<lambda>n. \<lparr>child_id = n_id n, child_width = NODE_WIDTH, child_height = nodeHeight n,
            child_ports = nodePorts n\<rparr>) nodes,
          elk_edges = concat (map (\<lambda>e. case map_get nodeById (e_from e) of
              None \<Rightarrow> []
            | Some src \<Rightarrow>
                if \<not> map_has nodeById (e_to e) then []
                else [\<lparr>elk_edge_id = e_id e, elk_sources = [elkSourcePort e src], elk_targets = [e_to e @ ''__in'']\<rparr>])
            edges)\<rparr>)"

record placed_child =
  placed_id :: string
  placed_x :: "rat option"
  placed_y :: "rat option"

definition layoutWithElk ::
  "(elk_graph \<Rightarrow> placed_child list option) \<Rightarrow> graph_node list \<Rightarrow> graph_edge list \<Rightarrow> layout" where
  "layoutWithElk elk nodes edges =
     (if nodes = [] then []
      else fold (\<lambda>child l. case (placed_x child, placed_y child) of
               (Some x, Some y) \<Rightarrow> map_set (placed_id child) \<lparr>pos_x = x, pos_y = y\<rparr> l
             | _ \<Rightarrow> l)
             (case elk (elkGraph nodes edges) of Some cs \<Rightarrow> cs | None \<Rightarrow> []) [])"

section \<open>Lemmas\<close>

lemma index_of_Some: "x \<in> set xs \<Longrightarrow> \<exists>i < length xs. index_of x xs = Some i"
  by (induction xs) auto

lemma map_indexed_fst [simp]: "map (\<lambda>(i, _). f i) (indexed xs) = map f [0..<length xs]"
  using map_map [of f fst "indexed xs"] by (simp add: o_def split_def)

lemma replace_first_prefix: "replace_first (c # p) ((c # p) @ s) = s"
  by (simp add: starts_with_def)

definition node_of :: "nat \<Rightarrow> step \<Rightarrow> graph_node" where
  "node_of i s = \<lparr>n_id = step_id s, n_type = type_of s, n_name = step_name s, n_isEntry = (i = 0), n_step = s\<rparr>"

lemma toNodes_node_of: "toNodes d = map (\<lambda>(i, s). node_of i s) (indexed (steps d))"
  by (simp add: toNodes_def node_of_def)

lemma node_of_sel [simp]: "n_id (node_of i s) = step_id s" "n_step (node_of i s) = s"
  by (simp_all add: node_of_def)


lemma node_index:
  assumes "distinct (step_ids d)"
  shows "map_get (fold (\<lambda>n m. map_set (n_id n) n m) (toNodes d) []) (step_id s) = Some n \<Longrightarrow>
    s \<in> set (steps d) \<Longrightarrow> n_step n = s \<and> n_id n = step_id s"
proof -
  assume a: "map_get (fold (\<lambda>n m. map_set (n_id n) n m) (toNodes d) []) (step_id s) = Some n" "s \<in> set (steps d)"
  then have n: "n \<in> set (toNodes d)" "n_id n = step_id s"
    by (auto simp: omap.get_fold_set dest: find_SomeD split: option.splits)
  then obtain i s' where "n = node_of i s'" "s' \<in> set (steps d)"
    by (auto simp: toNodes_node_of set_indexed)
  with n a(2) assms show ?thesis by (auto simp: distinct_map inj_on_def)
qed

text \<open>The port an edge of a step leaves from is a port of the node of that step.\<close>

lemma source_port_exists:
  assumes "e \<in> set (pushStepEdges s)" "n_step n = s" "n_id n = step_id s"
  shows "elkSourcePort e n \<in> port_id ` set (nodePorts n)"
proof (cases s)
  case (Decision c branches)
  then obtain x t where e: "(x, t) \<in> set branches" "e_variant e = Conditional x" "e_from e = c_id c"
    using assms(1) by auto
  then have "x \<in> set (map_keys branches)" by (force simp: map_keys_def)
  from index_of_Some [OF this]
  obtain i where i: "i < length (map_keys branches)" "index_of x (map_keys branches) = Some i"
    by blast
  then have "east_port (c_id c @ ''__branch_'' @ nat_str i) \<in> set (nodePorts n)"
    using assms(2,3) Decision by (simp add: nodePorts_def)
  then have "port_id (east_port (c_id c @ ''__branch_'' @ nat_str i)) \<in> port_id ` set (nodePorts n)" by (rule imageI)
  moreover have "elkSourcePort e n = c_id c @ ''__branch_'' @ nat_str i"
    using e i Decision assms(2) by (simp add: elkSourcePort_def)
  ultimately show ?thesis by (simp add: east_port_def)
next
  case (ParallelGateway c targets join)
  then obtain i where i: "i < length targets" "e_variant e = Parallel" "e_from e = c_id c"
      "e_sourceHandle e = Some (''parallel:'' @ nat_str i)"
    using assms(1) by (auto simp: set_indexed)
  then have "east_port (c_id c @ ''__parallel_'' @ nat_str i) \<in> set (nodePorts n)"
    using assms(2,3) ParallelGateway by (simp add: nodePorts_def)
  then have "port_id (east_port (c_id c @ ''__parallel_'' @ nat_str i)) \<in> port_id ` set (nodePorts n)" by (rule imageI)
  moreover have "elkSourcePort e n = c_id c @ ''__parallel_'' @ nat_str i"
    using i replace_first_prefix [of "CHR ''p''" "''arallel:''" "nat_str i"] by (simp add: elkSourcePort_def)
  ultimately show ?thesis by (simp add: east_port_def)
qed (use assms in \<open>auto simp: elkSourcePort_def nodePorts_def east_port_def pushBoundaryEdges_def split: option.splits if_splits\<close>)

section \<open>Properties\<close>

text \<open>The graph given to the layout engine is well formed: for a definition with distinct step ids every edge
  leaves from a port of its source node and enters the input port of its target node, and both nodes are in
  the graph; decision branches and parallel branches each have their own port.\<close>

theorem layout_ports_exist:
  assumes "distinct (step_ids d)"
  shows "\<forall>x \<in> set (elk_edges (elkGraph (toNodes d) (toEdges d))).
    \<exists>src dst. src \<in> set (elk_children (elkGraph (toNodes d) (toEdges d))) \<and>
      dst \<in> set (elk_children (elkGraph (toNodes d) (toEdges d))) \<and>
      set (elk_sources x) \<subseteq> port_id ` set (child_ports src) \<and>
      set (elk_targets x) \<subseteq> port_id ` set (child_ports dst)"
proof
  let ?g = "elkGraph (toNodes d) (toEdges d)"
  let ?ix = "fold (\<lambda>n m. map_set (n_id n) n m) (toNodes d) []"
  fix x assume "x \<in> set (elk_edges ?g)"
  then obtain e where "e \<in> set (toEdges d)" and x: "x \<in> set (case map_get ?ix (e_from e) of None \<Rightarrow> []
      | Some src \<Rightarrow> if \<not> map_has ?ix (e_to e) then []
         else [\<lparr>elk_edge_id = e_id e, elk_sources = [elkSourcePort e src], elk_targets = [e_to e @ ''__in'']\<rparr>])"
    by (auto simp: elkGraph_def Let_def)
  then obtain src where e: "e \<in> set (toEdges d)" "map_get ?ix (e_from e) = Some src" "map_has ?ix (e_to e)"
      "elk_sources x = [elkSourcePort e src]" "elk_targets x = [e_to e @ ''__in'']"
    by (cases "map_get ?ix (e_from e)") (auto split: if_splits)
  from e(1) obtain s where s: "s \<in> set (steps d)" "e \<in> set (pushStepEdges s)" by (auto simp: toEdges_def)
  have src: "n_step src = s" "n_id src = step_id s"
    using node_index [OF assms, of s src] e(2) s pushStepEdges_from [OF s(2)] by simp_all
  from e(3) obtain dst where dst: "map_get ?ix (e_to e) = Some dst" by (auto simp: map_has_def)
  have in_nodes: "n \<in> set (toNodes d) \<and> n_id n = i" if "map_get ?ix i = Some n" for n i
    using that by (auto simp: omap.get_fold_set dest: find_SomeD split: option.splits)
  let ?child = "\<lambda>n. \<lparr>child_id = n_id n, child_width = NODE_WIDTH, child_height = nodeHeight n, child_ports = nodePorts n\<rparr>"
  have ch: "?child n \<in> set (elk_children ?g)" if "n \<in> set (toNodes d)" for n
    using imageI [OF that, of ?child] by (simp add: elkGraph_def Let_def)
  have "?child src \<in> set (elk_children ?g)" "?child dst \<in> set (elk_children ?g)"
    using ch in_nodes [OF e(2)] in_nodes [OF dst] by blast+
  moreover have "set (elk_sources x) \<subseteq> port_id ` set (child_ports (?child src))"
    using source_port_exists [OF s(2) src] e(4) by simp
  moreover have "set (elk_targets x) \<subseteq> port_id ` set (child_ports (?child dst))"
    using in_nodes [OF dst] e(5) by (simp add: nodePorts_def)
  ultimately show "\<exists>src dst. src \<in> set (elk_children ?g) \<and> dst \<in> set (elk_children ?g) \<and>
      set (elk_sources x) \<subseteq> port_id ` set (child_ports src) \<and> set (elk_targets x) \<subseteq> port_id ` set (child_ports dst)"
    by blast
qed

theorem layout_ports_exist_witness:
  "\<exists>src dst. src \<in> set (elk_children (elkGraph (toNodes (sample_flow ''a'' ''b'')) (toEdges (sample_flow ''a'' ''b'')))) \<and>
     dst \<in> set (elk_children (elkGraph (toNodes (sample_flow ''a'' ''b'')) (toEdges (sample_flow ''a'' ''b'')))) \<and>
     set [''a__out''] \<subseteq> port_id ` set (child_ports src) \<and> set [''b__in''] \<subseteq> port_id ` set (child_ports dst)"
proof -
  let ?d = "sample_flow ''a'' ''b''"
  have mem: "\<lparr>elk_edge_id = ''a--sequential-->b'', elk_sources = [''a__out''], elk_targets = [''b__in'']\<rparr>
      \<in> set (elk_edges (elkGraph (toNodes ?d) (toEdges ?d)))"
    by (simp add: elkGraph_def toNodes_def toEdges_def sample_flow_def indexed_def pushBoundaryEdges_def
        elkSourcePort_def map_set_def map_has_def edgeId_def discriminator_def)
  have "distinct (step_ids ?d)" by (simp add: sample_flow_def)
  from bspec [OF layout_ports_exist [OF this] mem] show ?thesis unfolding elk_edge.select_convs .
qed

end
