(* ===== verification/Worker_Client.thy ===== *)
theory Worker_Client
  imports Domain_Types
begin

text \<open>
  The engine clients of the worker SDK: the interface of
  \<^verbatim>\<open>workflow-sdk-node/src/client/types.ts\<close>, the REST transport of \<^verbatim>\<open>rest.ts\<close> and the gRPC transport
  of \<^verbatim>\<open>grpc.ts\<close>.

  \<^verbatim>\<open>fetch\<close>, the generated gRPC stub and \<^verbatim>\<open>Date.parse\<close> are arguments. A call of the transport either
  throws or answers. The bodies of answers are cast, not checked, by the code, so they arrive typed;
  \<open>Inl\<close> is a body that is not JSON. The request body is the object given to \<^verbatim>\<open>JSON.stringify\<close>,
  which leaves out the keys whose value is undefined. Abort signals race with the answer; the race is
  explicit in \<open>callUnary\<close> and, for the loops that use the clients, in the theories of those loops.
\<close>

record job =
  job_id :: string
  job_jobType :: string
  job_instanceId :: string
  job_stepExecutionId :: string
  job_retriesRemaining :: int
  job_variables :: "fields option"
  job_lockExpiresAt :: "string option"

record poll_request =
  pr_workerId :: string
  pr_jobTypes :: "string list"
  pr_maxJobs :: nat
  pr_leaseSeconds :: "nat option"

text \<open>What a client may throw. \<open>CodedError\<close> is any other thrown object with a numeric \<^verbatim>\<open>code\<close>: a gRPC
  status or the code of a \<^verbatim>\<open>DOMException\<close>.\<close>

datatype client_error =
    HttpError string int
  | LeaseLostError
  | HeartbeatUnsupportedError
  | CodedError int
  | PlainError string

section \<open>REST transport\<close>

record rest_request =
  rq_url :: string
  rq_body :: fields

record 'b rest_response =
  rs_status :: nat
  rs_json :: "string + 'b"

definition rs_ok :: "'b rest_response \<Rightarrow> bool" where
  "rs_ok r \<longleftrightarrow> 200 \<le> rs_status r \<and> rs_status r \<le> 299"

text \<open>\<^verbatim>\<open>baseUrl.replace(/\/$/, '')\<close>: at most one slash is removed.\<close>

definition rest_baseUrl :: "string \<Rightarrow> string" where
  "rest_baseUrl url = (if ends_with ''/'' url then butlast url else url)"

definition rest_pollJobs ::
  "(rest_request \<Rightarrow> client_error + job list option rest_response) \<Rightarrow> string \<Rightarrow> poll_request \<Rightarrow> client_error + job list"
  where
  "rest_pollJobs fetch url req =
     (case fetch \<lparr>rq_url = rest_baseUrl url @ ''/v1/jobs/poll'',
         rq_body = [(''workerId'', JStr (pr_workerId req)), (''jobTypes'', JArr (map JStr (pr_jobTypes req))),
                    (''maxJobs'', JNum (of_nat (pr_maxJobs req)))]
                   @ (case pr_leaseSeconds req of Some n \<Rightarrow> [(''leaseSeconds'', JNum (of_nat n))] | None \<Rightarrow> [])\<rparr> of
        Inl e \<Rightarrow> Inl e
      | Inr r \<Rightarrow>
          if \<not> rs_ok r then Inl (PlainError (''pollJobs: engine returned '' @ nat_str (rs_status r)))
          else (case rs_json r of
                  Inl message \<Rightarrow> Inl (PlainError message)
                | Inr jobs \<Rightarrow> Inr (case jobs of Some js \<Rightarrow> js | None \<Rightarrow> [])))"

record lease_answer =
  la_accepted :: "bool option"
  la_lockExpiresAt :: "string option"

definition rest_extendJobLease ::
  "(rest_request \<Rightarrow> client_error + lease_answer rest_response) \<Rightarrow> (string \<Rightarrow> int option) \<Rightarrow> string \<Rightarrow>
   string \<Rightarrow> string \<Rightarrow> nat \<Rightarrow> client_error + string"
  where
  "rest_extendJobLease fetch parseDate url jobId workerId leaseSeconds =
     (case fetch \<lparr>rq_url = rest_baseUrl url @ ''/v1/jobs/'' @ jobId @ ''/heartbeat'',
         rq_body = [(''workerId'', JStr workerId), (''leaseSeconds'', JNum (of_nat leaseSeconds))]\<rparr> of
        Inl e \<Rightarrow> Inl e
      | Inr r \<Rightarrow>
          if \<not> rs_ok r
          then (if rs_status r \<in> {404, 405, 501} then Inl HeartbeatUnsupportedError
                else if rs_status r = 409 then Inl LeaseLostError
                else Inl (HttpError (''heartbeat '' @ jobId @ '': engine returned '' @ nat_str (rs_status r))
                            (int (rs_status r))))
          else (case rs_json r of
                  Inl message \<Rightarrow> Inl (PlainError message)
                | Inr result \<Rightarrow>
                    if la_accepted result \<noteq> Some True \<or> \<not> truthy (la_lockExpiresAt result) \<or>
                       parseDate (the (la_lockExpiresAt result)) = None
                    then Inl (PlainError ''invalid heartbeat response'')
                    else Inr (the (la_lockExpiresAt result))))"

text \<open>The two callbacks differ in the path and the body. \<^verbatim>\<open>204\<close> is a success status already.\<close>

definition rest_callback ::
  "(rest_request \<Rightarrow> client_error + 'b rest_response) \<Rightarrow> string \<Rightarrow> string \<Rightarrow> string \<Rightarrow> string \<Rightarrow> fields \<Rightarrow> client_error + unit"
  where
  "rest_callback fetch url name jobId path body =
     (case fetch \<lparr>rq_url = rest_baseUrl url @ ''/v1/jobs/'' @ jobId @ path, rq_body = body\<rparr> of
        Inl e \<Rightarrow> Inl e
      | Inr r \<Rightarrow>
          if \<not> rs_ok r \<and> rs_status r \<noteq> 204
          then Inl (HttpError (name @ '' '' @ jobId @ '': engine returned '' @ nat_str (rs_status r)) (int (rs_status r)))
          else Inr ())"

definition rest_completeJob ::
  "(rest_request \<Rightarrow> client_error + 'b rest_response) \<Rightarrow> string \<Rightarrow> string \<Rightarrow> string \<Rightarrow> fields option \<Rightarrow> client_error + unit"
  where
  "rest_completeJob fetch url jobId workerId vars =
     rest_callback fetch url ''completeJob'' jobId ''/complete''
       ((''workerId'', JStr workerId) # (case vars of Some vs \<Rightarrow> [(''variables'', JObj vs)] | None \<Rightarrow> []))"

definition rest_failJob ::
  "(rest_request \<Rightarrow> client_error + 'b rest_response) \<Rightarrow> string \<Rightarrow> string \<Rightarrow> string \<Rightarrow> string \<Rightarrow> bool \<Rightarrow> client_error + unit"
  where
  "rest_failJob fetch url jobId workerId errorMessage retryable =
     rest_callback fetch url ''failJob'' jobId ''/fail''
       [(''workerId'', JStr workerId), (''errorMessage'', JStr errorMessage), (''retryable'', JBool retryable)]"

section \<open>gRPC transport\<close>

text \<open>
  What happens to a unary call: the signal is aborted before it starts, the signal fires before the
  answer, the stub throws, or the stub answers with an error or a result. The second and third
  components of the result say whether the call was cancelled and whether the abort listener is still
  registered afterwards; a fired \<^verbatim>\<open>once\<close> listener is not.
\<close>

datatype 'a unary_race =
    AlreadyAborted client_error
  | AbortedInFlight client_error
  | StubThrows client_error
  | Answered "client_error + 'a"

fun callUnary :: "'a unary_race \<Rightarrow> (client_error + 'a) \<times> bool \<times> bool" where
  "callUnary (AlreadyAborted reason) = (Inl reason, False, False)"
| "callUnary (AbortedInFlight reason) = (Inl reason, True, False)"
| "callUnary (StubThrows e) = (Inl e, False, False)"
| "callUnary (Answered answer) = (answer, False, False)"

record proto_job =
  pj_id :: string
  pj_jobType :: string
  pj_instanceId :: string
  pj_stepExecutionId :: string
  pj_retriesRemaining :: int
  pj_variables :: "fields option"
  pj_lockExpiresAt :: "int option"

definition protoJobToSDK :: "(int \<Rightarrow> string) \<Rightarrow> proto_job \<Rightarrow> job" where
  "protoJobToSDK toISOString p =
     \<lparr>job_id = pj_id p, job_jobType = pj_jobType p, job_instanceId = pj_instanceId p,
      job_stepExecutionId = pj_stepExecutionId p, job_retriesRemaining = pj_retriesRemaining p,
      job_variables = pj_variables p, job_lockExpiresAt = map_option toISOString (pj_lockExpiresAt p)\<rparr>"

definition grpc_pollJobs ::
  "(int \<Rightarrow> string) \<Rightarrow> (string \<Rightarrow> string list \<Rightarrow> nat \<Rightarrow> nat \<Rightarrow> proto_job list option unary_race) \<Rightarrow>
   poll_request \<Rightarrow> client_error + job list"
  where
  "grpc_pollJobs toISOString stub req =
     (case fst (callUnary (stub (pr_workerId req) (pr_jobTypes req) (pr_maxJobs req)
               (case pr_leaseSeconds req of Some n \<Rightarrow> n | None \<Rightarrow> 0))) of
        Inl e \<Rightarrow> Inl e
      | Inr jobs \<Rightarrow> Inr (map (protoJobToSDK toISOString) (case jobs of Some js \<Rightarrow> js | None \<Rightarrow> [])))"

text \<open>A \<^verbatim>\<open>Date\<close> of the answer is \<open>Some None\<close> when its time is not finite. The two status codes are
  \<^verbatim>\<open>grpc.status.UNIMPLEMENTED\<close> and \<^verbatim>\<open>FAILED_PRECONDITION\<close>.\<close>

record grpc_lease_answer =
  ga_accepted :: bool
  ga_lockExpiresAt :: "int option option"

definition grpc_extendJobLease ::
  "(int \<Rightarrow> string) \<Rightarrow> (string \<Rightarrow> string \<Rightarrow> nat \<Rightarrow> grpc_lease_answer unary_race) \<Rightarrow>
   string \<Rightarrow> string \<Rightarrow> nat \<Rightarrow> client_error + string"
  where
  "grpc_extendJobLease toISOString stub jobId workerId leaseSeconds =
     (let attempt =
        (case fst (callUnary (stub jobId workerId leaseSeconds)) of
           Inl e \<Rightarrow> Inl e
         | Inr result \<Rightarrow>
             (case ga_lockExpiresAt result of
                Some (Some t) \<Rightarrow>
                  if ga_accepted result then Inr (toISOString t)
                  else Inl (PlainError ''invalid heartbeat response'')
              | _ \<Rightarrow> Inl (PlainError ''invalid heartbeat response'')))
      in case attempt of
           Inl (CodedError c) \<Rightarrow>
             if c = 12 then Inl HeartbeatUnsupportedError
             else if c = 9 then Inl LeaseLostError
             else Inl (CodedError c)
         | answer \<Rightarrow> answer)"

definition grpc_completeJob ::
  "(string \<Rightarrow> string \<Rightarrow> fields option \<Rightarrow> 'a unary_race) \<Rightarrow> string \<Rightarrow> string \<Rightarrow> fields option \<Rightarrow> client_error + unit"
  where
  "grpc_completeJob stub jobId workerId vars = map_sum id (\<lambda>_. ()) (fst (callUnary (stub jobId workerId vars)))"

definition grpc_failJob ::
  "(string \<Rightarrow> string \<Rightarrow> string \<Rightarrow> bool \<Rightarrow> 'a unary_race) \<Rightarrow> string \<Rightarrow> string \<Rightarrow> string \<Rightarrow> bool \<Rightarrow> client_error + unit"
  where
  "grpc_failJob stub jobId workerId errorMessage retryable =
     map_sum id (\<lambda>_. ()) (fst (callUnary (stub jobId workerId errorMessage retryable)))"

section \<open>The contract of a lease renewal\<close>

text \<open>
  What the heartbeat relies on: an accepted renewal is a date it can read, and a lost lease and a
  missing endpoint are told apart from every other failure.
\<close>

locale lease_extender =
  fixes extend :: "'answer \<Rightarrow> client_error + string"
    and readable :: "string \<Rightarrow> bool"
    and lost :: "'answer \<Rightarrow> bool"
    and unsupported :: "'answer \<Rightarrow> bool"
  assumes renewal_readable: "extend a = Inr s \<Longrightarrow> readable s"
    and lost_iff: "extend a = Inl LeaseLostError \<longleftrightarrow> lost a"
    and unsupported_iff: "extend a = Inl HeartbeatUnsupportedError \<longleftrightarrow> unsupported a"
begin

text \<open>So every answer is exactly one of four things.\<close>

lemma renewal_classified:
  "if lost a then extend a = Inl LeaseLostError
   else if unsupported a then extend a = Inl HeartbeatUnsupportedError
   else case extend a of
          Inr s \<Rightarrow> readable s
        | Inl e \<Rightarrow> e \<noteq> LeaseLostError \<and> e \<noteq> HeartbeatUnsupportedError"
  using renewal_readable [of a] lost_iff [of a] unsupported_iff [of a]
  by (auto split: sum.split)

end

text \<open>An HTTP answer of the endpoint.\<close>

interpretation rest_lease: lease_extender
  "\<lambda>r. rest_extendJobLease (\<lambda>_. Inr r) parseDate url jobId workerId leaseSeconds" "\<lambda>s. parseDate s \<noteq> None"
  "\<lambda>r. rs_status r = 409" "\<lambda>r. rs_status r \<in> {404, 405, 501}"
  for parseDate url jobId workerId leaseSeconds
  by unfold_locales
    (auto simp: rest_extendJobLease_def rs_ok_def split: sum.splits if_splits)

text \<open>An answer of the gRPC stub: a status code or a result.\<close>

definition stub_answers :: "int + 'a \<Rightarrow> 'a unary_race" where
  "stub_answers a = Answered (map_sum CodedError id a)"

interpretation grpc_lease: lease_extender
  "\<lambda>a. grpc_extendJobLease toISOString (\<lambda>_ _ _. stub_answers a) jobId workerId leaseSeconds"
  "\<lambda>s. s \<in> range toISOString" "\<lambda>a. a = Inl 9" "\<lambda>a. a = Inl 12"
  for toISOString jobId workerId leaseSeconds
proof (unfold_locales, goal_cases)
  case (1 a s)
  then show ?case
    by (cases a) (auto simp: grpc_extendJobLease_def stub_answers_def Let_def split: option.splits if_splits)
next
  case (2 a)
  show ?case
    by (cases a) (auto simp: grpc_extendJobLease_def stub_answers_def Let_def split: option.splits)
next
  case (3 a)
  show ?case
    by (cases a) (auto simp: grpc_extendJobLease_def stub_answers_def Let_def split: option.splits)
qed

text \<open>Both transports give the heartbeat the same picture of a renewal. A conflict status or a
  failed precondition is a lost lease; the statuses 404, 405 and 501 or an unimplemented method is an
  unsupported heartbeat; every other failure is neither; and an accepted renewal is a readable date,
  which for gRPC is the text of a time.\<close>

theorem transports_classify_renewals:
  "(if rs_status r = 409 then rest_extendJobLease (\<lambda>_. Inr r) parseDate url jobId workerId n = Inl LeaseLostError
    else if rs_status r \<in> {404, 405, 501}
    then rest_extendJobLease (\<lambda>_. Inr r) parseDate url jobId workerId n = Inl HeartbeatUnsupportedError
    else case rest_extendJobLease (\<lambda>_. Inr r) parseDate url jobId workerId n of
           Inr s \<Rightarrow> parseDate s \<noteq> None
         | Inl e \<Rightarrow> e \<noteq> LeaseLostError \<and> e \<noteq> HeartbeatUnsupportedError) \<and>
   (if a = Inl 9 then grpc_extendJobLease toISOString (\<lambda>_ _ _. stub_answers a) jobId workerId n = Inl LeaseLostError
    else if a = Inl 12
    then grpc_extendJobLease toISOString (\<lambda>_ _ _. stub_answers a) jobId workerId n = Inl HeartbeatUnsupportedError
    else case grpc_extendJobLease toISOString (\<lambda>_ _ _. stub_answers a) jobId workerId n of
           Inr s \<Rightarrow> s \<in> range toISOString
         | Inl e \<Rightarrow> e \<noteq> LeaseLostError \<and> e \<noteq> HeartbeatUnsupportedError)"
  using rest_lease.renewal_classified grpc_lease.renewal_classified by (rule conjI)

end
