(* ===== verification/Backoff.thy ===== *)
theory Backoff
  imports Complex_Main
begin

text \<open>
  The back-off policy of the worker SDK, \<^verbatim>\<open>workflow-sdk-node/src/retry/backoff.ts\<close>.

  Delays are whole milliseconds and integers here. \<^verbatim>\<open>Math.random()\<close> is the argument \<open>random\<close>, a
  rational number of the half-open unit interval; the jitter is computed exactly, where the code
  rounds in double precision. The loop is recursion on the number of iterations left.
\<close>

definition BASE_DELAY_MS :: int where
  "BASE_DELAY_MS = 100"

definition FACTOR :: int where
  "FACTOR = 2"

definition JITTER_FRAC :: rat where
  "JITTER_FRAC = 1 / 5"

definition MAX_DELAY_MS :: int where
  "MAX_DELAY_MS = 30000"

fun growth :: "nat \<Rightarrow> int \<Rightarrow> int" where
  "growth 0 ms = ms"
| "growth (Suc n) ms =
     (let ms' = ms * FACTOR in if ms' \<ge> MAX_DELAY_MS then MAX_DELAY_MS else growth n ms')"

text \<open>\<^verbatim>\<open>Math.round\<close> rounds halves up.\<close>

definition math_round :: "rat \<Rightarrow> int" where
  "math_round x = \<lfloor>x + 1 / 2\<rfloor>"

definition delay :: "rat \<Rightarrow> int \<Rightarrow> int" where
  "delay random attempt =
     (let a = max 1 attempt;
          ms = growth (nat (a - 1)) BASE_DELAY_MS;
          jitter = of_int ms * JITTER_FRAC * (2 * random - 1)
      in max 0 (min MAX_DELAY_MS (math_round (of_int ms + jitter))))"

section \<open>The delay without jitter\<close>

lemma growth_closed: "0 < ms \<Longrightarrow> ms < MAX_DELAY_MS \<Longrightarrow> growth n ms = min MAX_DELAY_MS (ms * 2 ^ n)"
proof (induction n arbitrary: ms)
  case 0
  then show ?case by simp
next
  case (Suc n)
  have "ms * 2 \<le> ms * (2 * 2 ^ n)" using Suc.prems by simp
  then have "MAX_DELAY_MS \<le> ms * 2 \<Longrightarrow> min MAX_DELAY_MS (ms * (2 * 2 ^ n)) = MAX_DELAY_MS" by linarith
  then show ?case
    using Suc.IH [of "ms * 2"] Suc.prems by (simp add: FACTOR_def Let_def mult.assoc)
qed

text \<open>Every undisturbed delay is a multiple of five milliseconds, so the ends of the jitter window
  are whole milliseconds.\<close>

lemma growth_five: "\<exists>k. growth n BASE_DELAY_MS = 5 * k \<and> 20 \<le> k \<and> k \<le> 6000"
proof -
  have one: "1 \<le> (2::int) ^ n" by simp
  have "growth n BASE_DELAY_MS = min 30000 (100 * 2 ^ n)"
    using growth_closed [of BASE_DELAY_MS n] by (simp add: BASE_DELAY_MS_def MAX_DELAY_MS_def)
  also have "\<dots> = 5 * min 6000 (20 * 2 ^ n)" by (simp add: min_def)
  finally show ?thesis using one by (intro exI [of _ "min 6000 (20 * 2 ^ n)"]) auto
qed

lemma math_round_between:
  "of_int l \<le> x \<Longrightarrow> x \<le> of_int u \<Longrightarrow> l \<le> math_round x \<and> math_round x \<le> u"
  unfolding math_round_def by linarith

text \<open>The back-off delay of an attempt lies within twenty percent of the capped exponential
  \<open>min 30000 (100 * 2 ^ (attempt - 1))\<close>, attempts below one counting as the first; it is never
  above thirty seconds and never below eighty milliseconds.\<close>

theorem delay_window:
  assumes "0 \<le> random" and "random < 1"
  shows "let base = min MAX_DELAY_MS (BASE_DELAY_MS * FACTOR ^ nat (max 1 attempt - 1)) in
    4 * base \<le> 5 * delay random attempt \<and> 5 * delay random attempt \<le> 6 * base \<and>
    80 \<le> delay random attempt \<and> delay random attempt \<le> MAX_DELAY_MS"
proof -
  let ?n = "nat (max 1 attempt - 1)"
  obtain k where k: "growth ?n BASE_DELAY_MS = 5 * k" "20 \<le> k" "k \<le> 6000"
    using growth_five by blast
  have base: "min MAX_DELAY_MS (BASE_DELAY_MS * FACTOR ^ ?n) = 5 * k"
    using growth_closed [of BASE_DELAY_MS ?n] k(1)
    by (simp add: BASE_DELAY_MS_def MAX_DELAY_MS_def FACTOR_def)
  let ?x = "of_int (5 * k) + of_int (5 * k) * JITTER_FRAC * (2 * random - 1) :: rat"
  have x: "?x = of_int (4 * k) + 2 * of_int k * random" by (simp add: JITTER_FRAC_def algebra_simps)
  have "0 \<le> of_int k * random" "of_int k * random \<le> of_int k * 1"
    using assms k(2) by (simp, intro mult_left_mono) simp_all
  then have "of_int (4 * k) \<le> ?x" "?x \<le> of_int (6 * k)" unfolding x by (simp_all add: mult.commute)
  from math_round_between [OF this] have "4 * k \<le> math_round ?x \<and> math_round ?x \<le> 6 * k" .
  moreover have "delay random attempt = max 0 (min MAX_DELAY_MS (math_round ?x))"
    by (simp add: delay_def Let_def k(1))
  ultimately have "4 * (5 * k) \<le> 5 * delay random attempt \<and> 5 * delay random attempt \<le> 6 * (5 * k) \<and>
      80 \<le> delay random attempt \<and> delay random attempt \<le> MAX_DELAY_MS"
    using k(2,3) unfolding MAX_DELAY_MS_def by linarith
  then show ?thesis unfolding base Let_def .
qed

theorem delay_window_witness: "delay (3 / 4) 3 = 440 \<and> 80 \<le> delay (3 / 4) 3"
  using delay_window [of "3 / 4" 3]
  by (simp add: delay_def BASE_DELAY_MS_def MAX_DELAY_MS_def FACTOR_def JITTER_FRAC_def
      math_round_def eval_nat_numeral Let_def floor_divide_of_int_eq [of 881 2, simplified])

end
