(* ===== verification/Worker_Callback.thy ===== *)
theory Worker_Callback
  imports Worker_Client Backoff
begin

text \<open>
  Handlers and their callbacks in the worker SDK: \<^verbatim>\<open>workflow-sdk-node/src/handler/registry.ts\<close>,
  \<^verbatim>\<open>runner/callback.ts\<close> and the callback part of \<^verbatim>\<open>metrics/metrics.ts\<close>.

  A handler is a function of its context that throws or returns. \<^verbatim>\<open>deliver\<close> loops until the engine
  accepts the outcome, rejects it for good, or the signal is aborted; what the outside world does in
  one iteration is an \<open>attempt\<close>, and the loop consumes a list of them. \<open>Pending\<close>, the result at the end
  of the list, is no result of the code: the loop is then still waiting.
\<close>

section \<open>Registry\<close>

record job_context =
  ctx_jobId :: string
  ctx_instanceId :: string
  ctx_jobType :: string
  ctx_retriesRemaining :: int
  ctx_variables :: fields
  ctx_has_signal :: bool

text \<open>What a handler throws: a \<^verbatim>\<open>NonRetryableError\<close>, another \<^verbatim>\<open>Error\<close>, or a value that is no error, kept
  as \<^verbatim>\<open>String(err)\<close>.\<close>

datatype handler_error = NonRetryableError string | HandlerError string | ThrownValue string

type_synonym handler = "job_context \<Rightarrow> handler_error + fields option"
type_synonym registry = "(string, handler) omap"

definition register :: "string \<Rightarrow> handler \<Rightarrow> registry \<Rightarrow> string + registry" where
  "register jt h reg =
     (if jt = '''' then Inl ''jobType must not be empty'' else Inr (map_set jt h reg))"

definition get_handler :: "registry \<Rightarrow> string \<Rightarrow> handler option" where
  "get_handler reg jt = map_get reg jt"

definition jobTypes :: "registry \<Rightarrow> string list" where
  "jobTypes reg = map_keys reg"

definition contextFrom :: "job \<Rightarrow> bool \<Rightarrow> job_context" where
  "contextFrom j signal =
     \<lparr>ctx_jobId = job_id j, ctx_instanceId = job_instanceId j, ctx_jobType = job_jobType j,
      ctx_retriesRemaining = job_retriesRemaining j,
      ctx_variables = (case job_variables j of Some vs \<Rightarrow> vs | None \<Rightarrow> []), ctx_has_signal = signal\<rparr>"

section \<open>Running a handler\<close>

datatype outcome = Complete string | Fail string bool

fun error_message :: "handler_error \<Rightarrow> string" where
  "error_message (NonRetryableError m) = m"
| "error_message (HandlerError m) = m"
| "error_message (ThrownValue m) = m"

fun error_retryable :: "handler_error \<Rightarrow> bool" where
  "error_retryable (NonRetryableError _) = False"
| "error_retryable _ = True"

text \<open>\<open>stringify\<close> is \<^verbatim>\<open>JSON.stringify\<close>, which throws on a value it cannot write.\<close>

definition execute :: "(fields \<Rightarrow> string + string) \<Rightarrow> registry \<Rightarrow> job \<Rightarrow> bool \<Rightarrow> outcome" where
  "execute stringify reg j signal =
     (case get_handler reg (job_jobType j) of
        None \<Rightarrow> Fail (''no handler registered for '' @ job_jobType j) False
      | Some h \<Rightarrow>
          (case h (contextFrom j signal) of
             Inl e \<Rightarrow> Fail (error_message e) (error_retryable e)
           | Inr vars \<Rightarrow>
               (case stringify (case vars of Some vs \<Rightarrow> vs | None \<Rightarrow> []) of
                  Inl message \<Rightarrow> Fail message True
                | Inr text' \<Rightarrow> Complete text')))"

section \<open>Metrics of callbacks\<close>

datatype dispatch_mode = Polling | Kafka
datatype callback_kind = CbComplete | CbFail

type_synonym labels = "dispatch_mode \<times> callback_kind"

text \<open>\<open>pending\<close> holds the start times by token; a token is a \<^verbatim>\<open>Symbol()\<close>, here the next unused number.\<close>

record metrics =
  callbackRetries :: "labels \<Rightarrow> nat"
  callbackRejected :: "labels \<Rightarrow> nat"
  callbackPending :: "labels \<Rightarrow> int"
  pending :: "labels \<Rightarrow> (nat, int) omap"
  nextToken :: nat
  kafkaRecordErrors :: nat

definition new_metrics :: metrics where
  "new_metrics = \<lparr>callbackRetries = (\<lambda>_. 0), callbackRejected = (\<lambda>_. 0), callbackPending = (\<lambda>_. 0),
     pending = (\<lambda>_. []), nextToken = 0, kafkaRecordErrors = 0\<rparr>"

definition trackCallback :: "int \<Rightarrow> labels \<Rightarrow> metrics \<Rightarrow> nat \<times> metrics" where
  "trackCallback now l m =
     (nextToken m,
      m\<lparr>pending := (pending m)(l := map_set (nextToken m) now (pending m l)),
        callbackPending := (callbackPending m)(l := callbackPending m l + 1),
        nextToken := nextToken m + 1\<rparr>)"

definition finishCallback :: "nat \<Rightarrow> labels \<Rightarrow> metrics \<Rightarrow> metrics" where
  "finishCallback token l m =
     m\<lparr>pending := (pending m)(l := map_delete token (pending m l)),
       callbackPending := (callbackPending m)(l := callbackPending m l - 1)\<rparr>"

text \<open>The gauge of the oldest pending callback, in seconds.\<close>

definition oldest_seconds :: "int \<Rightarrow> labels \<Rightarrow> metrics \<Rightarrow> rat" where
  "oldest_seconds now l m =
     (if pending m l = [] then 0 else of_int (now - Min (set (map snd (pending m l)))) / 1000)"

section \<open>Delivering an outcome\<close>

definition permanent :: "client_error \<Rightarrow> bool" where
  "permanent e =
     (case e of
        HttpError _ statusCode \<Rightarrow> 400 \<le> statusCode \<and> statusCode < 500 \<and> statusCode \<notin> {408, 429}
      | CodedError c \<Rightarrow> c \<in> {3, 5, 6, 7, 9, 11, 12, 15, 16}
      | _ \<Rightarrow> False)"

fun kind_of :: "outcome \<Rightarrow> callback_kind" where
  "kind_of (Complete _) = CbComplete"
| "kind_of (Fail _ _) = CbFail"

text \<open>
  One iteration as the outside sees it: whether the signal is aborted when it starts, how the engine
  answers, whether the signal is aborted when the answer has come, the random number of the delay, and
  whether the signal is aborted during the wait. \<open>Unretried\<close> is the transient error thrown when
  \<^verbatim>\<open>retry\<close> is false.
\<close>

record attempt =
  aborted_before :: bool
  answer :: "client_error + unit"
  aborted_after :: bool
  wait_random :: rat
  aborted_wait :: bool

datatype delivery = Delivered | Aborted | Rejected client_error | Unretried client_error | Pending

datatype callback_effect =
    CompleteJob string string fields
  | FailJob string string string bool
  | WaitMs int

text \<open>The call of one iteration: \<open>None\<close> when \<^verbatim>\<open>JSON.parse\<close> throws before anything is sent.\<close>

fun callback_call :: "(string \<Rightarrow> fields option) \<Rightarrow> string \<Rightarrow> string \<Rightarrow> outcome \<Rightarrow> callback_effect option" where
  "callback_call jsonParse jobId workerId (Complete vars) = map_option (CompleteJob jobId workerId) (jsonParse vars)"
| "callback_call jsonParse jobId workerId (Fail message retryable) = Some (FailJob jobId workerId message retryable)"

fun deliverLoop ::
  "callback_effect option \<Rightarrow> labels \<Rightarrow> bool \<Rightarrow> int \<Rightarrow> attempt list \<Rightarrow> metrics \<Rightarrow> delivery \<times> callback_effect list \<times> metrics"
  where
  "deliverLoop call l retry n [] m = (Pending, [], m)"
| "deliverLoop call l retry n (w # ws) m =
     (if aborted_before w then (Aborted, [], m)
      else
        let sent = (case call of Some c \<Rightarrow> [c] | None \<Rightarrow> []);
            result = (case call of Some _ \<Rightarrow> answer w | None \<Rightarrow> Inl (PlainError ''Unexpected token''))
        in case result of
             Inr _ \<Rightarrow> (if aborted_after w then (Aborted, sent, m) else (Delivered, sent, m))
           | Inl err \<Rightarrow>
               if aborted_after w then (Aborted, sent, m)
               else if permanent err
               then (Rejected err, sent, m\<lparr>callbackRejected := (callbackRejected m)(l := callbackRejected m l + 1)\<rparr>)
               else if \<not> retry then (Unretried err, sent, m)
               else
                 let m' = m\<lparr>callbackRetries := (callbackRetries m)(l := callbackRetries m l + 1)\<rparr>;
                     pause = [WaitMs (delay (wait_random w) n)]
                 in if aborted_wait w then (Aborted, sent @ pause, m')
                    else case deliverLoop call l retry (n + 1) ws m' of
                           (r, effects, m'') \<Rightarrow> (r, sent @ pause @ effects, m''))"

text \<open>The \<^verbatim>\<open>finally\<close> block runs when the loop is left.\<close>

definition deliver ::
  "(string \<Rightarrow> fields option) \<Rightarrow> int \<Rightarrow> string \<Rightarrow> string \<Rightarrow> outcome \<Rightarrow> dispatch_mode \<Rightarrow> bool \<Rightarrow> attempt list \<Rightarrow>
   metrics \<Rightarrow> delivery \<times> callback_effect list \<times> metrics"
  where
  "deliver jsonParse now workerId jobId outcome mode retry ws m =
     (let l = (mode, kind_of outcome);
          (token, m') = trackCallback now l m
      in case deliverLoop (callback_call jsonParse jobId workerId outcome) l retry 1 ws m' of
           (r, effects, m'') \<Rightarrow> (r, effects, if r = Pending then m'' else finishCallback token l m''))"

section \<open>Delivery settles on the first answer that is not transient\<close>

text \<open>What an attempt meets: the answer of the engine, or the error of \<^verbatim>\<open>JSON.parse\<close> when there is no call.\<close>

definition attempt_answer :: "callback_effect option \<Rightarrow> attempt \<Rightarrow> client_error + unit" where
  "attempt_answer call w = (case call of Some _ \<Rightarrow> answer w | None \<Rightarrow> Inl (PlainError ''Unexpected token''))"

definition transient :: "callback_effect option \<Rightarrow> attempt \<Rightarrow> bool" where
  "transient call w \<longleftrightarrow> \<not> aborted_before w \<and> \<not> aborted_after w \<and> \<not> aborted_wait w \<and>
     (case attempt_answer call w of Inl e \<Rightarrow> \<not> permanent e | Inr _ \<Rightarrow> False)"

definition verdict :: "callback_effect option \<Rightarrow> bool \<Rightarrow> attempt \<Rightarrow> delivery" where
  "verdict call retry w =
     (if aborted_before w \<or> aborted_after w then Aborted
      else case attempt_answer call w of
             Inr _ \<Rightarrow> Delivered
           | Inl e \<Rightarrow> if permanent e then Rejected e else if retry then Aborted else Unretried e)"

fun is_wait :: "callback_effect \<Rightarrow> bool" where
  "is_wait (WaitMs _) = True"
| "is_wait _ = False"

definition calls :: "callback_effect list \<Rightarrow> callback_effect list" where
  "calls effects = filter (\<lambda>e. \<not> is_wait e) effects"

lemma calls_simps [simp]:
  "calls [] = []" "calls (e # es) = (if is_wait e then calls es else e # calls es)"
  "calls (es @ es') = calls es @ calls es'"
  by (simp_all add: calls_def)

lemma callback_call_no_wait: "callback_call p i w oc = Some c \<Longrightarrow> \<not> is_wait c"
  by (cases oc) auto

definition sent :: "callback_effect option \<Rightarrow> callback_effect list" where
  "sent call = (case call of Some c \<Rightarrow> [c] | None \<Rightarrow> [])"

lemma calls_sent: "(\<And>c. call = Some c \<Longrightarrow> \<not> is_wait c) \<Longrightarrow> calls (sent call) = sent call"
  by (simp add: sent_def split: option.split)

text \<open>The loop with the pieces named.\<close>

lemma deliverLoop_Cons:
  "deliverLoop call l retry n (w # ws) m =
     (if aborted_before w then (Aborted, [], m)
      else if \<not> aborted_after w \<and> retry \<and> (case attempt_answer call w of Inl e \<Rightarrow> \<not> permanent e | Inr _ \<Rightarrow> False)
      then let m' = m\<lparr>callbackRetries := (callbackRetries m)(l := callbackRetries m l + 1)\<rparr>;
               pause = [WaitMs (delay (wait_random w) n)]
           in if aborted_wait w then (Aborted, sent call @ pause, m')
              else case deliverLoop call l retry (n + 1) ws m' of (r, effects, m'') \<Rightarrow> (r, sent call @ pause @ effects, m'')
      else (verdict call retry w, sent call,
        case verdict call retry w of
          Rejected _ \<Rightarrow> m\<lparr>callbackRejected := (callbackRejected m)(l := callbackRejected m l + 1)\<rparr> | _ \<Rightarrow> m))"
  by (cases call; cases "answer w") (auto simp: sent_def verdict_def attempt_answer_def Let_def permanent_def)

lemma deliverLoop_exact:
  assumes "\<And>c. call = Some c \<Longrightarrow> \<not> is_wait c"
  shows "\<exists>effects m'. deliverLoop call l retry n ws m =
      (case dropWhile (\<lambda>w. retry \<and> transient call w) ws of [] \<Rightarrow> Pending | w # _ \<Rightarrow> verdict call retry w, effects, m') \<and>
    calls effects = concat (replicate (length (takeWhile (\<lambda>w. retry \<and> transient call w) ws) +
      (case dropWhile (\<lambda>w. retry \<and> transient call w) ws of [] \<Rightarrow> 0 | w # _ \<Rightarrow> if aborted_before w then 0 else 1)) (sent call))"
proof (induction ws arbitrary: n m)
  case Nil
  then show ?case by simp
next
  case (Cons w ws)
  have sent: "calls (sent call) = sent call" using calls_sent assms by blast
  show ?case
  proof (cases "retry \<and> transient call w")
    case True
    let ?m = "m\<lparr>callbackRetries := (callbackRetries m)(l := callbackRetries m l + 1)\<rparr>"
    obtain effects m' where "deliverLoop call l retry (n + 1) ws ?m =
        (case dropWhile (\<lambda>w. retry \<and> transient call w) ws of [] \<Rightarrow> Pending | w # _ \<Rightarrow> verdict call retry w, effects, m')"
      and "calls effects = concat (replicate (length (takeWhile (\<lambda>w. retry \<and> transient call w) ws) +
        (case dropWhile (\<lambda>w. retry \<and> transient call w) ws of [] \<Rightarrow> 0 | w # _ \<Rightarrow> if aborted_before w then 0 else 1)) (sent call))"
      using Cons.IH by blast
    moreover from True have "retry" "\<not> aborted_before w" "\<not> aborted_after w" "\<not> aborted_wait w"
        "case attempt_answer call w of Inl e \<Rightarrow> \<not> permanent e | Inr _ \<Rightarrow> False"
      by (simp_all add: transient_def)
    ultimately show ?thesis using True sent by (simp add: deliverLoop_Cons Let_def del: deliverLoop.simps)
  next
    case False
    then show ?thesis using sent
      by (cases "attempt_answer call w")
        (auto simp: deliverLoop_Cons transient_def verdict_def Let_def simp del: deliverLoop.simps)
  qed
qed

lemma deliver_once:
  assumes "deliver jsonParse now workerId jobId oc mode False ws m = (r, effects, m')"
  shows "length (calls effects) \<le> 1"
proof -
  let ?call = "callback_call jsonParse jobId workerId oc"
  have "\<not> is_wait c" if "?call = Some c" for c using that callback_call_no_wait by blast
  from deliverLoop_exact [where call = ?call and l = "(mode, kind_of oc)" and retry = False and n = 1 and ws = ws and
      m = "snd (trackCallback now (mode, kind_of oc) m)", OF this]
  have "calls effects = concat (replicate (case ws of [] \<Rightarrow> 0 | w # _ \<Rightarrow> if aborted_before w then 0 else 1) (sent ?call))"
    using assms by (cases ws) (auto simp: deliver_def Let_def simp del: deliverLoop.simps split: prod.splits)
  then show ?thesis by (cases ws) (auto simp: sent_def split: option.split)
qed

text \<open>C26. With \<^verbatim>\<open>retry\<close>, as the Kafka runner calls it and the polling runner for a job with a lease deadline, a callback is
  retried through every transient failure and settles on the first attempt that is anything else: delivered when the
  engine accepts, rejected on a permanent error, aborted when the signal is. Without \<^verbatim>\<open>retry\<close>, as for a job without a
  lease deadline, the first attempt decides, and a transient failure is the result. Every attempt makes the very same
  call, none at all if the variables of the outcome do not parse, and there is none after the attempt that settles, so
  without \<^verbatim>\<open>retry\<close> at most one.\<close>

theorem deliver_exact:
  assumes "deliver jsonParse now workerId jobId oc mode retry ws m = (r, effects, m')"
    and "call = callback_call jsonParse jobId workerId oc" and "again = (\<lambda>w. retry \<and> transient call w)"
  shows "r = (case dropWhile again ws of [] \<Rightarrow> Pending | w # _ \<Rightarrow> verdict call retry w) \<and>
    calls effects = concat (replicate (length (takeWhile again ws) +
      (case dropWhile again ws of [] \<Rightarrow> 0 | w # _ \<Rightarrow> if aborted_before w then 0 else 1)) (sent call)) \<and>
    (\<not> retry \<longrightarrow> length (calls effects) \<le> 1)"
proof -
  have "\<not> is_wait c" if "call = Some c" for c using that callback_call_no_wait unfolding assms(2) by blast
  from deliverLoop_exact [where call = call and l = "(mode, kind_of oc)" and retry = retry and n = 1 and ws = ws and
      m = "snd (trackCallback now (mode, kind_of oc) m)", OF this]
  have "r = (case dropWhile again ws of [] \<Rightarrow> Pending | w # _ \<Rightarrow> verdict call retry w)"
    and calls: "calls effects = concat (replicate (length (takeWhile again ws) +
      (case dropWhile again ws of [] \<Rightarrow> 0 | w # _ \<Rightarrow> if aborted_before w then 0 else 1)) (sent call))"
    using assms(1) unfolding assms(2,3) by (auto simp: deliver_def Let_def split: prod.splits)
  moreover have "length (calls effects) \<le> 1" if "\<not> retry" using deliver_once assms(1) that by simp
  ultimately show ?thesis by blast
qed

text \<open>A delivery has called the engine.\<close>

lemma delivered_called:
  assumes "deliver jsonParse now workerId jobId oc mode retry ws m = (r, effects, m')"
    and "call = callback_call jsonParse jobId workerId oc" and "r = Delivered"
  shows "\<exists>c. call = Some c \<and> c \<in> set effects"
proof -
  have loop: "\<exists>c. call = Some c \<and> c \<in> set es" if "deliverLoop call l retry n ws m = (Delivered, es, m')" for l n es m m'
    using that
  proof (induction ws arbitrary: n m es)
    case (Cons w ws)
    then show ?case
      by (cases "attempt_answer call w")
        (auto simp: deliverLoop_Cons verdict_def attempt_answer_def sent_def Let_def
          simp del: deliverLoop.simps split: if_splits prod.splits option.splits)
  qed simp
  show ?thesis using assms loop by (auto simp: deliver_def Let_def split: prod.splits)
qed

definition sample_attempts :: "attempt list" where
  "sample_attempts =
     [\<lparr>aborted_before = False, answer = Inl (HttpError ''busy'' 503), aborted_after = False,
       wait_random = 1 / 2, aborted_wait = False\<rparr>,
      \<lparr>aborted_before = False, answer = Inr (), aborted_after = False, wait_random = 0, aborted_wait = False\<rparr>]"

theorem deliver_exact_witness:
  "\<exists>effects m'. deliver (\<lambda>_. None) 7 ''w'' ''j'' (Fail ''boom'' True) Polling True sample_attempts new_metrics =
       (Delivered, effects, m') \<and>
     calls effects = [FailJob ''j'' ''w'' ''boom'' True, FailJob ''j'' ''w'' ''boom'' True]"
proof -
  obtain r effects m' where d:
    "deliver (\<lambda>_. None) 7 ''w'' ''j'' (Fail ''boom'' True) Polling True sample_attempts new_metrics = (r, effects, m')"
    by (metis prod_cases3)
  from deliver_exact [OF d refl refl] d show ?thesis
    by (simp add: sample_attempts_def transient_def attempt_answer_def permanent_def verdict_def sent_def)
qed

section \<open>The gauge of pending callbacks\<close>

definition metrics_ok :: "metrics \<Rightarrow> bool" where
  "metrics_ok m \<longleftrightarrow> (\<forall>l. (\<forall>k \<in> set (map_keys (pending m l)). k < nextToken m) \<and>
     callbackPending m l = int (length (pending m l)))"

lemma deliverLoop_keeps_pending:
  "deliverLoop call l retry n ws m = (r, effects, m') \<Longrightarrow>
     pending m' = pending m \<and> callbackPending m' = callbackPending m \<and> nextToken m' = nextToken m \<and>
     kafkaRecordErrors m' = kafkaRecordErrors m"
proof (induction ws arbitrary: n m effects)
  case Nil
  then show ?case by simp
next
  case (Cons w ws)
  then show ?case
    by (fastforce simp: Let_def split: if_splits option.splits sum.splits prod.splits)
qed

lemma set_new_key: "k \<notin> set (map_keys m) \<Longrightarrow> map_set k v m = m @ [(k, v)]"
  by (induction m) (auto simp: map_set_def map_keys_def)

lemma delete_new_key: "k \<notin> set (map_keys m) \<Longrightarrow> map_delete k (m @ [(k, v)]) = m"
  by (auto simp: map_delete_def map_keys_def filter_id_conv intro: rev_image_eqI)

lemma fresh_token: "metrics_ok m \<Longrightarrow> nextToken m \<notin> set (map_keys (pending m l))"
  unfolding metrics_ok_def by (metis less_irrefl)

lemma track_finish:
  assumes "metrics_ok m"
    and "pending m' = pending (snd (trackCallback now l m))"
    and "callbackPending m' = callbackPending (snd (trackCallback now l m))"
  shows "pending (finishCallback (fst (trackCallback now l m)) l m') = pending m \<and>
    callbackPending (finishCallback (fst (trackCallback now l m)) l m') = callbackPending m"
proof -
  have "map_delete (nextToken m) (map_set (nextToken m) now (pending m l)) = pending m l"
    using fresh_token [OF assms(1)] by (simp add: set_new_key delete_new_key)
  then show ?thesis by (simp add: assms(2,3) trackCallback_def finishCallback_def)
qed

text \<open>The gauge of pending callbacks is balanced: it always equals the number of callbacks being
  tracked, and a delivery that has settled, in whatever way, leaves the gauge and the tracked
  callbacks of every kind as it found them; one that is still waiting is counted once.\<close>

theorem callback_gauge_balanced:
  assumes "metrics_ok m"
    and "deliver jsonParse now workerId jobId oc mode retry ws m = (r, effects, m')"
  shows "metrics_ok m' \<and>
    (if r = Pending then callbackPending m' = (callbackPending m)((mode, kind_of oc) := callbackPending m (mode, kind_of oc) + 1)
     else pending m' = pending m \<and> callbackPending m' = callbackPending m)"
proof -
  let ?l = "(mode, kind_of oc)" and ?t = "trackCallback now (mode, kind_of oc) m"
  obtain m1 where loop: "deliverLoop (callback_call jsonParse jobId workerId oc) ?l retry 1 ws (snd ?t) = (r, effects, m1)"
    and m': "m' = (if r = Pending then m1 else finishCallback (fst ?t) ?l m1)"
    using assms(2) by (auto simp: deliver_def Let_def split: prod.splits)
  note kept = deliverLoop_keeps_pending [OF loop]
  show ?thesis
  proof (cases "r = Pending")
    case True
    with fresh_token [OF assms(1), of ?l] kept m' assms(1) show ?thesis
      by (auto simp: trackCallback_def metrics_ok_def set_new_key map_keys_def less_SucI)
  next
    case False
    have "pending m' = pending m \<and> callbackPending m' = callbackPending m"
      using track_finish [OF assms(1)] kept m' False by simp
    moreover have "nextToken m' = nextToken m + 1"
      using kept m' False by (simp add: finishCallback_def trackCallback_def)
    ultimately show ?thesis using False assms(1) by (auto simp: metrics_ok_def less_SucI)
  qed
qed

theorem callback_gauge_balanced_witness:
  "\<exists>r effects m'. deliver (\<lambda>_. None) 7 ''w'' ''j'' (Fail ''boom'' True) Polling True sample_attempts new_metrics =
     (r, effects, m') \<and> metrics_ok m'"
proof -
  obtain r effects m' where d:
    "deliver (\<lambda>_. None) 7 ''w'' ''j'' (Fail ''boom'' True) Polling True sample_attempts new_metrics = (r, effects, m')"
    by (metis prod_cases3)
  have "metrics_ok new_metrics" by (simp add: metrics_ok_def new_metrics_def map_keys_def)
  from callback_gauge_balanced [OF this d] d show ?thesis by blast
qed

section \<open>Outcomes\<close>

text \<open>A job is completed exactly when its handler is registered, returns, and its variables can be
  written; otherwise it fails, and the failure may be retried unless no handler is registered or the
  handler threw a non-retryable error.\<close>

theorem execute_outcome:
  "case execute stringify reg j signal of
     Complete text' \<Rightarrow> \<exists>h vars. get_handler reg (job_jobType j) = Some h \<and> h (contextFrom j signal) = Inr vars \<and>
         stringify (case vars of Some vs \<Rightarrow> vs | None \<Rightarrow> []) = Inr text'
   | Fail message retryable \<Rightarrow>
       retryable = (case get_handler reg (job_jobType j) of
           None \<Rightarrow> False
         | Some h \<Rightarrow> (case h (contextFrom j signal) of Inl (NonRetryableError _) \<Rightarrow> False | _ \<Rightarrow> True))"
  by (auto simp: execute_def split: option.splits sum.splits handler_error.splits)

lemma register_get:
  "register jt h reg = Inr reg' \<Longrightarrow>
     get_handler reg' jt' = (if jt' = jt then Some h else get_handler reg jt') \<and>
     set (jobTypes reg') = insert jt (set (jobTypes reg))"
  by (auto simp: register_def get_handler_def jobTypes_def omap.keys_set split: if_splits)

text \<open>Over REST a callback counts as rejected exactly on a client error status other than a request
  timeout and too many requests; every other answer that is no success is retried.\<close>

theorem rest_callback_verdict:
  "(case rest_completeJob (\<lambda>_. Inr resp) url jobId workerId vars of
      Inr _ \<Rightarrow> 200 \<le> rs_status resp \<and> rs_status resp \<le> 299
    | Inl e \<Rightarrow> (rs_status resp < 200 \<or> 299 < rs_status resp) \<and>
        (permanent e \<longleftrightarrow> 400 \<le> rs_status resp \<and> rs_status resp \<le> 499 \<and> rs_status resp \<noteq> 408 \<and> rs_status resp \<noteq> 429)) \<and>
   (case rest_failJob (\<lambda>_. Inr resp) url jobId workerId message retryable of
      Inr _ \<Rightarrow> 200 \<le> rs_status resp \<and> rs_status resp \<le> 299
    | Inl e \<Rightarrow> (rs_status resp < 200 \<or> 299 < rs_status resp) \<and>
        (permanent e \<longleftrightarrow> 400 \<le> rs_status resp \<and> rs_status resp \<le> 499 \<and> rs_status resp \<noteq> 408 \<and> rs_status resp \<noteq> 429))"
  by (auto simp: rest_completeJob_def rest_failJob_def rest_callback_def rs_ok_def permanent_def)

end
