(* ===== verification/Dedup.thy ===== *)
theory Dedup
  imports Prelude
begin

text \<open>
  The cache of recently seen deduplication ids,
  \<^verbatim>\<open>workflow-sdk-node/src/runner/deduplication_cache.ts\<close>.

  \<^verbatim>\<open>Date.now()\<close> is the argument \<open>now\<close> of each operation. The sweep runs on a timer, so it may come
  between any two other operations; \<open>cache_event\<close> lists what happens to a cache in order, and the
  section on traces shows that the sweeps are not observable.
\<close>

record dedup_cache =
  cache :: "(string, int) omap"
  windowMs :: int
  timer_set :: bool

definition new_cache :: "int option \<Rightarrow> dedup_cache" where
  "new_cache w =
     \<lparr>cache = [], windowMs = (case w of Some ms \<Rightarrow> ms | None \<Rightarrow> 10 * 60 * 1000), timer_set = True\<rparr>"

definition has :: "int \<Rightarrow> string \<Rightarrow> dedup_cache \<Rightarrow> bool" where
  "has now i d = (case map_get (cache d) i of Some seenAt \<Rightarrow> now - seenAt < windowMs d | None \<Rightarrow> False)"

definition mark :: "int \<Rightarrow> string \<Rightarrow> dedup_cache \<Rightarrow> dedup_cache" where
  "mark now i d = (if i \<noteq> '''' then d\<lparr>cache := map_set i now (cache d)\<rparr> else d)"

definition seenRecently :: "int \<Rightarrow> string \<Rightarrow> dedup_cache \<Rightarrow> bool \<times> dedup_cache" where
  "seenRecently now i d =
     (if i = '''' then (False, d)
      else if has now i d then (True, d)
      else (False, mark now i d))"

text \<open>The loop over \<^verbatim>\<open>cache.entries()\<close> deletes the entry it stands on, which the language allows.\<close>

definition sweep :: "int \<Rightarrow> dedup_cache \<Rightarrow> dedup_cache" where
  "sweep now d =
     (let cutoff = now - windowMs d
      in d\<lparr>cache := fold (\<lambda>(i, seenAt) m. if seenAt < cutoff then map_delete i m else m) (cache d) (cache d)\<rparr>)"

definition close_cache :: "dedup_cache \<Rightarrow> dedup_cache" where
  "close_cache d = d\<lparr>cache := [], timer_set := False\<rparr>"

section \<open>What a client relies on\<close>

text \<open>
  An id is remembered for one window after it was marked. \<open>later\<close> are the states whose marks all lie
  in the past, which the clock guarantees.
\<close>

locale recent_ids =
  fixes has_id :: "int \<Rightarrow> string \<Rightarrow> 'd \<Rightarrow> bool"
    and mark_id :: "int \<Rightarrow> string \<Rightarrow> 'd \<Rightarrow> 'd"
    and sweep_ids :: "int \<Rightarrow> 'd \<Rightarrow> 'd"
    and window :: "'d \<Rightarrow> int"
    and invar :: "'d \<Rightarrow> bool"
  assumes has_mark_same: "i \<noteq> '''' \<Longrightarrow> has_id t i (mark_id now i d) \<longleftrightarrow> t - now < window d"
    and has_mark_other: "i \<noteq> j \<Longrightarrow> has_id t i (mark_id now j d) \<longleftrightarrow> has_id t i d"
    and has_sweep: "invar d \<Longrightarrow> now \<le> t \<Longrightarrow> has_id t i (sweep_ids now d) \<longleftrightarrow> has_id t i d"
    and window_mark: "window (mark_id now i d) = window d"
    and window_sweep: "window (sweep_ids now d) = window d"
    and invar_mark: "invar d \<Longrightarrow> invar (mark_id now i d)"
    and invar_sweep: "invar d \<Longrightarrow> invar (sweep_ids now d)"
begin

text \<open>Marks and sweeps in the order of the clock; the last mark of an id decides.\<close>

definition after :: "(int \<times> string option) list \<Rightarrow> 'd \<Rightarrow> 'd" where
  "after evs d = fold (\<lambda>(now, e) d. case e of Some i \<Rightarrow> mark_id now i d | None \<Rightarrow> sweep_ids now d) evs d"

lemma after_snoc:
  "after (evs @ [(now, e)]) d =
     (case e of Some i \<Rightarrow> mark_id now i (after evs d) | None \<Rightarrow> sweep_ids now (after evs d))"
  by (cases e) (simp_all add: after_def)

lemma invar_after: "invar d \<Longrightarrow> invar (after evs d)"
  by (induction evs rule: rev_induct)
    (auto simp: after_def invar_mark invar_sweep split: option.splits)

lemma window_after: "window (after evs d) = window d"
  by (induction evs rule: rev_induct)
    (auto simp: after_def window_mark window_sweep split: option.splits)

lemma has_after:
  assumes "invar d" "i \<noteq> ''''" "\<forall>(now, _) \<in> set evs. now \<le> t"
  shows "has_id t i (after evs d) \<longleftrightarrow>
     (case find (\<lambda>(_, e). e = Some i) (rev evs) of
        Some (now, _) \<Rightarrow> t - now < window d
      | None \<Rightarrow> has_id t i d)"
  using assms(3)
proof (induction evs rule: rev_induct)
  case Nil
  then show ?case by (simp add: after_def)
next
  case (snoc ev evs)
  obtain now e where ev: "ev = (now, e)" by (cases ev)
  show ?case
  proof (cases e)
    case None
    with snoc ev show ?thesis by (simp add: after_snoc has_sweep invar_after [OF assms(1)])
  next
    case (Some j)
    with snoc ev assms(2) show ?thesis
      by (cases "j = i") (simp_all add: after_snoc has_mark_same has_mark_other window_after)
  qed
qed

end

section \<open>The cache keeps the contract\<close>

lemma get_delete_entries:
  "map_get (fold (\<lambda>(i, s) m. if P s then map_delete i m else m) xs m) k =
     (if \<exists>s. (k, s) \<in> set xs \<and> P s then None else map_get m k)"
  by (induction xs arbitrary: m) auto

lemma get_sweep:
  assumes "distinct (map_keys (cache d))"
  shows "map_get (cache (sweep now d)) i =
    (case map_get (cache d) i of Some s \<Rightarrow> if s < now - windowMs d then None else Some s | None \<Rightarrow> None)"
proof -
  have "(\<exists>s. (i, s) \<in> set (cache d) \<and> s < now - windowMs d) \<longleftrightarrow>
      (\<exists>s. map_get (cache d) i = Some s \<and> s < now - windowMs d)"
    using assms by (simp add: map_get_def map_keys_def)
  then show ?thesis
    by (auto simp: sweep_def Let_def get_delete_entries split: option.split)
qed

lemma windowMs_sweep: "windowMs (sweep now d) = windowMs d"
  by (simp add: sweep_def Let_def)

lemma distinct_sweep: "distinct (map_keys m) \<Longrightarrow>
   distinct (map_keys (fold (\<lambda>(i, s) m. if P s then map_delete i m else m) xs m))"
  by (induction xs arbitrary: m) (auto simp: distinct_keys_delete)

interpretation dedup: recent_ids has mark sweep windowMs "\<lambda>d. distinct (map_keys (cache d))"
proof (unfold_locales, goal_cases)
  case (3 d now t i)
  then show ?case by (auto simp: has_def get_sweep windowMs_sweep split: option.split)
next
  case (6 d now i)
  then show ?case using omap.invar_set by (auto simp: mark_def)
next
  case (7 d now)
  then show ?case by (simp add: sweep_def Let_def distinct_sweep)
qed (auto simp: has_def mark_def sweep_def Let_def split: option.split)

text \<open>The periodic sweep is not observable and nothing is forgotten early: after any sequence of
  marks and sweeps in the past of \<open>t\<close>, a new cache has an id at \<open>t\<close> exactly when the id was marked
  and its last mark is less than one window old.\<close>

theorem dedup_window:
  assumes "i \<noteq> ''''" and "\<forall>(now, _) \<in> set evs. now \<le> t"
  shows "has t i (fold (\<lambda>(now, e) d. case e of Some j \<Rightarrow> mark now j d | None \<Rightarrow> sweep now d) evs (new_cache w))
    \<longleftrightarrow> (case find (\<lambda>(_, e). e = Some i) (rev evs) of
          Some (now, _) \<Rightarrow> t - now < windowMs (new_cache w)
        | None \<Rightarrow> False)"
  using dedup.has_after [of "new_cache w" i evs t] assms
  by (auto simp: dedup.after_def new_cache_def has_def map_keys_def cong: option.case_cong split: option.split)

theorem dedup_window_witness:
  "has 12 ''a'' (sweep 12 (mark 5 ''a'' (new_cache (Some 10)))) \<and>
   \<not> has 12 ''b'' (sweep 12 (mark 5 ''a'' (new_cache (Some 10))))"
  using dedup_window [of "''a''" "[(5, Some ''a''), (12, None)]" 12 "Some 10"]
    dedup_window [of "''b''" "[(5, Some ''a''), (12, None)]" 12 "Some 10"]
  by (simp add: new_cache_def)

text \<open>The observing variant: it answers as \<^verbatim>\<open>has\<close> does and remembers a new id.\<close>

lemma seenRecently_observes:
  assumes "i \<noteq> ''''" "0 < windowMs d"
  shows "fst (seenRecently now i d) = has now i d \<and> has now i (snd (seenRecently now i d))"
  using assms dedup.has_mark_same [of i now now d] by (simp add: seenRecently_def)

end
