(* ===== verification/Kafka_Runner.thy ===== *)
theory Kafka_Runner
  imports Worker_Callback Dedup
begin

text \<open>
  The Kafka worker, \<^verbatim>\<open>workflow-sdk-node/src/runner/kafka_runner.ts\<close>: \<^verbatim>\<open>dispatch\<close>, which runs the handler
  of one record and delivers its outcome. It is split where it awaits: \<open>begin_dispatch\<close> reads the record and
  looks for a duplicate, \<open>end_dispatch\<close> is the rest, applied to the state of the runner at the moment the
  delivery has settled; the handler and the delivery in between touch nothing that dispatches share but the
  counters. Dispatches of one runner interleave, which \<open>dispatch_step\<close> and, in \<open>Kafka_Consumer\<close>, the consumer of
  one topic express.

  \<^verbatim>\<open>JobDispatchEvent.decode\<close> is generated code and an argument, as are \<^verbatim>\<open>JSON.parse\<close> and
  \<^verbatim>\<open>JSON.stringify\<close>. The Kafka client is third-party code. What the consumer relies on is in the guards
  of the rules that stand for it: a batch of a partition that is assigned and not paused starts with the
  first record at or after the client's position; a new assignment starts at the committed offset; the
  handler of a rebalance is awaited before the partition is handed to anyone; a commit that was submitted
  may reach the broker or fail, and may fail after it reached the broker.
\<close>

section \<open>Dispatching one record\<close>

record dispatch_event =
  ev_jobId :: string
  ev_dedupId :: string
  ev_jobType :: string
  ev_instanceId :: string
  ev_stepExecutionId :: string
  ev_retriesRemaining :: int
  ev_jobPayload :: string

text \<open>The library functions and the handlers a runner is built with.\<close>

record kafka_env =
  decode :: "string \<Rightarrow> string + dispatch_event"
  parseJSON :: "string \<Rightarrow> string + json"
  stringifyJSON :: "fields \<Rightarrow> string + string"
  handlers :: registry
  worker_id :: string

text \<open>The state of a runner that outlives a dispatch.\<close>

record runner_state =
  dedupCache :: dedup_cache
  sdk_metrics :: metrics

datatype dispatch_result = Handled | Duplicate | Malformed string | Unfinished delivery

text \<open>\<^verbatim>\<open>JSON.parse\<close> where the text is known to be an object.\<close>

definition parse_object :: "kafka_env \<Rightarrow> string \<Rightarrow> fields option" where
  "parse_object env s = (case parseJSON env s of Inr (JObj fs) \<Rightarrow> Some fs | _ \<Rightarrow> None)"

text \<open>The variables of the job: none for an empty payload, \<open>None\<close> for a payload that is no JSON object.\<close>

definition payload_variables :: "kafka_env \<Rightarrow> string \<Rightarrow> fields option" where
  "payload_variables env payload = (if payload = '''' then Some [] else parse_object env payload)"

definition event_job :: "dispatch_event \<Rightarrow> fields \<Rightarrow> job" where
  "event_job ev vars =
     \<lparr>job_id = ev_jobId ev, job_jobType = ev_jobType ev, job_instanceId = ev_instanceId ev,
      job_stepExecutionId = ev_stepExecutionId ev, job_retriesRemaining = ev_retriesRemaining ev,
      job_variables = Some vars, job_lockExpiresAt = None\<rparr>"

definition event_outcome :: "kafka_env \<Rightarrow> dispatch_event \<Rightarrow> outcome" where
  "event_outcome env ev =
     (case payload_variables env (ev_jobPayload ev) of
        None \<Rightarrow> Fail ''invalid job payload'' False
      | Some vars \<Rightarrow> execute (stringifyJSON env) (handlers env) (event_job ev vars) False)"

definition record_error :: "runner_state \<Rightarrow> runner_state" where
  "record_error st = st\<lparr>sdk_metrics := (sdk_metrics st)\<lparr>kafkaRecordErrors := kafkaRecordErrors (sdk_metrics st) + 1\<rparr>\<rparr>"

definition read_event :: "kafka_env \<Rightarrow> string \<Rightarrow> string + dispatch_event" where
  "read_event env data =
     (case decode env data of
        Inl message \<Rightarrow> Inl message
      | Inr ev \<Rightarrow> if ev_jobId ev = '''' then Inl ''Kafka record has no job ID'' else Inr ev)"

text \<open>Up to the call of the handler: the result of a record that needs none, or the event; \<open>t\<close> is the clock.\<close>

definition begin_dispatch ::
  "kafka_env \<Rightarrow> int \<Rightarrow> string \<Rightarrow> runner_state \<Rightarrow> (dispatch_result + dispatch_event) \<times> runner_state" where
  "begin_dispatch env t data st =
     (case read_event env data of
        Inl message \<Rightarrow> (Inl (Malformed message), record_error st)
      | Inr ev \<Rightarrow>
          if ev_dedupId ev \<noteq> '''' \<and> has t (ev_dedupId ev) (dedupCache st) then (Inl Duplicate, st) else (Inr ev, st))"

text \<open>From the call of the handler on: \<open>t\<close> is the clock when the delivery starts, \<open>t'\<close> when it has settled, and
  \<open>aborted_last\<close> says whether the signal is aborted by then.\<close>

definition end_dispatch ::
  "kafka_env \<Rightarrow> int \<Rightarrow> int \<Rightarrow> dispatch_event \<Rightarrow> attempt list \<Rightarrow> bool \<Rightarrow> runner_state \<Rightarrow>
   dispatch_result \<times> callback_effect list \<times> runner_state"
  where
  "end_dispatch env t t' ev ws aborted_last st =
     (case deliver (parse_object env) t (worker_id env) (ev_jobId ev) (event_outcome env ev) Kafka True ws (sdk_metrics st) of
        (r, effects, m) \<Rightarrow>
          if r \<noteq> Delivered then (Unfinished r, effects, st\<lparr>sdk_metrics := m\<rparr>)
          else if aborted_last then (Unfinished Aborted, effects, st\<lparr>sdk_metrics := m\<rparr>)
          else (Handled, effects, st\<lparr>sdk_metrics := m, dedupCache := mark t' (ev_dedupId ev) (dedupCache st)\<rparr>))"

section \<open>Interleaved dispatches\<close>

text \<open>A runner with its clock and the dispatches that have begun. \<open>dp_accepted\<close> is auxiliary, no operation reads it:
  the events that were handled, each with the time and with the effects of its delivery. The clock does not go back.\<close>

record dispatching =
  dp_runner :: runner_state
  dp_clock :: int
  dp_open :: "dispatch_event list"
  dp_accepted :: "(int \<times> dispatch_event \<times> callback_effect list) list"

definition new_dispatching :: "int option \<Rightarrow> metrics \<Rightarrow> int \<Rightarrow> dispatching" where
  "new_dispatching w m t =
     \<lparr>dp_runner = \<lparr>dedupCache = new_cache w, sdk_metrics = m\<rparr>, dp_clock = t, dp_open = [], dp_accepted = []\<rparr>"

inductive dispatch_step :: "kafka_env \<Rightarrow> dispatching \<Rightarrow> dispatching \<Rightarrow> bool" for env where
  tick: "dp_clock s \<le> t \<Longrightarrow> dispatch_step env s (s\<lparr>dp_clock := t\<rparr>)"
| sweeps: "dispatch_step env s
     (s\<lparr>dp_runner := (dp_runner s)\<lparr>dedupCache := sweep (dp_clock s) (dedupCache (dp_runner s))\<rparr>\<rparr>)"
| at_once: "begin_dispatch env (dp_clock s) data (dp_runner s) = (Inl r, rs) \<Longrightarrow>
     dispatch_step env s (s\<lparr>dp_runner := rs\<rparr>)"
| begins: "begin_dispatch env (dp_clock s) data (dp_runner s) = (Inr ev, rs) \<Longrightarrow>
     dispatch_step env s (s\<lparr>dp_runner := rs, dp_open := ev # dp_open s\<rparr>)"
| ends: "ev \<in> set (dp_open s) \<Longrightarrow> end_dispatch env t (dp_clock s) ev ws aborted_last (dp_runner s) = (r, effects, rs) \<Longrightarrow>
     dispatch_step env s
       (s\<lparr>dp_runner := rs, dp_open := remove1 ev (dp_open s),
          dp_accepted := (if r = Handled then [(dp_clock s, ev, effects)] else []) @ dp_accepted s\<rparr>)"

text \<open>What was accepted, and what the cache makes of it from now on.\<close>

definition recently_accepted :: "dispatching \<Rightarrow> int \<Rightarrow> string \<Rightarrow> int \<Rightarrow> bool" where
  "recently_accepted s window i t \<longleftrightarrow> (\<exists>(t', ev, _) \<in> set (dp_accepted s). ev_dedupId ev = i \<and> t - t' < window)"

definition engine_called :: "kafka_env \<Rightarrow> dispatch_event \<Rightarrow> callback_effect list \<Rightarrow> bool" where
  "engine_called env ev effects \<longleftrightarrow>
     (\<exists>c. callback_call (parse_object env) (ev_jobId ev) (worker_id env) (event_outcome env ev) = Some c \<and> c \<in> set effects)"

definition dispatching_inv :: "kafka_env \<Rightarrow> int \<Rightarrow> dispatching \<Rightarrow> bool" where
  "dispatching_inv env window s \<longleftrightarrow>
     distinct (map_keys (cache (dedupCache (dp_runner s)))) \<and> windowMs (dedupCache (dp_runner s)) = window \<and>
     (\<forall>(t, ev, effects) \<in> set (dp_accepted s). t \<le> dp_clock s \<and> engine_called env ev effects) \<and>
     (\<forall>i t. i \<noteq> '''' \<and> dp_clock s \<le> t \<longrightarrow> has t i (dedupCache (dp_runner s)) = recently_accepted s window i t)"

lemma begin_dispatch_cache: "begin_dispatch env t data st = (r, st') \<Longrightarrow> dedupCache st' = dedupCache st"
  by (auto simp: begin_dispatch_def record_error_def split: sum.splits if_splits)

text \<open>A handled record: the engine was called and the id is marked. Anything else leaves the cache as it was.\<close>

lemma end_dispatch_cache:
  assumes "end_dispatch env t t' ev ws a st = (r, effects, st')"
  shows "dedupCache st' = (if r = Handled then mark t' (ev_dedupId ev) (dedupCache st) else dedupCache st)"
    and "r = Handled \<Longrightarrow> engine_called env ev effects"
proof -
  let ?call = "callback_call (parse_object env) (ev_jobId ev) (worker_id env) (event_outcome env ev)"
  obtain d m where d: "deliver (parse_object env) t (worker_id env) (ev_jobId ev) (event_outcome env ev) Kafka True ws
      (sdk_metrics st) = (d, effects, m)" and r: "r = Handled \<Longrightarrow> d = Delivered"
    and "dedupCache st' = (if r = Handled then mark t' (ev_dedupId ev) (dedupCache st) else dedupCache st)"
    using assms by (auto simp: end_dispatch_def split: prod.splits if_splits)
  then show "dedupCache st' = (if r = Handled then mark t' (ev_dedupId ev) (dedupCache st) else dedupCache st)" by blast
  assume "r = Handled"
  with delivered_called [OF d refl] r obtain c where "?call = Some c" "c \<in> set effects" by blast
  then show "engine_called env ev effects" by (simp add: engine_called_def)
qed

lemma dispatching_same_cache:
  assumes "dispatching_inv env window s" "dedupCache rs = dedupCache (dp_runner s)"
  shows "dispatching_inv env window (s\<lparr>dp_runner := rs, dp_open := es\<rparr>)"
  using assms unfolding dispatching_inv_def recently_accepted_def by simp

lemma dispatching_step_inv:
  assumes "dispatch_step env s s'" "dispatching_inv env window s"
  shows "dispatching_inv env window s'"
  using assms(1)
proof cases
  case (tick t)
  with assms(2) show ?thesis unfolding dispatching_inv_def recently_accepted_def by fastforce
next
  case sweeps
  with assms(2) show ?thesis
    by (simp add: dispatching_inv_def recently_accepted_def dedup.has_sweep dedup.invar_sweep dedup.window_sweep)
next
  case (at_once data r rs)
  with assms(2) dispatching_same_cache [OF assms(2) begin_dispatch_cache [OF at_once(2)], of "dp_open s"]
  show ?thesis by simp
next
  case (begins data ev rs)
  with dispatching_same_cache [OF assms(2) begin_dispatch_cache [OF begins(2)]] show ?thesis by simp
next
  case (ends ev t ws a r effects rs)
  note cache = end_dispatch_cache [OF ends(3)]
  show ?thesis
  proof (cases "r = Handled")
    case False
    with ends(1) cache(1) dispatching_same_cache [OF assms(2)] show ?thesis by simp
  next
    case True
    let ?d = "dedupCache (dp_runner s)"
    have inv: "distinct (map_keys (cache ?d))" "windowMs ?d = window"
        "\<forall>(t, ev, effects) \<in> set (dp_accepted s). t \<le> dp_clock s \<and> engine_called env ev effects"
        "\<And>i t. i \<noteq> '''' \<Longrightarrow> dp_clock s \<le> t \<Longrightarrow> has t i ?d = recently_accepted s window i t"
      using assms(2) unfolding dispatching_inv_def by blast+
    have "has x i (mark (dp_clock s) (ev_dedupId ev) ?d) = recently_accepted s' window i x"
      if "i \<noteq> ''''" "dp_clock s \<le> x" for i x
    proof (cases "i = ev_dedupId ev")
      case same: True
      have "x - dp_clock s < window" if "recently_accepted s window i x"
        using that inv(3) unfolding recently_accepted_def by fastforce
      with True ends(1) same that(1) inv(2) show ?thesis
        by (auto simp: recently_accepted_def dedup.has_mark_same)
    qed (use True ends(1) inv(4) that in \<open>simp add: recently_accepted_def dedup.has_mark_other\<close>)
    moreover have "distinct (map_keys (cache (mark (dp_clock s) (ev_dedupId ev) ?d)))"
      by (rule dedup.invar_mark [OF inv(1)])
    ultimately show ?thesis
      using True ends(1) cache inv(2,3) by (simp add: dispatching_inv_def dedup.window_mark)
  qed
qed

lemma dispatching_reachable:
  assumes "(dispatch_step env)\<^sup>*\<^sup>* (new_dispatching w m t0) s"
  shows "dispatching_inv env (windowMs (new_cache w)) s"
  using assms
proof (induction rule: rtranclp_induct)
  case base
  then show ?case
    by (simp add: dispatching_inv_def new_dispatching_def recently_accepted_def new_cache_def has_def map_keys_def)
qed (rule dispatching_step_inv)

text \<open>C27. Duplicates are exactly the repetitions of what was delivered: however the dispatches of a runner, the sweeps of
  its cache and the clock interleave, a record is skipped if and only if it is readable, has a deduplication id, and
  less than one window ago a record with that id was handled; and every record that was handled had its outcome sent to
  the engine. So a record whose delivery failed or was aborted is never skipped on its own account, and a delivered one
  is not delivered again within the window unless both were under way at the same time.\<close>

theorem duplicates_exact:
  assumes "(dispatch_step env)\<^sup>*\<^sup>* (new_dispatching w m t0) s"
  shows "(fst (begin_dispatch env (dp_clock s) data (dp_runner s)) = Inl Duplicate \<longleftrightarrow>
      (\<exists>ev. read_event env data = Inr ev \<and> ev_dedupId ev \<noteq> '''' \<and>
         (\<exists>(t, ev', _) \<in> set (dp_accepted s). ev_dedupId ev' = ev_dedupId ev \<and> dp_clock s - t < windowMs (new_cache w)))) \<and>
    (\<forall>(t, ev, effects) \<in> set (dp_accepted s). engine_called env ev effects)"
proof -
  note inv = dispatching_reachable [OF assms]
  have "has (dp_clock s) i (dedupCache (dp_runner s)) = recently_accepted s (windowMs (new_cache w)) i (dp_clock s)" if "i \<noteq> ''''" for i
    using inv that unfolding dispatching_inv_def by blast
  then have "fst (begin_dispatch env (dp_clock s) data (dp_runner s)) = Inl Duplicate \<longleftrightarrow>
      (\<exists>ev. read_event env data = Inr ev \<and> ev_dedupId ev \<noteq> '''' \<and>
         recently_accepted s (windowMs (new_cache w)) (ev_dedupId ev) (dp_clock s))"
    by (auto simp: begin_dispatch_def split: sum.split)
  moreover have "\<forall>(t, ev, effects) \<in> set (dp_accepted s). engine_called env ev effects"
    using inv unfolding dispatching_inv_def by blast
  ultimately show ?thesis unfolding recently_accepted_def by blast
qed

section \<open>A dispatch\<close>

definition sample_env :: kafka_env where
  "sample_env = \<lparr>decode = (\<lambda>data. Inr \<lparr>ev_jobId = data, ev_dedupId = data, ev_jobType = ''t'', ev_instanceId = ''i'',
       ev_stepExecutionId = ''s'', ev_retriesRemaining = 0, ev_jobPayload = ''''\<rparr>),
     parseJSON = (\<lambda>_. Inr (JObj [])), stringifyJSON = (\<lambda>_. Inr ''{}''), handlers = [(''t'', \<lambda>_. Inr None)],
     worker_id = ''w''\<rparr>"

definition sample_event :: dispatch_event where
  "sample_event = \<lparr>ev_jobId = ''job'', ev_dedupId = ''job'', ev_jobType = ''t'', ev_instanceId = ''i'',
     ev_stepExecutionId = ''s'', ev_retriesRemaining = 0, ev_jobPayload = ''''\<rparr>"

definition sample_runner :: runner_state where
  "sample_runner = \<lparr>dedupCache = new_cache (Some 10), sdk_metrics = new_metrics\<rparr>"

lemma sample_begun: "begin_dispatch sample_env t ''job'' sample_runner = (Inr sample_event, sample_runner)"
  by (simp add: begin_dispatch_def read_event_def sample_env_def sample_runner_def sample_event_def has_def new_cache_def)

lemma sample_handled:
  "fst (end_dispatch sample_env 1 2 sample_event sample_attempts False sample_runner) = Handled"
  by (simp add: end_dispatch_def sample_env_def sample_event_def sample_runner_def event_outcome_def payload_variables_def
      execute_def get_handler_def deliver_def trackCallback_def parse_object_def sample_attempts_def permanent_def Let_def)

lemma sample_delivered:
  "\<exists>s effects. (dispatch_step sample_env)\<^sup>*\<^sup>* (new_dispatching (Some 10) new_metrics 2) s \<and> dp_clock s = 2 \<and>
     dp_accepted s = [(2, sample_event, effects)]"
proof -
  let ?s0 = "new_dispatching (Some 10) new_metrics 2"
  let ?s1 = "?s0\<lparr>dp_runner := sample_runner, dp_open := [sample_event]\<rparr>"
  have "dispatch_step sample_env ?s0 ?s1"
    using begins [of sample_env ?s0 "''job''" sample_event sample_runner] sample_begun [of 2]
    by (simp add: new_dispatching_def sample_runner_def)
  moreover obtain effects rs where "end_dispatch sample_env 1 2 sample_event sample_attempts False sample_runner = (Handled, effects, rs)"
    using sample_handled by (metis prod_cases3 fst_conv)
  then have "dispatch_step sample_env ?s1
      (?s1\<lparr>dp_runner := rs, dp_open := [], dp_accepted := [(2, sample_event, effects)]\<rparr>)"
    using ends [of sample_event ?s1 sample_env 1 sample_attempts False Handled effects rs] by (simp add: new_dispatching_def)
  ultimately have "(dispatch_step sample_env)\<^sup>*\<^sup>* ?s0
      (?s1\<lparr>dp_runner := rs, dp_open := [], dp_accepted := [(2, sample_event, effects)]\<rparr>)"
    by (meson converse_rtranclp_into_rtranclp rtranclp.rtrancl_refl)
  then show ?thesis by (force simp: new_dispatching_def)
qed

theorem duplicates_exact_witness:
  "\<exists>s. (dispatch_step sample_env)\<^sup>*\<^sup>* (new_dispatching (Some 10) new_metrics 2) s \<and>
     fst (begin_dispatch sample_env (dp_clock s) ''job'' (dp_runner s)) = Inl Duplicate \<and>
     fst (begin_dispatch sample_env (dp_clock s) ''other'' (dp_runner s)) \<noteq> Inl Duplicate"
proof -
  obtain s effects where s: "(dispatch_step sample_env)\<^sup>*\<^sup>* (new_dispatching (Some 10) new_metrics 2) s" "dp_clock s = 2"
      "dp_accepted s = [(2, sample_event, effects)]"
    using sample_delivered by blast
  have "read_event sample_env i = Inr (sample_event\<lparr>ev_jobId := i, ev_dedupId := i\<rparr>)" if "i \<noteq> ''''" for i
    using that by (simp add: read_event_def sample_env_def sample_event_def)
  with duplicates_exact [OF s(1), of "''job''"] duplicates_exact [OF s(1), of "''other''"] s show ?thesis
    by (intro exI [of _ s]) (simp add: new_cache_def sample_event_def)
qed

end
