(* ===== verification/Kafka_Consumer.thy ===== *)
theory Kafka_Consumer
  imports Kafka_Runner
begin

text \<open>
  The consumer that \<^verbatim>\<open>startConsumer\<close> of \<^verbatim>\<open>workflow-sdk-node/src/runner/kafka_runner.ts\<close> starts for one job
  type: the rebalance callback, the batch callback, the background work of a record, and \<^verbatim>\<open>stop\<close>.

  An \<^verbatim>\<open>AbortController\<close> of a partition owner is a number; \<open>aborted_owners\<close> holds those that were
  aborted. A background work is known by its owner, because \<^verbatim>\<open>active\<close> admits one work per owner. Every
  piece of code between two \<^verbatim>\<open>await\<close>s is one function on the state and one rule of \<open>consumer_step\<close>.

  The last group of fields is the world: the offsets committed at the broker, the position and the
  paused partitions of the client, and the partitions whose rebalance callback is still awaited.
  \<open>acked\<close> is an auxiliary field, the records whose dispatch has finished; no operation reads it, and the records before
  the offsets the consumer group starts at count as dispatched.
\<close>

type_synonym partition = nat
type_synonym owner = nat

datatype stage = Running | Delivering dispatch_event | Dispatched | Committing bool

fun underway :: "stage \<Rightarrow> bool" where
  "underway Running = True"
| "underway (Delivering _) = True"
| "underway _ = False"

record work =
  w_partition :: partition
  w_offset :: nat
  w_stage :: stage

record consumer =
  owners :: "partition \<rightharpoonup> owner"
  active :: "partition \<rightharpoonup> owner"
  commits :: "partition \<rightharpoonup> nat"
  aborted_owners :: "owner set"
  next_owner :: owner
  shut_down :: bool
  works :: "owner \<rightharpoonup> work"
  runner :: runner_state
  committed :: "partition \<Rightarrow> nat"
  position :: "partition \<Rightarrow> nat"
  paused :: "partition set"
  handing_over :: "partition set"
  acked :: "(partition \<times> nat) set"

definition topic :: "string \<Rightarrow> string" where
  "topic jt = ''workflow.jobs.'' @ jt"

definition group_id :: "string \<Rightarrow> string" where
  "group_id jt = ''workflow.workers.'' @ jt"

definition start_consumer :: "runner_state \<Rightarrow> (partition \<Rightarrow> nat) \<Rightarrow> consumer" where
  "start_consumer r offsets =
     \<lparr>owners = Map.empty, active = Map.empty, commits = Map.empty, aborted_owners = {}, next_owner = 0,
      shut_down = False, works = Map.empty, runner = r, committed = offsets, position = offsets, paused = {},
      handing_over = {}, acked = {(p, i) |p i. i < offsets p}\<rparr>"

section \<open>The pieces of code\<close>

text \<open>The signal of a work.\<close>

definition signal_aborted :: "consumer \<Rightarrow> owner \<Rightarrow> bool" where
  "signal_aborted s w \<longleftrightarrow> w \<in> aborted_owners s \<or> shut_down s"

definition on_assign :: "partition \<Rightarrow> consumer \<Rightarrow> consumer" where
  "on_assign p s =
     (case owners s p of
        None \<Rightarrow> s\<lparr>owners := (owners s)(p \<mapsto> next_owner s), next_owner := next_owner s + 1\<rparr>
      | Some _ \<Rightarrow> s)"

definition on_revoke :: "partition \<Rightarrow> consumer \<Rightarrow> consumer" where
  "on_revoke p s =
     (case owners s p of
        Some w \<Rightarrow> s\<lparr>aborted_owners := insert w (aborted_owners s), owners := (owners s)(p := None)\<rparr>
      | None \<Rightarrow> s)"

text \<open>\<^verbatim>\<open>eachBatch\<close> up to where it returns; \<open>stale\<close> is \<^verbatim>\<open>isStale() || !isRunning()\<close> and \<open>first\<close> the offset of
  \<^verbatim>\<open>messages[0]\<close>.\<close>

definition each_batch :: "partition \<Rightarrow> nat option \<Rightarrow> bool \<Rightarrow> consumer \<Rightarrow> consumer" where
  "each_batch p first stale s =
     (case (first, owners s p) of
        (Some o', Some w) \<Rightarrow>
          if shut_down s \<or> stale \<or> active s p = Some w then s
          else s\<lparr>active := (active s)(p \<mapsto> w), paused := insert p (paused s),
                 works := (works s)(w \<mapsto> \<lparr>w_partition = p, w_offset = o', w_stage = Running\<rparr>)\<rparr>
      | _ \<Rightarrow> s)"

text \<open>The \<^verbatim>\<open>finally\<close> of a work, whether it returned or failed.\<close>

definition finish_work :: "owner \<Rightarrow> consumer \<Rightarrow> consumer" where
  "finish_work w s =
     (case works s w of
        None \<Rightarrow> s
      | Some k \<Rightarrow>
          s\<lparr>works := (works s)(w := None),
            active := (if active s (w_partition k) = Some w then (active s)(w_partition k := None) else active s)\<rparr>)"

text \<open>From the start of a work to the handler of its record. An empty record is counted and fails.\<close>

definition begin_work :: "kafka_env \<Rightarrow> int \<Rightarrow> string option \<Rightarrow> owner \<Rightarrow> work \<Rightarrow> consumer \<Rightarrow> consumer" where
  "begin_work env t data w k s =
     (if signal_aborted s w then finish_work w s
      else case data of
             None \<Rightarrow> finish_work w (s\<lparr>runner := record_error (runner s)\<rparr>)
           | Some bytes \<Rightarrow>
               (case begin_dispatch env t bytes (runner s) of
                  (Inr ev, rs) \<Rightarrow> s\<lparr>runner := rs, works := (works s)(w \<mapsto> k\<lparr>w_stage := Delivering ev\<rparr>)\<rparr>
                | (Inl r, rs) \<Rightarrow>
                    if r = Duplicate
                    then s\<lparr>runner := rs, works := (works s)(w \<mapsto> k\<lparr>w_stage := Dispatched\<rparr>),
                           acked := insert (w_partition k, w_offset k) (acked s)\<rparr>
                    else finish_work w (s\<lparr>runner := rs\<rparr>)))"

text \<open>The rest of the dispatch, when its delivery has settled.\<close>

definition run_dispatch ::
  "kafka_env \<Rightarrow> int \<Rightarrow> int \<Rightarrow> dispatch_event \<Rightarrow> attempt list \<Rightarrow> bool \<Rightarrow> owner \<Rightarrow> work \<Rightarrow> consumer \<Rightarrow> consumer"
  where
  "run_dispatch env t t' ev ws aborted_last w k s =
     (case end_dispatch env t t' ev ws aborted_last (runner s) of
        (r, _, rs) \<Rightarrow>
          if r = Handled
          then s\<lparr>runner := rs, works := (works s)(w \<mapsto> k\<lparr>w_stage := Dispatched\<rparr>),
                 acked := insert (w_partition k, w_offset k) (acked s)\<rparr>
          else finish_work w (s\<lparr>runner := rs\<rparr>))"

text \<open>After the dispatch: submit the commit if the partition is still owned.\<close>

definition submit_commit :: "owner \<Rightarrow> work \<Rightarrow> consumer \<Rightarrow> consumer" where
  "submit_commit w k s =
     (if signal_aborted s w \<or> owners s (w_partition k) \<noteq> Some w then finish_work w s
      else s\<lparr>commits := (commits s)(w_partition k \<mapsto> w_offset k + 1),
             works := (works s)(w \<mapsto> k\<lparr>w_stage := Committing False\<rparr>)\<rparr>)"

text \<open>After the commit: forget it, and go on with the next record if the partition is still owned.\<close>

definition commit_settled :: "bool \<Rightarrow> owner \<Rightarrow> work \<Rightarrow> consumer \<Rightarrow> consumer" where
  "commit_settled ok w k s =
     (let p = w_partition k; s' = s\<lparr>commits := (commits s)(p := None)\<rparr>
      in if ok \<and> \<not> signal_aborted s w \<and> owners s p = Some w
         then finish_work w (s'\<lparr>position := (position s')(p := w_offset k + 1), paused := paused s' - {p}\<rparr>)
         else finish_work w s')"

definition stop_runner :: "consumer \<Rightarrow> consumer" where
  "stop_runner s = s\<lparr>shut_down := True\<rparr>"

section \<open>Interleaving\<close>

text \<open>\<open>recs p\<close> are the offsets of the records of a partition. \<open>first_record\<close> is the first one at or after a
  position.\<close>

definition first_record :: "nat set \<Rightarrow> nat \<Rightarrow> nat \<Rightarrow> bool" where
  "first_record L n o' \<longleftrightarrow> o' \<in> L \<and> n \<le> o' \<and> (\<forall>i \<in> L. n \<le> i \<longrightarrow> o' \<le> i)"

inductive consumer_step :: "kafka_env \<Rightarrow> (partition \<Rightarrow> nat set) \<Rightarrow> consumer \<Rightarrow> consumer \<Rightarrow> bool"
  for env recs where
  assign: "p \<notin> handing_over s \<Longrightarrow> owners s p = None \<Longrightarrow>
     consumer_step env recs s
       ((on_assign p s)\<lparr>position := (position s)(p := committed s p), paused := paused s - {p}\<rparr>)"
| revoke: "owners s p \<noteq> None \<Longrightarrow>
     consumer_step env recs s ((on_revoke p s)\<lparr>handing_over := insert p (handing_over s)\<rparr>)"
| revoked: "p \<in> handing_over s \<Longrightarrow> commits s p = None \<Longrightarrow>
     consumer_step env recs s (s\<lparr>handing_over := handing_over s - {p}\<rparr>)"
| batch: "p \<notin> paused s \<Longrightarrow> (\<And>i. first = Some i \<Longrightarrow> first_record (recs p) (position s p) i) \<Longrightarrow>
     consumer_step env recs s (each_batch p first stale s)"
| begun: "works s w = Some k \<Longrightarrow> w_stage k = Running \<Longrightarrow> consumer_step env recs s (begin_work env t data w k s)"
| dispatched: "works s w = Some k \<Longrightarrow> w_stage k = Delivering ev \<Longrightarrow>
     consumer_step env recs s (run_dispatch env t t' ev ws aborted_last w k s)"
| committing: "works s w = Some k \<Longrightarrow> w_stage k = Dispatched \<Longrightarrow> consumer_step env recs s (submit_commit w k s)"
| broker_commits: "works s w = Some k \<Longrightarrow> w_stage k = Committing False \<Longrightarrow>
     consumer_step env recs s
       (s\<lparr>committed := (committed s)(w_partition k := w_offset k + 1),
          works := (works s)(w \<mapsto> k\<lparr>w_stage := Committing True\<rparr>)\<rparr>)"
| commit_accepted: "works s w = Some k \<Longrightarrow> w_stage k = Committing True \<Longrightarrow>
     consumer_step env recs s (commit_settled True w k s)"
| commit_failed: "works s w = Some k \<Longrightarrow> w_stage k = Committing b \<Longrightarrow>
     consumer_step env recs s (commit_settled False w k s)"
| other_member: "owners s p = None \<Longrightarrow> p \<notin> handing_over s \<Longrightarrow> committed s p \<le> n \<Longrightarrow>
     consumer_step env recs s
       (s\<lparr>committed := (committed s)(p := n), acked := acked s \<union> {(p, i) |i. i < n}\<rparr>)"
| stopping: "consumer_step env recs s (stop_runner s)"

end
