(* ===== verification/Kafka_Safety.thy ===== *)
theory Kafka_Safety
  imports Kafka_Consumer
begin

text \<open>
  What the Kafka consumer guarantees in every reachable state: no record below a committed offset is
  undispatched, committed offsets never go back, and a dispatched record can be finished. The invariant
  has four parts, each kept by every rule of \<open>consumer_step\<close>: \<open>progress_inv\<close> (no gaps), \<open>names_inv\<close>
  (owners are fresh and own one partition), \<open>commit_inv\<close> (one protected commit per partition) and
  \<open>offset_inv\<close> (where the client and the broker stand).
\<close>

section \<open>Nothing is skipped\<close>

definition no_gap :: "(partition \<Rightarrow> nat set) \<Rightarrow> consumer \<Rightarrow> partition \<Rightarrow> nat \<Rightarrow> bool" where
  "no_gap recs s p n \<longleftrightarrow> (\<forall>i \<in> recs p. i < n \<longrightarrow> (p, i) \<in> acked s)"

definition progress_inv :: "(partition \<Rightarrow> nat set) \<Rightarrow> consumer \<Rightarrow> bool" where
  "progress_inv recs s \<longleftrightarrow>
     (\<forall>p. no_gap recs s p (committed s p)) \<and> (\<forall>p. no_gap recs s p (position s p)) \<and>
     (\<forall>w k. works s w = Some k \<longrightarrow> no_gap recs s (w_partition k) (w_offset k) \<and>
        (underway (w_stage k) \<or> (w_partition k, w_offset k) \<in> acked s))"

lemma no_gap_Suc: "no_gap recs s p n \<Longrightarrow> (p, n) \<in> acked s \<Longrightarrow> no_gap recs s p (Suc n)"
  by (auto simp: no_gap_def less_Suc_eq)

lemma no_gap_mono: "no_gap recs s p n \<Longrightarrow> acked s \<subseteq> acked s' \<Longrightarrow> no_gap recs s' p n"
  by (auto simp: no_gap_def)

lemma finish_work_keeps [simp]:
  "owners (finish_work w s) = owners s" "commits (finish_work w s) = commits s"
  "committed (finish_work w s) = committed s" "position (finish_work w s) = position s"
  "paused (finish_work w s) = paused s" "handing_over (finish_work w s) = handing_over s"
  "acked (finish_work w s) = acked s" "next_owner (finish_work w s) = next_owner s"
  "works (finish_work w s) = (works s)(w := None)"
  by (auto simp: finish_work_def split: option.split)

text \<open>A state with fewer works, the same world and more acknowledged records.\<close>

lemma progress_less:
  assumes "progress_inv recs s" "committed s' = committed s" "\<And>p. position s' p = position s p \<or> no_gap recs s p (position s' p)"
    "acked s \<subseteq> acked s'"
    "\<And>w k. works s' w = Some k \<Longrightarrow> works s w = Some k \<or>
       (no_gap recs s (w_partition k) (w_offset k) \<and> (underway (w_stage k) \<or> (w_partition k, w_offset k) \<in> acked s'))"
  shows "progress_inv recs s'"
proof -
  have "no_gap recs s' p (committed s' p)" for p
    using assms(1,2,4) no_gap_mono by (metis progress_inv_def)
  moreover have "no_gap recs s' p (position s' p)" for p
    using assms(1,3,4) no_gap_mono by (metis progress_inv_def)
  moreover have "no_gap recs s' (w_partition k) (w_offset k) \<and>
      (underway (w_stage k) \<or> (w_partition k, w_offset k) \<in> acked s')" if "works s' w = Some k" for w k
    using assms(5) [OF that] assms(1,4) no_gap_mono unfolding progress_inv_def by blast
  ultimately show ?thesis by (simp add: progress_inv_def)
qed

text \<open>A step of a work up to the end of its dispatch acknowledges the record, ends the work or goes on with the handler.\<close>

lemma work_cases:
  assumes "s' = begin_work env t data w k s \<or> s' = run_dispatch env t t' ev ws a w k s"
  obtains (acks) rs where "s' = s\<lparr>runner := rs, works := (works s)(w \<mapsto> k\<lparr>w_stage := Dispatched\<rparr>),
        acked := insert (w_partition k, w_offset k) (acked s)\<rparr>"
    | (fails) rs where "s' = finish_work w (s\<lparr>runner := rs\<rparr>)"
    | (goes_on) rs ev' where "s' = s\<lparr>runner := rs, works := (works s)(w \<mapsto> k\<lparr>w_stage := Delivering ev'\<rparr>)\<rparr>"
proof -
  have same: "s\<lparr>runner := runner s\<rparr> = s" by simp
  from assms show thesis
  proof
    assume "s' = begin_work env t data w k s"
    then show thesis using acks fails goes_on fails [of "runner s", unfolded same]
      by (auto simp: begin_work_def split: if_splits option.splits prod.splits sum.splits)
  next
    assume "s' = run_dispatch env t t' ev ws a w k s"
    then show thesis using acks fails by (auto simp: run_dispatch_def split: if_splits prod.splits)
  qed
qed

lemmas begun_cases = work_cases [OF disjI1 [OF refl]]
lemmas dispatched_cases = work_cases [OF disjI2 [OF refl]]

lemma progress_work:
  assumes "progress_inv recs s" "works s w = Some k"
  shows "no_gap recs s (w_partition k) (w_offset k)"
    and "\<not> underway (w_stage k) \<Longrightarrow> (w_partition k, w_offset k) \<in> acked s"
  using assms unfolding progress_inv_def by blast+

lemma step_progress:
  assumes "consumer_step env recs s s'" "progress_inv recs s"
  shows "progress_inv recs s'"
  using assms(1)
proof cases
  case (assign p)
  then show ?thesis using assms(2)
    by (intro progress_less [OF assms(2)]) (auto simp: on_assign_def progress_inv_def)
next
  case (revoke p)
  then show ?thesis
    by (intro progress_less [OF assms(2)]) (auto simp: on_revoke_def)
next
  case (revoked p)
  then show ?thesis by (intro progress_less [OF assms(2)]) auto
next
  case (batch p first stale)
  have "no_gap recs s p i" if "first = Some i" for i
    using batch(3) [OF that] assms(2) by (fastforce simp: first_record_def no_gap_def progress_inv_def)
  then show ?thesis unfolding batch(1)
    by (intro progress_less [OF assms(2)]) (auto simp: each_batch_def split: option.splits if_splits)
next
  case (begun w k t data)
  have k: "no_gap recs s (w_partition k) (w_offset k)" using begun(2) assms(2) by (auto simp: progress_inv_def)
  show ?thesis unfolding begun(1)
    by (cases rule: begun_cases [of env t data w k s])
      (use k in \<open>auto intro!: progress_less [OF assms(2)] split: if_splits\<close>)
next
  case (dispatched w k ev t t' ws a)
  have k: "no_gap recs s (w_partition k) (w_offset k)" using dispatched(2) assms(2) by (auto simp: progress_inv_def)
  show ?thesis unfolding dispatched(1)
    by (cases rule: dispatched_cases [of env t t' ev ws a w k s])
      (use k in \<open>auto intro!: progress_less [OF assms(2)] split: if_splits\<close>)
next
  case (committing w k)
  have k: "no_gap recs s (w_partition k) (w_offset k)" "(w_partition k, w_offset k) \<in> acked s"
    using progress_work [OF assms(2) committing(2)] committing(3) by simp_all
  show ?thesis unfolding committing(1)
    by (intro progress_less [OF assms(2)]) (use k in \<open>auto simp: submit_commit_def split: if_splits\<close>)
next
  case (broker_commits w k)
  have k: "no_gap recs s (w_partition k) (Suc (w_offset k))" "no_gap recs s (w_partition k) (w_offset k)"
      "(w_partition k, w_offset k) \<in> acked s"
    using progress_work [OF assms(2) broker_commits(2)] broker_commits(3) no_gap_Suc by simp_all
  then show ?thesis unfolding broker_commits(1) using assms(2) by (auto simp: progress_inv_def no_gap_def)
next
  case (commit_accepted w k)
  have k: "no_gap recs s (w_partition k) (Suc (w_offset k))"
    using progress_work [OF assms(2) commit_accepted(2)] commit_accepted(3) no_gap_Suc by simp
  show ?thesis unfolding commit_accepted(1)
    by (intro progress_less [OF assms(2)]) (use k in \<open>auto simp: commit_settled_def Let_def split: if_splits\<close>)
next
  case (commit_failed w k b)
  show ?thesis unfolding commit_failed(1)
    by (intro progress_less [OF assms(2)]) (auto simp: commit_settled_def Let_def split: if_splits)
next
  case (other_member p n)
  then show ?thesis using assms(2) by (auto simp: progress_inv_def no_gap_def)
next
  case stopping
  then show ?thesis by (intro progress_less [OF assms(2)]) (auto simp: stop_runner_def)
qed

section \<open>Commits never go back\<close>

text \<open>
  Who may touch the committed offset of a partition: its owner, or an owner whose commit is under way
  while the partition is being handed over.
\<close>

definition protected :: "consumer \<Rightarrow> owner \<Rightarrow> partition \<Rightarrow> bool" where
  "protected s w p \<longleftrightarrow> owners s p = Some w \<or> (p \<in> handing_over s \<and> owners s p = None)"

definition names_inv :: "consumer \<Rightarrow> bool" where
  "names_inv s \<longleftrightarrow> (\<forall>p w. owners s p = Some w \<longrightarrow> w < next_owner s) \<and> (\<forall>w k. works s w = Some k \<longrightarrow> w < next_owner s) \<and>
     (\<forall>p q w. owners s p = Some w \<longrightarrow> owners s q = Some w \<longrightarrow> p = q) \<and>
     (\<forall>p w k. owners s p = Some w \<longrightarrow> works s w = Some k \<longrightarrow> w_partition k = p \<and> p \<in> paused s) \<and>
     (\<forall>p \<in> handing_over s. owners s p = None)"

definition commit_inv :: "consumer \<Rightarrow> bool" where
  "commit_inv s \<longleftrightarrow>
     (\<forall>w k b. works s w = Some k \<longrightarrow> w_stage k = Committing b \<longrightarrow>
        commits s (w_partition k) \<noteq> None \<and> protected s w (w_partition k)) \<and>
     (\<forall>w k b w' k' b'. works s w = Some k \<longrightarrow> works s w' = Some k' \<longrightarrow> w_stage k = Committing b \<longrightarrow>
        w_stage k' = Committing b' \<longrightarrow> w_partition k = w_partition k' \<longrightarrow> w = w')"

definition offset_inv :: "consumer \<Rightarrow> bool" where
  "offset_inv s \<longleftrightarrow>
     (\<forall>p w. owners s p = Some w \<longrightarrow> p \<notin> paused s \<longrightarrow> position s p = committed s p) \<and>
     (\<forall>w k. works s w = Some k \<longrightarrow> owners s (w_partition k) = Some w \<or> w_stage k = Committing False \<longrightarrow>
        w_stage k \<noteq> Committing True \<longrightarrow> committed s (w_partition k) \<le> w_offset k) \<and>
     (\<forall>w k. works s w = Some k \<longrightarrow> w_stage k = Committing True \<longrightarrow> committed s (w_partition k) = w_offset k + 1)"

lemma names_invI:
  assumes "\<And>p w. owners s p = Some w \<Longrightarrow> w < next_owner s" "\<And>w k. works s w = Some k \<Longrightarrow> w < next_owner s"
    "\<And>p q w. owners s p = Some w \<Longrightarrow> owners s q = Some w \<Longrightarrow> p = q"
    "\<And>p w k. owners s p = Some w \<Longrightarrow> works s w = Some k \<Longrightarrow> w_partition k = p \<and> p \<in> paused s"
    "\<And>p. p \<in> handing_over s \<Longrightarrow> owners s p = None"
  shows "names_inv s"
  using assms unfolding names_inv_def by blast

lemma names_invD:
  assumes "names_inv s"
  shows "owners s p = Some w \<Longrightarrow> w < next_owner s" "works s w = Some k \<Longrightarrow> w < next_owner s"
    "owners s p = Some w \<Longrightarrow> owners s q = Some w \<Longrightarrow> p = q"
    "owners s p = Some w \<Longrightarrow> works s w = Some k \<Longrightarrow> w_partition k = p \<and> p \<in> paused s"
    "p \<in> handing_over s \<Longrightarrow> owners s p = None"
  using assms unfolding names_inv_def by blast+

lemma fresh_owner:
  assumes "names_inv s"
  shows "works s (next_owner s) = None" "owners s p \<noteq> Some (next_owner s)"
  using names_invD(1) [OF assms, of p "next_owner s"] names_invD(2) [OF assms, of "next_owner s"]
  by (auto simp del: not_None_eq intro: ccontr)

text \<open>A step that assigns nothing, takes no owner away but to hand its partition over, and only changes
  works that exist.\<close>

lemma names_less:
  assumes "names_inv s" "\<And>p w. owners s' p = Some w \<Longrightarrow> owners s p = Some w" "next_owner s' = next_owner s"
    "\<And>w k. works s' w = Some k \<Longrightarrow> \<exists>k0. works s w = Some k0 \<and> w_partition k = w_partition k0"
    "\<And>p w k. owners s' p = Some w \<Longrightarrow> works s' w = Some k \<Longrightarrow> p \<in> paused s \<Longrightarrow> p \<in> paused s'"
    "\<And>p. p \<in> handing_over s' \<Longrightarrow> owners s' p = None"
  shows "names_inv s'"
proof (rule names_invI)
  show "w < next_owner s'" if "owners s' p = Some w" for p w
    using names_invD(1) [OF assms(1) assms(2) [OF that]] assms(3) by simp
  show "w < next_owner s'" if "works s' w = Some k" for w k
    using assms(4) [OF that] names_invD(2) [OF assms(1)] assms(3) by auto
  show "p = q" if "owners s' p = Some w" "owners s' q = Some w" for p q w
    using names_invD(3) [OF assms(1)] assms(2) that by blast
  show "w_partition k = p \<and> p \<in> paused s'" if o: "owners s' p = Some w" and k: "works s' w = Some k" for p w k
  proof -
    obtain k0 where "works s w = Some k0" "w_partition k = w_partition k0" using assms(4) [OF k] by blast
    with names_invD(4) [OF assms(1) assms(2) [OF o]] assms(5) [OF o k] show ?thesis by simp
  qed
qed (rule assms(6))

lemma step_names:
  assumes "consumer_step env recs s s'" "names_inv s"
  shows "names_inv s'"
  using assms(1)
proof cases
  case (assign p)
  then have a: "on_assign p s = s\<lparr>owners := (owners s)(p \<mapsto> next_owner s), next_owner := next_owner s + 1\<rparr>"
    by (simp add: on_assign_def)
  note D = names_invD [OF assms(2)] and n = fresh_owner [OF assms(2)]
  show ?thesis unfolding assign(1) a
  proof (rule names_invI, goal_cases)
    case (1 q w)
    then show ?case using D(1) [of q w] by (auto split: if_splits)
  next
    case (2 w k)
    then show ?case using D(2) [of w k] by simp
  next
    case (3 q q' w)
    then show ?case using D(3) [of q w q'] n(2) by (auto split: if_splits)
  next
    case (4 q w k)
    then show ?case using D(4) [of q w k] n(1) by (auto split: if_splits)
  next
    case (5 q)
    then show ?case using D(5) [of q] assign(2) by (auto split: if_splits)
  qed
next
  case (batch p first stale)
  show ?thesis
  proof (cases "each_batch p first stale s = s")
    case True
    with batch assms(2) show ?thesis by simp
  next
    case False
    then obtain i w where w: "owners s p = Some w" and b: "each_batch p first stale s =
        s\<lparr>active := (active s)(p \<mapsto> w), paused := insert p (paused s),
          works := (works s)(w \<mapsto> \<lparr>w_partition = p, w_offset = i, w_stage = Running\<rparr>)\<rparr>"
      by (auto simp: each_batch_def split: option.splits if_splits)
    note D = names_invD [OF assms(2)]
    show ?thesis unfolding batch(1) b
    proof (rule names_invI, goal_cases)
      case (4 q w' k)
      then show ?case using D(4) [of q w' k] D(3) [of p w q] w by (auto split: if_splits)
    qed (use D(1-3,5) w in \<open>auto split: if_splits\<close>)
  qed
next
  case (begun w k t data)
  note D = names_invD [OF assms(2)]
  show ?thesis unfolding begun(1)
    by (cases rule: begun_cases [of env t data w k s])
      (auto intro!: names_less [OF assms(2)] simp: D(5) begun(2) split: if_splits)
next
  case (dispatched w k ev t t' ws a)
  note D = names_invD [OF assms(2)]
  show ?thesis unfolding dispatched(1)
    by (cases rule: dispatched_cases [of env t t' ev ws a w k s])
      (auto intro!: names_less [OF assms(2)] simp: D(5) dispatched(2) split: if_splits)
next
  case (committing w k)
  then show ?thesis using names_invD(5) [OF assms(2)]
    by (auto intro!: names_less [OF assms(2)] simp: submit_commit_def split: if_splits)
next
  case (broker_commits w k)
  then show ?thesis using names_invD(5) [OF assms(2)]
    by (auto intro!: names_less [OF assms(2)] split: if_splits)
next
  case (commit_accepted w k)
  then show ?thesis using names_invD(3,5) [OF assms(2)]
    by (auto intro!: names_less [OF assms(2)] simp: commit_settled_def Let_def split: if_splits)
next
  case (commit_failed w k b)
  then show ?thesis using names_invD(5) [OF assms(2)]
    by (auto intro!: names_less [OF assms(2)] simp: commit_settled_def Let_def split: if_splits)
qed (use names_invD(5) [OF assms(2)] in \<open>auto intro!: names_less [OF assms(2)] simp: stop_runner_def on_revoke_def split: if_splits option.splits\<close>)

lemma commit_invI:
  assumes "\<And>w k b. works s w = Some k \<Longrightarrow> w_stage k = Committing b \<Longrightarrow> commits s (w_partition k) \<noteq> None"
    "\<And>w k b. works s w = Some k \<Longrightarrow> w_stage k = Committing b \<Longrightarrow> protected s w (w_partition k)"
    "\<And>w k b w' k' b'. works s w = Some k \<Longrightarrow> works s w' = Some k' \<Longrightarrow> w_stage k = Committing b \<Longrightarrow>
        w_stage k' = Committing b' \<Longrightarrow> w_partition k = w_partition k' \<Longrightarrow> w = w'"
  shows "commit_inv s"
  unfolding commit_inv_def using assms by blast

lemma commit_invD:
  assumes "commit_inv s" "works s w = Some k" "w_stage k = Committing b"
  shows "commits s (w_partition k) \<noteq> None" "protected s w (w_partition k)"
    "works s w' = Some k' \<Longrightarrow> w_stage k' = Committing b' \<Longrightarrow> w_partition k' = w_partition k \<Longrightarrow> w' = w"
  using assms unfolding commit_inv_def by (blast, blast, metis)

text \<open>Steps that neither take a commit or an owner away nor begin a commit.\<close>

lemma commit_less:
  assumes "commit_inv s"
    "\<And>w k b. works s' w = Some k \<Longrightarrow> w_stage k = Committing b \<Longrightarrow>
       \<exists>k0 b0. works s w = Some k0 \<and> w_partition k0 = w_partition k \<and> w_stage k0 = Committing b0"
    "\<And>w k b. works s' w = Some k \<Longrightarrow> w_stage k = Committing b \<Longrightarrow> protected s w (w_partition k) \<Longrightarrow>
       commits s' (w_partition k) = commits s (w_partition k) \<and> protected s' w (w_partition k)"
  shows "commit_inv s'"
proof (rule commit_invI)
  fix w k b assume k: "works s' w = Some k" "w_stage k = Committing b"
  obtain k0 b0 where k0: "works s w = Some k0" "w_partition k0 = w_partition k" "w_stage k0 = Committing b0"
    using assms(2) [OF k] by blast
  note d = commit_invD [OF assms(1) k0(1,3)]
  show "commits s' (w_partition k) \<noteq> None" "protected s' w (w_partition k)"
    using assms(3) [OF k] d(1,2) k0(2) by simp_all
  fix w' k' b' assume k': "works s' w' = Some k'" "w_stage k' = Committing b'" "w_partition k = w_partition k'"
  obtain k1 b1 where "works s w' = Some k1" "w_partition k1 = w_partition k'" "w_stage k1 = Committing b1"
    using assms(2) [OF k'(1,2)] by blast
  then show "w = w'" using d(3) [of w' k1 b1] k0(2) k'(3) by simp
qed

lemma settled_commits:
  assumes "commit_inv s" "works s w = Some k" "w_stage k = Committing b"
  shows "commit_inv (commit_settled ok w k s)"
proof -
  have w: "works (commit_settled ok w k s) = (works s)(w := None)"
    and c: "commits (commit_settled ok w k s) = (commits s)(w_partition k := None)"
    and o: "owners (commit_settled ok w k s) = owners s" "handing_over (commit_settled ok w k s) = handing_over s"
    by (simp_all add: commit_settled_def Let_def)
  have other: "w' \<noteq> w \<and> works s w' = Some k' \<and> w_partition k' \<noteq> w_partition k"
    if "works (commit_settled ok w k s) w' = Some k'" "w_stage k' = Committing b'" for w' k' b'
    using that commit_invD(3) [OF assms, of w' k' b'] by (auto simp: w split: if_splits)
  show ?thesis
    by (rule commit_less [OF assms(1)]) (use other in \<open>auto simp: c o protected_def\<close>)
qed

lemma step_commits:
  assumes "consumer_step env recs s s'" "names_inv s" "commit_inv s"
  shows "commit_inv s'"
  using assms(1)
proof cases
  case (assign p)
  then show ?thesis
    by (intro commit_less [OF assms(3)]) (auto simp: on_assign_def protected_def split: if_splits)
next
  case (revoke p)
  then show ?thesis using names_invD(5) [OF assms(2)]
    by (intro commit_less [OF assms(3)]) (auto simp: on_revoke_def protected_def split: if_splits option.splits)
next
  case (revoked p)
  have "w_partition k \<noteq> p" if "works s w = Some k" "w_stage k = Committing b" for w k b
    using commit_invD(1) [OF assms(3) that] revoked(3) by auto
  then show ?thesis unfolding revoked(1)
    by (intro commit_less [OF assms(3)]) (auto simp: protected_def)
next
  case (batch p first stale)
  then show ?thesis
    by (intro commit_less [OF assms(3)])
      (auto simp: each_batch_def protected_def split: option.splits if_splits)
next
  case (begun w k t data)
  show ?thesis unfolding begun(1)
    by (cases rule: begun_cases [of env t data w k s])
      (auto intro!: commit_less [OF assms(3)] simp: protected_def split: if_splits)
next
  case (dispatched w k ev t t' ws a)
  show ?thesis unfolding dispatched(1)
    by (cases rule: dispatched_cases [of env t t' ev ws a w k s])
      (auto intro!: commit_less [OF assms(3)] simp: protected_def split: if_splits)
next
  case (committing w k)
  show ?thesis
  proof (cases "signal_aborted s w \<or> owners s (w_partition k) \<noteq> Some w")
    case True
    then show ?thesis unfolding committing(1)
      by (intro commit_less [OF assms(3)]) (auto simp: submit_commit_def protected_def split: if_splits)
  next
    case False
    then have o: "owners s (w_partition k) = Some w" and b: "submit_commit w k s =
        s\<lparr>commits := (commits s)(w_partition k \<mapsto> w_offset k + 1), works := (works s)(w \<mapsto> k\<lparr>w_stage := Committing False\<rparr>)\<rparr>"
      by (simp_all add: submit_commit_def)
    have only: "w' = w" if "works s w' = Some k'" "w_stage k' = Committing b'" "w_partition k' = w_partition k" for w' k' b'
      using commit_invD(2) [OF assms(3) that(1,2)] that(3) o by (simp add: protected_def)
    show ?thesis unfolding committing(1) b
    proof (rule commit_invI, goal_cases)
      case (1 w' k' b')
      then show ?case using commit_invD(1) [OF assms(3), of w' k' b'] by (auto split: if_splits)
    next
      case (2 w' k' b')
      then show ?case using commit_invD(2) [OF assms(3), of w' k' b'] o by (auto simp: protected_def split: if_splits)
    next
      case (3 w1 k1 b1 w2 k2 b2)
      then show ?case
        using only [of w1 k1 b1] only [of w2 k2 b2] commit_invD(3) [OF assms(3), of w1 k1 b1 w2 k2 b2]
        by (auto split: if_splits)
    qed
  qed
next
  case (broker_commits w k)
  then show ?thesis
    by (intro commit_less [OF assms(3)]) (auto simp: protected_def split: if_splits)
next
  case (commit_accepted w k)
  show ?thesis unfolding commit_accepted(1) by (rule settled_commits [OF assms(3) commit_accepted(2,3)])
next
  case (commit_failed w k b)
  show ?thesis unfolding commit_failed(1) by (rule settled_commits [OF assms(3) commit_failed(2,3)])
qed (auto intro!: commit_less [OF assms(3)] simp: protected_def stop_runner_def)

lemma offset_invI:
  assumes "\<And>p w. owners s p = Some w \<Longrightarrow> p \<notin> paused s \<Longrightarrow> position s p = committed s p"
    "\<And>w k. works s w = Some k \<Longrightarrow> owners s (w_partition k) = Some w \<or> w_stage k = Committing False \<Longrightarrow>
        w_stage k \<noteq> Committing True \<Longrightarrow> committed s (w_partition k) \<le> w_offset k"
    "\<And>w k. works s w = Some k \<Longrightarrow> w_stage k = Committing True \<Longrightarrow> committed s (w_partition k) = w_offset k + 1"
  shows "offset_inv s"
  unfolding offset_inv_def using assms by blast

lemma offset_invD:
  assumes "offset_inv s"
  shows "owners s p = Some w \<Longrightarrow> p \<notin> paused s \<Longrightarrow> position s p = committed s p"
    "works s w = Some k \<Longrightarrow> owners s (w_partition k) = Some w \<or> w_stage k = Committing False \<Longrightarrow>
        w_stage k \<noteq> Committing True \<Longrightarrow> committed s (w_partition k) \<le> w_offset k"
    "works s w = Some k \<Longrightarrow> w_stage k = Committing True \<Longrightarrow> committed s (w_partition k) = w_offset k + 1"
  using assms unfolding offset_inv_def by blast+

text \<open>Steps that leave the committed offsets alone.\<close>

lemma offset_less:
  assumes "offset_inv s" "committed s' = committed s"
    "\<And>p w. owners s' p = Some w \<Longrightarrow> p \<notin> paused s' \<Longrightarrow>
       position s' p = committed s p \<or> owners s p = Some w \<and> p \<notin> paused s \<and> position s' p = position s p"
    "\<And>w k. works s' w = Some k \<Longrightarrow> owners s' (w_partition k) = Some w \<or> w_stage k = Committing False \<Longrightarrow>
       w_stage k \<noteq> Committing True \<Longrightarrow> committed s (w_partition k) \<le> w_offset k \<or> works s w = Some k \<and>
         (owners s (w_partition k) = Some w \<or> w_stage k = Committing False)"
    "\<And>w k. works s' w = Some k \<Longrightarrow> w_stage k = Committing True \<Longrightarrow> works s w = Some k"
  shows "offset_inv s'"
proof (rule offset_invI)
  show "position s' p = committed s' p" if "owners s' p = Some w" "p \<notin> paused s'" for p w
    using assms(3) [OF that] offset_invD(1) [OF assms(1)] assms(2) by auto
  show "committed s' (w_partition k) \<le> w_offset k" if "works s' w = Some k"
    "owners s' (w_partition k) = Some w \<or> w_stage k = Committing False" "w_stage k \<noteq> Committing True" for w k
    using assms(4) [OF that] offset_invD(2) [OF assms(1) _ _ that(3)] assms(2) by auto
  show "committed s' (w_partition k) = w_offset k + 1" if "works s' w = Some k" "w_stage k = Committing True" for w k
    using offset_invD(3) [OF assms(1) assms(5) [OF that] that(2)] assms(2) by simp
qed

lemma step_offsets:
  assumes "consumer_step env recs s s'" "names_inv s" "commit_inv s" "offset_inv s"
  shows "offset_inv s'"
  using assms(1)
proof cases
  case (assign p)
  then have a: "on_assign p s = s\<lparr>owners := (owners s)(p \<mapsto> next_owner s), next_owner := next_owner s + 1\<rparr>"
    by (simp add: on_assign_def)
  show ?thesis unfolding assign(1) a
    by (intro offset_less [OF assms(4)]) (use fresh_owner(1) [OF assms(2)] in \<open>auto split: if_splits\<close>)
next
  case (batch p first stale)
  show ?thesis
  proof (cases "each_batch p first stale s = s")
    case True
    with batch assms(4) show ?thesis by simp
  next
    case False
    then obtain i w where w: "owners s p = Some w" "first = Some i" and b: "each_batch p first stale s =
        s\<lparr>active := (active s)(p \<mapsto> w), paused := insert p (paused s),
          works := (works s)(w \<mapsto> \<lparr>w_partition = p, w_offset = i, w_stage = Running\<rparr>)\<rparr>"
      by (auto simp: each_batch_def split: option.splits if_splits)
    have "committed s p \<le> i"
      using offset_invD(1) [OF assms(4) w(1) batch(2)] batch(3) [OF w(2)] by (simp add: first_record_def)
    then show ?thesis unfolding batch(1) b
      by (intro offset_less [OF assms(4)]) (auto split: if_splits)
  qed
next
  case (begun w k t data)
  have "owners s (w_partition k) = Some w \<Longrightarrow> committed s (w_partition k) \<le> w_offset k"
    using offset_invD(2) [OF assms(4) begun(2)] begun(3) by simp
  then show ?thesis unfolding begun(1)
    by (cases rule: begun_cases [of env t data w k s])
      (auto intro!: offset_less [OF assms(4)] split: if_splits)
next
  case (dispatched w k ev t t' ws a)
  have "owners s (w_partition k) = Some w \<Longrightarrow> committed s (w_partition k) \<le> w_offset k"
    using offset_invD(2) [OF assms(4) dispatched(2)] dispatched(3) by simp
  then show ?thesis unfolding dispatched(1)
    by (cases rule: dispatched_cases [of env t t' ev ws a w k s])
      (auto intro!: offset_less [OF assms(4)] split: if_splits)
next
  case (committing w k)
  have "owners s (w_partition k) = Some w \<Longrightarrow> committed s (w_partition k) \<le> w_offset k"
    using offset_invD(2) [OF assms(4) committing(2)] committing(3) by simp
  then show ?thesis unfolding committing(1)
    by (intro offset_less [OF assms(4)]) (auto simp: submit_commit_def split: if_splits)
next
  case (broker_commits w k)
  let ?p = "w_partition k"
  note prot = commit_invD(2) [OF assms(3) broker_commits(2,3)]
  have owner: "v = w" if "owners s ?p = Some v" for v using prot that by (simp add: protected_def)
  have only: "w' = w" if "works s w' = Some k'" "w_stage k' = Committing b'" "w_partition k' = ?p" for w' k' b'
    using commit_invD(3) [OF assms(3) broker_commits(2,3) that] .
  show ?thesis unfolding broker_commits(1)
  proof (rule offset_invI, goal_cases)
    case (1 q v)
    then have "q \<noteq> ?p" using owner [of v] names_invD(4) [OF assms(2) _ broker_commits(2), of q] by auto
    with 1 show ?case using offset_invD(1) [OF assms(4), of q v] by simp
  next
    case (2 w' k')
    then have "w' \<noteq> w \<and> works s w' = Some k'" by (auto split: if_splits)
    with 2 show ?case
      using only [of w' k' False] owner [of w'] offset_invD(2) [OF assms(4), of w' k'] by (auto split: if_splits)
  next
    case (3 w' k')
    then show ?case
      using only [of w' k' True] offset_invD(3) [OF assms(4), of w' k'] by (auto split: if_splits)
  qed
next
  case (commit_accepted w k)
  have "committed s (w_partition k) = w_offset k + 1"
    by (rule offset_invD(3) [OF assms(4) commit_accepted(2,3)])
  then show ?thesis unfolding commit_accepted(1)
    by (intro offset_less [OF assms(4)]) (auto simp: commit_settled_def Let_def split: if_splits)
next
  case (commit_failed w k b)
  then show ?thesis
    by (intro offset_less [OF assms(4)]) (auto simp: commit_settled_def Let_def split: if_splits)
next
  case (other_member p n)
  have "w_partition k \<noteq> p" if "works s w = Some k" "w_stage k = Committing b" for w k b
    using commit_invD(2) [OF assms(3) that] other_member(2,3) by (auto simp: protected_def)
  with other_member(1,2) show ?thesis using offset_invD [OF assms(4)]
    by (intro offset_invI) (auto split: if_splits)
qed (auto intro!: offset_less [OF assms(4)] simp: stop_runner_def on_revoke_def split: if_splits option.splits)

section \<open>The properties of a consumer\<close>

definition consumer_inv :: "(partition \<Rightarrow> nat set) \<Rightarrow> consumer \<Rightarrow> bool" where
  "consumer_inv recs s \<longleftrightarrow> progress_inv recs s \<and> names_inv s \<and> commit_inv s \<and> offset_inv s"

lemma start_inv: "consumer_inv recs (start_consumer r offsets)"
  by (simp add: consumer_inv_def progress_inv_def names_inv_def commit_inv_def offset_inv_def no_gap_def start_consumer_def)

lemma reachable_inv:
  assumes "(consumer_step env recs)\<^sup>*\<^sup>* (start_consumer r offsets) s"
  shows "consumer_inv recs s"
  using assms
proof (induction rule: rtranclp_induct)
  case base
  show ?case by (rule start_inv)
next
  case (step s s')
  then show ?case unfolding consumer_inv_def
    using step_progress step_names step_commits step_offsets by blast
qed

text \<open>C2. No record is lost: in every reachable state, whatever the order of rebalances, batches, dispatches,
  commits that succeed, fail or are lost, and shutdown, every record of a partition below its committed
  offset has been dispatched to the end, that is, the engine accepted its outcome or it was a recent
  duplicate.\<close>

theorem consumer_at_least_once:
  assumes "(consumer_step env recs)\<^sup>*\<^sup>* (start_consumer r offsets) s" and "i \<in> recs p" and "i < committed s p"
  shows "(p, i) \<in> acked s"
  using reachable_inv [OF assms(1)] assms(2,3) by (auto simp: consumer_inv_def progress_inv_def no_gap_def)

text \<open>C29. Committed offsets never go back: because a rebalance waits for the commit under way, no late commit
  of a former owner can undo the progress of the next one.\<close>

theorem consumer_commits_monotone:
  assumes "(consumer_step env recs)\<^sup>*\<^sup>* (start_consumer r offsets) s" and "consumer_step env recs s s'"
  shows "committed s p \<le> committed s' p"
proof -
  have inv: "offset_inv s" using reachable_inv [OF assms(1)] by (simp add: consumer_inv_def)
  show ?thesis using assms(2)
  proof cases
    case (begun w k t data)
    then show ?thesis by (cases rule: begun_cases [of env t data w k s]) simp_all
  next
    case (dispatched w k ev t t' ws a)
    then show ?thesis by (cases rule: dispatched_cases [of env t t' ev ws a w k s]) simp_all
  next
    case (broker_commits w k)
    then have "committed s (w_partition k) \<le> w_offset k" using offset_invD(2) [OF inv broker_commits(2)] by simp
    with broker_commits(1) show ?thesis by simp
  qed (auto simp: on_assign_def on_revoke_def each_batch_def submit_commit_def commit_settled_def Let_def stop_runner_def
      split: option.splits)
qed

text \<open>C30. A dispatched record of a partition that is still owned can always be finished: the commit can be
  submitted and accepted, after which the partition is fetched again from the following offset and the
  work is gone.\<close>

theorem consumer_can_finish:
  assumes "works s w = Some k" and "w_stage k = Dispatched" and "owners s (w_partition k) = Some w"
    and "\<not> signal_aborted s w"
  shows "\<exists>s'. (consumer_step env recs)\<^sup>*\<^sup>* s s' \<and> committed s' (w_partition k) = w_offset k + 1 \<and>
    position s' (w_partition k) = w_offset k + 1 \<and> w_partition k \<notin> paused s' \<and> works s' w = None \<and>
    commits s' (w_partition k) = None"
proof -
  let ?p = "w_partition k"
  define s1 where "s1 = submit_commit w k s"
  have s1: "s1 = s\<lparr>commits := (commits s)(?p \<mapsto> w_offset k + 1), works := (works s)(w \<mapsto> k\<lparr>w_stage := Committing False\<rparr>)\<rparr>"
    using assms(3,4) by (simp add: s1_def submit_commit_def)
  define k1 where "k1 = k\<lparr>w_stage := Committing False\<rparr>"
  define s2 where "s2 = s1\<lparr>committed := (committed s1)(w_partition k1 := w_offset k1 + 1),
      works := (works s1)(w \<mapsto> k1\<lparr>w_stage := Committing True\<rparr>)\<rparr>"
  define k2 where "k2 = k1\<lparr>w_stage := Committing True\<rparr>"
  have "consumer_step env recs s s1" unfolding s1_def by (rule committing [OF assms(1,2)])
  moreover have "consumer_step env recs s1 s2"
    unfolding s2_def by (rule broker_commits) (simp_all add: s1 k1_def)
  moreover have "consumer_step env recs s2 (commit_settled True w k2 s2)"
    by (rule commit_accepted) (simp_all add: s2_def k2_def)
  ultimately have "(consumer_step env recs)\<^sup>*\<^sup>* s (commit_settled True w k2 s2)"
    by (meson converse_rtranclp_into_rtranclp rtranclp.rtrancl_refl)
  moreover have "commit_settled True w k2 s2 =
      finish_work w (s2\<lparr>commits := (commits s2)(?p := None), position := (position s2)(?p := w_offset k + 1), paused := paused s2 - {?p}\<rparr>)"
    using assms(3,4) by (simp add: commit_settled_def signal_aborted_def s2_def s1 k2_def k1_def Let_def)
  ultimately show ?thesis
    by (intro exI [of _ "commit_settled True w k2 s2"]) (simp add: s2_def s1 k1_def)
qed

section \<open>A run\<close>

abbreviation "sample_steps \<equiv> consumer_step sample_env (\<lambda>_. {0, 1})"
abbreviation "sample_start \<equiv> start_consumer sample_runner (\<lambda>_. 0)"

definition sample_dispatched :: consumer where
  "sample_dispatched =
     (let s1 = (on_assign 0 sample_start)\<lparr>position := (position sample_start)(0 := committed sample_start 0),
            paused := paused sample_start - {0}\<rparr>;
          s2 = each_batch 0 (Some 0) False s1;
          s3 = begin_work sample_env 1 (Some ''job'') 0 (the (works s2 0)) s2
      in run_dispatch sample_env 1 2 sample_event sample_attempts False 0 (the (works s3 0)) s3)"

lemma sample_reached:
  "sample_steps\<^sup>*\<^sup>* sample_start sample_dispatched \<and>
   works sample_dispatched 0 = Some \<lparr>w_partition = 0, w_offset = 0, w_stage = Dispatched\<rparr> \<and>
   owners sample_dispatched 0 = Some 0 \<and> \<not> signal_aborted sample_dispatched 0"
proof -
  define s1 where "s1 = (on_assign 0 sample_start)\<lparr>position := (position sample_start)(0 := committed sample_start 0),
            paused := paused sample_start - {0}\<rparr>"
  define s2 where "s2 = each_batch 0 (Some 0) False s1"
  have s1: "sample_steps sample_start s1"
    unfolding s1_def by (rule assign) (simp_all add: start_consumer_def)
  have s2: "sample_steps s1 s2"
    unfolding s2_def by (rule batch) (simp_all add: s1_def start_consumer_def on_assign_def first_record_def)
  have k: "works s2 0 = Some \<lparr>w_partition = 0, w_offset = 0, w_stage = Running\<rparr>" "owners s2 0 = Some 0"
    "\<not> signal_aborted s2 0" "runner s2 = sample_runner"
    by (simp_all add: s2_def s1_def each_batch_def on_assign_def start_consumer_def signal_aborted_def)
  define s3 where "s3 = begin_work sample_env 1 (Some ''job'') 0 (the (works s2 0)) s2"
  have s3: "sample_steps s2 s3" unfolding s3_def by (rule begun) (simp_all add: k)
  have k3: "works s3 0 = Some \<lparr>w_partition = 0, w_offset = 0, w_stage = Delivering sample_event\<rparr>" "owners s3 0 = Some 0"
    "\<not> signal_aborted s3 0" "runner s3 = sample_runner"
    using k sample_begun [of 1] by (simp_all add: s3_def begin_work_def signal_aborted_def)
  have d: "sample_dispatched = run_dispatch sample_env 1 2 sample_event sample_attempts False 0 (the (works s3 0)) s3"
    by (simp add: sample_dispatched_def s3_def s2_def s1_def Let_def)
  have "sample_steps s3 sample_dispatched" unfolding d by (rule dispatched) (simp_all add: k3)
  with s1 s2 s3 have "sample_steps\<^sup>*\<^sup>* sample_start sample_dispatched"
    by (meson converse_rtranclp_into_rtranclp rtranclp.rtrancl_refl)
  moreover obtain e rs where "end_dispatch sample_env 1 2 sample_event sample_attempts False (runner s3) = (Handled, e, rs)"
    using sample_handled k3(4) by (metis prod_cases3 fst_conv)
  ultimately show ?thesis using k3(1-3) unfolding d by (simp add: run_dispatch_def signal_aborted_def)
qed

theorem consumer_can_finish_witness: "\<exists>s'. sample_steps\<^sup>*\<^sup>* sample_dispatched s' \<and> committed s' 0 = 1"
  using consumer_can_finish [of sample_dispatched 0 "\<lparr>w_partition = 0, w_offset = 0, w_stage = Dispatched\<rparr>" sample_env "\<lambda>_. {0, 1}"]
    sample_reached by auto

lemma sample_committed: "\<exists>s. sample_steps\<^sup>*\<^sup>* sample_start s \<and> committed s 0 = 1"
proof -
  let ?k = "\<lparr>w_partition = 0, w_offset = 0, w_stage = Dispatched\<rparr>"
  let ?s1 = "submit_commit 0 ?k sample_dispatched" and ?k1 = "\<lparr>w_partition = 0, w_offset = 0, w_stage = Committing False\<rparr>"
  have "sample_steps sample_dispatched ?s1" by (rule committing) (simp_all add: sample_reached)
  moreover have "works ?s1 0 = Some ?k1" by (simp add: submit_commit_def sample_reached)
  ultimately have "sample_steps\<^sup>*\<^sup>* sample_start
      (?s1\<lparr>committed := (committed ?s1)(w_partition ?k1 := w_offset ?k1 + 1), works := (works ?s1)(0 \<mapsto> ?k1\<lparr>w_stage := Committing True\<rparr>)\<rparr>)"
    using sample_reached broker_commits [of ?s1 0 ?k1 sample_env "\<lambda>_. {0, 1}"]
    by (auto intro: rtranclp.rtrancl_into_rtrancl)
  then show ?thesis by fastforce
qed

theorem consumer_at_least_once_witness:
  "\<exists>s. sample_steps\<^sup>*\<^sup>* sample_start s \<and> committed s 0 = 1 \<and> (0, 0) \<in> acked s"
proof -
  obtain s where s: "sample_steps\<^sup>*\<^sup>* sample_start s" "committed s 0 = 1" using sample_committed by blast
  have "(0, 0) \<in> acked s" using consumer_at_least_once [OF s(1), of 0 0] s(2) by simp
  with s show ?thesis by blast
qed

theorem consumer_commits_monotone_witness:
  "\<exists>s. sample_steps\<^sup>*\<^sup>* sample_start s \<and> committed s 0 = 1 \<and> committed s 0 \<le> committed (stop_runner s) 0"
proof -
  obtain s where s: "sample_steps\<^sup>*\<^sup>* sample_start s" "committed s 0 = 1" using sample_committed by blast
  have "committed s 0 \<le> committed (stop_runner s) 0" by (rule consumer_commits_monotone [OF s(1) stopping])
  with s show ?thesis by blast
qed

end
