(* ===== verification/Heartbeat.thy ===== *)
theory Heartbeat
  imports Worker_Callback
begin

text \<open>
  Keeping the lease of a job while its handler runs,
  \<^verbatim>\<open>workflow-sdk-node/src/runner/heartbeat.ts\<close>.

  \<^verbatim>\<open>maintainLease\<close> starts an asynchronous loop and a timer that share \<^verbatim>\<open>expiry\<close> and an abort
  controller. The state of the closure is the record \<open>lease\<close>; each piece of code that runs without
  an \<^verbatim>\<open>await\<close> is one function on it, and \<open>lease_step\<close> lets them interleave with the clock, with the
  parent signal and with the owner's \<^verbatim>\<open>stop\<close> in every order. A timer fires at its time or later. The clock
  is assumed not to go back, which \<^verbatim>\<open>Date.now\<close> can do when the system clock is set.
  \<^verbatim>\<open>fatal\<close> is the callback of \<^verbatim>\<open>Runner.run\<close>: it keeps the first error and aborts the parent signal.

  \<open>grants\<close> is an auxiliary field, the expiry times the engine has granted so far, newest first; no
  operation reads it.
\<close>

datatype beat = Accepted | Lease_lost | Beat_rejected | Beat_retry

datatype phase = Calling | Sleeping rat | Finished

record lease =
  now :: int
  expiry :: int
  attempts :: nat
  timer :: "int option"
  own_abort :: "client_error option"
  parent_abort :: "client_error option"
  phase :: phase
  ready :: bool
  heartbeats :: "beat \<Rightarrow> nat"
  fatalError :: "client_error option"
  grants :: "int list"

section \<open>The pieces of maintainLease\<close>

definition armExpiry :: "lease \<Rightarrow> lease" where
  "armExpiry s = s\<lparr>timer := Some (now s + max 1 (expiry s - now s))\<rparr>"

definition maintainLease ::
  "(string \<Rightarrow> int option) \<Rightarrow> int \<Rightarrow> job \<Rightarrow> client_error option \<Rightarrow> client_error + lease" where
  "maintainLease parseDate t j parent =
     (case (case job_lockExpiresAt j of Some text' \<Rightarrow> parseDate text' | None \<Rightarrow> parseDate '''') of
        None \<Rightarrow> Inl (PlainError ''heartbeat requires lockExpiresAt lease metadata'')
      | Some e \<Rightarrow>
          if e \<le> t then Inl LeaseLostError
          else Inr (armExpiry \<lparr>now = t, expiry = e, attempts = 0, timer = None, own_abort = None,
                 parent_abort = parent, phase = Calling, ready = False, heartbeats = (\<lambda>_. 0),
                 fatalError = None, grants = [e]\<rparr>))"

definition aborted :: "lease \<Rightarrow> bool" where
  "aborted s \<longleftrightarrow> own_abort s \<noteq> None \<or> parent_abort s \<noteq> None"

definition valid :: "lease \<Rightarrow> bool" where
  "valid s \<longleftrightarrow> \<not> aborted s \<and> now s < expiry s"

definition beat_inc :: "beat \<Rightarrow> lease \<Rightarrow> lease" where
  "beat_inc b s = s\<lparr>heartbeats := (heartbeats s)(b := heartbeats s b + 1)\<rparr>"

text \<open>\<^verbatim>\<open>controller.abort(error)\<close>: only the first reason counts.\<close>

definition abort_own :: "client_error \<Rightarrow> lease \<Rightarrow> lease" where
  "abort_own e s = (case own_abort s of None \<Rightarrow> s\<lparr>own_abort := Some e\<rparr> | Some _ \<Rightarrow> s)"

definition fatal :: "client_error \<Rightarrow> lease \<Rightarrow> lease" where
  "fatal e s =
     s\<lparr>fatalError := (case fatalError s of None \<Rightarrow> Some e | Some f \<Rightarrow> Some f),
       parent_abort := (case parent_abort s of None \<Rightarrow> Some e | Some r \<Rightarrow> Some r)\<rparr>"

text \<open>The outer \<^verbatim>\<open>catch\<close> and \<^verbatim>\<open>finally\<close>.\<close>

definition leave_loop :: "client_error \<Rightarrow> lease \<Rightarrow> lease" where
  "leave_loop e s = (abort_own e s)\<lparr>phase := Finished, timer := None\<rparr>"

text \<open>The reason of the combined signal. It only becomes the reason of the loop's own controller when
  that has none yet, and is the parent's reason then.\<close>

definition abort_reason :: "lease \<Rightarrow> client_error" where
  "abort_reason s = (case parent_abort s of Some r \<Rightarrow> r | None \<Rightarrow> (case own_abort s of Some r \<Rightarrow> r | None \<Rightarrow> LeaseLostError))"

text \<open>The inner \<^verbatim>\<open>catch\<close>. A wait is a phase \<open>Sleeping\<close> with the time it ends.\<close>

definition on_error :: "rat \<Rightarrow> client_error \<Rightarrow> lease \<Rightarrow> lease" where
  "on_error random e s =
     (if aborted s then leave_loop (abort_reason s) s
      else if e = LeaseLostError then leave_loop e (beat_inc Lease_lost s)
      else if e = HeartbeatUnsupportedError \<or> permanent e then leave_loop e (fatal e (beat_inc Beat_rejected s))
      else let s' = (beat_inc Beat_retry s)\<lparr>attempts := attempts s + 1\<rparr>
           in s'\<lparr>phase := Sleeping (of_int (now s + max 1 (min (delay random (int (attempts s'))) (expiry s - now s))))\<rparr>)"

text \<open>A settled call of \<^verbatim>\<open>extendJobLease\<close>: \<open>Inr None\<close> is a date that does not parse.\<close>

definition on_answer :: "rat \<Rightarrow> rat \<Rightarrow> client_error + int option \<Rightarrow> lease \<Rightarrow> lease" where
  "on_answer intervalMs random ans s =
     (case ans of
        Inl e \<Rightarrow> on_error random e s
      | Inr next' \<Rightarrow>
          if aborted s then on_error random (abort_reason s) s
          else if now s \<ge> expiry s then on_error random LeaseLostError s
          else (case next' of
                  Some t \<Rightarrow>
                    if t < expiry s \<or> t \<le> now s
                    then on_error random (PlainError ''invalid heartbeat expiry'') (fatal (PlainError ''invalid heartbeat expiry'') s)
                    else let s' = beat_inc Accepted (armExpiry (s\<lparr>expiry := t, grants := t # grants s\<rparr>))
                         in s'\<lparr>ready := True, attempts := 0,
                               phase := Sleeping (of_int (now s) + max 1 (min intervalMs (of_int (t - now s) / 3)))\<rparr>
                | None \<Rightarrow>
                    on_error random (PlainError ''invalid heartbeat expiry'') (fatal (PlainError ''invalid heartbeat expiry'') s)))"

text \<open>The end of a wait, by time or by abort; then the loop condition.\<close>

definition on_wake :: "lease \<Rightarrow> lease" where
  "on_wake s = (if aborted s then leave_loop (abort_reason s) s else s\<lparr>phase := Calling\<rparr>)"

definition on_timer :: "lease \<Rightarrow> lease" where
  "on_timer s = (abort_own LeaseLostError (beat_inc Lease_lost s))\<lparr>timer := None\<rparr>"

text \<open>\<^verbatim>\<open>stop\<close>: the reason is the default \<^verbatim>\<open>AbortError\<close>, whose code is 20.\<close>

definition stop :: "lease \<Rightarrow> lease" where
  "stop s = abort_own (CodedError 20) s"

inductive lease_step :: "rat \<Rightarrow> lease \<Rightarrow> lease \<Rightarrow> bool" for intervalMs where
  tick: "0 \<le> dt \<Longrightarrow> lease_step intervalMs s (s\<lparr>now := now s + dt\<rparr>)"
| answer: "phase s = Calling \<Longrightarrow> lease_step intervalMs s (on_answer intervalMs random ans s)"
| call_aborted: "phase s = Calling \<Longrightarrow> aborted s \<Longrightarrow> lease_step intervalMs s (on_error random (abort_reason s) s)"
| wake: "phase s = Sleeping u \<Longrightarrow> u \<le> of_int (now s) \<or> aborted s \<Longrightarrow> lease_step intervalMs s (on_wake s)"
| timer_fires: "timer s = Some t \<Longrightarrow> t \<le> now s \<Longrightarrow> lease_step intervalMs s (on_timer s)"
| parent_aborts: "parent_abort s = None \<Longrightarrow> lease_step intervalMs s (s\<lparr>parent_abort := Some r\<rparr>)"
| stopped: "lease_step intervalMs s (stop s)"

inductive_cases lease_stepE: "lease_step intervalMs s s'"

section \<open>A lease that is not valid stays so\<close>

lemmas lease_defs = armExpiry_def beat_inc_def abort_own_def fatal_def leave_loop_def on_wake_def on_timer_def
  stop_def

lemma leave_loop_aborted [simp]: "aborted (leave_loop e s)"
  by (simp add: leave_loop_def abort_own_def aborted_def split: option.split)

lemma fatal_aborted [simp]: "aborted (fatal e s)"
  by (simp add: fatal_def aborted_def split: option.split)

text \<open>What an error handler changes: never the clock, the lease or the grants.\<close>

lemma on_error_keeps:
  "now (on_error r e s) = now s" "expiry (on_error r e s) = expiry s" "grants (on_error r e s) = grants s"
  "heartbeats (on_error r e s) Accepted = heartbeats s Accepted"
  "aborted s \<Longrightarrow> aborted (on_error r e s)"
  by (auto simp: on_error_def lease_defs aborted_def Let_def split: option.splits)

lemma on_error_fatal: "fatalError (on_error r e s) = fatalError s \<or> aborted (on_error r e s)"
  by (auto simp: on_error_def beat_inc_def Let_def)

text \<open>An answer is an error, or a renewal of a valid lease to a later expiry.\<close>

lemma on_answer_cases:
  obtains (error) e where "on_answer i r ans s = on_error r e s" "isl ans \<or> \<not> valid s"
    | (refused) e where "on_answer i r ans s = on_error r e (fatal e s)" "valid s"
    | (renewed) t where "ans = Inr (Some t)" "valid s" "expiry s \<le> t" "now s < t"
      "on_answer i r ans s = (beat_inc Accepted (armExpiry (s\<lparr>expiry := t, grants := t # grants s\<rparr>)))
         \<lparr>ready := True, attempts := 0, phase := Sleeping (of_int (now s) + max 1 (min i (of_int (t - now s) / 3)))\<rparr>"
proof (cases ans)
  case (Inl e)
  then show thesis by (intro error [of e]) (simp_all add: on_answer_def)
next
  case (Inr next')
  consider "aborted s" | "\<not> aborted s" "now s \<ge> expiry s" | "valid s" unfolding valid_def by linarith
  then show thesis
  proof cases
    case 1
    with Inr show thesis by (intro error [of "abort_reason s"]) (simp_all add: on_answer_def valid_def)
  next
    case 2
    with Inr show thesis by (intro error [of LeaseLostError]) (simp_all add: on_answer_def valid_def)
  next
    case 3
    then have v: "\<not> aborted s" "\<not> now s \<ge> expiry s" by (simp_all add: valid_def)
    let ?e = "PlainError ''invalid heartbeat expiry''"
    show thesis
    proof (cases "\<exists>t. next' = Some t \<and> expiry s \<le> t \<and> now s < t")
      case True
      then obtain t where "next' = Some t" "expiry s \<le> t" "now s < t" by blast
      with Inr v 3 show thesis by (intro renewed [of t]) (simp_all add: on_answer_def Let_def)
    next
      case False
      with Inr v 3 show thesis
        by (intro refused [of ?e]) (auto simp: on_answer_def split: option.split)
    qed
  qed
qed

lemma step_keeps_invalid:
  assumes "lease_step i s s'" "\<not> valid s"
  shows "\<not> valid s'"
  using assms(1)
proof (cases rule: lease_step.cases)
  case (answer random ans)
  show ?thesis
  proof (cases rule: on_answer_cases [of i random ans s])
    case (error e)
    with answer assms(2) show ?thesis by (auto simp: valid_def on_error_keeps)
  next
    case (refused e)
    with assms(2) show ?thesis by simp
  next
    case (renewed t)
    with assms(2) show ?thesis by simp
  qed
next
  case (call_aborted random)
  then show ?thesis by (simp add: valid_def on_error_keeps)
qed (use assms(2) in \<open>auto simp: valid_def aborted_def lease_defs split: option.splits if_splits\<close>)

text \<open>C4. A lease that has stopped being valid, because it expired or because its signal was aborted, is
  never valid again, whatever the engine answers afterwards and in whatever order the timer, the
  renewals, the parent signal and the owner act: a worker cannot regain a job it may have lost.\<close>

theorem lease_never_regained:
  assumes "(lease_step intervalMs)\<^sup>*\<^sup>* s s'" and "\<not> valid s"
  shows "\<not> valid s'"
  using assms by (induction rule: rtranclp_induct) (auto dest: step_keeps_invalid)

section \<open>The expiry is what the engine granted\<close>

definition lease_inv :: "lease \<Rightarrow> bool" where
  "lease_inv s \<longleftrightarrow> grants s \<noteq> [] \<and> expiry s = hd (grants s) \<and> sorted (rev (grants s)) \<and>
     length (grants s) = heartbeats s Accepted + 1 \<and> (fatalError s \<noteq> None \<longrightarrow> aborted s)"

lemma on_error_inv: "lease_inv s \<Longrightarrow> lease_inv (on_error r e s)"
  using on_error_fatal [of r e s] on_error_keeps(5) [of s r e] by (auto simp: lease_inv_def on_error_keeps(1-4))

lemma fatal_inv: "lease_inv s \<Longrightarrow> lease_inv (fatal e s)"
  by (simp add: lease_inv_def) (simp add: fatal_def)

lemma step_keeps_inv:
  assumes "lease_step i s s'" "lease_inv s"
  shows "lease_inv s'"
  using assms(1)
proof (cases rule: lease_step.cases)
  case (answer random ans)
  show ?thesis
  proof (cases rule: on_answer_cases [of i random ans s])
    case (error e)
    with answer assms(2) show ?thesis by (simp add: on_error_inv)
  next
    case (refused e)
    with answer assms(2) show ?thesis by (simp add: on_error_inv fatal_inv)
  next
    case (renewed t)
    from assms(2) have "\<forall>g \<in> set (grants s). g \<le> hd (grants s)"
      by (cases "grants s") (auto simp: lease_inv_def sorted_append)
    with renewed assms(2) have "\<forall>g \<in> set (grants s). g \<le> t" by (auto simp: lease_inv_def)
    with renewed answer assms(2) show ?thesis
      by (auto simp: lease_inv_def lease_defs aborted_def sorted_append)
  qed
next
  case (call_aborted random)
  with assms(2) show ?thesis by (simp add: on_error_inv)
qed (use assms(2) in \<open>auto simp: lease_inv_def aborted_def lease_defs split: option.splits if_splits\<close>)

lemma maintainLease_start:
  assumes "maintainLease parseDate t j parent = Inr s"
  shows "lease_inv s \<and> now s = t \<and> t < expiry s \<and> grants s = [expiry s]"
  using assms by (auto simp: maintainLease_def armExpiry_def lease_inv_def split: option.splits if_splits)

lemma lease_inv_reachable:
  assumes "maintainLease parseDate t j parent = Inr s0" "(lease_step i)\<^sup>*\<^sup>* s0 s"
  shows "lease_inv s"
  using assms(2)
proof (induction rule: rtranclp_induct)
  case base
  show ?case using maintainLease_start [OF assms(1)] by simp
next
  case (step s s')
  then show ?case using step_keeps_inv by blast
qed

lemma step_extends:
  assumes "lease_step i s s'"
  shows "expiry s \<le> expiry s'"
  using assms
proof (cases rule: lease_step.cases)
  case (answer random ans)
  then show ?thesis
    by (cases rule: on_answer_cases [of i random ans s])
      (simp_all add: on_error_keeps, simp_all add: lease_defs)
qed (simp_all add: on_error_keeps lease_defs split: option.split)

text \<open>A maintained lease is only ever extended: in every reachable state the expiry the worker trusts is
  the last one the engine granted, the grants never go back in time, there is one accepted heartbeat for
  each of them after the first, and a fatal error has stopped the lease.\<close>

theorem lease_only_extended:
  assumes "maintainLease parseDate t j parent = Inr s0" and "(lease_step intervalMs)\<^sup>*\<^sup>* s0 s"
  shows "expiry s = hd (grants s) \<and> sorted (rev (grants s)) \<and> expiry s0 \<le> expiry s \<and>
    length (grants s) = heartbeats s Accepted + 1 \<and> (fatalError s \<noteq> None \<longrightarrow> aborted s)"
proof -
  have "expiry s0 \<le> expiry s" using assms(2)
    by (induction rule: rtranclp_induct) (auto dest: step_extends)
  with lease_inv_reachable [OF assms] show ?thesis by (simp add: lease_inv_def)
qed

section \<open>The rhythm of renewals\<close>

text \<open>C36. Whenever an answer leaves a valid lease waiting, by acceptance or by a transient failure, the next
  renewal is due strictly later and before the lease runs out; after an acceptance it is due within the
  configured interval or a third of the remaining lease, or after one millisecond.\<close>

theorem renewal_due_in_time:
  assumes "valid s" and "phase (on_answer intervalMs random ans s) = Sleeping u"
  shows "of_int (now s) < u \<and> u \<le> of_int (expiry (on_answer intervalMs random ans s)) \<and>
    (case ans of
       Inr (Some t) \<Rightarrow> u - of_int (now s) = max 1 (min intervalMs (of_int (t - now s) / 3))
     | _ \<Rightarrow> True)"
proof (cases rule: on_answer_cases [of intervalMs random ans s])
  case (error e)
  with assms(1) obtain e' where "ans = Inl e'" by (cases ans) auto
  with error assms show ?thesis
    by (auto simp: on_error_def lease_defs valid_def Let_def split: if_splits)
next
  case (refused e)
  have "phase (on_error random e (fatal e s)) = Finished" by (simp add: on_error_def leave_loop_def)
  with refused assms(2) show ?thesis by simp
next
  case (renewed t)
  then have u: "u = of_int (now s) + max 1 (min intervalMs (of_int (t - now s) / 3))" and
    e: "expiry (on_answer intervalMs random ans s) = t"
    using assms(2) by (simp_all add: lease_defs)
  have "(1::rat) \<le> of_int (t - now s)" using renewed(4) by simp
  then have "max 1 (min intervalMs (of_int (t - now s) / 3)) \<le> of_int (t - now s)"
    by (simp add: min_le_iff_disj)
  then show ?thesis unfolding u e by (auto simp: renewed(1))
qed

section \<open>Witnesses\<close>

definition sample_job :: job where
  "sample_job = \<lparr>job_id = ''j'', job_jobType = ''t'', job_instanceId = ''i'', job_stepExecutionId = ''s'',
     job_retriesRemaining = 3, job_variables = None, job_lockExpiresAt = Some ''30''\<rparr>"

definition sample_dates :: "string \<Rightarrow> int option" where
  "sample_dates text' = (if text' = ''30'' then Some 30 else None)"

definition sample_lease :: lease where
  "sample_lease = armExpiry \<lparr>now = 10, expiry = 30, attempts = 0, timer = None, own_abort = None,
     parent_abort = None, phase = Calling, ready = False, heartbeats = (\<lambda>_. 0), fatalError = None, grants = [30]\<rparr>"

lemma sample_start: "maintainLease sample_dates 10 sample_job None = Inr sample_lease"
  by (simp add: maintainLease_def sample_dates_def sample_job_def sample_lease_def)

lemma sample_calling: "phase sample_lease = Calling" "\<not> aborted sample_lease"
  by (simp_all add: sample_lease_def armExpiry_def aborted_def)

theorem lease_never_regained_witness:
  "\<not> valid (stop sample_lease) \<and> \<not> valid (on_answer 5 0 (Inr (Some 90)) (stop sample_lease))"
proof -
  have "phase (stop sample_lease) = Calling" by (simp add: sample_lease_def lease_defs)
  then have "(lease_step 5)\<^sup>*\<^sup>* (stop sample_lease) (on_answer 5 0 (Inr (Some 90)) (stop sample_lease))"
    by (intro r_into_rtranclp) (rule lease_step.answer)
  moreover have "\<not> valid (stop sample_lease)"
    by (simp add: valid_def aborted_def sample_lease_def lease_defs)
  ultimately show ?thesis using lease_never_regained by blast
qed

theorem lease_only_extended_witness:
  "expiry (on_answer 5 0 (Inr (Some 60)) sample_lease) = 60 \<and>
   length (grants (on_answer 5 0 (Inr (Some 60)) sample_lease)) =
     heartbeats (on_answer 5 0 (Inr (Some 60)) sample_lease) Accepted + 1"
proof -
  have "(lease_step 5)\<^sup>*\<^sup>* sample_lease (on_answer 5 0 (Inr (Some 60)) sample_lease)"
    by (intro r_into_rtranclp lease_step.answer sample_calling)
  from lease_only_extended [OF sample_start this] show ?thesis
    by (simp add: on_answer_def sample_lease_def lease_defs aborted_def Let_def)
qed

theorem renewal_due_in_time_witness:
  "phase (on_answer 5 0 (Inr (Some 60)) sample_lease) = Sleeping 15 \<and>
   15 \<le> rat_of_int (expiry (on_answer 5 0 (Inr (Some 60)) sample_lease))"
proof -
  have v: "valid sample_lease"
    by (simp add: valid_def aborted_def sample_lease_def armExpiry_def)
  have p: "phase (on_answer 5 0 (Inr (Some 60)) sample_lease) = Sleeping 15"
    by (simp add: on_answer_def sample_lease_def lease_defs aborted_def Let_def)
  from renewal_due_in_time [OF v p] p show ?thesis by simp
qed

end
