(* ===== verification/Runner.thy ===== *)
theory Runner
  imports Heartbeat
begin

text \<open>
  The polling worker, \<^verbatim>\<open>workflow-sdk-node/src/runner/runner.ts\<close>: the checks of its constructor, the loop of
  \<^verbatim>\<open>run\<close> with its background dispatches, and \<^verbatim>\<open>dispatch\<close>.
\<close>

section \<open>Configuration\<close>

text \<open>\<^verbatim>\<open>(x || 30) * 1000 / 3\<close>; the caller passes \<open>NaN\<close> for undefined, which is falsy as well.\<close>

fun third_of_lease :: "number \<Rightarrow> number" where
  "third_of_lease (Num a) = Num ((if a = 0 then 30 else a) * 1000 / 3)"
| "third_of_lease NaN = Num (30 * 1000 / 3)"
| "third_of_lease n = n"

record runner_options =
  opt_workerId :: string
  opt_concurrency :: "number option"
  opt_pollIntervalMs :: "number option"
  opt_leaseSeconds :: "number option"
  opt_heartbeat :: "bool option"
  opt_heartbeatIntervalMs :: "number option"
  opt_shutdownTimeoutMs :: "number option"

record runner_config =
  workerId :: string
  concurrency :: number
  pollIntervalMs :: number
  leaseSeconds :: number
  heartbeat :: bool
  heartbeatIntervalMs :: number
  shutdownTimeoutMs :: number

definition or_default :: "'a option \<Rightarrow> 'a \<Rightarrow> 'a" where
  "or_default v d = (case v of Some x \<Rightarrow> x | None \<Rightarrow> d)"

definition with_defaults :: "runner_options \<Rightarrow> runner_config" where
  "with_defaults c =
     \<lparr>workerId = opt_workerId c, concurrency = or_default (opt_concurrency c) (Num 64),
      pollIntervalMs = or_default (opt_pollIntervalMs c) (Num 500),
      leaseSeconds = or_default (opt_leaseSeconds c) (Num 0), heartbeat = or_default (opt_heartbeat c) False,
      heartbeatIntervalMs = or_default (opt_heartbeatIntervalMs c)
        (third_of_lease (or_default (opt_leaseSeconds c) NaN)),
      shutdownTimeoutMs = or_default (opt_shutdownTimeoutMs c) (Num 5000)\<rparr>"

definition new_runner :: "runner_options \<Rightarrow> string + runner_config" where
  "new_runner c =
     (let cfg = with_defaults c
      in if \<not> is_integer (leaseSeconds cfg) \<or>
            (leaseSeconds cfg \<noteq> Num 0 \<and> (num_less (leaseSeconds cfg) (Num 5) \<or> num_less (Num 3600) (leaseSeconds cfg)))
         then Inl ''leaseSeconds must be 0 or 5-3600''
         else if \<not> num_less (Num 0) (heartbeatIntervalMs cfg) \<or>
                 num_less (third_of_lease (leaseSeconds cfg)) (heartbeatIntervalMs cfg)
         then Inl ''heartbeatIntervalMs must be positive and at most one third of the lease''
         else if \<not> is_finite (shutdownTimeoutMs cfg) \<or> \<not> num_less (Num 0) (shutdownTimeoutMs cfg)
         then Inl ''shutdownTimeoutMs must be finite and positive''
         else if \<not> is_integer (concurrency cfg) \<or> num_less (concurrency cfg) (Num 1)
         then Inl ''concurrency must be a positive integer''
         else Inr cfg)"

text \<open>The numbers of an accepted configuration, as the loops use them.\<close>

definition config_ok :: "runner_config \<Rightarrow> bool" where
  "config_ok cfg \<longleftrightarrow> (\<exists>c l h t. concurrency cfg = Num (of_nat c) \<and> 1 \<le> c \<and> leaseSeconds cfg = Num (of_nat l) \<and>
     (l = 0 \<or> 5 \<le> l \<and> l \<le> 3600) \<and> heartbeatIntervalMs cfg = Num h \<and> 0 < h \<and>
     h \<le> of_nat (if l = 0 then 30 else l) * 1000 / 3 \<and> shutdownTimeoutMs cfg = Num t \<and> 0 < t)"

lemma integer_from:
  assumes "is_integer n" "\<not> num_less n (Num (of_nat k))"
  obtains m where "n = Num (of_nat m)" "k \<le> m"
proof -
  from assms(1) obtain a where n: "n = Num a" "of_int \<lfloor>a\<rfloor> = a" by (cases n) auto
  with assms(2) have a: "of_nat k \<le> a" by simp
  then have "0 \<le> a" by (rule order_trans [rotated]) simp
  then have "0 \<le> \<lfloor>a\<rfloor>" by simp
  then have m: "a = of_nat (nat \<lfloor>a\<rfloor>)" using n(2) by (metis of_nat_nat)
  with a have "k \<le> nat \<lfloor>a\<rfloor>" by (metis of_nat_le_iff)
  with n m that show thesis by metis
qed

lemma lease_from:
  assumes "is_integer n" "n = Num 0 \<or> \<not> num_less n (Num 5) \<and> \<not> num_less (Num 3600) n"
  obtains l where "n = Num (of_nat l)" "l = 0 \<or> 5 \<le> l \<and> l \<le> 3600"
proof (cases "n = Num 0")
  case True
  then show thesis using that [of 0] by simp
next
  case False
  with assms(2) have b: "\<not> num_less n (Num (of_nat 5))" "\<not> num_less (Num 3600) n" by simp_all
  from integer_from [OF assms(1) b(1)] obtain l where l: "n = Num (of_nat l)" "5 \<le> l" .
  from b(2) l(1) have "l \<le> 3600" by simp
  with l that show thesis by blast
qed

text \<open>C32. A runner is constructed exactly with sane numbers: whatever options are given, NaN and the
  infinities included, an accepted configuration has a whole concurrency of at least one, a lease of zero
  or five to 3600 seconds, a heartbeat interval that is positive and at most a third of the lease, and a
  positive finite shutdown timeout; and a configuration with such numbers is accepted.\<close>

theorem new_runner_ok: "case new_runner c of Inr cfg \<Rightarrow> cfg = with_defaults c \<and> config_ok cfg | Inl _ \<Rightarrow> \<not> config_ok (with_defaults c)"
proof (cases "new_runner c")
  case (Inr cfg)
  then have cfg: "cfg = with_defaults c"
    and l: "is_integer (leaseSeconds cfg)" "leaseSeconds cfg = Num 0 \<or> \<not> num_less (leaseSeconds cfg) (Num 5) \<and> \<not> num_less (Num 3600) (leaseSeconds cfg)"
    and h: "num_less (Num 0) (heartbeatIntervalMs cfg)" "\<not> num_less (third_of_lease (leaseSeconds cfg)) (heartbeatIntervalMs cfg)"
    and t: "is_finite (shutdownTimeoutMs cfg)" "num_less (Num 0) (shutdownTimeoutMs cfg)"
    and n: "is_integer (concurrency cfg)" "\<not> num_less (concurrency cfg) (Num (of_nat 1))"
    by (auto simp: new_runner_def Let_def split: if_splits)
  obtain lease where lease: "leaseSeconds cfg = Num (of_nat lease)" "lease = 0 \<or> 5 \<le> lease \<and> lease \<le> 3600"
    using lease_from [OF l] .
  obtain m where m: "concurrency cfg = Num (of_nat m)" "1 \<le> m" using integer_from [OF n] .
  obtain x where x: "heartbeatIntervalMs cfg = Num x" "0 < x" "x \<le> of_nat (if lease = 0 then 30 else lease) * 1000 / 3"
    using h lease(1) by (cases "heartbeatIntervalMs cfg") (auto split: if_splits)
  obtain y where "shutdownTimeoutMs cfg = Num y" "0 < y" using t by (cases "shutdownTimeoutMs cfg") auto
  with lease m x have "config_ok cfg" unfolding config_ok_def by blast
  with Inr cfg show ?thesis by simp
next
  case (Inl e)
  have "\<exists>cfg. new_runner c = Inr cfg" if ok: "config_ok (with_defaults c)"
  proof -
    obtain n l h t where "concurrency (with_defaults c) = Num (of_nat n)" "1 \<le> n" "leaseSeconds (with_defaults c) = Num (of_nat l)"
      "l = 0 \<or> 5 \<le> l \<and> l \<le> 3600" "heartbeatIntervalMs (with_defaults c) = Num h" "0 < h"
      "h \<le> of_nat (if l = 0 then 30 else l) * 1000 / 3" "shutdownTimeoutMs (with_defaults c) = Num t" "0 < t"
      using ok unfolding config_ok_def by blast
    moreover from this have "\<not> of_nat n < (1 :: rat)" "l \<noteq> 0 \<Longrightarrow> \<not> of_nat l < (5 :: rat) \<and> \<not> (3600 :: rat) < of_nat l" by auto
    ultimately show ?thesis by (auto simp: new_runner_def Let_def)
  qed
  with Inl show ?thesis by auto
qed

section \<open>Dispatching one job\<close>

text \<open>
  The world of one dispatch: whether the signal is aborted at the start, the clock then, the result of
  \<^verbatim>\<open>maintainLease\<close> once its first renewal was accepted or failed (only awaited with heartbeats), whether
  the signal is aborted then; and, when the handler has returned, the lease with its own clock, the
  signal of the job and the clock.
\<close>

record poll_world =
  pw_aborted :: bool
  pw_now :: int
  pw_lease :: "client_error + lease"
  pw_aborted_lease :: bool
  pw_lease_later :: lease
  pw_aborted_later :: bool
  pw_now_later :: int

datatype poll_result =
    Skipped
  | LeaseRefused client_error bool
  | Dropped outcome
  | Sent delivery

text \<open>\<open>None\<close> is a job without lease metadata, \<open>Some None\<close> a deadline that does not parse.\<close>

definition job_deadline :: "(string \<Rightarrow> int option) \<Rightarrow> job \<Rightarrow> int option option" where
  "job_deadline parseDate j = map_option parseDate (job_lockExpiresAt j)"

definition deadline_usable :: "int \<Rightarrow> int option option \<Rightarrow> bool" where
  "deadline_usable t deadline =
     (case deadline of None \<Rightarrow> True | Some None \<Rightarrow> False | Some (Some d) \<Rightarrow> t < d)"

text \<open>Whether the job may still be answered when its handler has returned.\<close>

definition still_owned :: "runner_config \<Rightarrow> int option option \<Rightarrow> poll_world \<Rightarrow> bool" where
  "still_owned cfg deadline w =
     (if heartbeat cfg then \<not> aborted (pw_lease_later w) \<and> valid (pw_lease_later w)
      else \<not> pw_aborted_later w \<and> deadline_usable (pw_now_later w) deadline)"

definition poll_dispatch ::
  "(fields \<Rightarrow> string + string) \<Rightarrow> (string \<Rightarrow> fields option) \<Rightarrow> (string \<Rightarrow> int option) \<Rightarrow> runner_config \<Rightarrow> registry \<Rightarrow>
   poll_world \<Rightarrow> attempt list \<Rightarrow> job \<Rightarrow> metrics \<Rightarrow> poll_result \<times> callback_effect list \<times> metrics"
  where
  "poll_dispatch stringify jsonParse parseDate cfg reg w ws j m =
     (let deadline = job_deadline parseDate j
      in if pw_aborted w \<or> \<not> deadline_usable (pw_now w) deadline then (Skipped, [], m)
         else case (if heartbeat cfg then pw_lease w else Inr (pw_lease_later w)) of
                Inl e \<Rightarrow> (LeaseRefused e (\<not> pw_aborted_lease w \<and> e \<noteq> LeaseLostError), [], m)
              | Inr _ \<Rightarrow>
                  (let oc = execute stringify reg j True
                   in if \<not> still_owned cfg deadline w then (Dropped oc, [], m)
                      else case deliver jsonParse (pw_now_later w) (workerId cfg) (job_id j) oc Polling (deadline \<noteq> None) ws m of
                             (r, effects, m') \<Rightarrow> (Sent r, effects, m')))"

text \<open>C28. When a dispatch of the polling worker calls the engine, the signal was not aborted at its start, and the job had
  either no lease metadata at all or a deadline that was readable and in the future. Of a job with a deadline, the
  lease was still held when the handler had returned: with heartbeats the lease relied on is the last one the engine
  granted, not aborted and not expired, and otherwise the deadline had not passed. A job without lease metadata is
  answered only by a worker without heartbeats, with a single call, and no lease protects that call. \<^verbatim>\<open>Date.parse('')\<close> is
  NaN.\<close>

theorem poll_callback_owned:
  assumes "poll_dispatch stringify jsonParse parseDate cfg reg w ws j m = (r, effects, m')" and "effects \<noteq> []"
    and "parseDate '''' = None"
    and "heartbeat cfg \<Longrightarrow> maintainLease parseDate t j parent = Inr s0 \<and> (lease_step i)\<^sup>*\<^sup>* s0 (pw_lease_later w)"
  shows "\<not> pw_aborted w \<and>
    (case job_deadline parseDate j of
       None \<Rightarrow> \<not> heartbeat cfg \<and> \<not> pw_aborted_later w \<and> length (calls effects) \<le> 1
     | Some None \<Rightarrow> False
     | Some (Some deadline) \<Rightarrow> pw_now w < deadline \<and>
         (if heartbeat cfg
          then \<not> aborted (pw_lease_later w) \<and> now (pw_lease_later w) < hd (grants (pw_lease_later w)) \<and>
            sorted (rev (grants (pw_lease_later w)))
          else \<not> pw_aborted_later w \<and> pw_now_later w < deadline))"
proof -
  let ?deadline = "job_deadline parseDate j"
  have d: "\<not> pw_aborted w" "deadline_usable (pw_now w) ?deadline" "still_owned cfg ?deadline w"
    using assms(1,2) by (auto simp: poll_dispatch_def Let_def split: if_splits sum.splits)
  have calls: "length (calls effects) \<le> 1" if "?deadline = None"
    using assms(1,2) that
    by (auto simp: poll_dispatch_def Let_def dest!: deliver_once split: if_splits sum.splits prod.splits)
  have lease: "\<not> aborted (pw_lease_later w) \<and> now (pw_lease_later w) < hd (grants (pw_lease_later w)) \<and>
      sorted (rev (grants (pw_lease_later w)))" "?deadline \<noteq> None" if "heartbeat cfg"
  proof -
    have "lease_inv (pw_lease_later w)" using assms(4) [OF that] lease_inv_reachable by auto
    with d(3) that show "\<not> aborted (pw_lease_later w) \<and> now (pw_lease_later w) < hd (grants (pw_lease_later w)) \<and>
        sorted (rev (grants (pw_lease_later w)))" by (simp add: still_owned_def valid_def lease_inv_def)
    show "?deadline \<noteq> None"
      using assms(3,4) that by (auto simp: maintainLease_def job_deadline_def split: option.splits)
  qed
  show ?thesis
    using d calls lease by (auto simp: still_owned_def deadline_usable_def split: option.splits if_splits)
qed

section \<open>The loop of run\<close>

text \<open>
  \<open>inFlight\<close> holds the dispatches that have not settled, by number. The phases are the places where the
  loop awaits; \<open>Polling_for n\<close> has asked for at most \<open>n\<close> jobs, \<open>Ended\<close> carries what \<^verbatim>\<open>run\<close> throws. A dispatch may
  report a fatal error while it is in flight. After a drain that timed out, dispatches may still settle
  and the last one clears \<^verbatim>\<open>running\<close>; \<open>drained\<close> is that continuation, whether or not the timeout came first.
\<close>

datatype run_phase = Top | Racing | Polling_for nat | Pausing | Draining | Ended "client_error option"

record run_state =
  inFlight :: "nat set"
  next_dispatch :: nat
  run_aborted :: bool
  run_fatal :: "client_error option"
  running :: bool
  run_phase :: run_phase

definition new_run :: run_state where
  "new_run = \<lparr>inFlight = {}, next_dispatch = 0, run_aborted = False, run_fatal = None, running = False,
     run_phase = Ended None\<rparr>"

text \<open>The start of \<^verbatim>\<open>run\<close>: refused while a run is going on or its handlers are draining.\<close>

definition start_run :: "bool \<Rightarrow> bool \<Rightarrow> bool \<Rightarrow> run_state \<Rightarrow> client_error + run_state" where
  "start_run heartbeat_on extender parent_aborted s =
     (if running s then Inl (PlainError ''runner already running or draining handlers'')
      else if heartbeat_on \<and> \<not> extender then Inl HeartbeatUnsupportedError
      else Inr (s\<lparr>running := True, run_aborted := parent_aborted, run_fatal := None, run_phase := Top\<rparr>))"

definition loop_top :: "nat \<Rightarrow> run_state \<Rightarrow> run_state" where
  "loop_top limit s =
     (if run_aborted s then s\<lparr>run_phase := Draining\<rparr>
      else if card (inFlight s) \<ge> limit then s\<lparr>run_phase := Racing\<rparr>
      else s\<lparr>run_phase := Polling_for (limit - card (inFlight s))\<rparr>)"

definition jobs_polled :: "nat \<Rightarrow> run_state \<Rightarrow> run_state" where
  "jobs_polled n s =
     s\<lparr>inFlight := inFlight s \<union> {next_dispatch s..<next_dispatch s + n}, next_dispatch := next_dispatch s + n,
       run_phase := (if n = 0 then Pausing else Top)\<rparr>"

definition poll_failed :: "run_state \<Rightarrow> run_state" where
  "poll_failed s = s\<lparr>run_phase := (if run_aborted s then Draining else Pausing)\<rparr>"

definition run_fatal_error :: "client_error \<Rightarrow> run_state \<Rightarrow> run_state" where
  "run_fatal_error e s =
     s\<lparr>run_fatal := (case run_fatal s of None \<Rightarrow> Some e | Some f \<Rightarrow> Some f), run_aborted := True\<rparr>"

definition drained :: "run_state \<Rightarrow> run_state" where
  "drained s =
     s\<lparr>running := False, run_phase := (if run_phase s = Draining then Ended (run_fatal s) else run_phase s)\<rparr>"

definition drain_timeout :: "run_state \<Rightarrow> run_state" where
  "drain_timeout s =
     s\<lparr>run_phase := Ended (case run_fatal s of
         None \<Rightarrow> Some (PlainError ''runner shutdown timed out; handlers still running'') | Some f \<Rightarrow> Some f)\<rparr>"

text \<open>\<open>answers n k\<close> says that the engine may answer a request for \<open>n\<close> jobs with \<open>k\<close> of them.\<close>

inductive run_step :: "(nat \<Rightarrow> nat \<Rightarrow> bool) \<Rightarrow> nat \<Rightarrow> run_state \<Rightarrow> run_state \<Rightarrow> bool" for answers limit where
  begins: "start_run h x a s = Inr s' \<Longrightarrow> run_step answers limit s s'"
| top: "run_phase s = Top \<Longrightarrow> run_step answers limit s (loop_top limit s)"
| race_won: "run_phase s = Racing \<Longrightarrow> card (inFlight s) < limit \<or> run_aborted s \<Longrightarrow>
     run_step answers limit s (s\<lparr>run_phase := Top\<rparr>)"
| polled: "run_phase s = Polling_for n \<Longrightarrow> answers n k \<Longrightarrow> run_step answers limit s (jobs_polled k s)"
| poll_fails: "run_phase s = Polling_for n \<Longrightarrow> run_step answers limit s (poll_failed s)"
| paused: "run_phase s = Pausing \<Longrightarrow> run_step answers limit s (s\<lparr>run_phase := Top\<rparr>)"
| settles: "d \<in> inFlight s \<Longrightarrow> run_step answers limit s (s\<lparr>inFlight := inFlight s - {d}\<rparr>)"
| aborts: "run_step answers limit s (s\<lparr>run_aborted := True\<rparr>)"
| fatal_reported: "d \<in> inFlight s \<Longrightarrow> run_step answers limit s (run_fatal_error e s)"
| drains: "run_phase s = Draining \<or> (\<exists>e. run_phase s = Ended e) \<Longrightarrow> inFlight s = {} \<Longrightarrow> run_step answers limit s (drained s)"
| times_out: "run_phase s = Draining \<Longrightarrow> run_step answers limit s (drain_timeout s)"

definition run_inv :: "nat \<Rightarrow> run_state \<Rightarrow> bool" where
  "run_inv limit s \<longleftrightarrow> finite (inFlight s) \<and> card (inFlight s) \<le> limit \<and> (\<forall>d \<in> inFlight s. d < next_dispatch s) \<and>
     (\<forall>n. run_phase s = Polling_for n \<longrightarrow> 1 \<le> n \<and> card (inFlight s) + n \<le> limit) \<and>
     (running s \<or> inFlight s = {} \<and> (\<exists>e. run_phase s = Ended e))"

lemma run_step_inv:
  assumes "run_step answers limit s s'" "run_inv limit s" "\<And>n k. answers n k \<Longrightarrow> k \<le> n"
  shows "run_inv limit s'"
  using assms(1)
proof cases
  case (begins h x a)
  then show ?thesis using assms(2) by (auto simp: start_run_def run_inv_def split: if_splits)
next
  case (polled n k)
  have "inFlight s \<inter> {next_dispatch s..<next_dispatch s + k} = {}" using assms(2) by (auto simp: run_inv_def)
  then have "card (inFlight s \<union> {next_dispatch s..<next_dispatch s + k}) = card (inFlight s) + k"
    using assms(2) by (simp add: run_inv_def card_Un_disjoint)
  with polled assms(2) assms(3) [OF polled(3)] show ?thesis
    by (auto simp: run_inv_def jobs_polled_def)
next
  case (settles d)
  have "card (inFlight s - {d}) \<le> card (inFlight s)" by (simp add: card_Diff1_le)
  with settles assms(2) show ?thesis by (fastforce simp: run_inv_def)
qed (use assms(2) in \<open>auto simp: run_inv_def loop_top_def poll_failed_def run_fatal_error_def drained_def drain_timeout_def\<close>)

text \<open>C7. A runner respects its concurrency: if the engine answers a poll with at most as many jobs as were
  asked for, no more than the configured number of dispatches is ever in flight, over any number of runs;
  a poll always asks for at least one job and only for the free slots; and a run that is refused nothing
  begins with no dispatch of an earlier run still in flight.\<close>

theorem runner_concurrency_respected:
  assumes "(run_step answers limit)\<^sup>*\<^sup>* new_run s" and "\<And>n k. answers n k \<Longrightarrow> k \<le> n"
  shows "card (inFlight s) \<le> limit \<and>
    (\<forall>n. run_phase s = Polling_for n \<longrightarrow> 1 \<le> n \<and> card (inFlight s) + n \<le> limit) \<and>
    (case start_run h x a s of Inr s' \<Rightarrow> inFlight s' = {} | Inl _ \<Rightarrow> True)"
proof -
  have "run_inv limit s" using assms(1)
  proof (induction rule: rtranclp_induct)
    case base
    show ?case by (simp add: run_inv_def new_run_def)
  next
    case (step s s')
    from run_step_inv [OF step(2,3) assms(2)] show ?case .
  qed
  then show ?thesis by (auto simp: run_inv_def start_run_def)
qed


section \<open>Witnesses\<close>

definition sample_config :: runner_config where
  "sample_config = with_defaults \<lparr>opt_workerId = ''w'', opt_concurrency = Some (Num 2), opt_pollIntervalMs = None,
     opt_leaseSeconds = Some (Num 30), opt_heartbeat = Some True, opt_heartbeatIntervalMs = None,
     opt_shutdownTimeoutMs = None\<rparr>"

definition sample_world :: poll_world where
  "sample_world = \<lparr>pw_aborted = False, pw_now = 10, pw_lease = Inr sample_lease, pw_aborted_lease = False,
     pw_lease_later = on_answer 5 0 (Inr (Some 60)) sample_lease, pw_aborted_later = False, pw_now_later = 11\<rparr>"

theorem poll_callback_owned_witness:
  "\<exists>r effects m'. poll_dispatch (\<lambda>_. Inr ''{}'') (\<lambda>_. Some []) sample_dates sample_config [] sample_world sample_attempts
       sample_job new_metrics = (r, effects, m') \<and> effects \<noteq> [] \<and>
     now (pw_lease_later sample_world) < hd (grants (pw_lease_later sample_world))"
proof -
  let ?d = "poll_dispatch (\<lambda>_. Inr ''{}'') (\<lambda>_. Some []) sample_dates sample_config [] sample_world sample_attempts
    sample_job new_metrics"
  obtain r effects m' where d: "?d = (r, effects, m')" by (metis prod_cases3)
  have h: "heartbeat sample_config" by (simp add: sample_config_def with_defaults_def or_default_def)
  have v: "valid (pw_lease_later sample_world)"
    by (simp add: sample_world_def valid_def aborted_def on_answer_def sample_lease_def lease_defs Let_def)
  have e: "effects \<noteq> []" using d h v
    by (auto simp: poll_dispatch_def sample_world_def job_deadline_def sample_job_def sample_dates_def deadline_usable_def
        still_owned_def valid_def execute_def get_handler_def deliver_def trackCallback_def sample_attempts_def permanent_def Let_def
        split: if_splits prod.splits)
  have "maintainLease sample_dates 10 sample_job None = Inr sample_lease \<and>
      (lease_step 5)\<^sup>*\<^sup>* sample_lease (pw_lease_later sample_world)"
    using sample_start lease_step.answer [OF sample_calling(1), of 5 0 "Inr (Some 60)"]
    by (simp add: sample_world_def r_into_rtranclp)
  moreover have "sample_dates '''' = None" "\<exists>x. job_deadline sample_dates sample_job = Some (Some x)"
    by (simp_all add: sample_dates_def job_deadline_def sample_job_def)
  ultimately show ?thesis using poll_callback_owned [OF d e] d e h by fastforce
qed

definition full_run :: run_state where
  "full_run = \<lparr>inFlight = {0..<2}, next_dispatch = 2, run_aborted = False, run_fatal = None, running = True, run_phase = Top\<rparr>"

lemma full_run_reached: "(run_step (\<lambda>n k. k \<le> n) 2)\<^sup>*\<^sup>* new_run full_run"
proof -
  let ?R = "run_step (\<lambda>n k. k \<le> n) 2"
  define s1 where "s1 = new_run\<lparr>running := True, run_aborted := False, run_fatal := None, run_phase := Top\<rparr>"
  have 1: "?R new_run s1"
    by (rule begins [where h = False and x = False and a = False]) (simp add: s1_def start_run_def new_run_def)
  have 2: "?R s1 (loop_top 2 s1)" by (rule run_step.top) (simp add: s1_def)
  have p: "run_phase (loop_top 2 s1) = Polling_for 2" by (simp add: loop_top_def s1_def new_run_def)
  have 3: "?R (loop_top 2 s1) (jobs_polled 2 (loop_top 2 s1))" by (rule polled [OF p]) simp
  have "jobs_polled 2 (loop_top 2 s1) = full_run"
    by (simp add: jobs_polled_def loop_top_def s1_def new_run_def full_run_def numeral_2_eq_2)
  with 1 2 3 show ?thesis by (metis converse_rtranclp_into_rtranclp r_into_rtranclp)
qed

theorem runner_concurrency_respected_witness: "card (inFlight full_run) = 2 \<and> card (inFlight full_run) \<le> 2"
  using runner_concurrency_respected [OF full_run_reached, of False False False] by (simp add: full_run_def)


end
