(* ===== verification/Utc_Timestamp.thy ===== *)
theory Utc_Timestamp
  imports Prelude
begin

text \<open>
  The check of UTC timestamps that guards every query of the monitor,
  \<^verbatim>\<open>workflow-monitor-bff/src/common/utils/utc-timestamp.ts\<close>.

  The regular expression is \<open>utc_match\<close>, which returns its capture groups. \<^verbatim>\<open>new Date(value)\<close> and the
  \<^verbatim>\<open>getUTC\<close> methods follow the abstract operations of the language: a day number counts from 1970, a day
  of the month up to 31 is accepted in every month and runs over into the next one, as does hour 24;
  the getters take the day number apart again.
\<close>

section \<open>Days and dates\<close>

definition leap :: "int \<Rightarrow> bool" where
  "leap y \<longleftrightarrow> y mod 4 = 0 \<and> (y mod 100 \<noteq> 0 \<or> y mod 400 = 0)"

definition month_starts :: "int \<Rightarrow> int list" where
  "month_starts y =
     (let l = (if leap y then 1 else 0)
      in [0, 31, 59 + l, 90 + l, 120 + l, 151 + l, 181 + l, 212 + l, 243 + l, 273 + l, 304 + l, 334 + l, 365 + l])"

definition day_from_year :: "int \<Rightarrow> int" where
  "day_from_year y = 365 * (y - 1970) + (y - 1969) div 4 - (y - 1901) div 100 + (y - 1601) div 400"

definition make_day :: "int \<Rightarrow> nat \<Rightarrow> int \<Rightarrow> int" where
  "make_day y m d = day_from_year y + month_starts y ! (m - 1) + d - 1"

text \<open>The largest year that starts no later than the day, among those four digits and an overflow can
  reach; then the largest month of that year.\<close>

definition year_from_day :: "int \<Rightarrow> int" where
  "year_from_day d = the (find (\<lambda>y. day_from_year y \<le> d) (rev [0..10001]))"

definition month_from_day :: "int \<Rightarrow> nat" where
  "month_from_day d =
     (let y = year_from_day d
      in the (find (\<lambda>m. month_starts y ! (m - 1) \<le> d - day_from_year y) (rev [1..<13])))"

definition date_from_day :: "int \<Rightarrow> int" where
  "date_from_day d =
     (let y = year_from_day d in d - day_from_year y - month_starts y ! (month_from_day d - 1) + 1)"

section \<open>The check\<close>

definition number_of :: "string \<Rightarrow> nat" where
  "number_of s = foldl (\<lambda>n c. 10 * n + (of_char c - 48)) 0 s"

definition slice :: "nat \<Rightarrow> nat \<Rightarrow> string \<Rightarrow> string" where
  "slice a b s = drop a (take b s)"

text \<open>\<^verbatim>\<open>(?:\.\d+)?Z\<close> at the end; the milliseconds it denotes.\<close>

definition fraction_tail :: "string \<Rightarrow> nat option" where
  "fraction_tail r =
     (if r = ''Z'' then Some 0
      else if length r > 2 \<and> hd r = CHR ''.'' \<and> last r = CHR ''Z'' \<and> list_all is_digit (butlast (tl r))
      then Some (number_of (take 3 (butlast (tl r) @ ''000'')))
      else None)"

record utc_fields =
  u_year :: nat
  u_month :: nat
  u_day :: nat
  u_hour :: nat
  u_minute :: nat
  u_second :: nat
  u_millis :: nat

definition utc_match :: "string \<Rightarrow> utc_fields option" where
  "utc_match s =
     (if length s \<ge> 20 \<and> list_all is_digit (slice 0 4 s) \<and> s ! 4 = CHR ''-'' \<and> list_all is_digit (slice 5 7 s) \<and>
         s ! 7 = CHR ''-'' \<and> list_all is_digit (slice 8 10 s) \<and> s ! 10 = CHR ''T'' \<and> list_all is_digit (slice 11 13 s) \<and>
         s ! 13 = CHR '':'' \<and> list_all is_digit (slice 14 16 s) \<and> s ! 16 = CHR '':'' \<and> list_all is_digit (slice 17 19 s)
      then map_option (\<lambda>ms. \<lparr>u_year = number_of (slice 0 4 s), u_month = number_of (slice 5 7 s),
              u_day = number_of (slice 8 10 s), u_hour = number_of (slice 11 13 s), u_minute = number_of (slice 14 16 s),
              u_second = number_of (slice 17 19 s), u_millis = ms\<rparr>) (fraction_tail (drop 19 s))
      else None)"

text \<open>\<^verbatim>\<open>new Date(value).getTime()\<close>; \<open>None\<close> is NaN.\<close>

definition parse_utc :: "utc_fields \<Rightarrow> int option" where
  "parse_utc f =
     (if 1 \<le> u_month f \<and> u_month f \<le> 12 \<and> 1 \<le> u_day f \<and> u_day f \<le> 31 \<and> u_minute f \<le> 59 \<and> u_second f \<le> 59 \<and>
         (u_hour f \<le> 23 \<or> u_hour f = 24 \<and> u_minute f = 0 \<and> u_second f = 0 \<and> u_millis f = 0)
      then Some (make_day (int (u_year f)) (u_month f) (int (u_day f)) * 86400000 + int (u_hour f) * 3600000
             + int (u_minute f) * 60000 + int (u_second f) * 1000 + int (u_millis f))
      else None)"

definition isUtcTimestamp :: "string \<Rightarrow> bool" where
  "isUtcTimestamp value =
     (case utc_match value of
        None \<Rightarrow> False
      | Some f \<Rightarrow>
          (case parse_utc f of
             None \<Rightarrow> False
           | Some t \<Rightarrow>
               year_from_day (t div 86400000) = int (u_year f) \<and> month_from_day (t div 86400000) = u_month f \<and>
               date_from_day (t div 86400000) = int (u_day f) \<and> (t div 3600000) mod 24 = int (u_hour f) \<and>
               (t div 60000) mod 60 = int (u_minute f) \<and> (t div 1000) mod 60 = int (u_second f)))"

section \<open>Calendar dates\<close>

definition days_in_month :: "int \<Rightarrow> nat \<Rightarrow> int" where
  "days_in_month y m = (if m \<in> {4, 6, 9, 11} then 30 else if m = 2 then (if leap y then 29 else 28) else 31)"

lemma month_length: "1 \<le> m \<Longrightarrow> m \<le> 12 \<Longrightarrow> month_starts y ! m - month_starts y ! (m - 1) = days_in_month y m"
proof -
  assume "1 \<le> m" "m \<le> 12"
  then have "m \<in> {1, 2, 3, 4, 5, 6, 7, 8, 9, 10, 11, 12}" by simp presburger
  then show ?thesis by (auto simp: month_starts_def days_in_month_def Let_def nth_Cons')
qed

lemma month_starts_mono: "i \<le> j \<Longrightarrow> j \<le> 12 \<Longrightarrow> month_starts y ! i \<le> month_starts y ! j"
proof (induction j)
  case (Suc j)
  have "0 \<le> days_in_month y (Suc j)" by (simp add: days_in_month_def)
  with Suc month_length [of "Suc j" y] show ?case by (cases "i = Suc j") auto
qed simp

lemma div_next: "0 < n \<Longrightarrow> (c + 1) div n = c div n + (if n dvd c + 1 then 1 else 0)" for c n :: int
proof -
  assume n: "0 < n"
  have c: "c = n * (c div n) + c mod n" "0 \<le> c mod n" "c mod n < n" using n by simp_all
  show ?thesis
  proof (cases "c mod n + 1 = n")
    case True
    have "c + 1 = n * (c div n) + (c mod n + 1)" using c(1) by linarith
    with True have e: "c + 1 = n * (c div n + 1)" by (simp add: distrib_left)
    then have "n dvd c + 1" by simp
    moreover have "(c + 1) div n = c div n + 1" using n by (subst e) simp
    ultimately show ?thesis by simp
  next
    case False
    with c have r: "0 \<le> c mod n + 1" "c mod n + 1 < n" and e: "c + 1 = n * (c div n) + (c mod n + 1)" by linarith+
    have "(c + 1) div n = c div n" "(c + 1) mod n = c mod n + 1"
      using int_div_pos_eq [OF e r] int_mod_pos_eq [OF e r] by simp_all
    with c(2) show ?thesis by (simp add: dvd_eq_mod_eq_0)
  qed
qed

lemma leap_count: "(c \<longrightarrow> b) \<Longrightarrow> (b \<longrightarrow> a) \<Longrightarrow>
   (if a then 1 else 0) - (if b then 1 else 0) + (if c then 1 else 0) = (if a \<and> (\<not> b \<or> c) then 1 else (0 :: int))"
  by (cases a; cases b; cases c) simp_all

lemma year_step: "a - b + c = l \<Longrightarrow>
   365 * (y + 1 - 1970) + (p + a) - (q + b) + (r + c) - (365 * (y - 1970) + p - q + r) = 365 + l"
  for a b c l p q r y :: int
  by simp

lemma year_length: "day_from_year (y + 1) - day_from_year y = (if leap y then 366 else 365)"
proof -
  have shift: "n dvd y - n * k \<longleftrightarrow> y mod n = 0" for n k :: int
    by (metis dvd_eq_mod_eq_0 dvd_triv_left dvd_diff_left_iff)
  define p q r where "p = (y - 1969) div 4" and "q = (y - 1901) div 100" and "r = (y - 1601) div 400"
  have "(y + 1 - 1969) div 4 = p + (if y mod 4 = 0 then 1 else 0)"
    using div_next [of 4 "y - 1969"] shift [of 4 492] by (simp add: p_def)
  moreover have "(y + 1 - 1901) div 100 = q + (if y mod 100 = 0 then 1 else 0)"
    using div_next [of 100 "y - 1901"] shift [of 100 19] by (simp add: q_def)
  moreover have "(y + 1 - 1601) div 400 = r + (if y mod 400 = 0 then 1 else 0)"
    using div_next [of 400 "y - 1601"] shift [of 400 4] by (simp add: r_def)
  ultimately have next_year: "day_from_year (y + 1) = 365 * (y + 1 - 1970) + (p + (if y mod 4 = 0 then 1 else 0))
      - (q + (if y mod 100 = 0 then 1 else 0)) + (r + (if y mod 400 = 0 then 1 else 0))"
    by (simp only: day_from_year_def)
  have this_year: "day_from_year y = 365 * (y - 1970) + p - q + r"
    by (simp only: day_from_year_def p_def q_def r_def)
  have "400 dvd y \<longrightarrow> 100 dvd y" "100 dvd y \<longrightarrow> 4 dvd y"
    using dvd_trans [of 100 400 y] dvd_trans [of 4 100 y] by simp_all
  then have "(if y mod 4 = 0 then 1 else 0) - (if y mod 100 = 0 then 1 else 0) + (if y mod 400 = 0 then 1 else 0)
      = (if leap y then 1 else (0 :: int))"
    unfolding leap_def dvd_eq_mod_eq_0 by (rule leap_count)
  then have "day_from_year (y + 1) - day_from_year y = 365 + (if leap y then 1 else 0)"
    unfolding next_year this_year by (rule year_step)
  then show ?thesis by simp
qed

lemma day_from_year_mono: "y \<le> z \<Longrightarrow> day_from_year y \<le> day_from_year z"
proof (induction "nat (z - y)" arbitrary: z)
  case (Suc n)
  then have "day_from_year y \<le> day_from_year (z - 1)" by (intro Suc.hyps(1)) linarith+
  with year_length [of "z - 1"] show ?case by (simp split: if_splits)
qed simp

text \<open>The largest element of a range below a monotone bound.\<close>

lemma find_rev_Some:
  assumes "find P (rev xs) = Some x" "sorted xs"
  shows "x \<in> set xs \<and> P x \<and> (\<forall>y \<in> set xs. P y \<longrightarrow> y \<le> x)"
  using assms
proof (induction xs rule: rev_induct)
  case (snoc a xs)
  then show ?case by (cases "P a") (auto simp: sorted_append)
qed simp

lemma find_rev_ex: "x \<in> set xs \<Longrightarrow> P x \<Longrightarrow> \<exists>y. find P (rev xs) = Some y"
  by (metis find_None_iff not_None_eq set_rev)

lemma year_from_day:
  assumes "day_from_year 0 \<le> d" "d < day_from_year 10001"
  shows "day_from_year (year_from_day d) \<le> d \<and> d < day_from_year (year_from_day d + 1)"
proof -
  obtain y where y: "find (\<lambda>y. day_from_year y \<le> d) (rev [0..10001]) = Some y"
    using find_rev_ex [of 0 "[0..10001]" "\<lambda>y. day_from_year y \<le> d"] assms(1) by auto
  from find_rev_Some [OF this] have "0 \<le> y" "y \<le> 10001" "day_from_year y \<le> d"
    and max: "\<And>z. 0 \<le> z \<Longrightarrow> z \<le> 10001 \<Longrightarrow> day_from_year z \<le> d \<Longrightarrow> z \<le> y" by auto
  moreover have "d < day_from_year (y + 1)"
  proof (rule ccontr)
    assume "\<not> ?thesis"
    with max [of "y + 1"] \<open>0 \<le> y\<close> have "y + 1 > 10001" by linarith
    with \<open>y \<le> 10001\<close> have "y = 10001" by simp
    with \<open>day_from_year y \<le> d\<close> assms(2) show False by simp
  qed
  ultimately show ?thesis by (simp add: year_from_day_def y)
qed

lemma month_from_day:
  assumes "day_from_year 0 \<le> d" "d < day_from_year 10001"
  defines "y \<equiv> year_from_day d" and "m \<equiv> month_from_day d"
  shows "1 \<le> m \<and> m \<le> 12 \<and> month_starts y ! (m - 1) \<le> d - day_from_year y \<and> d - day_from_year y < month_starts y ! m"
proof -
  have y: "0 \<le> d - day_from_year y" "d - day_from_year y < (if leap y then 366 else 365)"
    using year_from_day [OF assms(1,2)] year_length [of y] by (auto simp: y_def)
  let ?P = "\<lambda>m. month_starts y ! (m - 1) \<le> d - day_from_year y"
  have "?P 1" using y(1) by (simp add: month_starts_def Let_def)
  then obtain k where k: "find ?P (rev [1..<13]) = Some k"
    using find_rev_ex [of 1 "[1..<13]" ?P] by auto
  from find_rev_Some [OF this] have "1 \<le> k" "k \<le> 12" "?P k"
    and max: "\<And>n. 1 \<le> n \<Longrightarrow> n \<le> 12 \<Longrightarrow> ?P n \<Longrightarrow> n \<le> k" by auto
  moreover have "d - day_from_year y < month_starts y ! k"
  proof (cases "k = 12")
    case True
    then show ?thesis using y(2) by (auto simp: month_starts_def Let_def)
  next
    case False
    with max [of "k + 1"] \<open>k \<le> 12\<close> show ?thesis by force
  qed
  moreover have "m = k" unfolding m_def month_from_day_def Let_def y_def [symmetric] k by simp
  ultimately show ?thesis by simp
qed

lemma date_in_month:
  assumes "day_from_year 0 \<le> d" "d < day_from_year 10001"
  shows "1 \<le> date_from_day d \<and> date_from_day d \<le> days_in_month (year_from_day d) (month_from_day d)"
  using month_from_day [OF assms] month_length [of "month_from_day d" "year_from_day d"]
  by (simp add: date_from_day_def Let_def)

text \<open>Taking the day number of a calendar date apart gives the date.\<close>

lemma make_day_inverse:
  assumes "0 \<le> y" "y \<le> 9999" "1 \<le> m" "m \<le> 12" "1 \<le> d" "d \<le> days_in_month y m"
  shows "year_from_day (make_day y m d) = y \<and> month_from_day (make_day y m d) = m \<and> date_from_day (make_day y m d) = d"
proof -
  let ?n = "make_day y m d"
  have off: "month_starts y ! (m - 1) \<le> ?n - day_from_year y" "?n - day_from_year y < month_starts y ! m"
    using assms(3-6) month_length [OF assms(3,4), of y] by (simp_all add: make_day_def)
  have "month_starts y ! 0 \<le> month_starts y ! (m - 1)" "month_starts y ! m \<le> month_starts y ! 12"
    using assms(4) by (intro month_starts_mono; simp)+
  then have inside: "day_from_year y \<le> ?n" "?n < day_from_year (y + 1)"
    using off year_length [of y] by (auto simp: month_starts_def Let_def split: if_splits)
  have range: "day_from_year 0 \<le> ?n" "?n < day_from_year 10001"
    using inside day_from_year_mono [of 0 y] day_from_year_mono [of "y + 1" 10001] assms(1,2) by simp_all
  note Y = year_from_day [OF range]
  have y: "year_from_day ?n = y"
  proof (rule antisym)
    show "year_from_day ?n \<le> y" using Y inside(2) day_from_year_mono [of "y + 1" "year_from_day ?n"] by linarith
    show "y \<le> year_from_day ?n" using Y inside(1) day_from_year_mono [of "year_from_day ?n + 1" y] by linarith
  qed
  note M = month_from_day [OF range, unfolded y]
  have m: "month_from_day ?n = m"
  proof (rule antisym)
    show "month_from_day ?n \<le> m"
      using M off(2) month_starts_mono [of m "month_from_day ?n - 1" y] by linarith
    show "m \<le> month_from_day ?n"
      using M off(1) month_starts_mono [of "month_from_day ?n" "m - 1" y] assms(4) by linarith
  qed
  show ?thesis using y m by (simp add: date_from_day_def make_day_def Let_def)
qed

section \<open>What the check accepts\<close>

lemma number_of_bound: "list_all is_digit s \<Longrightarrow> number_of s < 10 ^ length s"
proof (induction s rule: rev_induct)
  case (snoc c s)
  then have "(of_char c :: nat) \<le> 57"
    by (simp add: is_digit_def less_eq_char_def)
  then have "of_char c - 48 \<le> (9 :: nat)" by linarith
  moreover have "foldl (\<lambda>n c. 10 * n + (of_char c - 48)) 0 s < (10 :: nat) ^ length s"
    using snoc by (simp add: number_of_def)
  ultimately show ?case by (simp add: number_of_def)
qed (simp add: number_of_def)

lemma utc_match_bounds: "utc_match s = Some f \<Longrightarrow> u_year f \<le> 9999 \<and> u_millis f \<le> 999"
proof -
  assume m: "utc_match s = Some f"
  then obtain ms where ms: "fraction_tail (drop 19 s) = Some ms" "u_millis f = ms"
    and y: "u_year f = number_of (slice 0 4 s)" "list_all is_digit (slice 0 4 s)" "length s \<ge> 20"
    by (auto simp: utc_match_def split: if_splits)
  have "length (slice 0 4 s) = 4" using y(3) by (simp add: slice_def)
  with number_of_bound [OF y(2)] y(1) have "u_year f \<le> 9999" by simp
  moreover have "ms \<le> 999"
  proof (cases "drop 19 s = ''Z''")
    case True
    with ms show ?thesis by (simp add: fraction_tail_def)
  next
    case False
    let ?d = "take 3 (butlast (tl (drop 19 s)) @ ''000'')"
    have d: "list_all is_digit (butlast (tl (drop 19 s)))" "ms = number_of ?d"
      using ms(1) False by (auto simp: fraction_tail_def split: if_splits)
    have "list_all is_digit (butlast (tl (drop 19 s)) @ ''000'')" using d(1) by (simp add: is_digit_def)
    then have "list_all is_digit ?d" by (metis append_take_drop_id list_all_append)
    from number_of_bound [OF this] have "number_of ?d < 10 ^ length ?d" .
    moreover have "length ?d = 3" by (simp only: length_take length_append) simp
    ultimately show ?thesis unfolding d(2) by (simp only:) simp
  qed
  ultimately show ?thesis using ms(2) by simp
qed

text \<open>The parts of a time of day.\<close>

lemma time_parts:
  fixes D h mi s ms :: int
  assumes "0 \<le> h" "h \<le> 23" "0 \<le> mi" "mi \<le> 59" "0 \<le> s" "s \<le> 59" "0 \<le> ms" "ms \<le> 999"
  defines "t \<equiv> D * 86400000 + h * 3600000 + mi * 60000 + s * 1000 + ms"
  shows "t div 86400000 = D" "(t div 3600000) mod 24 = h" "(t div 60000) mod 60 = mi" "(t div 1000) mod 60 = s"
proof -
  show "t div 86400000 = D"
    by (rule int_div_pos_eq [of _ _ _ "h * 3600000 + mi * 60000 + s * 1000 + ms"]) (use assms in simp_all)
  have "t div 3600000 = D * 24 + h"
    by (rule int_div_pos_eq [of _ _ _ "mi * 60000 + s * 1000 + ms"]) (use assms in simp_all)
  then show "(t div 3600000) mod 24 = h" using assms by simp
  have "t div 60000 = (D * 24 + h) * 60 + mi"
    by (rule int_div_pos_eq [of _ _ _ "s * 1000 + ms"]) (use assms in simp_all)
  then show "(t div 60000) mod 60 = mi"
    using int_mod_pos_eq [of "(D * 24 + h) * 60 + mi" 60 "D * 24 + h" mi] assms(3,4) by simp
  have "t div 1000 = ((D * 24 + h) * 60 + mi) * 60 + s"
    by (rule int_div_pos_eq [of _ _ _ ms]) (use assms in simp_all)
  then show "(t div 1000) mod 60 = s"
    using int_mod_pos_eq [of "((D * 24 + h) * 60 + mi) * 60 + s" 60 "(D * 24 + h) * 60 + mi" s] assms(5,6) by simp
qed

definition calendar_ok :: "utc_fields \<Rightarrow> bool" where
  "calendar_ok f \<longleftrightarrow> 1 \<le> u_month f \<and> u_month f \<le> 12 \<and> 1 \<le> u_day f \<and> int (u_day f) \<le> days_in_month (int (u_year f)) (u_month f) \<and>
     u_hour f \<le> 23 \<and> u_minute f \<le> 59 \<and> u_second f \<le> 59"

lemma days_in_month_le: "days_in_month y m \<le> 31"
  by (simp add: days_in_month_def)

lemma accepted_if_calendar:
  assumes "utc_match s = Some f" "calendar_ok f"
  shows "isUtcTimestamp s"
proof -
  let ?D = "make_day (int (u_year f)) (u_month f) (int (u_day f))"
  let ?t = "?D * 86400000 + int (u_hour f) * 3600000 + int (u_minute f) * 60000 + int (u_second f) * 1000 + int (u_millis f)"
  note b = utc_match_bounds [OF assms(1)]
  have t: "parse_utc f = Some ?t"
    using assms(2) days_in_month_le [of "int (u_year f)" "u_month f"] by (simp add: parse_utc_def calendar_ok_def)
  have parts: "?t div 86400000 = ?D" "(?t div 3600000) mod 24 = int (u_hour f)" "(?t div 60000) mod 60 = int (u_minute f)"
    "(?t div 1000) mod 60 = int (u_second f)"
    using assms(2) b by (intro time_parts; simp add: calendar_ok_def)+
  have "year_from_day ?D = int (u_year f) \<and> month_from_day ?D = u_month f \<and> date_from_day ?D = int (u_day f)"
    using assms(2) b by (intro make_day_inverse) (simp_all add: calendar_ok_def)
  with assms(1) t parts show ?thesis by (simp only: isUtcTimestamp_def option.case)
qed

lemma calendar_if_accepted:
  assumes "utc_match s = Some f" "isUtcTimestamp s"
  shows "calendar_ok f"
proof -
  obtain t where t: "parse_utc f = Some t" "year_from_day (t div 86400000) = int (u_year f)"
    "month_from_day (t div 86400000) = u_month f" "date_from_day (t div 86400000) = int (u_day f)"
    "(t div 3600000) mod 24 = int (u_hour f)"
    using assms by (auto simp: isUtcTimestamp_def split: option.splits)
  let ?D = "make_day (int (u_year f)) (u_month f) (int (u_day f))"
  have r: "1 \<le> u_month f" "u_month f \<le> 12" "1 \<le> u_day f" "u_day f \<le> 31" "u_minute f \<le> 59" "u_second f \<le> 59"
    "u_hour f \<le> 24"
    and td: "t = ?D * 86400000 + int (u_hour f) * 3600000 + int (u_minute f) * 60000 + int (u_second f) * 1000 + int (u_millis f)"
    using t(1) by (auto simp: parse_utc_def split: if_splits)
  have "(t div 3600000) mod 24 < 24" by simp
  with t(5) have h: "u_hour f \<le> 23" by simp
  note b = utc_match_bounds [OF assms(1)]
  have D: "t div 86400000 = ?D" unfolding td using r h b by (intro time_parts(1)) simp_all
  have "month_starts (int (u_year f)) ! 0 \<le> month_starts (int (u_year f)) ! (u_month f - 1)"
    "month_starts (int (u_year f)) ! (u_month f - 1) \<le> month_starts (int (u_year f)) ! 11"
    using r(1,2) by (intro month_starts_mono; simp)+
  then have "day_from_year (int (u_year f)) \<le> ?D" "?D < day_from_year (int (u_year f) + 1)"
    using r(3,4) year_length [of "int (u_year f)"] by (auto simp: make_day_def month_starts_def Let_def split: if_splits)
  then have "day_from_year 0 \<le> ?D" "?D < day_from_year 10001"
    using day_from_year_mono [of 0 "int (u_year f)"] day_from_year_mono [of "int (u_year f) + 1" 10001] b by simp_all
  from date_in_month [OF this] t(2-4) r h show ?thesis by (simp add: calendar_ok_def D)
qed

text \<open>A timestamp is accepted exactly when it has the form of the pattern and names a second that exists in
  the Gregorian calendar: month one to twelve, a day of that month in that year with leap years, hour 0 to
  23, minute and second 0 to 59. Dates like the thirtieth of February and hour 24, which \<^verbatim>\<open>Date\<close> silently
  moves on, are refused.\<close>

theorem utc_timestamp_exact:
  "isUtcTimestamp s = (case utc_match s of Some f \<Rightarrow> calendar_ok f | None \<Rightarrow> False)"
proof (cases "utc_match s")
  case (Some f)
  with accepted_if_calendar [of s f] calendar_if_accepted [of s f] show ?thesis by auto
qed (simp add: isUtcTimestamp_def)

section \<open>Writing a date\<close>

text \<open>\<^verbatim>\<open>Date.prototype.toISOString\<close>: a year above 9999 has a sign and six digits. Years before 0 do not occur.\<close>

fun pad :: "nat \<Rightarrow> nat \<Rightarrow> string" where
  "pad 0 x = []"
| "pad (Suc n) x = pad n (x div 10) @ [digit_char (x mod 10)]"

definition year_text :: "nat \<Rightarrow> string" where
  "year_text y = (if y \<le> 9999 then pad 4 y else CHR ''+'' # pad 6 y)"

definition toISOString :: "int \<Rightarrow> string" where
  "toISOString t =
     (let d = t div 86400000
      in year_text (nat (year_from_day d)) @ ''-'' @ pad 2 (month_from_day d) @ ''-'' @ pad 2 (nat (date_from_day d)) @ ''T'' @
         pad 2 (nat ((t div 3600000) mod 24)) @ '':'' @ pad 2 (nat ((t div 60000) mod 60)) @ '':'' @
         pad 2 (nat ((t div 1000) mod 60)) @ ''.'' @ pad 3 (nat (t mod 1000)) @ ''Z'')"

definition iso_date :: "int \<Rightarrow> bool" where
  "iso_date t \<longleftrightarrow> day_from_year 0 \<le> t div 86400000 \<and> t div 86400000 < day_from_year 10000"

lemma length_pad [simp]: "length (pad n x) = n"
  by (induction n arbitrary: x) auto

lemma pad_digits: "list_all is_digit (pad n x)"
  by (induction n arbitrary: x) (auto simp: digit_char_digit)

lemma number_of_snoc: "number_of (s @ [c]) = 10 * number_of s + (of_char c - 48)"
  by (simp add: number_of_def)

lemma number_of_nat_str: "number_of (nat_str n) = n"
proof (induction n rule: nat_str.induct)
  case (1 n)
  show ?case
  proof (cases "n < 10")
    case True
    then show ?thesis using digit_char_digit [OF True] by (subst nat_str.simps) (simp add: number_of_def)
  next
    case False
    then have "number_of (nat_str n) = 10 * number_of (nat_str (n div 10)) + n mod 10"
      using digit_char_digit [of "n mod 10"] by (subst nat_str.simps) (simp add: number_of_snoc)
    with 1 [OF False] show ?thesis by simp
  qed
qed

lemma number_of_pad: "number_of (pad n x) = x mod 10 ^ n"
proof (induction n arbitrary: x)
  case (Suc n)
  have "number_of (pad (Suc n) x) = 10 * (x div 10 mod 10 ^ n) + x mod 10"
    using digit_char_digit [of "x mod 10"] by (simp add: number_of_snoc Suc)
  then show ?case by (simp add: mod_mult2_eq)
qed (simp add: number_of_def)

lemma utc_match_parts:
  assumes "length y = 4" "length mo = 2" "length d = 2" "length h = 2" "length mi = 2" "length s = 2" "length f = 3"
    and "list_all is_digit y" "list_all is_digit mo" "list_all is_digit d" "list_all is_digit h" "list_all is_digit mi"
    "list_all is_digit s" "list_all is_digit f"
  shows "utc_match (y @ ''-'' @ mo @ ''-'' @ d @ ''T'' @ h @ '':'' @ mi @ '':'' @ s @ ''.'' @ f @ ''Z'') =
    Some \<lparr>u_year = number_of y, u_month = number_of mo, u_day = number_of d, u_hour = number_of h,
      u_minute = number_of mi, u_second = number_of s, u_millis = number_of f\<rparr>"
proof -
  let ?s = "y @ ''-'' @ mo @ ''-'' @ d @ ''T'' @ h @ '':'' @ mi @ '':'' @ s @ ''.'' @ f @ ''Z''"
  have "slice 0 4 ?s = y" "slice 5 7 ?s = mo" "slice 8 10 ?s = d" "slice 11 13 ?s = h" "slice 14 16 ?s = mi"
    "slice 17 19 ?s = s" "drop 19 ?s = ''.'' @ f @ ''Z''" "?s ! 4 = CHR ''-''" "?s ! 7 = CHR ''-''" "?s ! 10 = CHR ''T''"
    "?s ! 13 = CHR '':''" "?s ! 16 = CHR '':''" "length ?s \<ge> 20"
    using assms(1-7) by (simp_all add: slice_def nth_append)
  moreover have "fraction_tail (''.'' @ f @ ''Z'') = Some (number_of f)"
    using assms(7,14) by (simp add: fraction_tail_def butlast_append)
  ultimately show ?thesis using assms(8-13) by (simp only: utc_match_def) simp
qed

lemma iso_fields:
  assumes "iso_date t"
  defines "d \<equiv> t div 86400000"
  shows "0 \<le> year_from_day d" "year_from_day d \<le> 9999" "1 \<le> month_from_day d" "month_from_day d \<le> 12"
    "1 \<le> date_from_day d" "date_from_day d \<le> 31"
proof -
  have b: "day_from_year 0 \<le> d" "d < day_from_year 10001"
    using assms day_from_year_mono [of 10000 10001] by (simp_all add: iso_date_def)
  note Y = year_from_day [OF b]
  show "0 \<le> year_from_day d"
    using Y b(1) day_from_year_mono [of "year_from_day d + 1" 0] by linarith
  show "year_from_day d \<le> 9999"
    using Y day_from_year_mono [of 10000 "year_from_day d"] assms by (force simp: iso_date_def d_def)
  show "1 \<le> month_from_day d" "month_from_day d \<le> 12" using month_from_day [OF b] by simp_all
  show "1 \<le> date_from_day d" "date_from_day d \<le> 31"
    using date_in_month [OF b] days_in_month_le [of "year_from_day d" "month_from_day d"] by simp_all
qed

lemma make_day_date: "make_day (year_from_day d) (month_from_day d) (date_from_day d) = d"
  by (simp add: make_day_def date_from_day_def Let_def)

lemma time_split:
  fixes t :: int
  shows "t = t div 86400000 * 86400000 + (t div 3600000) mod 24 * 3600000 + (t div 60000) mod 60 * 60000
    + (t div 1000) mod 60 * 1000 + t mod 1000"
proof -
  have d: "t div 60000 = t div 1000 div 60" "t div 3600000 = t div 1000 div 60 div 60" "t div 86400000 = t div 1000 div 60 div 60 div 24"
    by (simp_all add: div_mult2_eq [symmetric])
  define a b c e where "a = t div 1000" and "b = a div 60" and "c = b div 60" and "e = c div 24"
  have "t = a * 1000 + t mod 1000" "a = b * 60 + a mod 60" "b = c * 60 + b mod 60" "c = e * 24 + c mod 24"
    by (simp_all add: a_def b_def c_def e_def)
  then show ?thesis unfolding d a_def [symmetric] b_def [symmetric] c_def [symmetric] e_def [symmetric] by linarith
qed

lemma toISOString_match:
  assumes "iso_date t"
  defines "d \<equiv> t div 86400000"
  shows "utc_match (toISOString t) = Some \<lparr>u_year = nat (year_from_day d), u_month = month_from_day d,
    u_day = nat (date_from_day d), u_hour = nat ((t div 3600000) mod 24), u_minute = nat ((t div 60000) mod 60),
    u_second = nat ((t div 1000) mod 60), u_millis = nat (t mod 1000)\<rparr>"
proof -
  note f = iso_fields [OF assms(1), folded d_def]
  have small: "nat (year_from_day d) < 10 ^ 4" "month_from_day d < 10 ^ 2" "nat (date_from_day d) < 10 ^ 2"
    "nat ((t div 3600000) mod 24) < 10 ^ 2" "nat ((t div 60000) mod 60) < 10 ^ 2" "nat ((t div 1000) mod 60) < 10 ^ 2"
    "nat (t mod 1000) < 10 ^ 3"
    using f pos_mod_bound [of 24 "t div 3600000"] pos_mod_bound [of 60 "t div 60000"] pos_mod_bound [of 60 "t div 1000"]
      pos_mod_bound [of 1000 t] by (simp_all add: nat_less_iff)
  have y: "year_text (nat (year_from_day d)) = pad 4 (nat (year_from_day d))" using f(2) by (simp add: year_text_def nat_le_iff)
  show ?thesis
    unfolding toISOString_def Let_def d_def [symmetric] y
    by (subst utc_match_parts) (simp_all only: length_pad pad_digits number_of_pad mod_less small)
qed

lemma parse_utc_exact:
  fixes y m d h mi s ms :: int and mo :: nat
  assumes "0 \<le> y" "1 \<le> mo" "mo \<le> 12" "1 \<le> d" "d \<le> 31" "0 \<le> h" "h \<le> 23" "0 \<le> mi" "mi \<le> 59" "0 \<le> s" "s \<le> 59" "0 \<le> ms"
  shows "parse_utc \<lparr>u_year = nat y, u_month = mo, u_day = nat d, u_hour = nat h, u_minute = nat mi, u_second = nat s,
     u_millis = nat ms\<rparr> = Some (make_day y mo d * 86400000 + h * 3600000 + mi * 60000 + s * 1000 + ms)"
proof -
  have "nat h \<le> 23" "nat mi \<le> 59" "nat s \<le> 59" "1 \<le> nat d" "nat d \<le> 31" using assms by linarith+
  with assms show ?thesis by (simp add: parse_utc_def)
qed

lemma iso_roundtrip_parts:
  assumes "iso_date t"
  shows "isUtcTimestamp (toISOString t)" "Option.bind (utc_match (toISOString t)) parse_utc = Some t"
proof -
  let ?d = "t div 86400000"
  note f = iso_fields [OF assms]
  note m = toISOString_match [OF assms]
  have r: "0 \<le> (t div 3600000) mod 24" "(t div 3600000) mod 24 \<le> 23" "0 \<le> (t div 60000) mod 60" "(t div 60000) mod 60 \<le> 59"
    "0 \<le> (t div 1000) mod 60" "(t div 1000) mod 60 \<le> 59" "0 \<le> t mod 1000"
    using pos_mod_bound [of 24 "t div 3600000"] pos_mod_bound [of 60 "t div 60000"] pos_mod_bound [of 60 "t div 1000"]
    by simp_all
  note p = parse_utc_exact [OF f(1,3,4,5,6) r, unfolded make_day_date, folded time_split]
  note same = int_nat_eq [THEN trans, OF if_P]
  show "isUtcTimestamp (toISOString t)" "Option.bind (utc_match (toISOString t)) parse_utc = Some t"
    by (simp_all only: isUtcTimestamp_def m p option.case bind.bind_lunit utc_fields.simps simp_thms
        same [OF f(1)] same [OF order_trans [OF zero_le_one f(5)]] same [OF r(1)] same [OF r(3)] same [OF r(5)])
qed

text \<open>Printing a date and reading it same: for every instant of the years 0 to 9999 the text of
  \<^verbatim>\<open>toISOString\<close> passes \<open>isUtcTimestamp\<close>, and parsing it gives the instant.\<close>

theorem iso_roundtrip:
  assumes "iso_date t"
  shows "isUtcTimestamp (toISOString t) \<and> Option.bind (utc_match (toISOString t)) parse_utc = Some t"
  using iso_roundtrip_parts [OF assms] by (rule conjI)

theorem iso_roundtrip_witness:
  "isUtcTimestamp (toISOString 1735689599123) \<and> Option.bind (utc_match (toISOString 1735689599123)) parse_utc = Some 1735689599123"
  by (rule iso_roundtrip) (simp add: iso_date_def day_from_year_def)

end
