(* ===== verification/Monitor_Store.thy ===== *)
theory Monitor_Store
  imports Utc_Timestamp Domain_Types "HOL-Library.Multiset" "HOL-Library.List_Lexorder" "HOL-Library.Product_Lexorder"
begin

text \<open>
  The database the monitor reads, \<^verbatim>\<open>workflow-monitor-bff/src/common/database/monitor-database.ts\<close>, and
  what its queries use of PostgreSQL, of the driver and of the runtime.

  A table is a list of rows with the columns of \<open>REQUIRED_SCHEMA\<close>. A \<^verbatim>\<open>TIMESTAMPTZ\<close> counts
  microseconds from 1970 and a \<^verbatim>\<open>Date\<close> counts milliseconds. The queries are translated by the list operations
  at the end: a \<^verbatim>\<open>WHERE\<close> clause filters, \<^verbatim>\<open>ORDER BY\<close> sorts, \<^verbatim>\<open>LIMIT\<close> takes, \<^verbatim>\<open>DISTINCT ON\<close> keeps the
  first row of each group.
\<close>

section \<open>The environment\<close>

text \<open>
  Code outside the repository. \<open>pg_date\<close> is the driver's conversion of a timestamp to a \<^verbatim>\<open>Date\<close>,
  \<open>pg_timestamptz\<close> the server's reading of a timestamp parameter (\<open>None\<close> when it rejects the text),
  \<open>collate\<close> the sort key of a text in the database's collation, \<open>to_number\<close> the conversion
  \<^verbatim>\<open>Number\<close> of a text, \<open>date_parse_other\<close> what \<^verbatim>\<open>Date.parse\<close> makes of a text that is not
  in the UTC format, \<open>pg_lower\<close> the server's lower case of a text and \<open>byte_length\<close> the length of a text in
  UTF-8. The rest are the codecs: \<open>json_string\<close> is \<^verbatim>\<open>JSON.stringify\<close> as a text and \<open>json_stringify\<close> as bytes,
  and base64url and SHA-256 (in base64url) work on the type \<open>'b\<close> of byte strings.
\<close>

record 'b monitor_env =
  pg_date :: "int \<Rightarrow> int"
  pg_timestamptz :: "string \<Rightarrow> int option"
  collate :: "string \<Rightarrow> nat list"
  to_number :: "string \<Rightarrow> number"
  date_parse_other :: "string \<Rightarrow> int option"
  pg_lower :: "string \<Rightarrow> string"
  byte_length :: "string \<Rightarrow> nat"
  json_string :: "json \<Rightarrow> string"
  b64_encode :: "'b \<Rightarrow> string"
  b64_decode :: "string \<Rightarrow> 'b"
  json_stringify :: "json \<Rightarrow> 'b"
  json_parse :: "'b \<Rightarrow> json option"
  sha256 :: "'b \<Rightarrow> string"

text \<open>\<^verbatim>\<open>Date.parse\<close>; \<open>None\<close> is NaN.\<close>

definition date_parse :: "'b monitor_env \<Rightarrow> string \<Rightarrow> int option" where
  "date_parse env s = (case utc_match s of Some f \<Rightarrow> parse_utc f | None \<Rightarrow> date_parse_other env s)"

datatype monitor_error = BadRequest string | NotFound string | DatabaseError | TypeError

text \<open>Statements in sequence; the first exception ends the function.\<close>

definition try_in :: "'e + 'a \<Rightarrow> ('a \<Rightarrow> 'e + 'c) \<Rightarrow> 'e + 'c" where
  "try_in x k = (case x of Inl e \<Rightarrow> Inl e | Inr a \<Rightarrow> k a)"

lemma try_in_simps [simp]: "try_in (Inl e) k = Inl e" "try_in (Inr a) k = k a"
  by (simp_all add: try_in_def)

lemma try_in_Inr: "try_in x k = Inr b \<longleftrightarrow> (\<exists>a. x = Inr a \<and> k a = Inr b)"
  by (cases x) simp_all

section \<open>Tables\<close>

record instance_row =
  wi_id :: string
  wi_definition_id :: string
  wi_definition_version :: int
  wi_status :: string
  wi_current_step_ids :: "string list"
  wi_variables :: json
  wi_started_at :: int
  wi_completed_at :: "int option"
  wi_failure_reason :: "string option"
  wi_business_key :: "string option"

record definition_row =
  wd_id :: string
  wd_version :: int
  wd_name :: string
  wd_raw_json :: fields

record execution_row =
  se_id :: string
  se_instance_id :: string
  se_step_id :: string
  se_step_type :: string
  se_attempt_number :: int
  se_status :: string
  se_started_at :: int
  se_ended_at :: "int option"
  se_failure_reason :: "string option"
  se_input_snapshot :: "json option"
  se_output_snapshot :: "json option"

record job_row =
  j_id :: string
  j_instance_id :: string
  j_worker_id :: "string option"
  j_locked_at :: "int option"
  j_lock_expires_at :: "int option"
  j_retries_remaining :: int
  j_step_execution_id :: string
  j_job_type :: string
  j_status :: string
  j_created_at :: int

record task_row =
  t_id :: string
  t_instance_id :: string
  t_step_execution_id :: string
  t_status :: string
  t_assignee :: "string option"
  t_assignee_group :: "string option"
  t_created_at :: int

record timer_row =
  b_id :: string
  b_instance_id :: string
  b_step_execution_id :: string
  b_target_step_id :: string
  b_fire_at :: int
  b_interrupting :: bool
  b_fired :: bool

record database =
  db_instances :: "instance_row list"
  db_definitions :: "definition_row list"
  db_executions :: "execution_row list"
  db_jobs :: "job_row list"
  db_tasks :: "task_row list"
  db_timers :: "timer_row list"

text \<open>The keys of the engine's migrations: an id is the primary key of its table, and a
  definition is unique by id and version.\<close>

definition keys_unique :: "database \<Rightarrow> bool" where
  "keys_unique db \<longleftrightarrow> distinct (map wi_id (db_instances db)) \<and>
     distinct (map (\<lambda>d. (wd_id d, wd_version d)) (db_definitions db)) \<and>
     distinct (map se_id (db_executions db)) \<and> distinct (map j_id (db_jobs db)) \<and>
     distinct (map t_id (db_tasks db)) \<and> distinct (map b_id (db_timers db))"

section \<open>The schema contract\<close>

text \<open>The type identifiers PostgreSQL documents for the built-in types.\<close>

abbreviation TEXT :: nat where "TEXT \<equiv> 25"
abbreviation INT4 :: nat where "INT4 \<equiv> 23"
abbreviation JSONB :: nat where "JSONB \<equiv> 3802"
abbreviation TIMESTAMPTZ :: nat where "TIMESTAMPTZ \<equiv> 1184"
abbreviation BOOL :: nat where "BOOL \<equiv> 16"

definition REQUIRED_SCHEMA :: "(string, (string, nat) omap) omap" where
  "REQUIRED_SCHEMA =
    [(''workflow_instance'',
      [(''id'', TEXT), (''definition_id'', TEXT), (''definition_version'', INT4), (''status'', TEXT),
       (''current_step_ids'', 1009), (''variables'', JSONB), (''started_at'', TIMESTAMPTZ),
       (''completed_at'', TIMESTAMPTZ), (''failure_reason'', TEXT), (''business_key'', TEXT)]),
     (''workflow_definition'',
      [(''id'', TEXT), (''version'', INT4), (''name'', TEXT), (''raw_json'', JSONB)]),
     (''step_execution'',
      [(''id'', TEXT), (''instance_id'', TEXT), (''step_id'', TEXT), (''step_type'', TEXT),
       (''attempt_number'', INT4), (''status'', TEXT), (''started_at'', TIMESTAMPTZ), (''ended_at'', TIMESTAMPTZ),
       (''failure_reason'', TEXT), (''input_snapshot'', JSONB), (''output_snapshot'', JSONB)]),
     (''job'',
      [(''id'', TEXT), (''instance_id'', TEXT), (''worker_id'', TEXT), (''locked_at'', TIMESTAMPTZ),
       (''lock_expires_at'', TIMESTAMPTZ), (''retries_remaining'', INT4), (''step_execution_id'', TEXT),
       (''job_type'', TEXT), (''status'', TEXT), (''created_at'', TIMESTAMPTZ)]),
     (''user_task'',
      [(''id'', TEXT), (''instance_id'', TEXT), (''step_execution_id'', TEXT), (''status'', TEXT),
       (''assignee'', TEXT), (''assignee_group'', TEXT), (''created_at'', TIMESTAMPTZ)]),
     (''boundary_event_schedule'',
      [(''id'', TEXT), (''instance_id'', TEXT), (''step_execution_id'', TEXT), (''target_step_id'', TEXT),
       (''fire_at'', TIMESTAMPTZ), (''interrupting'', BOOL), (''fired'', BOOL)])]"

text \<open>
  The server's answer to \<^verbatim>\<open>SELECT columns FROM table LIMIT 0\<close> is an argument: the fields of the result
  with their type identifiers, or the message of the error. The check stops at the first table that fails.
\<close>

type_synonym catalog = "string \<Rightarrow> string list \<Rightarrow> string + (string \<times> nat) list"

definition check_fields :: "(string, nat) omap \<Rightarrow> (string \<times> nat) list \<Rightarrow> string option" where
  "check_fields columns fs =
     map_option (\<lambda>(name, oid). ''column '' @ name @ '' has type OID '' @ nat_str oid @ ''; expected '' @
         (case map_get columns name of Some e \<Rightarrow> nat_str e | None \<Rightarrow> ''undefined''))
       (find (\<lambda>(name, oid). map_get columns name \<noteq> Some oid) fs)"

fun check_tables :: "catalog \<Rightarrow> (string, (string, nat) omap) omap \<Rightarrow> string + unit" where
  "check_tables ask [] = Inr ()"
| "check_tables ask ((table, columns) # rest) =
     (case ask table (map_keys columns) of
        Inl e \<Rightarrow> Inl (''Monitor schema check failed for '' @ table @ '': '' @ e)
      | Inr fs \<Rightarrow>
          (case check_fields columns fs of
             Some e \<Rightarrow> Inl (''Monitor schema check failed for '' @ table @ '': '' @ e)
           | None \<Rightarrow> check_tables ask rest))"

text \<open>\<open>None\<close> stands for a database that is not configured, whose \<^verbatim>\<open>getPool\<close> throws inside the
  loop for the first table.\<close>

definition assertReady :: "catalog option \<Rightarrow> string + unit" where
  "assertReady pool =
     check_tables (case pool of Some ask \<Rightarrow> ask | None \<Rightarrow> (\<lambda>_ _. Inl ''PostgreSQL is not configured'')) REQUIRED_SCHEMA"

definition onApplicationBootstrap :: "catalog option \<Rightarrow> string + unit" where
  "onApplicationBootstrap pool = (if pool = None then Inr () else assertReady pool)"

text \<open>\<^verbatim>\<open>HealthController.ready\<close>: the status code.\<close>

definition ready :: "catalog option \<Rightarrow> nat" where
  "ready pool = (case assertReady pool of Inr _ \<Rightarrow> 200 | Inl _ \<Rightarrow> 503)"

text \<open>The settings read from the environment variables; \<open>to_number\<close> is \<^verbatim>\<open>Number\<close>.\<close>

definition is_safe_integer :: "number \<Rightarrow> bool" where
  "is_safe_integer n \<longleftrightarrow> is_integer n \<and> num_less (Num (-9007199254740992)) n \<and> num_less n (Num 9007199254740992)"

definition positiveInteger :: "'b monitor_env \<Rightarrow> string \<Rightarrow> string option \<Rightarrow> rat \<Rightarrow> string + number" where
  "positiveInteger env name setting fallback =
     (let n = (case setting of Some s \<Rightarrow> to_number env s | None \<Rightarrow> Num fallback)
      in if \<not> is_safe_integer n \<or> num_less n (Num 1) \<or> num_less (Num 2147483647) n
         then Inl (name @ '' must be a positive integer no greater than 2147483647'') else Inr n)"

text \<open>The constructor: without a connection string there is no pool, otherwise the options of the pool are read from
  the environment, in the order of the object literal. \<open>getenv\<close> is \<^verbatim>\<open>process.env\<close>.\<close>

record pool_settings =
  ps_connectionString :: string
  ps_application_name :: string
  ps_max :: number
  ps_connectionTimeoutMillis :: number
  ps_statement_timeout :: number

definition new_database :: "'b monitor_env \<Rightarrow> (string \<Rightarrow> string option) \<Rightarrow> string option \<Rightarrow> string + pool_settings option" where
  "new_database env getenv dsn =
     (if dsn = None \<or> dsn = Some [] then Inr None
      else try_in (positiveInteger env ''MONITOR_POSTGRES_POOL_MAX'' (getenv ''MONITOR_POSTGRES_POOL_MAX'') 5) (\<lambda>m.
           try_in (positiveInteger env ''MONITOR_POSTGRES_CONNECTION_TIMEOUT_MS'' (getenv ''MONITOR_POSTGRES_CONNECTION_TIMEOUT_MS'') 2000) (\<lambda>c.
           try_in (positiveInteger env ''MONITOR_POSTGRES_STATEMENT_TIMEOUT_MS'' (getenv ''MONITOR_POSTGRES_STATEMENT_TIMEOUT_MS'') 3000) (\<lambda>t.
           Inr (Some \<lparr>ps_connectionString = the dsn, ps_application_name = ''rochallor-monitor'', ps_max = m, ps_connectionTimeoutMillis = c,
             ps_statement_timeout = t\<rparr>)))))"

definition maxJsonDocumentBytes :: "'b monitor_env \<Rightarrow> string option \<Rightarrow> string + number" where
  "maxJsonDocumentBytes env configured =
     (case configured of
        None \<Rightarrow> Inr (Num (5 * 1024 * 1024))
      | Some s \<Rightarrow>
          (let parsed = to_number env s
           in if \<not> is_integer parsed \<or> num_less parsed (Num 1)
              then Inl ''MONITOR_MAX_JSON_DOCUMENT_BYTES must be a positive integer'' else Inr parsed))"

section \<open>Query operations\<close>

definition order_desc :: "('a \<Rightarrow> 'k :: linorder) \<Rightarrow> 'a list \<Rightarrow> 'a list" where
  "order_desc k xs = rev (sort_key k xs)"

definition first_row :: "'a list \<Rightarrow> 'a option" where
  "first_row xs = (case xs of [] \<Rightarrow> None | x # _ \<Rightarrow> Some x)"

fun distinct_on :: "('a \<Rightarrow> 'k) \<Rightarrow> 'a list \<Rightarrow> 'a list" where
  "distinct_on f [] = []"
| "distinct_on f (x # xs) = x # distinct_on f (filter (\<lambda>y. f y \<noteq> f x) xs)"

text \<open>\<^verbatim>\<open>ORDER BY attempt_number DESC, started_at DESC, id DESC LIMIT 1\<close>, which every module uses to pick the
  latest execution of a step.\<close>

definition attempt_key :: "'b monitor_env \<Rightarrow> execution_row \<Rightarrow> int \<times> int \<times> nat list" where
  "attempt_key env e = (se_attempt_number e, se_started_at e, collate env (se_id e))"

definition executions_of :: "database \<Rightarrow> string \<Rightarrow> string \<Rightarrow> execution_row list" where
  "executions_of db instanceId stepId = filter (\<lambda>e. se_instance_id e = instanceId \<and> se_step_id e = stepId) (db_executions db)"

definition latest_execution :: "'b monitor_env \<Rightarrow> database \<Rightarrow> string \<Rightarrow> string \<Rightarrow> execution_row option" where
  "latest_execution env db instanceId stepId = first_row (order_desc (attempt_key env) (executions_of db instanceId stepId))"

section \<open>Lemmas\<close>

lemma order_desc_set [simp]: "set (order_desc k xs) = set xs"
  by (simp add: order_desc_def)

lemma order_desc_length [simp]: "length (order_desc k xs) = length xs"
  by (simp add: order_desc_def)

lemma order_desc_filter: "filter P (order_desc k xs) = order_desc k (filter P xs)"
  by (simp only: order_desc_def filter_sort rev_filter [symmetric])

lemma order_desc_strict:
  assumes "distinct (map k xs)"
  shows "sorted_wrt (\<lambda>a b. k b < k a) (order_desc k xs)"
proof -
  have "mset (map k (sort_key k xs)) = mset (map k xs)" by simp
  with assms have "distinct (map k (sort_key k xs))" using mset_eq_imp_distinct_iff by blast
  then have "sorted_wrt (<) (map k (sort_key k xs))" by (simp add: strict_sorted_iff)
  then show ?thesis by (simp add: order_desc_def sorted_wrt_rev sorted_wrt_map)
qed

lemma first_row_filter: "first_row xs = Some x \<Longrightarrow> P x \<Longrightarrow> first_row (filter P xs) = Some x"
  by (cases xs) (auto simp: first_row_def)

lemma first_row_set: "first_row xs = Some x \<Longrightarrow> x \<in> set xs"
  by (cases xs) (auto simp: first_row_def)

lemma first_row_None [simp]: "first_row xs = None \<longleftrightarrow> xs = []"
  by (cases xs) (auto simp: first_row_def)

text \<open>The first row of a descending order is the greatest.\<close>

lemma first_row_greatest:
  assumes "distinct (map k xs)"
  shows "first_row (order_desc k xs) = Some x \<longleftrightarrow> x \<in> set xs \<and> (\<forall>y \<in> set xs. y \<noteq> x \<longrightarrow> k y < k x)"
proof (cases "order_desc k xs")
  case Nil
  then have "set xs = {}" by (metis order_desc_set set_empty)
  then show ?thesis using Nil by (simp add: first_row_def)
next
  case (Cons z zs)
  have s: "set xs = insert z (set zs)" using Cons by (metis list.simps(15) order_desc_set)
  have g: "k y < k z" if "y \<in> set zs" for y
    using order_desc_strict [OF assms] that by (simp add: Cons)
  show ?thesis
  proof
    assume "first_row (order_desc k xs) = Some x"
    then have "x = z" by (simp add: Cons first_row_def)
    with s g show "x \<in> set xs \<and> (\<forall>y \<in> set xs. y \<noteq> x \<longrightarrow> k y < k x)" by auto
  next
    assume x: "x \<in> set xs \<and> (\<forall>y \<in> set xs. y \<noteq> x \<longrightarrow> k y < k x)"
    have "x = z"
    proof (rule ccontr)
      assume "x \<noteq> z"
      with x s have "k z < k x" "x \<in> set zs" by auto
      with g show False by fastforce
    qed
    then show "first_row (order_desc k xs) = Some x" by (simp add: Cons first_row_def)
  qed
qed

lemma distinct_key:
  assumes "distinct (map f xs)" "\<And>x y. k x = k y \<Longrightarrow> f x = f y"
  shows "distinct (map k xs)"
  using assms unfolding distinct_map inj_on_def by blast

lemma distinct_map_filter_rows: "distinct (map f xs) \<Longrightarrow> distinct (map f (filter P xs))"
  by (rule distinct_map_filter)

lemma latest_execution_iff:
  assumes "keys_unique db" "inj (collate env)"
  shows "latest_execution env db i s = Some e \<longleftrightarrow>
    e \<in> set (executions_of db i s) \<and> (\<forall>x \<in> set (executions_of db i s). x \<noteq> e \<longrightarrow> attempt_key env x < attempt_key env e)"
  unfolding latest_execution_def
proof (rule first_row_greatest, rule distinct_key)
  show "distinct (map se_id (executions_of db i s))"
    using assms(1) by (simp add: keys_unique_def executions_of_def distinct_map_filter_rows)
  show "attempt_key env x = attempt_key env y \<Longrightarrow> se_id x = se_id y" for x y
    using injD [OF assms(2)] by (simp add: attempt_key_def)
qed

lemma distinct_on_subset: "set (distinct_on f xs) \<subseteq> set xs"
  by (induction f xs rule: distinct_on.induct) auto

lemma distinct_on_distinct: "distinct (map f (distinct_on f xs))"
proof (induction f xs rule: distinct_on.induct)
  case (2 f x xs)
  then show ?case using distinct_on_subset [of f "filter (\<lambda>y. f y \<noteq> f x) xs"] by auto
qed simp

text \<open>\<^verbatim>\<open>DISTINCT ON\<close> keeps the first row of each group.\<close>

lemma distinct_on_first: "x \<in> set (distinct_on f xs) \<longleftrightarrow> first_row (filter (\<lambda>y. f y = f x) xs) = Some x"
proof (induction f xs rule: distinct_on.induct)
  case (1 f)
  then show ?case by (simp add: first_row_def)
next
  case (2 f z xs)
  show ?case
  proof (cases "f x = f z")
    case True
    then have "x \<notin> set (distinct_on f (filter (\<lambda>y. f y \<noteq> f z) xs))"
      using distinct_on_subset [of f "filter (\<lambda>y. f y \<noteq> f z) xs"] by auto
    with True show ?thesis by (auto simp: first_row_def)
  next
    case False
    then have "filter (\<lambda>y. f y = f x) (filter (\<lambda>y. f y \<noteq> f z) xs) = filter (\<lambda>y. f y = f x) xs"
      by (auto intro: filter_cong)
    with False "2.IH" show ?thesis by auto
  qed
qed

text \<open>\<^verbatim>\<open>DISTINCT ON (f) ... ORDER BY f, ...\<close>: joining on the group gives its first row in the inner order.\<close>

lemma distinct_on_filter: "filter (\<lambda>y. f y = v) (distinct_on f xs) = (case first_row (filter (\<lambda>y. f y = v) xs) of None \<Rightarrow> [] | Some x \<Rightarrow> [x])"
proof (induction f xs rule: distinct_on.induct)
  case (2 f x xs)
  show ?case
  proof (cases "f x = v")
    case True
    then have "filter (\<lambda>y. f y = v) (distinct_on f (filter (\<lambda>y. f y \<noteq> f x) xs)) = []"
      using distinct_on_subset [of f "filter (\<lambda>y. f y \<noteq> f x) xs"] by (auto simp: filter_empty_conv)
    with True show ?thesis by (simp add: first_row_def)
  next
    case False
    then have "filter (\<lambda>y. f y = v) (filter (\<lambda>y. f y \<noteq> f x) xs) = filter (\<lambda>y. f y = v) xs"
      by (auto intro: filter_cong)
    with False "2.IH" show ?thesis by simp
  qed
qed (simp add: first_row_def)

lemma stable_group:
  assumes "inj c"
  shows "filter (\<lambda>y. f y = v) (sort_key (\<lambda>x. c (f x)) xs) = filter (\<lambda>y. f y = v) xs"
proof -
  have eq: "(\<lambda>y. f y = v) = (\<lambda>y. c (f y) = c v)" using assms by (auto simp: inj_eq)
  show ?thesis unfolding eq by (rule sort_key_stable)
qed

end
