(* ===== verification/Monitor_Paging.thy ===== *)
theory Monitor_Paging
  imports Monitor_Store "HOL-Library.Countable"
begin

text \<open>
  Paging by cursors, shared by the five listings of the monitor
  (\<^verbatim>\<open>process-instance.queries.ts\<close>, \<^verbatim>\<open>incident.queries.ts\<close>, \<^verbatim>\<open>overview.queries.ts\<close>): the page size, the text of a cursor,
  one row more than the page holds to know whether there is a next page.

  The locale \<open>keyset_paging\<close> is the contract between a listing and its reader: what each request
  answers, in terms of the whole result. A reader that follows the cursors gets the whole result.
\<close>

section \<open>Page size and cursor text\<close>

definition pageSize :: "'b monitor_env \<Rightarrow> string option \<Rightarrow> monitor_error + nat" where
  "pageSize env v =
     (let parsed = (case v of None \<Rightarrow> Num 50 | Some s \<Rightarrow> to_number env s)
      in if \<not> is_integer parsed \<or> num_less parsed (Num 1) \<or> num_less (Num 100) parsed
         then Inl (BadRequest ''Page size must be between 1 and 100'')
         else Inr (case parsed of Num a \<Rightarrow> nat \<lfloor>a\<rfloor> | _ \<Rightarrow> 0))"

definition base64url_char :: "char \<Rightarrow> bool" where
  "base64url_char c \<longleftrightarrow> is_alpha c \<or> is_digit c \<or> c = CHR ''_'' \<or> c = CHR ''-''"

text \<open>\<^verbatim>\<open>Buffer.from(JSON.stringify(cursor)).toString("base64url")\<close>.\<close>

definition cursor_text :: "'b monitor_env \<Rightarrow> json \<Rightarrow> string" where
  "cursor_text env j = b64_encode env (json_stringify env j)"

text \<open>The alphabet test, the test that the encoding is canonical, and \<^verbatim>\<open>JSON.parse\<close>; \<open>None\<close> when any of them
  throws.\<close>

definition cursor_json :: "'b monitor_env \<Rightarrow> string \<Rightarrow> json option" where
  "cursor_json env v =
     (if v = [] \<or> \<not> list_all base64url_char v then None
      else if b64_encode env (b64_decode env v) \<noteq> v then None
      else json_parse env (b64_decode env v))"

text \<open>A property of the decoded value; reading a property of null throws, of another value that is not
  an object gives undefined, and both are refused.\<close>

definition json_field :: "json \<Rightarrow> string \<Rightarrow> json option" where
  "json_field j k = (case j of JObj fs \<Rightarrow> map_of fs k | _ \<Rightarrow> None)"

definition slice_page :: "nat \<Rightarrow> ('a \<Rightarrow> string) \<Rightarrow> 'a list \<Rightarrow> 'a list \<times> string option" where
  "slice_page limit encode rows =
     (let items = take limit rows in (items, if length rows > limit then Some (encode (last items)) else None))"

text \<open>The shape of a cursor: an object with distinct keys whose values are texts and integers of 32 bits, which
  JavaScript's numbers hold exactly.\<close>

fun flat_value :: "json \<Rightarrow> bool" where
  "flat_value (JStr _) = True"
| "flat_value (JNum x) = (of_int \<lfloor>x\<rfloor> = x \<and> 0 \<le> x \<and> x \<le> 2147483647)"
| "flat_value _ = False"

fun cursor_shape :: "json \<Rightarrow> bool" where
  "cursor_shape (JObj kvs) = (distinct (map fst kvs) \<and> list_all (\<lambda>kv. flat_value (snd kv)) kvs)"
| "cursor_shape _ = False"

text \<open>What the monitor relies on in the codecs: base64url decodes what it encoded and writes its own
  alphabet, and the JSON text of a cursor parses to the value it was written from.\<close>

definition codec_laws :: "'b monitor_env \<Rightarrow> bool" where
  "codec_laws env \<longleftrightarrow> (\<forall>b. b64_decode env (b64_encode env b) = b) \<and>
     (\<forall>j. b64_encode env (json_stringify env j) \<noteq> [] \<and> list_all base64url_char (b64_encode env (json_stringify env j))) \<and>
     (\<forall>j. cursor_shape j \<longrightarrow> json_parse env (json_stringify env j) = Some j)"

text \<open>And in the conversions of timestamps: a whole millisecond is converted exactly both ways, and the
  collation orders texts strictly. The format of \<open>iso_date\<close> includes the year 0000, which PostgreSQL does not read and
  no row of the engine has.\<close>

definition clock_laws :: "'b monitor_env \<Rightarrow> bool" where
  "clock_laws env \<longleftrightarrow> inj (collate env) \<and> (\<forall>k. iso_date k \<longrightarrow> pg_date env (1000 * k) = k) \<and>
     (\<forall>k. iso_date k \<longrightarrow> pg_timestamptz env (toISOString k) = Some (1000 * k))"

definition whole_ms :: "int \<Rightarrow> bool" where
  "whole_ms t \<longleftrightarrow> t mod 1000 = 0 \<and> iso_date (t div 1000)"

lemma cursor_codec: "codec_laws env \<Longrightarrow> cursor_shape j \<Longrightarrow> cursor_json env (cursor_text env j) = Some j"
  by (simp add: codec_laws_def cursor_json_def cursor_text_def)

lemma cursor_text_nonempty: "codec_laws env \<Longrightarrow> cursor_text env j \<noteq> []"
  by (simp add: codec_laws_def cursor_text_def)

lemma cursor_clock:
  assumes "clock_laws env" "whole_ms t"
  shows "isUtcTimestamp (toISOString (pg_date env t))" "date_parse env (toISOString (pg_date env t)) = Some (pg_date env t)"
    "pg_timestamptz env (toISOString (pg_date env t)) = Some t"
proof -
  have t: "t = 1000 * (t div 1000)" and i: "iso_date (t div 1000)" using assms(2) by (auto simp: whole_ms_def)
  have d: "pg_date env t = t div 1000" using assms(1) i t by (metis clock_laws_def)
  note r = iso_roundtrip_parts [OF i]
  show "isUtcTimestamp (toISOString (pg_date env t))" using r(1) by (simp only: d)
  show "date_parse env (toISOString (pg_date env t)) = Some (pg_date env t)"
    using r(2) by (simp add: d date_parse_def bind_eq_Some_conv split: option.splits) auto
  show "pg_timestamptz env (toISOString (pg_date env t)) = Some t"
    using assms(1) i t by (metis d clock_laws_def)
qed

lemma pageSize_bounds: "pageSize env v = Inr n \<Longrightarrow> 1 \<le> n \<and> n \<le> 100"
proof -
  assume p: "pageSize env v = Inr n"
  define parsed where "parsed = (case v of None \<Rightarrow> Num 50 | Some s \<Rightarrow> to_number env s)"
  from p have "is_integer parsed" "\<not> num_less parsed (Num 1)" "\<not> num_less (Num 100) parsed"
    and n: "n = (case parsed of Num a \<Rightarrow> nat \<lfloor>a\<rfloor> | _ \<Rightarrow> 0)"
    by (simp_all add: pageSize_def Let_def parsed_def split: if_splits)
  then obtain a where "parsed = Num a" "1 \<le> a" "a \<le> 100" by (cases parsed) auto
  then have "n = nat \<lfloor>a\<rfloor>" "1 \<le> \<lfloor>a\<rfloor>" "\<lfloor>a\<rfloor> \<le> 100" using n by (simp_all add: le_floor_iff floor_le_iff)
  then show ?thesis by linarith
qed

section \<open>Keyset pages\<close>

text \<open>Rows that come after the last row of a page are the rows after the page.\<close>

lemma keyset_drop:
  assumes "sorted_wrt after xs" "\<And>a b. after a b \<Longrightarrow> \<not> after b a" "0 < n" "n \<le> length xs"
  shows "filter (after (xs ! (n - 1))) xs = drop n xs"
proof -
  let ?x = "xs ! (n - 1)"
  have "\<not> after ?x y" if y: "y \<in> set (take n xs)" for y
  proof -
    obtain i where i: "i < n" "y = xs ! i" using y assms(4) by (metis in_set_conv_nth length_take min.absorb2 nth_take)
    show ?thesis
    proof (cases "i = n - 1")
      case False
      with i(1) assms(4) have "i < n - 1" "n - 1 < length xs" by linarith+
      from sorted_wrt_nth_less [OF assms(1) this] show ?thesis unfolding i(2) by (rule assms(2))
    qed (use i assms(2) in blast)
  qed
  then have "filter (after ?x) (take n xs) = []" by (simp add: filter_empty_conv)
  moreover have "filter (after ?x) (drop n xs) = drop n xs"
  proof (rule filter_True, rule ballI)
    fix x assume "x \<in> set (drop n xs)"
    then obtain i where "i < length xs - n" "x = xs ! (n + i)" by (auto simp: in_set_conv_nth)
    then show "after ?x x"
      using assms(3) sorted_wrt_nth_less [OF assms(1), of "n - 1" "n + i"] by simp
  qed
  ultimately show ?thesis by (metis append_Nil append_take_drop_id filter_append)
qed

lemma slice_page_take:
  assumes "0 < limit"
  shows "slice_page limit encode (map f (take (limit + 1) rs)) =
    (take limit (map f rs), if limit < length rs then Some (encode (f (rs ! (limit - 1)))) else None)"
proof -
  let ?rows = "map f (take (limit + 1) rs)"
  have t: "take limit ?rows = take limit (map f rs)" by (simp add: take_map min_def)
  have l: "length ?rows > limit \<longleftrightarrow> limit < length rs" by (simp add: min_def)
  have "last (take limit (map f rs)) = f (rs ! (limit - 1))" if "limit < length rs"
  proof -
    have "take limit (map f rs) \<noteq> []" using that assms by auto
    then show ?thesis using that assms by (simp add: last_conv_nth min_def)
  qed
  then show ?thesis unfolding slice_page_def Let_def t l by (simp del: take_map)
qed

text \<open>A reader that follows the cursors: \<open>None\<close> when the fuel does not suffice.\<close>

fun follow :: "(string option \<Rightarrow> 'e + 'a list \<times> string option) \<Rightarrow> nat \<Rightarrow> string option \<Rightarrow> ('e + 'a list) option" where
  "follow fetch 0 c = None"
| "follow fetch (Suc n) c =
     (case fetch c of
        Inl e \<Rightarrow> Some (Inl e)
      | Inr (items, None) \<Rightarrow> Some (Inr items)
      | Inr (items, Some c') \<Rightarrow>
          (case follow fetch n (Some c') of
             None \<Rightarrow> None
           | Some (Inl e) \<Rightarrow> Some (Inl e)
           | Some (Inr rest) \<Rightarrow> Some (Inr (items @ rest))))"

text \<open>
  The contract of a listing. \<open>good\<close> are the requests it holds for, \<open>whole\<close> the result without pages,
  \<open>limit\<close> the page size and \<open>cursor_at\<close> the cursor handed out after a number of rows.
\<close>

locale keyset_paging =
  fixes good :: "'q \<Rightarrow> bool"
    and fetch :: "'q \<Rightarrow> string option \<Rightarrow> 'e + 'a list \<times> string option"
    and whole :: "'q \<Rightarrow> 'a list"
    and limit :: "'q \<Rightarrow> nat"
    and cursor_at :: "'q \<Rightarrow> nat \<Rightarrow> string"
  assumes limit_pos: "good q \<Longrightarrow> 0 < limit q"
    and first: "good q \<Longrightarrow> fetch q None =
      Inr (take (limit q) (whole q), if limit q < length (whole q) then Some (cursor_at q (limit q)) else None)"
    and later: "good q \<Longrightarrow> 0 < n \<Longrightarrow> n < length (whole q) \<Longrightarrow> fetch q (Some (cursor_at q n)) =
      Inr (take (limit q) (drop n (whole q)),
        if n + limit q < length (whole q) then Some (cursor_at q (n + limit q)) else None)"
begin

lemma follow_from:
  assumes "good q" "0 < n" "n < length (whole q)" "length (whole q) - n \<le> fuel"
  shows "follow (fetch q) fuel (Some (cursor_at q n)) = Some (Inr (drop n (whole q)))"
  using assms(2-4)
proof (induction fuel arbitrary: n)
  case (Suc fuel)
  note page = later [OF assms(1) Suc.prems(1,2)]
  show ?case
  proof (cases "n + limit q < length (whole q)")
    case True
    have "follow (fetch q) fuel (Some (cursor_at q (n + limit q))) = Some (Inr (drop (n + limit q) (whole q)))"
      by (rule Suc.IH) (use Suc.prems True limit_pos [OF assms(1)] in auto)
    with True page append_take_drop_id [of "limit q" "drop n (whole q)"] show ?thesis
      by (simp add: add.commute)
  qed (use page in simp)
qed simp

text \<open>Following the cursors reads the whole result, every row once and in order.\<close>

lemma follow_all:
  assumes "good q"
  shows "follow (fetch q) (Suc (length (whole q))) None = Some (Inr (whole q))"
proof (cases "limit q < length (whole q)")
  case True
  have "follow (fetch q) (length (whole q)) (Some (cursor_at q (limit q))) = Some (Inr (drop (limit q) (whole q)))"
    by (rule follow_from [OF assms limit_pos [OF assms] True]) simp
  with True first [OF assms] show ?thesis by simp
qed (use first [OF assms] in simp)

lemma first_page_bound: "good q \<Longrightarrow> fetch q None = Inr (items, c) \<Longrightarrow> length items \<le> limit q"
  by (auto simp: first)

end

text \<open>
  The contract of a query: its matching rows in a strict order, one row more than the page holds, and
  with a cursor only the rows that come after the row the cursor was made for. It gives the contract
  of a listing.
\<close>

locale keyset_query =
  fixes good :: "'q \<Rightarrow> bool"
    and fetch :: "'q \<Rightarrow> string option \<Rightarrow> 'e + 'a list \<times> string option"
    and rows :: "'q \<Rightarrow> 'r list"
    and after :: "'q \<Rightarrow> 'r \<Rightarrow> 'r \<Rightarrow> bool"
    and item :: "'q \<Rightarrow> 'r \<Rightarrow> 'a"
    and limit :: "'q \<Rightarrow> nat"
    and encode :: "'q \<Rightarrow> 'a \<Rightarrow> string"
  assumes query_limit: "good q \<Longrightarrow> 0 < limit q"
    and ordered: "good q \<Longrightarrow> sorted_wrt (after q) (rows q)"
    and strict: "after q a b \<Longrightarrow> \<not> after q b a"
    and query_first: "good q \<Longrightarrow> fetch q None = Inr (slice_page (limit q) (encode q) (map (item q) (take (limit q + 1) (rows q))))"
    and query_next: "good q \<Longrightarrow> row \<in> set (rows q) \<Longrightarrow> fetch q (Some (encode q (item q row))) =
      Inr (slice_page (limit q) (encode q) (map (item q) (take (limit q + 1) (filter (after q row) (rows q)))))"
begin

definition listed :: "'q \<Rightarrow> 'a list" where
  "listed q = map (item q) (rows q)"

definition cursor_after :: "'q \<Rightarrow> nat \<Rightarrow> string" where
  "cursor_after q n = encode q (item q (rows q ! (n - 1)))"

lemma next_page:
  assumes "good q" "0 < n" "n < length (rows q)"
  shows "fetch q (Some (cursor_after q n)) = Inr (take (limit q) (drop n (listed q)),
    if n + limit q < length (rows q) then Some (cursor_after q (n + limit q)) else None)"
proof -
  have row: "rows q ! (n - 1) \<in> set (rows q)" using assms(3) by (intro nth_mem) simp
  have tail: "filter (after q (rows q ! (n - 1))) (rows q) = drop n (rows q)"
    by (rule keyset_drop [OF ordered [OF assms(1)] strict]) (use assms in auto)
  have last: "drop n (rows q) ! (limit q - 1) = rows q ! (n + limit q - 1)"
    using assms(3) query_limit [OF assms(1)] by simp
  have more: "limit q < length (drop n (rows q)) \<longleftrightarrow> n + limit q < length (rows q)" by auto
  show ?thesis
    by (simp only: cursor_after_def query_next [OF assms(1) row] tail slice_page_take [OF query_limit [OF assms(1)]]
        last more listed_def drop_map)
qed

end

sublocale keyset_query \<subseteq> pages: keyset_paging good fetch listed limit cursor_after
proof (unfold_locales)
  fix q
  assume g: "good q"
  show "0 < limit q" using g by (rule query_limit)
  show "fetch q None = Inr (take (limit q) (listed q),
      if limit q < length (listed q) then Some (cursor_after q (limit q)) else None)"
    by (simp only: query_first [OF g] listed_def cursor_after_def slice_page_take [OF query_limit [OF g]] length_map)
  fix n
  assume "0 < n" "n < length (listed q)"
  with next_page [OF g, of n] show "fetch q (Some (cursor_after q n)) = Inr (take (limit q) (drop n (listed q)),
      if n + limit q < length (listed q) then Some (cursor_after q (n + limit q)) else None)"
    by (simp add: listed_def)
qed

text \<open>Descending order by a key.\<close>

definition key_below :: "('r \<Rightarrow> 'k :: linorder) \<Rightarrow> 'r \<Rightarrow> 'r \<Rightarrow> bool" where
  "key_below k a b \<longleftrightarrow> k b < k a"

definition before_key :: "'k :: linorder \<Rightarrow> 'k option \<Rightarrow> bool" where
  "before_key k c \<longleftrightarrow> (case c of None \<Rightarrow> True | Some x \<Rightarrow> k < x)"

lemma before_key_simps [simp]: "before_key k None" "before_key (key x) (Some (key a)) \<longleftrightarrow> key_below key a x"
  by (simp_all add: before_key_def key_below_def)

lemma key_below_asym: "key_below k a b \<Longrightarrow> \<not> key_below k b a"
  by (simp add: key_below_def)

lemma order_desc_below: "distinct (map k xs) \<Longrightarrow> sorted_wrt (key_below k) (order_desc k xs)"
  using order_desc_strict [of k xs] by (simp add: key_below_def [abs_def])

section \<open>A concrete environment\<close>

text \<open>An environment that satisfies the laws, for the witnesses: JSON values are numbered and the number is
  written in unary.\<close>

instance json :: countable
  by countable_datatype

definition sample_monitor :: "json monitor_env" where
  "sample_monitor = \<lparr>pg_date = (\<lambda>t. t div 1000),
     pg_timestamptz = (\<lambda>s. map_option (\<lambda>k. 1000 * k) (Option.bind (utc_match s) parse_utc)),
     collate = map of_char, to_number = (\<lambda>s. if list_all is_digit s then Num (of_nat (number_of s)) else NaN),
     date_parse_other = (\<lambda>_. None), pg_lower = id, byte_length = length,
     json_string = (\<lambda>j. replicate (to_nat j) (CHR ''x'')), b64_encode = (\<lambda>j. replicate (Suc (to_nat j)) (CHR ''A'')),
     b64_decode = (\<lambda>s. from_nat (length s - 1)), json_stringify = id, json_parse = Some, sha256 = (\<lambda>_. ''fingerprint'')\<rparr>"

lemma sample_codec: "codec_laws sample_monitor"
  by (simp add: codec_laws_def sample_monitor_def list_all_iff base64url_char_def is_alpha_def)

lemma sample_clock: "clock_laws sample_monitor"
proof -
  have "pg_timestamptz sample_monitor (toISOString k) = Some (1000 * k)" if "iso_date k" for k
    using iso_roundtrip_parts(2) [OF that] by (simp add: sample_monitor_def)
  moreover have "inj (map (of_char :: char \<Rightarrow> nat))" by (simp add: inj_of_char)
  ultimately show ?thesis by (simp add: clock_laws_def sample_monitor_def)
qed
end
