(* ===== verification/Execution_Context.thy ===== *)
theory Execution_Context
  imports Monitor_Store
begin

text \<open>
  Why an instance is waiting, \<^verbatim>\<open>workflow-monitor-bff/src/modules/process-instances/execution-context.ts\<close>: the
  query that gathers the evidence for each current step and the reason drawn from it.

  A timestamp inside a \<^verbatim>\<open>jsonb\<close> object is text in the code; the model keeps the instant.
\<close>

section \<open>Data\<close>

record context_job =
  cj_id :: string
  cj_type :: string
  cj_status :: string
  cj_workerId :: "string option"
  cj_lockedAt :: "int option"
  cj_lockExpiresAt :: "int option"
  cj_createdAt :: int
  cj_retriesRemaining :: int

record context_task =
  ct_id :: string
  ct_assignee :: "string option"
  ct_assigneeGroup :: "string option"

record context_timer =
  cm_id :: string
  cm_fireAt :: int
  cm_targetStepId :: string
  cm_interrupting :: bool

datatype reason = Signal | UserTask | JobAvailable | JobLocked | Unavailable

record execution_context =
  ec_stepId :: string
  ec_executionId :: "string option"
  ec_stepType :: "string option"
  ec_status :: "string option"
  ec_startedAt :: "int option"
  ec_reason :: reason
  ec_unavailableReason :: "string option"
  ec_job :: "context_job option"
  ec_task :: "context_task option"
  ec_timers :: "context_timer list"
  ec_timersTruncated :: bool

record context_row =
  cr_step_id :: string
  cr_execution_id :: "string option"
  cr_step_type :: "string option"
  cr_status :: "string option"
  cr_started_at :: "int option"
  cr_running_count :: "nat option"
  cr_job :: "context_job option"
  cr_job_count :: "nat option"
  cr_task :: "context_task option"
  cr_task_count :: "nat option"
  cr_timers :: "context_timer list"

section \<open>The query\<close>

definition running_executions :: "database \<Rightarrow> string \<Rightarrow> string \<Rightarrow> execution_row list" where
  "running_executions db i s = filter (\<lambda>e. se_status e = ''RUNNING'') (executions_of db i s)"

text \<open>The live jobs, open tasks and pending timers of one execution, which the lateral joins select.\<close>

definition live_jobs :: "'b monitor_env \<Rightarrow> database \<Rightarrow> string \<Rightarrow> execution_row \<Rightarrow> job_row list" where
  "live_jobs env db i e =
     (if se_status e = ''RUNNING'' \<and> se_step_type e = ''SERVICE_TASK''
      then order_desc (\<lambda>j. (j_created_at j, collate env (j_id j)))
             (filter (\<lambda>j. j_instance_id j = i \<and> j_status j \<in> {''UNLOCKED'', ''LOCKED''} \<and> j_step_execution_id j = se_id e) (db_jobs db))
      else [])"

definition live_tasks :: "'b monitor_env \<Rightarrow> database \<Rightarrow> string \<Rightarrow> execution_row \<Rightarrow> task_row list" where
  "live_tasks env db i e =
     (if se_status e = ''RUNNING'' \<and> se_step_type e = ''USER_TASK''
      then order_desc (\<lambda>t. (t_created_at t, collate env (t_id t)))
             (filter (\<lambda>t. t_step_execution_id t = se_id e \<and> t_instance_id t = i \<and> t_status t = ''OPEN'') (db_tasks db))
      else [])"

definition pending_timers :: "'b monitor_env \<Rightarrow> database \<Rightarrow> string \<Rightarrow> execution_row \<Rightarrow> timer_row list" where
  "pending_timers env db i e =
     (if se_status e = ''RUNNING''
      then sort_key (\<lambda>b. (b_fire_at b, collate env (b_id b)))
             (filter (\<lambda>b. b_instance_id b = i \<and> \<not> b_fired b \<and> b_step_execution_id b = se_id e) (db_timers db))
      else [])"

definition job_object :: "job_row \<Rightarrow> context_job" where
  "job_object j = \<lparr>cj_id = j_id j, cj_type = j_job_type j, cj_status = j_status j, cj_workerId = j_worker_id j,
     cj_lockedAt = j_locked_at j, cj_lockExpiresAt = j_lock_expires_at j, cj_createdAt = j_created_at j,
     cj_retriesRemaining = j_retries_remaining j\<rparr>"

definition task_object :: "task_row \<Rightarrow> context_task" where
  "task_object t = \<lparr>ct_id = t_id t, ct_assignee = t_assignee t, ct_assigneeGroup = t_assignee_group t\<rparr>"

definition timer_object :: "timer_row \<Rightarrow> context_timer" where
  "timer_object b = \<lparr>cm_id = b_id b, cm_fireAt = b_fire_at b, cm_targetStepId = b_target_step_id b,
     cm_interrupting = b_interrupting b\<rparr>"

text \<open>A window count is taken over all rows of its subquery, before \<^verbatim>\<open>LIMIT\<close>; it is null when the
  left join finds no row.\<close>

definition window_count :: "'a list \<Rightarrow> nat option" where
  "window_count rows = (if rows = [] then None else Some (length rows))"

definition EXECUTION_CONTEXT_SQL :: "'b monitor_env \<Rightarrow> database \<Rightarrow> string \<Rightarrow> string \<Rightarrow> context_row" where
  "EXECUTION_CONTEXT_SQL env db i s =
     (case latest_execution env db i s of
        None \<Rightarrow> \<lparr>cr_step_id = s, cr_execution_id = None, cr_step_type = None, cr_status = None, cr_started_at = None,
           cr_running_count = None, cr_job = None, cr_job_count = None, cr_task = None, cr_task_count = None, cr_timers = []\<rparr>
      | Some e \<Rightarrow> \<lparr>cr_step_id = s, cr_execution_id = Some (se_id e), cr_step_type = Some (se_step_type e),
           cr_status = Some (se_status e), cr_started_at = Some (pg_date env (se_started_at e)),
           cr_running_count = Some (length (running_executions db i s)),
           cr_job = map_option job_object (first_row (live_jobs env db i e)), cr_job_count = window_count (live_jobs env db i e),
           cr_task = map_option task_object (first_row (live_tasks env db i e)),
           cr_task_count = window_count (live_tasks env db i e),
           cr_timers = map timer_object (take 101 (pending_timers env db i e))\<rparr>)"

section \<open>The reason\<close>

text \<open>\<^verbatim>\<open>Number(null)\<close> is 0.\<close>

definition more_than_one :: "nat option \<Rightarrow> bool" where
  "more_than_one c \<longleftrightarrow> (case c of Some n \<Rightarrow> n > 1 | None \<Rightarrow> False)"

definition conflicting :: "context_row \<Rightarrow> bool" where
  "conflicting row \<longleftrightarrow> more_than_one (cr_running_count row) \<or> more_than_one (cr_job_count row) \<or> more_than_one (cr_task_count row)"

definition row_reason :: "context_row \<Rightarrow> reason" where
  "row_reason row =
     (if conflicting row \<or> cr_status row \<noteq> Some ''RUNNING'' then Unavailable
      else let r1 = (if cr_step_type row = Some ''WAIT'' then Signal else Unavailable);
               r2 = (if cr_step_type row = Some ''USER_TASK'' \<and> cr_task row \<noteq> None then UserTask else r1)
           in (case cr_job row of
                 Some j \<Rightarrow> if cr_step_type row = Some ''SERVICE_TASK''
                           then (if cj_status j = ''LOCKED'' then JobLocked else JobAvailable) else r2
               | None \<Rightarrow> r2))"

definition row_unavailable :: "context_row \<Rightarrow> string option" where
  "row_unavailable row =
     (if conflicting row then Some ''Conflicting live execution records''
      else if cr_status row = Some ''RUNNING''
      then (if row_reason row = Unavailable then Some ''Related evidence is missing or this step type is unsupported'' else None)
      else Some ''No running execution evidence'')"

definition context_of_row :: "context_row \<Rightarrow> execution_context" where
  "context_of_row row =
     (let valid = (row_reason row \<noteq> Unavailable)
      in \<lparr>ec_stepId = cr_step_id row, ec_executionId = cr_execution_id row, ec_stepType = cr_step_type row,
          ec_status = cr_status row, ec_startedAt = cr_started_at row, ec_reason = row_reason row,
          ec_unavailableReason = row_unavailable row,
          ec_job = (if valid \<and> cr_step_type row = Some ''SERVICE_TASK'' then cr_job row else None),
          ec_task = (if valid \<and> cr_step_type row = Some ''USER_TASK'' then cr_task row else None),
          ec_timers = take 100 (cr_timers row), ec_timersTruncated = (length (cr_timers row) > 100)\<rparr>)"

definition readExecutionContext :: "'b monitor_env \<Rightarrow> database \<Rightarrow> string \<Rightarrow> string list \<Rightarrow> execution_context list" where
  "readExecutionContext env db instanceId stepIds =
     (if stepIds = [] then [] else map (\<lambda>s. context_of_row (EXECUTION_CONTEXT_SQL env db instanceId s)) stepIds)"

section \<open>What the reason means\<close>

text \<open>The one execution that can be waiting: the latest attempt, running, and no other one running.\<close>

definition sole_running :: "'b monitor_env \<Rightarrow> database \<Rightarrow> string \<Rightarrow> string \<Rightarrow> execution_row \<Rightarrow> bool" where
  "sole_running env db i s e \<longleftrightarrow> latest_execution env db i s = Some e \<and> running_executions db i s = [e]"

lemma latest_in: "latest_execution env db i s = Some e \<Longrightarrow> e \<in> set (executions_of db i s)"
  by (auto simp: latest_execution_def dest: first_row_set)

lemma sole_element: "x \<in> set xs \<Longrightarrow> \<not> length xs > 1 \<longleftrightarrow> xs = [x]"
  by (cases xs) (auto simp: Suc_lessI)

lemma running_one:
  assumes "latest_execution env db i s = Some e" "se_status e = ''RUNNING''"
  shows "\<not> length (running_executions db i s) > 1 \<longleftrightarrow> running_executions db i s = [e]"
proof (rule sole_element)
  show "e \<in> set (running_executions db i s)"
    using latest_in [OF assms(1)] assms(2) by (simp add: running_executions_def)
qed

text \<open>The live records of an execution, when there is exactly one.\<close>

definition sole :: "'a list \<Rightarrow> 'a option" where
  "sole xs = (case xs of [x] \<Rightarrow> Some x | _ \<Rightarrow> None)"

lemma sole_window: "\<not> more_than_one (window_count xs) \<Longrightarrow> first_row xs = sole xs"
  by (cases xs rule: list.exhaust [case_product list.exhaust])
    (auto simp: more_than_one_def window_count_def first_row_def sole_def split: list.split)

lemma more_than_one_sole: "more_than_one (window_count xs) \<Longrightarrow> sole xs = None"
  by (auto simp: more_than_one_def window_count_def sole_def split: list.split if_splits)

definition waiting_for :: "'b monitor_env \<Rightarrow> database \<Rightarrow> string \<Rightarrow> string \<Rightarrow> reason \<times> context_job option \<times> context_task option" where
  "waiting_for env db i s =
     (case latest_execution env db i s of
        None \<Rightarrow> (Unavailable, None, None)
      | Some e \<Rightarrow>
          if running_executions db i s \<noteq> [e] then (Unavailable, None, None)
          else if se_step_type e = ''WAIT'' then (Signal, None, None)
          else if se_step_type e = ''USER_TASK''
          then (case sole (live_tasks env db i e) of None \<Rightarrow> (Unavailable, None, None) | Some t \<Rightarrow> (UserTask, None, Some (task_object t)))
          else if se_step_type e = ''SERVICE_TASK''
          then (case sole (live_jobs env db i e) of
                  None \<Rightarrow> (Unavailable, None, None)
                | Some j \<Rightarrow> (if j_status j = ''LOCKED'' then JobLocked else JobAvailable, Some (job_object j), None))
          else (Unavailable, None, None))"

definition context_evidence :: "execution_context \<Rightarrow> reason \<times> context_job option \<times> context_task option" where
  "context_evidence c = (ec_reason c, ec_job c, ec_task c)"

lemma evidence_unavailable: "row_reason row = Unavailable \<Longrightarrow> context_evidence (context_of_row row) = (Unavailable, None, None)"
  by (simp add: context_evidence_def context_of_row_def)

lemma not_running:
  assumes "latest_execution env db i s = Some e" "se_status e \<noteq> ''RUNNING''"
  shows "running_executions db i s \<noteq> [e]"
proof
  assume "running_executions db i s = [e]"
  then have "e \<in> set (running_executions db i s)" by simp
  with assms(2) show False by (simp add: running_executions_def)
qed

lemma evidence_of_row: "context_evidence (context_of_row (EXECUTION_CONTEXT_SQL env db i s)) = waiting_for env db i s"
proof (cases "latest_execution env db i s")
  case None
  then show ?thesis
    by (simp add: waiting_for_def EXECUTION_CONTEXT_SQL_def evidence_unavailable row_reason_def)
next
  case (Some e)
  let ?row = "EXECUTION_CONTEXT_SQL env db i s"
  show ?thesis
  proof (cases "se_status e = ''RUNNING'' \<and> running_executions db i s = [e]")
    case False
    with Some running_one [OF Some] not_running [OF Some] have "row_reason ?row = Unavailable"
      by (auto simp: EXECUTION_CONTEXT_SQL_def row_reason_def conflicting_def more_than_one_def)
    moreover have "running_executions db i s \<noteq> [e]" using False not_running [OF Some] by blast
    ultimately show ?thesis using Some by (simp add: evidence_unavailable waiting_for_def)
  next
    case True
    note defs = waiting_for_def EXECUTION_CONTEXT_SQL_def row_reason_def context_evidence_def context_of_row_def conflicting_def
      more_than_one_def
    consider "se_step_type e = ''WAIT''" | "se_step_type e = ''USER_TASK''" | "se_step_type e = ''SERVICE_TASK''"
      | "se_step_type e \<notin> {''WAIT'', ''USER_TASK'', ''SERVICE_TASK''}" by auto
    then show ?thesis
    proof cases
      case 1
      with True Some show ?thesis
        by (simp add: defs live_jobs_def live_tasks_def window_count_def first_row_def)
    next
      case 2
      have j: "live_jobs env db i e = []" using 2 by (simp add: live_jobs_def)
      show ?thesis
      proof (cases "more_than_one (window_count (live_tasks env db i e))")
        case conflict: True
        then have "row_reason ?row = Unavailable"
          using Some by (simp add: EXECUTION_CONTEXT_SQL_def row_reason_def conflicting_def)
        with conflict 2 Some True more_than_one_sole [OF conflict] show ?thesis
          by (simp add: evidence_unavailable waiting_for_def)
      next
        case False
        with 2 True Some j sole_window [OF False] show ?thesis
          by (cases "sole (live_tasks env db i e)") (simp_all add: defs window_count_def first_row_def)
      qed
    next
      case 3
      have t: "live_tasks env db i e = []" using 3 by (simp add: live_tasks_def)
      show ?thesis
      proof (cases "more_than_one (window_count (live_jobs env db i e))")
        case conflict: True
        then have "row_reason ?row = Unavailable"
          using Some by (simp add: EXECUTION_CONTEXT_SQL_def row_reason_def conflicting_def)
        with conflict 3 Some True more_than_one_sole [OF conflict] show ?thesis
          by (simp add: evidence_unavailable waiting_for_def)
      next
        case False
        with 3 True Some t sole_window [OF False] show ?thesis
          by (cases "sole (live_jobs env db i e)") (simp_all add: defs window_count_def first_row_def job_object_def)
      qed
    next
      case 4
      then show ?thesis using Some True
        by (simp add: defs live_jobs_def live_tasks_def window_count_def first_row_def)
    qed
  qed
qed

text \<open>C25. The reason shown for a current step rests on evidence of exactly one waiting execution: a reason
  other than unavailable is given only when the latest attempt of the step is running and is the only one running;
  then a wait step waits for a signal, a user task for its only open task and a service task for its only live
  job, which is the one returned. Retired attempts and ambiguous records never give a reason.\<close>

theorem context_reason_exact:
  "map context_evidence (readExecutionContext env db instanceId stepIds) = map (waiting_for env db instanceId) stepIds"
  by (simp add: readExecutionContext_def evidence_of_row)

text \<open>At most a hundred timers are shown, the ones due first, and the flag says whether there are more.\<close>

lemma context_timers:
  "map (\<lambda>c. (ec_timers c, ec_timersTruncated c)) (readExecutionContext env db i ss) =
   map (\<lambda>s. case latest_execution env db i s of
              None \<Rightarrow> ([], False)
            | Some e \<Rightarrow> (map timer_object (take 100 (pending_timers env db i e)), length (pending_timers env db i e) > 100)) ss"
  by (auto simp: readExecutionContext_def context_of_row_def EXECUTION_CONTEXT_SQL_def Let_def take_map min_def split: option.split)

end
