(* ===== verification/Process_Instances.thy ===== *)
theory Process_Instances
  imports Monitor_Paging Execution_Context
begin

text \<open>
  The queries on process instances,
  \<^verbatim>\<open>workflow-monitor-bff/src/modules/process-instances/process-instance.queries.ts\<close>: the validation of the filters, the
  fingerprint that ties a cursor to its filters, the two listings with their cursors and the detail of
  one instance with its transaction.
\<close>

section \<open>Filters\<close>

text \<open>A request parameter the code tests with \<^verbatim>\<open>typeof\<close> or \<^verbatim>\<open>Array.isArray\<close>: one text, or several when the
  parameter is repeated.\<close>

datatype query_value = One string | Many "string list"

record instance_filters =
  f_definitionId :: "string option"
  f_definitionVersion :: "query_value option"
  f_currentStepId :: "query_value option"
  f_stepStartedBefore :: "query_value option"
  f_status :: "query_value option"
  f_businessKey :: "string option"
  f_from :: "string option"
  f_to :: "string option"

record instance_query = instance_filters +
  q_cursor :: "string option"
  q_pageSize :: "string option"

definition PROCESS_INSTANCE_STATUSES :: "string list" where
  "PROCESS_INSTANCE_STATUSES = [''ACTIVE'', ''WAITING'', ''COMPLETED'', ''FAILED'', ''CANCELLED'']"

definition str_truthy :: "string option \<Rightarrow> bool" where
  "str_truthy v \<longleftrightarrow> v \<noteq> None \<and> v \<noteq> Some []"

definition qv_truthy :: "query_value option \<Rightarrow> bool" where
  "qv_truthy v \<longleftrightarrow> v \<noteq> None \<and> v \<noteq> Some (One [])"

definition statusValues :: "query_value option \<Rightarrow> string list" where
  "statusValues status = (case status of None \<Rightarrow> [] | Some (One s) \<Rightarrow> [s] | Some (Many ss) \<Rightarrow> ss)"

definition bad_version :: "instance_filters \<Rightarrow> bool" where
  "bad_version f \<longleftrightarrow>
     (case f_definitionVersion f of
        None \<Rightarrow> False
      | Some (Many _) \<Rightarrow> True
      | Some (One v) \<Rightarrow> v = [] \<or> \<not> list_all is_digit v \<or> number_of v < 1 \<or> number_of v > 2147483647 \<or> \<not> str_truthy (f_definitionId f))"

definition bad_current_step :: "instance_filters \<Rightarrow> bool" where
  "bad_current_step f \<longleftrightarrow>
     (case f_currentStepId f of
        None \<Rightarrow> False
      | Some (Many _) \<Rightarrow> True
      | Some (One s) \<Rightarrow> s = [] \<or> \<not> str_truthy (f_definitionId f))"

definition bad_cutoff :: "instance_filters \<Rightarrow> bool" where
  "bad_cutoff f \<longleftrightarrow>
     (case f_stepStartedBefore f of
        None \<Rightarrow> False
      | Some (Many _) \<Rightarrow> True
      | Some (One t) \<Rightarrow> \<not> qv_truthy (f_currentStepId f) \<or> \<not> isUtcTimestamp t)"

definition bad_timestamp :: "string option \<Rightarrow> bool" where
  "bad_timestamp t \<longleftrightarrow> str_truthy t \<and> \<not> isUtcTimestamp (the t)"

text \<open>\<^verbatim>\<open>Date.parse(from) >= Date.parse(to)\<close>; a comparison with NaN is false.\<close>

definition not_increasing :: "'b monitor_env \<Rightarrow> string option \<Rightarrow> string option \<Rightarrow> bool" where
  "not_increasing env a b \<longleftrightarrow> str_truthy a \<and> str_truthy b \<and>
     (case (date_parse env (the a), date_parse env (the b)) of (Some x, Some y) \<Rightarrow> y \<le> x | _ \<Rightarrow> False)"

definition validateFilters :: "'b monitor_env \<Rightarrow> instance_filters \<Rightarrow> monitor_error option" where
  "validateFilters env f =
     (if bad_version f then Some (BadRequest ''Definition version must be a positive integer with a Definition ID'')
      else if bad_current_step f then Some (BadRequest ''Current Step ID requires a Definition ID'')
      else if bad_cutoff f then Some (BadRequest ''Step-start cutoff requires a Current Step ID and a valid UTC timestamp'')
      else if list_ex (\<lambda>s. s \<notin> set PROCESS_INSTANCE_STATUSES) (statusValues (f_status f))
      then Some (BadRequest ''Unknown Process Instance status'')
      else if bad_timestamp (f_from f) \<or> bad_timestamp (f_to f) then Some (BadRequest ''Invalid UTC timestamp'')
      else if not_increasing env (f_from f) (f_to f) then Some (BadRequest ''Start-time range must increase'')
      else None)"

section \<open>Cursors\<close>

definition json_opt :: "string option \<Rightarrow> json" where
  "json_opt v = (case v of None \<Rightarrow> JNull | Some s \<Rightarrow> JStr s)"

definition json_qv :: "query_value option \<Rightarrow> json" where
  "json_qv v = (case v of None \<Rightarrow> JNull | Some (One s) \<Rightarrow> JStr s | Some (Many ss) \<Rightarrow> JArr (map JStr ss))"

definition filterFingerprint :: "'b monitor_env \<Rightarrow> instance_filters \<Rightarrow> string" where
  "filterFingerprint env f =
     sha256 env (json_stringify env (JObj
       [(''definitionId'', json_opt (f_definitionId f)), (''definitionVersion'', json_qv (f_definitionVersion f)),
        (''currentStepId'', json_qv (f_currentStepId f)), (''stepStartedBefore'', json_qv (f_stepStartedBefore f)),
        (''statuses'', JArr (map JStr (sort (statusValues (f_status f))))), (''businessKey'', json_opt (f_businessKey f)),
        (''from'', json_opt (f_from f)), (''to'', json_opt (f_to f))]))"

record instance_item =
  it_id :: string
  it_definitionId :: string
  it_definitionVersion :: int
  it_status :: string
  it_currentStepIds :: "string list"
  it_startedAt :: int
  it_completedAt :: "int option"
  it_failureReason :: "string option"
  it_businessKey :: "string option"

definition encodeCursor :: "'b monitor_env \<Rightarrow> instance_filters \<Rightarrow> instance_item \<Rightarrow> string" where
  "encodeCursor env f item =
     cursor_text env (JObj [(''v'', JNum 1), (''startedAt'', JStr (toISOString (it_startedAt item))), (''id'', JStr (it_id item)),
       (''filters'', JStr (filterFingerprint env f))])"

definition decodeCursor :: "'b monitor_env \<Rightarrow> instance_filters \<Rightarrow> string \<Rightarrow> monitor_error + string \<times> string" where
  "decodeCursor env f v =
     (case cursor_json env v of
        None \<Rightarrow> Inl (BadRequest ''Invalid cursor'')
      | Some c \<Rightarrow>
          (case (json_field c ''startedAt'', json_field c ''id'') of
             (Some (JStr t), Some (JStr i)) \<Rightarrow>
               if json_field c ''v'' \<noteq> Some (JNum 1) \<or> date_parse env t = None \<or> i = [] \<or>
                  json_field c ''filters'' \<noteq> Some (JStr (filterFingerprint env f))
               then Inl (BadRequest ''Invalid cursor'') else Inr (t, i)
           | _ \<Rightarrow> Inl (BadRequest ''Invalid cursor'')))"

section \<open>The listing\<close>

text \<open>A timestamp parameter that is bound when its filter is present; the server rejects the query when
  it cannot read the text.\<close>

definition bind_timestamp :: "'b monitor_env \<Rightarrow> string option \<Rightarrow> monitor_error + int option" where
  "bind_timestamp env v =
     (if str_truthy v then (case pg_timestamptz env (the v) of None \<Rightarrow> Inl DatabaseError | Some t \<Rightarrow> Inr (Some t)) else Inr None)"

definition one_of :: "query_value option \<Rightarrow> string option" where
  "one_of v = (case v of Some (One s) \<Rightarrow> Some s | _ \<Rightarrow> None)"

text \<open>The conditions of the \<^verbatim>\<open>WHERE\<close> clause without the cursor, with the bound cutoff and range.\<close>

definition waits_before :: "'b monitor_env \<Rightarrow> database \<Rightarrow> string \<Rightarrow> string \<Rightarrow> int \<Rightarrow> bool" where
  "waits_before env db i s cutoff \<longleftrightarrow>
     (case latest_execution env db i s of
        Some e \<Rightarrow> se_status e = ''RUNNING'' \<and> se_started_at e < cutoff
      | None \<Rightarrow> False)"

definition instance_where ::
    "'b monitor_env \<Rightarrow> database \<Rightarrow> instance_filters \<Rightarrow> int option \<Rightarrow> int option \<Rightarrow> int option \<Rightarrow> instance_row \<Rightarrow> bool" where
  "instance_where env db f cutoff since until row \<longleftrightarrow>
     (str_truthy (f_definitionId f) \<longrightarrow> Some (wi_definition_id row) = f_definitionId f) \<and>
     (qv_truthy (f_definitionVersion f) \<longrightarrow> wi_definition_version row = int (number_of (the (one_of (f_definitionVersion f))))) \<and>
     (qv_truthy (f_currentStepId f) \<longrightarrow>
        the (one_of (f_currentStepId f)) \<in> set (wi_current_step_ids row) \<and> wi_status row \<in> {''ACTIVE'', ''WAITING''}) \<and>
     (case cutoff of None \<Rightarrow> True | Some t \<Rightarrow> waits_before env db (wi_id row) (the (one_of (f_currentStepId f))) t) \<and>
     (statusValues (f_status f) \<noteq> [] \<longrightarrow> wi_status row \<in> set (statusValues (f_status f))) \<and>
     (str_truthy (f_businessKey f) \<longrightarrow> wi_business_key row = f_businessKey f) \<and>
     (case since of None \<Rightarrow> True | Some t \<Rightarrow> t \<le> wi_started_at row) \<and>
     (case until of None \<Rightarrow> True | Some t \<Rightarrow> wi_started_at row < t)"

definition instance_key :: "'b monitor_env \<Rightarrow> instance_row \<Rightarrow> int \<times> nat list" where
  "instance_key env row = (wi_started_at row, collate env (wi_id row))"

definition instance_item_of :: "'b monitor_env \<Rightarrow> instance_row \<Rightarrow> instance_item" where
  "instance_item_of env row =
     \<lparr>it_id = wi_id row, it_definitionId = wi_definition_id row, it_definitionVersion = wi_definition_version row,
      it_status = wi_status row, it_currentStepIds = wi_current_step_ids row, it_startedAt = pg_date env (wi_started_at row),
      it_completedAt = map_option (pg_date env) (wi_completed_at row), it_failureReason = wi_failure_reason row,
      it_businessKey = wi_business_key row\<rparr>"

text \<open>The bound of the cursor; both timestamps and ids are bound before any row is read.\<close>

definition bind_cursor :: "'b monitor_env \<Rightarrow> (string \<times> string) option \<Rightarrow> monitor_error + (int \<times> nat list) option" where
  "bind_cursor env c =
     (case c of
        None \<Rightarrow> Inr None
      | Some (t, i) \<Rightarrow> (case pg_timestamptz env t of None \<Rightarrow> Inl DatabaseError | Some x \<Rightarrow> Inr (Some (x, collate env i))))"

definition select_instances ::
    "'b monitor_env \<Rightarrow> database \<Rightarrow> instance_filters \<Rightarrow> int option \<Rightarrow> int option \<Rightarrow> int option \<Rightarrow> (int \<times> nat list) option \<Rightarrow> nat \<Rightarrow> instance_row list" where
  "select_instances env db f cutoff since until c n =
     take n (order_desc (instance_key env)
       (filter (\<lambda>row. instance_where env db f cutoff since until row \<and> before_key (instance_key env row) c) (db_instances db)))"

definition list_instances ::
    "'b monitor_env \<Rightarrow> database \<Rightarrow> instance_query \<Rightarrow> monitor_error + instance_item list \<times> string option" where
  "list_instances env db q =
     (let f = instance_filters.truncate q in
      case validateFilters env f of
        Some e \<Rightarrow> Inl e
      | None \<Rightarrow>
      try_in (pageSize env (q_pageSize q)) (\<lambda>limit.
      try_in (if str_truthy (q_cursor q) then try_in (decodeCursor env f (the (q_cursor q))) (\<lambda>c. Inr (Some c)) else Inr None) (\<lambda>c.
      try_in (bind_timestamp env (one_of (f_stepStartedBefore f))) (\<lambda>cutoff.
      try_in (bind_timestamp env (f_from f)) (\<lambda>since.
      try_in (bind_timestamp env (f_to f)) (\<lambda>until.
      try_in (bind_cursor env c) (\<lambda>key.
        Inr (slice_page limit (encodeCursor env f)
          (map (instance_item_of env) (select_instances env db f cutoff since until key (limit + 1)))))))))))"

section \<open>The executions of an instance\<close>

record step_query =
  sq_cursor :: "string option"
  sq_pageSize :: "string option"

record step_item =
  si_id :: string
  si_stepId :: string
  si_stepType :: string
  si_attemptNumber :: int
  si_status :: string
  si_startedAt :: int
  si_endedAt :: "int option"
  si_hasFailure :: bool
  si_hasInputSnapshot :: bool
  si_hasOutputSnapshot :: bool

definition encodeStepExecutionCursor :: "'b monitor_env \<Rightarrow> string \<Rightarrow> step_item \<Rightarrow> string" where
  "encodeStepExecutionCursor env instanceId item =
     cursor_text env (JObj [(''v'', JNum 1), (''startedAt'', JStr (toISOString (si_startedAt item))), (''id'', JStr (si_id item)),
       (''instanceId'', JStr instanceId)])"

definition decodeStepExecutionCursor :: "'b monitor_env \<Rightarrow> string \<Rightarrow> string \<Rightarrow> monitor_error + string \<times> string" where
  "decodeStepExecutionCursor env instanceId v =
     (case cursor_json env v of
        None \<Rightarrow> Inl (BadRequest ''Invalid cursor'')
      | Some c \<Rightarrow>
          (case (json_field c ''startedAt'', json_field c ''id'') of
             (Some (JStr t), Some (JStr i)) \<Rightarrow>
               if json_field c ''v'' \<noteq> Some (JNum 1) \<or> \<not> isUtcTimestamp t \<or> i = [] \<or>
                  json_field c ''instanceId'' \<noteq> Some (JStr instanceId)
               then Inl (BadRequest ''Invalid cursor'') else Inr (t, i)
           | _ \<Rightarrow> Inl (BadRequest ''Invalid cursor'')))"

definition execution_key :: "'b monitor_env \<Rightarrow> execution_row \<Rightarrow> int \<times> nat list" where
  "execution_key env row = (se_started_at row, collate env (se_id row))"

definition step_item_of :: "'b monitor_env \<Rightarrow> execution_row \<Rightarrow> step_item" where
  "step_item_of env row =
     \<lparr>si_id = se_id row, si_stepId = se_step_id row, si_stepType = se_step_type row, si_attemptNumber = se_attempt_number row,
      si_status = se_status row, si_startedAt = pg_date env (se_started_at row), si_endedAt = map_option (pg_date env) (se_ended_at row),
      si_hasFailure = (se_failure_reason row \<noteq> None), si_hasInputSnapshot = (se_input_snapshot row \<noteq> None),
      si_hasOutputSnapshot = (se_output_snapshot row \<noteq> None)\<rparr>"

definition listStepExecutions ::
    "'b monitor_env \<Rightarrow> database \<Rightarrow> string \<Rightarrow> step_query \<Rightarrow> monitor_error + step_item list \<times> string option" where
  "listStepExecutions env db instanceId q =
     try_in (pageSize env (sq_pageSize q)) (\<lambda>limit.
     try_in (if str_truthy (sq_cursor q) then try_in (decodeStepExecutionCursor env instanceId (the (sq_cursor q))) (\<lambda>c. Inr (Some c))
             else Inr None) (\<lambda>c.
     try_in (bind_cursor env c) (\<lambda>key.
       Inr (slice_page limit (encodeStepExecutionCursor env instanceId)
         (map (step_item_of env) (take (limit + 1) (order_desc (execution_key env)
           (filter (\<lambda>row. se_instance_id row = instanceId \<and> before_key (execution_key env row) key) (db_executions db)))))))))"

section \<open>Reading every page\<close>

text \<open>The parameters of a request without its cursor, and the rows it matches, in order.\<close>

definition instance_params ::
    "'b monitor_env \<Rightarrow> instance_query \<Rightarrow> monitor_error + nat \<times> int option \<times> int option \<times> int option" where
  "instance_params env q =
     (let f = instance_filters.truncate q in
      case validateFilters env f of
        Some e \<Rightarrow> Inl e
      | None \<Rightarrow>
      try_in (pageSize env (q_pageSize q)) (\<lambda>limit.
      try_in (bind_timestamp env (one_of (f_stepStartedBefore f))) (\<lambda>cutoff.
      try_in (bind_timestamp env (f_from f)) (\<lambda>since.
      try_in (bind_timestamp env (f_to f)) (\<lambda>until. Inr (limit, cutoff, since, until))))))"

definition matching_instances ::
    "'b monitor_env \<Rightarrow> database \<Rightarrow> instance_query \<Rightarrow> instance_row list" where
  "matching_instances env db q =
     (case instance_params env q of
        Inl _ \<Rightarrow> []
      | Inr (_, cutoff, since, until) \<Rightarrow>
          order_desc (instance_key env)
            (filter (instance_where env db (instance_filters.truncate q) cutoff since until) (db_instances db)))"

definition instances_good :: "'b monitor_env \<times> database \<times> instance_query \<Rightarrow> bool" where
  "instances_good = (\<lambda>(env, db, q). codec_laws env \<and> clock_laws env \<and> keys_unique db \<and> (\<exists>p. instance_params env q = Inr p) \<and>
     list_all (\<lambda>row. whole_ms (wi_started_at row) \<and> wi_id row \<noteq> []) (db_instances db))"

definition fetch_instances :: "'b monitor_env \<times> database \<times> instance_query \<Rightarrow> string option \<Rightarrow> monitor_error + instance_item list \<times> string option" where
  "fetch_instances = (\<lambda>(env, db, q) c. list_instances env db (q\<lparr>q_cursor := c\<rparr>))"

definition instance_rows :: "'b monitor_env \<times> database \<times> instance_query \<Rightarrow> instance_row list" where
  "instance_rows = (\<lambda>(env, db, q). matching_instances env db q)"

definition instance_limit :: "'b monitor_env \<times> database \<times> instance_query \<Rightarrow> nat" where
  "instance_limit = (\<lambda>(env, db, q). case pageSize env (q_pageSize q) of Inr n \<Rightarrow> n | Inl _ \<Rightarrow> 0)"

definition instance_cursor :: "'b monitor_env \<times> database \<times> instance_query \<Rightarrow> instance_item \<Rightarrow> string" where
  "instance_cursor = (\<lambda>(env, db, q). encodeCursor env (instance_filters.truncate q))"

lemma truncate_cursor [simp]: "instance_filters.truncate (q\<lparr>q_cursor := c\<rparr>) = instance_filters.truncate q"
  by (simp add: instance_filters.truncate_def)

lemma instance_params_cases:
  assumes "instance_params env q = Inr (limit, cutoff, since, until)"
  shows "validateFilters env (instance_filters.truncate q) = None" "pageSize env (q_pageSize q) = Inr limit"
    "bind_timestamp env (one_of (f_stepStartedBefore (instance_filters.truncate q))) = Inr cutoff"
    "bind_timestamp env (f_from (instance_filters.truncate q)) = Inr since" "bind_timestamp env (f_to (instance_filters.truncate q)) = Inr until"
  using assms by (auto simp: instance_params_def Let_def try_in_Inr split: option.splits)

lemma list_instances_eq:
  assumes "instance_params env q = Inr (limit, cutoff, since, until)"
  shows "list_instances env db (q\<lparr>q_cursor := c\<rparr>) =
     try_in (if str_truthy c then try_in (decodeCursor env (instance_filters.truncate q) (the c)) (\<lambda>c. Inr (Some c)) else Inr None) (\<lambda>c.
     try_in (bind_cursor env c) (\<lambda>key.
        Inr (slice_page limit (encodeCursor env (instance_filters.truncate q))
          (map (instance_item_of env) (select_instances env db (instance_filters.truncate q) cutoff since until key (limit + 1))))))"
  using instance_params_cases [OF assms] unfolding list_instances_def truncate_cursor Let_def by simp

lemma decode_encode:
  assumes "codec_laws env" "it_id item \<noteq> []" "date_parse env (toISOString (it_startedAt item)) \<noteq> None"
  shows "decodeCursor env f (encodeCursor env f item) = Inr (toISOString (it_startedAt item), it_id item)"
  using assms by (simp add: decodeCursor_def encodeCursor_def cursor_codec json_field_def)

lemma select_instances_eq:
  assumes "instance_params env q = Inr (limit, cutoff, since, until)"
  shows "select_instances env db (instance_filters.truncate q) cutoff since until key n =
    take n (filter (\<lambda>row. before_key (instance_key env row) key) (matching_instances env db q))"
proof -
  have "(\<lambda>row. instance_where env db (instance_filters.truncate q) cutoff since until row \<and> before_key (instance_key env row) key) =
    (\<lambda>row. before_key (instance_key env row) key \<and> instance_where env db (instance_filters.truncate q) cutoff since until row)"
    by auto
  then show ?thesis
    by (simp add: select_instances_def matching_instances_def assms order_desc_filter)
qed

lemma matching_below:
  assumes "clock_laws env" "keys_unique db"
  shows "sorted_wrt (key_below (instance_key env)) (matching_instances env db q)"
proof (cases "instance_params env q")
  case (Inr p)
  obtain limit cutoff since until where p: "p = (limit, cutoff, since, until)" by (metis prod_cases4)
  let ?rows = "filter (instance_where env db (instance_filters.truncate q) cutoff since until) (db_instances db)"
  have "distinct (map wi_id ?rows)" using assms(2) by (simp add: keys_unique_def distinct_map_filter)
  moreover have "wi_id x = wi_id y" if "instance_key env x = instance_key env y" for x y
    using that assms(1) injD [of "collate env"] by (simp add: instance_key_def clock_laws_def)
  ultimately have "distinct (map (instance_key env) ?rows)" by (rule distinct_key)
  from order_desc_below [OF this] show ?thesis by (simp add: matching_instances_def Inr p)
qed (simp add: matching_instances_def)

lemma matching_rows: "row \<in> set (matching_instances env db q) \<Longrightarrow> row \<in> set (db_instances db)"
  by (auto simp: matching_instances_def split: sum.splits prod.splits)

lemma instances_goodD:
  assumes "instances_good (env, db, q)"
  shows "codec_laws env" "clock_laws env" "keys_unique db" "\<exists>limit cutoff since until. instance_params env q = Inr (limit, cutoff, since, until)"
    "row \<in> set (db_instances db) \<Longrightarrow> whole_ms (wi_started_at row) \<and> wi_id row \<noteq> []"
  using assms by (simp_all add: instances_good_def list_all_iff)

lemma decode_matching:
  assumes g: "instances_good (env, db, q)" and row: "row \<in> set (matching_instances env db q)"
  shows "decodeCursor env f (encodeCursor env f (instance_item_of env row)) = Inr (toISOString (pg_date env (wi_started_at row)), wi_id row)"
    "bind_cursor env (Some (toISOString (pg_date env (wi_started_at row)), wi_id row)) = Inr (Some (instance_key env row))"
proof -
  have l: "codec_laws env" "clock_laws env" "whole_ms (wi_started_at row)" "wi_id row \<noteq> []"
    using instances_goodD [OF g] matching_rows [OF row] by blast+
  note c = cursor_clock [OF l(2,3)]
  show "decodeCursor env f (encodeCursor env f (instance_item_of env row)) = Inr (toISOString (pg_date env (wi_started_at row)), wi_id row)"
    using decode_encode [OF l(1), of "instance_item_of env row" f] c(2) l(4) by (simp add: instance_item_of_def)
  show "bind_cursor env (Some (toISOString (pg_date env (wi_started_at row)), wi_id row)) = Inr (Some (instance_key env row))"
    using c(3) by (simp add: bind_cursor_def instance_key_def)
qed

lemma instances_first:
  assumes g: "instances_good (env, db, q)" and p: "instance_params env q = Inr (limit, cutoff, since, until)"
  shows "list_instances env db (q\<lparr>q_cursor := None\<rparr>) =
    Inr (slice_page limit (encodeCursor env (instance_filters.truncate q))
      (map (instance_item_of env) (take (limit + 1) (matching_instances env db q))))"
  by (simp add: list_instances_eq [OF p] str_truthy_def bind_cursor_def select_instances_eq [OF p])

lemma instances_next:
  assumes g: "instances_good (env, db, q)" and p: "instance_params env q = Inr (limit, cutoff, since, until)"
    and row: "row \<in> set (matching_instances env db q)"
  shows "list_instances env db (q\<lparr>q_cursor := Some (encodeCursor env (instance_filters.truncate q) (instance_item_of env row))\<rparr>) =
    Inr (slice_page limit (encodeCursor env (instance_filters.truncate q))
      (map (instance_item_of env) (take (limit + 1) (filter (key_below (instance_key env) row) (matching_instances env db q)))))"
proof -
  have "str_truthy (Some (encodeCursor env f item))" for f item
    using cursor_text_nonempty [OF instances_goodD(1) [OF g]] by (simp add: str_truthy_def encodeCursor_def)
  then show ?thesis
    by (simp add: list_instances_eq [OF p] decode_matching [OF g row] select_instances_eq [OF p])
qed

interpretation instance_pages: keyset_query instances_good fetch_instances instance_rows
  "\<lambda>q. key_below (instance_key (fst q))" "\<lambda>q. instance_item_of (fst q)" instance_limit instance_cursor
proof (unfold_locales)
  fix q :: "'b monitor_env \<times> database \<times> instance_query" and a b row
  show "key_below (instance_key (fst q)) a b \<Longrightarrow> \<not> key_below (instance_key (fst q)) b a" by (rule key_below_asym)
  assume g: "instances_good q"
  obtain env db r where q: "q = (env, db, r)" by (cases q)
  obtain limit cutoff since until where p: "instance_params env r = Inr (limit, cutoff, since, until)"
    using instances_goodD(4) [OF g [unfolded q]] by blast
  note laws = instances_goodD(1-3) [OF g [unfolded q]]
  note size = instance_params_cases(2) [OF p]
  show "0 < instance_limit q" using size pageSize_bounds [OF size] by (simp add: instance_limit_def q)
  show "sorted_wrt (key_below (instance_key (fst q))) (instance_rows q)"
    using matching_below [OF laws(2,3)] by (simp add: instance_rows_def q)
  show "fetch_instances q None = Inr (slice_page (instance_limit q) (instance_cursor q)
      (map (instance_item_of (fst q)) (take (instance_limit q + 1) (instance_rows q))))"
    using instances_first [OF g [unfolded q] p] by (simp add: fetch_instances_def instance_limit_def instance_cursor_def instance_rows_def q size)
  show "row \<in> set (instance_rows q) \<Longrightarrow> fetch_instances q (Some (instance_cursor q (instance_item_of (fst q) row))) =
      Inr (slice_page (instance_limit q) (instance_cursor q)
        (map (instance_item_of (fst q)) (take (instance_limit q + 1) (filter (key_below (instance_key (fst q)) row) (instance_rows q)))))"
    using instances_next [OF g [unfolded q] p] by (simp add: fetch_instances_def instance_limit_def instance_cursor_def instance_rows_def q size)
qed

text \<open>C3. Reading every page of the instance list: a reader that follows the cursors from the first page gets exactly the
  instances that match the filters, each once, latest start first, whatever the page size. It holds
  when the start times are whole milliseconds.\<close>

theorem instance_pages_complete:
  assumes "codec_laws env" "clock_laws env" "keys_unique db" "instance_params env q = Inr params"
    and "list_all (\<lambda>row. whole_ms (wi_started_at row) \<and> wi_id row \<noteq> []) (db_instances db)"
  shows "follow (\<lambda>c. list_instances env db (q\<lparr>q_cursor := c\<rparr>)) (Suc (length (matching_instances env db q))) None =
    Some (Inr (map (instance_item_of env) (matching_instances env db q)))"
proof -
  have "instances_good (env, db, q)" using assms by (cases params) (simp add: instances_good_def)
  from instance_pages.pages.follow_all [OF this, unfolded instance_pages.listed_def] show ?thesis
    by (simp only: fetch_instances_def instance_rows_def prod.case fst_conv length_map)
qed

definition sample_instance :: "string \<Rightarrow> int \<Rightarrow> instance_row" where
  "sample_instance i t = \<lparr>wi_id = i, wi_definition_id = ''loan'', wi_definition_version = 1, wi_status = ''ACTIVE'',
     wi_current_step_ids = [''check''], wi_variables = JObj [], wi_started_at = t, wi_completed_at = None,
     wi_failure_reason = None, wi_business_key = None\<rparr>"

definition sample_db :: "int list \<Rightarrow> database" where
  "sample_db ts = \<lparr>db_instances = map (\<lambda>(i, t). sample_instance [i] t) (zip ''abcdefgh'' ts), db_definitions = [], db_executions = [],
     db_jobs = [], db_tasks = [], db_timers = []\<rparr>"

definition sample_query :: instance_query where
  "sample_query = \<lparr>f_definitionId = Some ''loan'', f_definitionVersion = None, f_currentStepId = None, f_stepStartedBefore = None,
     f_status = None, f_businessKey = None, f_from = None, f_to = None, q_cursor = None, q_pageSize = Some ''1''\<rparr>"

lemma sample_params: "instance_params sample_monitor sample_query = Inr (1, None, None, None)"
proof -
  have "number_of ''1'' = 1" by (simp add: number_of_def)
  then show ?thesis
    by (simp add: instance_params_def sample_query_def sample_monitor_def instance_filters.truncate_def validateFilters_def bad_version_def
      bad_current_step_def bad_cutoff_def statusValues_def bad_timestamp_def not_increasing_def str_truthy_def pageSize_def
      bind_timestamp_def one_of_def is_digit_def)
qed

lemma sample_matching: "matching_instances sample_monitor (sample_db ts) sample_query =
   order_desc (instance_key sample_monitor) (db_instances (sample_db ts))"
proof -
  have "instance_where sample_monitor (sample_db ts) (instance_filters.truncate sample_query) None None None row"
    if "row \<in> set (db_instances (sample_db ts))" for row
    using that by (auto simp: instance_where_def sample_query_def instance_filters.truncate_def str_truthy_def qv_truthy_def statusValues_def
      sample_db_def sample_instance_def)
  then show ?thesis by (simp add: matching_instances_def sample_params filter_True)
qed

theorem instance_pages_complete_witness:
  "follow (\<lambda>c. list_instances sample_monitor (sample_db [1735689600000000, 1735689600002000, 1735689600001000]) (sample_query\<lparr>q_cursor := c\<rparr>)) 4 None =
    Some (Inr (map (instance_item_of sample_monitor)
      [sample_instance ''b'' 1735689600002000, sample_instance ''c'' 1735689600001000, sample_instance ''a'' 1735689600000000]))"
proof -
  let ?db = "sample_db [1735689600000000, 1735689600002000, 1735689600001000]"
  have m: "matching_instances sample_monitor ?db sample_query =
    [sample_instance ''b'' 1735689600002000, sample_instance ''c'' 1735689600001000, sample_instance ''a'' 1735689600000000]"
    unfolding sample_matching by (simp add: sample_db_def order_desc_def instance_key_def sample_instance_def)
  have "keys_unique ?db" by (simp add: keys_unique_def sample_db_def sample_instance_def)
  moreover have "list_all (\<lambda>row. whole_ms (wi_started_at row) \<and> wi_id row \<noteq> []) (db_instances ?db)"
    by (simp add: sample_db_def sample_instance_def whole_ms_def iso_date_def day_from_year_def)
  ultimately show ?thesis
    using instance_pages_complete [OF sample_codec sample_clock _ sample_params, of ?db]
    by (simp add: m eval_nat_numeral del: follow.simps)
qed


text \<open>A start time with a fraction of a millisecond: the cursor holds the millisecond only.\<close>

lemma instances_next_rounded:
  assumes laws: "codec_laws env" "clock_laws env" and p: "instance_params env q = Inr (limit, cutoff, since, until)"
    and row: "pg_date env (wi_started_at row) = k" "iso_date k" "wi_id row \<noteq> []"
  shows "list_instances env db (q\<lparr>q_cursor := Some (encodeCursor env (instance_filters.truncate q) (instance_item_of env row))\<rparr>) =
    Inr (slice_page limit (encodeCursor env (instance_filters.truncate q))
      (map (instance_item_of env) (take (limit + 1)
        (filter (\<lambda>r. before_key (instance_key env r) (Some (1000 * k, collate env (wi_id row)))) (matching_instances env db q)))))"
proof -
  have "str_truthy (Some (encodeCursor env f item))" for f item
    using cursor_text_nonempty [OF laws(1)] by (simp add: str_truthy_def encodeCursor_def)
  moreover have "date_parse env (toISOString k) \<noteq> None"
    using iso_roundtrip_parts(2) [OF row(2)] by (auto simp: date_parse_def split: option.splits)
  then have "decodeCursor env f (encodeCursor env f (instance_item_of env row)) = Inr (toISOString k, wi_id row)" for f
    using decode_encode [OF laws(1), of "instance_item_of env row" f] row by (simp add: instance_item_of_def)
  moreover have "bind_cursor env (Some (toISOString k, wi_id row)) = Inr (Some (1000 * k, collate env (wi_id row)))"
    using laws(2) row(2) by (simp add: bind_cursor_def clock_laws_def)
  ultimately show ?thesis by (simp add: list_instances_eq [OF p] select_instances_eq [OF p])
qed

text \<open>Two instances that start within one millisecond and a page of one row: the reader that follows the cursors is
  shown the later one only. The cursor carries \<^verbatim>\<open>startedAt.toISOString()\<close>, which has no
  microseconds, while the column has them, so the next page starts below the instance that was not shown yet.\<close>

theorem instance_pages_lose_submillisecond:
  "follow (\<lambda>c. list_instances sample_monitor (sample_db [1735689600000700, 1735689600000300]) (sample_query\<lparr>q_cursor := c\<rparr>)) 3 None =
     Some (Inr [instance_item_of sample_monitor (sample_instance ''a'' 1735689600000700)]) \<and>
   matching_instances sample_monitor (sample_db [1735689600000700, 1735689600000300]) sample_query =
     [sample_instance ''a'' 1735689600000700, sample_instance ''b'' 1735689600000300]"
proof -
  let ?db = "sample_db [1735689600000700, 1735689600000300]"
  let ?a = "sample_instance ''a'' 1735689600000700" and ?b = "sample_instance ''b'' 1735689600000300"
  have m: "matching_instances sample_monitor ?db sample_query = [?a, ?b]"
    unfolding sample_matching by (simp add: sample_db_def order_desc_def instance_key_def sample_instance_def)
  have first: "list_instances sample_monitor ?db (sample_query\<lparr>q_cursor := None\<rparr>) =
      Inr ([instance_item_of sample_monitor ?a], Some (encodeCursor sample_monitor (instance_filters.truncate sample_query) (instance_item_of sample_monitor ?a)))"
    by (simp add: list_instances_eq [OF sample_params] str_truthy_def bind_cursor_def select_instances_eq [OF sample_params] m
        slice_page_def)
  have k: "pg_date sample_monitor (wi_started_at ?a) = 1735689600000" "iso_date 1735689600000" "wi_id ?a \<noteq> []"
    by (simp_all add: sample_monitor_def sample_instance_def iso_date_def day_from_year_def)
  have f: "filter (\<lambda>r. before_key (instance_key sample_monitor r) (Some (1000 * 1735689600000, collate sample_monitor (wi_id ?a)))) [?a, ?b] = []"
    by (simp add: before_key_def instance_key_def sample_instance_def)
  have "list_instances sample_monitor ?db (sample_query\<lparr>q_cursor :=
      Some (encodeCursor sample_monitor (instance_filters.truncate sample_query) (instance_item_of sample_monitor ?a))\<rparr>) = Inr ([], None)"
    unfolding instances_next_rounded [OF sample_codec sample_clock sample_params k, of ?db] m f by (simp add: slice_page_def)
  with first m show ?thesis by (simp add: numeral_3_eq_3)
qed

text \<open>A cursor is accepted only together with the filters it was made for: decoding it under other filters is refused
  whenever their fingerprints differ, and gives back the position it was made for when they agree. The
  order in which the statuses are given does not matter.\<close>

theorem instance_cursor_bound:
  assumes "codec_laws env" "it_id item \<noteq> []" "iso_date (it_startedAt item)"
  shows "decodeCursor env g (encodeCursor env f item) =
     (if filterFingerprint env g = filterFingerprint env f then Inr (toISOString (it_startedAt item), it_id item)
      else Inl (BadRequest ''Invalid cursor'')) \<and>
   (mset ss = mset ts \<longrightarrow> filterFingerprint env (f\<lparr>f_status := Some (Many ss)\<rparr>) = filterFingerprint env (f\<lparr>f_status := Some (Many ts)\<rparr>))"
proof
  have "date_parse env (toISOString (it_startedAt item)) \<noteq> None"
    using iso_roundtrip_parts(2) [OF assms(3)] by (auto simp: date_parse_def split: option.splits)
  with assms show "decodeCursor env g (encodeCursor env f item) =
     (if filterFingerprint env g = filterFingerprint env f then Inr (toISOString (it_startedAt item), it_id item)
      else Inl (BadRequest ''Invalid cursor''))"
    by (auto simp: decodeCursor_def encodeCursor_def cursor_codec json_field_def)
  show "mset ss = mset ts \<longrightarrow> filterFingerprint env (f\<lparr>f_status := Some (Many ss)\<rparr>) = filterFingerprint env (f\<lparr>f_status := Some (Many ts)\<rparr>)"
  proof
    assume "mset ss = mset ts"
    then have "sort ss = sort ts" by (intro properties_for_sort) simp_all
    then show "filterFingerprint env (f\<lparr>f_status := Some (Many ss)\<rparr>) = filterFingerprint env (f\<lparr>f_status := Some (Many ts)\<rparr>)"
      by (simp add: filterFingerprint_def statusValues_def)
  qed
qed

theorem instance_cursor_bound_witness:
  "decodeCursor sample_monitor (instance_filters.truncate sample_query)
     (encodeCursor sample_monitor (instance_filters.truncate sample_query) (instance_item_of sample_monitor (sample_instance ''a'' 1735689600002000))) =
   Inr (toISOString 1735689600002, ''a'')"
proof -
  let ?item = "instance_item_of sample_monitor (sample_instance ''a'' 1735689600002000)"
  have i: "it_id ?item = ''a''" "it_startedAt ?item = 1735689600002"
    by (simp_all add: instance_item_of_def sample_instance_def sample_monitor_def)
  have "it_id ?item \<noteq> []" "iso_date (it_startedAt ?item)" by (simp_all add: i iso_date_def day_from_year_def)
  from instance_cursor_bound [OF sample_codec this] show ?thesis by (simp add: i)
qed

section \<open>Reading every execution\<close>

type_synonym 'b step_request = "'b monitor_env \<times> database \<times> string \<times> step_query"

definition steps_good :: "'b step_request \<Rightarrow> bool" where
  "steps_good = (\<lambda>(env, db, i, q). codec_laws env \<and> clock_laws env \<and> keys_unique db \<and> (\<exists>n. pageSize env (sq_pageSize q) = Inr n) \<and>
     list_all (\<lambda>row. whole_ms (se_started_at row) \<and> se_id row \<noteq> []) (db_executions db))"

definition fetch_steps :: "'b step_request \<Rightarrow> string option \<Rightarrow> monitor_error + step_item list \<times> string option" where
  "fetch_steps = (\<lambda>(env, db, i, q) c. listStepExecutions env db i (q\<lparr>sq_cursor := c\<rparr>))"

definition instance_executions :: "'b monitor_env \<Rightarrow> database \<Rightarrow> string \<Rightarrow> execution_row list" where
  "instance_executions env db i = order_desc (execution_key env) (filter (\<lambda>row. se_instance_id row = i) (db_executions db))"

definition step_rows :: "'b step_request \<Rightarrow> execution_row list" where
  "step_rows = (\<lambda>(env, db, i, q). instance_executions env db i)"

definition step_limit :: "'b step_request \<Rightarrow> nat" where
  "step_limit = (\<lambda>(env, db, i, q). case pageSize env (sq_pageSize q) of Inr n \<Rightarrow> n | Inl _ \<Rightarrow> 0)"

definition step_cursor :: "'b step_request \<Rightarrow> step_item \<Rightarrow> string" where
  "step_cursor = (\<lambda>(env, db, i, q). encodeStepExecutionCursor env i)"

lemma steps_goodD:
  assumes "steps_good (env, db, i, q)"
  shows "codec_laws env" "clock_laws env" "keys_unique db" "\<exists>n. pageSize env (sq_pageSize q) = Inr n"
    "row \<in> set (db_executions db) \<Longrightarrow> whole_ms (se_started_at row) \<and> se_id row \<noteq> []"
  using assms by (simp_all add: steps_good_def list_all_iff)

lemma listStepExecutions_eq:
  assumes "pageSize env (sq_pageSize q) = Inr n"
  shows "listStepExecutions env db i (q\<lparr>sq_cursor := c\<rparr>) =
     try_in (if str_truthy c then try_in (decodeStepExecutionCursor env i (the c)) (\<lambda>c. Inr (Some c)) else Inr None) (\<lambda>c.
     try_in (bind_cursor env c) (\<lambda>key.
       Inr (slice_page n (encodeStepExecutionCursor env i) (map (step_item_of env)
         (take (n + 1) (filter (\<lambda>row. before_key (execution_key env row) key) (instance_executions env db i)))))))"
proof -
  have "(\<lambda>row. se_instance_id row = i \<and> before_key (execution_key env row) key) =
    (\<lambda>row. before_key (execution_key env row) key \<and> se_instance_id row = i)" for key by auto
  then show ?thesis
    by (simp add: listStepExecutions_def assms instance_executions_def order_desc_filter)
qed

lemma executions_below:
  assumes "clock_laws env" "keys_unique db"
  shows "sorted_wrt (key_below (execution_key env)) (instance_executions env db i)"
  unfolding instance_executions_def
proof (rule order_desc_below, rule distinct_key)
  show "distinct (map se_id (filter (\<lambda>row. se_instance_id row = i) (db_executions db)))"
    using assms(2) by (simp add: keys_unique_def distinct_map_filter)
  show "execution_key env x = execution_key env y \<Longrightarrow> se_id x = se_id y" for x y
    using assms(1) injD [of "collate env"] by (simp add: execution_key_def clock_laws_def)
qed

lemma steps_next:
  assumes g: "steps_good (env, db, i, q)" and p: "pageSize env (sq_pageSize q) = Inr n"
    and row: "row \<in> set (instance_executions env db i)"
  shows "listStepExecutions env db i (q\<lparr>sq_cursor := Some (encodeStepExecutionCursor env i (step_item_of env row))\<rparr>) =
    Inr (slice_page n (encodeStepExecutionCursor env i)
      (map (step_item_of env) (take (n + 1) (filter (key_below (execution_key env) row) (instance_executions env db i)))))"
proof -
  have "row \<in> set (db_executions db)" using row by (simp add: instance_executions_def)
  then have l: "codec_laws env" "clock_laws env" "whole_ms (se_started_at row)" "se_id row \<noteq> []"
    using steps_goodD [OF g] by blast+
  note c = cursor_clock [OF l(2,3)]
  have "decodeStepExecutionCursor env i (encodeStepExecutionCursor env i (step_item_of env row)) =
      Inr (toISOString (pg_date env (se_started_at row)), se_id row)"
    using l c(1) by (simp add: decodeStepExecutionCursor_def encodeStepExecutionCursor_def cursor_codec json_field_def step_item_of_def)
  moreover have "bind_cursor env (Some (toISOString (pg_date env (se_started_at row)), se_id row)) = Inr (Some (execution_key env row))"
    using c(3) by (simp add: bind_cursor_def execution_key_def)
  moreover have "str_truthy (Some (encodeStepExecutionCursor env i item))" for item
    using cursor_text_nonempty [OF l(1)] by (simp add: str_truthy_def encodeStepExecutionCursor_def)
  ultimately show ?thesis by (simp add: listStepExecutions_eq [OF p])
qed

interpretation step_pages: keyset_query steps_good fetch_steps step_rows
  "\<lambda>q. key_below (execution_key (fst q))" "\<lambda>q. step_item_of (fst q)" step_limit step_cursor
proof (unfold_locales)
  fix q :: "'b step_request" and a b row
  show "key_below (execution_key (fst q)) a b \<Longrightarrow> \<not> key_below (execution_key (fst q)) b a" by (rule key_below_asym)
  assume g: "steps_good q"
  obtain env db i r where q: "q = (env, db, i, r)" by (cases q)
  obtain n where p: "pageSize env (sq_pageSize r) = Inr n" using steps_goodD(4) [OF g [unfolded q]] by blast
  show "0 < step_limit q" using p pageSize_bounds [OF p] by (simp add: step_limit_def q)
  show "sorted_wrt (key_below (execution_key (fst q))) (step_rows q)"
    using executions_below [OF steps_goodD(2,3) [OF g [unfolded q]]] by (simp add: step_rows_def q)
  show "fetch_steps q None = Inr (slice_page (step_limit q) (step_cursor q) (map (step_item_of (fst q)) (take (step_limit q + 1) (step_rows q))))"
    by (simp add: fetch_steps_def step_limit_def step_cursor_def step_rows_def q p listStepExecutions_eq [OF p] str_truthy_def bind_cursor_def)
  show "row \<in> set (step_rows q) \<Longrightarrow> fetch_steps q (Some (step_cursor q (step_item_of (fst q) row))) =
      Inr (slice_page (step_limit q) (step_cursor q)
        (map (step_item_of (fst q)) (take (step_limit q + 1) (filter (key_below (execution_key (fst q)) row) (step_rows q)))))"
    using steps_next [OF g [unfolded q] p] by (simp add: fetch_steps_def step_limit_def step_cursor_def step_rows_def q p)
qed

text \<open>Reading every page of the executions of an instance gives all of them, latest start first.\<close>

lemma step_pages_complete:
  assumes "codec_laws env" "clock_laws env" "keys_unique db" "pageSize env (sq_pageSize q) = Inr n"
    and "list_all (\<lambda>row. whole_ms (se_started_at row) \<and> se_id row \<noteq> []) (db_executions db)"
  shows "follow (\<lambda>c. listStepExecutions env db i (q\<lparr>sq_cursor := c\<rparr>)) (Suc (length (instance_executions env db i))) None =
    Some (Inr (map (step_item_of env) (instance_executions env db i)))"
proof -
  have "steps_good (env, db, i, q)" using assms by (simp add: steps_good_def)
  from step_pages.pages.follow_all [OF this, unfolded step_pages.listed_def] show ?thesis
    by (simp only: fetch_steps_def step_rows_def prod.case fst_conv length_map)
qed

section \<open>Pages\<close>

lemma slice_page_items: "slice_page n e rows = (items, c) \<Longrightarrow> set items \<subseteq> set rows \<and> length items \<le> n \<and> (c = None \<longrightarrow> items = rows)"
  by (auto simp: slice_page_def Let_def dest: in_set_takeD split: if_splits)

text \<open>Whatever the database holds and however the libraries behave, a page of the instance list has at most a hundred
  items, each comes from a row that meets every filter of the request, and invalid filters are
  refused before the database is read.\<close>

theorem instance_page_sound:
  "case list_instances env db q of
     Inl e \<Rightarrow> True
   | Inr (items, c) \<Rightarrow> validateFilters env (instance_filters.truncate q) = None \<and> length items \<le> 100 \<and>
       (\<exists>limit cutoff since until. instance_params env q = Inr (limit, cutoff, since, until) \<and>
         set items \<subseteq> instance_item_of env ` {row \<in> set (db_instances db). instance_where env db (instance_filters.truncate q) cutoff since until row})"
proof (cases "list_instances env db q")
  case (Inr page)
  obtain items c where page: "page = (items, c)" by (cases page)
  have v: "validateFilters env (instance_filters.truncate q) = None"
    using Inr by (auto simp: list_instances_def Let_def split: option.splits)
  obtain limit cutoff since until key where s: "pageSize env (q_pageSize q) = Inr limit"
    "bind_timestamp env (one_of (f_stepStartedBefore (instance_filters.truncate q))) = Inr cutoff"
    "bind_timestamp env (f_from (instance_filters.truncate q)) = Inr since"
    "bind_timestamp env (f_to (instance_filters.truncate q)) = Inr until"
    and r: "slice_page limit (encodeCursor env (instance_filters.truncate q)) (map (instance_item_of env)
      (select_instances env db (instance_filters.truncate q) cutoff since until key (limit + 1))) = (items, c)"
    using Inr v unfolding list_instances_def Let_def page by (simp add: try_in_Inr) blast
  have "instance_params env q = Inr (limit, cutoff, since, until)" by (simp add: instance_params_def Let_def v s)
  moreover have "set items \<subseteq> instance_item_of env ` set (select_instances env db (instance_filters.truncate q) cutoff since until key (limit + 1))"
    using slice_page_items [OF r] by simp
  moreover have "set (select_instances env db (instance_filters.truncate q) cutoff since until key (limit + 1)) \<subseteq>
      {row \<in> set (db_instances db). instance_where env db (instance_filters.truncate q) cutoff since until row}"
    by (auto simp: select_instances_def dest: in_set_takeD)
  moreover have "length items \<le> 100" using slice_page_items [OF r] pageSize_bounds [OF s(1)] by simp
  ultimately show ?thesis using v by (simp add: Inr page) blast
qed simp

end
