(* ===== verification/Instance_Detail.thy ===== *)
theory Instance_Detail
  imports Process_Instances
begin

text \<open>
  The detail of one process instance, \<^verbatim>\<open>ProcessInstanceQueries.detail\<close> in
  \<^verbatim>\<open>workflow-monitor-bff/src/modules/process-instances/process-instance.queries.ts\<close>, with the statements it sends on its
  connection.

  All reads see one snapshot, since the transaction is repeatable read and read only. Which statements succeed is an
  argument, so that every failure of the connection is covered.
\<close>

section \<open>Statements on a connection\<close>

datatype statement =
    BEGIN_TXN | SELECT_INSTANCE | SELECT_DEFINITION | SELECT_EXECUTIONS | SELECT_FAILED | SELECT_CONTEXT | COMMIT_TXN
  | ROLLBACK_TXN | RELEASE

text \<open>A computation that sends statements: it returns (\<open>Some\<close>) or throws (\<open>None\<close>), and what it sent. The
  position in the conversation is an argument of \<open>ok\<close>, so a statement can fail once and succeed later.\<close>

type_synonym conversation = "statement list"
type_synonym 'a txn = "(conversation \<Rightarrow> statement \<Rightarrow> bool) \<Rightarrow> conversation \<Rightarrow> 'a option \<times> conversation"

definition send :: "statement \<Rightarrow> 'a \<Rightarrow> 'a txn" where
  "send s answer = (\<lambda>ok tr. (if ok tr s then Some answer else None, tr @ [s]))"

definition ret :: "'a \<Rightarrow> 'a txn" where
  "ret a = (\<lambda>ok tr. (Some a, tr))"

definition andThen :: "'a txn \<Rightarrow> ('a \<Rightarrow> 'c txn) \<Rightarrow> 'c txn" where
  "andThen m k = (\<lambda>ok tr. case m ok tr of (None, tr') \<Rightarrow> (None, tr') | (Some a, tr') \<Rightarrow> k a ok tr')"

section \<open>The detail\<close>

record overlay =
  o_currentTokenStepIds :: "string list"
  o_failedStepId :: "string option"
  o_latestByStep :: "(string \<times> string \<times> string \<times> int) list"

record instance_detail =
  d_observedAt :: int
  d_executionContext :: "execution_context list"
  d_instance :: instance_item
  d_definition :: fields
  d_executionOverlay :: overlay

text \<open>\<^verbatim>\<open>SELECT DISTINCT ON (step_id) ... ORDER BY step_id, attempt_number DESC, started_at DESC, id DESC\<close>.\<close>

definition latest_by_step :: "'b monitor_env \<Rightarrow> database \<Rightarrow> string \<Rightarrow> execution_row list" where
  "latest_by_step env db instanceId =
     distinct_on se_step_id (sort_key (\<lambda>e. collate env (se_step_id e)) (order_desc (attempt_key env)
       (filter (\<lambda>e. se_instance_id e = instanceId) (db_executions db))))"

text \<open>\<^verbatim>\<open>ORDER BY ended_at DESC NULLS LAST, started_at DESC, id DESC LIMIT 1\<close>: a null is below every timestamp.\<close>

definition ended_key :: "'b monitor_env \<Rightarrow> execution_row \<Rightarrow> (bool \<times> int) \<times> int \<times> nat list" where
  "ended_key env e = ((case se_ended_at e of None \<Rightarrow> (False, 0) | Some t \<Rightarrow> (True, t)), se_started_at e, collate env (se_id e))"

definition failed_step :: "'b monitor_env \<Rightarrow> database \<Rightarrow> string \<Rightarrow> string option" where
  "failed_step env db instanceId =
     map_option se_step_id (first_row (order_desc (ended_key env)
       (filter (\<lambda>e. se_instance_id e = instanceId \<and> se_status e = ''FAILED'') (db_executions db))))"

definition is_live :: "instance_row \<Rightarrow> bool" where
  "is_live row \<longleftrightarrow> wi_status row = ''ACTIVE'' \<or> wi_status row = ''WAITING''"

definition detail_of :: "'b monitor_env \<Rightarrow> database \<Rightarrow> int \<Rightarrow> instance_row \<Rightarrow> definition_row \<Rightarrow> execution_row list \<Rightarrow> string option \<Rightarrow>
    execution_context list \<Rightarrow> instance_detail" where
  "detail_of env db now row definitionRow executions failedStepId context =
     \<lparr>d_observedAt = pg_date env now, d_executionContext = context, d_instance = instance_item_of env row,
      d_definition = map_set ''version'' (JNum (of_int (wd_version definitionRow))) (wd_raw_json definitionRow),
      d_executionOverlay = \<lparr>o_currentTokenStepIds = (if is_live row then wi_current_step_ids row else []), o_failedStepId = failedStepId,
        o_latestByStep = map (\<lambda>e. (se_id e, se_step_id e, se_status e, se_attempt_number e)) executions\<rparr>\<rparr>"

text \<open>The reads that follow once the instance and its definition are found.\<close>

definition detail_reads :: "'b monitor_env \<Rightarrow> database \<Rightarrow> int \<Rightarrow> string \<Rightarrow> instance_row \<Rightarrow> definition_row \<Rightarrow> instance_detail option txn" where
  "detail_reads env db now instanceId row def_row =
     andThen (send SELECT_EXECUTIONS (latest_by_step env db instanceId)) (\<lambda>executions.
     andThen (if wi_status row = ''FAILED'' then send SELECT_FAILED (failed_step env db instanceId) else ret None) (\<lambda>failedStepId.
     andThen (if is_live row \<and> wi_current_step_ids row \<noteq> []
              then send SELECT_CONTEXT (readExecutionContext env db instanceId (wi_current_step_ids row)) else ret []) (\<lambda>context.
     andThen (send COMMIT_TXN ()) (\<lambda>_.
     ret (Some (detail_of env db now row def_row executions failedStepId context))))))"

text \<open>The body of the \<^verbatim>\<open>try\<close> block; \<open>now\<close> is the transaction's timestamp.\<close>

definition detail_body :: "'b monitor_env \<Rightarrow> database \<Rightarrow> int \<Rightarrow> string \<Rightarrow> instance_detail option txn" where
  "detail_body env db now instanceId =
     andThen (send BEGIN_TXN ()) (\<lambda>_.
     andThen (send SELECT_INSTANCE (first_row (filter (\<lambda>row. wi_id row = instanceId) (db_instances db)))) (\<lambda>instanceRow.
     case instanceRow of
       None \<Rightarrow> andThen (send ROLLBACK_TXN ()) (\<lambda>_. ret None)
     | Some row \<Rightarrow>
     andThen (send SELECT_DEFINITION (first_row (filter (\<lambda>d. wd_id d = wi_definition_id row \<and> wd_version d = wi_definition_version row) (db_definitions db)))) (\<lambda>definitionRow.
     case definitionRow of
       None \<Rightarrow> andThen (send ROLLBACK_TXN ()) (\<lambda>_. ret None)
     | Some def_row \<Rightarrow> detail_reads env db now instanceId row def_row)))"

text \<open>The \<^verbatim>\<open>catch\<close> block rolls back and keeps the original error even if that fails; \<^verbatim>\<open>finally\<close> releases the
  connection.\<close>

definition detail :: "'b monitor_env \<Rightarrow> database \<Rightarrow> int \<Rightarrow> string \<Rightarrow> (conversation \<Rightarrow> statement \<Rightarrow> bool) \<Rightarrow>
    (monitor_error + instance_detail option) \<times> conversation" where
  "detail env db now instanceId ok =
     (case detail_body env db now instanceId ok [] of
        (Some result, tr) \<Rightarrow> (Inr result, tr @ [RELEASE])
      | (None, tr) \<Rightarrow> (Inl DatabaseError, tr @ [ROLLBACK_TXN, RELEASE]))"

text \<open>\<^verbatim>\<open>ProcessInstancesController.detail\<close>.\<close>

definition detail_route :: "'b monitor_env \<Rightarrow> database \<Rightarrow> int \<Rightarrow> string \<Rightarrow> (conversation \<Rightarrow> statement \<Rightarrow> bool) \<Rightarrow> monitor_error + instance_detail" where
  "detail_route env db now instanceId ok =
     (case fst (detail env db now instanceId ok) of
        Inl e \<Rightarrow> Inl e
      | Inr None \<Rightarrow> Inl (NotFound ''Process Instance not found'')
      | Inr (Some d) \<Rightarrow> Inr d)"

section \<open>The transaction\<close>

lemma andThen_cases:
  assumes "andThen m k ok tr = (r, tr')"
  obtains "m ok tr = (None, tr')" "r = None" | a tr'' where "m ok tr = (Some a, tr'')" "k a ok tr'' = (r, tr')"
  using assms by (auto simp: andThen_def split: prod.splits option.splits)

lemma send_simp: "send s a ok tr = (r, tr') \<longleftrightarrow> tr' = tr @ [s] \<and> r = (if ok tr s then Some a else None)"
  by (auto simp: send_def)

lemma ret_simp: "ret a ok tr = (r, tr') \<longleftrightarrow> tr' = tr \<and> r = Some a"
  by (auto simp: ret_def)

text \<open>What a conversation has sent so far: it was opened by \<^verbatim>\<open>BEGIN\<close> and only reads followed.\<close>

definition only_reads :: "conversation \<Rightarrow> bool" where
  "only_reads tr \<longleftrightarrow> list_all (\<lambda>s. s \<in> {BEGIN_TXN, SELECT_INSTANCE, SELECT_DEFINITION, SELECT_EXECUTIONS, SELECT_FAILED, SELECT_CONTEXT}) tr"

lemma only_reads_snoc: "only_reads us \<Longrightarrow> s \<in> {BEGIN_TXN, SELECT_INSTANCE, SELECT_DEFINITION, SELECT_EXECUTIONS, SELECT_FAILED, SELECT_CONTEXT} \<Longrightarrow>
    only_reads (us @ [s])"
  by (simp add: only_reads_def)

text \<open>A statement, whether it is sent or skipped, keeps the conversation one of reads, or fails as its last one.\<close>

definition read_only :: "'a txn \<Rightarrow> bool" where
  "read_only m \<longleftrightarrow> (\<forall>ok tr r tr'. only_reads tr \<longrightarrow> m ok tr = (r, tr') \<longrightarrow>
     (if r = None then \<exists>us s. tr' = us @ [s] \<and> only_reads us \<and> \<not> ok us s \<and> s \<noteq> RELEASE else only_reads tr'))"

lemma read_only_send: "s \<in> {BEGIN_TXN, SELECT_INSTANCE, SELECT_DEFINITION, SELECT_EXECUTIONS, SELECT_FAILED, SELECT_CONTEXT} \<Longrightarrow>
    read_only (send s a)"
  by (auto simp: read_only_def send_simp only_reads_snoc)

lemma read_only_ret: "read_only (ret a)"
  by (simp add: read_only_def ret_simp)

lemma read_only_D:
  assumes "read_only m" "only_reads tr" "m ok tr = (r, tr')"
  shows "r \<noteq> None \<Longrightarrow> only_reads tr'" "r = None \<Longrightarrow> \<exists>us s. tr' = us @ [s] \<and> only_reads us \<and> \<not> ok us s \<and> s \<noteq> RELEASE"
  using assms unfolding read_only_def by metis+

text \<open>How the body leaves its conversation.\<close>

definition ends :: "(conversation \<Rightarrow> statement \<Rightarrow> bool) \<Rightarrow> instance_detail option option \<Rightarrow> conversation \<Rightarrow> bool" where
  "ends ok r tr \<longleftrightarrow> (case r of
      Some (Some d) \<Rightarrow> \<exists>us. tr = us @ [COMMIT_TXN] \<and> only_reads us \<and> ok us COMMIT_TXN
    | Some None \<Rightarrow> \<exists>us. tr = us @ [ROLLBACK_TXN] \<and> only_reads us \<and> ok us ROLLBACK_TXN
    | None \<Rightarrow> \<exists>us s. tr = us @ [s] \<and> only_reads us \<and> \<not> ok us s \<and> s \<noteq> RELEASE)"

lemma ends_andThen:
  assumes "andThen m k ok tr = (r, tr')" "read_only m" "only_reads tr"
    and "\<And>a us. m ok tr = (Some a, us) \<Longrightarrow> only_reads us \<Longrightarrow> k a ok us = (r, tr') \<Longrightarrow> ends ok r tr'"
  shows "ends ok r tr'"
  using assms(1)
proof (cases rule: andThen_cases)
  case 1
  with read_only_D(2) [OF assms(2,3) 1(1)] show ?thesis by (simp add: ends_def)
next
  case (2 a us)
  with read_only_D(1) [OF assms(2,3) 2(1)] show ?thesis by (intro assms(4) [of a us]) simp_all
qed

lemma ends_finish:
  assumes "andThen (send s ()) (\<lambda>_. ret x) ok tr = (r, tr')" "only_reads tr"
    and "s = (case x of Some _ \<Rightarrow> COMMIT_TXN | None \<Rightarrow> ROLLBACK_TXN)"
  shows "ends ok r tr'"
  using assms by (auto elim!: andThen_cases simp: send_simp ret_simp ends_def split: if_splits option.splits)

lemma detail_reads_ends: "detail_reads env db now i row def_row ok tr = (r, tr') \<Longrightarrow> only_reads tr \<Longrightarrow> ends ok r tr'"
  unfolding detail_reads_def
  by (erule ends_andThen, simp add: read_only_send read_only_ret, assumption)+
    (erule ends_finish, assumption, simp)

lemma detail_body_ends:
  assumes "detail_body env db now i ok [] = (r, tr)"
  shows "ends ok r tr"
proof -
  have "only_reads []" by (simp add: only_reads_def)
  with assms show ?thesis unfolding detail_body_def
    apply -
    apply (erule ends_andThen, simp add: read_only_send, assumption)
    apply (erule ends_andThen, simp add: read_only_send, assumption)
    subgoal for _ _ instanceRow _
      apply (cases instanceRow)
       apply (simp, erule ends_finish, assumption, simp)
      apply simp
      apply (erule ends_andThen, simp add: read_only_send, assumption)
      subgoal for _ definitionRow _
        by (cases definitionRow) (auto intro: ends_finish detail_reads_ends)
      done
    done
qed

text \<open>C6. The connection of a detail request is always left clean: after the reads the transaction is committed when a detail is
  returned, rolled back when the instance or its definition does not exist, and rolled back after
  the statement that failed when an error is raised; the last thing done is to release the connection,
  once. This holds for every pattern of failing statements.\<close>

theorem detail_transaction:
  "\<exists>us. only_reads us \<and>
    (case detail env db now i ok of
       (Inr (Some d), tr) \<Rightarrow> tr = us @ [COMMIT_TXN, RELEASE] \<and> ok us COMMIT_TXN
     | (Inr None, tr) \<Rightarrow> tr = us @ [ROLLBACK_TXN, RELEASE] \<and> ok us ROLLBACK_TXN
     | (Inl e, tr) \<Rightarrow> e = DatabaseError \<and> (\<exists>s. s \<noteq> RELEASE \<and> tr = us @ [s, ROLLBACK_TXN, RELEASE] \<and> \<not> ok us s))"
proof -
  obtain r tr where b: "detail_body env db now i ok [] = (r, tr)" by (cases "detail_body env db now i ok []")
  note e = detail_body_ends [OF b, unfolded ends_def]
  consider d where "r = Some (Some d)" | "r = Some None" | "r = None" by (metis option.exhaust)
  then show ?thesis
  proof cases
    case 1
    with e obtain us where "tr = us @ [COMMIT_TXN]" "only_reads us" "ok us COMMIT_TXN" by auto
    with b 1 show ?thesis by (auto simp: detail_def intro: exI [of _ us])
  next
    case 2
    with e obtain us where "tr = us @ [ROLLBACK_TXN]" "only_reads us" "ok us ROLLBACK_TXN" by auto
    with b 2 show ?thesis by (auto simp: detail_def intro: exI [of _ us])
  next
    case 3
    with e obtain us s where "tr = us @ [s]" "only_reads us" "\<not> ok us s" "s \<noteq> RELEASE" by auto
    with b 3 show ?thesis by (auto simp: detail_def intro: exI [of _ us])
  qed
qed

section \<open>The overlay\<close>

text \<open>\<^verbatim>\<open>DISTINCT ON\<close> over the sorted executions keeps the latest execution of every step.\<close>

lemma latest_by_step_iff:
  assumes "inj (collate env)"
  shows "e \<in> set (latest_by_step env db i) \<longleftrightarrow> latest_execution env db i (se_step_id e) = Some e"
proof -
  let ?xs = "order_desc (attempt_key env) (filter (\<lambda>e. se_instance_id e = i) (db_executions db))"
  have "filter (\<lambda>y. se_step_id y = se_step_id e) (sort_key (\<lambda>e. collate env (se_step_id e)) ?xs) =
      filter (\<lambda>y. se_step_id y = se_step_id e) ?xs"
    by (rule stable_group [OF assms])
  also have "\<dots> = order_desc (attempt_key env) (executions_of db i (se_step_id e))"
  proof -
    have "(\<lambda>y. se_step_id y = se_step_id e \<and> se_instance_id y = i) = (\<lambda>y. se_instance_id y = i \<and> se_step_id y = se_step_id e)" by auto
    then show ?thesis by (simp add: order_desc_filter executions_of_def)
  qed
  finally show ?thesis by (simp add: latest_by_step_def distinct_on_first latest_execution_def)
qed

lemma detail_success:
  assumes "fst (detail env db now i ok) = Inr (Some d)"
  obtains row def_row where "first_row (filter (\<lambda>row. wi_id row = i) (db_instances db)) = Some row"
    "first_row (filter (\<lambda>x. wd_id x = wi_definition_id row \<and> wd_version x = wi_definition_version row) (db_definitions db)) = Some def_row"
    "d = detail_of env db now row def_row (latest_by_step env db i) (if wi_status row = ''FAILED'' then failed_step env db i else None)
       (readExecutionContext env db i (if is_live row then wi_current_step_ids row else []))"
proof -
  obtain tr where b: "detail_body env db now i ok [] = (Some (Some d), tr)"
    using assms by (auto simp: detail_def split: prod.splits option.splits)
  then obtain row def_row us where row: "first_row (filter (\<lambda>row. wi_id row = i) (db_instances db)) = Some row"
    and d: "first_row (filter (\<lambda>x. wd_id x = wi_definition_id row \<and> wd_version x = wi_definition_version row) (db_definitions db)) = Some def_row"
    and r: "detail_reads env db now i row def_row ok us = (Some (Some d), tr)"
    unfolding detail_body_def by (auto elim!: andThen_cases simp: send_simp ret_simp split: if_splits option.splits)
  from r have "d = detail_of env db now row def_row (latest_by_step env db i) (if wi_status row = ''FAILED'' then failed_step env db i else None)
       (readExecutionContext env db i (if is_live row then wi_current_step_ids row else []))"
    unfolding detail_reads_def
    by (auto elim!: andThen_cases simp: send_simp ret_simp readExecutionContext_def split: if_splits)
  with row d show ?thesis by (rule that)
qed

text \<open>The overlay drawn on the diagram agrees with the execution history: for each step of the instance that was ever
  executed it has one entry, that of the latest attempt; token markers and the waiting reasons
  are given for an active or waiting instance and for no other, one reason per token.\<close>

theorem detail_overlay_exact:
  assumes "inj (collate env)" "fst (detail env db now i ok) = Inr (Some d)"
  shows "(\<forall>x s st n. (x, s, st, n) \<in> set (o_latestByStep (d_executionOverlay d)) \<longleftrightarrow>
      (\<exists>e. latest_execution env db i s = Some e \<and> x = se_id e \<and> st = se_status e \<and> n = se_attempt_number e)) \<and>
    distinct (map (\<lambda>(x, s, st, n). s) (o_latestByStep (d_executionOverlay d))) \<and>
    map ec_stepId (d_executionContext d) = o_currentTokenStepIds (d_executionOverlay d) \<and>
    (it_status (d_instance d) \<in> {''ACTIVE'', ''WAITING''} \<longrightarrow> o_currentTokenStepIds (d_executionOverlay d) = it_currentStepIds (d_instance d)) \<and>
    (it_status (d_instance d) \<notin> {''ACTIVE'', ''WAITING''} \<longrightarrow> o_currentTokenStepIds (d_executionOverlay d) = [])"
proof -
  obtain row def_row where d: "d = detail_of env db now row def_row (latest_by_step env db i)
      (if wi_status row = ''FAILED'' then failed_step env db i else None)
      (readExecutionContext env db i (if is_live row then wi_current_step_ids row else []))"
    using detail_success [OF assms(2)] by blast
  have l: "o_latestByStep (d_executionOverlay d) = map (\<lambda>e. (se_id e, se_step_id e, se_status e, se_attempt_number e)) (latest_by_step env db i)"
    by (simp add: d detail_of_def)
  have step: "latest_execution env db i s = Some e \<Longrightarrow> se_step_id e = s" for s e
    using latest_in [of env db i s e] by (simp add: executions_of_def)
  have "(x, s, st, n) \<in> set (o_latestByStep (d_executionOverlay d)) \<longleftrightarrow>
      (\<exists>e. latest_execution env db i s = Some e \<and> x = se_id e \<and> st = se_status e \<and> n = se_attempt_number e)" for x s st n
  proof
    assume "(x, s, st, n) \<in> set (o_latestByStep (d_executionOverlay d))"
    then obtain e where "e \<in> set (latest_by_step env db i)" "x = se_id e" "s = se_step_id e" "st = se_status e" "n = se_attempt_number e"
      unfolding l by auto
    then show "\<exists>e. latest_execution env db i s = Some e \<and> x = se_id e \<and> st = se_status e \<and> n = se_attempt_number e"
      using latest_by_step_iff [OF assms(1), of e db i] by auto
  next
    assume "\<exists>e. latest_execution env db i s = Some e \<and> x = se_id e \<and> st = se_status e \<and> n = se_attempt_number e"
    then obtain e where e: "latest_execution env db i s = Some e" "x = se_id e" "st = se_status e" "n = se_attempt_number e" by blast
    then have "e \<in> set (latest_by_step env db i)" using latest_by_step_iff [OF assms(1), of e db i] step [OF e(1)] by simp
    then show "(x, s, st, n) \<in> set (o_latestByStep (d_executionOverlay d))"
      unfolding l using e step [OF e(1)] by force
  qed
  moreover have "distinct (map (\<lambda>(x, s, st, n). s) (o_latestByStep (d_executionOverlay d)))"
    unfolding l using distinct_on_distinct [of se_step_id] by (simp add: latest_by_step_def comp_def)
  moreover have "map ec_stepId (readExecutionContext env db i ss) = ss" for ss
    by (simp add: readExecutionContext_def context_of_row_def EXECUTION_CONTEXT_SQL_def Let_def comp_def split: option.split)
      (induction ss, auto split: option.split)
  then have "map ec_stepId (d_executionContext d) = o_currentTokenStepIds (d_executionOverlay d)"
    by (simp add: d detail_of_def)
  moreover have "o_currentTokenStepIds (d_executionOverlay d) = (if is_live row then it_currentStepIds (d_instance d) else [])"
    "is_live row \<longleftrightarrow> it_status (d_instance d) \<in> {''ACTIVE'', ''WAITING''}"
    by (auto simp: d detail_of_def instance_item_of_def is_live_def)
  ultimately show ?thesis by simp
qed

text \<open>When no statement fails, an instance with its definition is found.\<close>

lemma detail_found:
  assumes "first_row (filter (\<lambda>row. wi_id row = i) (db_instances db)) = Some row"
    "first_row (filter (\<lambda>x. wd_id x = wi_definition_id row \<and> wd_version x = wi_definition_version row) (db_definitions db)) = Some def_row"
  shows "fst (detail env db now i (\<lambda>_ _. True)) =
    Inr (Some (detail_of env db now row def_row (latest_by_step env db i) (if wi_status row = ''FAILED'' then failed_step env db i else None)
       (readExecutionContext env db i (if is_live row then wi_current_step_ids row else []))))"
  by (simp add: detail_def detail_body_def detail_reads_def andThen_def send_def ret_def assms readExecutionContext_def)

definition sample_execution :: "string \<Rightarrow> int \<Rightarrow> string \<Rightarrow> execution_row" where
  "sample_execution x n st = \<lparr>se_id = x, se_instance_id = ''a'', se_step_id = ''check'', se_step_type = ''WAIT'', se_attempt_number = n,
     se_status = st, se_started_at = 1735689600000000, se_ended_at = None, se_failure_reason = None, se_input_snapshot = None,
     se_output_snapshot = None\<rparr>"

definition sample_history :: database where
  "sample_history = (sample_db [1735689600000000])
     \<lparr>db_definitions := [\<lparr>wd_id = ''loan'', wd_version = 1, wd_name = ''Loan'', wd_raw_json = []\<rparr>],
      db_executions := [sample_execution ''e1'' 1 ''FAILED'', sample_execution ''e2'' 2 ''RUNNING'']\<rparr>"

theorem detail_overlay_exact_witness:
  "\<exists>d. fst (detail sample_monitor sample_history 0 ''a'' (\<lambda>_ _. True)) = Inr (Some d) \<and>
     o_currentTokenStepIds (d_executionOverlay d) = [''check''] \<and>
     (''e2'', ''check'', ''RUNNING'', 2) \<in> set (o_latestByStep (d_executionOverlay d)) \<and>
     (''e1'', ''check'', ''FAILED'', 1) \<notin> set (o_latestByStep (d_executionOverlay d))"
proof -
  have inj: "inj (collate sample_monitor)" using sample_clock by (simp add: clock_laws_def)
  obtain d where d: "fst (detail sample_monitor sample_history 0 ''a'' (\<lambda>_ _. True)) = Inr (Some d)" "d_instance d = instance_item_of sample_monitor (sample_instance ''a'' 1735689600000000)"
  proof -
    have "first_row (filter (\<lambda>row. wi_id row = ''a'') (db_instances sample_history)) = Some (sample_instance ''a'' 1735689600000000)"
      by (simp add: sample_history_def sample_db_def first_row_def sample_instance_def)
    moreover have "first_row (filter (\<lambda>x. wd_id x = wi_definition_id (sample_instance ''a'' 1735689600000000) \<and>
        wd_version x = wi_definition_version (sample_instance ''a'' 1735689600000000)) (db_definitions sample_history)) =
        Some \<lparr>wd_id = ''loan'', wd_version = 1, wd_name = ''Loan'', wd_raw_json = []\<rparr>"
      by (simp add: sample_history_def first_row_def sample_instance_def)
    ultimately show ?thesis by (rule that [OF detail_found]) (simp add: detail_of_def)
  qed
  have "executions_of sample_history ''a'' ''check'' = [sample_execution ''e1'' 1 ''FAILED'', sample_execution ''e2'' 2 ''RUNNING'']"
    by (simp add: executions_of_def sample_history_def sample_execution_def)
  then have l: "latest_execution sample_monitor sample_history ''a'' ''check'' = Some (sample_execution ''e2'' 2 ''RUNNING'')"
    by (simp add: latest_execution_def order_desc_def attempt_key_def sample_execution_def first_row_def)
  note t = detail_overlay_exact [OF inj d(1)]
  have "it_status (d_instance d) = ''ACTIVE''" "it_currentStepIds (d_instance d) = [''check'']"
    by (simp_all add: d(2) instance_item_of_def sample_instance_def)
  with t have "o_currentTokenStepIds (d_executionOverlay d) = [''check'']" by simp
  moreover have "(''e2'', ''check'', ''RUNNING'', 2) \<in> set (o_latestByStep (d_executionOverlay d))"
    "(''e1'', ''check'', ''FAILED'', 1) \<notin> set (o_latestByStep (d_executionOverlay d))"
    using t l by (simp_all add: sample_execution_def)
  ultimately show ?thesis using d(1) by blast
qed

end
