(* ===== verification/Monitor_Diagram.thy ===== *)
theory Monitor_Diagram
  imports Import_Export Instance_Detail
begin

text \<open>
  The diagram and the timeline of an instance in the monitor's web application,
  \<^verbatim>\<open>workflow-monitor/src/ExecutionDiagram.tsx\<close> and \<^verbatim>\<open>ExecutionTimeline.tsx\<close>: the edges and the labels of the nodes, and the
  positions of the bars. A step of the definition arrives as a JSON object; the layout of the diagram is elkjs's.
\<close>

section \<open>Edges\<close>

type_synonym diagram_step = fields

record diagram_edge =
  dg_id :: string
  dg_source :: string
  dg_target :: string
  dg_sourceName :: string
  dg_targetName :: string
  dg_variant :: string

text \<open>The fields the interface \<^verbatim>\<open>DiagramStep\<close> types as texts.\<close>

definition text_field :: "diagram_step \<Rightarrow> string \<Rightarrow> string" where
  "text_field s k = (case map_get s k of Some (JStr v) \<Rightarrow> v | _ \<Rightarrow> [])"

definition step_by_id :: "diagram_step list \<Rightarrow> (string, diagram_step) omap" where
  "step_by_id ss = fold (\<lambda>s m. map_set (text_field s ''id'') s m) ss []"

definition addEdge :: "(string, diagram_step) omap \<Rightarrow> diagram_step \<Rightarrow> string \<Rightarrow> string \<Rightarrow> string \<Rightarrow> diagram_edge list" where
  "addEdge stepById source targetId variant disc =
     (case map_get stepById targetId of
        None \<Rightarrow> []
      | Some target \<Rightarrow>
          [\<lparr>dg_id = text_field source ''id'' @ ''--'' @ disc @ ''-->'' @ text_field target ''id'', dg_source = text_field source ''id'',
            dg_target = text_field target ''id'', dg_sourceName = text_field source ''name'', dg_targetName = text_field target ''name'',
            dg_variant = variant\<rparr>])"

definition next_edges :: "(string, diagram_step) omap \<Rightarrow> diagram_step \<Rightarrow> diagram_edge list" where
  "next_edges stepById s =
     (case map_get s ''nextStep'' of
        Some (JStr nx) \<Rightarrow>
          if nx = [] then []
          else let variant = (if text_field s ''type'' = ''JOIN_GATEWAY'' then ''join-out''
                    else if map_option (\<lambda>t. text_field t ''type'') (map_get stepById nx) = Some ''JOIN_GATEWAY'' then ''join-target''
                    else ''sequential'')
               in addEdge stepById s nx variant variant
      | _ \<Rightarrow> [])"

definition branch_edges :: "(string, diagram_step) omap \<Rightarrow> diagram_step \<Rightarrow> diagram_edge list" where
  "branch_edges stepById s =
     (if text_field s ''type'' = ''DECISION''
      then case map_get s ''conditionalNextSteps'' of
             Some v \<Rightarrow> concat (map (\<lambda>(expression, target). case target of
                         JStr i \<Rightarrow> addEdge stepById s i ''conditional'' (''conditional:'' @ expression) | _ \<Rightarrow> []) (json_entries v))
           | None \<Rightarrow> []
      else [])"

definition fork_edges :: "(string, diagram_step) omap \<Rightarrow> diagram_step \<Rightarrow> diagram_edge list" where
  "fork_edges stepById s =
     (if text_field s ''type'' = ''PARALLEL_GATEWAY''
      then case map_get s ''parallelNextSteps'' of
             Some (JArr ts) \<Rightarrow> concat (map (\<lambda>(i, target). case target of
                         JStr t \<Rightarrow> addEdge stepById s t ''parallel'' (''parallel:'' @ nat_str i) | _ \<Rightarrow> []) (indexed ts))
           | _ \<Rightarrow> []
      else [])"

definition timer_edges :: "(string, diagram_step) omap \<Rightarrow> diagram_step \<Rightarrow> diagram_edge list" where
  "timer_edges stepById s =
     (case map_get s ''boundaryEvents'' of
        Some (JArr evs) \<Rightarrow> concat (map (\<lambda>(i, ev). case json_prop ev ''targetStepId'' of
                         Some (JStr t) \<Rightarrow> addEdge stepById s t ''boundary'' (''boundary:'' @ nat_str i) | _ \<Rightarrow> []) (indexed evs))
      | _ \<Rightarrow> [])"

definition buildEdges :: "diagram_step list \<Rightarrow> diagram_edge list" where
  "buildEdges ss =
     (let stepById = step_by_id ss in
      concat (map (\<lambda>s. next_edges stepById s @ branch_edges stepById s @ fork_edges stepById s @ timer_edges stepById s) ss))"

section \<open>Nodes\<close>

record node_view =
  nv_label :: string
  nv_visualState :: string
  nv_class :: string

definition int_text :: "int \<Rightarrow> string" where
  "int_text n = (if n < 0 then ''-'' @ nat_str (nat (- n)) else nat_str (nat n))"

definition node_execution :: "overlay \<Rightarrow> string \<Rightarrow> (string \<times> string \<times> string \<times> int) option" where
  "node_execution ov i = find (\<lambda>(_, stepId, _, _). stepId = i) (o_latestByStep ov)"

text \<open>The dots of the visual label are U+00B7; \<open>to_lower_text\<close> is \<^verbatim>\<open>toLowerCase\<close>.\<close>

definition node_view_of :: "(string \<Rightarrow> string) \<Rightarrow> overlay \<Rightarrow> diagram_step \<Rightarrow> node_view" where
  "node_view_of to_lower_text ov s =
     (let i = text_field s ''id''; name = text_field s ''name''; isCurrent = (i \<in> set (o_currentTokenStepIds ov));
          isFailed = (o_failedStepId ov = Some i); execution = node_execution ov i;
          stateLabel = (if isFailed then Some (''Failed marker'' @ (case execution of Some (_, _, _, n) \<Rightarrow> '', attempt '' @ int_text n | None \<Rightarrow> []))
            else if isCurrent then Some (''Current Token Position'' @
                (case execution of Some (_, _, st, n) \<Rightarrow> '', '' @ st @ '', attempt '' @ int_text n | None \<Rightarrow> []))
            else map_option (\<lambda>(_, _, st, n). st @ '', attempt '' @ int_text n) execution)
      in \<lparr>nv_label = (case stateLabel of Some l \<Rightarrow> name @ '', '' @ l | None \<Rightarrow> name),
          nv_visualState = (case execution of Some (_, _, st, n) \<Rightarrow> st @ '' '' @ [CHR 0xB7] @ '' attempt '' @ int_text n
            | None \<Rightarrow> if isFailed then ''Failed'' else if isCurrent then ''Current Token Position'' else text_field s ''type''),
          nv_class = (if isFailed then ''failed'' else if isCurrent then ''current''
            else (case execution of Some (_, _, st, _) \<Rightarrow> to_lower_text st | None \<Rightarrow> ''idle''))\<rparr>)"

section \<open>The timeline\<close>

record timeline_execution =
  te_id :: string
  te_stepId :: string
  te_attemptNumber :: int
  te_status :: string
  te_startedAt :: int
  te_endedAt :: "int option"

text \<open>Times are given as what \<^verbatim>\<open>Date.parse\<close> makes of them: the texts are those of \<^verbatim>\<open>toISOString\<close>.\<close>

definition timeline_sorted :: "timeline_execution list \<Rightarrow> timeline_execution list" where
  "timeline_sorted es = sort_key (\<lambda>e. (te_startedAt e, te_id e)) es"

definition timeline_end :: "int \<Rightarrow> bool \<Rightarrow> timeline_execution \<Rightarrow> int option" where
  "timeline_end observedAt active e =
     (case te_endedAt e of Some t \<Rightarrow> Some t | None \<Rightarrow> if active \<and> te_status e = ''RUNNING'' then Some observedAt else None)"

definition timeline_first :: "timeline_execution list \<Rightarrow> int" where
  "timeline_first es = Min (te_startedAt ` set es)"

definition timeline_last :: "int \<Rightarrow> bool \<Rightarrow> timeline_execution list \<Rightarrow> int" where
  "timeline_last observedAt active es =
     Max ((\<lambda>e. case timeline_end observedAt active e of Some t \<Rightarrow> t | None \<Rightarrow> te_startedAt e) ` set es)"

definition timeline_duration :: "int \<Rightarrow> bool \<Rightarrow> timeline_execution \<Rightarrow> int option" where
  "timeline_duration observedAt active e =
     map_option (\<lambda>t. max 0 (t - te_startedAt e)) (timeline_end observedAt active e)"

text \<open>The margin and the width of the bar of an execution, in percent of the track.\<close>

definition timeline_bar :: "int \<Rightarrow> bool \<Rightarrow> timeline_execution list \<Rightarrow> timeline_execution \<Rightarrow> rat \<times> rat" where
  "timeline_bar observedAt active es e =
     (let first = timeline_first es; span = max 1 (timeline_last observedAt active es - first);
          duration = (case timeline_duration observedAt active e of Some t \<Rightarrow> t | None \<Rightarrow> 0)
      in (max 0 (of_int (te_startedAt e - first) / of_int span * 100), max (3 / 10) (of_int duration / of_int span * 100)))"

section \<open>A definition as JSON\<close>

definition opt_field :: "string \<Rightarrow> ('a \<Rightarrow> json) \<Rightarrow> 'a option \<Rightarrow> fields" where
  "opt_field k f v = (case v of None \<Rightarrow> [] | Some x \<Rightarrow> [(k, f x)])"

definition event_json :: "boundary_event \<Rightarrow> json" where
  "event_json ev = JObj ([(''type'', JStr (evt_type ev)), (''duration'', JStr (evt_duration ev)), (''interrupting'', JBool (evt_interrupting ev)),
     (''targetStepId'', JStr (evt_targetStepId ev))] @ evt_extra ev)"

definition events_field :: "boundary_event list option \<Rightarrow> fields" where
  "events_field evs = opt_field ''boundaryEvents'' (\<lambda>es. JArr (map event_json es)) evs"

definition rule_json :: "decision_table_rule \<Rightarrow> json" where
  "rule_json r = JObj ([(''when'', JObj (map (\<lambda>(k, v). (k, JStr v)) (rule_when r)))] @ opt_field ''outputs'' JObj (rule_outputs r) @ rule_extra r)"

definition common_fields :: "step_type \<Rightarrow> step_common \<Rightarrow> fields" where
  "common_fields t c = [(''id'', JStr (c_id c)), (''name'', JStr (c_name c)), (''type'', JStr (type_text t))] @ opt_field ''description'' JStr (c_description c)"

text \<open>What \<^verbatim>\<open>JSON.stringify\<close> writes for a step of the modeller: the keys of its schema, then the passthrough ones.\<close>

fun own_fields :: "step \<Rightarrow> fields" where
  "own_fields (ServiceTask c nx jt dc rc evs) = opt_field ''nextStep'' JStr nx @ opt_field ''jobType'' JStr jt @ opt_field ''delegateClass'' JStr dc @
     opt_field ''retryCount'' (\<lambda>n. JNum (of_nat n)) rc @ events_field evs"
| "own_fields (step.UserTask c nx jt evs) = opt_field ''nextStep'' JStr nx @ opt_field ''jobType'' JStr jt @ events_field evs"
| "own_fields (Decision c branches) = [(''conditionalNextSteps'', JObj (map (\<lambda>(k, v). (k, JStr v)) branches))]"
| "own_fields (DecisionTable c hp nx tbl) = opt_field ''hitPolicy'' JStr hp @ [(''nextStep'', JStr nx),
     (''decisionTable'', JObj ([(''rules'', JArr (map rule_json (tbl_rules tbl)))] @ tbl_extra tbl))]"
| "own_fields (Transformation c nx ts) = [(''nextStep'', JStr nx), (''transformations'', JObj ts)]"
| "own_fields (Wait c nx evs) = [(''nextStep'', JStr nx)] @ events_field evs"
| "own_fields (ParallelGateway c ts j) = [(''parallelNextSteps'', JArr (map JStr ts)), (''joinStep'', JStr j)]"
| "own_fields (JoinGateway c nx) = [(''nextStep'', JStr nx)]"
| "own_fields (End c) = []"

definition step_json :: "step \<Rightarrow> fields" where
  "step_json s = common_fields (type_of s) (common s) @ own_fields s @ step_extra s"

section \<open>The diagram shows the canvas\<close>

text \<open>What the passthrough fields of a step are: the fields that its schema does not name.\<close>

definition passthrough_ok :: "workflow_definition \<Rightarrow> bool" where
  "passthrough_ok d \<longleftrightarrow> list_all (\<lambda>s. set (map_keys (step_extra s)) \<inter> set (KNOWN_STEP_KEYS (type_of s)) = {}) (steps d)"

text \<open>The diagram reads two fields of every step, whatever its type: the edges it draws for a passthrough \<^verbatim>\<open>nextStep\<close>
  and for passthrough \<^verbatim>\<open>boundaryEvents\<close>, which the modeller does not know as edges.\<close>

definition foreign_target :: "workflow_definition \<Rightarrow> json option \<Rightarrow> string list" where
  "foreign_target d v = (case v of Some (JStr t) \<Rightarrow> if t \<in> set (step_ids d) then [t] else [] | _ \<Rightarrow> [])"

definition foreign_next :: "workflow_definition \<Rightarrow> step \<Rightarrow> (string \<times> string \<times> string) list" where
  "foreign_next d s = map (\<lambda>t. (step_id s, t, if map_option type_of (map_get (indexSteps d) t) = Some JOIN_GATEWAY then ''join-target'' else ''sequential''))
     (foreign_target d (map_get (step_extra s) ''nextStep''))"

definition foreign_timers :: "workflow_definition \<Rightarrow> step \<Rightarrow> (string \<times> string \<times> string) list" where
  "foreign_timers d s =
     (case map_get (step_extra s) ''boundaryEvents'' of
        Some (JArr evs) \<Rightarrow> map (\<lambda>t. (step_id s, t, ''boundary'')) (concat (map (\<lambda>ev. foreign_target d (json_prop ev ''targetStepId'')) evs))
      | _ \<Rightarrow> [])"

lemma map_get_append: "map_get (a @ b) k = (case map_get a k of Some v \<Rightarrow> Some v | None \<Rightarrow> map_get b k)"
  by (induction a) (auto simp: map_get_def)

lemma map_get_opt_field: "map_get (opt_field k f v) k' = (if k' = k then map_option f v else None)"
  by (cases v) (simp_all add: opt_field_def)

lemmas json_fields = map_get_append map_get_opt_field common_fields_def events_field_def

lemma step_json_common [simp]:
  "text_field (step_json s) ''id'' = step_id s" "text_field (step_json s) ''name'' = step_name s"
  "text_field (step_json s) ''type'' = type_text (type_of s)"
  by (simp_all add: text_field_def step_json_def common_fields_def)

lemma type_text_inj: "type_text a = type_text b \<longleftrightarrow> a = b"
  by (cases a; cases b) simp_all

lemma step_json_get:
  assumes "k \<in> {''nextStep'', ''conditionalNextSteps'', ''parallelNextSteps'', ''boundaryEvents''}"
  shows "map_get (step_json s) k = (case map_get (own_fields s) k of Some v \<Rightarrow> Some v | None \<Rightarrow> map_get (step_extra s) k)"
proof -
  have "map_get (common_fields (type_of s) (common s)) k = None" using assms(1) by (auto simp: json_fields)
  then show ?thesis by (simp add: step_json_def map_get_append)
qed

text \<open>The index of the diagram is that of the modeller.\<close>

lemma step_by_id_get: "map_get (step_by_id (map step_json (steps d))) i = map_option step_json (map_get (indexSteps d) i)"
proof -
  have "find (\<lambda>x. text_field x ''id'' = i) (map step_json ss) = map_option step_json (find (\<lambda>s. step_id s = i) ss)" for ss
    by (induction ss) auto
  then show ?thesis
    by (simp add: step_by_id_def omap.get_fold_set indexSteps_get rev_map split: option.split)
qed

definition ends_of :: "diagram_edge \<Rightarrow> string \<times> string \<times> string" where
  "ends_of e = (dg_source e, dg_target e, dg_variant e)"

definition join_target :: "workflow_definition \<Rightarrow> string \<Rightarrow> bool" where
  "join_target d i \<longleftrightarrow> map_option type_of (map_get (indexSteps d) i) = Some JOIN_GATEWAY"

text \<open>The variant the diagram gives to an edge of the canvas.\<close>

definition shown_variant :: "workflow_definition \<Rightarrow> graph_edge \<Rightarrow> string" where
  "shown_variant d e = (if e_variant e = Sequential \<and> join_target d (e_to e) then ''join-target'' else variant_kind (e_variant e))"

abbreviation diagram_index :: "workflow_definition \<Rightarrow> (string, diagram_step) omap" where
  "diagram_index d \<equiv> step_by_id (map step_json (steps d))"

lemma addEdge_ends:
  assumes "t \<in> set (step_ids d)"
  shows "map ends_of (addEdge (diagram_index d) (step_json s) t v disc) = [(step_id s, t, v)]"
proof -
  have "map_get (indexSteps d) t \<noteq> None" using assms indexSteps_has [of d t] unfolding map_has_def by blast
  then obtain x where x: "map_get (indexSteps d) t = Some x" by blast
  with indexSteps_getD [OF x] show ?thesis by (simp add: addEdge_def step_by_id_get ends_of_def)
qed

lemma addEdge_none: "t \<notin> set (step_ids d) \<Longrightarrow> addEdge (diagram_index d) x t v disc = []"
  using indexSteps_has [of d t] by (simp add: addEdge_def step_by_id_get map_has_def)

lemma next_edges_ends:
  assumes "map_get (step_json s) ''nextStep'' = Some (JStr nx)" "nx \<noteq> []" "nx \<in> set (step_ids d)"
  shows "map ends_of (next_edges (diagram_index d) (step_json s)) =
    [(step_id s, nx, if type_of s = JOIN_GATEWAY then ''join-out'' else if join_target d nx then ''join-target'' else ''sequential'')]"
proof -
  have "map_option (\<lambda>t. text_field t ''type'') (map_get (diagram_index d) nx) = Some ''JOIN_GATEWAY'' \<longleftrightarrow> join_target d nx"
    using type_text_inj [of _ JOIN_GATEWAY] by (auto simp: step_by_id_get join_target_def)
  moreover have "type_text (type_of s) = ''JOIN_GATEWAY'' \<longleftrightarrow> type_of s = JOIN_GATEWAY" using type_text_inj [of _ JOIN_GATEWAY] by simp
  ultimately show ?thesis using assms by (simp add: next_edges_def Let_def addEdge_ends)
qed

lemma timer_edges_ends:
  assumes "map_get (step_json s) ''boundaryEvents'' = map_option (\<lambda>es. JArr (map event_json es)) evs" "set (boundary_refs evs) \<subseteq> set (step_ids d)"
  shows "map ends_of (timer_edges (diagram_index d) (step_json s)) = map (\<lambda>e. (e_from e, e_to e, shown_variant d e)) (pushBoundaryEdges (step_id s) evs)"
proof (cases evs)
  case (Some es)
  have "json_prop (event_json ev) ''targetStepId'' = Some (JStr (evt_targetStepId ev))" for ev by (simp add: event_json_def json_prop_def)
  moreover have "evt_targetStepId ev \<in> set (step_ids d)" if "(i, ev) \<in> set (indexed es)" for i ev
    using that assms(2) Some by (auto simp: boundary_refs_def set_indexed)
  ultimately have "map ends_of (concat (map (\<lambda>(i, ev). case json_prop ev ''targetStepId'' of
        Some (JStr t) \<Rightarrow> addEdge (diagram_index d) (step_json s) t ''boundary'' (''boundary:'' @ nat_str i) | _ \<Rightarrow> []) (map (\<lambda>(i, x). (i, event_json x)) ps))) =
      map (\<lambda>(i, ev). (step_id s, evt_targetStepId ev, ''boundary'')) ps" if "set ps \<subseteq> set (indexed es)" for ps
    using that by (induction ps) (auto simp: addEdge_ends)
  from this [OF subset_refl] show ?thesis
    by (simp add: timer_edges_def assms(1) Some pushBoundaryEdges_def indexed_map shown_variant_def comp_def split_def)
qed (simp add: timer_edges_def assms(1) pushBoundaryEdges_def)

lemma concat_ends: "(\<And>x. x \<in> set xs \<Longrightarrow> map ends_of (g x) = [h x]) \<Longrightarrow> map ends_of (concat (map g xs)) = map h xs"
  by (induction xs) simp_all

lemma branch_edges_ends:
  assumes "type_of s = DECISION" "map_get (step_json s) ''conditionalNextSteps'' = Some (JObj (map (\<lambda>(k, v). (k, JStr v)) branches))"
    and "snd ` set branches \<subseteq> set (step_ids d)"
  shows "map ends_of (branch_edges (diagram_index d) (step_json s)) = map (\<lambda>kv. (step_id s, snd kv, ''conditional'')) branches"
proof -
  have eq: "branch_edges (diagram_index d) (step_json s) =
      concat (map (\<lambda>kv. addEdge (diagram_index d) (step_json s) (snd kv) ''conditional'' (''conditional:'' @ fst kv)) branches)"
    using assms(1,2) by (simp add: branch_edges_def comp_def split_def)
  show ?thesis unfolding eq by (rule concat_ends, rule addEdge_ends) (use assms(3) in auto)
qed

lemma fork_edges_ends:
  assumes "type_of s = PARALLEL_GATEWAY" "map_get (step_json s) ''parallelNextSteps'' = Some (JArr (map JStr ts))" "set ts \<subseteq> set (step_ids d)"
  shows "map ends_of (fork_edges (diagram_index d) (step_json s)) = map (\<lambda>p. (step_id s, snd p, ''parallel'')) (indexed ts)"
proof -
  have eq: "fork_edges (diagram_index d) (step_json s) =
      concat (map (\<lambda>p. addEdge (diagram_index d) (step_json s) (snd p) ''parallel'' (''parallel:'' @ nat_str (fst p))) (indexed ts))"
    using assms(1,2) by (simp add: fork_edges_def comp_def split_def indexed_map)
  show ?thesis unfolding eq by (rule concat_ends, rule addEdge_ends) (use assms(3) in \<open>auto simp: set_indexed\<close>)
qed

lemma type_text_eq [simp]:
  "type_text t = ''DECISION'' \<longleftrightarrow> t = DECISION" "type_text t = ''PARALLEL_GATEWAY'' \<longleftrightarrow> t = PARALLEL_GATEWAY"
  using type_text_inj [of t DECISION] type_text_inj [of t PARALLEL_GATEWAY] by simp_all

lemma no_edges:
  "map_get (step_json s) ''nextStep'' = None \<Longrightarrow> next_edges m (step_json s) = []"
  "type_of s \<noteq> DECISION \<Longrightarrow> branch_edges m (step_json s) = []"
  "type_of s \<noteq> PARALLEL_GATEWAY \<Longrightarrow> fork_edges m (step_json s) = []"
  "map_get (step_json s) ''boundaryEvents'' = None \<Longrightarrow> timer_edges m (step_json s) = []"
  by (simp_all add: next_edges_def branch_edges_def fork_edges_def timer_edges_def)

definition shown_edge :: "workflow_definition \<Rightarrow> graph_edge \<Rightarrow> string \<times> string \<times> string" where
  "shown_edge d e = (e_from e, e_to e, shown_variant d e)"

lemma opt_next_ends:
  assumes "map_get (step_json s) ''nextStep'' = map_option JStr nx" "type_of s \<noteq> JOIN_GATEWAY" "truthy nx \<Longrightarrow> the nx \<in> set (step_ids d)"
  shows "map ends_of (next_edges (diagram_index d) (step_json s)) =
    map (shown_edge d) (if truthy nx then [makeEdge (step_id s) (the nx) Sequential] else [])"
proof (cases nx)
  case (Some t)
  show ?thesis
  proof (cases "t = []")
    case False
    with assms Some have "map ends_of (next_edges (diagram_index d) (step_json s)) =
        [(step_id s, t, if join_target d t then ''join-target'' else ''sequential'')]"
      by (subst next_edges_ends [where nx = t]) auto
    with False Some show ?thesis by (simp add: shown_edge_def shown_variant_def)
  qed (use assms(1) Some in \<open>simp add: next_edges_def\<close>)
qed (use assms(1) in \<open>simp add: no_edges\<close>)

lemma foreign_next_ends:
  assumes "map_get (step_json s) ''nextStep'' = map_get (step_extra s) ''nextStep''" "type_of s \<noteq> JOIN_GATEWAY" "'''' \<notin> set (step_ids d)"
  shows "map ends_of (next_edges (diagram_index d) (step_json s)) = foreign_next d s"
proof -
  consider nx where "map_get (step_extra s) ''nextStep'' = Some (JStr nx)" "nx \<in> set (step_ids d)"
    | nx where "map_get (step_extra s) ''nextStep'' = Some (JStr nx)" "nx \<notin> set (step_ids d)"
    | "\<forall>nx. map_get (step_extra s) ''nextStep'' \<noteq> Some (JStr nx)" by blast
  then show ?thesis
  proof cases
    case (1 nx)
    moreover from this assms(3) have "nx \<noteq> []" by blast
    ultimately show ?thesis
      using next_edges_ends [of s nx d] assms(1,2) by (simp add: foreign_next_def foreign_target_def join_target_def)
  next
    case (2 nx)
    then show ?thesis using assms(1) by (simp add: next_edges_def foreign_next_def foreign_target_def addEdge_none Let_def)
  next
    case 3
    then show ?thesis
      using assms(1) by (auto simp: next_edges_def foreign_next_def foreign_target_def split: option.split json.split)
  qed
qed

lemma foreign_timers_ends:
  assumes "map_get (step_json s) ''boundaryEvents'' = map_get (step_extra s) ''boundaryEvents''"
  shows "map ends_of (timer_edges (diagram_index d) (step_json s)) = foreign_timers d s"
proof -
  have one: "map ends_of (case json_prop ev ''targetStepId'' of
        Some (JStr t) \<Rightarrow> addEdge (diagram_index d) (step_json s) t ''boundary'' (disc i) | _ \<Rightarrow> []) =
      map (\<lambda>t. (step_id s, t, ''boundary'')) (foreign_target d (json_prop ev ''targetStepId''))" for ev i and disc :: "nat \<Rightarrow> string"
    by (auto simp: foreign_target_def addEdge_ends addEdge_none split: option.split json.split)
  have all: "map ends_of (concat (map (\<lambda>(i, ev). case json_prop ev ''targetStepId'' of
        Some (JStr t) \<Rightarrow> addEdge (diagram_index d) (step_json s) t ''boundary'' (disc i) | _ \<Rightarrow> []) ps)) =
      map (\<lambda>t. (step_id s, t, ''boundary'')) (concat (map (\<lambda>ev. foreign_target d (json_prop ev ''targetStepId'')) (map snd ps)))"
    for ps and disc :: "nat \<Rightarrow> string"
    by (induction ps) (use one in auto)
  show ?thesis
  proof (cases "\<exists>evs. map_get (step_extra s) ''boundaryEvents'' = Some (JArr evs)")
    case True
    then obtain evs where evs: "map_get (step_extra s) ''boundaryEvents'' = Some (JArr evs)" by blast
    show ?thesis
      unfolding timer_edges_def foreign_timers_def assms evs option.case json.case
      using all [of "\<lambda>i. ''boundary:'' @ nat_str i" "indexed evs"] unfolding map_snd_indexed .
  qed (auto simp: timer_edges_def foreign_timers_def assms split: option.split json.split)
qed

text \<open>One step: the diagram draws what the canvas draws, and the edges of the passthrough fields.\<close>

lemma step_edges_shown:
  assumes "set (map_keys (step_extra s)) \<inter> set (KNOWN_STEP_KEYS (type_of s)) = {}" "'''' \<notin> set (step_ids d)"
    and "\<And>e. e \<in> set (pushStepEdges s) \<Longrightarrow> e_to e \<in> set (step_ids d) \<and> e_to e \<noteq> []"
  shows "map ends_of (next_edges (diagram_index d) (step_json s) @ branch_edges (diagram_index d) (step_json s) @
      fork_edges (diagram_index d) (step_json s) @ timer_edges (diagram_index d) (step_json s)) =
    foreign_next d s @ map (shown_edge d) (pushStepEdges s) @ foreign_timers d s"
proof -
  let ?fields = "{''nextStep'', ''conditionalNextSteps'', ''parallelNextSteps'', ''boundaryEvents''}"
  have own: "map_get (step_json s) k = map_get (own_fields s) k" "map_get (step_extra s) k = None"
    if "k \<in> ?fields" "k \<in> set (KNOWN_STEP_KEYS (type_of s))" for k
  proof -
    have "k \<notin> set (map_keys (step_extra s))" using that(2) assms(1) by blast
    then show e: "map_get (step_extra s) k = None" by (simp add: map_keys_get)
    show "map_get (step_json s) k = map_get (own_fields s) k"
      using step_json_get [OF that(1), of s] e by (simp split: option.split)
  qed
  have foreign: "map_get (step_json s) k = map_get (step_extra s) k" if "k \<in> ?fields" "map_get (own_fields s) k = None" for k
    using step_json_get [OF that(1), of s] that(2) by simp
  have no_next: "foreign_next d s = []" if "''nextStep'' \<in> set (KNOWN_STEP_KEYS (type_of s))"
    using own(2) [OF _ that] by (simp add: foreign_next_def foreign_target_def)
  have no_timers: "foreign_timers d s = []" if "''boundaryEvents'' \<in> set (KNOWN_STEP_KEYS (type_of s))"
    using own(2) [OF _ that] by (simp add: foreign_timers_def)
  have next_ends: "map ends_of (next_edges (diagram_index d) (step_json s)) = foreign_next d s"
    if "map_get (own_fields s) ''nextStep'' = None" "type_of s \<noteq> JOIN_GATEWAY"
    using foreign_next_ends [OF _ that(2) assms(2)] foreign that(1) by blast
  have timer_ends: "map ends_of (timer_edges (diagram_index d) (step_json s)) = foreign_timers d s"
    if "map_get (own_fields s) ''boundaryEvents'' = None" using foreign_timers_ends foreign that by blast
  have own_next: "map ends_of (next_edges (diagram_index d) (step_json s)) =
      map (shown_edge d) (if truthy nx then [makeEdge (step_id s) (the nx) Sequential] else [])"
    if "''nextStep'' \<in> set (KNOWN_STEP_KEYS (type_of s))" "map_get (own_fields s) ''nextStep'' = map_option JStr nx"
      "type_of s \<noteq> JOIN_GATEWAY" "truthy nx \<Longrightarrow> makeEdge (step_id s) (the nx) Sequential \<in> set (pushStepEdges s)" for nx
    using that own(1) [OF _ that(1)] assms(3) [of "makeEdge (step_id s) (the nx) Sequential"] by (intro opt_next_ends) auto
  have own_timers: "map ends_of (timer_edges (diagram_index d) (step_json s)) = map (shown_edge d) (pushBoundaryEdges (step_id s) evs)"
    if "''boundaryEvents'' \<in> set (KNOWN_STEP_KEYS (type_of s))"
      "map_get (own_fields s) ''boundaryEvents'' = map_option (\<lambda>es. JArr (map event_json es)) evs"
      "set (pushBoundaryEdges (step_id s) evs) \<subseteq> set (pushStepEdges s)" for evs
  proof -
    have "set (map e_to (pushBoundaryEdges (step_id s) evs)) \<subseteq> set (step_ids d)" using that(3) assms(3) by auto
    then have "set (boundary_refs evs) \<subseteq> set (step_ids d)" by (simp only: boundary_edges_to)
    with timer_edges_ends [of s evs d] that(2) own(1) [OF _ that(1)] show ?thesis by (simp add: shown_edge_def [abs_def])
  qed
  have to: "set (map e_to (pushStepEdges s)) \<subseteq> set (step_ids d)" using assms(3) by auto
  show ?thesis
  proof (cases s)
    case (ServiceTask c nx jt dc rc evs)
    have "map ends_of (next_edges (diagram_index d) (step_json s)) =
        map (shown_edge d) (if truthy nx then [makeEdge (step_id s) (the nx) Sequential] else [])"
      by (rule own_next) (simp_all add: ServiceTask json_fields split: option.split)
    moreover have "map ends_of (timer_edges (diagram_index d) (step_json s)) = map (shown_edge d) (pushBoundaryEdges (step_id s) evs)"
      by (rule own_timers) (simp_all add: ServiceTask json_fields split: option.split)
    ultimately show ?thesis using no_next no_timers by (simp add: no_edges ServiceTask)
  next
    case (UserTask c nx jt evs)
    have "map ends_of (next_edges (diagram_index d) (step_json s)) =
        map (shown_edge d) (if truthy nx then [makeEdge (step_id s) (the nx) Sequential] else [])"
      by (rule own_next) (simp_all add: UserTask json_fields split: option.split)
    moreover have "map ends_of (timer_edges (diagram_index d) (step_json s)) = map (shown_edge d) (pushBoundaryEdges (step_id s) evs)"
      by (rule own_timers) (simp_all add: UserTask json_fields split: option.split)
    ultimately show ?thesis using no_next no_timers by (simp add: no_edges UserTask)
  next
    case (Wait c nx evs)
    have "map ends_of (next_edges (diagram_index d) (step_json s)) =
        map (shown_edge d) (if truthy (Some nx) then [makeEdge (step_id s) (the (Some nx)) Sequential] else [])"
      by (rule own_next) (simp_all add: Wait json_fields split: option.split)
    moreover have "map ends_of (timer_edges (diagram_index d) (step_json s)) = map (shown_edge d) (pushBoundaryEdges (step_id s) evs)"
      by (rule own_timers) (auto simp: Wait json_fields split: option.split)
    ultimately show ?thesis
      using no_next no_timers assms(3) [of "makeEdge (c_id c) nx Sequential"] by (simp add: no_edges Wait)
  next
    case (Decision c bs)
    have "map e_to (pushStepEdges s) = map snd bs" by (simp add: Decision comp_def split_def)
    with to have "snd ` set bs \<subseteq> set (step_ids d)" by (metis set_map)
    moreover have "map_get (step_json s) ''conditionalNextSteps'' = Some (JObj (map (\<lambda>(k, v). (k, JStr v)) bs))"
      using own(1) [of "''conditionalNextSteps''"] by (simp add: Decision)
    ultimately have "map ends_of (branch_edges (diagram_index d) (step_json s)) = map (\<lambda>kv. (step_id s, snd kv, ''conditional'')) bs"
      by (intro branch_edges_ends) (simp_all add: Decision)
    with next_ends timer_ends Decision show ?thesis
      by (simp add: no_edges json_fields shown_edge_def shown_variant_def split_def)
  next
    case (ParallelGateway c ts j)
    have "map e_to (pushStepEdges s) = ts" by (simp add: ParallelGateway comp_def split_def)
    with to have "set ts \<subseteq> set (step_ids d)" by (simp only:)
    moreover have "map_get (step_json s) ''parallelNextSteps'' = Some (JArr (map JStr ts))"
      using own(1) [of "''parallelNextSteps''"] by (simp add: ParallelGateway)
    ultimately have "map ends_of (fork_edges (diagram_index d) (step_json s)) = map (\<lambda>p. (step_id s, snd p, ''parallel'')) (indexed ts)"
      by (intro fork_edges_ends) (simp_all add: ParallelGateway)
    with next_ends timer_ends ParallelGateway show ?thesis
      by (simp add: no_edges json_fields shown_edge_def shown_variant_def split_def)
  next
    case (JoinGateway c nx)
    have "map_get (step_json s) ''nextStep'' = Some (JStr nx)" using own(1) [of "''nextStep''"] by (simp add: JoinGateway)
    then have "map ends_of (next_edges (diagram_index d) (step_json s)) = [(step_id s, nx, ''join-out'')]"
      using next_edges_ends [of s nx d] assms(3) [of "makeEdge (c_id c) nx JoinOut"] by (simp add: JoinGateway)
    with no_next timer_ends JoinGateway show ?thesis
      by (simp add: no_edges json_fields shown_edge_def shown_variant_def)
  next
    case (Transformation c nx ts)
    have "map ends_of (next_edges (diagram_index d) (step_json s)) =
        map (shown_edge d) (if truthy (Some nx) then [makeEdge (step_id s) (the (Some nx)) Sequential] else [])"
      by (rule own_next) (simp_all add: Transformation json_fields)
    with no_next timer_ends Transformation assms(3) [of "makeEdge (c_id c) nx Sequential"] show ?thesis
      by (simp add: no_edges json_fields)
  next
    case (DecisionTable c hp nx tbl)
    have "map ends_of (next_edges (diagram_index d) (step_json s)) =
        map (shown_edge d) (if truthy (Some nx) then [makeEdge (step_id s) (the (Some nx)) Sequential] else [])"
      by (rule own_next) (simp_all add: DecisionTable json_fields)
    with no_next timer_ends DecisionTable assms(3) [of "makeEdge (c_id c) nx Sequential"] show ?thesis
      by (simp add: no_edges json_fields)
  next
    case (End c)
    with next_ends timer_ends show ?thesis by (simp add: no_edges json_fields)
  qed
qed

lemma valid_edge_targets:
  assumes "errors (validate d) = []" "e \<in> set (toEdges d)"
  shows "e_to e \<in> set (step_ids d) \<and> e_to e \<noteq> []"
proof -
  have v: "valid_definition d" using assms(1) by (simp add: valid_iff)
  obtain s where s: "s \<in> set (steps d)" "e \<in> set (pushStepEdges s)" using assms(2) by (auto simp: toEdges_def)
  have shape: "shape_ok s" and refs: "refs_ok d s" using v s(1) by (simp_all add: valid_definition_def)
  from shape have "\<forall>c hp tbl. s \<noteq> DecisionTable c hp '''' tbl" by auto
  then have "map e_to (pushStepEdges s) = allOutgoing s" by (rule canvas_step_edges)
  with s(2) have "e_to e \<in> set (allOutgoing s)" by (metis image_eqI set_map)
  with refs have i: "e_to e \<in> set (step_ids d)" by (auto simp: refs_ok_def)
  then obtain x where "x \<in> set (steps d)" "step_id x = e_to e" by auto
  with v have "\<not> blank (e_to e)" by (auto simp: valid_definition_def)
  then have "e_to e \<noteq> []" by (auto simp: blank_def)
  with i show ?thesis by blast
qed

lemma valid_ids_nonempty:
  assumes "errors (validate d) = []" shows "'''' \<notin> set (step_ids d)"
proof -
  have "\<forall>s \<in> set (steps d). \<not> blank (step_id s)" using assms by (simp add: valid_iff valid_definition_def)
  moreover have "blank ''''" by (simp add: blank_def trim_def)
  ultimately show ?thesis by (metis (no_types, lifting) imageE list.set_map)
qed

text \<open>C38. The monitor draws the workflow the modeller drew: for a definition without errors the edges of the execution
  diagram, built from the definition's JSON, are step by step and in order the edges of the modeller's canvas, with the
  same ends; the kinds agree too, except that a plain edge into a join is shown as such. To these the diagram adds, for
  a step whose schema does not have the field \<^verbatim>\<open>nextStep\<close> or \<^verbatim>\<open>boundaryEvents\<close> but which carries one as a passthrough
  field, an edge to every step that it names, before and after the edges of the step; a definition without such fields
  gets the edges of the canvas and no other.\<close>

theorem diagram_matches_canvas:
  assumes "errors (validate d) = []" "passthrough_ok d"
    and "shown = (\<lambda>e. (e_from e, e_to e, if e_variant e = Sequential \<and> join_target d (e_to e) then ''join-target'' else variant_kind (e_variant e)))"
  shows "map ends_of (buildEdges (map step_json (steps d))) =
      concat (map (\<lambda>s. foreign_next d s @ map shown (pushStepEdges s) @ foreign_timers d s) (steps d)) \<and>
    ((\<forall>s \<in> set (steps d). set (map_keys (step_extra s)) \<inter> {''nextStep'', ''boundaryEvents''} = {}) \<longrightarrow>
      map ends_of (buildEdges (map step_json (steps d))) = map shown (toEdges d))"
proof -
  let ?m = "diagram_index d"
  have shown: "shown_edge d = shown" by (simp add: shown_edge_def [abs_def] shown_variant_def assms(3))
  have step: "map ends_of (next_edges ?m (step_json s) @ branch_edges ?m (step_json s) @ fork_edges ?m (step_json s) @ timer_edges ?m (step_json s)) =
      foreign_next d s @ map shown (pushStepEdges s) @ foreign_timers d s" if "s \<in> set (steps d)" for s
    unfolding shown [symmetric]
  proof (rule step_edges_shown [OF _ valid_ids_nonempty [OF assms(1)]])
    show "set (map_keys (step_extra s)) \<inter> set (KNOWN_STEP_KEYS (type_of s)) = {}"
      using that assms(2) by (simp add: passthrough_ok_def list_all_iff)
    fix e assume "e \<in> set (pushStepEdges s)"
    then have "e \<in> set (toEdges d)" using that by (auto simp: toEdges_def)
    then show "e_to e \<in> set (step_ids d) \<and> e_to e \<noteq> []" by (rule valid_edge_targets [OF assms(1)])
  qed
  have all: "map ends_of (buildEdges (map step_json (steps d))) =
      concat (map (\<lambda>s. foreign_next d s @ map shown (pushStepEdges s) @ foreign_timers d s) (steps d))"
    unfolding buildEdges_def Let_def map_concat map_map comp_def using step by (intro arg_cong [where f = concat] map_cong refl) blast
  have "foreign_next d s = [] \<and> foreign_timers d s = []"
    if "set (map_keys (step_extra s)) \<inter> {''nextStep'', ''boundaryEvents''} = {}" for s
  proof -
    have "map_get (step_extra s) ''nextStep'' = None" "map_get (step_extra s) ''boundaryEvents'' = None"
      using that map_keys_get by fastforce+
    then show ?thesis by (simp add: foreign_next_def foreign_timers_def foreign_target_def)
  qed
  then have "map ends_of (buildEdges (map step_json (steps d))) = map shown (toEdges d)"
    if "\<forall>s \<in> set (steps d). set (map_keys (step_extra s)) \<inter> {''nextStep'', ''boundaryEvents''} = {}"
    unfolding all toEdges_def map_concat map_map comp_def using that by (intro arg_cong [where f = concat] map_cong refl) simp
  with all show ?thesis by blast
qed

theorem diagram_matches_canvas_witness:
  "map ends_of (buildEdges (map step_json (steps (sample_flow ''a'' ''b'')))) = [(''a'', ''b'', ''sequential'')]"
proof -
  have b: "\<not> blank ''a''" "\<not> blank ''b''" by (simp_all add: blank_def trim_def js_space_def)
  have v: "errors (validate (sample_flow ''a'' ''b'')) = []" using b by (simp add: valid_iff sample_flow_valid)
  have e: "passthrough_ok (sample_flow ''a'' ''b'')" by (simp add: passthrough_ok_def sample_flow_def map_keys_def)
  have plain: "\<forall>s \<in> set (steps (sample_flow ''a'' ''b'')). set (map_keys (step_extra s)) \<inter> {''nextStep'', ''boundaryEvents''} = {}"
    by (simp add: sample_flow_def map_keys_def)
  from diagram_matches_canvas [OF v e refl, THEN conjunct2, THEN mp, OF plain] show ?thesis
    by (simp add: sample_flow_def toEdges_def pushBoundaryEdges_def join_target_def indexSteps_def)
qed

text \<open>So a definition without errors can have a diagram with an edge that the modeller does not show: here from an end step
  back to the start.\<close>

definition looping_end :: workflow_definition where
  "looping_end = (sample_flow ''a'' ''b'')\<lparr>steps :=
     [Wait \<lparr>c_id = ''a'', c_name = ''A'', c_description = None, c_extra = []\<rparr> ''b'' None,
      End \<lparr>c_id = ''b'', c_name = ''B'', c_description = None, c_extra = [(''nextStep'', JStr ''a'')]\<rparr>]\<rparr>"

theorem diagram_draws_passthrough:
  "errors (validate looping_end) = [] \<and> (''b'', ''a'', ''sequential'') \<in> set (map ends_of (buildEdges (map step_json (steps looping_end)))) \<and>
   \<not> (\<exists>e \<in> set (toEdges looping_end). e_from e = ''b'')"
proof -
  have "errors (validate looping_end) = []"
    by code_simp
  moreover have "(''b'', ''a'', ''sequential'') \<in> set (map ends_of (buildEdges (map step_json (steps looping_end))))"
    by code_simp
  moreover have "\<not> (\<exists>e \<in> set (toEdges looping_end). e_from e = ''b'')"
    by (simp add: looping_end_def sample_flow_def toEdges_def pushBoundaryEdges_def)
  ultimately show ?thesis by blast
qed

section \<open>The bars lie on the track\<close>

lemma timeline_bounds:
  assumes "e \<in> set es"
  shows "timeline_first es \<le> te_startedAt e"
    "(case timeline_end t a e of Some x \<Rightarrow> x | None \<Rightarrow> te_startedAt e) \<le> timeline_last t a es"
  using assms by (auto simp: timeline_first_def timeline_last_def intro: Min_le Max_ge)

lemma share_bounds:
  "0 \<le> (x :: int) \<Longrightarrow> x \<le> n \<Longrightarrow> 1 \<le> n \<Longrightarrow> 0 \<le> of_int x / of_int n * (100 :: rat) \<and> of_int x / of_int n * (100 :: rat) \<le> 100"
  by (simp add: divide_simps)

text \<open>The timeline lists every attempt once, ordered by start and id, and draws each bar on the track: the bar of an attempt
  that did not end before it started begins at or after the left end, and it ends at or before the right end
  unless it has the minimal width.\<close>

theorem timeline_bars_on_track:
  assumes "e \<in> set es" "\<forall>x. timeline_end t a e = Some x \<longrightarrow> te_startedAt e \<le> x" "timeline_bar t a es e = (left, width)"
  shows "mset (timeline_sorted es) = mset es \<and> sorted (map (\<lambda>e. (te_startedAt e, te_id e)) (timeline_sorted es)) \<and>
    0 \<le> left \<and> left \<le> 100 \<and> (width = 3 / 10 \<or> left + width \<le> 100)"
proof (intro conjI)
  show "mset (timeline_sorted es) = mset es" "sorted (map (\<lambda>e. (te_startedAt e, te_id e)) (timeline_sorted es))"
    by (simp_all add: timeline_sorted_def)
  let ?first = "timeline_first es" and ?last = "timeline_last t a es"
  let ?span = "max 1 (?last - ?first)" and ?dur = "case timeline_duration t a e of Some x \<Rightarrow> x | None \<Rightarrow> 0"
  have f: "?first \<le> te_startedAt e" by (rule timeline_bounds(1) [OF assms(1)])
  have l: "te_startedAt e + ?dur \<le> ?last" "0 \<le> ?dur"
    using timeline_bounds(2) [OF assms(1), of t a] assms(2) by (auto simp: timeline_duration_def split: option.splits)
  have lw: "left = max 0 (of_int (te_startedAt e - ?first) / of_int ?span * 100)" "width = max (3 / 10) (of_int ?dur / of_int ?span * 100)"
    using assms(3) by (simp_all add: timeline_bar_def Let_def)
  have left: "left = of_int (te_startedAt e - ?first) / of_int ?span * 100" "left \<le> 100"
    using share_bounds [of "te_startedAt e - ?first" ?span] f l by (auto simp: lw)
  then show "0 \<le> left" "left \<le> 100" by (simp_all add: lw)
  have "of_int (te_startedAt e - ?first) / of_int ?span * 100 + of_int ?dur / of_int ?span * (100 :: rat) =
      of_int (te_startedAt e - ?first + ?dur) / of_int ?span * 100"
    by (simp add: add_divide_distrib distrib_right)
  also have "\<dots> \<le> 100" using share_bounds [of "te_startedAt e - ?first + ?dur" ?span] f l by auto
  finally show "width = 3 / 10 \<or> left + width \<le> 100" using left(1) lw(2) by (auto simp: max_def split: if_splits)
qed

end
