(* ===== verification/Engine_Client.thy ===== *)
theory Engine_Client
  imports Import_Export
begin

text \<open>
  \<^verbatim>\<open>workflow-modeller/src/engine/client.ts\<close> and \<^verbatim>\<open>engine/types.ts\<close>: the REST client of the modeller.
  \<^verbatim>\<open>fetch\<close> is an argument: a request is a method, URL, headers and body, and the network answers with a
  response or with the message of a thrown error. \<^verbatim>\<open>JSON.parse\<close> and \<^verbatim>\<open>JSON.stringify\<close> are arguments too,
  at the type the caller reads or writes.
\<close>

section \<open>Model\<close>

datatype error_kind = KHttp | KNetwork | KParse

record engine_error =
  err_message :: string
  err_status :: nat
  err_body :: string
  err_kind :: error_kind

record client_config =
  baseUrl :: string
  authHeader :: "string option"

record http_request =
  req_method :: string
  req_url :: string
  req_headers :: "(string, string) omap"
  req_body :: "string option"

record http_response =
  resp_status :: nat
  resp_statusText :: string
  resp_text :: string

type_synonym fetcher = "http_request \<Rightarrow> string + http_response"

text \<open>\<^verbatim>\<open>baseUrl.replace(/\/+$/, '')\<close>.\<close>

definition strip_slashes :: "string \<Rightarrow> string" where
  "strip_slashes s = rev (dropWhile (\<lambda>c. c = CHR 0x2F) (rev s))"

definition headers :: "client_config \<Rightarrow> (string, string) omap \<Rightarrow> (string, string) omap" where
  "headers config extra =
     (let h = fold (\<lambda>(k, v) m. map_set k v m) extra [(''Accept'', ''application/json'')]
      in case authHeader config of
           Some a \<Rightarrow> if a \<noteq> '''' \<and> trim a \<noteq> '''' then map_set ''Authorization'' a h else h
         | None \<Rightarrow> h)"

text \<open>\<^verbatim>\<open>encodeURIComponent\<close> below 256: unreserved characters stay, an ASCII character becomes one
  percent triple, the others the two triples of their UTF-8 encoding.\<close>

definition unreserved :: "char \<Rightarrow> bool" where
  "unreserved c \<longleftrightarrow> is_alpha c \<or> is_digit c \<or>
     c \<in> {CHR ''-'', CHR ''_'', CHR ''.'', CHR ''!'', CHR ''~'', CHR ''*'', CHR 0x27, CHR ''('', CHR '')''}"

definition hex_digit :: "nat \<Rightarrow> char" where
  "hex_digit n = (if n < 10 then char_of (48 + n) else char_of (55 + n))"

definition percent :: "nat \<Rightarrow> string" where
  "percent b = [CHR ''%'', hex_digit (b div 16), hex_digit (b mod 16)]"

definition encode_char :: "char \<Rightarrow> string" where
  "encode_char c =
     (let n = of_char c :: nat
      in if unreserved c then [c]
         else if n < 128 then percent n
         else percent (192 + n div 64) @ percent (128 + n mod 64))"

definition encodeURIComponent :: "string \<Rightarrow> string" where
  "encodeURIComponent s = concat (map encode_char s)"

text \<open>\<^verbatim>\<open>.replace(/%3A/gi, ':')\<close>.\<close>

fun restore_colon :: "string \<Rightarrow> string" where
  "restore_colon (a # b # c # r) =
     (if a = CHR ''%'' \<and> b = CHR ''3'' \<and> (c = CHR ''A'' \<or> c = CHR ''a'') then CHR '':'' # restore_colon r
      else a # restore_colon (b # c # r))"
| "restore_colon s = s"

definition encodeIdSegment :: "string \<Rightarrow> string" where
  "encodeIdSegment i = restore_colon (encodeURIComponent i)"

definition response_ok :: "http_response \<Rightarrow> bool" where
  "response_ok r \<longleftrightarrow> 200 \<le> resp_status r \<and> resp_status r \<le> 299"

text \<open>\<open>None\<close> is the value \<^verbatim>\<open>undefined\<close> of an empty body.\<close>

definition request ::
  "fetcher \<Rightarrow> (string \<Rightarrow> string + 'a) \<Rightarrow> client_config \<Rightarrow> string \<Rightarrow> string \<Rightarrow> (string, string) omap \<Rightarrow>
   string option \<Rightarrow> engine_error + 'a option" where
  "request fetch jsonParse config path meth hs body =
     (case fetch \<lparr>req_method = meth, req_url = strip_slashes (baseUrl config) @ path, req_headers = hs,
                   req_body = body\<rparr> of
        Inl message \<Rightarrow>
          Inl \<lparr>err_message = (if message = '''' then ''Network error'' else message), err_status = 0,
               err_body = '''', err_kind = KNetwork\<rparr>
      | Inr response \<Rightarrow>
          (let txt = resp_text response
           in if \<not> response_ok response
              then Inl \<lparr>err_message = (if txt = '''' then nat_str (resp_status response) @ '' '' @ resp_statusText response
                                       else txt),
                        err_status = resp_status response, err_body = txt, err_kind = KHttp\<rparr>
              else if txt = '''' then Inr None
              else (case jsonParse txt of
                      Inr v \<Rightarrow> Inr (Some v)
                    | Inl message \<Rightarrow>
                        Inl \<lparr>err_message = ''Invalid JSON: '' @ message, err_status = resp_status response,
                             err_body = txt, err_kind = KParse\<rparr>)))"

record list_params =
  lp_keyword :: "string option"
  lp_page :: "nat option"
  lp_pageSize :: "nat option"

text \<open>\<^verbatim>\<open>URLSearchParams\<close> serialises with its own encoding, an argument here.\<close>

definition listDefinitions ::
  "fetcher \<Rightarrow> (string \<Rightarrow> string + 'a) \<Rightarrow> (string \<Rightarrow> string) \<Rightarrow> client_config \<Rightarrow> list_params \<Rightarrow> engine_error + 'a option" where
  "listDefinitions fetch jsonParse formEncode config params =
     (let qs = ''page='' @ nat_str (case lp_page params of Some p \<Rightarrow> p | None \<Rightarrow> 0)
               @ ''&pageSize='' @ nat_str (case lp_pageSize params of Some p \<Rightarrow> p | None \<Rightarrow> 20)
               @ (if truthy (lp_keyword params) then ''&keyword='' @ formEncode (the (lp_keyword params)) else '''')
      in request fetch jsonParse config (''/v1/definitions?'' @ qs) ''GET'' (headers config []) None)"

definition getLatest ::
  "fetcher \<Rightarrow> (string \<Rightarrow> string + 'a) \<Rightarrow> client_config \<Rightarrow> string \<Rightarrow> engine_error + 'a option" where
  "getLatest fetch jsonParse config i =
     request fetch jsonParse config (''/v1/definitions/'' @ encodeIdSegment i) ''GET'' (headers config []) None"

definition getVersion ::
  "fetcher \<Rightarrow> (string \<Rightarrow> string + 'a) \<Rightarrow> client_config \<Rightarrow> string \<Rightarrow> nat \<Rightarrow> engine_error + 'a option" where
  "getVersion fetch jsonParse config i version =
     request fetch jsonParse config
       (''/v1/definitions/'' @ encodeIdSegment i @ ''/versions/'' @ nat_str version) ''GET'' (headers config []) None"

definition upload ::
  "fetcher \<Rightarrow> (string \<Rightarrow> string + 'a) \<Rightarrow> (workflow_definition \<Rightarrow> string) \<Rightarrow> client_config \<Rightarrow>
   workflow_definition \<Rightarrow> engine_error + 'a option" where
  "upload fetch jsonParse stringify config d =
     request fetch jsonParse config ''/v1/definitions'' ''POST''
       (headers config [(''Content-Type'', ''application/json'')]) (Some (stringify d))"

datatype connection_status = StUnknown | StOk | StUnreachable | StUnauthorized | StError

definition testConnection ::
  "fetcher \<Rightarrow> (string \<Rightarrow> string + 'a) \<Rightarrow> client_config \<Rightarrow> connection_status" where
  "testConnection fetch jsonParse config =
     (case request fetch jsonParse config ''/v1/definitions?page=0&pageSize=1'' ''GET'' (headers config []) None of
        Inr _ \<Rightarrow> StOk
      | Inl e \<Rightarrow>
          if err_kind e = KNetwork then StUnreachable
          else if err_status e = 401 \<or> err_status e = 403 then StUnauthorized
          else StError)"

section \<open>Lemmas\<close>

lemma restore_colon_other: "c \<noteq> CHR ''%'' \<Longrightarrow> restore_colon (c # s) = c # restore_colon s"
  by (cases s rule: restore_colon.cases) auto

lemma restore_colon_triple:
  "hi \<noteq> CHR ''%'' \<Longrightarrow> lo \<noteq> CHR ''%'' \<Longrightarrow>
   restore_colon (CHR ''%'' # hi # lo # s) =
     (if hi = CHR ''3'' \<and> (lo = CHR ''A'' \<or> lo = CHR ''a'') then CHR '':'' # restore_colon s
      else CHR ''%'' # hi # lo # restore_colon s)"
  by (simp add: restore_colon_other)

definition segment_char :: "char \<Rightarrow> string" where
  "segment_char c = (if c = CHR '':'' then '':'' else encode_char c)"

lemma hex_digit_not_percent: "n < 16 \<Longrightarrow> hex_digit n \<noteq> CHR ''%''"
  by (auto simp: hex_digit_def char_of_eq_iff take_bit_eq_mod)

lemma hex_digit_inj: "m < 16 \<Longrightarrow> n < 16 \<Longrightarrow> hex_digit m = hex_digit n \<Longrightarrow> m = n"
  by (auto simp: hex_digit_def char_of_eq_iff take_bit_eq_mod split: if_splits)

lemma hex_digit_3A: "n < 16 \<Longrightarrow> hex_digit n = CHR ''3'' \<longleftrightarrow> n = 3" "n < 16 \<Longrightarrow> hex_digit n = CHR ''A'' \<longleftrightarrow> n = 10"
  "n < 16 \<Longrightarrow> hex_digit n \<noteq> CHR ''a''"
  by (auto simp: hex_digit_def char_of_eq_iff take_bit_eq_mod)

lemma restore_percent:
  assumes "b < 256"
  shows "restore_colon (percent b @ s) = (if b = 58 then CHR '':'' # restore_colon s else percent b @ restore_colon s)"
proof -
  have d: "b div 16 < 16" "b mod 16 < 16" using assms by auto
  have "hex_digit (b div 16) = CHR ''3'' \<and> (hex_digit (b mod 16) = CHR ''A'' \<or> hex_digit (b mod 16) = CHR ''a'') \<longleftrightarrow>
      b div 16 = 3 \<and> b mod 16 = 10"
    using hex_digit_3A [OF d(1)] hex_digit_3A [OF d(2)] by simp
  also have "\<dots> \<longleftrightarrow> b = 58"
  proof
    assume "b div 16 = 3 \<and> b mod 16 = 10"
    then show "b = 58" using div_mult_mod_eq [of b 16] by linarith
  qed simp
  finally show ?thesis
    using restore_colon_triple [OF hex_digit_not_percent [OF d(1)] hex_digit_not_percent [OF d(2)], of s]
    by (simp add: percent_def)
qed

lemma of_char_less: "(of_char c :: nat) < 256"
  by (metis of_char_mod_256 mod_less_divisor zero_less_numeral)

lemma of_char_div: "(of_char c :: nat) div 64 < 64"
proof -
  have "(of_char c :: nat) \<le> 255" using of_char_less [of c] by linarith
  then have "(of_char c :: nat) div 64 \<le> 255 div 64" by (rule div_le_mono)
  then show ?thesis by simp
qed

lemma of_char_colon: "(of_char c :: nat) = 58 \<longleftrightarrow> c = CHR '':''"
  using of_char_eq_iff [of c "CHR '':''", where 'a = nat] by simp

lemma restore_encode_char: "restore_colon (encode_char c @ s) = segment_char c @ restore_colon s"
proof -
  let ?n = "of_char c :: nat"
  have n: "?n < 256" by (rule of_char_less)
  have pct: "\<not> unreserved CHR ''%''" "\<not> unreserved CHR '':''" by (simp_all add: unreserved_def is_alpha_def is_digit_def)
  consider "unreserved c" | "\<not> unreserved c" "?n < 128" | "\<not> unreserved c" "\<not> ?n < 128" by blast
  then show ?thesis
  proof cases
    case 1
    with pct have "c \<noteq> CHR ''%''" "c \<noteq> CHR '':''" by auto
    with 1 show ?thesis by (simp add: encode_char_def segment_char_def restore_colon_other)
  next
    case 2
    then show ?thesis
      using restore_percent [of ?n s] n pct
      by (auto simp: encode_char_def segment_char_def of_char_colon)
  next
    case 3
    have "c \<noteq> CHR '':''" using 3(2) by auto
    moreover have "?n div 64 < 64" by (rule of_char_div)
    then have "192 + ?n div 64 < 256" by simp
    moreover have "192 + ?n div 64 \<noteq> 58" "128 + ?n mod 64 < 256" "128 + ?n mod 64 \<noteq> 58"
      by auto
    ultimately show ?thesis
      using 3 restore_percent [of "192 + ?n div 64" "percent (128 + ?n mod 64) @ s"]
        restore_percent [of "128 + ?n mod 64" s]
      by (simp add: encode_char_def segment_char_def Let_def)
  qed
qed

lemma encodeIdSegment_chars: "encodeIdSegment i = concat (map segment_char i)"
proof -
  have "restore_colon (concat (map encode_char i)) = concat (map segment_char i)"
    by (induction i) (simp_all add: restore_encode_char)
  then show ?thesis by (simp add: encodeIdSegment_def encodeURIComponent_def)
qed

text \<open>Percent decoding of a path segment, as a specification of what the server may do with it.\<close>

definition hex_value :: "char \<Rightarrow> nat" where
  "hex_value c = (if is_digit c then of_char c - 48 else of_char c - 55)"

definition byte_of :: "char \<Rightarrow> char \<Rightarrow> nat" where
  "byte_of hi lo = 16 * hex_value hi + hex_value lo"

fun decodeSegment :: "string \<Rightarrow> string" where
  "decodeSegment (p # h # l # r) =
     (if p \<noteq> CHR ''%'' then p # decodeSegment (h # l # r)
      else if byte_of h l < 128 then char_of (byte_of h l) # decodeSegment r
      else (case r of
              _ # h' # l' # r' \<Rightarrow>
                char_of (64 * (byte_of h l - 192) + (byte_of h' l' - 128)) # decodeSegment r'
            | _ \<Rightarrow> []))"
| "decodeSegment s = s"

lemma hex_value_digit: "n < 16 \<Longrightarrow> hex_value (hex_digit n) = n"
  by (auto simp: hex_value_def hex_digit_def is_digit_def less_eq_char_def)

lemma byte_of_percent: "b < 256 \<Longrightarrow> byte_of (hex_digit (b div 16)) (hex_digit (b mod 16)) = b"
  using div_mult_mod_eq [of b 16] by (simp add: byte_of_def hex_value_digit mult.commute)

lemma decodeSegment_other: "c \<noteq> CHR ''%'' \<Longrightarrow> decodeSegment (c # s) = c # decodeSegment s"
  by (cases s rule: decodeSegment.cases) auto

lemma decode_segment_char: "decodeSegment (segment_char c @ s) = c # decodeSegment s"
proof -
  let ?n = "of_char c :: nat"
  have n: "?n < 256" by (rule of_char_less)
  have pct: "\<not> unreserved CHR ''%''" by (simp add: unreserved_def is_alpha_def is_digit_def)
  consider "unreserved c \<or> c = CHR '':''" | "\<not> unreserved c" "c \<noteq> CHR '':''" "?n < 128"
    | "\<not> unreserved c" "c \<noteq> CHR '':''" "\<not> ?n < 128" by blast
  then show ?thesis
  proof cases
    case 1
    with pct have "c \<noteq> CHR ''%''" by auto
    with 1 show ?thesis by (auto simp: encode_char_def segment_char_def decodeSegment_other)
  next
    case 2
    then show ?thesis
      using byte_of_percent [of ?n] n by (simp add: encode_char_def segment_char_def percent_def Let_def)
  next
    case 3
    have "?n div 64 < 64" by (rule of_char_div)
    then have b: "192 + ?n div 64 < 256" "128 + ?n mod 64 < 256" "\<not> 192 + ?n div 64 < 128" by auto
    have "64 * (?n div 64) + ?n mod 64 = ?n" by simp
    then show ?thesis
      using 3 b(3) byte_of_percent [OF b(1)] byte_of_percent [OF b(2)]
      by (simp add: encode_char_def segment_char_def percent_def Let_def del: div_mult_self1 mod_mult_self1)
  qed
qed

section \<open>Properties\<close>

text \<open>Ids survive the path: an id that passes the validator's format check is sent as it is, colons
  included, and for every id percent decoding of the sent segment gives the id back, so that two ids
  never share a path.\<close>

theorem id_segment_roundtrip:
  "decodeSegment (encodeIdSegment i) = i \<and> (ID_PATTERN i \<longrightarrow> encodeIdSegment i = i)"
proof -
  have "decodeSegment (concat (map segment_char s)) = s" for s
    by (induction s) (simp_all add: decode_segment_char)
  moreover have "concat (map segment_char s) = s" if "list_all id_char s" for s
    using that
    by (induction s) (auto simp: segment_char_def encode_char_def unreserved_def id_char_def)
  ultimately show ?thesis by (auto simp: encodeIdSegment_chars ID_PATTERN_def)
qed

theorem id_segment_roundtrip_witness: "encodeIdSegment ''LOS::loan-app'' = ''LOS::loan-app''"
  using id_segment_roundtrip [of "''LOS::loan-app''"]
  by (simp add: ID_PATTERN_def id_char_def is_alpha_def)

text \<open>The connection test is exact: it says unreachable exactly when the request throws, unauthorized
  exactly on status 401 or 403, ok exactly on a success status with an empty or readable body, and
  error otherwise.\<close>

theorem testConnection_classifies:
  "testConnection fetch jsonParse config =
     (case fetch \<lparr>req_method = ''GET'',
              req_url = strip_slashes (baseUrl config) @ ''/v1/definitions?page=0&pageSize=1'',
              req_headers = headers config [], req_body = None\<rparr> of
        Inl _ \<Rightarrow> StUnreachable
      | Inr r \<Rightarrow>
          if resp_status r \<in> {401, 403} then StUnauthorized
          else if 200 \<le> resp_status r \<and> resp_status r \<le> 299 \<and>
                  (if resp_text r = '''' then True
                   else case jsonParse (resp_text r) of Inr _ \<Rightarrow> True | Inl _ \<Rightarrow> False) then StOk
          else StError)"
  by (auto simp: testConnection_def request_def response_ok_def Let_def split: sum.split)

end
