(* ===== verification/Incidents.thy ===== *)
theory Incidents
  imports Process_Instances
begin

text \<open>
  The incidents of the monitor, \<^verbatim>\<open>workflow-monitor-bff/src/modules/incidents/incident.queries.ts\<close>: failed executions of
  instances that were not cancelled, with their job and the latest attempt of the step.
\<close>

section \<open>Filters and cursors\<close>

record incident_filters =
  n_definitionId :: "string option"
  n_jobType :: "string option"
  n_from :: "string option"
  n_to :: "string option"

record incident_query = incident_filters +
  nq_cursor :: "string option"
  nq_pageSize :: "string option"

definition incident_validateFilters :: "'b monitor_env \<Rightarrow> incident_filters \<Rightarrow> monitor_error option" where
  "incident_validateFilters env f =
     (if bad_timestamp (n_from f) \<or> bad_timestamp (n_to f) then Some (BadRequest ''Invalid UTC timestamp'')
      else if not_increasing env (n_from f) (n_to f) then Some (BadRequest ''Occurrence-time range must increase'')
      else None)"

definition incident_filterFingerprint :: "'b monitor_env \<Rightarrow> incident_filters \<Rightarrow> string" where
  "incident_filterFingerprint env f =
     sha256 env (json_stringify env (JObj
       [(''definitionId'', json_opt (n_definitionId f)), (''jobType'', json_opt (n_jobType f)),
        (''from'', json_opt (n_from f)), (''to'', json_opt (n_to f))]))"

record incident_job =
  ij_id :: string
  ij_type :: string
  ij_status :: string

record incident_item =
  in_id :: string
  in_historical :: bool
  in_latestAttempt :: "string \<times> string \<times> int"
  in_processInstanceId :: string
  in_definitionId :: string
  in_definitionVersion :: int
  in_definitionName :: string
  in_stepId :: string
  in_stepType :: string
  in_attemptNumber :: int
  in_occurredAt :: "int option"
  in_job :: "incident_job option"

text \<open>\<^verbatim>\<open>occurredAt.toISOString()\<close>; the caller has excluded null, which throws.\<close>

definition incident_encodeCursor :: "'b monitor_env \<Rightarrow> incident_filters \<Rightarrow> incident_item \<Rightarrow> string" where
  "incident_encodeCursor env f item =
     cursor_text env (JObj [(''v'', JNum 1), (''occurredAt'', JStr (toISOString (the (in_occurredAt item)))), (''id'', JStr (in_id item)),
       (''filters'', JStr (incident_filterFingerprint env f))])"

definition incident_decodeCursor :: "'b monitor_env \<Rightarrow> incident_filters \<Rightarrow> string \<Rightarrow> monitor_error + string \<times> string" where
  "incident_decodeCursor env f v =
     (case cursor_json env v of
        None \<Rightarrow> Inl (BadRequest ''Invalid cursor'')
      | Some c \<Rightarrow>
          (case (json_field c ''occurredAt'', json_field c ''id'') of
             (Some (JStr t), Some (JStr i)) \<Rightarrow>
               if json_field c ''v'' \<noteq> Some (JNum 1) \<or> \<not> isUtcTimestamp t \<or> i = [] \<or>
                  json_field c ''filters'' \<noteq> Some (JStr (incident_filterFingerprint env f))
               then Inl (BadRequest ''Invalid cursor'') else Inr (t, i)
           | _ \<Rightarrow> Inl (BadRequest ''Invalid cursor'')))"

section \<open>The query\<close>

record incident_row =
  ir_execution :: execution_row
  ir_instance :: instance_row
  ir_definition :: definition_row
  ir_job :: "job_row option"
  ir_latest :: execution_row

text \<open>The subquery \<^verbatim>\<open>SELECT DISTINCT ON (step_execution_id) ... ORDER BY step_execution_id, created_at DESC, id DESC\<close>.\<close>

definition related_jobs :: "'b monitor_env \<Rightarrow> database \<Rightarrow> job_row list" where
  "related_jobs env db =
     distinct_on j_step_execution_id (sort_key (\<lambda>j. collate env (j_step_execution_id j))
       (order_desc (\<lambda>j. (j_created_at j, collate env (j_id j))) (db_jobs db)))"

text \<open>The joins. A left join keeps the execution without a job.\<close>

definition rows_of_execution :: "'b monitor_env \<Rightarrow> database \<Rightarrow> execution_row \<Rightarrow> incident_row list" where
  "rows_of_execution env db e =
       concat (map (\<lambda>i.
         concat (map (\<lambda>d.
           concat (map (\<lambda>j.
             (case latest_execution env db (se_instance_id e) (se_step_id e) of
                None \<Rightarrow> []
              | Some l \<Rightarrow> [\<lparr>ir_execution = e, ir_instance = i, ir_definition = d, ir_job = j, ir_latest = l\<rparr>]))
             (let js = filter (\<lambda>j. j_step_execution_id j = se_id e) (related_jobs env db) in if js = [] then [None] else map Some js)))
         (filter (\<lambda>d. wd_id d = wi_definition_id i \<and> wd_version d = wi_definition_version i) (db_definitions db))))
       (filter (\<lambda>i. wi_id i = se_instance_id e) (db_instances db)))"

definition incident_rows :: "'b monitor_env \<Rightarrow> database \<Rightarrow> incident_row list" where
  "incident_rows env db = concat (map (rows_of_execution env db) (db_executions db))"

definition mapListItem :: "'b monitor_env \<Rightarrow> incident_row \<Rightarrow> incident_item" where
  "mapListItem env r =
     \<lparr>in_id = se_id (ir_execution r), in_historical = (se_id (ir_execution r) \<noteq> se_id (ir_latest r)),
      in_latestAttempt = (se_id (ir_latest r), se_status (ir_latest r), se_attempt_number (ir_latest r)),
      in_processInstanceId = se_instance_id (ir_execution r), in_definitionId = wi_definition_id (ir_instance r),
      in_definitionVersion = wi_definition_version (ir_instance r), in_definitionName = wd_name (ir_definition r),
      in_stepId = se_step_id (ir_execution r), in_stepType = se_step_type (ir_execution r),
      in_attemptNumber = se_attempt_number (ir_execution r), in_occurredAt = map_option (pg_date env) (se_ended_at (ir_execution r)),
      in_job = (case ir_job r of
                  Some j \<Rightarrow> if j_id j \<noteq> [] \<and> j_job_type j \<noteq> [] \<and> j_status j \<noteq> []
                            then Some \<lparr>ij_id = j_id j, ij_type = j_job_type j, ij_status = j_status j\<rparr> else None
                | None \<Rightarrow> None)\<rparr>"

definition is_incident :: "incident_row \<Rightarrow> bool" where
  "is_incident r \<longleftrightarrow> se_status (ir_execution r) = ''FAILED'' \<and> wi_status (ir_instance r) \<noteq> ''CANCELLED''"

text \<open>A comparison with null is not true.\<close>

definition incident_where :: "incident_filters \<Rightarrow> int option \<Rightarrow> int option \<Rightarrow> incident_row \<Rightarrow> bool" where
  "incident_where f since until r \<longleftrightarrow> is_incident r \<and>
     (str_truthy (n_definitionId f) \<longrightarrow> Some (wi_definition_id (ir_instance r)) = n_definitionId f) \<and>
     (str_truthy (n_jobType f) \<longrightarrow> map_option j_job_type (ir_job r) = n_jobType f) \<and>
     (case since of None \<Rightarrow> True | Some t \<Rightarrow> (case se_ended_at (ir_execution r) of Some x \<Rightarrow> t \<le> x | None \<Rightarrow> False)) \<and>
     (case until of None \<Rightarrow> True | Some t \<Rightarrow> (case se_ended_at (ir_execution r) of Some x \<Rightarrow> x < t | None \<Rightarrow> False))"

text \<open>\<^verbatim>\<open>ORDER BY ended_at DESC, id DESC\<close> puts nulls first.\<close>

definition incident_key :: "'b monitor_env \<Rightarrow> incident_row \<Rightarrow> (bool \<times> int) \<times> nat list" where
  "incident_key env r = ((case se_ended_at (ir_execution r) of None \<Rightarrow> (True, 0) | Some t \<Rightarrow> (False, t)), collate env (se_id (ir_execution r)))"

definition incident_below :: "'b monitor_env \<Rightarrow> (int \<times> nat list) option \<Rightarrow> incident_row \<Rightarrow> bool" where
  "incident_below env c r \<longleftrightarrow>
     (case c of
        None \<Rightarrow> True
      | Some k \<Rightarrow> (case se_ended_at (ir_execution r) of None \<Rightarrow> False | Some t \<Rightarrow> (t, collate env (se_id (ir_execution r))) < k))"

definition list_incidents ::
    "'b monitor_env \<Rightarrow> database \<Rightarrow> incident_query \<Rightarrow> monitor_error + incident_item list \<times> string option" where
  "list_incidents env db q =
     (let f = incident_filters.truncate q in
      case incident_validateFilters env f of
        Some e \<Rightarrow> Inl e
      | None \<Rightarrow>
      try_in (pageSize env (nq_pageSize q)) (\<lambda>limit.
      try_in (if str_truthy (nq_cursor q) then try_in (incident_decodeCursor env f (the (nq_cursor q))) (\<lambda>c. Inr (Some c)) else Inr None) (\<lambda>c.
      try_in (bind_timestamp env (n_from f)) (\<lambda>since.
      try_in (bind_timestamp env (n_to f)) (\<lambda>until.
      try_in (bind_cursor env c) (\<lambda>key.
        let mapped = map (mapListItem env) (take (limit + 1) (order_desc (incident_key env)
              (filter (\<lambda>r. incident_where f since until r \<and> incident_below env key r) (incident_rows env db))))
        in if length mapped > limit \<and> in_occurredAt (last (take limit mapped)) = None then Inl TypeError
           else Inr (slice_page limit (incident_encodeCursor env f) mapped)))))))"

record incident_detail = incident_item +
  in_errorDetails :: "string option"
  in_instanceId :: string
  in_instanceStatus :: string
  in_businessKey :: "string option"

definition incident_detail_of :: "'b monitor_env \<Rightarrow> database \<Rightarrow> string \<Rightarrow> incident_detail option" where
  "incident_detail_of env db incidentId =
     map_option (\<lambda>r. incident_item.extend (mapListItem env r)
         (incident_detail.fields (se_failure_reason (ir_execution r)) (se_instance_id (ir_execution r)) (wi_status (ir_instance r))
           (wi_business_key (ir_instance r))))
       (first_row (filter (\<lambda>r. se_id (ir_execution r) = incidentId \<and> is_incident r) (incident_rows env db)))"

text \<open>\<^verbatim>\<open>IncidentsController.detail\<close>.\<close>

definition incident_detail_route :: "'b monitor_env \<Rightarrow> database \<Rightarrow> string \<Rightarrow> monitor_error + incident_detail" where
  "incident_detail_route env db incidentId =
     (case incident_detail_of env db incidentId of None \<Rightarrow> Inl (NotFound ''Incident not found'') | Some d \<Rightarrow> Inr d)"

section \<open>The joined rows\<close>

lemma related_job_unique:
  assumes "inj (collate env)"
  shows "\<exists>j. (let js = filter (\<lambda>j. j_step_execution_id j = se_id e) (related_jobs env db) in if js = [] then [None] else map Some js) = [j]"
proof -
  let ?f = "\<lambda>j. j_step_execution_id j = se_id e"
  have "filter ?f (related_jobs env db) = [] \<or> (\<exists>x. filter ?f (related_jobs env db) = [x])"
    unfolding related_jobs_def distinct_on_filter by (auto split: option.split)
  then show ?thesis by auto
qed

lemma unique_filter: "distinct (map f xs) \<Longrightarrow> filter (\<lambda>x. f x = v) xs = [] \<or> (\<exists>x. filter (\<lambda>x. f x = v) xs = [x])"
proof (induction xs)
  case (Cons a xs)
  show ?case
  proof (cases "f a = v")
    case True
    have "v \<notin> f ` set xs" using True Cons.prems by simp
    then have "filter (\<lambda>x. f x = v) xs = []" unfolding filter_empty_conv by blast
    with True show ?thesis by simp
  qed (use Cons in simp)
qed simp

text \<open>Every execution has at most one joined row, so the rows are told apart by the id of the execution.\<close>

lemma concat_distinct:
  assumes "distinct (map f xs)" "\<And>x. x \<in> set xs \<Longrightarrow> g x = [] \<or> (\<exists>y. g x = [y] \<and> h y = f x)"
  shows "distinct (map h (concat (map g xs)))"
  using assms
proof (induction xs)
  case (Cons a xs)
  have s: "h ` set (concat (map g xs)) \<subseteq> f ` set xs"
  proof
    fix v assume "v \<in> h ` set (concat (map g xs))"
    then obtain x y where "x \<in> set xs" "y \<in> set (g x)" "v = h y" by auto
    with Cons.prems(2) [of x] show "v \<in> f ` set xs" by auto
  qed
  have "distinct (map h (concat (map g xs)))" by (rule Cons.IH) (use Cons.prems in auto)
  moreover have "g a = [] \<or> (\<exists>y. g a = [y] \<and> h y = f a)" by (rule Cons.prems(2)) simp
  moreover have "f a \<notin> h ` set (concat (map g xs))" using s Cons.prems(1) by auto
  ultimately show ?case by auto
qed simp

lemma rows_of_execution_cases:
  assumes "keys_unique db" "inj (collate env)"
  shows "rows_of_execution env db e = [] \<or> (\<exists>r. rows_of_execution env db e = [r] \<and> ir_execution r = e)"
proof -
  obtain j where j: "(let js = filter (\<lambda>j. j_step_execution_id j = se_id e) (related_jobs env db) in if js = [] then [None] else map Some js) = [j]"
    using related_job_unique [OF assms(2)] by blast
  consider "filter (\<lambda>i. wi_id i = se_instance_id e) (db_instances db) = []"
    | i where "filter (\<lambda>i. wi_id i = se_instance_id e) (db_instances db) = [i]"
    using unique_filter [of wi_id "db_instances db" "se_instance_id e"] assms(1) by (auto simp: keys_unique_def)
  then show ?thesis
  proof cases
    case 1
    then show ?thesis by (simp add: rows_of_execution_def)
  next
    case (2 i)
    consider "filter (\<lambda>d. wd_id d = wi_definition_id i \<and> wd_version d = wi_definition_version i) (db_definitions db) = []"
      | d where "filter (\<lambda>d. wd_id d = wi_definition_id i \<and> wd_version d = wi_definition_version i) (db_definitions db) = [d]"
      using unique_filter [of "\<lambda>d. (wd_id d, wd_version d)" "db_definitions db" "(wi_definition_id i, wi_definition_version i)"] assms(1)
      by (auto simp: keys_unique_def)
    then show ?thesis
      by cases (simp_all add: rows_of_execution_def j 2 split: option.split)
  qed
qed

lemma incident_ids_distinct:
  assumes "keys_unique db" "inj (collate env)"
  shows "distinct (map (\<lambda>r. se_id (ir_execution r)) (incident_rows env db))"
  unfolding incident_rows_def
proof (rule concat_distinct [where f = se_id])
  show "distinct (map se_id (db_executions db))" using assms(1) by (simp add: keys_unique_def)
  show "rows_of_execution env db e = [] \<or> (\<exists>y. rows_of_execution env db e = [y] \<and> se_id (ir_execution y) = se_id e)" for e
    using rows_of_execution_cases [OF assms, of e] by auto
qed

text \<open>The rows are the executions of instances whose definition is stored.\<close>

lemma incident_row_parts:
  assumes "r \<in> set (incident_rows env db)"
  shows "ir_execution r \<in> set (db_executions db)" "ir_instance r \<in> set (db_instances db)" "wi_id (ir_instance r) = se_instance_id (ir_execution r)"
    "latest_execution env db (se_instance_id (ir_execution r)) (se_step_id (ir_execution r)) = Some (ir_latest r)"
    "ir_definition r \<in> set (db_definitions db)" "wd_id (ir_definition r) = wi_definition_id (ir_instance r)"
    "wd_version (ir_definition r) = wi_definition_version (ir_instance r)"
  using assms by (auto simp: incident_rows_def rows_of_execution_def Let_def split: option.splits if_splits)

lemma latest_exists: "e \<in> set (db_executions db) \<Longrightarrow> \<exists>l. latest_execution env db (se_instance_id e) (se_step_id e) = Some l"
proof -
  assume "e \<in> set (db_executions db)"
  then have "set (executions_of db (se_instance_id e) (se_step_id e)) \<noteq> {}" by (auto simp: executions_of_def)
  then have "order_desc (attempt_key env) (executions_of db (se_instance_id e) (se_step_id e)) \<noteq> []"
    by (metis order_desc_set set_empty)
  then show ?thesis unfolding latest_execution_def by (metis first_row_None not_None_eq)
qed

lemma incident_row_exists:
  assumes "e \<in> set (db_executions db)" "i \<in> set (db_instances db)" "wi_id i = se_instance_id e"
    "d \<in> set (db_definitions db)" "wd_id d = wi_definition_id i" "wd_version d = wi_definition_version i"
  shows "\<exists>r \<in> set (incident_rows env db). ir_execution r = e \<and> ir_instance r = i"
proof -
  obtain l where l: "latest_execution env db (se_instance_id e) (se_step_id e) = Some l" using latest_exists [OF assms(1)] by blast
  let ?js = "let js = filter (\<lambda>j. j_step_execution_id j = se_id e) (related_jobs env db) in if js = [] then [None] else map Some js"
  have "?js \<noteq> []" by (simp add: Let_def)
  then obtain j where j: "j \<in> set ?js" using hd_in_set by blast
  let ?r = "\<lparr>ir_execution = e, ir_instance = i, ir_definition = d, ir_job = j, ir_latest = l\<rparr>"
  have "?r \<in> set (concat (map (\<lambda>j. [\<lparr>ir_execution = e, ir_instance = i, ir_definition = d, ir_job = j, ir_latest = l\<rparr>]) ?js))"
    using j by auto
  then have "?r \<in> set (rows_of_execution env db e)"
    unfolding rows_of_execution_def l option.case using assms by auto
  then have "?r \<in> set (incident_rows env db)" using assms(1) by (auto simp: incident_rows_def)
  then show ?thesis by force
qed

section \<open>Reading every page\<close>

definition incident_params :: "'b monitor_env \<Rightarrow> incident_query \<Rightarrow> monitor_error + nat \<times> int option \<times> int option" where
  "incident_params env q =
     (let f = incident_filters.truncate q in
      case incident_validateFilters env f of
        Some e \<Rightarrow> Inl e
      | None \<Rightarrow>
      try_in (pageSize env (nq_pageSize q)) (\<lambda>limit.
      try_in (bind_timestamp env (n_from f)) (\<lambda>since.
      try_in (bind_timestamp env (n_to f)) (\<lambda>until. Inr (limit, since, until)))))"

definition matching_incidents :: "'b monitor_env \<Rightarrow> database \<Rightarrow> incident_query \<Rightarrow> incident_row list" where
  "matching_incidents env db q =
     (case incident_params env q of
        Inl _ \<Rightarrow> []
      | Inr (_, since, until) \<Rightarrow>
          order_desc (incident_key env) (filter (incident_where (incident_filters.truncate q) since until) (incident_rows env db)))"

type_synonym 'b incident_request = "'b monitor_env \<times> database \<times> incident_query"

text \<open>The engine sets \<^verbatim>\<open>ended_at\<close> when it fails an execution.\<close>

definition incidents_good :: "'b incident_request \<Rightarrow> bool" where
  "incidents_good = (\<lambda>(env, db, q). codec_laws env \<and> clock_laws env \<and> keys_unique db \<and> (\<exists>p. incident_params env q = Inr p) \<and>
     list_all (\<lambda>e. se_status e = ''FAILED'' \<longrightarrow> (\<exists>t. se_ended_at e = Some t \<and> whole_ms t) \<and> se_id e \<noteq> []) (db_executions db))"

definition fetch_incidents :: "'b incident_request \<Rightarrow> string option \<Rightarrow> monitor_error + incident_item list \<times> string option" where
  "fetch_incidents = (\<lambda>(env, db, q) c. list_incidents env db (q\<lparr>nq_cursor := c\<rparr>))"

definition incident_limit :: "'b incident_request \<Rightarrow> nat" where
  "incident_limit = (\<lambda>(env, db, q). case pageSize env (nq_pageSize q) of Inr n \<Rightarrow> n | Inl _ \<Rightarrow> 0)"

definition incident_cursor :: "'b incident_request \<Rightarrow> incident_item \<Rightarrow> string" where
  "incident_cursor = (\<lambda>(env, db, q). incident_encodeCursor env (incident_filters.truncate q))"

definition incident_matches :: "'b incident_request \<Rightarrow> incident_row list" where
  "incident_matches = (\<lambda>(env, db, q). matching_incidents env db q)"

lemma truncate_incident_cursor [simp]: "incident_filters.truncate (q\<lparr>nq_cursor := c\<rparr>) = incident_filters.truncate q"
  by (simp add: incident_filters.truncate_def)

lemma incidents_goodD:
  assumes "incidents_good (env, db, q)"
  shows "codec_laws env" "clock_laws env" "keys_unique db" "inj (collate env)" "\<exists>limit since until. incident_params env q = Inr (limit, since, until)"
    "e \<in> set (db_executions db) \<Longrightarrow> se_status e = ''FAILED'' \<Longrightarrow> (\<exists>t. se_ended_at e = Some t \<and> whole_ms t) \<and> se_id e \<noteq> []"
  using assms by (simp_all add: incidents_good_def list_all_iff clock_laws_def)

lemma incident_params_cases:
  assumes "incident_params env q = Inr (limit, since, until)"
  shows "incident_validateFilters env (incident_filters.truncate q) = None" "pageSize env (nq_pageSize q) = Inr limit"
    "bind_timestamp env (n_from (incident_filters.truncate q)) = Inr since" "bind_timestamp env (n_to (incident_filters.truncate q)) = Inr until"
  using assms by (auto simp: incident_params_def Let_def try_in_Inr split: option.splits)

lemma matching_incident:
  assumes "incidents_good (env, db, q)" "r \<in> set (matching_incidents env db q)"
  obtains t where "se_ended_at (ir_execution r) = Some t" "whole_ms t" "se_id (ir_execution r) \<noteq> []"
proof -
  have "r \<in> set (incident_rows env db) \<and> is_incident r"
    using assms(2) by (auto simp: matching_incidents_def incident_where_def split: sum.splits prod.splits)
  then have "ir_execution r \<in> set (db_executions db)" "se_status (ir_execution r) = ''FAILED''"
    using incident_row_parts(1) by (auto simp: is_incident_def)
  from incidents_goodD(6) [OF assms(1) this] show ?thesis using that by blast
qed

text \<open>With an end time on every row the rows selected by a cursor are those below its row.\<close>

lemma incident_below_row:
  assumes "se_ended_at (ir_execution a) = Some t" "se_ended_at (ir_execution r) = Some u"
  shows "incident_below env (Some (t, collate env (se_id (ir_execution a)))) r \<longleftrightarrow> key_below (incident_key env) a r"
  using assms by (simp add: incident_below_def key_below_def incident_key_def less_prod_def less_eq_prod_def)

lemma list_incidents_eq:
  assumes g: "incidents_good (env, db, q)" and p: "incident_params env q = Inr (limit, since, until)"
    and c: "try_in (if str_truthy c then try_in (incident_decodeCursor env (incident_filters.truncate q) (the c)) (\<lambda>c. Inr (Some c)) else Inr None)
        (bind_cursor env) = Inr key"
  shows "list_incidents env db (q\<lparr>nq_cursor := c\<rparr>) =
    Inr (slice_page limit (incident_encodeCursor env (incident_filters.truncate q))
      (map (mapListItem env) (take (limit + 1) (filter (incident_below env key) (matching_incidents env db q)))))"
proof -
  let ?f = "incident_filters.truncate q"
  let ?rows = "take (limit + 1) (filter (incident_below env key) (matching_incidents env db q))"
  let ?mapped = "map (mapListItem env) ?rows"
  have "(\<lambda>r. incident_where ?f since until r \<and> incident_below env key r) = (\<lambda>r. incident_below env key r \<and> incident_where ?f since until r)" by auto
  then have rows: "take (limit + 1) (order_desc (incident_key env) (filter (\<lambda>r. incident_where ?f since until r \<and> incident_below env key r)
      (incident_rows env db))) = ?rows"
    by (simp add: matching_incidents_def p order_desc_filter)
  have "in_occurredAt (last (take limit ?mapped)) \<noteq> None" if long: "length ?mapped > limit"
  proof -
    have "take limit ?rows \<noteq> []" using long pageSize_bounds [OF incident_params_cases(2) [OF p]] by (cases ?rows) auto
    then obtain r where r: "r \<in> set (take limit ?rows)" "last (take limit ?mapped) = mapListItem env r"
      by (metis last_in_set last_map take_map)
    then have "r \<in> set (matching_incidents env db q)" by (auto dest!: in_set_takeD)
    from matching_incident [OF g this] r(2) show ?thesis by (auto simp: mapListItem_def)
  qed
  then have ok: "\<not> (length ?mapped > limit \<and> in_occurredAt (last (take limit ?mapped)) = None)" by blast
  obtain c' where c': "(if str_truthy c then try_in (incident_decodeCursor env ?f (the c)) (\<lambda>c. Inr (Some c)) else Inr None) = Inr c'"
    "bind_cursor env c' = Inr key" using c by (auto simp: try_in_Inr)
  have sel: "nq_pageSize (q\<lparr>nq_cursor := c\<rparr>) = nq_pageSize q" "nq_cursor (q\<lparr>nq_cursor := c\<rparr>) = c" by simp_all
  show ?thesis
    unfolding list_incidents_def truncate_incident_cursor Let_def sel
    using incident_params_cases [OF p] c' ok by (simp only: rows option.case try_in_simps if_False)
qed

lemma incidents_below:
  assumes "incidents_good (env, db, q)"
  shows "sorted_wrt (key_below (incident_key env)) (matching_incidents env db q)"
proof (cases "incident_params env q")
  case (Inr p)
  obtain limit since until where p: "p = (limit, since, until)" by (cases p)
  let ?rows = "filter (incident_where (incident_filters.truncate q) since until) (incident_rows env db)"
  note laws = incidents_goodD(3,4) [OF assms]
  have "distinct (map (\<lambda>r. se_id (ir_execution r)) ?rows)" using incident_ids_distinct [OF laws] by (rule distinct_map_filter)
  moreover have "se_id (ir_execution x) = se_id (ir_execution y)" if "incident_key env x = incident_key env y" for x y
    using that injD [OF laws(2)] by (simp add: incident_key_def)
  ultimately have "distinct (map (incident_key env) ?rows)" by (rule distinct_key)
  from order_desc_below [OF this] show ?thesis by (simp add: matching_incidents_def Inr p)
qed (simp add: matching_incidents_def)

lemma incidents_next:
  assumes g: "incidents_good (env, db, q)" and p: "incident_params env q = Inr (limit, since, until)"
    and row: "row \<in> set (matching_incidents env db q)"
  shows "list_incidents env db (q\<lparr>nq_cursor := Some (incident_encodeCursor env (incident_filters.truncate q) (mapListItem env row))\<rparr>) =
    Inr (slice_page limit (incident_encodeCursor env (incident_filters.truncate q))
      (map (mapListItem env) (take (limit + 1) (filter (key_below (incident_key env) row) (matching_incidents env db q)))))"
proof -
  let ?f = "incident_filters.truncate q" and ?key = "\<lambda>t. (t, collate env (se_id (ir_execution row)))"
  note laws = incidents_goodD(1,2) [OF g]
  obtain t where t: "se_ended_at (ir_execution row) = Some t" "whole_ms t" "se_id (ir_execution row) \<noteq> []"
    using matching_incident [OF g row] by blast
  note c = cursor_clock [OF laws(2) t(2)]
  have "incident_decodeCursor env ?f (incident_encodeCursor env ?f (mapListItem env row)) =
      Inr (toISOString (pg_date env t), se_id (ir_execution row))"
    using laws(1) t c(1) by (simp add: incident_decodeCursor_def incident_encodeCursor_def cursor_codec json_field_def mapListItem_def)
  moreover have "bind_cursor env (Some (toISOString (pg_date env t), se_id (ir_execution row))) = Inr (Some (?key t))"
    using c(3) by (simp add: bind_cursor_def)
  moreover have "str_truthy (Some (incident_encodeCursor env ?f item))" for item
    using cursor_text_nonempty [OF laws(1)] by (simp add: str_truthy_def incident_encodeCursor_def)
  ultimately have "try_in (if str_truthy (Some (incident_encodeCursor env ?f (mapListItem env row)))
        then try_in (incident_decodeCursor env ?f (the (Some (incident_encodeCursor env ?f (mapListItem env row))))) (\<lambda>c. Inr (Some c)) else Inr None)
      (bind_cursor env) = Inr (Some (?key t))" by simp
  note e = list_incidents_eq [OF g p this]
  have "filter (incident_below env (Some (?key t))) (matching_incidents env db q) =
      filter (key_below (incident_key env) row) (matching_incidents env db q)"
  proof (rule filter_cong [OF refl])
    fix r assume "r \<in> set (matching_incidents env db q)"
    then obtain u where "se_ended_at (ir_execution r) = Some u" using matching_incident [OF g] by blast
    with t(1) show "incident_below env (Some (?key t)) r = key_below (incident_key env) row r" by (rule incident_below_row)
  qed
  with e show ?thesis by (simp only:)
qed

interpretation incident_pages: keyset_query incidents_good fetch_incidents incident_matches
  "\<lambda>q. key_below (incident_key (fst q))" "\<lambda>q. mapListItem (fst q)" incident_limit incident_cursor
proof (unfold_locales)
  fix q :: "'b incident_request" and a b row
  show "key_below (incident_key (fst q)) a b \<Longrightarrow> \<not> key_below (incident_key (fst q)) b a" by (rule key_below_asym)
  assume g: "incidents_good q"
  obtain env db r where q: "q = (env, db, r)" by (cases q)
  obtain limit since until where p: "incident_params env r = Inr (limit, since, until)"
    using incidents_goodD(5) [OF g [unfolded q]] by blast
  note size = incident_params_cases(2) [OF p]
  show "0 < incident_limit q" using size pageSize_bounds [OF size] by (simp add: incident_limit_def q)
  show "sorted_wrt (key_below (incident_key (fst q))) (incident_matches q)"
    using incidents_below [OF g [unfolded q]] by (simp add: incident_matches_def q)
  have "try_in (if str_truthy None then try_in (incident_decodeCursor env (incident_filters.truncate r) (the None)) (\<lambda>c. Inr (Some c)) else Inr None)
      (bind_cursor env) = Inr None" by (simp add: str_truthy_def bind_cursor_def)
  from list_incidents_eq [OF g [unfolded q] p this]
  show "fetch_incidents q None = Inr (slice_page (incident_limit q) (incident_cursor q)
      (map (mapListItem (fst q)) (take (incident_limit q + 1) (incident_matches q))))"
    by (simp add: fetch_incidents_def incident_limit_def incident_cursor_def incident_matches_def incident_below_def q size)
  show "row \<in> set (incident_matches q) \<Longrightarrow> fetch_incidents q (Some (incident_cursor q (mapListItem (fst q) row))) =
      Inr (slice_page (incident_limit q) (incident_cursor q)
        (map (mapListItem (fst q)) (take (incident_limit q + 1) (filter (key_below (incident_key (fst q)) row) (incident_matches q)))))"
    using incidents_next [OF g [unfolded q] p] by (simp add: fetch_incidents_def incident_limit_def incident_cursor_def incident_matches_def q size)
qed

text \<open>Reading every page of the incidents gives each matching incident once, latest first. It holds when every failed
  execution has an end time of whole milliseconds.\<close>

theorem incident_pages_complete:
  assumes "codec_laws env" "clock_laws env" "keys_unique db" "incident_params env q = Inr params"
    and "list_all (\<lambda>e. se_status e = ''FAILED'' \<longrightarrow> (\<exists>t. se_ended_at e = Some t \<and> whole_ms t) \<and> se_id e \<noteq> []) (db_executions db)"
  shows "follow (\<lambda>c. list_incidents env db (q\<lparr>nq_cursor := c\<rparr>)) (Suc (length (matching_incidents env db q))) None =
    Some (Inr (map (mapListItem env) (matching_incidents env db q)))"
proof -
  have "incidents_good (env, db, q)" using assms by (cases params) (simp add: incidents_good_def)
  from incident_pages.pages.follow_all [OF this, unfolded incident_pages.listed_def] show ?thesis
    by (simp only: fetch_incidents_def incident_matches_def prod.case fst_conv length_map)
qed

section \<open>What is an incident\<close>

lemma incident_facts:
  assumes "keys_unique db" "inj (collate env)"
  shows "(\<exists>r \<in> set (incident_rows env db). is_incident r \<and> ir_execution r = e) \<longleftrightarrow>
      e \<in> set (db_executions db) \<and> se_status e = ''FAILED'' \<and>
      (\<exists>i \<in> set (db_instances db). wi_id i = se_instance_id e \<and> wi_status i \<noteq> ''CANCELLED'' \<and>
        (\<exists>d \<in> set (db_definitions db). wd_id d = wi_definition_id i \<and> wd_version d = wi_definition_version i))"
    (is "?listed \<longleftrightarrow> ?failed")
    and "distinct (map (\<lambda>r. se_id (ir_execution r)) (incident_rows env db))"
    and "incident_detail_of env db x \<noteq> None \<longleftrightarrow> (\<exists>r \<in> set (incident_rows env db). is_incident r \<and> se_id (ir_execution r) = x)"
proof -
  show "?listed \<longleftrightarrow> ?failed"
  proof
    assume ?listed
    then obtain r where r: "r \<in> set (incident_rows env db)" "is_incident r" "ir_execution r = e" by blast
    with incident_row_parts [OF r(1)] show ?failed by (auto simp: is_incident_def)
  next
    assume ?failed
    then obtain i d where "i \<in> set (db_instances db)" "wi_id i = se_instance_id e" "wi_status i \<noteq> ''CANCELLED''"
      "d \<in> set (db_definitions db)" "wd_id d = wi_definition_id i" "wd_version d = wi_definition_version i"
      and e: "e \<in> set (db_executions db)" "se_status e = ''FAILED''" by blast
    with incident_row_exists [OF e(1), of i d] show ?listed by (auto simp: is_incident_def)
  qed
  show "distinct (map (\<lambda>r. se_id (ir_execution r)) (incident_rows env db))" by (rule incident_ids_distinct [OF assms])
  have "incident_detail_of env db x = None \<longleftrightarrow> filter (\<lambda>r. se_id (ir_execution r) = x \<and> is_incident r) (incident_rows env db) = []"
    by (simp add: incident_detail_of_def)
  then show "incident_detail_of env db x \<noteq> None \<longleftrightarrow> (\<exists>r \<in> set (incident_rows env db). is_incident r \<and> se_id (ir_execution r) = x)"
    by (auto simp: filter_empty_conv)
qed

text \<open>C34. The rows of the incident list are exactly the failed executions of instances that are not cancelled and whose
  definition is stored, and each of them appears once; the detail of an incident is found exactly for the ids of
  these executions.\<close>

theorem incidents_exact:
  assumes "keys_unique db" "inj (collate env)"
  shows "((\<exists>r \<in> set (incident_rows env db). is_incident r \<and> ir_execution r = e) \<longleftrightarrow>
      e \<in> set (db_executions db) \<and> se_status e = ''FAILED'' \<and>
      (\<exists>i \<in> set (db_instances db). wi_id i = se_instance_id e \<and> wi_status i \<noteq> ''CANCELLED'' \<and>
        (\<exists>d \<in> set (db_definitions db). wd_id d = wi_definition_id i \<and> wd_version d = wi_definition_version i))) \<and>
    distinct (map (\<lambda>r. se_id (ir_execution r)) (incident_rows env db)) \<and>
    (incident_detail_of env db x \<noteq> None \<longleftrightarrow> (\<exists>r \<in> set (incident_rows env db). is_incident r \<and> se_id (ir_execution r) = x))"
  using incident_facts [OF assms] by blast

text \<open>An incident is marked historical exactly when a later attempt of the same step of the same instance exists, in
  the order of attempt number, start time and id.\<close>

theorem historical_exact:
  assumes "keys_unique db" "inj (collate env)" "r \<in> set (incident_rows env db)"
  shows "in_historical (mapListItem env r) \<longleftrightarrow>
    (\<exists>x \<in> set (executions_of db (se_instance_id (ir_execution r)) (se_step_id (ir_execution r))).
      attempt_key env (ir_execution r) < attempt_key env x)"
proof -
  let ?e = "ir_execution r" and ?l = "ir_latest r"
  let ?xs = "set (executions_of db (se_instance_id ?e) (se_step_id ?e))"
  have l: "?l \<in> ?xs" "\<And>x. x \<in> ?xs \<Longrightarrow> x \<noteq> ?l \<Longrightarrow> attempt_key env x < attempt_key env ?l"
    using latest_execution_iff [OF assms(1,2)] incident_row_parts(4) [OF assms(3)] by auto
  have e: "?e \<in> ?xs" using incident_row_parts(1) [OF assms(3)] by (simp add: executions_of_def)
  have id: "se_id ?e = se_id ?l \<longleftrightarrow> ?e = ?l"
  proof
    assume "se_id ?e = se_id ?l"
    moreover have "inj_on se_id (set (db_executions db))" using assms(1) by (simp add: keys_unique_def distinct_map)
    ultimately show "?e = ?l" using e l(1) by (auto simp: executions_of_def dest: inj_onD)
  qed simp
  show ?thesis
  proof (cases "?e = ?l")
    case True
    then have "\<not> attempt_key env ?e < attempt_key env x" if "x \<in> ?xs" for x
      using l(2) [OF that] by (cases "x = ?l") auto
    with True show ?thesis by (auto simp: mapListItem_def)
  next
    case False
    then show ?thesis using l(1) l(2) [OF e] id by (auto simp: mapListItem_def)
  qed
qed

section \<open>Samples\<close>

definition sample_failed :: "string \<Rightarrow> int \<Rightarrow> execution_row" where
  "sample_failed x n = \<lparr>se_id = x, se_instance_id = ''a'', se_step_id = ''pay'', se_step_type = ''SERVICE_TASK'', se_attempt_number = n,
     se_status = ''FAILED'', se_started_at = 1735689600000000, se_ended_at = Some (1735689600000000 + n * 1000),
     se_failure_reason = Some ''timeout'', se_input_snapshot = None, se_output_snapshot = None\<rparr>"

definition sample_loan :: definition_row where
  "sample_loan = \<lparr>wd_id = ''loan'', wd_version = 1, wd_name = ''Loan'', wd_raw_json = []\<rparr>"

definition sample_failures :: database where
  "sample_failures = (sample_db [1735689600000000])
     \<lparr>db_definitions := [sample_loan], db_executions := [sample_failed ''e1'' 1, sample_failed ''e2'' 2]\<rparr>"

definition sample_incident_query :: incident_query where
  "sample_incident_query = \<lparr>n_definitionId = None, n_jobType = None, n_from = None, n_to = None, nq_cursor = None, nq_pageSize = Some ''1''\<rparr>"

lemma sample_failures_laws: "keys_unique sample_failures" "inj (collate sample_monitor)"
  using sample_clock
  by (simp_all add: keys_unique_def sample_failures_def sample_db_def sample_instance_def sample_failed_def clock_laws_def)

lemma sample_latest: "latest_execution sample_monitor sample_failures ''a'' ''pay'' = Some (sample_failed ''e2'' 2)"
  by (simp add: latest_execution_def executions_of_def sample_failures_def sample_failed_def order_desc_def attempt_key_def first_row_def)

definition sample_incident :: "string \<Rightarrow> int \<Rightarrow> incident_row" where
  "sample_incident x n = \<lparr>ir_execution = sample_failed x n, ir_instance = sample_instance ''a'' 1735689600000000, ir_definition = sample_loan,
     ir_job = None, ir_latest = sample_failed ''e2'' 2\<rparr>"

lemma sample_rows: "incident_rows sample_monitor sample_failures = [sample_incident ''e1'' 1, sample_incident ''e2'' 2]"
proof -
  have "related_jobs sample_monitor sample_failures = []"
    by (simp add: related_jobs_def order_desc_def sample_failures_def sample_db_def)
  moreover have "filter (\<lambda>i. wi_id i = ''a'') (db_instances sample_failures) = [sample_instance ''a'' 1735689600000000]"
    "filter (\<lambda>d. wd_id d = ''loan'' \<and> wd_version d = 1) (db_definitions sample_failures) = [sample_loan]"
    by (simp_all add: sample_failures_def sample_db_def sample_instance_def sample_loan_def)
  ultimately have "rows_of_execution sample_monitor sample_failures (sample_failed x n) = [sample_incident x n]" for x n
    using sample_latest by (simp add: rows_of_execution_def sample_failed_def sample_incident_def sample_instance_def)
  moreover have "db_executions sample_failures = [sample_failed ''e1'' 1, sample_failed ''e2'' 2]" by (simp add: sample_failures_def)
  ultimately show ?thesis by (simp add: incident_rows_def)
qed

theorem incidents_exact_witness:
  "incident_detail_of sample_monitor sample_failures ''e1'' \<noteq> None \<and> incident_detail_of sample_monitor sample_failures ''e3'' = None \<and>
   (\<exists>r \<in> set (incident_rows sample_monitor sample_failures). is_incident r \<and> ir_execution r = sample_failed ''e1'' 1)"
proof -
  have i: "is_incident (sample_incident x n)" "ir_execution (sample_incident x n) = sample_failed x n" for x n
    by (simp_all add: is_incident_def sample_incident_def sample_failed_def sample_instance_def)
  show ?thesis
    using incidents_exact [OF sample_failures_laws, of "sample_failed ''e1'' 1" "''e1''"]
      incidents_exact [OF sample_failures_laws, of "sample_failed ''e1'' 1" "''e3''"]
    by (simp add: sample_rows i) (simp add: sample_failed_def)
qed

theorem historical_exact_witness:
  "in_historical (mapListItem sample_monitor (sample_incident ''e1'' 1)) \<and> \<not> in_historical (mapListItem sample_monitor (sample_incident ''e2'' 2))"
proof -
  have x: "executions_of sample_failures ''a'' ''pay'' = [sample_failed ''e1'' 1, sample_failed ''e2'' 2]"
    by (simp add: executions_of_def sample_failures_def sample_failed_def)
  have k: "se_instance_id (ir_execution (sample_incident y n)) = ''a''" "se_step_id (ir_execution (sample_incident y n)) = ''pay''"
    "attempt_key sample_monitor (ir_execution (sample_incident y n)) = (n, 1735689600000000, map of_char y)"
    "attempt_key sample_monitor (sample_failed y n) = (n, 1735689600000000, map of_char y)" for y n
    by (simp_all add: sample_incident_def sample_failed_def attempt_key_def sample_monitor_def)
  show ?thesis
    using historical_exact [OF sample_failures_laws, of "sample_incident ''e1'' 1"] historical_exact [OF sample_failures_laws, of "sample_incident ''e2'' 2"]
    by (simp add: sample_rows x k less_prod_def less_eq_prod_def)
qed

theorem incident_pages_complete_witness:
  "follow (\<lambda>c. list_incidents sample_monitor sample_failures (sample_incident_query\<lparr>nq_cursor := c\<rparr>)) 3 None =
    Some (Inr (map (mapListItem sample_monitor) [sample_incident ''e2'' 2, sample_incident ''e1'' 1]))"
proof -
  have "number_of ''1'' = 1" by (simp add: number_of_def)
  then have p: "incident_params sample_monitor sample_incident_query = Inr (1, None, None)"
    by (simp add: incident_params_def sample_incident_query_def sample_monitor_def incident_filters.truncate_def incident_validateFilters_def
        bad_timestamp_def not_increasing_def str_truthy_def pageSize_def bind_timestamp_def is_digit_def)
  have i: "incident_where (incident_filters.truncate sample_incident_query) None None (sample_incident x n)" for x n
    by (simp add: incident_where_def sample_incident_query_def incident_filters.truncate_def str_truthy_def is_incident_def sample_incident_def
        sample_failed_def sample_instance_def)
  have k: "incident_key sample_monitor (sample_incident x n) = ((False, 1735689600000000 + n * 1000), map of_char x)" for x n
    by (simp add: incident_key_def sample_incident_def sample_failed_def sample_monitor_def)
  have m: "matching_incidents sample_monitor sample_failures sample_incident_query = [sample_incident ''e2'' 2, sample_incident ''e1'' 1]"
    by (simp add: matching_incidents_def p sample_rows i order_desc_def k less_eq_prod_def)
  have "list_all (\<lambda>e. se_status e = ''FAILED'' \<longrightarrow> (\<exists>t. se_ended_at e = Some t \<and> whole_ms t) \<and> se_id e \<noteq> []) (db_executions sample_failures)"
    by (simp add: sample_failures_def sample_failed_def whole_ms_def iso_date_def day_from_year_def)
  from incident_pages_complete [OF sample_codec sample_clock sample_failures_laws(1) p this] show ?thesis
    by (simp add: m eval_nat_numeral del: follow.simps)
qed

end
