(* ===== verification/Saved_Filters.thy ===== *)
theory Saved_Filters
  imports Incidents
begin

text \<open>
  The saved filters of the monitor's web application, \<^verbatim>\<open>workflow-monitor/src/saved-filter-storage.ts\<close>, and the checks of
  times in \<^verbatim>\<open>workflow-monitor/src/routes/listFilters.ts\<close>.

  A query string is the list of its entries. How the browser parses and prints it, how JSON text is parsed and
  printed and how long a text is in UTF-8 are arguments, in a record.
\<close>

section \<open>Times\<close>

text \<open>One value of \<^verbatim>\<open>timeRangeError\<close>: the pattern, \<^verbatim>\<open>Date.parse\<close>, and the round trip through \<^verbatim>\<open>toISOString\<close>.\<close>

definition valid_utc_input :: "string \<Rightarrow> bool" where
  "valid_utc_input v =
     (case utc_match v of
        None \<Rightarrow> False
      | Some f \<Rightarrow> (case parse_utc f of None \<Rightarrow> False | Some t \<Rightarrow> take 19 (toISOString t) = take 19 v))"

definition utc_time :: "string \<Rightarrow> int option" where
  "utc_time v = Option.bind (utc_match v) parse_utc"

definition timeRangeError :: "string \<Rightarrow> string \<Rightarrow> string option" where
  "timeRangeError from to =
     (if from \<noteq> [] \<and> \<not> valid_utc_input from then Some ''From must be a valid UTC date and time.''
      else if to \<noteq> [] \<and> \<not> valid_utc_input to then Some ''To must be a valid UTC date and time.''
      else if from \<noteq> [] \<and> to \<noteq> [] \<and>
          (case (utc_time from, utc_time to) of (Some a, Some b) \<Rightarrow> b \<le> a | _ \<Rightarrow> False)
      then Some ''From must be earlier than To (UTC).''
      else None)"

definition utcInputValue :: "string \<Rightarrow> string" where
  "utcInputValue v = (if v = [] then [] else (if length v = 16 then v @ '':00'' else v) @ ''Z'')"

section \<open>Query strings\<close>

type_synonym params = "(string \<times> string) list"

record web_env =
  parse_search :: "string \<Rightarrow> params"
  print_search :: "params \<Rightarrow> string"
  parse_json :: "string \<Rightarrow> json option"
  print_json :: "json \<Rightarrow> string"
  utf8_length :: "string \<Rightarrow> nat"

definition search_get :: "params \<Rightarrow> string \<Rightarrow> string option" where
  "search_get ps k = map_of ps k"

definition search_getAll :: "params \<Rightarrow> string \<Rightarrow> string list" where
  "search_getAll ps k = map snd (filter (\<lambda>p. fst p = k) ps)"

definition search_delete :: "string \<Rightarrow> params \<Rightarrow> params" where
  "search_delete k ps = filter (\<lambda>p. fst p \<noteq> k) ps"

text \<open>\<^verbatim>\<open>set\<close> replaces the first entry of the key and removes the others.\<close>

fun search_set :: "string \<Rightarrow> string \<Rightarrow> params \<Rightarrow> params" where
  "search_set k v [] = [(k, v)]"
| "search_set k v (p # ps) = (if fst p = k then (k, v) # search_delete k ps else p # search_set k v ps)"

section \<open>Normal form of a filter\<close>

datatype filter_kind = Instances | Incidents

definition filter_fields :: "filter_kind \<Rightarrow> string list" where
  "filter_fields kind =
     (case kind of
        Instances \<Rightarrow> [''definitionId'', ''definitionVersion'', ''currentStepId'', ''stepStartedBefore'', ''businessKey'', ''status'', ''from'', ''to'']
      | Incidents \<Rightarrow> [''definitionId'', ''jobType'', ''from'', ''to''])"

definition savedFilterKey :: "filter_kind \<Rightarrow> string" where
  "savedFilterKey kind = ''rochallor.monitor.savedFilters.'' @ (case kind of Instances \<Rightarrow> ''instances'' | Incidents \<Rightarrow> ''incidents'')"

definition get_or_empty :: "params \<Rightarrow> string \<Rightarrow> string" where
  "get_or_empty ps k = (case search_get ps k of Some v \<Rightarrow> v | None \<Rightarrow> [])"

definition KNOWN_STATUSES :: "string list" where
  "KNOWN_STATUSES = [''ACTIVE'', ''WAITING'', ''FAILED'', ''COMPLETED'', ''CANCELLED'']"

text \<open>The checks and the canonical version, on the parsed entries.\<close>

definition check_version :: "params \<Rightarrow> string + params" where
  "check_version ps =
     (case search_get ps ''definitionVersion'' of
        None \<Rightarrow> Inr ps
      | Some v \<Rightarrow>
          if v = [] \<or> \<not> list_all is_digit v \<or> number_of v < 1 \<or> number_of v > 2147483647 \<or> get_or_empty ps ''definitionId'' = []
          then Inl ''Definition version requires a Definition ID and a positive integer.''
          else Inr (search_set ''definitionVersion'' (nat_str (number_of v)) ps))"

definition result_entries :: "filter_kind \<Rightarrow> params \<Rightarrow> string list \<Rightarrow> params" where
  "result_entries kind ps statuses =
     concat (map (\<lambda>field. if field = ''status'' then map (Pair field) statuses
                          else if get_or_empty ps field \<noteq> [] then [(field, get_or_empty ps field)] else []) (filter_fields kind))"

definition normalize_params :: "filter_kind \<Rightarrow> params \<Rightarrow> string + params" where
  "normalize_params kind entries =
     (let source = search_delete ''pageSize'' (search_delete ''cursor'' entries) in
      if list_ex (\<lambda>p. fst p \<notin> set (filter_fields kind) \<or> fst p \<noteq> ''status'' \<and> length (search_getAll source (fst p)) > 1) source
      then Inl ''Unsupported or repeated filter field.''
      else case timeRangeError (get_or_empty source ''from'') (get_or_empty source ''to'') of
        Some e \<Rightarrow> Inl e
      | None \<Rightarrow>
      try_in (check_version source) (\<lambda>source.
      if search_get source ''currentStepId'' \<noteq> None \<and> (get_or_empty source ''currentStepId'' = [] \<or> get_or_empty source ''definitionId'' = [])
      then Inl ''Current Step ID requires a Definition ID.''
      else if search_get source ''stepStartedBefore'' \<noteq> None \<and>
         (get_or_empty source ''currentStepId'' = [] \<or> get_or_empty source ''stepStartedBefore'' = [] \<or>
          timeRangeError (get_or_empty source ''stepStartedBefore'') [] \<noteq> None)
      then Inl ''Step cutoff requires a Current Step ID and a valid UTC time.''
      else let statuses = sort (remdups (search_getAll source ''status'')) in
      if list_ex (\<lambda>s. s \<notin> set KNOWN_STATUSES) statuses then Inl ''Unknown instance status.''
      else Inr (result_entries kind source statuses)))"

definition normalizeFilterSearch :: "web_env \<Rightarrow> filter_kind \<Rightarrow> string \<Rightarrow> string + string" where
  "normalizeFilterSearch web kind search =
     (if length search > 4096 then Inl ''Filter URL exceeds 4,096 characters.''
      else try_in (normalize_params kind (parse_search web search)) (\<lambda>result. Inr (print_search web result)))"

section \<open>Stored views\<close>

record saved_filter =
  sf_id :: string
  sf_name :: string
  sf_search :: string

definition MAX_FILTERS :: nat where "MAX_FILTERS = 20"
definition MAX_STORAGE_BYTES :: nat where "MAX_STORAGE_BYTES = 64 * 1024"

text \<open>\<^verbatim>\<open>toLowerCase\<close> on the code units below 256.\<close>

definition lower_unit :: "char \<Rightarrow> char" where
  "lower_unit c = (let n = (of_char c :: nat) in if (65 \<le> n \<and> n \<le> 90) \<or> (192 \<le> n \<and> n \<le> 222 \<and> n \<noteq> 215) then char_of (n + 32) else c)"

definition to_lower :: "string \<Rightarrow> string" where
  "to_lower s = map lower_unit s"

text \<open>The dash of the message is U+2013 in the source.\<close>

definition bad_view_message :: string where
  "bad_view_message = ''Saved filters need unique names (1-80 characters); at most 20 per list.''"

fun validate_items :: "web_env \<Rightarrow> filter_kind \<Rightarrow> string list \<Rightarrow> string list \<Rightarrow> json list \<Rightarrow> string + saved_filter list" where
  "validate_items web kind ids names [] = Inr []"
| "validate_items web kind ids names (item # rest) =
     (case (json_field item ''id'', json_field item ''name'', json_field item ''search'') of
        (Some (JStr i), Some (JStr n), Some (JStr s)) \<Rightarrow>
          if i = [] \<or> length i > 100 \<or> trim n = [] \<or> length n > 80 \<or> i \<in> set ids \<or> to_lower (trim n) \<in> set names
          then Inl bad_view_message
          else try_in (normalizeFilterSearch web kind s) (\<lambda>search.
               try_in (validate_items web kind (i # ids) (to_lower (trim n) # names) rest) (\<lambda>views.
               Inr (\<lparr>sf_id = i, sf_name = trim n, sf_search = search\<rparr> # views)))
      | _ \<Rightarrow> Inl bad_view_message)"

definition validateViews :: "web_env \<Rightarrow> filter_kind \<Rightarrow> json option \<Rightarrow> string + saved_filter list" where
  "validateViews web kind v =
     (case v of
        Some (JArr items) \<Rightarrow>
          if length items > MAX_FILTERS then Inl ''Save at most 20 filters per list.'' else validate_items web kind [] [] items
      | _ \<Rightarrow> Inl ''Invalid saved-filter data. Clear saved filters to reset.'')"

type_synonym local_storage = "(string, string) omap"

definition loadSavedFilters :: "web_env \<Rightarrow> filter_kind \<Rightarrow> local_storage \<Rightarrow> string + saved_filter list" where
  "loadSavedFilters web kind storage =
     (case map_get storage (savedFilterKey kind) of
        None \<Rightarrow> Inr []
      | Some raw \<Rightarrow>
          if utf8_length web raw > MAX_STORAGE_BYTES
          then Inl ''Saved filters exceed the 64 KiB storage limit. Clear saved filters to reset.''
          else (case parse_json web raw of
                  None \<Rightarrow> Inl ''Invalid saved-filter data. Clear saved filters to reset.''
                | Some parsed \<Rightarrow>
                    if json_field parsed ''version'' \<noteq> Some (JNum 1)
                    then Inl ''Unsupported saved-filter version. Clear saved filters to reset.''
                    else validateViews web kind (json_field parsed ''views'')))"

definition view_json :: "saved_filter \<Rightarrow> json" where
  "view_json v = JObj [(''id'', JStr (sf_id v)), (''name'', JStr (sf_name v)), (''search'', JStr (sf_search v))]"

text \<open>Storing: the new views and the new storage. \<open>fits\<close> says whether \<^verbatim>\<open>setItem\<close> succeeds.\<close>

definition storeSavedFilters ::
    "web_env \<Rightarrow> bool \<Rightarrow> filter_kind \<Rightarrow> saved_filter list \<Rightarrow> local_storage \<Rightarrow> string + saved_filter list \<times> local_storage" where
  "storeSavedFilters web fits kind views storage =
     try_in (validateViews web kind (Some (JArr (map view_json views)))) (\<lambda>valid.
     let raw = print_json web (JObj [(''version'', JNum 1), (''views'', JArr (map view_json valid))]) in
     if utf8_length web raw > MAX_STORAGE_BYTES then Inl ''Saved filters exceed the 64 KiB storage limit.''
     else if \<not> fits then Inl ''QuotaExceededError''
     else Inr (valid, map_set (savedFilterKey kind) raw storage))"

section \<open>Times in the browser and on the server\<close>

lemma digit_char_of: "is_digit c \<Longrightarrow> digit_char (of_char c - 48) = c \<and> of_char c - 48 < (10 :: nat)"
  by (simp add: is_digit_def digit_char_def less_eq_char_def) linarith

lemma pad_number_of: "list_all is_digit s \<Longrightarrow> pad (length s) (number_of s) = s"
proof (induction s rule: rev_induct)
  case (snoc c s)
  then have c: "digit_char (of_char c - 48) = c" "of_char c - 48 < (10 :: nat)" using digit_char_of [of c] by simp_all
  have "(10 * number_of s + (of_char c - 48)) div 10 = number_of s" "(10 * number_of s + (of_char c - 48)) mod 10 = of_char c - 48"
    using c(2) by simp_all
  with snoc c(1) show ?case by (simp add: number_of_snoc)
qed simp

lemma slice_append: "a \<le> b \<Longrightarrow> b \<le> c \<Longrightarrow> slice a b v @ slice b c v = slice a c v"
proof -
  assume "a \<le> b" "b \<le> c"
  then have "slice a b v @ slice b c v = drop a (take b (take c v)) @ drop b (take c v)" by (simp add: slice_def min_def)
  also have "\<dots> = take (b - a) (drop a (take c v)) @ drop (b - a) (drop a (take c v))"
    using \<open>a \<le> b\<close> by (simp only: drop_take drop_drop) simp
  finally show ?thesis by (simp only: append_take_drop_id slice_def)
qed

lemma slice_one: "n < length v \<Longrightarrow> slice n (Suc n) v = [v ! n]"
  by (simp add: slice_def take_Suc_conv_app_nth)

text \<open>The fixed part of a timestamp, from its fields.\<close>

definition fixed_part :: "nat \<Rightarrow> nat \<Rightarrow> nat \<Rightarrow> nat \<Rightarrow> nat \<Rightarrow> nat \<Rightarrow> string" where
  "fixed_part y mo d h mi s = pad 4 y @ ''-'' @ pad 2 mo @ ''-'' @ pad 2 d @ ''T'' @ pad 2 h @ '':'' @ pad 2 mi @ '':'' @ pad 2 s"

lemma fixed_part_inj:
  assumes "fixed_part y mo d h mi s = fixed_part y' mo' d' h' mi' s'"
    and "y < 10000" "mo < 100" "d < 100" "h < 100" "mi < 100" "s < 100" "y' < 10000" "mo' < 100" "d' < 100" "h' < 100" "mi' < 100" "s' < 100"
  shows "y = y'" "mo = mo'" "d = d'" "h = h'" "mi = mi'" "s = s'"
proof -
  have inj: "a = b" if "pad n a = pad n b" "a < 10 ^ n" "b < 10 ^ n" for n a b
  proof -
    have "a mod 10 ^ n = b mod 10 ^ n" using number_of_pad [of n a, symmetric] number_of_pad [of n b] that(1) by (simp only:)
    then show ?thesis by (simp only: mod_less [OF that(2)] mod_less [OF that(3)])
  qed
  have p: "pad 4 y = pad 4 y'" "pad 2 mo = pad 2 mo'" "pad 2 d = pad 2 d'" "pad 2 h = pad 2 h'" "pad 2 mi = pad 2 mi'" "pad 2 s = pad 2 s'"
    using assms(1) [unfolded fixed_part_def]
    by (simp_all only: append_eq_append_conv length_pad append_Cons append_Nil list.inject simp_thms)
  show "y = y'" "mo = mo'" "d = d'" "h = h'" "mi = mi'" "s = s'"
    using inj [OF p(1)] inj [OF p(2)] inj [OF p(3)] inj [OF p(4)] inj [OF p(5)] inj [OF p(6)] assms(2-) by simp_all
qed

lemma utc_match_prefix:
  assumes "utc_match v = Some f"
  shows "take 19 v = fixed_part (u_year f) (u_month f) (u_day f) (u_hour f) (u_minute f) (u_second f)"
    "u_year f < 10000" "u_month f < 100" "u_day f < 100" "u_hour f < 100" "u_minute f < 100" "u_second f < 100"
proof -
  have l: "length v \<ge> 20"
    and d: "list_all is_digit (slice 0 4 v)" "list_all is_digit (slice 5 7 v)" "list_all is_digit (slice 8 10 v)"
      "list_all is_digit (slice 11 13 v)" "list_all is_digit (slice 14 16 v)" "list_all is_digit (slice 17 19 v)"
    and c: "v ! 4 = CHR ''-''" "v ! 7 = CHR ''-''" "v ! 10 = CHR ''T''" "v ! 13 = CHR '':''" "v ! 16 = CHR '':''"
    and f: "u_year f = number_of (slice 0 4 v)" "u_month f = number_of (slice 5 7 v)" "u_day f = number_of (slice 8 10 v)"
      "u_hour f = number_of (slice 11 13 v)" "u_minute f = number_of (slice 14 16 v)" "u_second f = number_of (slice 17 19 v)"
    using assms by (auto simp: utc_match_def split: if_splits)
  have n: "length (slice 0 4 v) = 4" "length (slice 5 7 v) = 2" "length (slice 8 10 v) = 2" "length (slice 11 13 v) = 2"
    "length (slice 14 16 v) = 2" "length (slice 17 19 v) = 2" using l by (simp_all add: slice_def)
  have one: "slice 4 5 v = ''-''" "slice 7 8 v = ''-''" "slice 10 11 v = ''T''" "slice 13 14 v = '':''" "slice 16 17 v = '':''"
    using slice_one [of 4 v] slice_one [of 7 v] slice_one [of 10 v] slice_one [of 13 v] slice_one [of 16 v] l c by simp_all
  note p = pad_number_of [OF d(1)] pad_number_of [OF d(2)] pad_number_of [OF d(3)] pad_number_of [OF d(4)] pad_number_of [OF d(5)]
    pad_number_of [OF d(6)]
  have "take 19 v = slice 0 4 v @ slice 4 5 v @ slice 5 7 v @ slice 7 8 v @ slice 8 10 v @ slice 10 11 v @ slice 11 13 v @
      slice 13 14 v @ slice 14 16 v @ slice 16 17 v @ slice 17 19 v"
    by (simp only: slice_append le0 numeral_le_iff semiring_norm) (simp add: slice_def)
  then show "take 19 v = fixed_part (u_year f) (u_month f) (u_day f) (u_hour f) (u_minute f) (u_second f)"
    unfolding fixed_part_def f one using p [unfolded n] by simp
  show "u_year f < 10000" "u_month f < 100" "u_day f < 100" "u_hour f < 100" "u_minute f < 100" "u_second f < 100"
    using number_of_bound [OF d(1)] number_of_bound [OF d(2)] number_of_bound [OF d(3)] number_of_bound [OF d(4)] number_of_bound [OF d(5)]
      number_of_bound [OF d(6)] f n by simp_all
qed

lemma nat_mod_small: "0 < k \<Longrightarrow> k \<le> 100 \<Longrightarrow> nat (x mod k) < 100" for x k :: int
  by (subst nat_less_iff) (auto intro: less_le_trans [OF pos_mod_bound])

lemma nat_small: "x \<le> 9999 \<Longrightarrow> nat x < 10000"
  by linarith

lemma nat_small': "x \<le> 31 \<Longrightarrow> nat x < 100"
  by linarith

lemma nat_eqD: "0 \<le> x \<Longrightarrow> nat x = n \<Longrightarrow> x = int n"
  by simp

lemma fixed_part_length [simp]: "length (fixed_part y mo d h mi s) = 19"
  by (simp add: fixed_part_def)

lemma iso_prefix:
  fixes t :: int
  defines "d \<equiv> t div 86400000"
  assumes "year_from_day d \<le> 9999"
  shows "take 19 (toISOString t) = fixed_part (nat (year_from_day d)) (month_from_day d) (nat (date_from_day d))
    (nat ((t div 3600000) mod 24)) (nat ((t div 60000) mod 60)) (nat ((t div 1000) mod 60))"
proof -
  have y: "year_text (nat (year_from_day d)) = pad 4 (nat (year_from_day d))" using assms(2) by (simp add: year_text_def nat_le_iff)
  have "toISOString t = fixed_part (nat (year_from_day d)) (month_from_day d) (nat (date_from_day d))
    (nat ((t div 3600000) mod 24)) (nat ((t div 60000) mod 60)) (nat ((t div 1000) mod 60)) @ ''.'' @ pad 3 (nat (t mod 1000)) @ ''Z''"
    unfolding toISOString_def Let_def d_def [symmetric] y fixed_part_def by (simp only: append_assoc)
  then show ?thesis by (simp only: take_append fixed_part_length) simp
qed

lemma parse_utc_day:
  assumes "utc_match v = Some f" "parse_utc f = Some t"
  shows "day_from_year 0 \<le> t div 86400000" "t div 86400000 < day_from_year 10001"
proof -
  let ?y = "int (u_year f)"
  let ?D = "make_day ?y (u_month f) (int (u_day f))"
  define rest where "rest = int (u_hour f) * 3600000 + int (u_minute f) * 60000 + int (u_second f) * 1000 + int (u_millis f)"
  note b = utc_match_bounds [OF assms(1)]
  have r: "1 \<le> u_month f" "u_month f \<le> 12" "1 \<le> u_day f" "u_day f \<le> 31"
    and h: "u_hour f \<le> 23 \<and> u_minute f \<le> 59 \<and> u_second f \<le> 59 \<or> u_hour f = 24 \<and> u_minute f = 0 \<and> u_second f = 0 \<and> u_millis f = 0"
    and t: "t = ?D * 86400000 + rest"
    using assms(2) by (auto simp: parse_utc_def rest_def split: if_splits)
  have rest: "0 \<le> rest" "rest \<le> 86400000" using h b by (auto simp: rest_def)
  have "month_starts ?y ! 0 \<le> month_starts ?y ! (u_month f - 1)" "month_starts ?y ! (u_month f - 1) \<le> month_starts ?y ! 11"
    using r(1,2) by (intro month_starts_mono; simp)+
  then have D: "day_from_year ?y \<le> ?D" "?D < day_from_year (?y + 1)"
    using r(3,4) year_length [of ?y] by (auto simp: make_day_def month_starts_def Let_def split: if_splits)
  have "?D * 86400000 div 86400000 \<le> t div 86400000" "t div 86400000 \<le> (?D + 1) * 86400000 div 86400000"
    using rest by (simp_all only: t) (intro zdiv_mono1; simp)+
  then have q: "?D \<le> t div 86400000" "t div 86400000 \<le> ?D + 1" by simp_all
  show "day_from_year 0 \<le> t div 86400000" using q(1) D(1) day_from_year_mono [of 0 ?y] by simp
  have "day_from_year (?y + 1) \<le> day_from_year 10000" using b by (intro day_from_year_mono) simp
  then show "t div 86400000 < day_from_year 10001" using q(2) D(2) year_length [of 10000] by (simp split: if_splits)
qed

text \<open>The browser accepts a time exactly when the server does.\<close>

lemma valid_utc_input_iff: "valid_utc_input v \<longleftrightarrow> isUtcTimestamp v"
proof (cases "utc_match v")
  case (Some f)
  show ?thesis
  proof (cases "parse_utc f")
    case parsed: (Some t)
    let ?d = "t div 86400000"
    note p = utc_match_prefix [OF Some]
    note range = parse_utc_day [OF Some parsed]
    note M = month_from_day [OF range] and D = date_in_month [OF range]
    have y0: "0 \<le> year_from_day ?d" using year_from_day [OF range] range(1) day_from_year_mono [of "year_from_day ?d + 1" 0] by linarith
    have d31: "date_from_day ?d \<le> 31" using D days_in_month_le [of "year_from_day ?d" "month_from_day ?d"] by simp
    let ?getters = "year_from_day ?d = int (u_year f) \<and> month_from_day ?d = u_month f \<and> date_from_day ?d = int (u_day f) \<and>
        (t div 3600000) mod 24 = int (u_hour f) \<and> (t div 60000) mod 60 = int (u_minute f) \<and> (t div 1000) mod 60 = int (u_second f)"
    have "take 19 (toISOString t) = take 19 v \<longleftrightarrow> ?getters"
    proof
      assume eq: "take 19 (toISOString t) = take 19 v"
      have y: "year_from_day ?d \<le> 9999"
      proof (rule ccontr)
        assume "\<not> ?thesis"
        have ne: "pad 4 (u_year f) \<noteq> []" using length_pad [of 4 "u_year f"] by fastforce
        from \<open>\<not> ?thesis\<close> have "hd (take 19 (toISOString t)) = CHR ''+''" by (simp add: toISOString_def Let_def year_text_def nat_le_iff)
        moreover have "hd (take 19 v) = hd (pad 4 (u_year f))" unfolding p(1) fixed_part_def using ne by simp
        moreover have "is_digit (hd (pad 4 (u_year f)))" using pad_digits [of 4 "u_year f"] ne by (cases "pad 4 (u_year f)") simp_all
        ultimately show False using eq by (simp add: is_digit_def)
      qed
      have m: "month_from_day ?d < 100" and d0: "0 \<le> date_from_day ?d"
        using M D order_trans [OF zero_le_one] by (auto elim: le_less_trans)
      note e = fixed_part_inj [OF eq [unfolded iso_prefix [OF y] p(1)] nat_small [OF y] m nat_small' [OF d31]
          nat_mod_small nat_mod_small nat_mod_small p(2-7)]
      have nn: "(0 :: int) < 24" "(24 :: int) \<le> 100" "(0 :: int) < 60" "(60 :: int) \<le> 100" by simp_all
      show ?getters
        using nat_eqD [OF y0 e(1)] e(2) nat_eqD [OF d0 e(3)] nat_eqD [OF pos_mod_sign e(4)] nat_eqD [OF pos_mod_sign e(5)]
          nat_eqD [OF pos_mod_sign e(6)] nn by (intro conjI) blast+
    next
      assume g: ?getters
      then have "year_from_day ?d \<le> 9999" using p(2) by simp
      from iso_prefix [OF this] g show "take 19 (toISOString t) = take 19 v" by (simp only: p(1) nat_int)
    qed
    then show ?thesis by (simp only: valid_utc_input_def isUtcTimestamp_def Some parsed option.case)
  qed (simp add: valid_utc_input_def isUtcTimestamp_def Some)
qed (simp add: valid_utc_input_def isUtcTimestamp_def)

lemma time_checks:
  "timeRangeError since until = None \<longleftrightarrow>
     \<not> bad_timestamp (Some since) \<and> \<not> bad_timestamp (Some until) \<and> \<not> not_increasing env (Some since) (Some until)"
proof -
  have "date_parse env v = utc_time v" if "isUtcTimestamp v" for v
    using that by (cases "utc_match v") (simp_all add: date_parse_def utc_time_def isUtcTimestamp_def)
  then show ?thesis
    by (cases "isUtcTimestamp since"; cases "isUtcTimestamp until")
      (simp_all add: timeRangeError_def bad_timestamp_def not_increasing_def str_truthy_def valid_utc_input_iff)
qed

text \<open>The check of a time range in the browser agrees with the one of the server: it reports no error exactly when the
  server finds both times valid and the range increasing.\<close>

theorem time_checks_agree:
  "timeRangeError since until = None \<longleftrightarrow>
     \<not> bad_timestamp (Some since) \<and> \<not> bad_timestamp (Some until) \<and> \<not> not_increasing env (Some since) (Some until)"
  by (rule time_checks)

section \<open>The normal form\<close>

lemma search_get_set: "search_get (search_set k v ps) k' = (if k' = k then Some v else search_get ps k')"
proof (induction ps)
  case (Cons p ps)
  have "map_of (search_delete k ps) k' = map_of ps k'" if "k' \<noteq> k"
    using that by (induction ps) (auto simp: search_delete_def)
  with Cons show ?case by (cases p) (auto simp: search_get_def)
qed (simp add: search_get_def)

lemma get_or_empty_set: "get_or_empty (search_set k v ps) k' = (if k' = k then v else get_or_empty ps k')"
  by (simp add: get_or_empty_def search_get_set)

lemma getAll_set: "k' \<noteq> k \<Longrightarrow> search_getAll (search_set k v ps) k' = search_getAll ps k'"
proof (induction ps)
  case (Cons p ps)
  have "filter (\<lambda>p. fst p = k') (search_delete k ps) = filter (\<lambda>p. fst p = k') ps"
    using Cons.prems by (auto simp: search_delete_def intro: filter_cong)
  with Cons show ?case by (auto simp: search_getAll_def)
qed (simp add: search_getAll_def)

text \<open>Entries grouped by field.\<close>

lemma grouped_get:
  assumes "distinct fs" "\<And>f p. p \<in> set (g f) \<Longrightarrow> fst p = f"
  shows "map_of (concat (map g fs)) k = (if k \<in> set fs then map_of (g k) k else None)"
  using assms(1)
proof (induction fs)
  case (Cons f fs)
  have "map_of (g f) k = None" if "k \<noteq> f" using assms(2) [of _ f] that by (metis fst_conv map_of_SomeD not_None_eq)
  with Cons show ?case by (cases "k = f") (auto simp: map_add_def split: option.split)
qed simp

lemma grouped_filter:
  assumes "distinct fs" "\<And>f p. p \<in> set (g f) \<Longrightarrow> fst p = f"
  shows "filter (\<lambda>p. fst p = k) (concat (map g fs)) = (if k \<in> set fs then g k else [])"
  using assms(1)
proof (induction fs)
  case (Cons f fs)
  have "filter (\<lambda>p. fst p = k) (g f) = (if k = f then g f else [])"
    using assms(2) [of _ f] by (auto simp: filter_empty_conv filter_id_conv)
  with Cons show ?case by auto
qed simp

definition field_entries :: "params \<Rightarrow> string list \<Rightarrow> string \<Rightarrow> params" where
  "field_entries ps statuses field =
     (if field = ''status'' then map (Pair field) statuses
      else if get_or_empty ps field \<noteq> [] then [(field, get_or_empty ps field)] else [])"

lemma result_entries_fields: "result_entries kind ps statuses = concat (map (field_entries ps statuses) (filter_fields kind))"
  by (simp add: result_entries_def field_entries_def [abs_def])

lemma filter_fields_distinct: "distinct (filter_fields kind)"
  by (cases kind) (simp_all add: filter_fields_def)

lemma field_entries_key: "p \<in> set (field_entries ps statuses f) \<Longrightarrow> fst p = f"
  by (auto simp: field_entries_def split: if_splits)

lemma result_grouped:
  "map_of (result_entries kind ps statuses) k = (if k \<in> set (filter_fields kind) then map_of (field_entries ps statuses k) k else None)"
  "filter (\<lambda>p. fst p = k) (result_entries kind ps statuses) = (if k \<in> set (filter_fields kind) then field_entries ps statuses k else [])"
  unfolding result_entries_fields
  by (rule grouped_get [OF filter_fields_distinct field_entries_key], assumption)
    (rule grouped_filter [OF filter_fields_distinct field_entries_key])

lemma result_get: "f \<noteq> ''status'' \<Longrightarrow> search_get (result_entries kind ps statuses) f =
    (if f \<in> set (filter_fields kind) \<and> get_or_empty ps f \<noteq> [] then Some (get_or_empty ps f) else None)"
  by (simp add: search_get_def result_grouped field_entries_def)

lemma result_get_or_empty: "f \<noteq> ''status'' \<Longrightarrow> get_or_empty (result_entries kind ps statuses) f = (if f \<in> set (filter_fields kind) then get_or_empty ps f else [])"
  by (simp add: get_or_empty_def [of "result_entries kind ps statuses"] result_get)

lemma result_statuses: "search_getAll (result_entries kind ps statuses) ''status'' = (if ''status'' \<in> set (filter_fields kind) then statuses else [])"
  by (simp add: search_getAll_def result_grouped field_entries_def comp_def)

lemma result_single: "f \<noteq> ''status'' \<Longrightarrow> length (search_getAll (result_entries kind ps statuses) f) \<le> 1"
  by (simp add: search_getAll_def result_grouped field_entries_def)

lemma result_keys: "p \<in> set (result_entries kind ps statuses) \<Longrightarrow> fst p \<in> set (filter_fields kind)"
  by (auto simp: result_entries_fields dest: field_entries_key)

text \<open>What holds of the entries a normal form was made from.\<close>

definition version_ok :: "params \<Rightarrow> bool" where
  "version_ok ps \<longleftrightarrow> (\<forall>v. search_get ps ''definitionVersion'' = Some v \<longrightarrow> (\<exists>m. v = nat_str m \<and> 1 \<le> m \<and> m \<le> 2147483647) \<and> get_or_empty ps ''definitionId'' \<noteq> [])"

definition source_ok :: "params \<Rightarrow> bool" where
  "source_ok ps \<longleftrightarrow> timeRangeError (get_or_empty ps ''from'') (get_or_empty ps ''to'') = None \<and> version_ok ps \<and>
     (search_get ps ''currentStepId'' \<noteq> None \<longrightarrow> get_or_empty ps ''currentStepId'' \<noteq> [] \<and> get_or_empty ps ''definitionId'' \<noteq> []) \<and>
     (search_get ps ''stepStartedBefore'' \<noteq> None \<longrightarrow> get_or_empty ps ''currentStepId'' \<noteq> [] \<and> get_or_empty ps ''stepStartedBefore'' \<noteq> [] \<and>
       timeRangeError (get_or_empty ps ''stepStartedBefore'') [] = None) \<and>
     list_all (\<lambda>s. s \<in> set KNOWN_STATUSES) (search_getAll ps ''status'')"

lemma check_version_ok:
  assumes "check_version ps = Inr ps'"
  shows "version_ok ps'" "k \<noteq> ''definitionVersion'' \<Longrightarrow> search_get ps' k = search_get ps k" "search_getAll ps' ''status'' = search_getAll ps ''status''"
proof -
  consider "search_get ps ''definitionVersion'' = None" "ps' = ps"
    | v where "ps' = search_set ''definitionVersion'' (nat_str (number_of v)) ps" "1 \<le> number_of v" "number_of v \<le> 2147483647"
      "get_or_empty ps ''definitionId'' \<noteq> []"
    using assms by (auto simp: check_version_def split: option.splits if_splits)
  note cases = this
  show "version_ok ps'"
    using cases by cases (auto simp: version_ok_def search_get_set get_or_empty_set)
  show "k \<noteq> ''definitionVersion'' \<Longrightarrow> search_get ps' k = search_get ps k"
    using cases by cases (auto simp: search_get_set)
  show "search_getAll ps' ''status'' = search_getAll ps ''status''"
    using cases by cases (auto simp: getAll_set)
qed

lemma normalize_params_ok:
  assumes "normalize_params kind entries = Inr out"
  obtains ps where "source_ok ps" "out = result_entries kind ps (sort (remdups (search_getAll ps ''status'')))"
proof -
  let ?s = "search_delete ''pageSize'' (search_delete ''cursor'' entries)"
  have t: "timeRangeError (get_or_empty ?s ''from'') (get_or_empty ?s ''to'') = None"
    using assms by (auto simp: normalize_params_def Let_def split: if_splits option.splits)
  obtain ps where v: "check_version ?s = Inr ps"
    and c: "\<not> (search_get ps ''currentStepId'' \<noteq> None \<and> (get_or_empty ps ''currentStepId'' = [] \<or> get_or_empty ps ''definitionId'' = []))"
    "\<not> (search_get ps ''stepStartedBefore'' \<noteq> None \<and>
         (get_or_empty ps ''currentStepId'' = [] \<or> get_or_empty ps ''stepStartedBefore'' = [] \<or>
          timeRangeError (get_or_empty ps ''stepStartedBefore'') [] \<noteq> None))"
    "\<not> list_ex (\<lambda>s. s \<notin> set KNOWN_STATUSES) (sort (remdups (search_getAll ps ''status'')))"
    and out: "out = result_entries kind ps (sort (remdups (search_getAll ps ''status'')))"
    using assms t by (auto simp: normalize_params_def Let_def try_in_Inr split: if_splits)
  have g: "get_or_empty ps k = get_or_empty ?s k" if "k \<noteq> ''definitionVersion''" for k
    using check_version_ok(2) [OF v that] by (simp add: get_or_empty_def)
  have "list_all (\<lambda>s. s \<in> set KNOWN_STATUSES) (search_getAll ps ''status'')"
    using c(3) by (simp add: list_ex_iff list_all_iff)
  then have "source_ok ps"
    using t check_version_ok(1) [OF v] c(1,2) g [of "''from''"] g [of "''to''"] unfolding source_ok_def by auto
  with out that show ?thesis by blast
qed

section \<open>Normalising twice\<close>

lemma search_set_same: "search_get ps k = Some v \<Longrightarrow> length (search_getAll ps k) \<le> 1 \<Longrightarrow> search_set k v ps = ps"
proof (induction ps)
  case (Cons p ps)
  show ?case
  proof (cases "fst p = k")
    case True
    then have "filter (\<lambda>q. fst q = k) ps = []" using Cons.prems(2) by (simp add: search_getAll_def)
    then have "search_delete k ps = ps" by (auto simp: search_delete_def filter_empty_conv filter_id_conv)
    with True Cons.prems(1) show ?thesis by (cases p) (simp add: search_get_def)
  next
    case False
    with Cons show ?thesis by (cases p) (simp add: search_get_def search_getAll_def)
  qed
qed (simp add: search_get_def)

lemma result_delete: "k \<notin> set (filter_fields kind) \<Longrightarrow> search_delete k (result_entries kind ps statuses) = result_entries kind ps statuses"
  using result_keys [of _ kind ps statuses] by (auto simp: search_delete_def filter_id_conv)

lemma result_again: "result_entries kind (result_entries kind ps statuses) statuses = result_entries kind ps statuses"
proof -
  have "field_entries (result_entries kind ps statuses) statuses f = field_entries ps statuses f" if "f \<in> set (filter_fields kind)" for f
    using that result_get_or_empty [of f kind ps statuses] by (simp add: field_entries_def)
  then show ?thesis unfolding result_entries_fields [of kind "result_entries kind ps statuses"] result_entries_fields [of kind ps]
    by (metis (mono_tags, lifting) map_eq_conv result_entries_fields)
qed

lemma version_result:
  assumes "source_ok ps"
  shows "check_version (result_entries kind ps statuses) = Inr (result_entries kind ps statuses)"
proof -
  let ?out = "result_entries kind ps statuses"
  show ?thesis
  proof (cases "search_get ?out ''definitionVersion''")
    case (Some v)
    then have k: "''definitionVersion'' \<in> set (filter_fields kind)" and g: "get_or_empty ps ''definitionVersion'' = v" "v \<noteq> []"
      by (simp_all add: result_get split: if_splits)
    then have "search_get ps ''definitionVersion'' = Some v" by (auto simp: get_or_empty_def split: option.splits)
    with assms obtain m where m: "v = nat_str m" "1 \<le> m" "m \<le> 2147483647" "get_or_empty ps ''definitionId'' \<noteq> []"
      by (auto simp: source_ok_def version_ok_def)
    have "''definitionId'' \<in> set (filter_fields kind)" by (cases kind) (simp_all add: filter_fields_def)
    then have "get_or_empty ?out ''definitionId'' \<noteq> []" using m(4) by (simp add: result_get_or_empty)
    moreover have "search_set ''definitionVersion'' v ?out = ?out"
      by (rule search_set_same [OF Some], rule result_single) simp
    ultimately show ?thesis using Some m nat_str_digits [of m] by (simp add: check_version_def number_of_nat_str)
  qed (simp add: check_version_def)
qed

text \<open>The normal form is a fixed point.\<close>

lemma normalize_again:
  assumes "normalize_params kind entries = Inr out"
  shows "normalize_params kind out = Inr out"
proof -
  obtain ps where ok: "source_ok ps" and out: "out = result_entries kind ps (sort (remdups (search_getAll ps ''status'')))"
    using normalize_params_ok [OF assms] by blast
  let ?sts = "sort (remdups (search_getAll ps ''status''))"
  have "''cursor'' \<notin> set (filter_fields kind)" "''pageSize'' \<notin> set (filter_fields kind)"
    and f: "''from'' \<in> set (filter_fields kind)" "''to'' \<in> set (filter_fields kind)" "''definitionId'' \<in> set (filter_fields kind)"
    by (cases kind; simp add: filter_fields_def)+
  then have del: "search_delete ''pageSize'' (search_delete ''cursor'' out) = out" by (simp add: out result_delete)
  have g: "get_or_empty out k = (if k \<in> set (filter_fields kind) then get_or_empty ps k else [])"
    "search_get out k = (if k \<in> set (filter_fields kind) \<and> get_or_empty ps k \<noteq> [] then Some (get_or_empty ps k) else None)"
    if "k \<noteq> ''status''" for k using that by (simp_all add: out result_get_or_empty result_get)
  have keys: "\<not> list_ex (\<lambda>p. fst p \<notin> set (filter_fields kind) \<or> fst p \<noteq> ''status'' \<and> length (search_getAll out (fst p)) > 1) out"
    using result_keys [of _ kind ps ?sts] result_single [of _ kind ps ?sts] by (auto simp: list_ex_iff out not_less)
  have time: "timeRangeError (get_or_empty out ''from'') (get_or_empty out ''to'') = None"
    using ok f by (simp add: g source_ok_def)
  have steps: "''currentStepId'' \<in> set (filter_fields kind) \<longleftrightarrow> ''stepStartedBefore'' \<in> set (filter_fields kind)"
    by (cases kind) (simp_all add: filter_fields_def)
  have step: "\<not> (search_get out ''currentStepId'' \<noteq> None \<and> (get_or_empty out ''currentStepId'' = [] \<or> get_or_empty out ''definitionId'' = []))"
    using ok f by (auto simp: g source_ok_def get_or_empty_def split: option.splits)
  have cut: "\<not> (search_get out ''stepStartedBefore'' \<noteq> None \<and>
         (get_or_empty out ''currentStepId'' = [] \<or> get_or_empty out ''stepStartedBefore'' = [] \<or>
          timeRangeError (get_or_empty out ''stepStartedBefore'') [] \<noteq> None))"
    using ok steps by (auto simp: g source_ok_def get_or_empty_def split: option.splits)
  have sts: "sort (remdups (search_getAll out ''status'')) = (if ''status'' \<in> set (filter_fields kind) then ?sts else [])"
    by (simp add: out result_statuses sorted_sort_id distinct_remdups_id)
  have known: "\<not> list_ex (\<lambda>s. s \<notin> set KNOWN_STATUSES) (sort (remdups (search_getAll out ''status'')))"
    using ok by (simp add: sts source_ok_def list_ex_iff list_all_iff)
  have "result_entries kind out (sort (remdups (search_getAll out ''status''))) = out"
  proof (cases "''status'' \<in> set (filter_fields kind)")
    case False
    then have "field_entries q [] f = field_entries q ?sts f" if "f \<in> set (filter_fields kind)" for q f
      using that by (auto simp: field_entries_def)
    then have "result_entries kind q [] = result_entries kind q ?sts" for q
      unfolding result_entries_fields by (intro arg_cong [where f = concat] map_cong refl) blast
    with False show ?thesis by (simp add: sts) (simp add: out result_again)
  qed (simp add: sts, simp add: out result_again)
  with version_result [OF ok, of kind ?sts, folded out] keys time step cut known show ?thesis
    unfolding normalize_params_def del Let_def by (simp only: if_False option.case try_in_simps)
qed

section \<open>What the server makes of a saved filter\<close>

text \<open>How the server's framework hands a query parameter to the handler is an argument: absent, one text, or the
  list of its values when it is repeated.\<close>

definition query_laws :: "(params \<Rightarrow> string \<Rightarrow> query_value option) \<Rightarrow> bool" where
  "query_laws qget \<longleftrightarrow> (\<forall>ps k. qget ps k = (case search_getAll ps k of [] \<Rightarrow> None | [v] \<Rightarrow> Some (One v) | vs \<Rightarrow> Some (Many vs)))"

definition one_text :: "query_value option \<Rightarrow> string option" where
  "one_text v = (case v of Some (One s) \<Rightarrow> Some s | _ \<Rightarrow> None)"

definition instance_filters_of :: "(string \<Rightarrow> query_value option) \<Rightarrow> instance_filters" where
  "instance_filters_of g =
     \<lparr>f_definitionId = one_text (g ''definitionId''), f_definitionVersion = g ''definitionVersion'',
      f_currentStepId = g ''currentStepId'', f_stepStartedBefore = g ''stepStartedBefore'', f_status = g ''status'',
      f_businessKey = one_text (g ''businessKey''), f_from = one_text (g ''from''), f_to = one_text (g ''to'')\<rparr>"

definition incident_filters_of :: "(string \<Rightarrow> query_value option) \<Rightarrow> incident_filters" where
  "incident_filters_of g =
     \<lparr>n_definitionId = one_text (g ''definitionId''), n_jobType = one_text (g ''jobType''),
      n_from = one_text (g ''from''), n_to = one_text (g ''to'')\<rparr>"

definition server_accepts :: "'b monitor_env \<Rightarrow> filter_kind \<Rightarrow> (string \<Rightarrow> query_value option) \<Rightarrow> bool" where
  "server_accepts env kind g \<longleftrightarrow>
     (case kind of
        Instances \<Rightarrow> validateFilters env (instance_filters_of g) = None
      | Incidents \<Rightarrow> incident_validateFilters env (incident_filters_of g) = None)"

definition text_of :: "string \<Rightarrow> string option" where
  "text_of s = (if s = [] then None else Some s)"

lemma time_range_ok:
  assumes "timeRangeError a b = None"
  shows "\<not> bad_timestamp (text_of a)" "\<not> bad_timestamp (text_of b)" "\<not> not_increasing env (text_of a) (text_of b)"
  using assms [unfolded time_checks [where env = env]]
  by (cases "a = []"; cases "b = []"; simp add: text_of_def bad_timestamp_def not_increasing_def str_truthy_def)+

lemma qget_result:
  assumes "query_laws qget" "f \<noteq> ''status''" "f \<in> set (filter_fields kind)"
  shows "qget (result_entries kind ps sts) f = map_option One (text_of (get_or_empty ps f))"
  using assms by (simp add: query_laws_def search_getAll_def result_grouped field_entries_def text_of_def)

lemma qget_status:
  assumes "query_laws qget" "''status'' \<in> set (filter_fields kind)"
  shows "statusValues (qget (result_entries kind ps sts) ''status'') = sts"
  using assms by (simp add: query_laws_def result_statuses statusValues_def split: list.split)

lemma one_text_One [simp]: "one_text (map_option One v) = v"
  by (simp add: one_text_def split: option.split)

lemma known_statuses: "set KNOWN_STATUSES = set PROCESS_INSTANCE_STATUSES"
  by (auto simp: KNOWN_STATUSES_def PROCESS_INSTANCE_STATUSES_def)

lemma text_of_simps: "text_of s = None \<longleftrightarrow> s = []" "text_of s = Some v \<longleftrightarrow> s = v \<and> s \<noteq> []" "str_truthy (text_of s) \<longleftrightarrow> s \<noteq> []"
  by (auto simp: text_of_def str_truthy_def)

lemma search_get_text: "text_of (get_or_empty ps k) = Some v \<Longrightarrow> search_get ps k = Some v"
  by (auto simp: text_of_def get_or_empty_def split: if_splits option.splits)

lemma saved_incidents_accepted:
  assumes "query_laws qget" "source_ok ps"
  shows "server_accepts env Incidents (qget (result_entries Incidents ps sts))"
proof -
  have "timeRangeError (get_or_empty ps ''from'') (get_or_empty ps ''to'') = None" using assms(2) by (simp add: source_ok_def)
  note t = time_range_ok [OF this]
  show ?thesis
    by (simp add: server_accepts_def incident_validateFilters_def incident_filters_of_def qget_result [OF assms(1)] filter_fields_def t)
qed

lemma saved_instances_accepted:
  assumes "query_laws qget" "source_ok ps" "set sts \<subseteq> set KNOWN_STATUSES"
  shows "server_accepts env Instances (qget (result_entries Instances ps sts))"
proof -
  let ?f = "instance_filters_of (qget (result_entries Instances ps sts))"
  let ?t = "\<lambda>k. text_of (get_or_empty ps k)"
  note q = qget_result [OF assms(1), where kind = Instances and ps = ps and sts = sts]
  have f: "f_definitionId ?f = ?t ''definitionId''" "f_definitionVersion ?f = map_option One (?t ''definitionVersion'')"
    "f_currentStepId ?f = map_option One (?t ''currentStepId'')" "f_stepStartedBefore ?f = map_option One (?t ''stepStartedBefore'')"
    "f_from ?f = ?t ''from''" "f_to ?f = ?t ''to''" "statusValues (f_status ?f) = sts"
    by (simp_all add: instance_filters_of_def q qget_status [OF assms(1)] filter_fields_def)
  have t: "timeRangeError (get_or_empty ps ''from'') (get_or_empty ps ''to'') = None" and v: "version_ok ps"
    and c: "search_get ps ''currentStepId'' \<noteq> None \<longrightarrow> get_or_empty ps ''currentStepId'' \<noteq> [] \<and> get_or_empty ps ''definitionId'' \<noteq> []"
    and b: "search_get ps ''stepStartedBefore'' \<noteq> None \<longrightarrow> get_or_empty ps ''currentStepId'' \<noteq> [] \<and>
      get_or_empty ps ''stepStartedBefore'' \<noteq> [] \<and> timeRangeError (get_or_empty ps ''stepStartedBefore'') [] = None"
    using assms(2) by (simp_all add: source_ok_def)
  have "\<not> bad_version ?f"
  proof (cases "?t ''definitionVersion''")
    case (Some x)
    then obtain m where "x = nat_str m" "1 \<le> m" "m \<le> 2147483647" "get_or_empty ps ''definitionId'' \<noteq> []"
      using v search_get_text [OF Some] by (auto simp: version_ok_def)
    with nat_str_digits [of m] show ?thesis by (simp add: bad_version_def f Some number_of_nat_str text_of_simps)
  qed (simp add: bad_version_def f)
  moreover have "\<not> bad_current_step ?f"
  proof (cases "?t ''currentStepId''")
    case (Some x)
    then have "x \<noteq> []" "get_or_empty ps ''definitionId'' \<noteq> []" using c search_get_text [OF Some] by (auto simp: text_of_simps)
    then show ?thesis by (simp add: bad_current_step_def f Some text_of_simps)
  qed (simp add: bad_current_step_def f)
  moreover have "\<not> bad_cutoff ?f"
  proof (cases "?t ''stepStartedBefore''")
    case (Some x)
    with b search_get_text [OF Some] have x: "get_or_empty ps ''currentStepId'' \<noteq> []" "timeRangeError x [] = None" "x \<noteq> []"
      by (auto simp: text_of_simps)
    with time_range_ok(1) [OF x(2)] have "isUtcTimestamp x" by (simp add: text_of_def bad_timestamp_def str_truthy_def)
    with x show ?thesis by (simp add: bad_cutoff_def f Some) (simp add: qv_truthy_def text_of_def)
  qed (simp add: bad_cutoff_def f)
  moreover have "\<not> list_ex (\<lambda>s. s \<notin> set PROCESS_INSTANCE_STATUSES) sts"
    using assms(3) by (auto simp: list_ex_iff known_statuses)
  ultimately show ?thesis
    using time_range_ok [OF t] by (simp add: server_accepts_def validateFilters_def f)
qed

text \<open>The value that is stored, and the laws of the platform: a printed query string is parsed back to its entries, and
  the text of a stored value is parsed back to the value.\<close>

definition stored_json :: "saved_filter list \<Rightarrow> json" where
  "stored_json views = JObj [(''version'', JNum 1), (''views'', JArr (map view_json views))]"

definition web_laws :: "web_env \<Rightarrow> bool" where
  "web_laws web \<longleftrightarrow> (\<forall>ps. parse_search web (print_search web ps) = ps) \<and>
     (\<forall>views. parse_json web (print_json web (stored_json views)) = Some (stored_json views))"

lemma normalize_stable:
  assumes "web_laws web" "normalizeFilterSearch web kind search = Inr s" "length s \<le> 4096"
  shows "normalizeFilterSearch web kind s = Inr s"
proof -
  obtain out where out: "normalize_params kind (parse_search web search) = Inr out" "s = print_search web out"
    using assms(2) by (auto simp: normalizeFilterSearch_def try_in_Inr split: if_splits)
  with normalize_again [OF out(1)] assms(1,3) show ?thesis by (auto simp: normalizeFilterSearch_def web_laws_def)
qed

text \<open>C10. A saved filter is safe to open again: the normal form the browser stores is a fixed point of the normalisation, and the
  server accepts the request made from it.\<close>

theorem saved_filter_accepted:
  assumes "web_laws web" "query_laws qget" "normalizeFilterSearch web kind search = Inr s"
  shows "(length s \<le> 4096 \<longrightarrow> normalizeFilterSearch web kind s = Inr s) \<and> server_accepts env kind (qget (parse_search web s))"
proof -
  obtain out where out: "normalize_params kind (parse_search web search) = Inr out" "s = print_search web out"
    using assms(3) by (auto simp: normalizeFilterSearch_def try_in_Inr split: if_splits)
  then have s: "parse_search web s = out" using assms(1) by (simp add: web_laws_def)
  obtain ps where ps: "source_ok ps" "out = result_entries kind ps (sort (remdups (search_getAll ps ''status'')))"
    using normalize_params_ok [OF out(1)] by blast
  then have "server_accepts env kind (qget out)"
  proof (cases kind)
    case Instances
    have "set (sort (remdups (search_getAll ps ''status''))) \<subseteq> set KNOWN_STATUSES"
      using ps(1) by (auto simp: source_ok_def list_all_iff)
    from saved_instances_accepted [OF assms(2) ps(1) this] show ?thesis by (simp add: ps(2) Instances)
  qed (simp add: ps(2) saved_incidents_accepted [OF assms(2) ps(1)])
  with normalize_stable [OF assms(1,3)] s show ?thesis by simp
qed


section \<open>Storing and loading\<close>

lemma dropWhile_idem: "dropWhile P (dropWhile P xs) = dropWhile P xs"
  by (induction xs) auto

lemma trim_idem: "trim (trim s) = trim s"
proof -
  define u where "u = dropWhile js_space s"
  define v where "v = rev (dropWhile js_space (rev u))"
  obtain t where t: "u = v @ t" unfolding v_def by (metis rev_append rev_rev_ident takeWhile_dropWhile_id)
  have "dropWhile js_space v = v"
  proof (cases v)
    case (Cons c w)
    with t have "u = c # w @ t" by simp
    then have "\<not> js_space c" unfolding u_def by (metis hd_dropWhile list.distinct(1) list.sel(1))
    with Cons show ?thesis by simp
  qed simp
  moreover have "rev (dropWhile js_space (rev v)) = v" by (simp add: v_def dropWhile_idem)
  ultimately show ?thesis by (simp add: trim_def u_def [symmetric] v_def [symmetric])
qed

lemma length_trim: "length (trim s) \<le> length s"
  by (simp add: trim_def) (metis length_dropWhile_le length_rev le_trans)

lemma view_json_field [simp]:
  "json_field (view_json v) ''id'' = Some (JStr (sf_id v))" "json_field (view_json v) ''name'' = Some (JStr (sf_name v))"
  "json_field (view_json v) ''search'' = Some (JStr (sf_search v))"
  by (simp_all add: view_json_def json_field_def)

text \<open>A list of validated views is validated again without a change.\<close>

lemma validate_items_Cons:
  "validate_items web kind ids names (item # rest) = Inr views \<longleftrightarrow>
     (\<exists>i n s search views'. json_field item ''id'' = Some (JStr i) \<and> json_field item ''name'' = Some (JStr n) \<and>
        json_field item ''search'' = Some (JStr s) \<and> i \<noteq> [] \<and> length i \<le> 100 \<and> trim n \<noteq> [] \<and> length n \<le> 80 \<and> i \<notin> set ids \<and>
        to_lower (trim n) \<notin> set names \<and> normalizeFilterSearch web kind s = Inr search \<and>
        validate_items web kind (i # ids) (to_lower (trim n) # names) rest = Inr views' \<and>
        views = \<lparr>sf_id = i, sf_name = trim n, sf_search = search\<rparr> # views')"
  by (auto simp: try_in_Inr not_less split: option.split json.split)

lemma validate_again:
  assumes "web_laws web"
  shows "validate_items web kind ids names items = Inr views \<Longrightarrow> \<forall>v \<in> set views. length (sf_search v) \<le> 4096 \<Longrightarrow>
    validate_items web kind ids names (map view_json views) = Inr views"
proof (induction items arbitrary: ids names views)
  case (Cons item rest)
  from Cons.prems(1) obtain i n s search views' where v: "i \<noteq> []" "length i \<le> 100" "trim n \<noteq> []" "length n \<le> 80" "i \<notin> set ids"
      "to_lower (trim n) \<notin> set names" "normalizeFilterSearch web kind s = Inr search"
      "validate_items web kind (i # ids) (to_lower (trim n) # names) rest = Inr views'"
      "views = \<lparr>sf_id = i, sf_name = trim n, sf_search = search\<rparr> # views'"
    unfolding validate_items_Cons by auto
  have "validate_items web kind (i # ids) (to_lower (trim n) # names) (map view_json views') = Inr views'"
    using Cons.prems(2) v(9) by (intro Cons.IH [OF v(8)]) auto
  moreover have "normalizeFilterSearch web kind search = Inr search"
    using Cons.prems(2) v(9) by (intro normalize_stable [OF assms v(7)]) auto
  moreover have "length (trim n) \<le> 80" using v(4) length_trim [of n] by simp
  ultimately show ?case using v(1-6) unfolding v(9) list.map validate_items_Cons by (simp add: trim_idem)
qed simp

lemma validate_length: "validate_items web kind ids names items = Inr views \<Longrightarrow> length views = length items"
  by (induction items arbitrary: ids names views) (auto simp: validate_items_Cons simp del: validate_items.simps(2))

text \<open>What is stored can be loaded: when storing views succeeds and no normal form is longer than a filter may be, loading gives
  exactly the views that storing returned, and the filters of the other list are untouched.\<close>

lemma saved_filters_roundtrip:
  assumes "web_laws web" "storeSavedFilters web fits kind views storage = Inr (valid, storage')"
    and "\<forall>v \<in> set valid. length (sf_search v) \<le> 4096"
  shows "loadSavedFilters web kind storage' = Inr valid \<and>
    (kind' \<noteq> kind \<longrightarrow> loadSavedFilters web kind' storage' = loadSavedFilters web kind' storage)"
proof -
  have v: "validateViews web kind (Some (JArr (map view_json views))) = Inr valid"
    and raw: "utf8_length web (print_json web (stored_json valid)) \<le> MAX_STORAGE_BYTES"
    and st: "storage' = map_set (savedFilterKey kind) (print_json web (stored_json valid)) storage"
    using assms(2) by (auto simp: storeSavedFilters_def try_in_Inr Let_def stored_json_def split: if_splits)
  have n: "length (map view_json views) \<le> MAX_FILTERS" and items: "validate_items web kind [] [] (map view_json views) = Inr valid"
    using v by (auto simp: validateViews_def split: if_splits)
  have "validateViews web kind (Some (JArr (map view_json valid))) = Inr valid"
    using validate_again [OF assms(1) items assms(3)] validate_length [OF items] n by (simp add: validateViews_def)
  moreover have "parse_json web (print_json web (stored_json valid)) = Some (stored_json valid)" using assms(1) by (simp add: web_laws_def)
  moreover have "json_field (stored_json valid) ''version'' = Some (JNum 1)" "json_field (stored_json valid) ''views'' = Some (JArr (map view_json valid))"
    by (simp_all add: stored_json_def json_field_def)
  moreover have "savedFilterKey kind' = savedFilterKey kind \<longleftrightarrow> kind' = kind"
    by (cases kind; cases kind') (simp_all add: savedFilterKey_def)
  ultimately show ?thesis using raw by (simp add: loadSavedFilters_def st)
qed

section \<open>A concrete platform\<close>

text \<open>A platform that satisfies the laws, for the witnesses: texts are written one after the other, every character
  after a mark and every text before a full stop.\<close>

definition quote_texts :: "string list \<Rightarrow> string" where
  "quote_texts ts = concat (map (\<lambda>t. concat (map (\<lambda>c. [CHR ''c'', c]) t) @ ''.'') ts)"

fun unquote_texts :: "string \<Rightarrow> string \<Rightarrow> string list" where
  "unquote_texts acc [] = []"
| "unquote_texts acc [a] = (if a = CHR ''.'' then [rev acc] else [])"
| "unquote_texts acc (a # c # r) = (if a = CHR ''.'' then rev acc # unquote_texts [] (c # r) else unquote_texts (c # acc) r)"

fun pairs :: "string list \<Rightarrow> params" where
  "pairs (a # b # r) = (a, b) # pairs r"
| "pairs _ = []"

fun views_of :: "string list \<Rightarrow> saved_filter list" where
  "views_of (i # n # s # r) = \<lparr>sf_id = i, sf_name = n, sf_search = s\<rparr> # views_of r"
| "views_of _ = []"

fun view_texts :: "json \<Rightarrow> string list" where
  "view_texts (JObj [(_, JStr i), (_, JStr n), (_, JStr s)]) = [i, n, s]"
| "view_texts _ = []"

fun stored_texts :: "json \<Rightarrow> string list" where
  "stored_texts (JObj [_, (_, JArr vs)]) = concat (map view_texts vs)"
| "stored_texts _ = []"

definition sample_web :: web_env where
  "sample_web = \<lparr>parse_search = (\<lambda>s. pairs (unquote_texts [] s)), print_search = (\<lambda>ps. quote_texts (concat (map (\<lambda>p. [fst p, snd p]) ps))),
     parse_json = (\<lambda>s. Some (stored_json (views_of (unquote_texts [] s)))), print_json = (\<lambda>j. quote_texts (stored_texts j)), utf8_length = length\<rparr>"

lemma unquote_text: "unquote_texts acc (concat (map (\<lambda>c. [CHR ''c'', c]) t) @ ''.'' @ r) = (rev acc @ t) # unquote_texts [] r"
proof (induction t arbitrary: acc)
  case Nil
  then show ?case by (cases r) simp_all
qed simp

lemma unquote_quote: "unquote_texts [] (quote_texts ts) = ts"
proof (induction ts)
  case (Cons t ts)
  then show ?case using unquote_text [of "[]" t "quote_texts ts"] by (simp add: quote_texts_def)
qed (simp add: quote_texts_def)

lemma sample_web_laws: "web_laws sample_web"
proof -
  have "pairs (concat (map (\<lambda>p. [fst p, snd p]) ps)) = ps" for ps by (induction ps) simp_all
  moreover have "views_of (stored_texts (stored_json vs)) = vs" for vs
    by (induction vs) (simp_all add: stored_json_def view_json_def)
  ultimately show ?thesis by (simp add: web_laws_def sample_web_def unquote_quote)
qed

definition sample_search :: params where
  "sample_search = [(''status'', ''FAILED''), (''cursor'', ''x''), (''definitionVersion'', ''007''), (''status'', ''ACTIVE''),
     (''definitionId'', ''loan''), (''status'', ''FAILED'')]"

definition sample_normal :: params where
  "sample_normal = [(''definitionId'', ''loan''), (''definitionVersion'', ''7''), (''status'', ''ACTIVE''), (''status'', ''FAILED'')]"

definition sample_qget :: "params \<Rightarrow> string \<Rightarrow> query_value option" where
  "sample_qget ps k = (case search_getAll ps k of [] \<Rightarrow> None | [v] \<Rightarrow> Some (One v) | vs \<Rightarrow> Some (Many vs))"

lemma sample_normalized:
  "normalizeFilterSearch sample_web Instances (print_search sample_web sample_search) = Inr (print_search sample_web sample_normal)"
proof -
  have "length (print_search sample_web sample_search) \<le> 4096" by (simp add: sample_web_def sample_search_def quote_texts_def)
  moreover have "normalize_params Instances sample_search = Inr sample_normal"
    by (simp add: normalize_params_def sample_search_def search_delete_def filter_fields_def search_getAll_def timeRangeError_def get_or_empty_def
        search_get_def check_version_def is_digit_def less_eq_char_def number_of_def nat_str.simps digit_char_def KNOWN_STATUSES_def result_entries_def
        sample_normal_def Let_def) code_simp
  ultimately show ?thesis using sample_web_laws by (simp add: normalizeFilterSearch_def web_laws_def)
qed

theorem saved_filter_accepted_witness:
  "normalizeFilterSearch sample_web Instances (print_search sample_web sample_normal) = Inr (print_search sample_web sample_normal) \<and>
   server_accepts sample_monitor Instances (sample_qget (parse_search sample_web (print_search sample_web sample_normal)))"
proof -
  have "query_laws sample_qget" by (simp add: query_laws_def sample_qget_def)
  moreover have "length (print_search sample_web sample_normal) \<le> 4096" by (simp add: sample_web_def sample_normal_def quote_texts_def)
  ultimately show ?thesis
    using saved_filter_accepted [OF sample_web_laws _ sample_normalized, of sample_qget sample_monitor] by blast
qed

definition sample_view :: "string \<Rightarrow> params \<Rightarrow> saved_filter" where
  "sample_view name ps = \<lparr>sf_id = ''v1'', sf_name = name, sf_search = print_search sample_web ps\<rparr>"

lemma sample_stored:
  "storeSavedFilters sample_web True Instances [sample_view '' Failed loans '' sample_search] [] =
     Inr ([sample_view ''Failed loans'' sample_normal], [(savedFilterKey Instances, print_json sample_web (stored_json [sample_view ''Failed loans'' sample_normal]))])"
proof -
  have "trim '' Failed loans '' = ''Failed loans''" by code_simp
  then have "validate_items sample_web Instances [] [] [view_json (sample_view '' Failed loans '' sample_search)] =
      Inr [sample_view ''Failed loans'' sample_normal]"
    unfolding validate_items_Cons by (simp add: sample_view_def sample_normalized)
  moreover have "utf8_length sample_web (print_json sample_web (stored_json [sample_view ''Failed loans'' sample_normal])) \<le> MAX_STORAGE_BYTES"
    by (simp add: sample_web_def stored_json_def view_json_def sample_view_def sample_normal_def quote_texts_def MAX_STORAGE_BYTES_def)
  ultimately show ?thesis
    by (simp add: storeSavedFilters_def validateViews_def MAX_FILTERS_def Let_def stored_json_def map_set_def)
qed

end
