(* ===== verification/Monitor_Navigation.thy ===== *)
theory Monitor_Navigation
  imports Engine_Client Saved_Filters
begin

text \<open>
  Navigation in the monitor's web application: the shell \<^verbatim>\<open>workflow-monitor/src/App.tsx\<close> that chooses the view from
  the path, the list views \<^verbatim>\<open>routes/ProcessInstancesRoute.tsx\<close> and \<^verbatim>\<open>routes/IncidentsRoute.tsx\<close> whose filter forms
  live in the query string, the requests of \<^verbatim>\<open>routes/listFilters.ts\<close>, and the pages of step executions in
  \<^verbatim>\<open>routes/ProcessInstanceRoute.tsx\<close>.

  A target of \<^verbatim>\<open>navigation.push\<close> is the pair of its path and its query string, the two texts the source puts
  together. Texts that come out of \<^verbatim>\<open>decodeURIComponent\<close> are lists of code points.
  The segments \<^verbatim>\<open>.\<close> and \<^verbatim>\<open>..\<close>, which a browser removes from a path, are treated as any other; the ids of the engine
  are ULIDs and never equal them.
\<close>

section \<open>Paths\<close>

text \<open>\<^verbatim>\<open>decodeURIComponent\<close>: the escapes become bytes, and the bytes must be well-formed UTF-8. \<open>None\<close> is the
  thrown \<^verbatim>\<open>URIError\<close>.\<close>

definition hex_digit_value :: "char \<Rightarrow> nat option" where
  "hex_digit_value c =
     (let n = of_char c :: nat
      in if 48 \<le> n \<and> n \<le> 57 then Some (n - 48)
         else if 65 \<le> n \<and> n \<le> 70 then Some (n - 55)
         else if 97 \<le> n \<and> n \<le> 102 then Some (n - 87)
         else None)"

datatype uri_item = Literal nat | Byte nat

fun uri_items :: "string \<Rightarrow> uri_item list option" where
  "uri_items [] = Some []"
| "uri_items (c # s) =
     (if c \<noteq> CHR ''%'' then map_option ((#) (Literal (of_char c))) (uri_items s)
      else case s of
             h # l # r \<Rightarrow>
               (case (hex_digit_value h, hex_digit_value l) of
                  (Some a, Some b) \<Rightarrow> map_option ((#) (Byte (16 * a + b))) (uri_items r)
                | _ \<Rightarrow> None)
           | _ \<Rightarrow> None)"

definition continuation :: "nat \<Rightarrow> bool" where
  "continuation b \<longleftrightarrow> 128 \<le> b \<and> b < 192"

fun uri_points :: "uri_item list \<Rightarrow> nat list option" where
  "uri_points [] = Some []"
| "uri_points (Literal c # r) = map_option ((#) c) (uri_points r)"
| "uri_points (Byte b # r) =
     (if b < 128 then map_option ((#) b) (uri_points r)
      else if 192 \<le> b \<and> b < 224 then
        (case r of
           Byte b1 # r1 \<Rightarrow>
             let p = (b - 192) * 64 + (b1 - 128)
             in if continuation b1 \<and> 128 \<le> p then map_option ((#) p) (uri_points r1) else None
         | _ \<Rightarrow> None)
      else if 224 \<le> b \<and> b < 240 then
        (case r of
           Byte b1 # Byte b2 # r2 \<Rightarrow>
             let p = ((b - 224) * 64 + (b1 - 128)) * 64 + (b2 - 128)
             in if continuation b1 \<and> continuation b2 \<and> 2048 \<le> p \<and> \<not> (55296 \<le> p \<and> p < 57344)
                then map_option ((#) p) (uri_points r2) else None
         | _ \<Rightarrow> None)
      else if 240 \<le> b \<and> b < 248 then
        (case r of
           Byte b1 # Byte b2 # Byte b3 # r3 \<Rightarrow>
             let p = (((b - 240) * 64 + (b1 - 128)) * 64 + (b2 - 128)) * 64 + (b3 - 128)
             in if continuation b1 \<and> continuation b2 \<and> continuation b3 \<and> 65536 \<le> p \<and> p < 1114112
                then map_option ((#) p) (uri_points r3) else None
         | _ \<Rightarrow> None)
      else None)"

definition decodeURIComponent :: "string \<Rightarrow> nat list option" where
  "decodeURIComponent s = Option.bind (uri_items s) uri_points"

text \<open>\<^verbatim>\<open>/^\/process-instances\/([^/]+)$/\<close> and its like.\<close>

definition last_segment :: "string \<Rightarrow> string \<Rightarrow> string option" where
  "last_segment base path =
     (if starts_with base path \<and> drop (length base) path \<noteq> [] \<and> CHR ''/'' \<notin> set (drop (length base) path)
      then Some (drop (length base) path) else None)"

text \<open>\<^verbatim>\<open>path.split("/")\<close>.\<close>

fun split_slash :: "string \<Rightarrow> string list" where
  "split_slash [] = [[]]"
| "split_slash (c # s) =
     (if c = CHR ''/'' then [] # split_slash s else case split_slash s of w # ws \<Rightarrow> (c # w) # ws | [] \<Rightarrow> [[c]])"

datatype view =
    Instances_View
  | Overview_View
  | Instance_View "nat list"
  | Incidents_View
  | Incident_View "nat list"
  | Not_Found_View

text \<open>The content of the shell, the address of the first breadcrumb and the text of the second. \<open>None\<close> is an
  exception during rendering.\<close>

definition app_content :: "string \<Rightarrow> view option" where
  "app_content pathname =
     (if pathname = ''/'' then Some Instances_View
      else if pathname = ''/overview'' then Some Overview_View
      else case last_segment ''/process-instances/'' pathname of
        Some segment \<Rightarrow> map_option Instance_View (decodeURIComponent segment)
      | None \<Rightarrow>
          if pathname = ''/incidents'' then Some Incidents_View
          else case last_segment ''/incidents/'' pathname of
            Some segment \<Rightarrow> map_option Incident_View (decodeURIComponent segment)
          | None \<Rightarrow> Some Not_Found_View)"

definition detail_segment :: "string \<Rightarrow> string option" where
  "detail_segment pathname = (let ws = split_slash pathname in if length ws > 2 \<and> ws ! 2 \<noteq> [] then Some (ws ! 2) else None)"

definition breadcrumb_root :: "string \<Rightarrow> string" where
  "breadcrumb_root pathname =
     (if pathname = ''/overview'' then ''/overview'' else if starts_with ''/incidents'' pathname then ''/incidents'' else ''/'')"

definition App :: "string \<Rightarrow> (view \<times> string \<times> nat list option) option" where
  "App pathname =
     (case app_content pathname of
        None \<Rightarrow> None
      | Some content \<Rightarrow>
          (case detail_segment pathname of
             None \<Rightarrow> Some (content, breadcrumb_root pathname, None)
           | Some d \<Rightarrow> (case decodeURIComponent d of None \<Rightarrow> None | Some t \<Rightarrow> Some (content, breadcrumb_root pathname, Some t))))"

text \<open>The lookup by id above the list: an error message or the path.\<close>

definition open_by_id :: "string \<Rightarrow> string + string" where
  "open_by_id lookupId =
     (if trim lookupId = [] then Inl ''Enter an Instance ID.''
      else Inr (''/process-instances/'' @ encodeURIComponent (trim lookupId)))"

section \<open>Filter forms\<close>

type_synonym target = "string \<times> string"

record instance_form =
  fm_definitionVersion :: string
  fm_currentStepId :: string
  fm_stepStartedBefore :: string
  fm_businessKey :: string
  fm_definitionId :: string
  fm_from :: string
  fm_statuses :: "string list"
  fm_to :: string

record incident_form =
  fi_definitionId :: string
  fi_from :: string
  fi_jobType :: string
  fi_to :: string

definition instances_filtersFromSearch :: "web_env \<Rightarrow> string \<Rightarrow> instance_form" where
  "instances_filtersFromSearch web search =
     (let parameters = parse_search web search in
      \<lparr>fm_definitionVersion = get_or_empty parameters ''definitionVersion'', fm_currentStepId = get_or_empty parameters ''currentStepId'',
       fm_stepStartedBefore = get_or_empty parameters ''stepStartedBefore'', fm_businessKey = get_or_empty parameters ''businessKey'',
       fm_definitionId = get_or_empty parameters ''definitionId'', fm_from = get_or_empty parameters ''from'',
       fm_statuses = search_getAll parameters ''status'', fm_to = get_or_empty parameters ''to''\<rparr>)"

definition incidents_filtersFromSearch :: "web_env \<Rightarrow> string \<Rightarrow> incident_form" where
  "incidents_filtersFromSearch web search =
     (let parameters = parse_search web search in
      \<lparr>fi_definitionId = get_or_empty parameters ''definitionId'', fi_from = get_or_empty parameters ''from'',
       fi_jobType = get_or_empty parameters ''jobType'', fi_to = get_or_empty parameters ''to''\<rparr>)"

definition set_if :: "string \<Rightarrow> string \<Rightarrow> params \<Rightarrow> params" where
  "set_if k v ps = (if v \<noteq> [] then search_set k v ps else ps)"

definition next_search :: "web_env \<Rightarrow> params \<Rightarrow> string" where
  "next_search web ps = (if length ps > 0 then ''?'' @ print_search web ps else [])"

definition instance_form_params :: "instance_form \<Rightarrow> params" where
  "instance_form_params f =
     set_if ''to'' (fm_to f) (set_if ''from'' (fm_from f) (set_if ''businessKey'' (fm_businessKey f)
       (set_if ''stepStartedBefore'' (fm_stepStartedBefore f) (set_if ''currentStepId'' (fm_currentStepId f)
         (set_if ''definitionVersion'' (fm_definitionVersion f) (set_if ''definitionId'' (fm_definitionId f) [])))
        @ map (Pair ''status'') (fm_statuses f))))"

definition incident_form_params :: "incident_form \<Rightarrow> params" where
  "incident_form_params f =
     set_if ''to'' (fi_to f) (set_if ''from'' (fi_from f) (set_if ''jobType'' (fi_jobType f) (set_if ''definitionId'' (fi_definitionId f) [])))"

text \<open>Submitting a form: the message shown, or the target pushed.\<close>

definition instances_applyFilters :: "web_env \<Rightarrow> instance_form \<Rightarrow> string + target" where
  "instances_applyFilters web f =
     (case timeRangeError (fm_from f) (fm_to f) of
        Some e \<Rightarrow> Inl e
      | None \<Rightarrow> Inr (''/'', next_search web (instance_form_params f)))"

definition incidents_applyFilters :: "web_env \<Rightarrow> incident_form \<Rightarrow> string + target" where
  "incidents_applyFilters web f =
     (case timeRangeError (fi_from f) (fi_to f) of
        Some e \<Rightarrow> Inl e
      | None \<Rightarrow> Inr (''/incidents'', next_search web (incident_form_params f)))"

definition list_path :: "filter_kind \<Rightarrow> string" where
  "list_path kind = (case kind of Instances \<Rightarrow> ''/'' | Incidents \<Rightarrow> ''/incidents'')"

definition moveToCursor :: "web_env \<Rightarrow> filter_kind \<Rightarrow> string \<Rightarrow> string option \<Rightarrow> target" where
  "moveToCursor web kind search cursor =
     (let parameters = parse_search web search;
          moved = (if str_truthy cursor then search_set ''cursor'' (the cursor) parameters else search_delete ''cursor'' parameters)
      in (list_path kind, next_search web moved))"

definition hasCursor :: "web_env \<Rightarrow> string \<Rightarrow> bool" where
  "hasCursor web search \<longleftrightarrow> list_ex (\<lambda>p. fst p = ''cursor'') (parse_search web search)"

section \<open>Requests\<close>

datatype fetch_error = Filter_Error string | Load_Error string | Json_Error | Null_Body

text \<open>\<^verbatim>\<open>fetchList\<close> on the response. Reading \<^verbatim>\<open>message\<close> of a null body throws.\<close>

definition fetchList :: "(string \<Rightarrow> json option) \<Rightarrow> string \<Rightarrow> http_response \<Rightarrow> fetch_error + json" where
  "fetchList parse label response =
     (if resp_status response = 400 then
        (case parse (resp_text response) of
           None \<Rightarrow> Inl Json_Error
         | Some JNull \<Rightarrow> Inl Null_Body
         | Some body \<Rightarrow>
             (case json_field body ''message'' of
                Some (JStr m) \<Rightarrow> Inl (Filter_Error m)
              | _ \<Rightarrow> Inl (Filter_Error ''Invalid filters. Check the entered values.'')))
      else if \<not> response_ok response then
        Inl (Load_Error (''Unable to load '' @ label @ ''. Check the Monitor API connection and try again.''))
      else case parse (resp_text response) of None \<Rightarrow> Inl Json_Error | Some body \<Rightarrow> Inr body)"

text \<open>The polling interval of the lists in milliseconds, \<open>None\<close> when polling stops.\<close>

definition refetchInterval :: "fetch_error option \<Rightarrow> nat option" where
  "refetchInterval e = (case e of Some (Filter_Error _) \<Rightarrow> None | _ \<Rightarrow> Some 5000)"

section \<open>The pages of step executions\<close>

text \<open>The detail view keeps the cursor of the page it shows and those of the pages before it.\<close>

record step_pager =
  sg_cursor :: "string option"
  sg_history :: "string option list"

definition first_pager :: step_pager where
  "first_pager = \<lparr>sg_cursor = None, sg_history = []\<rparr>"

text \<open>The three buttons. A disabled one does nothing.\<close>

definition newest_page :: "step_pager \<Rightarrow> step_pager" where
  "newest_page p = (if sg_cursor p = None then p else first_pager)"

definition previous_page :: "step_pager \<Rightarrow> step_pager" where
  "previous_page p =
     (if sg_history p = [] then p
      else \<lparr>sg_cursor = last (sg_history p), sg_history = butlast (sg_history p)\<rparr>)"

definition next_page :: "string option \<Rightarrow> step_pager \<Rightarrow> step_pager" where
  "next_page nextCursor p =
     (if str_truthy nextCursor then \<lparr>sg_cursor = nextCursor, sg_history = sg_history p @ [sg_cursor p]\<rparr> else p)"

text \<open>The cell \<^verbatim>\<open>Failure\<close> of a row, with the path of the link.\<close>

datatype failure_cell = Incident_Link string | Failure_Present | No_Failure

definition failure_cell_of :: "string \<Rightarrow> string \<Rightarrow> string \<Rightarrow> bool \<Rightarrow> failure_cell" where
  "failure_cell_of instanceStatus executionId executionStatus hasFailure =
     (if executionStatus = ''FAILED'' \<and> instanceStatus \<noteq> ''CANCELLED'' then Incident_Link (''/incidents/'' @ encodeURIComponent executionId)
      else if hasFailure then Failure_Present else No_Failure)"

section \<open>Opening a view by id\<close>

lemma hex_digit_value_digit: "n < 16 \<Longrightarrow> hex_digit_value (hex_digit n) = Some n"
  by (auto simp: hex_digit_value_def hex_digit_def Let_def)

lemma uri_items_percent: "b < 256 \<Longrightarrow> uri_items (percent b @ s) = map_option ((#) (Byte b)) (uri_items s)"
  using div_mult_mod_eq [of b 16] by (simp add: percent_def hex_digit_value_digit mult.commute)

lemma high_bits: "128 \<le> n \<Longrightarrow> n < 256 \<Longrightarrow> n div 64 \<in> {2, 3}" for n :: nat
  by auto

lemma decode_encode_char:
  "Option.bind (uri_items (encode_char c @ s)) uri_points = map_option ((#) (of_char c)) (Option.bind (uri_items s) uri_points)"
proof -
  let ?n = "of_char c :: nat"
  have n: "?n < 256" by (rule of_char_less)
  have pct: "\<not> unreserved CHR ''%''" by (simp add: unreserved_def is_alpha_def is_digit_def)
  consider "unreserved c" | "\<not> unreserved c" "?n < 128" | "\<not> unreserved c" "128 \<le> ?n" by linarith
  then show ?thesis
  proof cases
    case 1
    with pct have "c \<noteq> CHR ''%''" by auto
    with 1 show ?thesis by (cases "uri_items s") (simp_all add: encode_char_def)
  next
    case 2
    then show ?thesis using uri_items_percent [of ?n s] n by (cases "uri_items s") (simp_all add: encode_char_def Let_def)
  next
    case 3
    have q: "?n div 64 \<in> {2, 3}" by (rule high_bits [OF 3(2) n])
    have b: "192 + ?n div 64 < 256" "128 + ?n mod 64 < 256" using q by auto
    have p: "?n div 64 * 64 + ?n mod 64 = ?n" by simp
    have e: "encode_char c = percent (192 + ?n div 64) @ percent (128 + ?n mod 64)" using 3 by (simp add: encode_char_def Let_def)
    have "continuation (128 + ?n mod 64)" by (simp add: continuation_def)
    then have "uri_points (Byte (192 + ?n div 64) # Byte (128 + ?n mod 64) # r) = map_option ((#) ?n) (uri_points r)" for r
      using q 3(2) by (subst uri_points.simps) (auto simp: Let_def p simp del: div_mult_self1 mod_mult_self1)
    then show ?thesis
      unfolding e append_assoc uri_items_percent [OF b(1)] uri_items_percent [OF b(2)] by (cases "uri_items s") simp_all
  qed
qed

lemma uri_decode_encode: "decodeURIComponent (encodeURIComponent s) = Some (map of_char s)"
  unfolding decodeURIComponent_def encodeURIComponent_def by (induction s) (simp_all add: decode_encode_char)

lemma hex_digit_slash: "n < 16 \<Longrightarrow> hex_digit n \<noteq> CHR ''/''"
proof
  assume n: "n < 16" and "hex_digit n = CHR ''/''"
  then have "of_char (hex_digit n) = (47 :: nat)" by simp
  with n show False by (simp add: hex_digit_def split: if_splits)
qed

lemma encode_char_segment: "encode_char c \<noteq> [] \<and> CHR ''/'' \<notin> set (encode_char c)"
proof -
  have "of_char c < (256 :: nat)" by (rule of_char_less)
  moreover have "192 + (of_char c :: nat) div 64 < 256" "128 + (of_char c :: nat) mod 64 < 256" using of_char_div [of c] by simp_all
  moreover have "CHR ''/'' \<notin> set (percent b)" if "b < 256" for b
    using less_mult_imp_div_less [of b 16 16] that hex_digit_slash [of "b div 16"] hex_digit_slash [of "b mod 16"] by (simp add: percent_def)
  moreover have "percent b \<noteq> []" for b by (simp add: percent_def)
  ultimately show ?thesis
    by (auto simp: encode_char_def Let_def unreserved_def is_alpha_def is_digit_def)
qed

lemma encode_segment: "i \<noteq> [] \<Longrightarrow> encodeURIComponent i \<noteq> []" "CHR ''/'' \<notin> set (encodeURIComponent i)"
  using encode_char_segment by (auto simp: encodeURIComponent_def neq_Nil_conv)

lemma split_slash_word: "CHR ''/'' \<notin> set w \<Longrightarrow> split_slash w = [w]"
  by (induction w) auto

lemma split_slash_append: "CHR ''/'' \<notin> set w \<Longrightarrow> split_slash (w @ ''/'' @ s) = w # split_slash s"
  by (induction w) auto

lemma split_slash_segment:
  assumes "CHR ''/'' \<notin> set a" "CHR ''/'' \<notin> set w"
  shows "split_slash (''/'' @ a @ ''/'' @ w) = [[], a, w]"
  using split_slash_append [OF assms(1)] split_slash_word [OF assms(2)] by simp

lemma App_segment:
  assumes "i \<noteq> []"
  shows "App (''/process-instances/'' @ encodeURIComponent i) = Some (Instance_View (map of_char i), ''/'', Some (map of_char i))"
    "App (''/incidents/'' @ encodeURIComponent i) = Some (Incident_View (map of_char i), ''/incidents'', Some (map of_char i))"
proof -
  let ?e = "encodeURIComponent i"
  note e = encode_segment(1) [OF assms] encode_segment(2) [of i]
  have "detail_segment (''/'' @ ''process-instances'' @ ''/'' @ ?e) = Some ?e" "detail_segment (''/'' @ ''incidents'' @ ''/'' @ ?e) = Some ?e"
    using e by (simp_all only: detail_segment_def) (subst split_slash_segment; simp)+
  then have d: "detail_segment (''/process-instances/'' @ ?e) = Some ?e" "detail_segment (''/incidents/'' @ ?e) = Some ?e" by simp_all
  have "last_segment ''/process-instances/'' (''/process-instances/'' @ ?e) = Some ?e" "last_segment ''/incidents/'' (''/incidents/'' @ ?e) = Some ?e"
    using e by (simp_all add: last_segment_def starts_with_def)
  moreover have "last_segment ''/process-instances/'' (''/incidents/'' @ ?e) = None" by (simp add: last_segment_def starts_with_def)
  ultimately have "app_content (''/process-instances/'' @ ?e) = Some (Instance_View (map of_char i))"
    "app_content (''/incidents/'' @ ?e) = Some (Incident_View (map of_char i))"
    by (simp_all add: app_content_def uri_decode_encode)
  with d show "App (''/process-instances/'' @ ?e) = Some (Instance_View (map of_char i), ''/'', Some (map of_char i))"
    "App (''/incidents/'' @ ?e) = Some (Incident_View (map of_char i), ''/incidents'', Some (map of_char i))"
    by (simp_all add: App_def uri_decode_encode breadcrumb_root_def starts_with_def)
qed

text \<open>The lookup opens exactly the instance asked for: whatever id is typed, apart from blanks around it, the shell shows the
  detail view of that id, and a text of blanks only is answered with a message.\<close>

theorem lookup_opens_instance:
  "case open_by_id typed of
     Inl e \<Rightarrow> trim typed = []
   | Inr path \<Rightarrow> trim typed \<noteq> [] \<and> App path = Some (Instance_View (map of_char (trim typed)), ''/'', Some (map of_char (trim typed)))"
proof (cases "trim typed = []")
  case False
  then show ?thesis using App_segment(1) [OF False] by (simp only: open_by_id_def if_False sum.case) simp
qed (simp add: open_by_id_def)

lemma last_segment_split:
  assumes "last_segment (''/'' @ a @ ''/'') path = Some w" "CHR ''/'' \<notin> set a"
  shows "detail_segment path = Some w"
proof -
  obtain r where r: "path = (''/'' @ a @ ''/'') @ r" "w = r" "r \<noteq> []" "CHR ''/'' \<notin> set r"
    using assms(1) by (auto simp: last_segment_def starts_with_iff split: if_splits)
  then have "path = ''/'' @ a @ ''/'' @ w" by simp
  with split_slash_segment [OF assms(2), of w] r(2-4) show ?thesis by (simp add: detail_segment_def)
qed

text \<open>The shell renders a path exactly when its second segment is well-formed: a segment with a broken escape makes it throw,
  also below a path that would be reported as not found.\<close>

theorem App_renders_iff:
  "(App path = None \<longleftrightarrow> (\<exists>d. detail_segment path = Some d \<and> decodeURIComponent d = None)) \<and>
   app_content ''/reports/100%'' = Some Not_Found_View \<and> App ''/reports/100%'' = None"
proof -
  have "detail_segment path = Some w" if "last_segment ''/process-instances/'' path = Some w \<or> last_segment ''/incidents/'' path = Some w" for w
    using that last_segment_split [of "''process-instances''" path w] last_segment_split [of "''incidents''" path w] by auto
  moreover have "\<exists>w. (last_segment ''/process-instances/'' path = Some w \<or> last_segment ''/incidents/'' path = Some w) \<and> decodeURIComponent w = None"
    if "app_content path = None"
    using that by (force simp: app_content_def split: option.splits if_splits)
  ultimately have "\<exists>d. detail_segment path = Some d \<and> decodeURIComponent d = None" if "app_content path = None" using that by blast
  then have "App path = None \<longleftrightarrow> (\<exists>d. detail_segment path = Some d \<and> decodeURIComponent d = None)"
    by (cases "app_content path"; cases "detail_segment path") (simp_all add: App_def split: option.splits)
  moreover have "app_content ''/reports/100%'' = Some Not_Found_View" "App ''/reports/100%'' = None" by code_simp+
  ultimately show ?thesis by blast
qed

section \<open>Forms and the query string\<close>

text \<open>What the views rely on in \<^verbatim>\<open>URLSearchParams\<close>: the printed entries are read back, with or without the question
  mark the location has, and the empty query string has none.\<close>

definition search_laws :: "web_env \<Rightarrow> bool" where
  "search_laws web \<longleftrightarrow> web_laws web \<and> (\<forall>ps. parse_search web (''?'' @ print_search web ps) = ps) \<and> parse_search web [] = []"

lemma parse_next_search: "search_laws web \<Longrightarrow> parse_search web (next_search web ps) = ps"
  by (simp add: next_search_def search_laws_def)

lemma get_or_empty_set_if: "get_or_empty (set_if k v ps) k' = (if k' = k \<and> v \<noteq> [] then v else get_or_empty ps k')"
  by (simp add: set_if_def get_or_empty_set)

lemma getAll_set_if: "k' \<noteq> k \<Longrightarrow> search_getAll (set_if k v ps) k' = search_getAll ps k'"
  by (simp add: set_if_def getAll_set)

lemma get_or_empty_append_other: "k \<noteq> k' \<Longrightarrow> get_or_empty (ps @ map (Pair k') vs) k = get_or_empty ps k"
proof -
  assume "k \<noteq> k'"
  then have "map_of (map (Pair k') vs) k = None" by (auto simp: map_of_eq_None_iff)
  then show ?thesis by (simp add: get_or_empty_def search_get_def map_add_def split: option.split)
qed

lemma get_or_empty_Nil [simp]: "get_or_empty [] k = []"
  by (simp add: get_or_empty_def search_get_def)

lemma getAll_append [simp]: "search_getAll (ps @ qs) k = search_getAll ps k @ search_getAll qs k" "search_getAll [] k = []"
  by (simp_all add: search_getAll_def)

lemma getAll_Pair [simp]: "search_getAll (map (Pair k) vs) k = vs"
  by (simp add: search_getAll_def filter_map comp_def)

lemmas form_simps = get_or_empty_set_if getAll_set_if get_or_empty_append_other

lemma instance_form_fields:
  "get_or_empty (instance_form_params f) ''definitionVersion'' = fm_definitionVersion f" "get_or_empty (instance_form_params f) ''currentStepId'' = fm_currentStepId f"
  "get_or_empty (instance_form_params f) ''stepStartedBefore'' = fm_stepStartedBefore f" "get_or_empty (instance_form_params f) ''businessKey'' = fm_businessKey f"
  "get_or_empty (instance_form_params f) ''definitionId'' = fm_definitionId f" "get_or_empty (instance_form_params f) ''from'' = fm_from f"
  "get_or_empty (instance_form_params f) ''to'' = fm_to f" "search_getAll (instance_form_params f) ''status'' = fm_statuses f"
  by (simp_all add: instance_form_params_def form_simps)

lemma incident_form_fields:
  "get_or_empty (incident_form_params f) ''definitionId'' = fi_definitionId f" "get_or_empty (incident_form_params f) ''from'' = fi_from f"
  "get_or_empty (incident_form_params f) ''jobType'' = fi_jobType f" "get_or_empty (incident_form_params f) ''to'' = fi_to f"
  by (simp_all add: incident_form_params_def form_simps)

lemma set_if_keys: "p \<in> set (set_if k v ps) \<Longrightarrow> fst p = k \<or> p \<in> set ps"
  unfolding set_if_def by (induction ps) (auto simp: search_delete_def split: if_splits)

lemma search_get_other: "k' \<noteq> k \<Longrightarrow> search_get (search_delete k ps) k' = search_get ps k'" "k' \<noteq> k \<Longrightarrow> search_getAll (search_delete k ps) k' = search_getAll ps k'"
proof -
  show "k' \<noteq> k \<Longrightarrow> search_get (search_delete k ps) k' = search_get ps k'"
    by (induction ps) (auto simp: search_get_def search_delete_def)
  show "k' \<noteq> k \<Longrightarrow> search_getAll (search_delete k ps) k' = search_getAll ps k'"
    by (induction ps) (auto simp: search_getAll_def search_delete_def)
qed

lemma instance_form_no_cursor: "p \<in> set (instance_form_params f) \<Longrightarrow> fst p \<noteq> ''cursor''"
  unfolding instance_form_params_def by (auto dest!: set_if_keys)

lemma incident_form_no_cursor: "p \<in> set (incident_form_params f) \<Longrightarrow> fst p \<noteq> ''cursor''"
  unfolding incident_form_params_def by (auto dest!: set_if_keys)

text \<open>The query string is the whole state of the forms: the location a form pushes shows the very same form again, on its
  first page, and a form is refused exactly when its two times are.\<close>

theorem filter_forms_roundtrip:
  assumes "search_laws web"
  shows "(case instances_applyFilters web f of
            Inl e \<Rightarrow> timeRangeError (fm_from f) (fm_to f) = Some e
          | Inr (path, search) \<Rightarrow> timeRangeError (fm_from f) (fm_to f) = None \<and> app_content path = Some Instances_View \<and>
              instances_filtersFromSearch web search = f \<and> \<not> hasCursor web search) \<and>
    (case incidents_applyFilters web g of
            Inl e \<Rightarrow> timeRangeError (fi_from g) (fi_to g) = Some e
          | Inr (path, search) \<Rightarrow> timeRangeError (fi_from g) (fi_to g) = None \<and> app_content path = Some Incidents_View \<and>
              incidents_filtersFromSearch web search = g \<and> \<not> hasCursor web search)"
proof -
  have "instances_filtersFromSearch web (next_search web (instance_form_params f)) = f"
    by (simp add: instances_filtersFromSearch_def parse_next_search [OF assms] instance_form_fields Let_def)
  moreover have "incidents_filtersFromSearch web (next_search web (incident_form_params g)) = g"
    by (simp add: incidents_filtersFromSearch_def parse_next_search [OF assms] incident_form_fields Let_def)
  moreover have "\<not> hasCursor web (next_search web (instance_form_params f))" "\<not> hasCursor web (next_search web (incident_form_params g))"
    using instance_form_no_cursor incident_form_no_cursor by (fastforce simp: hasCursor_def parse_next_search [OF assms] list_ex_iff)+
  ultimately show ?thesis
    by (simp add: instances_applyFilters_def incidents_applyFilters_def app_content_def last_segment_def starts_with_def split: option.splits)
qed

text \<open>Paging keeps the filters: moving to a cursor or back to the first page changes nothing but the cursor.\<close>

theorem paging_keeps_filters:
  assumes "search_laws web" "moveToCursor web kind search cursor = (path, search')"
  shows "instances_filtersFromSearch web search' = instances_filtersFromSearch web search \<and>
    incidents_filtersFromSearch web search' = incidents_filtersFromSearch web search \<and>
    search_get (parse_search web search') ''cursor'' = (if str_truthy cursor then cursor else None) \<and>
    app_content path = Some (case kind of Instances \<Rightarrow> Instances_View | Incidents \<Rightarrow> Incidents_View)"
proof -
  let ?ps = "parse_search web search"
  let ?moved = "if str_truthy cursor then search_set ''cursor'' (the cursor) ?ps else search_delete ''cursor'' ?ps"
  have s: "parse_search web search' = ?moved" "path = list_path kind"
    using assms(2) parse_next_search [OF assms(1)] by (auto simp: moveToCursor_def Let_def)
  have "get_or_empty ?moved k = get_or_empty ?ps k" "search_getAll ?moved k = search_getAll ?ps k" if "k \<noteq> ''cursor''" for k
    using that by (simp_all add: get_or_empty_def search_get_set search_get_other getAll_set)
  moreover have "search_get ?moved ''cursor'' = (if str_truthy cursor then cursor else None)"
  proof (cases "str_truthy cursor")
    case False
    then show ?thesis by (auto simp: search_get_def search_delete_def map_of_eq_None_iff)
  qed (auto simp: search_get_set str_truthy_def split: option.splits)
  moreover have "app_content path = Some (case kind of Instances \<Rightarrow> Instances_View | Incidents \<Rightarrow> Incidents_View)"
    by (cases kind) (simp_all add: s(2) list_path_def app_content_def last_segment_def starts_with_def)
  ultimately show ?thesis by (simp add: instances_filtersFromSearch_def incidents_filtersFromSearch_def s(1) Let_def)
qed

text \<open>C40. A link to an incident is never dead: the history of an instance links a step execution to an incident exactly when the
  server has an incident under its id, and the path of the link opens the view of that id.\<close>

theorem incident_link_resolves:
  assumes "keys_unique db" "inj (collate env)" "e \<in> set (db_executions db)" "i \<in> set (db_instances db)" "wi_id i = se_instance_id e"
    and "d \<in> set (db_definitions db)" "wd_id d = wi_definition_id i" "wd_version d = wi_definition_version i" "se_id e \<noteq> []"
  shows "case failure_cell_of (wi_status i) (se_id e) (se_status e) f of
      Incident_Link path \<Rightarrow> (\<exists>x. incident_detail_route env db (se_id e) = Inr x \<and> in_id x = se_id e) \<and>
        App path = Some (Incident_View (map of_char (se_id e)), ''/incidents'', Some (map of_char (se_id e)))
    | _ \<Rightarrow> incident_detail_route env db (se_id e) = Inl (NotFound ''Incident not found'')"
proof -
  obtain r where r: "r \<in> set (incident_rows env db)" "ir_execution r = e" "ir_instance r = i"
    using incident_row_exists [OF assms(3-8)] by blast
  have "filter (\<lambda>r. se_id (ir_execution r) = se_id e) (incident_rows env db) = [r]"
  proof -
    have "r \<in> set (filter (\<lambda>r. se_id (ir_execution r) = se_id e) (incident_rows env db))" using r by simp
    then show ?thesis
      using unique_filter [OF incident_ids_distinct [OF assms(1,2)], of "se_id e"] by (elim disjE exE) (simp_all only: list.set empty_iff insert_iff simp_thms)
  qed
  then have "filter is_incident (filter (\<lambda>r. se_id (ir_execution r) = se_id e) (incident_rows env db)) = filter is_incident [r]" by simp
  then have "filter (\<lambda>r. se_id (ir_execution r) = se_id e \<and> is_incident r) (incident_rows env db) = filter is_incident [r]"
    unfolding filter_filter by (simp only: conj_commute)
  moreover have "is_incident r \<longleftrightarrow> se_status e = ''FAILED'' \<and> wi_status i \<noteq> ''CANCELLED''" by (simp add: is_incident_def r(2,3))
  ultimately have "incident_detail_route env db (se_id e) = (if se_status e = ''FAILED'' \<and> wi_status i \<noteq> ''CANCELLED''
      then Inr (incident_item.extend (mapListItem env r) (incident_detail.fields (se_failure_reason e) (se_instance_id e) (wi_status i) (wi_business_key i)))
      else Inl (NotFound ''Incident not found''))"
    by (simp add: incident_detail_route_def incident_detail_of_def first_row_def r(2,3))
  moreover have "in_id (incident_item.extend (mapListItem env r) z) = se_id e" for z :: "\<lparr>in_errorDetails :: string option, in_instanceId :: string, in_instanceStatus :: string, in_businessKey :: string option\<rparr>"
    by (simp add: incident_item.extend_def mapListItem_def r(2))
  ultimately show ?thesis using App_segment(2) [OF assms(9)] by (simp add: failure_cell_of_def)
qed

text \<open>Runs of the pager: the pages the view has gone through from the newest one on.\<close>

inductive pager_run :: "step_pager \<Rightarrow> bool" where
  start: "pager_run first_pager"
| newest: "pager_run p \<Longrightarrow> pager_run (newest_page p)"
| previous: "pager_run p \<Longrightarrow> pager_run (previous_page p)"
| forward: "pager_run p \<Longrightarrow> pager_run (next_page c p)"

text \<open>The pager never loses its way: the path from the newest page is kept whole, so that the buttons to the newest and to the
  previous page are enabled together, exactly beyond the newest page, and going to the next page and back ends where it began.\<close>

theorem pager_invariant:
  assumes "pager_run p"
  shows "(\<exists>cs. sg_history p @ [sg_cursor p] = None # map Some cs \<and> [] \<notin> set cs) \<and> (sg_cursor p = None \<longleftrightarrow> sg_history p = []) \<and>
    (str_truthy c \<longrightarrow> previous_page (next_page c p) = p)"
proof -
  have "\<exists>cs. sg_history p @ [sg_cursor p] = None # map Some cs \<and> [] \<notin> set cs"
    using assms
  proof (induction rule: pager_run.induct)
    case start
    show ?case by (intro exI [of _ "[]"]) (simp add: first_pager_def)
  next
    case (newest p)
    then show ?case by (cases "sg_cursor p") (simp_all add: newest_page_def first_pager_def)
  next
    case (previous p)
    then obtain cs where cs: "sg_history p @ [sg_cursor p] = None # map Some cs" "[] \<notin> set cs" by blast
    show ?case
    proof (cases "sg_history p = []")
      case False
      then have "sg_history p = None # map Some (butlast cs)"
        using cs(1) by (cases cs rule: rev_cases) (auto simp: append_eq_Cons_conv)
      then show ?thesis using cs(2) in_set_butlastD [of _ cs] False by (intro exI [of _ "butlast cs"]) (auto simp: previous_page_def)
    qed (use previous in \<open>simp add: previous_page_def\<close>)
  next
    case (forward p c)
    then obtain cs where cs: "sg_history p @ [sg_cursor p] = None # map Some cs" "[] \<notin> set cs" by blast
    show ?case
    proof (cases "str_truthy c")
      case True
      with cs show ?thesis by (intro exI [of _ "cs @ [the c]"]) (auto simp: next_page_def str_truthy_def)
    qed (use forward in \<open>simp add: next_page_def\<close>)
  qed
  then obtain cs where cs: "sg_history p @ [sg_cursor p] = None # map Some cs" "[] \<notin> set cs" by blast
  then have "sg_cursor p = None \<longleftrightarrow> sg_history p = []" by (cases cs rule: rev_cases) (auto simp: append_eq_Cons_conv)
  moreover have "str_truthy c \<longrightarrow> previous_page (next_page c p) = p" by (simp add: next_page_def previous_page_def)
  ultimately show ?thesis using cs by blast
qed

section \<open>Concrete runs\<close>

text \<open>The platform of the saved filters with the question mark of the location.\<close>

definition sample_browser :: web_env where
  "sample_browser = sample_web\<lparr>parse_search := (\<lambda>s. parse_search sample_web (if starts_with ''?'' s then tl s else s))\<rparr>"

lemma quote_texts_mark: "\<not> starts_with ''?'' (quote_texts ts)"
proof (cases ts)
  case (Cons t us)
  then show ?thesis by (cases t) (simp_all add: quote_texts_def starts_with_def)
qed (simp add: quote_texts_def starts_with_def)

lemma sample_browser_laws: "search_laws sample_browser"
proof -
  have p: "parse_search sample_web (print_search sample_web ps) = ps" for ps using sample_web_laws by (simp add: web_laws_def)
  have "\<not> starts_with ''?'' (print_search sample_web ps)" for ps using quote_texts_mark by (simp add: sample_web_def)
  then show ?thesis
    using sample_web_laws p by (simp add: search_laws_def sample_browser_def web_laws_def) (simp add: sample_web_def starts_with_def)
qed

definition sample_form :: instance_form where
  "sample_form = \<lparr>fm_definitionVersion = ''2'', fm_currentStepId = [], fm_stepStartedBefore = [], fm_businessKey = [], fm_definitionId = ''loan'',
     fm_from = [], fm_statuses = [''ACTIVE'', ''FAILED''], fm_to = []\<rparr>"

lemma sample_form_search:
  "instances_filtersFromSearch sample_browser (next_search sample_browser (instance_form_params sample_form)) = sample_form"
  by (simp add: instances_filtersFromSearch_def parse_next_search [OF sample_browser_laws] instance_form_fields Let_def)

theorem filter_forms_roundtrip_witness:
  "instances_filtersFromSearch sample_browser (next_search sample_browser (instance_form_params sample_form)) = sample_form"
  using filter_forms_roundtrip [OF sample_browser_laws, of sample_form]
  by (simp add: instances_applyFilters_def sample_form_def timeRangeError_def)

theorem paging_keeps_filters_witness:
  "instances_filtersFromSearch sample_browser (snd (moveToCursor sample_browser Instances (next_search sample_browser (instance_form_params sample_form)) (Some ''c1''))) = sample_form"
  using paging_keeps_filters [OF sample_browser_laws surjective_pairing, of Instances "next_search sample_browser (instance_form_params sample_form)" "Some ''c1''"]
    sample_form_search by simp

theorem pager_invariant_witness:
  "previous_page (next_page (Some ''c2'') (next_page (Some ''c1'') first_pager)) = \<lparr>sg_cursor = Some ''c1'', sg_history = [None]\<rparr>"
proof -
  have p: "next_page (Some ''c1'') first_pager = \<lparr>sg_cursor = Some ''c1'', sg_history = [None]\<rparr>"
    by (simp add: next_page_def first_pager_def str_truthy_def)
  have "pager_run \<lparr>sg_cursor = Some ''c1'', sg_history = [None]\<rparr>" unfolding p [symmetric] by (intro pager_run.intros)
  from pager_invariant [OF this, of "Some ''c2''"] show ?thesis unfolding p by (simp add: str_truthy_def)
qed

theorem incident_link_resolves_witness:
  "\<exists>x. incident_detail_route sample_monitor sample_failures ''e1'' = Inr x \<and> in_id x = ''e1''"
proof -
  let ?e = "sample_failed ''e1'' 1" and ?i = "sample_instance ''a'' 1735689600000000"
  have e: "?e \<in> set (db_executions sample_failures)" "?i \<in> set (db_instances sample_failures)" "wi_id ?i = se_instance_id ?e"
    "sample_loan \<in> set (db_definitions sample_failures)" "wd_id sample_loan = wi_definition_id ?i" "wd_version sample_loan = wi_definition_version ?i" "se_id ?e \<noteq> []"
    by (simp_all add: sample_failures_def sample_db_def sample_instance_def sample_failed_def sample_loan_def)
  from incident_link_resolves [OF sample_failures_laws e, of True] show ?thesis
    by (simp add: failure_cell_of_def sample_failed_def sample_instance_def)
qed

end
