(* ===== verification/Saved_Filter_Panel.thy ===== *)
theory Saved_Filter_Panel
  imports Monitor_Navigation
begin

text \<open>
  The panel of saved filters, \<^verbatim>\<open>workflow-monitor/src/SavedFilters.tsx\<close>, above the lists of the monitor's web application.

  Each open page has a panel of its own; all of them share the storage of the browser. Every action of a panel reads the
  storage anew, so the model runs any number of panels over one storage, one action after the other.
\<close>

section \<open>Model\<close>

record panel =
  pn_views :: "saved_filter list"
  pn_error :: "string option"
  pn_name :: string
  pn_selectedId :: string

definition find_view :: "(saved_filter \<Rightarrow> bool) \<Rightarrow> saved_filter list \<Rightarrow> saved_filter option" where
  "find_view P views = List.find P views"

text \<open>The panel as it is mounted, with the applied filter selected when it is one of the saved ones.\<close>

definition initial_panel :: "web_env \<Rightarrow> filter_kind \<Rightarrow> string \<Rightarrow> local_storage \<Rightarrow> panel" where
  "initial_panel web kind search storage =
     (let (views, error) = (case loadSavedFilters web kind storage of Inr vs \<Rightarrow> (vs, None) | Inl e \<Rightarrow> ([], Some e));
          applied = (case normalizeFilterSearch web kind search of
                       Inr normalized \<Rightarrow> find_view (\<lambda>v. sf_search v = normalized) views
                     | Inl _ \<Rightarrow> None)
      in \<lparr>pn_views = views, pn_error = error, pn_name = (case applied of Some v \<Rightarrow> sf_name v | None \<Rightarrow> []),
          pn_selectedId = (case applied of Some v \<Rightarrow> sf_id v | None \<Rightarrow> [])\<rparr>)"

text \<open>\<^verbatim>\<open>update\<close>: reads the storage, changes the views, stores them. The change may throw.\<close>

definition update_views ::
    "web_env \<Rightarrow> bool \<Rightarrow> filter_kind \<Rightarrow> (saved_filter list \<Rightarrow> string + saved_filter list) \<Rightarrow> panel \<Rightarrow> local_storage \<Rightarrow> bool \<times> panel \<times> local_storage" where
  "update_views web fits kind change p storage =
     (case try_in (loadSavedFilters web kind storage) (\<lambda>views. try_in (change views) (\<lambda>changed. storeSavedFilters web fits kind changed storage)) of
        Inr (views, storage') \<Rightarrow> (True, p\<lparr>pn_views := views, pn_error := None\<rparr>, storage')
      | Inl e \<Rightarrow> (False, p\<lparr>pn_error := Some e\<rparr>, storage))"

definition save_change :: "web_env \<Rightarrow> filter_kind \<Rightarrow> string \<Rightarrow> string \<Rightarrow> string \<Rightarrow> saved_filter list \<Rightarrow> string + saved_filter list" where
  "save_change web kind search uuid name views =
     try_in (normalizeFilterSearch web kind search) (\<lambda>s. Inr (views @ [\<lparr>sf_id = uuid, sf_name = name, sf_search = s\<rparr>]))"

definition rename_change :: "string \<Rightarrow> string \<Rightarrow> saved_filter list \<Rightarrow> string + saved_filter list" where
  "rename_change selectedId name views = Inr (map (\<lambda>v. if sf_id v = selectedId then v\<lparr>sf_name := name\<rparr> else v) views)"

definition delete_change :: "string \<Rightarrow> saved_filter list \<Rightarrow> string + saved_filter list" where
  "delete_change selectedId views = Inr (filter (\<lambda>v. sf_id v \<noteq> selectedId) views)"

text \<open>The actions of the panel. Saving carries the query string the page shows, the identifier the platform makes and
  whether the storage has room; the buttons that need a selection are disabled without one.\<close>

datatype panel_action =
    Set_Name string
  | Choose string
  | Save string string bool
  | Apply
  | Rename bool
  | Delete bool
  | Clear

definition choose_view :: "string \<Rightarrow> panel \<Rightarrow> panel" where
  "choose_view i p =
     p\<lparr>pn_selectedId := i, pn_name := (case find_view (\<lambda>v. sf_id v = i) (pn_views p) of Some v \<Rightarrow> sf_name v | None \<Rightarrow> [])\<rparr>"

text \<open>Applying: the target pushed, or the message shown.\<close>

definition apply_view :: "web_env \<Rightarrow> filter_kind \<Rightarrow> local_storage \<Rightarrow> string \<Rightarrow> string + target" where
  "apply_view web kind storage selectedId =
     try_in (loadSavedFilters web kind storage) (\<lambda>views.
       case find_view (\<lambda>v. sf_id v = selectedId) views of
         None \<Rightarrow> Inl ''Saved filter no longer exists.''
       | Some v \<Rightarrow> try_in (normalizeFilterSearch web kind (sf_search v)) (\<lambda>query.
           Inr (list_path kind, if query \<noteq> [] then ''?'' @ query else [])))"

definition panel_step :: "web_env \<Rightarrow> filter_kind \<Rightarrow> panel_action \<Rightarrow> panel \<times> local_storage \<Rightarrow> panel \<times> local_storage" where
  "panel_step web kind a = (\<lambda>(p, storage).
     case a of
       Set_Name n \<Rightarrow> (p\<lparr>pn_name := n\<rparr>, storage)
     | Choose i \<Rightarrow> (choose_view i p, storage)
     | Save search uuid fits \<Rightarrow> snd (update_views web fits kind (save_change web kind search uuid (pn_name p)) p storage)
     | Apply \<Rightarrow>
         if pn_selectedId p = [] then (p, storage)
         else (case apply_view web kind storage (pn_selectedId p) of Inl e \<Rightarrow> (p\<lparr>pn_error := Some e\<rparr>, storage) | Inr _ \<Rightarrow> (p, storage))
     | Rename fits \<Rightarrow>
         if pn_selectedId p = [] then (p, storage)
         else snd (update_views web fits kind (rename_change (pn_selectedId p) (pn_name p)) p storage)
     | Delete fits \<Rightarrow>
         if pn_selectedId p = [] then (p, storage)
         else (case update_views web fits kind (delete_change (pn_selectedId p)) p storage of
                 (True, p', storage') \<Rightarrow> (p'\<lparr>pn_selectedId := [], pn_name := []\<rparr>, storage')
               | (False, p', storage') \<Rightarrow> (p', storage'))
     | Clear \<Rightarrow>
         (p\<lparr>pn_views := [], pn_error := None, pn_selectedId := [], pn_name := []\<rparr>, map_delete (savedFilterKey kind) storage))"

section \<open>What an action does to the stored list\<close>

text \<open>The list of views an action means to leave behind.\<close>

definition intended_views :: "web_env \<Rightarrow> filter_kind \<Rightarrow> panel_action \<Rightarrow> panel \<Rightarrow> saved_filter list \<Rightarrow> saved_filter list" where
  "intended_views web kind a p views =
     (case a of
        Save search uuid _ \<Rightarrow>
          (case normalizeFilterSearch web kind search of
             Inr s \<Rightarrow> views @ [\<lparr>sf_id = uuid, sf_name = trim (pn_name p), sf_search = s\<rparr>]
           | Inl _ \<Rightarrow> views)
      | Rename _ \<Rightarrow> map (\<lambda>v. if sf_id v = pn_selectedId p then v\<lparr>sf_name := trim (pn_name p)\<rparr> else v) views
      | Delete _ \<Rightarrow> filter (\<lambda>v. sf_id v \<noteq> pn_selectedId p) views
      | Clear \<Rightarrow> []
      | _ \<Rightarrow> views)"

definition normal_search :: "web_env \<Rightarrow> filter_kind \<Rightarrow> string \<Rightarrow> bool" where
  "normal_search web kind s \<longleftrightarrow> (\<exists>t. normalizeFilterSearch web kind t = Inr s)"

definition trim_view :: "saved_filter \<Rightarrow> saved_filter" where
  "trim_view v = v\<lparr>sf_name := trim (sf_name v)\<rparr>"

text \<open>Short enough to be read back.\<close>

definition short_views :: "saved_filter list \<Rightarrow> bool" where
  "short_views views \<longleftrightarrow> (\<forall>v \<in> set views. length (sf_search v) \<le> 4096)"

lemma validated_views:
  "validate_items web kind ids names items = Inr views \<Longrightarrow> v \<in> set views \<Longrightarrow> normal_search web kind (sf_search v) \<and> trim_view v = v"
proof (induction items arbitrary: ids names views)
  case (Cons item rest)
  from Cons.prems(1) obtain i n s search views' where
      w: "normalizeFilterSearch web kind s = Inr search" "validate_items web kind (i # ids) (to_lower (trim n) # names) rest = Inr views'"
      "views = \<lparr>sf_id = i, sf_name = trim n, sf_search = search\<rparr> # views'"
    unfolding validate_items_Cons by auto
  then show ?case using Cons.IH [OF w(2)] Cons.prems(2) by (auto simp: normal_search_def trim_view_def trim_idem)
qed simp

lemma validated_bounds:
  "validate_items web kind ids names items = Inr views \<Longrightarrow>
    distinct (map sf_id views) \<and> distinct (map (\<lambda>v. to_lower (sf_name v)) views) \<and> set (map sf_id views) \<inter> set ids = {} \<and>
    set (map (\<lambda>v. to_lower (sf_name v)) views) \<inter> set names = {}"
proof (induction items arbitrary: ids names views)
  case (Cons item rest)
  from Cons.prems obtain i n s search views' where
      w: "i \<notin> set ids" "to_lower (trim n) \<notin> set names" "validate_items web kind (i # ids) (to_lower (trim n) # names) rest = Inr views'"
      "views = \<lparr>sf_id = i, sf_name = trim n, sf_search = search\<rparr> # views'"
    unfolding validate_items_Cons by auto
  have "distinct (map sf_id views') \<and> distinct (map (\<lambda>v. to_lower (sf_name v)) views') \<and> set (map sf_id views') \<inter> set (i # ids) = {} \<and>
      set (map (\<lambda>v. to_lower (sf_name v)) views') \<inter> set (to_lower (trim n) # names) = {}"
    by (rule Cons.IH [OF w(3)])
  then show ?case using w(1,2) unfolding w(4) by auto
qed simp

lemma load_cases:
  assumes "loadSavedFilters web kind storage = Inr views"
  obtains items where "validate_items web kind [] [] items = Inr views" "length items \<le> MAX_FILTERS"
proof (cases "map_get storage (savedFilterKey kind)")
  case None
  then show thesis using assms that [of "[]"] by (simp add: loadSavedFilters_def)
next
  case (Some raw)
  then obtain parsed where "validateViews web kind (json_field parsed ''views'') = Inr views"
    using assms by (auto simp: loadSavedFilters_def split: if_splits option.splits)
  then show thesis using that by (auto simp: validateViews_def split: option.splits json.splits if_splits)
qed

lemma loaded_views:
  assumes "loadSavedFilters web kind storage = Inr views" "v \<in> set views"
  shows "normal_search web kind (sf_search v)" "trim_view v = v"
proof -
  obtain items where "validate_items web kind [] [] items = Inr views" by (rule load_cases [OF assms(1)])
  from validated_views [OF this assms(2)] show "normal_search web kind (sf_search v)" "trim_view v = v" by blast+
qed

text \<open>A view in normal form is validated as it is, with its name trimmed, and stays short enough to be loaded.\<close>

lemma validate_normal:
  assumes "web_laws web"
  shows "validate_items web kind ids names (map view_json vs) = Inr valid \<Longrightarrow> \<forall>v \<in> set vs. normal_search web kind (sf_search v) \<Longrightarrow>
    valid = map trim_view vs \<and> (\<forall>v \<in> set valid. length (sf_search v) \<le> 4096)"
proof (induction vs arbitrary: ids names valid)
  case (Cons v vs)
  from Cons.prems(1) obtain search valid' where
      w: "normalizeFilterSearch web kind (sf_search v) = Inr search"
      "validate_items web kind (sf_id v # ids) (to_lower (trim (sf_name v)) # names) (map view_json vs) = Inr valid'"
      "valid = \<lparr>sf_id = sf_id v, sf_name = trim (sf_name v), sf_search = search\<rparr> # valid'"
    unfolding list.map validate_items_Cons by auto
  have len: "length (sf_search v) \<le> 4096" using w(1) by (auto simp: normalizeFilterSearch_def split: if_splits)
  obtain t where "normalizeFilterSearch web kind t = Inr (sf_search v)" using Cons.prems(2) by (auto simp: normal_search_def)
  then have "search = sf_search v" using normalize_stable [OF assms _ len] w(1) by simp
  moreover have "valid' = map trim_view vs \<and> (\<forall>v \<in> set valid'. length (sf_search v) \<le> 4096)"
    using Cons.prems(2) by (intro Cons.IH [OF w(2)]) simp
  ultimately show ?case using len w(3) by (simp add: trim_view_def)
qed simp

lemma store_normal:
  assumes "web_laws web" "storeSavedFilters web fits kind vs storage = Inr (valid, storage')" "\<forall>v \<in> set vs. normal_search web kind (sf_search v)"
  shows "valid = map trim_view vs" "loadSavedFilters web kind storage' = Inr valid"
    "kind' \<noteq> kind \<Longrightarrow> loadSavedFilters web kind' storage' = loadSavedFilters web kind' storage" "short_views valid"
proof -
  have "validate_items web kind [] [] (map view_json vs) = Inr valid"
    using assms(2) by (auto simp: storeSavedFilters_def try_in_Inr Let_def validateViews_def split: if_splits)
  note v = validate_normal [OF assms(1) this assms(3)]
  then show "valid = map trim_view vs" "short_views valid" by (auto simp: short_views_def)
  show "loadSavedFilters web kind storage' = Inr valid" "kind' \<noteq> kind \<Longrightarrow> loadSavedFilters web kind' storage' = loadSavedFilters web kind' storage"
    using saved_filters_roundtrip [OF assms(1,2)] v by blast+
qed

text \<open>An action that goes through \<^verbatim>\<open>update\<close> either stores the changed list, with its names trimmed, or leaves the storage alone.\<close>

lemma update_normal:
  assumes "web_laws web" "loadSavedFilters web kind storage = Inr views" "update_views web fits kind change p storage = (ok, p', storage')"
    and "\<And>vs. change views = Inr vs \<Longrightarrow> \<forall>v \<in> set vs. normal_search web kind (sf_search v)"
  shows "if ok then \<exists>vs. change views = Inr vs \<and> loadSavedFilters web kind storage' = Inr (map trim_view vs) \<and> pn_views p' = map trim_view vs \<and>
      short_views (map trim_view vs) \<and>
      pn_error p' = None \<and> (kind' \<noteq> kind \<longrightarrow> loadSavedFilters web kind' storage' = loadSavedFilters web kind' storage)
    else storage' = storage \<and> pn_views p' = pn_views p \<and> pn_error p' \<noteq> None"
proof (cases "try_in (change views) (\<lambda>changed. storeSavedFilters web fits kind changed storage)")
  case (Inl e)
  then show ?thesis using assms(2,3) by (auto simp: update_views_def)
next
  case (Inr b)
  obtain valid st where b: "b = (valid, st)" by (cases b)
  then obtain vs where vs: "change views = Inr vs" "storeSavedFilters web fits kind vs storage = Inr (valid, st)"
    using Inr by (auto simp: try_in_Inr)
  note n = store_normal [OF assms(1) vs(2) assms(4) [OF vs(1)]]
  have "ok" "p' = p\<lparr>pn_views := valid, pn_error := None\<rparr>" "storage' = st"
    using assms(2,3) Inr b by (auto simp: update_views_def)
  then show ?thesis using vs(1) n by simp
qed

lemma trim_views_loaded:
  assumes "loadSavedFilters web kind storage = Inr views" "set vs \<subseteq> set views"
  shows "map trim_view vs = vs"
  using loaded_views(2) [OF assms(1)] assms(2) by (intro map_idI) auto

text \<open>The effect of an action on a readable storage, whatever the state of the panel.\<close>

lemma panel_step_effect:
  assumes "web_laws web" "loadSavedFilters web kind storage = Inr views" "panel_step web kind a (p, storage) = (p', storage')"
  shows "(storage' = storage \<or> (loadSavedFilters web kind storage' = Inr (intended_views web kind a p views) \<and>
      pn_views p' = intended_views web kind a p views \<and> pn_error p' = None \<and>
      short_views (intended_views web kind a p views))) \<and>
    (kind' \<noteq> kind \<longrightarrow> loadSavedFilters web kind' storage' = loadSavedFilters web kind' storage)"
proof -
  note loaded = loaded_views [OF assms(2)] and trimmed = trim_views_loaded [OF assms(2)]
  have key: "savedFilterKey kind' = savedFilterKey kind \<longleftrightarrow> kind' = kind" by (cases kind; cases kind') (simp_all add: savedFilterKey_def)
  show ?thesis
  proof (cases a)
    case (Save search uuid fits)
    let ?change = "save_change web kind search uuid (pn_name p)"
    obtain ok q st where u: "update_views web fits kind ?change p storage = (ok, q, st)" by (metis prod_cases3)
    have "normal_search web kind (sf_search v)" if c: "?change views = Inr vs" and v: "v \<in> set vs" for vs v
    proof -
      obtain s where s: "normalizeFilterSearch web kind search = Inr s" "vs = views @ [\<lparr>sf_id = uuid, sf_name = pn_name p, sf_search = s\<rparr>]"
        using c by (auto simp: save_change_def try_in_Inr)
      from s(1) have "normal_search web kind s" unfolding normal_search_def by blast
      with v loaded(1) [of v] s(2) show ?thesis by auto
    qed
    then have n: "\<And>vs. ?change views = Inr vs \<Longrightarrow> \<forall>v \<in> set vs. normal_search web kind (sf_search v)" by blast
    show ?thesis
      using update_normal [OF assms(1,2) u n, where kind' = kind'] assms(3) u trimmed [of views]
      by (cases ok) (auto simp: panel_step_def Save save_change_def intended_views_def try_in_Inr trim_view_def)
  next
    case (Rename fits)
    let ?change = "rename_change (pn_selectedId p) (pn_name p)"
    obtain ok q st where u: "update_views web fits kind ?change p storage = (ok, q, st)" by (metis prod_cases3)
    have n: "\<And>vs. ?change views = Inr vs \<Longrightarrow> \<forall>v \<in> set vs. normal_search web kind (sf_search v)"
      using loaded(1) by (auto simp: rename_change_def)
    have "map trim_view (map (\<lambda>v. if sf_id v = pn_selectedId p then v\<lparr>sf_name := pn_name p\<rparr> else v) views) = intended_views web kind a p views"
      using loaded(2) by (auto simp: intended_views_def Rename trim_view_def)
    then show ?thesis
      using update_normal [OF assms(1,2) u n, where kind' = kind'] assms(3) u
      by (cases ok) (auto simp: panel_step_def Rename rename_change_def split: if_splits)
  next
    case (Delete fits)
    let ?change = "delete_change (pn_selectedId p)"
    obtain ok q st where u: "update_views web fits kind ?change p storage = (ok, q, st)" by (metis prod_cases3)
    have n: "\<And>vs. ?change views = Inr vs \<Longrightarrow> \<forall>v \<in> set vs. normal_search web kind (sf_search v)"
      using loaded(1) by (auto simp: delete_change_def)
    have "map trim_view (filter (\<lambda>v. sf_id v \<noteq> pn_selectedId p) views) = intended_views web kind a p views"
      using trimmed [of "filter (\<lambda>v. sf_id v \<noteq> pn_selectedId p) views"] by (simp add: intended_views_def Delete)
    then show ?thesis
      using update_normal [OF assms(1,2) u n, where kind' = kind'] assms(3) u
      by (cases ok) (auto simp: panel_step_def Delete delete_change_def split: if_splits)
  qed (use assms(3) key in \<open>auto simp: panel_step_def intended_views_def loadSavedFilters_def short_views_def split: if_splits sum.splits\<close>)
qed

text \<open>C22. The panels of all open pages share one list without losing each other's filters: whatever the state of the panel, an
  action on a readable storage leaves it readable and either changes nothing or does to the stored list, not to the list the panel
  shows, exactly what it means to; the panel then shows the stored list, and the filters of the other kind are untouched.\<close>

theorem panel_step_refines_list:
  assumes "web_laws web" "loadSavedFilters web kind storage = Inr views" "panel_step web kind a (p, storage) = (p', storage')"
  shows "(storage' = storage \<or> (loadSavedFilters web kind storage' = Inr (intended_views web kind a p views) \<and>
      pn_views p' = intended_views web kind a p views \<and> pn_error p' = None)) \<and>
    (kind' \<noteq> kind \<longrightarrow> loadSavedFilters web kind' storage' = loadSavedFilters web kind' storage)"
  using panel_step_effect [OF assms, of kind'] by blast

section \<open>Any number of pages\<close>

text \<open>The storage and the panels of the open pages. Opening a page mounts a panel; an action is one of any open page.\<close>

type_synonym pages = "nat \<rightharpoonup> filter_kind \<times> panel"

inductive browser_run :: "web_env \<Rightarrow> local_storage \<Rightarrow> pages \<Rightarrow> bool" for web where
  start: "browser_run web [] Map.empty"
| mount: "browser_run web st pages \<Longrightarrow> browser_run web st (pages(n \<mapsto> (kind, initial_panel web kind search st)))"
| act: "browser_run web st pages \<Longrightarrow> pages n = Some (kind, p) \<Longrightarrow> panel_step web kind a (p, st) = (p', st') \<Longrightarrow>
    browser_run web st' (pages(n \<mapsto> (kind, p')))"

lemma browser_run_readable:
  assumes "web_laws web" "browser_run web st pages"
  shows "\<exists>views. loadSavedFilters web kind st = Inr views \<and> short_views views"
  using assms(2)
proof (induction arbitrary: kind)
  case start
  show ?case by (simp add: loadSavedFilters_def short_views_def)
next
  case (mount st pages n k search)
  show ?case by (rule mount.IH)
next
  case (act st pages n k p a p' st')
  obtain views where v: "loadSavedFilters web k st = Inr views" using act.IH by blast
  note effect = panel_step_effect [OF assms(1) v act.hyps(3)]
  show ?case
  proof (cases "kind = k \<and> st' \<noteq> st")
    case True
    then show ?thesis using effect by blast
  next
    case False
    then have "loadSavedFilters web kind st' = loadSavedFilters web kind st" using effect [of kind] by blast
    then show ?thesis using act.IH [of kind] by simp
  qed
qed

text \<open>C37. The saved filters stay usable: after any actions of any number of pages the storage can be read, holds at most twenty
  filters of each kind, with different ids and with names that differ apart from case, and each of them can be applied.\<close>

theorem saved_filters_usable:
  assumes "web_laws web" "browser_run web st pages"
  shows "\<exists>views. loadSavedFilters web kind st = Inr views \<and> length views \<le> 20 \<and> distinct (map sf_id views) \<and>
    distinct (map (\<lambda>v. to_lower (sf_name v)) views) \<and>
    (\<forall>v \<in> set views. apply_view web kind st (sf_id v) = Inr (list_path kind, if sf_search v \<noteq> [] then ''?'' @ sf_search v else []))"
proof -
  obtain views where v: "loadSavedFilters web kind st = Inr views" "\<forall>v \<in> set views. length (sf_search v) \<le> 4096"
    using browser_run_readable [OF assms] unfolding short_views_def by blast
  obtain items where items: "validate_items web kind [] [] items = Inr views" "length items \<le> MAX_FILTERS" by (rule load_cases [OF v(1)])
  have d: "distinct (map sf_id views)" "distinct (map (\<lambda>v. to_lower (sf_name v)) views)" using validated_bounds [OF items(1)] by blast+
  have "apply_view web kind st (sf_id x) = Inr (list_path kind, if sf_search x \<noteq> [] then ''?'' @ sf_search x else [])" if x: "x \<in> set views" for x
  proof -
    obtain t where "normalizeFilterSearch web kind t = Inr (sf_search x)" using loaded_views(1) [OF v(1) x] by (auto simp: normal_search_def)
    then have "normalizeFilterSearch web kind (sf_search x) = Inr (sf_search x)" using v(2) x by (intro normalize_stable [OF assms(1)]) auto
    then show ?thesis using v(1) find_by_key [OF d(1) x] by (simp add: apply_view_def find_view_def)
  qed
  moreover have "length views \<le> 20" using items(2) validate_length [OF items(1)] by (simp add: MAX_FILTERS_def)
  ultimately show ?thesis using v(1) d by blast
qed

section \<open>Concrete runs\<close>

definition sample_panel :: panel where
  "sample_panel = \<lparr>pn_views = [], pn_error = None, pn_name = '' Failed loans '', pn_selectedId = []\<rparr>"

definition saved_storage :: local_storage where
  "saved_storage = [(savedFilterKey Instances, print_json sample_web (stored_json [sample_view ''Failed loans'' sample_normal]))]"

lemma sample_save:
  "panel_step sample_web Instances (Save (print_search sample_web sample_search) ''v1'' True) (sample_panel, []) =
     (sample_panel\<lparr>pn_views := [sample_view ''Failed loans'' sample_normal], pn_error := None\<rparr>, saved_storage)"
proof -
  have "validate_items sample_web Instances [] [] [view_json (sample_view '' Failed loans '' sample_normal)] = Inr [sample_view ''Failed loans'' sample_normal]"
  proof -
    have "trim '' Failed loans '' = ''Failed loans''" by code_simp
    moreover have "length (print_search sample_web sample_normal) \<le> 4096" by (simp add: sample_web_def sample_normal_def quote_texts_def)
    then have "normalizeFilterSearch sample_web Instances (print_search sample_web sample_normal) = Inr (print_search sample_web sample_normal)"
      by (rule normalize_stable [OF sample_web_laws sample_normalized])
    ultimately show ?thesis unfolding validate_items_Cons by (simp add: sample_view_def)
  qed
  moreover have "utf8_length sample_web (print_json sample_web (stored_json [sample_view ''Failed loans'' sample_normal])) \<le> MAX_STORAGE_BYTES"
    by (simp add: sample_web_def stored_json_def view_json_def sample_view_def sample_normal_def quote_texts_def MAX_STORAGE_BYTES_def)
  ultimately have "storeSavedFilters sample_web True Instances [sample_view '' Failed loans '' sample_normal] [] =
      Inr ([sample_view ''Failed loans'' sample_normal], saved_storage)"
    by (simp add: storeSavedFilters_def validateViews_def MAX_FILTERS_def Let_def stored_json_def map_set_def saved_storage_def)
  then show ?thesis
    by (simp add: panel_step_def update_views_def loadSavedFilters_def save_change_def sample_normalized sample_panel_def sample_view_def)
qed

theorem panel_step_refines_list_witness:
  "loadSavedFilters sample_web Instances saved_storage = Inr [sample_view ''Failed loans'' sample_normal]"
proof -
  have "loadSavedFilters sample_web Instances [] = Inr []" by (simp add: loadSavedFilters_def)
  moreover have "trim '' Failed loans '' = ''Failed loans''" by code_simp
  ultimately show ?thesis
    using panel_step_refines_list [OF sample_web_laws _ sample_save, of "[]" Incidents]
    by (simp add: saved_storage_def intended_views_def sample_normalized sample_panel_def sample_view_def)
qed

lemma sample_browser_run: "browser_run sample_web saved_storage [0 \<mapsto> (Instances, sample_panel\<lparr>pn_views := [sample_view ''Failed loans'' sample_normal], pn_error := None\<rparr>)]"
proof -
  have "normalizeFilterSearch sample_web Instances [] = Inr []"
    by (simp add: normalizeFilterSearch_def sample_web_def normalize_params_def search_delete_def filter_fields_def search_getAll_def timeRangeError_def
        get_or_empty_def search_get_def check_version_def result_entries_def Let_def quote_texts_def)
  then have i: "initial_panel sample_web Instances [] [] = sample_panel\<lparr>pn_name := []\<rparr>"
    by (simp add: initial_panel_def loadSavedFilters_def find_view_def sample_panel_def)
  have "browser_run sample_web [] [0 \<mapsto> (Instances, sample_panel\<lparr>pn_name := []\<rparr>)]"
    using browser_run.mount [OF browser_run.start, of sample_web 0 Instances "[]"] by (simp add: i)
  from browser_run.act [OF this, of 0 Instances _ "Set_Name '' Failed loans ''"]
  have "browser_run sample_web [] [0 \<mapsto> (Instances, sample_panel)]" by (simp add: panel_step_def sample_panel_def)
  from browser_run.act [OF this _ sample_save, of 0] show ?thesis by simp
qed

theorem saved_filters_usable_witness:
  "\<exists>views. loadSavedFilters sample_web Instances saved_storage = Inr views \<and> length views \<le> 20 \<and>
     (\<forall>v \<in> set views. \<exists>t. apply_view sample_web Instances saved_storage (sf_id v) = Inr t)"
  using saved_filters_usable [OF sample_web_laws sample_browser_run, of Instances] by blast

end
