(* ===== verification/Overview.thy ===== *)
theory Overview
  imports Process_Instances
begin

text \<open>
  The overview of the monitor, \<^verbatim>\<open>workflow-monitor-bff/src/modules/overview/overview.queries.ts\<close>: the number of
  instances per definition version and per current step, in pages.

  The key (id, version) of \<^verbatim>\<open>workflow_definition\<close> is unique, so its left join finds at most one row.
\<close>

section \<open>Parameters and cursors\<close>

record overview_query =
  oq_cursor :: "query_value option"
  oq_pageSize :: "query_value option"
  oq_workflow :: "query_value option"
  oq_definitionId :: "query_value option"
  oq_definitionVersion :: "query_value option"
  oq_minStepAgeSeconds :: "query_value option"

text \<open>After the test of the digits \<^verbatim>\<open>Number\<close> is exact up to the largest safe integer and is not safe beyond.\<close>

definition overview_positiveInteger :: "query_value option \<Rightarrow> nat \<Rightarrow> nat \<Rightarrow> string \<Rightarrow> monitor_error + nat" where
  "overview_positiveInteger v fallback maximum name =
     (let bad = Inl (BadRequest (name @ '' must be an integer between 1 and '' @ nat_str maximum));
          check = (\<lambda>n. if n > 9007199254740991 \<or> n < 1 \<or> n > maximum then bad else Inr n)
      in case v of
           None \<Rightarrow> check fallback
         | Some (Many _) \<Rightarrow> bad
         | Some (One s) \<Rightarrow> if s = [] \<or> \<not> list_all is_digit s then bad else check (number_of s))"

definition overview_decodeCursor :: "'b monitor_env \<Rightarrow> query_value option \<Rightarrow> string \<Rightarrow> monitor_error + string \<times> int" where
  "overview_decodeCursor env v scope =
     (let bad = Inl (BadRequest ''Invalid Overview cursor'') in
      case v of
        None \<Rightarrow> Inr ([], 0)
      | Some (Many _) \<Rightarrow> bad
      | Some (One s) \<Rightarrow>
          (case cursor_json env s of
             None \<Rightarrow> bad
           | Some c \<Rightarrow>
               (case (json_field c ''id'', json_field c ''version'') of
                  (Some (JStr i), Some (JNum n)) \<Rightarrow>
                    if json_field c ''scope'' \<noteq> Some (JStr scope) \<or> json_field c ''v'' \<noteq> Some (JNum 1) \<or> i = [] \<or>
                       \<not> is_safe_integer (Num n) \<or> n < 0 \<or> n > 2147483647
                    then bad else Inr (i, \<lfloor>n\<rfloor>)
                | _ \<Rightarrow> bad)))"

definition overview_encodeCursor :: "'b monitor_env \<Rightarrow> string \<Rightarrow> string \<Rightarrow> int \<Rightarrow> string" where
  "overview_encodeCursor env scope i version =
     cursor_text env (JObj [(''v'', JNum 1), (''scope'', JStr scope), (''id'', JStr i), (''version'', JNum (of_int version))])"

section \<open>Instances per definition\<close>

record definition_count =
  dc_definitionId :: string
  dc_definitionVersion :: int
  dc_name :: string
  dc_active :: nat
  dc_waiting :: nat
  dc_failed :: nat

definition definition_of :: "instance_row \<Rightarrow> string \<times> int" where
  "definition_of i = (wi_definition_id i, wi_definition_version i)"

definition definition_name :: "database \<Rightarrow> string \<times> int \<Rightarrow> string option" where
  "definition_name db k = map_option wd_name (first_row (filter (\<lambda>d. (wd_id d, wd_version d) = k) (db_definitions db)))"

text \<open>\<^verbatim>\<open>strpos(text, part) > 0\<close> for a part that is not empty.\<close>

definition occurs_in :: "string \<Rightarrow> string \<Rightarrow> bool" where
  "occurs_in part s \<longleftrightarrow> list_ex (\<lambda>n. starts_with part (drop n s)) [0..<Suc (length s)]"

definition found_by :: "'b monitor_env \<Rightarrow> database \<Rightarrow> string \<Rightarrow> string \<times> int \<Rightarrow> bool" where
  "found_by env db workflow k \<longleftrightarrow> workflow = [] \<or> occurs_in (pg_lower env workflow) (pg_lower env (fst k)) \<or>
     (case definition_name db k of Some n \<Rightarrow> occurs_in (pg_lower env workflow) (pg_lower env n) | None \<Rightarrow> False)"

definition definition_key :: "'b monitor_env \<Rightarrow> string \<times> int \<Rightarrow> nat list \<times> int" where
  "definition_key env k = (collate env (fst k), snd k)"

definition count_status :: "instance_row list \<Rightarrow> string \<times> int \<Rightarrow> string \<Rightarrow> nat" where
  "count_status is k st = length (filter (\<lambda>i. definition_of i = k \<and> wi_status i = st) is)"

definition definition_count_of :: "database \<Rightarrow> instance_row list \<Rightarrow> string \<times> int \<Rightarrow> definition_count" where
  "definition_count_of db is k =
     \<lparr>dc_definitionId = fst k, dc_definitionVersion = snd k,
      dc_name = (case definition_name db k of Some n \<Rightarrow> n | None \<Rightarrow> fst k),
      dc_active = count_status is k ''ACTIVE'', dc_waiting = count_status is k ''WAITING'', dc_failed = count_status is k ''FAILED''\<rparr>"

definition count_key :: "'b monitor_env \<Rightarrow> definition_count \<Rightarrow> nat list \<times> int" where
  "count_key env r = definition_key env (dc_definitionId r, dc_definitionVersion r)"

definition select_definitions :: "'b monitor_env \<Rightarrow> database \<Rightarrow> string \<times> int \<Rightarrow> string \<Rightarrow> definition_count list" where
  "select_definitions env db after workflow =
     (let is = filter (\<lambda>i. fst after = [] \<or> definition_key env after < definition_key env (definition_of i)) (db_instances db)
      in sort_key (count_key env) (map (definition_count_of db is) (filter (found_by env db workflow) (remdups (map definition_of is)))))"

record 'a overview_page =
  op_observedAt :: int
  op_items :: "'a list"
  op_nextCursor :: "string option"

text \<open>The text search and the scope that ties a cursor to it.\<close>

definition definitions_scope :: "'b monitor_env \<Rightarrow> string \<Rightarrow> string" where
  "definitions_scope env workflow = (if workflow \<noteq> [] then json_string env (JArr [JStr ''definitions'', JStr workflow]) else ''definitions'')"

definition workflow_of :: "query_value option \<Rightarrow> monitor_error + string" where
  "workflow_of v =
     (case v of
        None \<Rightarrow> Inr []
      | Some (Many _) \<Rightarrow> Inl (BadRequest ''Workflow search must be a string'')
      | Some (One s) \<Rightarrow> Inr (trim s))"

definition definitions :: "'b monitor_env \<Rightarrow> database \<Rightarrow> int \<Rightarrow> overview_query \<Rightarrow> monitor_error + definition_count overview_page" where
  "definitions env db now q =
     try_in (overview_positiveInteger (oq_pageSize q) 50 100 ''Page size'') (\<lambda>limit.
     try_in (workflow_of (oq_workflow q)) (\<lambda>workflow.
     let scope = definitions_scope env workflow in
     try_in (overview_decodeCursor env (oq_cursor q) scope) (\<lambda>after.
       let (items, c) = slice_page limit (\<lambda>r. overview_encodeCursor env scope (dc_definitionId r) (dc_definitionVersion r))
             (take (limit + 1) (select_definitions env db after workflow))
       in Inr \<lparr>op_observedAt = pg_date env now, op_items = items, op_nextCursor = c\<rparr>)))"

section \<open>Instances per step\<close>

record step_count =
  sc_stepId :: string
  sc_instances :: nat
  sc_aged :: nat
  sc_ageUnavailable :: nat

text \<open>The cross join of the live instances with their current steps.\<close>

definition current_pairs :: "database \<Rightarrow> string \<Rightarrow> int \<Rightarrow> (instance_row \<times> string) list" where
  "current_pairs db definitionId version =
     concat (map (\<lambda>i. map (Pair i) (wi_current_step_ids i))
       (filter (\<lambda>i. wi_definition_id i = definitionId \<and> wi_definition_version i = version \<and> wi_status i \<in> {''ACTIVE'', ''WAITING''}) (db_instances db)))"

definition count_instances :: "(instance_row \<times> string) list \<Rightarrow> string \<Rightarrow> (instance_row \<Rightarrow> bool) \<Rightarrow> nat" where
  "count_instances ps s P = length (remdups (map (\<lambda>p. wi_id (fst p)) (filter (\<lambda>p. snd p = s \<and> P (fst p)) ps)))"

definition age_known :: "'b monitor_env \<Rightarrow> database \<Rightarrow> string \<Rightarrow> string \<Rightarrow> bool" where
  "age_known env db i s \<longleftrightarrow> (case latest_execution env db i s of Some e \<Rightarrow> se_status e = ''RUNNING'' | None \<Rightarrow> False)"

definition step_count_of :: "'b monitor_env \<Rightarrow> database \<Rightarrow> int \<Rightarrow> (instance_row \<times> string) list \<Rightarrow> string \<Rightarrow> step_count" where
  "step_count_of env db cutoff ps s =
     \<lparr>sc_stepId = s, sc_instances = count_instances ps s (\<lambda>_. True),
      sc_aged = count_instances ps s (\<lambda>i. waits_before env db (wi_id i) s cutoff),
      sc_ageUnavailable = count_instances ps s (\<lambda>i. \<not> age_known env db (wi_id i) s)\<rparr>"

definition select_steps :: "'b monitor_env \<Rightarrow> database \<Rightarrow> int \<Rightarrow> string \<Rightarrow> int \<Rightarrow> string \<Rightarrow> step_count list" where
  "select_steps env db cutoff definitionId version after =
     (let ps = filter (\<lambda>p. after = [] \<or> collate env after < collate env (snd p)) (current_pairs db definitionId version)
      in sort_key (\<lambda>r. collate env (sc_stepId r)) (map (step_count_of env db cutoff ps) (remdups (map snd ps))))"

record steps_page = "step_count overview_page" +
  sp_stepStartedBefore :: int
  sp_definitionId :: string
  sp_definitionVersion :: nat
  sp_minStepAgeSeconds :: nat

text \<open>\<^verbatim>\<open>transaction_timestamp() - ($3::int * interval '1 second')\<close>.\<close>

definition age_cutoff :: "int \<Rightarrow> nat \<Rightarrow> int" where
  "age_cutoff now age = now - int age * 1000000"

definition steps_scope :: "'b monitor_env \<Rightarrow> string \<Rightarrow> nat \<Rightarrow> nat \<Rightarrow> string" where
  "steps_scope env definitionId version age =
     json_string env (JArr [JStr definitionId, JNum (of_nat version), JNum (of_nat age)])"

definition steps :: "'b monitor_env \<Rightarrow> database \<Rightarrow> int \<Rightarrow> overview_query \<Rightarrow> monitor_error + steps_page" where
  "steps env db now q =
     (case oq_definitionId q of
        Some (One definitionId) \<Rightarrow>
          if definitionId = [] \<or> oq_definitionVersion q = None then Inl (BadRequest ''Definition ID and version are required'')
          else
     try_in (overview_positiveInteger (oq_definitionVersion q) 1 2147483647 ''Definition version'') (\<lambda>version.
     try_in (overview_positiveInteger (oq_minStepAgeSeconds q) 1800 2147483647 ''Minimum step age'') (\<lambda>age.
     try_in (overview_positiveInteger (oq_pageSize q) 50 100 ''Page size'') (\<lambda>limit.
     let scope = steps_scope env definitionId version age in
     try_in (overview_decodeCursor env (oq_cursor q) scope) (\<lambda>after.
       let (items, c) = slice_page limit (\<lambda>r. overview_encodeCursor env scope (sc_stepId r) 0)
             (take (limit + 1) (select_steps env db (age_cutoff now age) definitionId (int version) (fst after)))
       in Inr \<lparr>op_observedAt = pg_date env now, op_items = items, op_nextCursor = c,
               sp_stepStartedBefore = pg_date env (age_cutoff now age), sp_definitionId = definitionId,
               sp_definitionVersion = version, sp_minStepAgeSeconds = age\<rparr>))))
      | _ \<Rightarrow> Inl (BadRequest ''Definition ID and version are required''))"

section \<open>Lemmas\<close>

lemma sort_key_ascending:
  assumes "distinct (map k xs)"
  shows "sorted_wrt (\<lambda>a b. k a < k b) (sort_key k xs)"
  using order_desc_strict [OF assms] by (simp add: order_desc_def sorted_wrt_rev)

lemma overview_positiveInteger_bounds: "overview_positiveInteger v d m name = Inr n \<Longrightarrow> 1 \<le> n \<and> n \<le> m"
  by (auto simp: overview_positiveInteger_def Let_def split: option.splits query_value.splits if_splits)

lemma overview_cursor_roundtrip:
  assumes "codec_laws env" "i \<noteq> []" "0 \<le> v" "v \<le> 2147483647"
  shows "overview_decodeCursor env (Some (One (overview_encodeCursor env scope i v))) scope = Inr (i, v)"
  using assms by (simp add: overview_decodeCursor_def overview_encodeCursor_def cursor_codec json_field_def Let_def is_safe_integer_def)

text \<open>Restricting the instances of the groups restricts the groups.\<close>

lemma groups_filter: "remdups (map g (filter (\<lambda>x. R (g x)) xs)) = filter R (remdups (map g xs))"
  by (induction xs) auto

lemma select_definitions_after:
  assumes "fst after \<noteq> []"
  shows "select_definitions env db after workflow =
    filter (\<lambda>r. definition_key env after < count_key env r) (select_definitions env db ([], 0) workflow)"
proof -
  let ?R = "\<lambda>k. definition_key env after < definition_key env k"
  let ?is = "filter (\<lambda>i. ?R (definition_of i)) (db_instances db)"
  have c: "definition_count_of db ?is k = definition_count_of db (db_instances db) k" if "?R k" for k
  proof -
    have "filter (\<lambda>i. definition_of i = k \<and> wi_status i = st) ?is = filter (\<lambda>i. definition_of i = k \<and> wi_status i = st) (db_instances db)" for st
      using that by (auto intro: filter_cong)
    then show ?thesis by (simp add: definition_count_of_def count_status_def)
  qed
  have k: "count_key env (definition_count_of db is k) = definition_key env k" for "is" k
    by (simp add: count_key_def definition_count_of_def)
  let ?keys = "filter (found_by env db workflow) (remdups (map definition_of (db_instances db)))"
  have "filter (found_by env db workflow) (remdups (map definition_of ?is)) = filter ?R ?keys"
    unfolding groups_filter [of definition_of ?R] by (simp add: conj_commute)
  then have "map (definition_count_of db ?is) (filter (found_by env db workflow) (remdups (map definition_of ?is))) =
      map (definition_count_of db (db_instances db)) (filter ?R ?keys)"
    using c by (simp add: map_eq_conv)
  also have "\<dots> = filter (\<lambda>r. definition_key env after < count_key env r) (map (definition_count_of db (db_instances db)) ?keys)"
    by (simp add: filter_map comp_def k)
  finally show ?thesis using assms by (simp add: select_definitions_def Let_def filter_sort)
qed

lemma select_steps_after:
  assumes "after \<noteq> []"
  shows "select_steps env db cutoff d v after =
    filter (\<lambda>r. collate env after < collate env (sc_stepId r)) (select_steps env db cutoff d v [])"
proof -
  let ?R = "\<lambda>s. collate env after < collate env s" and ?ps = "current_pairs db d v"
  let ?qs = "filter (\<lambda>p. ?R (snd p)) ?ps"
  have "step_count_of env db cutoff ?qs s = step_count_of env db cutoff ?ps s" if "?R s" for s
  proof -
    have "filter (\<lambda>p. snd p = s \<and> P (fst p)) ?qs = filter (\<lambda>p. snd p = s \<and> P (fst p)) ?ps" for P
      using that by (auto intro: filter_cong)
    then have "count_instances ?qs s P = count_instances ?ps s P" for P by (simp only: count_instances_def)
    then show ?thesis by (simp add: step_count_of_def)
  qed
  then have "map (step_count_of env db cutoff ?qs) (remdups (map snd ?qs)) = map (step_count_of env db cutoff ?ps) (filter ?R (remdups (map snd ?ps)))"
    unfolding groups_filter [of snd ?R] by (simp add: map_eq_conv)
  also have "\<dots> = filter (\<lambda>r. ?R (sc_stepId r)) (map (step_count_of env db cutoff ?ps) (remdups (map snd ?ps)))"
    by (simp add: filter_map comp_def step_count_of_def)
  finally show ?thesis using assms by (simp add: select_steps_def Let_def filter_sort)
qed

section \<open>Reading every page\<close>

type_synonym 'b overview_request = "'b monitor_env \<times> database \<times> int \<times> overview_query"

definition overview_limit :: "'b overview_request \<Rightarrow> nat" where
  "overview_limit = (\<lambda>(env, db, now, q). case overview_positiveInteger (oq_pageSize q) 50 100 ''Page size'' of Inr n \<Rightarrow> n | Inl _ \<Rightarrow> 0)"

definition search_text :: "overview_query \<Rightarrow> string" where
  "search_text q = (case workflow_of (oq_workflow q) of Inr w \<Rightarrow> w | Inl _ \<Rightarrow> [])"

definition definitions_good :: "'b overview_request \<Rightarrow> bool" where
  "definitions_good = (\<lambda>(env, db, now, q). codec_laws env \<and> inj (collate env) \<and>
     (\<exists>n. overview_positiveInteger (oq_pageSize q) 50 100 ''Page size'' = Inr n) \<and> (\<exists>w. workflow_of (oq_workflow q) = Inr w) \<and>
     list_all (\<lambda>i. wi_definition_id i \<noteq> [] \<and> 0 \<le> wi_definition_version i \<and> wi_definition_version i \<le> 2147483647) (db_instances db))"

definition fetch_definitions :: "'b overview_request \<Rightarrow> string option \<Rightarrow> monitor_error + definition_count list \<times> string option" where
  "fetch_definitions = (\<lambda>(env, db, now, q) c.
     try_in (definitions env db now (q\<lparr>oq_cursor := map_option One c\<rparr>)) (\<lambda>p. Inr (op_items p, op_nextCursor p)))"

definition definition_rows :: "'b overview_request \<Rightarrow> definition_count list" where
  "definition_rows = (\<lambda>(env, db, now, q). select_definitions env db ([], 0) (search_text q))"

definition definition_cursor :: "'b overview_request \<Rightarrow> definition_count \<Rightarrow> string" where
  "definition_cursor = (\<lambda>(env, db, now, q) r.
     overview_encodeCursor env (definitions_scope env (search_text q)) (dc_definitionId r) (dc_definitionVersion r))"

lemma select_definitions_keys: "r \<in> set (select_definitions env db after w) \<Longrightarrow>
    \<exists>i \<in> set (db_instances db). (dc_definitionId r, dc_definitionVersion r) = definition_of i"
  by (auto simp: select_definitions_def Let_def definition_count_of_def)

lemma definitions_ascending:
  assumes "inj (collate env)"
  shows "sorted_wrt (\<lambda>a b. count_key env a < count_key env b) (select_definitions env db after w)"
  unfolding select_definitions_def Let_def
proof (rule sort_key_ascending, rule distinct_key)
  have "map (\<lambda>r. (dc_definitionId r, dc_definitionVersion r)) (map (definition_count_of db is) ks) = ks" for "is" ks
    by (simp add: comp_def definition_count_of_def)
  then show "distinct (map (\<lambda>r. (dc_definitionId r, dc_definitionVersion r))
      (map (definition_count_of db is) (filter P (remdups ks))))" for "is" P ks
    by (simp only: distinct_filter distinct_remdups)
  show "count_key env x = count_key env y \<Longrightarrow> (dc_definitionId x, dc_definitionVersion x) = (dc_definitionId y, dc_definitionVersion y)" for x y
    using injD [OF assms] by (simp add: count_key_def definition_key_def)
qed

lemma fetch_definitions_eq:
  assumes "overview_positiveInteger (oq_pageSize q) 50 100 ''Page size'' = Inr n" "workflow_of (oq_workflow q) = Inr w"
    and "overview_decodeCursor env (map_option One c) (definitions_scope env w) = Inr after"
  shows "fetch_definitions (env, db, now, q) c =
    Inr (slice_page n (definition_cursor (env, db, now, q)) (take (n + 1) (select_definitions env db after w)))"
proof -
  have "search_text q = w" using assms(2) by (simp add: search_text_def)
  then show ?thesis
    using assms by (simp add: fetch_definitions_def definitions_def definition_cursor_def Let_def split: prod.split)
qed

lemma definitions_goodD:
  assumes "definitions_good (env, db, now, q)"
  shows "codec_laws env" "inj (collate env)" "\<exists>n. overview_positiveInteger (oq_pageSize q) 50 100 ''Page size'' = Inr n"
    "workflow_of (oq_workflow q) = Inr (search_text q)"
    "i \<in> set (db_instances db) \<Longrightarrow> wi_definition_id i \<noteq> [] \<and> 0 \<le> wi_definition_version i \<and> wi_definition_version i \<le> 2147483647"
  using assms by (auto simp: definitions_good_def list_all_iff search_text_def)

interpretation definition_pages: keyset_query definitions_good fetch_definitions definition_rows
  "\<lambda>q a b. count_key (fst q) a < count_key (fst q) b" "\<lambda>q r. r" overview_limit definition_cursor
proof (unfold_locales)
  fix q :: "'b overview_request" and a b row
  show "count_key (fst q) a < count_key (fst q) b \<Longrightarrow> \<not> count_key (fst q) b < count_key (fst q) a" by (rule less_not_sym)
  assume g: "definitions_good q"
  obtain env db now r where q: "q = (env, db, now, r)" by (cases q)
  note laws = definitions_goodD [OF g [unfolded q]]
  obtain n where p: "overview_positiveInteger (oq_pageSize r) 50 100 ''Page size'' = Inr n" using laws(3) by blast
  have lim: "overview_limit q = n" by (simp add: overview_limit_def q p)
  show "0 < overview_limit q" using lim overview_positiveInteger_bounds [OF p] by simp
  show "sorted_wrt (\<lambda>a b. count_key (fst q) a < count_key (fst q) b) (definition_rows q)"
    using definitions_ascending [OF laws(2)] by (simp add: definition_rows_def q)
  have "overview_decodeCursor env (map_option One None) (definitions_scope env (search_text r)) = Inr ([], 0)"
    by (simp add: overview_decodeCursor_def Let_def)
  from fetch_definitions_eq [OF p laws(4) this, of db now]
  show "fetch_definitions q None = Inr (slice_page (overview_limit q) (definition_cursor q)
      (map (\<lambda>r. r) (take (overview_limit q + 1) (definition_rows q))))"
    by (simp add: lim [unfolded q] definition_rows_def q)
  assume row: "row \<in> set (definition_rows q)"
  then have "row \<in> set (select_definitions env db ([], 0) (search_text r))" by (simp add: definition_rows_def q)
  from select_definitions_keys [OF this] obtain i
    where i: "i \<in> set (db_instances db)" "(dc_definitionId row, dc_definitionVersion row) = definition_of i" by blast
  have v: "dc_definitionId row \<noteq> []" "0 \<le> dc_definitionVersion row" "dc_definitionVersion row \<le> 2147483647"
    using laws(5) [OF i(1)] i(2) by (auto simp: definition_of_def)
  from overview_cursor_roundtrip [OF laws(1) v]
  have "overview_decodeCursor env (map_option One (Some (definition_cursor q row))) (definitions_scope env (search_text r)) =
      Inr (dc_definitionId row, dc_definitionVersion row)" by (simp add: definition_cursor_def q)
  from fetch_definitions_eq [OF p laws(4) this, of db now]
  show "fetch_definitions q (Some (definition_cursor q row)) = Inr (slice_page (overview_limit q) (definition_cursor q)
      (map (\<lambda>r. r) (take (overview_limit q + 1) (filter (\<lambda>b. count_key (fst q) row < count_key (fst q) b) (definition_rows q)))))"
    using select_definitions_after [of "(dc_definitionId row, dc_definitionVersion row)" env db "search_text r"] v(1)
    by (simp add: lim [unfolded q] definition_rows_def q count_key_def [of env row, symmetric])
qed

text \<open>The same for the steps of one definition version.\<close>

definition step_params :: "overview_query \<Rightarrow> monitor_error + string \<times> nat \<times> nat \<times> nat" where
  "step_params q =
     (case oq_definitionId q of
        Some (One d) \<Rightarrow>
          if d = [] \<or> oq_definitionVersion q = None then Inl (BadRequest ''Definition ID and version are required'')
          else
     try_in (overview_positiveInteger (oq_definitionVersion q) 1 2147483647 ''Definition version'') (\<lambda>version.
     try_in (overview_positiveInteger (oq_minStepAgeSeconds q) 1800 2147483647 ''Minimum step age'') (\<lambda>age.
     try_in (overview_positiveInteger (oq_pageSize q) 50 100 ''Page size'') (\<lambda>limit. Inr (d, version, age, limit))))
      | _ \<Rightarrow> Inl (BadRequest ''Definition ID and version are required''))"

lemma step_params_cases:
  assumes "step_params q = Inr (d, v, age, n)"
  shows "oq_definitionId q = Some (One d)" "d \<noteq> []" "oq_definitionVersion q \<noteq> None"
    "overview_positiveInteger (oq_definitionVersion q) 1 2147483647 ''Definition version'' = Inr v"
    "overview_positiveInteger (oq_minStepAgeSeconds q) 1800 2147483647 ''Minimum step age'' = Inr age"
    "overview_positiveInteger (oq_pageSize q) 50 100 ''Page size'' = Inr n"
proof -
  obtain d' where d': "oq_definitionId q = Some (One d')"
    using assms by (cases "oq_definitionId q") (simp_all add: step_params_def split: query_value.splits)
  have n: "\<not> (d' = [] \<or> oq_definitionVersion q = None)"
    using assms d' by (simp add: step_params_def split: if_splits)
  note r = assms [unfolded step_params_def d' option.case query_value.case if_not_P [OF n] try_in_Inr]
  then show "oq_definitionId q = Some (One d)" "d \<noteq> []" "oq_definitionVersion q \<noteq> None"
    "overview_positiveInteger (oq_definitionVersion q) 1 2147483647 ''Definition version'' = Inr v"
    "overview_positiveInteger (oq_minStepAgeSeconds q) 1800 2147483647 ''Minimum step age'' = Inr age"
    "overview_positiveInteger (oq_pageSize q) 50 100 ''Page size'' = Inr n"
    using d' n by simp_all
qed

lemma steps_eq:
  assumes "step_params q = Inr (d, v, age, n)" "overview_decodeCursor env c (steps_scope env d v age) = Inr after"
  shows "steps env db now (q\<lparr>oq_cursor := c\<rparr>) =
    (let (items, c) = slice_page n (\<lambda>r. overview_encodeCursor env (steps_scope env d v age) (sc_stepId r) 0)
             (take (n + 1) (select_steps env db (age_cutoff now age) d (int v) (fst after)))
       in Inr \<lparr>op_observedAt = pg_date env now, op_items = items, op_nextCursor = c,
               sp_stepStartedBefore = pg_date env (age_cutoff now age), sp_definitionId = d,
               sp_definitionVersion = v, sp_minStepAgeSeconds = age\<rparr>)"
proof -
  note p = step_params_cases [OF assms(1)]
  have sel: "oq_definitionId (q\<lparr>oq_cursor := c\<rparr>) = oq_definitionId q" "oq_definitionVersion (q\<lparr>oq_cursor := c\<rparr>) = oq_definitionVersion q"
    "oq_minStepAgeSeconds (q\<lparr>oq_cursor := c\<rparr>) = oq_minStepAgeSeconds q" "oq_pageSize (q\<lparr>oq_cursor := c\<rparr>) = oq_pageSize q"
    "oq_cursor (q\<lparr>oq_cursor := c\<rparr>) = c" by simp_all
  have "(d = [] \<or> oq_definitionVersion q = None) = False" using p(2,3) by simp
  then show ?thesis
    by (simp only: steps_def sel p(1,4,5,6) option.case query_value.case if_False try_in_simps Let_def assms(2))
qed

definition overview_steps_good :: "'b overview_request \<Rightarrow> bool" where
  "overview_steps_good = (\<lambda>(env, db, now, q). codec_laws env \<and> inj (collate env) \<and> (\<exists>p. step_params q = Inr p) \<and>
     list_all (\<lambda>i. [] \<notin> set (wi_current_step_ids i)) (db_instances db))"

definition fetch_overview_steps :: "'b overview_request \<Rightarrow> string option \<Rightarrow> monitor_error + step_count list \<times> string option" where
  "fetch_overview_steps = (\<lambda>(env, db, now, q) c.
     try_in (steps env db now (q\<lparr>oq_cursor := map_option One c\<rparr>)) (\<lambda>p. Inr (op_items p, op_nextCursor p)))"

definition overview_step_rows :: "'b overview_request \<Rightarrow> step_count list" where
  "overview_step_rows = (\<lambda>(env, db, now, q).
     case step_params q of Inr (d, v, age, n) \<Rightarrow> select_steps env db (age_cutoff now age) d (int v) [] | Inl _ \<Rightarrow> [])"

definition overview_step_limit :: "'b overview_request \<Rightarrow> nat" where
  "overview_step_limit = (\<lambda>(env, db, now, q). case step_params q of Inr (d, v, age, n) \<Rightarrow> n | Inl _ \<Rightarrow> 0)"

definition overview_step_cursor :: "'b overview_request \<Rightarrow> step_count \<Rightarrow> string" where
  "overview_step_cursor = (\<lambda>(env, db, now, q) r.
     case step_params q of Inr (d, v, age, n) \<Rightarrow> overview_encodeCursor env (steps_scope env d v age) (sc_stepId r) 0 | Inl _ \<Rightarrow> [])"

lemma steps_ascending:
  assumes "inj (collate env)"
  shows "sorted_wrt (\<lambda>a b. collate env (sc_stepId a) < collate env (sc_stepId b)) (select_steps env db cutoff d v after)"
  unfolding select_steps_def Let_def
proof (rule sort_key_ascending, rule distinct_key)
  have "map sc_stepId (map (step_count_of env db cutoff ps) ks) = ks" for ps ks
    by (simp add: comp_def step_count_of_def)
  then show "distinct (map sc_stepId (map (step_count_of env db cutoff ps) (remdups ks)))" for ps ks
    by (simp only: distinct_remdups)
  show "collate env (sc_stepId x) = collate env (sc_stepId y) \<Longrightarrow> sc_stepId x = sc_stepId y" for x y
    by (rule injD [OF assms])
qed

lemma step_count_id [simp]: "sc_stepId (step_count_of env db cutoff ps s) = s"
  by (simp add: step_count_of_def)

lemma current_pairs_iff: "(i, s) \<in> set (current_pairs db d v) \<longleftrightarrow>
    i \<in> set (db_instances db) \<and> wi_definition_id i = d \<and> wi_definition_version i = v \<and> wi_status i \<in> {''ACTIVE'', ''WAITING''} \<and>
    s \<in> set (wi_current_step_ids i)"
  unfolding current_pairs_def set_concat set_map by auto

lemma select_steps_current:
  assumes "r \<in> set (select_steps env db cutoff d v after)"
  shows "\<exists>i \<in> set (db_instances db). sc_stepId r \<in> set (wi_current_step_ids i)"
proof -
  obtain p where p: "p \<in> set (current_pairs db d v)" "sc_stepId r = snd p"
    using assms unfolding select_steps_def Let_def by (auto simp del: split_paired_Ex)
  then show ?thesis using current_pairs_iff [of "fst p" "snd p" db d v] by auto
qed

lemma fetch_overview_steps_eq:
  assumes "step_params q = Inr (d, v, age, n)" "overview_decodeCursor env (map_option One c) (steps_scope env d v age) = Inr after"
  shows "fetch_overview_steps (env, db, now, q) c =
    Inr (slice_page n (overview_step_cursor (env, db, now, q)) (take (n + 1) (select_steps env db (age_cutoff now age) d (int v) (fst after))))"
  using assms by (simp add: fetch_overview_steps_def steps_eq overview_step_cursor_def Let_def split: prod.split)

interpretation overview_step_pages: keyset_query overview_steps_good fetch_overview_steps overview_step_rows
  "\<lambda>q a b. collate (fst q) (sc_stepId a) < collate (fst q) (sc_stepId b)" "\<lambda>q r. r" overview_step_limit overview_step_cursor
proof (unfold_locales)
  fix q :: "'b overview_request" and a b row
  show "collate (fst q) (sc_stepId a) < collate (fst q) (sc_stepId b) \<Longrightarrow> \<not> collate (fst q) (sc_stepId b) < collate (fst q) (sc_stepId a)"
    by (rule less_not_sym)
  assume g: "overview_steps_good q"
  obtain env db now r where q: "q = (env, db, now, r)" by (cases q)
  have laws: "codec_laws env" "inj (collate env)" and ids: "\<And>i. i \<in> set (db_instances db) \<Longrightarrow> [] \<notin> set (wi_current_step_ids i)"
    using g by (simp_all add: overview_steps_good_def q list_all_iff)
  obtain d v age n where p: "step_params r = Inr (d, v, age, n)" using g by (auto simp: overview_steps_good_def q)
  have lim: "overview_step_limit q = n" by (simp add: overview_step_limit_def q p)
  from overview_positiveInteger_bounds [OF step_params_cases(6) [OF p]] show "0 < overview_step_limit q" using lim by simp
  show "sorted_wrt (\<lambda>a b. collate (fst q) (sc_stepId a) < collate (fst q) (sc_stepId b)) (overview_step_rows q)"
    using steps_ascending [OF laws(2)] by (simp add: overview_step_rows_def q p)
  have "overview_decodeCursor env (map_option One None) (steps_scope env d v age) = Inr ([], 0)"
    by (simp add: overview_decodeCursor_def Let_def)
  from fetch_overview_steps_eq [OF p this, of db now]
  show "fetch_overview_steps q None = Inr (slice_page (overview_step_limit q) (overview_step_cursor q)
      (map (\<lambda>r. r) (take (overview_step_limit q + 1) (overview_step_rows q))))"
    by (simp add: lim [unfolded q] overview_step_rows_def q p)
  assume row: "row \<in> set (overview_step_rows q)"
  then have "row \<in> set (select_steps env db (age_cutoff now age) d (int v) [])" by (simp add: overview_step_rows_def q p)
  from select_steps_current [OF this] have s: "sc_stepId row \<noteq> []" using ids by metis
  have "overview_decodeCursor env (map_option One (Some (overview_step_cursor q row))) (steps_scope env d v age) = Inr (sc_stepId row, 0)"
    using overview_cursor_roundtrip [OF laws(1) s, of 0] by (simp add: overview_step_cursor_def q p)
  from fetch_overview_steps_eq [OF p this, of db now]
  show "fetch_overview_steps q (Some (overview_step_cursor q row)) = Inr (slice_page (overview_step_limit q) (overview_step_cursor q)
      (map (\<lambda>r. r) (take (overview_step_limit q + 1)
        (filter (\<lambda>b. collate (fst q) (sc_stepId row) < collate (fst q) (sc_stepId b)) (overview_step_rows q)))))"
    using select_steps_after [OF s, of env db "age_cutoff now age" d "int v"] by (simp add: lim [unfolded q] overview_step_rows_def q p)
qed

text \<open>Reading every page of the overview gives every row once.\<close>

lemma definition_pages_complete:
  assumes "codec_laws env" "inj (collate env)" "overview_positiveInteger (oq_pageSize q) 50 100 ''Page size'' = Inr n"
    "workflow_of (oq_workflow q) = Inr w"
    and "list_all (\<lambda>i. wi_definition_id i \<noteq> [] \<and> 0 \<le> wi_definition_version i \<and> wi_definition_version i \<le> 2147483647) (db_instances db)"
  shows "follow (fetch_definitions (env, db, now, q)) (Suc (length (select_definitions env db ([], 0) w))) None =
    Some (Inr (select_definitions env db ([], 0) w))"
proof -
  have "definitions_good (env, db, now, q)" using assms by (simp add: definitions_good_def)
  moreover have "search_text q = w" using assms(4) by (simp add: search_text_def)
  ultimately show ?thesis
    using definition_pages.pages.follow_all [of "(env, db, now, q)", unfolded definition_pages.listed_def]
    by (simp only: definition_rows_def prod.case map_ident)
qed

lemma overview_step_pages_complete:
  assumes "codec_laws env" "inj (collate env)" "step_params q = Inr (d, v, age, n)"
    and "list_all (\<lambda>i. [] \<notin> set (wi_current_step_ids i)) (db_instances db)"
  shows "follow (fetch_overview_steps (env, db, now, q)) (Suc (length (select_steps env db (age_cutoff now age) d (int v) []))) None =
    Some (Inr (select_steps env db (age_cutoff now age) d (int v) []))"
proof -
  have "overview_steps_good (env, db, now, q)" using assms by (simp add: overview_steps_good_def)
  then show ?thesis
    using overview_step_pages.pages.follow_all [of "(env, db, now, q)", unfolded overview_step_pages.listed_def] assms(3)
    by (simp only: overview_step_rows_def prod.case map_ident sum.case)
qed

section \<open>Drilling down\<close>

text \<open>
  The request of the instance list that a count of the overview leads to, as \<^verbatim>\<open>instanceLink\<close> of
  \<^verbatim>\<open>workflow-monitor/src/routes/OverviewRoute.tsx\<close> writes its parameters: the definition, the version as text, the
  statuses, and for a step its id and the cutoff.
\<close>

definition drill :: "string \<Rightarrow> string \<Rightarrow> string list \<Rightarrow> string option \<Rightarrow> string option \<Rightarrow> instance_query" where
  "drill definitionId version statuses stepId cutoff =
     \<lparr>f_definitionId = Some definitionId, f_definitionVersion = Some (One version), f_currentStepId = map_option One stepId,
      f_stepStartedBefore = map_option One cutoff,
      f_status = (case statuses of [] \<Rightarrow> None | [s] \<Rightarrow> Some (One s) | ss \<Rightarrow> Some (Many ss)),
      f_businessKey = None, f_from = None, f_to = None, q_cursor = None, q_pageSize = None\<rparr>"

lemma drill_sel:
  "f_definitionId (instance_filters.truncate (drill d v ss s c)) = Some d" "f_definitionVersion (instance_filters.truncate (drill d v ss s c)) = Some (One v)"
  "f_currentStepId (instance_filters.truncate (drill d v ss s c)) = map_option One s"
  "f_stepStartedBefore (instance_filters.truncate (drill d v ss s c)) = map_option One c"
  "statusValues (f_status (instance_filters.truncate (drill d v ss s c))) = ss" "f_businessKey (instance_filters.truncate (drill d v ss s c)) = None"
  "f_from (instance_filters.truncate (drill d v ss s c)) = None" "f_to (instance_filters.truncate (drill d v ss s c)) = None"
  "q_pageSize (drill d v ss s c) = None"
  by (simp_all add: drill_def instance_filters.truncate_def statusValues_def split: list.split)

definition version_text :: "string \<Rightarrow> nat \<Rightarrow> bool" where
  "version_text vt v \<longleftrightarrow> vt \<noteq> [] \<and> list_all is_digit vt \<and> number_of vt = v \<and> 1 \<le> v \<and> v \<le> 2147483647"

lemma drill_params:
  assumes "d \<noteq> []" "version_text vt v" "set ss \<subseteq> set PROCESS_INSTANCE_STATUSES" "s \<noteq> Some []" "c = None \<or> s \<noteq> None"
    and "\<And>t. c = Some t \<Longrightarrow> isUtcTimestamp t \<and> t \<noteq> [] \<and> pg_timestamptz env t = Some x"
  shows "instance_params env (drill d vt ss s c) = Inr (50, map_option (\<lambda>_. x) c, None, None)"
proof -
  let ?f = "instance_filters.truncate (drill d vt ss s c)"
  have "\<not> bad_version ?f" using assms(1,2) by (simp add: bad_version_def drill_sel version_text_def str_truthy_def)
  moreover have "\<not> bad_current_step ?f" using assms(1,4) by (cases s) (simp_all add: bad_current_step_def drill_sel str_truthy_def)
  moreover have "\<not> bad_cutoff ?f" using assms(4-6) by (cases c; cases s) (auto simp: bad_cutoff_def drill_sel qv_truthy_def)
  moreover have "\<not> list_ex (\<lambda>s. s \<notin> set PROCESS_INSTANCE_STATUSES) ss" using assms(3) by (auto simp: list_ex_iff)
  ultimately have v: "validateFilters env ?f = None"
    by (simp add: validateFilters_def drill_sel bad_timestamp_def not_increasing_def str_truthy_def)
  have size: "pageSize env (q_pageSize (drill d vt ss s c)) = Inr 50" by (simp add: drill_sel pageSize_def)
  have "bind_timestamp env (one_of (f_stepStartedBefore ?f)) = Inr (map_option (\<lambda>_. x) c)"
    using assms(6) by (cases c) (simp_all add: drill_sel one_of_def bind_timestamp_def str_truthy_def)
  moreover have "bind_timestamp env (f_from ?f) = Inr None" "bind_timestamp env (f_to ?f) = Inr None"
    by (simp_all add: drill_sel bind_timestamp_def str_truthy_def)
  ultimately show ?thesis using v size by (simp add: instance_params_def Let_def)
qed

definition at_step :: "string \<Rightarrow> nat \<Rightarrow> string \<Rightarrow> instance_row \<Rightarrow> bool" where
  "at_step d v s i \<longleftrightarrow> wi_definition_id i = d \<and> wi_definition_version i = int v \<and> wi_status i \<in> {''ACTIVE'', ''WAITING''} \<and>
     s \<in> set (wi_current_step_ids i)"

lemma drill_matching:
  assumes "d \<noteq> []" "version_text vt v" "set ss \<subseteq> set PROCESS_INSTANCE_STATUSES" "s \<noteq> Some []" "c = None \<or> s \<noteq> None"
    and "\<And>t. c = Some t \<Longrightarrow> isUtcTimestamp t \<and> t \<noteq> [] \<and> pg_timestamptz env t = Some x"
  shows "length (matching_instances env db (drill d vt ss s c)) =
    length (filter (\<lambda>i. wi_definition_id i = d \<and> wi_definition_version i = int v \<and> (ss \<noteq> [] \<longrightarrow> wi_status i \<in> set ss) \<and>
      (case s of None \<Rightarrow> True | Some s \<Rightarrow> s \<in> set (wi_current_step_ids i) \<and> wi_status i \<in> {''ACTIVE'', ''WAITING''} \<and>
        (c \<noteq> None \<longrightarrow> waits_before env db (wi_id i) s x))) (db_instances db))" (is "_ = length (filter ?P _)")
proof -
  let ?f = "instance_filters.truncate (drill d vt ss s c)"
  have "instance_where env db ?f (map_option (\<lambda>_. x) c) None None i = ?P i" for i
  proof -
    have "vt \<noteq> []" "number_of vt = v" using assms(2) by (simp_all add: version_text_def)
    then show ?thesis
      using assms(1,4,5) by (cases s; cases c) (auto simp: instance_where_def drill_sel str_truthy_def qv_truthy_def one_of_def)
  qed
  then have "instance_where env db ?f (map_option (\<lambda>_. x) c) None None = ?P" by (rule ext)
  then show ?thesis by (simp only: matching_instances_def drill_params [OF assms] sum.case prod.case order_desc_length)
qed

lemma drill_step_matching:
  assumes "d \<noteq> []" "version_text vt v" "s \<noteq> []" "\<And>t. c = Some t \<Longrightarrow> isUtcTimestamp t \<and> t \<noteq> [] \<and> pg_timestamptz env t = Some x"
  shows "length (matching_instances env db (drill d vt [''ACTIVE'', ''WAITING''] (Some s) c)) =
    length (filter (\<lambda>i. at_step d v s i \<and> (c \<noteq> None \<longrightarrow> waits_before env db (wi_id i) s x)) (db_instances db))"
proof -
  have "(wi_definition_id i = d \<and> wi_definition_version i = int v \<and> ([''ACTIVE'', ''WAITING''] \<noteq> [] \<longrightarrow> wi_status i \<in> set [''ACTIVE'', ''WAITING'']) \<and>
      (case Some s of None \<Rightarrow> True | Some s \<Rightarrow> s \<in> set (wi_current_step_ids i) \<and> wi_status i \<in> {''ACTIVE'', ''WAITING''} \<and>
        (c \<noteq> None \<longrightarrow> waits_before env db (wi_id i) s x))) \<longleftrightarrow> at_step d v s i \<and> (c \<noteq> None \<longrightarrow> waits_before env db (wi_id i) s x)" for i
    by (auto simp: at_step_def)
  moreover have "set [''ACTIVE'', ''WAITING''] \<subseteq> set PROCESS_INSTANCE_STATUSES" by (simp add: PROCESS_INSTANCE_STATUSES_def)
  ultimately show ?thesis
    using drill_matching [OF assms(1,2), of "[''ACTIVE'', ''WAITING'']" "Some s" c env x db, OF _ _ _ assms(4)] assms(3) by (simp only:) simp
qed

text \<open>Counting distinct instances of the cross join counts the instances at the step.\<close>

lemma count_instances_at:
  assumes "keys_unique db"
  shows "count_instances (current_pairs db d (int v)) s P = length (filter (\<lambda>i. at_step d v s i \<and> P i) (db_instances db))"
proof -
  let ?ids = "wi_id ` {i \<in> set (db_instances db). at_step d v s i \<and> P i}"
  have "set (map (\<lambda>p. wi_id (fst p)) (filter (\<lambda>p. snd p = s \<and> P (fst p)) (current_pairs db d (int v)))) = ?ids"
  proof (rule set_eqI)
    fix x
    have "x \<in> set (map (\<lambda>p. wi_id (fst p)) (filter (\<lambda>p. snd p = s \<and> P (fst p)) (current_pairs db d (int v)))) \<longleftrightarrow>
        (\<exists>i. (i, s) \<in> set (current_pairs db d (int v)) \<and> P i \<and> x = wi_id i)" by (auto simp: image_iff)
    also have "\<dots> \<longleftrightarrow> x \<in> ?ids" unfolding current_pairs_iff at_step_def by blast
    finally show "x \<in> set (map (\<lambda>p. wi_id (fst p)) (filter (\<lambda>p. snd p = s \<and> P (fst p)) (current_pairs db d (int v)))) \<longleftrightarrow> x \<in> ?ids" .
  qed
  then have "count_instances (current_pairs db d (int v)) s P = card ?ids"
    unfolding count_instances_def length_remdups_card_conv by (simp only:)
  also have "\<dots> = length (filter (\<lambda>i. at_step d v s i \<and> P i) (db_instances db))"
  proof -
    have "distinct (map wi_id (filter (\<lambda>i. at_step d v s i \<and> P i) (db_instances db)))"
      using assms by (simp add: keys_unique_def distinct_map_filter)
    from distinct_card [OF this] show ?thesis by simp
  qed
  finally show ?thesis .
qed

lemma steps_cursor:
  assumes "step_params q = Inr (d, v, age, n)" "steps env db now q = Inr page"
  shows "\<exists>after. overview_decodeCursor env (oq_cursor q) (steps_scope env d v age) = Inr after"
proof (cases "overview_decodeCursor env (oq_cursor q) (steps_scope env d v age)")
  case (Inl e)
  note c = step_params_cases [OF assms(1)]
  obtain y where "oq_definitionVersion q = Some y" using c(3) by blast
  with Inl c(1,2,4-6) have "steps env db now q = Inl e" by (simp add: steps_def Let_def)
  with assms(2) show ?thesis by simp
qed simp

lemma steps_result:
  assumes "steps env db now q = Inr page"
  shows "\<exists>n. step_params q = Inr (sp_definitionId page, sp_definitionVersion page, sp_minStepAgeSeconds page, n)"
    "sp_stepStartedBefore page = pg_date env (age_cutoff now (sp_minStepAgeSeconds page))"
    "set (op_items page) \<subseteq> set (select_steps env db (age_cutoff now (sp_minStepAgeSeconds page)) (sp_definitionId page) (int (sp_definitionVersion page)) [])"
proof -
  obtain p where "step_params q = Inr p"
    using assms by (auto simp: steps_def step_params_def try_in_Inr Let_def split: option.splits query_value.splits if_splits prod.splits)
  then obtain d v age n where p: "step_params q = Inr (d, v, age, n)" by (cases p) auto
  obtain after where a: "overview_decodeCursor env (oq_cursor q) (steps_scope env d v age) = Inr after"
    using steps_cursor [OF p assms] by blast
  obtain items c where ic: "slice_page n (\<lambda>r. overview_encodeCursor env (steps_scope env d v age) (sc_stepId r) 0)
      (take (n + 1) (select_steps env db (age_cutoff now age) d (int v) (fst after))) = (items, c)" by fastforce
  have page: "page = \<lparr>op_observedAt = pg_date env now, op_items = items, op_nextCursor = c,
      sp_stepStartedBefore = pg_date env (age_cutoff now age), sp_definitionId = d, sp_definitionVersion = v, sp_minStepAgeSeconds = age\<rparr>"
    using steps_eq [OF p a, of db now] assms ic by simp
  have "set items \<subseteq> set (select_steps env db (age_cutoff now age) d (int v) (fst after))"
    using slice_page_items [OF ic] by (auto dest: in_set_takeD)
  also have "\<dots> \<subseteq> set (select_steps env db (age_cutoff now age) d (int v) [])"
    by (cases "fst after = []") (simp_all add: select_steps_after)
  finally show "set (op_items page) \<subseteq> set (select_steps env db (age_cutoff now (sp_minStepAgeSeconds page)) (sp_definitionId page) (int (sp_definitionVersion page)) [])"
    by (simp add: page)
  show "\<exists>n. step_params q = Inr (sp_definitionId page, sp_definitionVersion page, sp_minStepAgeSeconds page, n)"
    "sp_stepStartedBefore page = pg_date env (age_cutoff now (sp_minStepAgeSeconds page))" using p by (simp_all add: page)
qed

text \<open>The counts of the overview agree with the lists they lead to: for every row of the step overview the number of
  instances is the number of instances that the instance list finds for the link of that cell, with the definition, the
  version as it stands in the address, the live statuses and the current step, and the number of aged instances is what
  it finds when the cutoff shown with the overview is added. It holds when the cutoff is a whole millisecond.\<close>

theorem overview_drilldown:
  assumes "clock_laws env" "keys_unique db" "steps env db now q = Inr page" "r \<in> set (op_items page)" "sc_stepId r \<noteq> []"
    and "whole_ms (age_cutoff now (sp_minStepAgeSeconds page))" "oq_definitionVersion q = Some (One vt)"
  shows "sc_instances r = length (matching_instances env db (drill (sp_definitionId page) vt [''ACTIVE'', ''WAITING''] (Some (sc_stepId r)) None)) \<and>
    sc_aged r = length (matching_instances env db (drill (sp_definitionId page) vt [''ACTIVE'', ''WAITING''] (Some (sc_stepId r))
      (Some (toISOString (sp_stepStartedBefore page)))))"
proof -
  let ?d = "sp_definitionId page" and ?v = "sp_definitionVersion page" and ?s = "sc_stepId r" and ?x = "age_cutoff now (sp_minStepAgeSeconds page)"
  obtain n where p: "step_params q = Inr (?d, ?v, sp_minStepAgeSeconds page, n)" using steps_result(1) [OF assms(3)] by blast
  note c = step_params_cases [OF p]
  have v: "version_text vt ?v" using c(4) assms(7) by (auto simp: overview_positiveInteger_def version_text_def Let_def split: if_splits)
  have "r \<in> set (select_steps env db ?x ?d (int ?v) [])" using steps_result(3) [OF assms(3)] assms(4) by blast
  then have r: "r = step_count_of env db ?x (current_pairs db ?d (int ?v)) ?s"
    by (auto simp: select_steps_def Let_def)
  note t = cursor_clock [OF assms(1,6), folded steps_result(2) [OF assms(3)]]
  have iso: "isUtcTimestamp (toISOString (sp_stepStartedBefore page)) \<and> toISOString (sp_stepStartedBefore page) \<noteq> [] \<and>
      pg_timestamptz env (toISOString (sp_stepStartedBefore page)) = Some ?x"
    using t by (auto simp: isUtcTimestamp_def utc_match_def)
  have "sc_instances r = length (filter (\<lambda>i. at_step ?d ?v ?s i) (db_instances db))"
    "sc_aged r = length (filter (\<lambda>i. at_step ?d ?v ?s i \<and> waits_before env db (wi_id i) ?s ?x) (db_instances db))"
    by (subst r, simp add: step_count_of_def count_instances_at [OF assms(2)])+
  moreover have "length (matching_instances env db (drill ?d vt [''ACTIVE'', ''WAITING''] (Some ?s) None)) = length (filter (at_step ?d ?v ?s) (db_instances db))"
    using drill_step_matching [OF c(2) v assms(5), of None] by simp
  moreover have "length (matching_instances env db (drill ?d vt [''ACTIVE'', ''WAITING''] (Some ?s) (Some (toISOString (sp_stepStartedBefore page))))) =
      length (filter (\<lambda>i. at_step ?d ?v ?s i \<and> waits_before env db (wi_id i) ?s ?x) (db_instances db))"
    using drill_step_matching [OF c(2) v assms(5), of "Some (toISOString (sp_stepStartedBefore page))" env ?x db] iso by simp
  ultimately show ?thesis by simp
qed

definition sample_running :: database where
  "sample_running = (sample_db [1735689600000000])\<lparr>db_executions :=
     [\<lparr>se_id = ''e1'', se_instance_id = ''a'', se_step_id = ''check'', se_step_type = ''WAIT'', se_attempt_number = 1,
       se_status = ''RUNNING'', se_started_at = 1735689600000000, se_ended_at = None, se_failure_reason = None, se_input_snapshot = None,
       se_output_snapshot = None\<rparr>]\<rparr>"

definition sample_cutoff :: int where
  "sample_cutoff = age_cutoff 1735693200000000 1800"

definition sample_step_count :: step_count where
  "sample_step_count = step_count_of sample_monitor sample_running sample_cutoff [(sample_instance ''a'' 1735689600000000, ''check'')] ''check''"

lemma sample_steps_page:
  assumes "step_params q = Inr (''loan'', 1, 1800, 50)" "oq_cursor q = None"
  shows "\<exists>page. steps sample_monitor sample_running 1735693200000000 q = Inr page \<and> op_items page = [sample_step_count] \<and>
    sp_minStepAgeSeconds page = 1800 \<and> sp_stepStartedBefore page = 1735691400000"
proof -
  have pairs: "current_pairs sample_running ''loan'' 1 = [(sample_instance ''a'' 1735689600000000, ''check'')]"
    by (simp add: current_pairs_def sample_running_def sample_db_def sample_instance_def)
  have rows: "select_steps sample_monitor sample_running sample_cutoff ''loan'' 1 [] = [sample_step_count]"
    by (simp add: select_steps_def pairs sample_step_count_def)
  have d: "overview_decodeCursor sample_monitor None (steps_scope sample_monitor ''loan'' 1 1800) = Inr ([], 0)" by (simp add: overview_decodeCursor_def)
  have q: "q\<lparr>oq_cursor := None\<rparr> = q" using assms(2) by (cases q) simp
  have "pg_date sample_monitor sample_cutoff = 1735691400000" by (simp add: sample_monitor_def age_cutoff_def sample_cutoff_def)
  then show ?thesis
    using steps_eq [OF assms(1) d, of sample_running 1735693200000000] by (simp add: q sample_cutoff_def [symmetric] rows slice_page_def)
qed

lemma sample_step_count_sel: "sc_stepId sample_step_count = ''check''" "sc_aged sample_step_count = 1"
proof -
  have "waits_before sample_monitor sample_running ''a'' ''check'' sample_cutoff"
    by (simp add: waits_before_def latest_execution_def executions_of_def sample_running_def order_desc_def first_row_def age_cutoff_def sample_cutoff_def)
  then show "sc_stepId sample_step_count = ''check''" "sc_aged sample_step_count = 1"
    by (simp_all add: sample_step_count_def step_count_of_def count_instances_def sample_instance_def)
qed

lemma sample_running_laws: "keys_unique sample_running" "whole_ms (age_cutoff 1735693200000000 1800)"
  by (simp_all add: keys_unique_def sample_running_def sample_db_def sample_instance_def age_cutoff_def whole_ms_def iso_date_def day_from_year_def)

text \<open>The same for the counts per definition: each leads to a list of just as many instances.\<close>

lemma count_status_drill:
  assumes "d \<noteq> []" "1 \<le> v" "v \<le> 2147483647" "st \<in> set PROCESS_INSTANCE_STATUSES"
  shows "count_status (db_instances db) (d, v) st = length (matching_instances env db (drill d (nat_str (nat v)) [st] None None))"
proof -
  have "1 \<le> nat v" "nat v \<le> 2147483647" using assms(2,3) by linarith+
  then have "version_text (nat_str (nat v)) (nat v)"
    using nat_str_digits [of "nat v"] by (simp add: version_text_def number_of_nat_str)
  then have "length (matching_instances env db (drill d (nat_str (nat v)) [st] None None)) =
      length (filter (\<lambda>i. wi_definition_id i = d \<and> wi_definition_version i = v \<and> wi_status i = st) (db_instances db))"
    using drill_matching [OF assms(1), of "nat_str (nat v)" "nat v" "[st]" None None] assms(2,4) by simp
  then show ?thesis by (simp add: count_status_def definition_of_def conj_assoc)
qed

theorem definition_counts_drilldown:
  assumes "definitions env db now q = Inr page" "r \<in> set (op_items page)" "dc_definitionId r \<noteq> []"
    and "1 \<le> dc_definitionVersion r" "dc_definitionVersion r \<le> 2147483647"
  shows "dc_active r = length (matching_instances env db (drill (dc_definitionId r) (nat_str (nat (dc_definitionVersion r))) [''ACTIVE''] None None)) \<and>
    dc_waiting r = length (matching_instances env db (drill (dc_definitionId r) (nat_str (nat (dc_definitionVersion r))) [''WAITING''] None None)) \<and>
    dc_failed r = length (matching_instances env db (drill (dc_definitionId r) (nat_str (nat (dc_definitionVersion r))) [''FAILED''] None None))"
proof -
  let ?k = "(dc_definitionId r, dc_definitionVersion r)"
  obtain after workflow where "r \<in> set (select_definitions env db after workflow)"
    using assms(1,2) by (auto simp: definitions_def try_in_Inr Let_def slice_page_def split: prod.splits dest!: in_set_takeD)
  then obtain "is" where "is": "r = definition_count_of db is ?k" "\<And>st. count_status is ?k st = count_status (db_instances db) ?k st"
  proof (unfold select_definitions_def Let_def, clarsimp)
    fix i
    let ?after = "\<lambda>i. fst after = [] \<or> definition_key env after < definition_key env (definition_of i)"
    let ?is = "filter ?after (db_instances db)"
    assume i: "i \<in> set (db_instances db)" "fst after = [] \<or> definition_key env after < definition_key env (definition_of i)"
      and r: "r = definition_count_of db ?is (definition_of i)"
      and that: "\<And>is. definition_count_of db ?is (definition_of i) = definition_count_of db is
          (dc_definitionId (definition_count_of db ?is (definition_of i)), dc_definitionVersion (definition_count_of db ?is (definition_of i))) \<Longrightarrow>
        (\<And>st. count_status is (dc_definitionId (definition_count_of db ?is (definition_of i)), dc_definitionVersion (definition_count_of db ?is (definition_of i))) st =
          count_status (db_instances db) (dc_definitionId (definition_count_of db ?is (definition_of i)), dc_definitionVersion (definition_count_of db ?is (definition_of i))) st) \<Longrightarrow> thesis"
    have k: "(dc_definitionId (definition_count_of db ?is (definition_of i)), dc_definitionVersion (definition_count_of db ?is (definition_of i))) = definition_of i"
      by (simp add: definition_count_of_def)
    have "count_status ?is (definition_of i) st = count_status (db_instances db) (definition_of i) st" for st
      using i(2) unfolding count_status_def filter_filter by (intro arg_cong [where f = length] filter_cong refl) auto
    then show thesis using that [of ?is] unfolding k by blast
  qed
  have "{''ACTIVE'', ''WAITING'', ''FAILED''} \<subseteq> set PROCESS_INSTANCE_STATUSES" by (simp add: PROCESS_INSTANCE_STATUSES_def)
  then have "count_status is ?k st = length (matching_instances env db (drill (dc_definitionId r) (nat_str (nat (dc_definitionVersion r))) [st] None None))"
    if "st \<in> {''ACTIVE'', ''WAITING'', ''FAILED''}" for st
    using count_status_drill [OF assms(3-5)] that unfolding "is"(2) by blast
  moreover have "dc_active r = count_status is ?k ''ACTIVE''" "dc_waiting r = count_status is ?k ''WAITING''" "dc_failed r = count_status is ?k ''FAILED''"
    using arg_cong [OF "is"(1), of dc_active] arg_cong [OF "is"(1), of dc_waiting] arg_cong [OF "is"(1), of dc_failed]
    by (simp_all add: definition_count_of_def)
  ultimately show ?thesis by simp
qed

end
