(* ===== verification/Overview_Page.thy ===== *)
theory Overview_Page
  imports Saved_Filter_Panel Overview
begin

text \<open>
  The overview page of the monitor's web application, \<^verbatim>\<open>workflow-monitor/src/routes/OverviewRoute.tsx\<close>: the location
  holds the search, the selected definition version, the age threshold and the cursors of both tables; the requests to
  the server are made from it, and the numbers shown are links to the list of instances.
\<close>

section \<open>Model\<close>

text \<open>The entries of the location, with the default of the age threshold.\<close>

definition overview_age :: "params \<Rightarrow> string" where
  "overview_age ps = (case search_get ps ''minStepAgeSeconds'' of Some a \<Rightarrow> a | None \<Rightarrow> ''1800'')"

definition definitions_search :: "params \<Rightarrow> params" where
  "definitions_search ps =
     set_if ''cursor'' (get_or_empty ps ''cursor'') (set_if ''workflow'' (get_or_empty ps ''workflow'') [])"

definition steps_search :: "params \<Rightarrow> params" where
  "steps_search ps =
     set_if ''cursor'' (get_or_empty ps ''stepCursor'')
       [(''definitionId'', get_or_empty ps ''definitionId''), (''definitionVersion'', get_or_empty ps ''definitionVersion''),
        (''minStepAgeSeconds'', overview_age ps)]"

definition steps_enabled :: "params \<Rightarrow> bool" where
  "steps_enabled ps \<longleftrightarrow> get_or_empty ps ''definitionId'' \<noteq> [] \<and> get_or_empty ps ''definitionVersion'' \<noteq> []"

fun update_entries :: "(string \<times> string option) list \<Rightarrow> params \<Rightarrow> params" where
  "update_entries [] ps = ps"
| "update_entries ((name, value) # rest) ps =
     update_entries rest (case value of None \<Rightarrow> search_delete name ps | Some v \<Rightarrow> search_set name v ps)"

definition updateLocation :: "web_env \<Rightarrow> string \<Rightarrow> (string \<times> string option) list \<Rightarrow> target" where
  "updateLocation web search updates = (''/overview'', ''?'' @ print_search web (update_entries updates (parse_search web search)))"

definition searchWorkflows :: "web_env \<Rightarrow> string \<Rightarrow> string \<Rightarrow> target" where
  "searchWorkflows web search value =
     updateLocation web search
       [(''workflow'', if trim value \<noteq> [] then Some (trim value) else None), (''cursor'', None), (''definitionId'', None),
        (''definitionVersion'', None), (''stepCursor'', None)]"

definition inspectVersion :: "web_env \<Rightarrow> string \<Rightarrow> definition_count \<Rightarrow> target" where
  "inspectVersion web search row =
     updateLocation web search
       [(''definitionId'', Some (dc_definitionId row)), (''definitionVersion'', Some (nat_str (nat (dc_definitionVersion row)))), (''stepCursor'', None)]"

definition definitionsPage :: "web_env \<Rightarrow> string \<Rightarrow> string option \<Rightarrow> target" where
  "definitionsPage web search cursor = updateLocation web search [(''cursor'', cursor)]"

definition stepsPage :: "web_env \<Rightarrow> string \<Rightarrow> string option \<Rightarrow> target" where
  "stepsPage web search cursor = updateLocation web search [(''stepCursor'', cursor)]"

definition applyAge :: "web_env \<Rightarrow> string \<Rightarrow> string \<Rightarrow> target" where
  "applyAge web search ageInput = updateLocation web search [(''minStepAgeSeconds'', Some ageInput), (''stepCursor'', None)]"

text \<open>The link of a count to the list of instances.\<close>

definition instanceLink :: "web_env \<Rightarrow> string \<Rightarrow> string \<Rightarrow> string list \<Rightarrow> string option \<Rightarrow> string option \<Rightarrow> target" where
  "instanceLink web i version statuses stepId cutoff =
     (let query = [(''definitionId'', i), (''definitionVersion'', version)] @ map (Pair ''status'') statuses;
          query = (if str_truthy stepId then search_set ''currentStepId'' (the stepId) query else query);
          query = (if str_truthy cutoff then search_set ''stepStartedBefore'' (the cutoff) query else query)
      in (''/'', ''?'' @ print_search web query))"

section \<open>Requests on the server\<close>

text \<open>How the handlers of the server see the entries of a request.\<close>

definition overview_query_of :: "(string \<Rightarrow> query_value option) \<Rightarrow> overview_query" where
  "overview_query_of g =
     \<lparr>oq_cursor = g ''cursor'', oq_pageSize = g ''pageSize'', oq_workflow = g ''workflow'', oq_definitionId = g ''definitionId'',
      oq_definitionVersion = g ''definitionVersion'', oq_minStepAgeSeconds = g ''minStepAgeSeconds''\<rparr>"

definition instance_query_of :: "(string \<Rightarrow> query_value option) \<Rightarrow> instance_query" where
  "instance_query_of g = instance_filters.extend (instance_filters_of g) (instance_query.fields (one_text (g ''cursor'')) (one_text (g ''pageSize'')))"

definition definitions_query :: "web_env \<Rightarrow> (params \<Rightarrow> string \<Rightarrow> query_value option) \<Rightarrow> string \<Rightarrow> overview_query" where
  "definitions_query web qget search = overview_query_of (qget (definitions_search (parse_search web search)))"

definition steps_query :: "web_env \<Rightarrow> (params \<Rightarrow> string \<Rightarrow> query_value option) \<Rightarrow> string \<Rightarrow> overview_query" where
  "steps_query web qget search = overview_query_of (qget (steps_search (parse_search web search)))"

text \<open>The list of instances sends the query string of the location as it is.\<close>

definition listed_query :: "web_env \<Rightarrow> (params \<Rightarrow> string \<Rightarrow> query_value option) \<Rightarrow> target \<Rightarrow> instance_query" where
  "listed_query web qget t = instance_query_of (qget (parse_search web (snd t)))"

section \<open>Links\<close>

lemma query_single: "query_laws qget \<Longrightarrow> search_getAll ps k = [] \<Longrightarrow> qget ps k = None"
  "query_laws qget \<Longrightarrow> search_getAll ps k = [v] \<Longrightarrow> qget ps k = Some (One v)"
  by (simp_all add: query_laws_def)

lemma getAll_set_same: "search_getAll ps k = [] \<Longrightarrow> search_getAll (search_set k v ps) k = [v]"
  by (induction ps) (auto simp: search_getAll_def split: if_splits)

lemma getAll_Cons: "search_getAll ((k', v) # ps) k = (if k' = k then v # search_getAll ps k else search_getAll ps k)"
  by (simp add: search_getAll_def)

lemma getAll_Pair_other: "k' \<noteq> k \<Longrightarrow> search_getAll (map (Pair k') vs) k = []"
  by (simp add: search_getAll_def filter_map comp_def)

text \<open>What the server makes of the request of the list a link opens.\<close>

lemma instanceLink_drill:
  assumes "search_laws web" "query_laws qget" "stepId \<noteq> Some []" "cutoff \<noteq> Some []"
  shows "listed_query web qget (instanceLink web i v ss stepId cutoff) = drill i v ss stepId cutoff"
proof -
  let ?q = "[(''definitionId'', i), (''definitionVersion'', v)] @ map (Pair ''status'') ss"
  let ?q1 = "if str_truthy stepId then search_set ''currentStepId'' (the stepId) ?q else ?q"
  let ?q2 = "if str_truthy cutoff then search_set ''stepStartedBefore'' (the cutoff) ?q1 else ?q1"
  have p: "parse_search web (snd (instanceLink web i v ss stepId cutoff)) = ?q2"
    using assms(1) by (simp add: instanceLink_def search_laws_def Let_def)
  have base: "search_getAll ?q2 k = search_getAll ?q k" if "k \<noteq> ''currentStepId''" "k \<noteq> ''stepStartedBefore''" for k
    using that by (simp add: getAll_set getAll_Cons)
  have "search_getAll ?q2 ''currentStepId'' = (case stepId of None \<Rightarrow> [] | Some s \<Rightarrow> [s])"
    "search_getAll ?q2 ''stepStartedBefore'' = (case cutoff of None \<Rightarrow> [] | Some s \<Rightarrow> [s])"
    using assms(3,4) by (auto simp: getAll_set getAll_set_same str_truthy_def getAll_Cons getAll_Pair_other split: option.splits)
  then have "qget ?q2 ''currentStepId'' = map_option One stepId" "qget ?q2 ''stepStartedBefore'' = map_option One cutoff"
    using query_single [OF assms(2)] by (auto split: option.splits)
  moreover have "qget ?q2 ''definitionId'' = Some (One i)" "qget ?q2 ''definitionVersion'' = Some (One v)"
    by (rule query_single(2) [OF assms(2)], subst base; simp add: getAll_Cons getAll_Pair_other)+
  moreover have "qget ?q2 ''businessKey'' = None" "qget ?q2 ''from'' = None" "qget ?q2 ''to'' = None" "qget ?q2 ''cursor'' = None" "qget ?q2 ''pageSize'' = None"
    by (rule query_single(1) [OF assms(2)], subst base; simp add: getAll_Cons getAll_Pair_other)+
  moreover have "qget ?q2 ''status'' = (case ss of [] \<Rightarrow> None | [s] \<Rightarrow> Some (One s) | ss \<Rightarrow> Some (Many ss))"
    using assms(2) base [of "''status''"] by (simp add: query_laws_def getAll_Cons)
  ultimately show ?thesis
    unfolding listed_query_def p
    by (simp add: instance_query_of_def instance_filters_of_def drill_def one_text_def instance_filters.extend_def instance_query.fields_def)
qed

text \<open>C21. The numbers of the step table are the lengths of the lists they open: the link of a count, opened, makes the list of
  instances request exactly that many instances. The location may be any, and its version any text the server accepts. For the
  aged instances it holds when the cutoff is a whole millisecond.\<close>

theorem step_links_agree:
  assumes "search_laws web" "query_laws qget" "clock_laws env" "keys_unique db" "steps env db now (steps_query web qget search) = Inr page"
    and "r \<in> set (op_items page)" "sc_stepId r \<noteq> []" "whole_ms (age_cutoff now (sp_minStepAgeSeconds page))"
  shows "let ps = parse_search web search; d = get_or_empty ps ''definitionId''; v = get_or_empty ps ''definitionVersion'' in
    sc_instances r = length (matching_instances env db (listed_query web qget
      (instanceLink web d v [''ACTIVE'', ''WAITING''] (Some (sc_stepId r)) None))) \<and>
    sc_aged r = length (matching_instances env db (listed_query web qget
      (instanceLink web d v [''ACTIVE'', ''WAITING''] (Some (sc_stepId r)) (Some (toISOString (sp_stepStartedBefore page))))))"
proof -
  let ?ps = "parse_search web search"
  let ?d = "get_or_empty ?ps ''definitionId''" and ?v = "get_or_empty ?ps ''definitionVersion''"
  have q: "oq_definitionId (steps_query web qget search) = Some (One ?d)" "oq_definitionVersion (steps_query web qget search) = Some (One ?v)"
    by (simp_all add: steps_query_def overview_query_of_def) (rule query_single(2) [OF assms(2)], simp add: steps_search_def getAll_set_if getAll_Cons)+
  obtain n where p: "step_params (steps_query web qget search) = Inr (sp_definitionId page, sp_definitionVersion page, sp_minStepAgeSeconds page, n)"
    using steps_result(1) [OF assms(5)] by blast
  have d: "sp_definitionId page = ?d" using step_params_cases(1) [OF p] q(1) by simp
  have "toISOString (sp_stepStartedBefore page) \<noteq> []"
    using cursor_clock [OF assms(3,8), folded steps_result(2) [OF assms(5)]] by (auto simp: isUtcTimestamp_def utc_match_def)
  then show ?thesis
    using overview_drilldown [OF assms(3-8) q(2)] instanceLink_drill [OF assms(1,2), of "Some (sc_stepId r)"] assms(7)
    by (simp add: d Let_def)
qed

text \<open>The same for the table of the workflows.\<close>

theorem definition_links_agree:
  assumes "search_laws web" "query_laws qget" "definitions env db now q = Inr page" "r \<in> set (op_items page)" "dc_definitionId r \<noteq> []"
    and "1 \<le> dc_definitionVersion r" "dc_definitionVersion r \<le> 2147483647"
  shows "let link = (\<lambda>st. instanceLink web (dc_definitionId r) (nat_str (nat (dc_definitionVersion r))) [st] None None);
           listed = (\<lambda>st. length (matching_instances env db (listed_query web qget (link st)))) in
    dc_active r = listed ''ACTIVE'' \<and> dc_waiting r = listed ''WAITING'' \<and> dc_failed r = listed ''FAILED''"
  using definition_counts_drilldown [OF assms(3-7)] instanceLink_drill [OF assms(1,2), of None None] by (simp add: Let_def)

section \<open>Navigation on the page\<close>

lemma search_get_delete: "search_get (search_delete k ps) k' = (if k' = k then None else search_get ps k')"
  by (induction ps) (auto simp: search_get_def search_delete_def)

lemma get_or_empty_delete: "get_or_empty (search_delete k ps) k' = (if k' = k then [] else get_or_empty ps k')"
  by (simp add: get_or_empty_def search_get_delete)

lemma overview_age_set: "overview_age (search_set k v ps) = (if k = ''minStepAgeSeconds'' then v else overview_age ps)"
  by (simp add: overview_age_def search_get_set)

lemma overview_age_delete: "k \<noteq> ''minStepAgeSeconds'' \<Longrightarrow> overview_age (search_delete k ps) = overview_age ps"
  by (simp add: overview_age_def search_get_delete)

lemmas location_simps = get_or_empty_set get_or_empty_delete overview_age_set overview_age_delete

lemma parse_update: "search_laws web \<Longrightarrow> parse_search web (snd (updateLocation web search us)) = update_entries us (parse_search web search)"
  by (simp add: updateLocation_def search_laws_def)

text \<open>A cursor of the location belongs to the table it is for: it was made for the same search, or for the same version and age.\<close>

definition cursor_fits :: "'b monitor_env \<Rightarrow> params \<Rightarrow> bool" where
  "cursor_fits env ps \<longleftrightarrow> get_or_empty ps ''cursor'' = [] \<or>
     (\<exists>i v. i \<noteq> [] \<and> 0 \<le> v \<and> v \<le> 2147483647 \<and>
        get_or_empty ps ''cursor'' = overview_encodeCursor env (definitions_scope env (trim (get_or_empty ps ''workflow''))) i v)"

definition step_cursor_fits :: "'b monitor_env \<Rightarrow> params \<Rightarrow> bool" where
  "step_cursor_fits env ps \<longleftrightarrow> get_or_empty ps ''stepCursor'' = [] \<or>
     (\<exists>s. s \<noteq> [] \<and> get_or_empty ps ''stepCursor'' =
        overview_encodeCursor env (steps_scope env (get_or_empty ps ''definitionId'') (number_of (get_or_empty ps ''definitionVersion'')) (number_of (overview_age ps))) s 0)"

definition version_fits :: "params \<Rightarrow> bool" where
  "version_fits ps \<longleftrightarrow> get_or_empty ps ''definitionVersion'' = [] \<or> (\<exists>v. version_text (get_or_empty ps ''definitionVersion'') v)"

text \<open>The requests, entry by entry.\<close>

lemma definitions_query_sel:
  assumes "query_laws qget"
  shows "oq_cursor (definitions_query web qget search) = map_option One (text_of (get_or_empty (parse_search web search) ''cursor''))"
    "oq_workflow (definitions_query web qget search) = map_option One (text_of (get_or_empty (parse_search web search) ''workflow''))"
    "oq_pageSize (definitions_query web qget search) = None"
  using assms by (simp_all add: definitions_query_def overview_query_of_def query_laws_def definitions_search_def set_if_def text_of_def
      getAll_set getAll_set_same getAll_Cons)

lemma steps_query_sel:
  assumes "query_laws qget"
  shows "oq_cursor (steps_query web qget search) = map_option One (text_of (get_or_empty (parse_search web search) ''stepCursor''))"
    "oq_definitionId (steps_query web qget search) = Some (One (get_or_empty (parse_search web search) ''definitionId''))"
    "oq_definitionVersion (steps_query web qget search) = Some (One (get_or_empty (parse_search web search) ''definitionVersion''))"
    "oq_minStepAgeSeconds (steps_query web qget search) = Some (One (overview_age (parse_search web search)))"
    "oq_pageSize (steps_query web qget search) = None"
  using assms by (simp_all add: steps_query_def overview_query_of_def query_laws_def steps_search_def set_if_def text_of_def
      getAll_set getAll_set_same getAll_Cons)

lemma workflow_text: "workflow_of (map_option One (text_of w)) = Inr (trim w)"
  by (cases "w = []") (simp_all add: workflow_of_def text_of_def trim_def)

lemma fitting_cursor:
  assumes "codec_laws env" "c = [] \<or> (\<exists>i v. i \<noteq> [] \<and> 0 \<le> v \<and> v \<le> 2147483647 \<and> c = overview_encodeCursor env scope i v)"
  shows "\<exists>after. overview_decodeCursor env (map_option One (text_of c)) scope = Inr after"
  using assms(2)
proof (elim disjE exE conjE)
  fix i v assume "i \<noteq> []" "0 \<le> v" "v \<le> 2147483647" and c: "c = overview_encodeCursor env scope i v"
  then have "overview_decodeCursor env (Some (One c)) scope = Inr (i, v)" using overview_cursor_roundtrip [OF assms(1)] by simp
  moreover have "c \<noteq> []" using c cursor_text_nonempty [OF assms(1)] by (simp add: overview_encodeCursor_def)
  ultimately show ?thesis by (simp add: text_of_def)
qed (simp add: text_of_def overview_decodeCursor_def)

lemma fitting_step_cursor:
  assumes "codec_laws env" "c = [] \<or> (\<exists>s. s \<noteq> [] \<and> c = overview_encodeCursor env scope s 0)"
  shows "\<exists>after. overview_decodeCursor env (map_option One (text_of c)) scope = Inr after"
proof (rule fitting_cursor [OF assms(1)], cases "c = []")
  case False
  then obtain s where "s \<noteq> []" "c = overview_encodeCursor env scope s 0" using assms(2) by blast
  then show "c = [] \<or> (\<exists>i v. i \<noteq> [] \<and> 0 \<le> v \<and> v \<le> 2147483647 \<and> c = overview_encodeCursor env scope i v)"
    by (intro disjI2 exI [of _ s] exI [of _ 0]) simp
qed simp

lemma default_pageSize: "overview_positiveInteger None 50 100 name = Inr 50"
  by (simp add: overview_positiveInteger_def Let_def)

lemma definitions_answers:
  assumes "query_laws qget" "codec_laws env" "cursor_fits env (parse_search web search)"
  shows "\<exists>page. definitions env db now (definitions_query web qget search) = Inr page"
proof -
  let ?ps = "parse_search web search"
  obtain after where "overview_decodeCursor env (map_option One (text_of (get_or_empty ?ps ''cursor''))) (definitions_scope env (trim (get_or_empty ?ps ''workflow''))) = Inr after"
    using fitting_cursor [OF assms(2), of "get_or_empty ?ps ''cursor''"] assms(3) unfolding cursor_fits_def by blast
  then show ?thesis
    by (simp add: definitions_def definitions_query_sel [OF assms(1)] default_pageSize workflow_text Let_def split: prod.split)
qed

text \<open>The databases the page meets: ids are not empty and versions are positive and of 32 bits.\<close>

definition overview_db :: "database \<Rightarrow> bool" where
  "overview_db db \<longleftrightarrow> list_all (\<lambda>i. wi_definition_id i \<noteq> [] \<and> 1 \<le> wi_definition_version i \<and> wi_definition_version i \<le> 2147483647 \<and>
     [] \<notin> set (wi_current_step_ids i)) (db_instances db)"

lemma definitions_page:
  assumes "query_laws qget" "overview_db db" "definitions env db now (definitions_query web qget search) = Inr page"
  shows "row \<in> set (op_items page) \<Longrightarrow> dc_definitionId row \<noteq> [] \<and> 1 \<le> dc_definitionVersion row \<and> dc_definitionVersion row \<le> 2147483647"
    "op_nextCursor page = Some c \<Longrightarrow> \<exists>i v. i \<noteq> [] \<and> 0 \<le> v \<and> v \<le> 2147483647 \<and>
       c = overview_encodeCursor env (definitions_scope env (trim (get_or_empty (parse_search web search) ''workflow''))) i v"
proof -
  let ?w = "trim (get_or_empty (parse_search web search) ''workflow'')"
  obtain after where page: "op_items page = take 50 (take 51 (select_definitions env db after ?w))"
    "op_nextCursor page = (if length (take 51 (select_definitions env db after ?w)) > 50
       then Some (overview_encodeCursor env (definitions_scope env ?w) (dc_definitionId (last (op_items page))) (dc_definitionVersion (last (op_items page)))) else None)"
    using assms(3) by (auto simp: definitions_def definitions_query_sel [OF assms(1)] default_pageSize workflow_text Let_def slice_page_def try_in_Inr)
  have row: "dc_definitionId r \<noteq> [] \<and> 1 \<le> dc_definitionVersion r \<and> dc_definitionVersion r \<le> 2147483647" if "r \<in> set (op_items page)" for r
  proof -
    have "r \<in> set (select_definitions env db after ?w)" using that unfolding page(1) by (blast dest: in_set_takeD)
    from select_definitions_keys [OF this] show ?thesis using assms(2) by (auto simp: overview_db_def list_all_iff definition_of_def)
  qed
  then show "row \<in> set (op_items page) \<Longrightarrow> dc_definitionId row \<noteq> [] \<and> 1 \<le> dc_definitionVersion row \<and> dc_definitionVersion row \<le> 2147483647" .
  assume c: "op_nextCursor page = Some c"
  then have "op_items page \<noteq> []" using page by (auto split: if_splits)
  then have "last (op_items page) \<in> set (op_items page)" by simp
  from row [OF this] c show "\<exists>i v. i \<noteq> [] \<and> 0 \<le> v \<and> v \<le> 2147483647 \<and> c = overview_encodeCursor env (definitions_scope env ?w) i v"
    using page(2) by (intro exI [of _ "dc_definitionId (last (op_items page))"] exI [of _ "dc_definitionVersion (last (op_items page))"]) (auto split: if_splits)
qed

lemma positive_text: "overview_positiveInteger (Some (One t)) d m name = Inr n \<Longrightarrow> n = number_of t"
  by (auto simp: overview_positiveInteger_def Let_def split: if_splits)

lemma steps_page:
  assumes "query_laws qget" "overview_db db" "steps env db now (steps_query web qget search) = Inr page" "op_nextCursor page = Some c"
  shows "let ps = parse_search web search in \<exists>s. s \<noteq> [] \<and> c =
    overview_encodeCursor env (steps_scope env (get_or_empty ps ''definitionId'') (number_of (get_or_empty ps ''definitionVersion'')) (number_of (overview_age ps))) s 0"
proof -
  let ?ps = "parse_search web search" and ?q = "steps_query web qget search"
  obtain d v age n where p: "step_params ?q = Inr (d, v, age, n)" using steps_result(1) [OF assms(3)] by blast
  note parts = step_params_cases [OF p]
  let ?scope = "steps_scope env d v age"
  have scope: "d = get_or_empty ?ps ''definitionId''" "v = number_of (get_or_empty ?ps ''definitionVersion'')" "age = number_of (overview_age ?ps)"
    using parts(1,4,5) unfolding steps_query_sel [OF assms(1)] by (simp_all add: positive_text)
  have q: "?q\<lparr>oq_cursor := oq_cursor ?q\<rparr> = ?q" by simp
  obtain after where a: "overview_decodeCursor env (oq_cursor ?q) ?scope = Inr after"
    using steps_cursor [OF p] assms(3) by blast
  let ?rows = "select_steps env db (age_cutoff now age) d (int v) (fst after)"
  have page: "op_items page = take n ?rows"
    "op_nextCursor page = (if length ?rows > n then Some (overview_encodeCursor env ?scope (sc_stepId (last (take n ?rows))) 0) else None)"
    using steps_eq [OF p a, of db now] assms(3) unfolding q by (simp_all add: slice_page_def Let_def split: if_splits)
  have n: "n < length ?rows" "c = overview_encodeCursor env ?scope (sc_stepId (last (take n ?rows))) 0"
    using page(2) assms(4) by (simp_all split: if_splits)
  have "1 \<le> n" using overview_positiveInteger_bounds [OF parts(6)] by simp
  then have "take n ?rows \<noteq> []" using n(1) by auto
  from last_in_set [OF this] have "last (take n ?rows) \<in> set ?rows" by (rule in_set_takeD)
  from select_steps_current [OF this] have "sc_stepId (last (take n ?rows)) \<noteq> []" using assms(2) by (auto simp: overview_db_def list_all_iff)
  then show ?thesis using n(2) unfolding Let_def scope [symmetric] by blast
qed

section \<open>Runs of the page\<close>

text \<open>From the plain address of the overview, through its forms, its table rows and its paging buttons. The rows and the cursors are
  those of an answer the server gave to the request of the location, over a database that may change all the time.\<close>

inductive overview_run :: "web_env \<Rightarrow> 'b monitor_env \<Rightarrow> (params \<Rightarrow> string \<Rightarrow> query_value option) \<Rightarrow> string \<Rightarrow> bool" for web env qget where
  start: "overview_run web env qget []"
| "search": "overview_run web env qget s \<Longrightarrow> overview_run web env qget (snd (searchWorkflows web s w))"
| inspect: "overview_run web env qget s \<Longrightarrow> overview_db db \<Longrightarrow> definitions env db now (definitions_query web qget s) = Inr page \<Longrightarrow>
    row \<in> set (op_items page) \<Longrightarrow> overview_run web env qget (snd (inspectVersion web s row))"
| first_page: "overview_run web env qget s \<Longrightarrow> overview_run web env qget (snd (definitionsPage web s None))"
| next_page: "overview_run web env qget s \<Longrightarrow> overview_db db \<Longrightarrow> definitions env db now (definitions_query web qget s) = Inr page \<Longrightarrow>
    op_nextCursor page = Some c \<Longrightarrow> overview_run web env qget (snd (definitionsPage web s (Some c)))"
| age: "overview_run web env qget s \<Longrightarrow> overview_run web env qget (snd (applyAge web s t))"
| first_steps: "overview_run web env qget s \<Longrightarrow> overview_run web env qget (snd (stepsPage web s None))"
| next_steps: "overview_run web env qget s \<Longrightarrow> overview_db db \<Longrightarrow> steps env db now (steps_query web qget s) = Inr page \<Longrightarrow>
    op_nextCursor page = Some c \<Longrightarrow> overview_run web env qget (snd (stepsPage web s (Some c)))"

lemmas location_defs = searchWorkflows_def inspectVersion_def definitionsPage_def stepsPage_def applyAge_def
lemmas fits_defs = cursor_fits_def step_cursor_fits_def version_fits_def

lemma overview_run_fits:
  assumes "search_laws web" "query_laws qget" "overview_run web env qget s"
  shows "cursor_fits env (parse_search web s) \<and> step_cursor_fits env (parse_search web s) \<and> version_fits (parse_search web s)"
  using assms(3)
proof induction
  case start
  have "parse_search web [] = []" using assms(1) by (simp add: search_laws_def)
  then show ?case by (simp add: fits_defs)
next
  case (inspect s db now page row)
  have r: "dc_definitionId row \<noteq> [] \<and> 1 \<le> dc_definitionVersion row \<and> dc_definitionVersion row \<le> 2147483647"
    by (rule definitions_page(1) [OF assms(2) inspect.hyps(2,3,4)])
  then have "version_text (nat_str (nat (dc_definitionVersion row))) (nat (dc_definitionVersion row))"
    using nat_str_digits [of "nat (dc_definitionVersion row)"] by (simp add: version_text_def number_of_nat_str nat_le_iff le_nat_iff)
  then show ?case using inspect.IH by (auto simp: location_defs parse_update [OF assms(1)] fits_defs location_simps)
next
  case (next_page s db now page c)
  from definitions_page(2) [OF assms(2) next_page.hyps(2,3,4)] next_page.IH show ?case
    by (simp add: location_defs parse_update [OF assms(1)] fits_defs location_simps)
next
  case (next_steps s db now page c)
  from steps_page [OF assms(2) next_steps.hyps(2,3,4)] next_steps.IH show ?case
    by (simp add: location_defs parse_update [OF assms(1)] fits_defs location_simps Let_def)
qed (simp_all add: location_defs parse_update [OF assms(1)] fits_defs location_simps)

text \<open>C20. Going through the overview never ends in a rejected request: at every location reached by its forms, rows and paging
  buttons, over any database, the server answers the request for the workflow table, and the request for the step table, made when a
  version is selected, can be rejected only for the age threshold that was typed in. In particular a cursor is never sent with
  another search, version or threshold than the one it was made for.\<close>

theorem overview_never_rejected:
  assumes "search_laws web" "query_laws qget" "codec_laws env" "overview_run web env qget s"
  shows "(\<exists>page. definitions env db now (definitions_query web qget s) = Inr page) \<and>
    (steps_enabled (parse_search web s) \<longrightarrow>
      (\<exists>page. steps env db now (steps_query web qget s) = Inr page) \<or>
      (steps env db now (steps_query web qget s) = Inl (BadRequest (''Minimum step age must be an integer between 1 and '' @ nat_str 2147483647)) \<and>
       \<not> version_text (overview_age (parse_search web s)) (number_of (overview_age (parse_search web s)))))"
proof -
  let ?ps = "parse_search web s" and ?q = "steps_query web qget s"
  let ?d = "get_or_empty ?ps ''definitionId''" and ?v = "get_or_empty ?ps ''definitionVersion''"
  note fits = overview_run_fits [OF assms(1,2,4)]
  have "(\<exists>page. steps env db now ?q = Inr page) \<or>
      (steps env db now ?q = Inl (BadRequest (''Minimum step age must be an integer between 1 and '' @ nat_str 2147483647)) \<and>
       \<not> version_text (overview_age ?ps) (number_of (overview_age ?ps)))" if "steps_enabled ?ps"
  proof -
    have d: "?d \<noteq> []" and v: "version_text ?v (number_of ?v)" using that fits by (auto simp: steps_enabled_def version_fits_def version_text_def)
    have version: "overview_positiveInteger (Some (One ?v)) 1 2147483647 ''Definition version'' = Inr (number_of ?v)"
      using v by (auto simp: overview_positiveInteger_def version_text_def Let_def)
    show ?thesis
    proof (cases "version_text (overview_age ?ps) (number_of (overview_age ?ps))")
      case True
      then have age: "overview_positiveInteger (Some (One (overview_age ?ps))) 1800 2147483647 ''Minimum step age'' = Inr (number_of (overview_age ?ps))"
        by (auto simp: overview_positiveInteger_def version_text_def Let_def)
      obtain after where "overview_decodeCursor env (map_option One (text_of (get_or_empty ?ps ''stepCursor'')))
          (steps_scope env ?d (number_of ?v) (number_of (overview_age ?ps))) = Inr after"
        using fitting_step_cursor [OF assms(3), of "get_or_empty ?ps ''stepCursor''"] fits unfolding step_cursor_fits_def by blast
      then show ?thesis
        using d by (simp add: steps_def steps_query_sel [OF assms(2)] version [unfolded One_nat_def] age default_pageSize Let_def split: prod.split)
    next
      case False
      then have "overview_positiveInteger (Some (One (overview_age ?ps))) 1800 2147483647 ''Minimum step age'' =
          Inl (BadRequest (''Minimum step age must be an integer between 1 and '' @ nat_str 2147483647))"
        by (auto simp: overview_positiveInteger_def version_text_def Let_def)
      then show ?thesis using d False by (simp add: steps_def steps_query_sel [OF assms(2)] version [unfolded One_nat_def])
    qed
  qed
  then show ?thesis using definitions_answers [OF assms(2,3)] fits by blast
qed

section \<open>Concrete runs\<close>

definition sample_location :: string where
  "sample_location = ''?'' @ print_search sample_browser [(''definitionId'', ''loan''), (''definitionVersion'', ''1'')]"

lemma sample_location_parse: "parse_search sample_browser sample_location = [(''definitionId'', ''loan''), (''definitionVersion'', ''1'')]"
  using sample_browser_laws by (simp add: sample_location_def search_laws_def)

lemma sample_qget_laws: "query_laws sample_qget"
  by (simp add: query_laws_def sample_qget_def)

lemma sample_location_params: "step_params (steps_query sample_browser sample_qget sample_location) = Inr (''loan'', 1, 1800, 50)"
proof -
  have "number_of ''1'' = 1" "number_of ''1800'' = 1800" by (simp_all add: number_of_def)
  then show ?thesis
    by (simp add: step_params_def steps_query_sel [OF sample_qget_laws] sample_location_parse get_or_empty_def search_get_def overview_age_def
        overview_positiveInteger_def is_digit_def)
qed

theorem step_links_agree_witness:
  "length (matching_instances sample_monitor sample_running (listed_query sample_browser sample_qget
     (instanceLink sample_browser ''loan'' ''1'' [''ACTIVE'', ''WAITING''] (Some ''check'') (Some (toISOString 1735691400000))))) = 1"
proof -
  have "oq_cursor (steps_query sample_browser sample_qget sample_location) = None"
    by (simp add: steps_query_sel [OF sample_qget_laws] sample_location_parse get_or_empty_def search_get_def text_of_def)
  then obtain page where page: "steps sample_monitor sample_running 1735693200000000 (steps_query sample_browser sample_qget sample_location) = Inr page"
    "op_items page = [sample_step_count]" "sp_minStepAgeSeconds page = 1800" "sp_stepStartedBefore page = 1735691400000"
    using sample_steps_page [OF sample_location_params] by blast
  have "sample_step_count \<in> set (op_items page)" "sc_stepId sample_step_count \<noteq> []" "whole_ms (age_cutoff 1735693200000000 (sp_minStepAgeSeconds page))"
    using sample_running_laws(2) by (simp_all add: page(2,3) sample_step_count_sel)
  from step_links_agree [OF sample_browser_laws sample_qget_laws sample_clock sample_running_laws(1) page(1) this] show ?thesis
    by (simp add: sample_location_parse get_or_empty_def search_get_def sample_step_count_sel page(4) Let_def)
qed

definition sample_definition_count :: definition_count where
  "sample_definition_count = \<lparr>dc_definitionId = ''loan'', dc_definitionVersion = 1, dc_name = ''loan'', dc_active = 1, dc_waiting = 0, dc_failed = 0\<rparr>"

lemma sample_definitions_page:
  "\<exists>page. definitions sample_monitor sample_running 0 (definitions_query sample_browser sample_qget []) = Inr page \<and> sample_definition_count \<in> set (op_items page)"
proof -
  have p: "parse_search sample_browser [] = []" using sample_browser_laws by (simp add: search_laws_def)
  have "select_definitions sample_monitor sample_running ([], 0) [] = [sample_definition_count]"
    by (simp add: select_definitions_def sample_running_def sample_db_def sample_instance_def definition_of_def found_by_def definition_count_of_def
        definition_name_def first_row_def count_status_def sample_definition_count_def)
  moreover have "trim [] = []" by (simp add: trim_def)
  ultimately show ?thesis
    by (simp add: definitions_def definitions_query_sel [OF sample_qget_laws] p text_of_def default_pageSize workflow_of_def overview_decodeCursor_def slice_page_def Let_def)
qed

theorem overview_never_rejected_witness:
  "\<exists>page. steps sample_monitor sample_running 0 (steps_query sample_browser sample_qget
     (snd (inspectVersion sample_browser [] sample_definition_count))) = Inr page"
proof -
  let ?s = "snd (inspectVersion sample_browser [] sample_definition_count)"
  have "parse_search sample_browser [] = []" using sample_browser_laws by (simp add: search_laws_def)
  moreover have "nat_str 1 = ''1''" by code_simp
  ultimately have s: "parse_search sample_browser ?s = [(''definitionId'', ''loan''), (''definitionVersion'', ''1'')]"
    by (simp add: inspectVersion_def parse_update [OF sample_browser_laws] sample_definition_count_def search_delete_def)
  have "overview_db sample_running" by (simp add: overview_db_def sample_running_def sample_db_def sample_instance_def)
  then have run: "overview_run sample_browser sample_monitor sample_qget ?s"
    using sample_definitions_page overview_run.inspect [OF overview_run.start] by blast
  have "number_of ''1800'' = 1800" by (simp add: number_of_def)
  then have "version_text (overview_age (parse_search sample_browser ?s)) (number_of (overview_age (parse_search sample_browser ?s)))"
    by (simp add: s overview_age_def search_get_def version_text_def is_digit_def)
  moreover have "steps_enabled (parse_search sample_browser ?s)" by (simp add: s steps_enabled_def get_or_empty_def search_get_def)
  ultimately show ?thesis
    using overview_never_rejected [OF sample_browser_laws sample_qget_laws sample_codec run, of sample_running 0] by blast
qed

end
