(* ===== verification/Drafts.thy ===== *)
theory Drafts
  imports Import_Export
begin

text \<open>
  \<^verbatim>\<open>workflow-modeller/src/io/drafts.ts\<close>: named drafts in the browser's local storage. The item under
  \<^verbatim>\<open>DRAFTS_KEY\<close> is the state; \<open>accepts\<close> says which lists \<^verbatim>\<open>setItem\<close> stores without throwing (the
  quota). The fresh id of \<^verbatim>\<open>newId\<close> and the time of \<^verbatim>\<open>Date.now\<close> are arguments.
\<close>

section \<open>Model\<close>

definition DRAFTS_LIMIT :: nat where
  "DRAFTS_LIMIT = 10"

record draft =
  draft_id :: string
  draft_name :: string
  savedAt :: nat
  draft_definition :: workflow_definition
  draft_layout :: layout
  draft_edgeHandles :: edge_handles

record draft_summary =
  sum_id :: string
  sum_name :: string
  sum_savedAt :: nat
  stepCount :: nat

text \<open>What \<^verbatim>\<open>JSON.parse\<close> can find in the item: nothing or an empty text, a text that is no JSON, a value
  that is no array, or an array whose elements pass \<^verbatim>\<open>isDraft\<close> or not.\<close>

datatype stored_value = IsDraft draft | NotDraft

datatype stored_item = Missing | Malformed | NotArray | Items "stored_value list"

fun draft_of :: "stored_value \<Rightarrow> draft option" where
  "draft_of (IsDraft d) = Some d"
| "draft_of NotDraft = None"

fun readRaw :: "stored_item \<Rightarrow> draft list" where
  "readRaw Missing = []"
| "readRaw Malformed = []"
| "readRaw NotArray = []"
| "readRaw (Items vs) = List.map_filter draft_of vs"

definition writeRaw :: "(draft list \<Rightarrow> bool) \<Rightarrow> draft list \<Rightarrow> stored_item \<Rightarrow> bool \<times> stored_item" where
  "writeRaw accepts drafts item =
     (if accepts drafts then (True, Items (map IsDraft drafts)) else (False, item))"

definition toSummary :: "draft \<Rightarrow> draft_summary" where
  "toSummary d = \<lparr>sum_id = draft_id d, sum_name = draft_name d, sum_savedAt = savedAt d,
     stepCount = length (steps (draft_definition d))\<rparr>"

definition listDrafts :: "stored_item \<Rightarrow> draft_summary list" where
  "listDrafts item = map toSummary (readRaw item)"

definition getDraft :: "stored_item \<Rightarrow> string \<Rightarrow> draft option" where
  "getDraft item i = find (\<lambda>d. draft_id d = i) (readRaw item)"

datatype save_failure = CAP_REACHED | DRAFT_NAME_REQUIRED | STORAGE_FAILED

definition saveDraft ::
  "(draft list \<Rightarrow> bool) \<Rightarrow> string \<Rightarrow> nat \<Rightarrow> string \<Rightarrow> workflow_definition \<Rightarrow> layout \<Rightarrow> edge_handles \<Rightarrow>
   stored_item \<Rightarrow> (save_failure + draft) \<times> stored_item" where
  "saveDraft accepts newId now name d layout handles item =
     (let name = trim name
      in if name = '''' then (Inl DRAFT_NAME_REQUIRED, item)
         else
           let drafts = readRaw item
           in if length drafts \<ge> DRAFTS_LIMIT then (Inl CAP_REACHED, item)
              else
                let draft = \<lparr>draft_id = newId, draft_name = name, savedAt = now, draft_definition = d,
                       draft_layout = layout, draft_edgeHandles = handles\<rparr>
                in case writeRaw accepts (drafts @ [draft]) item of
                     (True, item') \<Rightarrow> (Inr draft, item')
                   | (False, item') \<Rightarrow> (Inl STORAGE_FAILED, item'))"

definition deleteDraft :: "(draft list \<Rightarrow> bool) \<Rightarrow> string \<Rightarrow> stored_item \<Rightarrow> stored_item" where
  "deleteDraft accepts i item =
     snd (writeRaw accepts (filter (\<lambda>d. draft_id d \<noteq> i) (readRaw item)) item)"

definition clearAllDrafts :: "stored_item \<Rightarrow> stored_item" where
  "clearAllDrafts item = Missing"

section \<open>The contract of a draft repository\<close>

text \<open>
  What a client relies on: a saved draft is found under its id, the others stay, a deleted one is gone,
  and a failed save changes nothing.
\<close>

locale draft_repository =
  fixes get :: "'s \<Rightarrow> 'k \<Rightarrow> 'd option"
    and save :: "'k \<Rightarrow> 'i \<Rightarrow> 's \<Rightarrow> ('e + 'd) \<times> 's"
    and delete :: "'k \<Rightarrow> 's \<Rightarrow> 's"
    and key :: "'d \<Rightarrow> 'k"
    and content :: "'d \<Rightarrow> 'c"
    and input :: "'i \<Rightarrow> 'c"
    and usable :: "'s \<Rightarrow> bool"
  assumes save_ok: "get s k = None \<Longrightarrow> save k i s = (Inr d, s') \<Longrightarrow>
      key d = k \<and> content d = input i \<and> get s' k' = (if k' = k then Some d else get s k')"
    and save_failed: "save k i s = (Inl e, s') \<Longrightarrow> s' = s"
    and delete_gone: "usable s \<Longrightarrow> get (delete k s) k' = (if k' = k then None else get s k')"
begin

text \<open>Saving and reading back gives the content that was saved; deleting the new draft restores what
  every other id leads to.\<close>

lemma read_back:
  assumes "get s k = None" "save k i s = (Inr d, s')"
  shows "map_option content (get s' k) = Some (input i)"
  using save_ok [OF assms, of k] by simp

lemma save_delete:
  assumes "get s k = None" "save k i s = (Inr d, s')" "usable s'"
  shows "get (delete k s') k' = get s k'"
  using save_ok [OF assms(1,2), of k'] delete_gone [OF assms(3), of k k'] assms(1) by auto

end

lemma readRaw_Items [simp]: "readRaw (Items (map IsDraft ds)) = ds"
  by (simp add: map_filter_def o_def)

lemma readRaw_snoc [simp]: "readRaw (Items (map IsDraft ds @ [IsDraft d])) = ds @ [d]"
  using readRaw_Items [of "ds @ [d]"] by (simp del: readRaw_Items readRaw.simps)

lemma saveDraft_ok:
  assumes "saveDraft accepts i now name d l h item = (Inr dr, item')"
  shows "dr = \<lparr>draft_id = i, draft_name = trim name, savedAt = now, draft_definition = d, draft_layout = l,
      draft_edgeHandles = h\<rparr> \<and> readRaw item' = readRaw item @ [dr] \<and> trim name \<noteq> '''' \<and>
      length (readRaw item) < DRAFTS_LIMIT"
  using assms by (auto simp: saveDraft_def writeRaw_def Let_def simp del: readRaw.simps split: if_splits)

lemma saveDraft_failed: "saveDraft accepts i now name d l h item = (Inl e, item') \<Longrightarrow> item' = item"
  by (auto simp: saveDraft_def writeRaw_def Let_def split: if_splits)

lemma find_append: "find P (xs @ ys) = (case find P xs of None \<Rightarrow> find P ys | r \<Rightarrow> r)"
  by (induction xs) auto

lemma find_filter_neq:
  "find (\<lambda>d. f d = k') (filter (\<lambda>d. f d \<noteq> k) xs) = (if k' = k then None else find (\<lambda>d. f d = k') xs)"
  by (induction xs) auto

interpretation drafts: draft_repository getDraft
  "\<lambda>i (now, name, d, l, h) item. saveDraft accepts i now name d l h item"
  "deleteDraft accepts" draft_id "\<lambda>dr. (savedAt dr, draft_name dr, draft_definition dr, draft_layout dr, draft_edgeHandles dr)"
  "\<lambda>(now, name, d, l, h). (now, trim name, d, l, h)"
  "\<lambda>item. \<forall>i. accepts (filter (\<lambda>d. draft_id d \<noteq> i) (readRaw item))" for accepts
proof (unfold_locales, goal_cases)
  case (1 s k i d s' k')
  then show ?case
    by (cases i) (auto dest!: saveDraft_ok simp: getDraft_def find_append split: option.split)
next
  case (2 k i s e s')
  then show ?case by (cases i) (auto dest: saveDraft_failed)
next
  case (3 s k k')
  then show ?case by (simp add: getDraft_def deleteDraft_def writeRaw_def find_filter_neq del: readRaw.simps)
qed

section \<open>Properties\<close>

text \<open>The number of stored drafts never exceeds the limit by saving: after any call of \<open>saveDraft\<close> the
  drafts are the old ones, possibly with one more at the end, and then there are at most ten.\<close>

theorem saveDraft_cap:
  assumes "saveDraft accepts i now name d l h item = (result, item')"
  shows "case result of
      Inr draft \<Rightarrow> readRaw item' = readRaw item @ [draft] \<and> length (readRaw item') \<le> DRAFTS_LIMIT
    | Inl reason \<Rightarrow> item' = item \<and>
        reason = (if trim name = '''' then DRAFT_NAME_REQUIRED
                  else if DRAFTS_LIMIT \<le> length (readRaw item) then CAP_REACHED else STORAGE_FAILED)"
proof (cases result)
  case (Inr draft)
  then show ?thesis using saveDraft_ok [of accepts i now name d l h item draft item'] assms by simp
next
  case (Inl reason)
  then show ?thesis
    using assms by (auto simp: saveDraft_def writeRaw_def Let_def split: if_splits)
qed

theorem saveDraft_cap_witness:
  "length (readRaw (snd (saveDraft (\<lambda>_. True) ''i'' 5 ''n'' (sample_flow ''a'' ''b'') [] [] Missing))) \<le> DRAFTS_LIMIT"
proof -
  have "saveDraft (\<lambda>_. True) ''i'' 5 ''n'' (sample_flow ''a'' ''b'') [] [] Missing =
      (Inr \<lparr>draft_id = ''i'', draft_name = ''n'', savedAt = 5, draft_definition = sample_flow ''a'' ''b'',
         draft_layout = [], draft_edgeHandles = []\<rparr>, Items [IsDraft \<lparr>draft_id = ''i'', draft_name = ''n'', savedAt = 5,
         draft_definition = sample_flow ''a'' ''b'', draft_layout = [], draft_edgeHandles = []\<rparr>])"
    by (simp add: saveDraft_def writeRaw_def trim_def js_space_def DRAFTS_LIMIT_def Let_def)
  from saveDraft_cap [OF this] this show ?thesis by simp
qed

text \<open>Saving a draft under a fresh id and reading it back gives the definition, layout and edge handles
  that were saved, with the trimmed name; other drafts are untouched.\<close>

theorem save_get_roundtrip:
  assumes "getDraft item i = None"
    and "saveDraft accepts i now name d l h item = (Inr draft, item')"
  shows "getDraft item' i = Some \<lparr>draft_id = i, draft_name = trim name, savedAt = now, draft_definition = d,
      draft_layout = l, draft_edgeHandles = h\<rparr> \<and> (\<forall>j. j = i \<or> getDraft item' j = getDraft item j)"
  using drafts.save_ok [of item i accepts "(now, name, d, l, h)" draft item'] saveDraft_ok [OF assms(2)] assms
  by auto

theorem save_get_roundtrip_witness:
  "\<exists>item'. getDraft item' ''i'' = Some \<lparr>draft_id = ''i'', draft_name = ''n'', savedAt = 5,
     draft_definition = sample_flow ''a'' ''b'', draft_layout = [], draft_edgeHandles = []\<rparr>"
proof -
  have s: "saveDraft (\<lambda>_. True) ''i'' 5 '' n'' (sample_flow ''a'' ''b'') [] [] Missing =
      (Inr \<lparr>draft_id = ''i'', draft_name = ''n'', savedAt = 5, draft_definition = sample_flow ''a'' ''b'',
         draft_layout = [], draft_edgeHandles = []\<rparr>, Items [IsDraft \<lparr>draft_id = ''i'', draft_name = ''n'', savedAt = 5,
         draft_definition = sample_flow ''a'' ''b'', draft_layout = [], draft_edgeHandles = []\<rparr>])"
    by (simp add: saveDraft_def writeRaw_def trim_def js_space_def DRAFTS_LIMIT_def Let_def)
  have "getDraft Missing ''i'' = None" by (simp add: getDraft_def)
  from save_get_roundtrip [OF this s] have "trim '' n'' = ''n'' \<Longrightarrow> ?thesis" by auto
  then show ?thesis by (simp add: trim_def js_space_def)
qed

text \<open>Deleting a draft whose shorter list the storage accepts makes its id unknown and leaves every
  other draft as it was; a draft saved under a fresh id and deleted again leaves no trace.\<close>

theorem save_delete_roundtrip:
  assumes "getDraft item i = None"
    and "saveDraft accepts i now name d l h item = (Inr draft, item')"
    and "\<And>ds. length ds \<le> length (readRaw item') \<Longrightarrow> accepts ds"
  shows "getDraft (deleteDraft accepts i item') j = getDraft item j"
  using drafts.save_delete [of item i accepts "(now, name, d, l, h)" draft item' j] assms by simp

theorem save_delete_roundtrip_witness:
  "getDraft (deleteDraft (\<lambda>_. True) ''i'' (snd (saveDraft (\<lambda>_. True) ''i'' 5 ''n'' (sample_flow ''a'' ''b'') [] [] Missing))) ''i'' = None"
proof -
  let ?r = "saveDraft (\<lambda>_. True) ''i'' 5 ''n'' (sample_flow ''a'' ''b'') [] [] Missing"
  have "\<exists>draft. ?r = (Inr draft, snd ?r)"
    by (simp add: saveDraft_def writeRaw_def trim_def js_space_def DRAFTS_LIMIT_def Let_def)
  then obtain draft where "?r = (Inr draft, snd ?r)" by blast
  from save_delete_roundtrip [OF _ this] show ?thesis by (simp add: getDraft_def)
qed

end
