(* ===== verification/Store.thy ===== *)
theory Store
  imports Drafts Engine_Client
begin

text \<open>
  \<^verbatim>\<open>workflow-modeller/src/store/workflowStore.ts\<close> and \<^verbatim>\<open>store/selectors.ts\<close>: the state of the editor and
  the actions on it. An action is a function of the state; \<^verbatim>\<open>set\<close> is a record update. The time is an
  argument. An asynchronous action is split at its \<^verbatim>\<open>await\<close>: a function for the request and one that
  takes the answer and the state at that later moment. The middleware around the store (undo history,
  persistence) belongs to the packages zundo and zustand.
\<close>

section \<open>State\<close>

record engine_connection =
  ec_baseUrl :: string
  ec_authHeader :: string
  ec_status :: connection_status
  ec_lastCheckedAt :: "nat option"

datatype selection =
    SelNone
  | SelStep step_id
  | SelEdge step_id step_id edge_variant

datatype source =
    SrcNew
  | SrcFile "string option"
  | SrcEngine string rat

record validation_state =
  lastRunAt :: "nat option"
  diagnostics :: "diagnostic list"

record workflow_state =
  defn :: workflow_definition
  layout :: layout
  edgeHandles :: edge_handles
  selection :: selection
  validation :: validation_state
  dirty :: bool
  importWarnings :: "string list"
  engine :: engine_connection
  source :: source

definition emptyDefinition :: workflow_definition where
  "emptyDefinition =
     \<lparr>def_id = ''new-workflow'', def_version = None, def_name = ''Untitled workflow'',
      def_description = None, autoStartNextWorkflow = None, nextWorkflowId = None, steps = [],
      metadata = None, def_extra = []\<rparr>"

definition no_validation :: validation_state where
  "no_validation = \<lparr>lastRunAt = None, diagnostics = []\<rparr>"

definition initialState :: workflow_state where
  "initialState =
     \<lparr>defn = emptyDefinition, layout = [], edgeHandles = [], selection = SelNone,
      validation = no_validation, dirty = False, importWarnings = [],
      engine = \<lparr>ec_baseUrl = ''http://localhost:8080'', ec_authHeader = '''', ec_status = StUnknown,
                ec_lastCheckedAt = None\<rparr>,
      source = SrcNew\<rparr>"

section \<open>New steps\<close>

definition lower_char :: "char \<Rightarrow> char" where
  "lower_char c = (if CHR ''A'' \<le> c \<and> c \<le> CHR ''Z'' then char_of (of_char c + 32 :: nat) else c)"

definition upper_char :: "char \<Rightarrow> char" where
  "upper_char c = (if CHR ''a'' \<le> c \<and> c \<le> CHR ''z'' then char_of (of_char c - 32 :: nat) else c)"

text \<open>\<^verbatim>\<open>s.split(c)\<close> for a separator of one character.\<close>

fun split_char :: "char \<Rightarrow> string \<Rightarrow> string list" where
  "split_char c [] = [[]]"
| "split_char c (x # xs) =
     (if x = c then [] # split_char c xs
      else (case split_char c xs of w # ws \<Rightarrow> (x # w) # ws | [] \<Rightarrow> [[x]]))"

fun capitalize :: "string \<Rightarrow> string" where
  "capitalize [] = []"
| "capitalize (c # r) = upper_char c # r"

definition defaultStepName :: "step_type \<Rightarrow> string" where
  "defaultStepName t = join_with '' '' (map capitalize (split_char CHR ''_'' (map lower_char (type_text t))))"

text \<open>The loop \<^verbatim>\<open>while (existing.has(`${preferred}-${i}`)) i++\<close>. It ends since the candidates are
  pairwise different and only finitely many are taken.\<close>

definition candidate :: "step_id \<Rightarrow> nat \<Rightarrow> step_id" where
  "candidate preferred i = preferred @ ''-'' @ nat_str i"

lemma candidate_inj: "candidate p i = candidate p j \<Longrightarrow> i = j"
  by (simp add: candidate_def nat_str_inj)

function firstFree :: "step_id list \<Rightarrow> step_id \<Rightarrow> nat \<Rightarrow> nat" where
  "firstFree existing preferred i =
     (if candidate preferred i \<in> set existing then firstFree existing preferred (Suc i) else i)"
  by pat_completeness auto
termination
proof (relation "measure (\<lambda>(existing, preferred, i). card {s \<in> set existing. \<exists>j \<ge> i. s = candidate preferred j})",
    goal_cases)
  case (2 existing preferred i)
  have "{s \<in> set existing. \<exists>j \<ge> Suc i. s = candidate preferred j} \<subset>
      {s \<in> set existing. \<exists>j \<ge> i. s = candidate preferred j}" (is "?A \<subset> ?B")
  proof
    have "candidate preferred i \<notin> ?A" by (auto dest: candidate_inj)
    moreover have "candidate preferred i \<in> ?B" using 2 by auto
    ultimately show "?A \<noteq> ?B" by blast
    show "?A \<subseteq> ?B" by (auto intro: Suc_leD)
  qed
  then show ?case by (simp add: psubset_card_mono)
qed simp

declare firstFree.simps [simp del]

definition uniqueStepId :: "workflow_definition \<Rightarrow> step_id \<Rightarrow> step_id" where
  "uniqueStepId d preferred =
     (if preferred \<notin> set (step_ids d) then preferred
      else candidate preferred (firstFree (step_ids d) preferred 2))"

record new_step_template =
  tpl_type :: step_type
  tpl_id :: "step_id option"
  tpl_name :: "string option"

definition newStep :: "new_step_template \<Rightarrow> workflow_definition \<Rightarrow> step" where
  "newStep tpl d =
     (let baseId = (case tpl_id tpl of Some i \<Rightarrow> i
            | None \<Rightarrow> map (\<lambda>c. if c = CHR ''_'' then CHR ''-'' else c) (map lower_char (type_text (tpl_type tpl))));
          i = uniqueStepId d baseId;
          name = (case tpl_name tpl of Some n \<Rightarrow> n | None \<Rightarrow> defaultStepName (tpl_type tpl));
          c = \<lparr>c_id = i, c_name = name, c_description = None, c_extra = []\<rparr>
      in case tpl_type tpl of
           SERVICE_TASK \<Rightarrow> ServiceTask c None None None None None
         | USER_TASK \<Rightarrow> UserTask c None None None
         | DECISION \<Rightarrow> Decision c []
         | DECISION_TABLE \<Rightarrow> DecisionTable c (Some ''U'') '''' \<lparr>tbl_rules = [], tbl_extra = []\<rparr>
         | TRANSFORMATION \<Rightarrow> Transformation c '''' []
         | WAIT \<Rightarrow> Wait c '''' None
         | PARALLEL_GATEWAY \<Rightarrow> ParallelGateway c [] ''''
         | JOIN_GATEWAY \<Rightarrow> JoinGateway c ''''
         | END \<Rightarrow> End c)"

section \<open>Deleting references\<close>

fun json_truthy :: "json \<Rightarrow> bool" where
  "json_truthy JNull = False"
| "json_truthy (JBool b) = b"
| "json_truthy (JNum n) = (n \<noteq> 0)"
| "json_truthy (JStr s) = (s \<noteq> '''')"
| "json_truthy _ = True"

definition scrub_id :: "step_id \<Rightarrow> step_id \<Rightarrow> step_id" where
  "scrub_id removed i = (if i = removed then '''' else i)"

definition scrub_events :: "step_id \<Rightarrow> boundary_event list option \<Rightarrow> boundary_event list option" where
  "scrub_events removed events = map_option (filter (\<lambda>e. evt_targetStepId e \<noteq> removed)) events"

definition scrub_rule :: "step_id \<Rightarrow> decision_table_rule \<Rightarrow> decision_table_rule" where
  "scrub_rule removed r =
     (if map_get (rule_extra r) ''then'' = Some (JStr removed)
      then r\<lparr>rule_extra := map_set ''then'' (JStr '''') (rule_extra r)\<rparr> else r)"

definition scrub_table :: "step_id \<Rightarrow> decision_table \<Rightarrow> decision_table" where
  "scrub_table removed t =
     (let rest = map_delete ''defaultNextStep'' (tbl_extra t)
      in t\<lparr>tbl_rules := map (scrub_rule removed) (tbl_rules t),
           tbl_extra := (case map_get (tbl_extra t) ''defaultNextStep'' of
               Some v \<Rightarrow> if json_truthy v \<and> v \<noteq> JStr removed then map_set ''defaultNextStep'' v rest else rest
             | None \<Rightarrow> rest)\<rparr>)"

fun scrubStep :: "step_id \<Rightarrow> step \<Rightarrow> step" where
  "scrubStep removed (ServiceTask c next jt dc rc events) =
     ServiceTask c (map_option (scrub_id removed) next) jt dc rc (scrub_events removed events)"
| "scrubStep removed (UserTask c next jt events) =
     UserTask c (map_option (scrub_id removed) next) jt (scrub_events removed events)"
| "scrubStep removed (Wait c next events) = Wait c (scrub_id removed next) (scrub_events removed events)"
| "scrubStep removed (Transformation c next ts) = Transformation c (scrub_id removed next) ts"
| "scrubStep removed (JoinGateway c next) = JoinGateway c (scrub_id removed next)"
| "scrubStep removed (Decision c branches) = Decision c (filter (\<lambda>(_, target). target \<noteq> removed) branches)"
| "scrubStep removed (DecisionTable c hp next tbl) =
     DecisionTable c hp (scrub_id removed next) (scrub_table removed tbl)"
| "scrubStep removed (ParallelGateway c targets join) =
     ParallelGateway c (filter (\<lambda>t. t \<noteq> removed) targets) (scrub_id removed join)"
| "scrubStep removed (End c) = End c"

definition scrubRefs :: "workflow_definition \<Rightarrow> step_id \<Rightarrow> workflow_definition" where
  "scrubRefs d removed = d\<lparr>steps := map (scrubStep removed) (steps d)\<rparr>"

section \<open>Actions on the definition\<close>

definition addStep :: "new_step_template \<Rightarrow> workflow_state \<Rightarrow> step_id \<times> workflow_state" where
  "addStep tpl st =
     (let s = newStep tpl (defn st)
      in (step_id s,
          st\<lparr>defn := (defn st)\<lparr>steps := steps (defn st) @ [s]\<rparr>, dirty := True\<rparr>))"

text \<open>The rename of \<^verbatim>\<open>replacement\<close> onto itself is the identity of \<open>renameStepId\<close> and never throws.\<close>

definition deleteStep :: "step_id \<Rightarrow> step_id option \<Rightarrow> workflow_state \<Rightarrow> workflow_state" where
  "deleteStep i replacement st =
     (let d = (defn st)\<lparr>steps := filter (\<lambda>s. step_id s \<noteq> i) (steps (defn st))\<rparr>;
          d' = (if truthy replacement
                then (case Rename.renameStepId d (the replacement) (the replacement) of Inr r \<Rightarrow> r | Inl _ \<Rightarrow> d)
                else d)
      in st\<lparr>defn := scrubRefs d' i, dirty := True\<rparr>)"

text \<open>A thrown error leaves the state as it was.\<close>

definition renameStepAction ::
  "step_id \<Rightarrow> step_id \<Rightarrow> workflow_state \<Rightarrow> rename_error option \<times> workflow_state" where
  "renameStepAction oldId newId st =
     (case Rename.renameStepId (defn st) oldId newId of
        Inl e \<Rightarrow> (Some e, st)
      | Inr d \<Rightarrow> (None, st\<lparr>defn := d, dirty := True\<rparr>))"

text \<open>The typed values the editor passes for a key. \<open>assign_prop\<close> is the spread \<^verbatim>\<open>{...s, [key]: value}\<close>;
  it is \<open>None\<close> where the result would not be a step of the union, which the cast in the code hides.\<close>

datatype step_prop =
    PId step_id
  | PName string
  | PDescription "string option"
  | PNextStep "step_id option"
  | PJobType "string option"
  | PDelegateClass "string option"
  | PRetryCount "nat option"
  | PBoundaryEvents "boundary_event list option"
  | PConditionalNextSteps "(string, step_id) omap"
  | PHitPolicy "string option"
  | PDecisionTable decision_table
  | PTransformations fields
  | PParallelNextSteps "step_id list"
  | PJoinStep step_id

definition with_common :: "(step_common \<Rightarrow> step_common) \<Rightarrow> step \<Rightarrow> step" where
  "with_common f s =
     (case s of
        ServiceTask c a b x y z \<Rightarrow> ServiceTask (f c) a b x y z
      | UserTask c a b x \<Rightarrow> UserTask (f c) a b x
      | Decision c a \<Rightarrow> Decision (f c) a
      | DecisionTable c a b x \<Rightarrow> DecisionTable (f c) a b x
      | Transformation c a b \<Rightarrow> Transformation (f c) a b
      | Wait c a b \<Rightarrow> Wait (f c) a b
      | ParallelGateway c a b \<Rightarrow> ParallelGateway (f c) a b
      | JoinGateway c a \<Rightarrow> JoinGateway (f c) a
      | End c \<Rightarrow> End (f c))"

definition assign_prop :: "step_prop \<Rightarrow> step \<Rightarrow> step option" where
  "assign_prop prop s =
     (case prop of
        PId i \<Rightarrow> Some (with_common (\<lambda>c. c\<lparr>c_id := i\<rparr>) s)
      | PName n \<Rightarrow> Some (with_common (\<lambda>c. c\<lparr>c_name := n\<rparr>) s)
      | PDescription t \<Rightarrow> Some (with_common (\<lambda>c. c\<lparr>c_description := t\<rparr>) s)
      | PNextStep v \<Rightarrow>
          (case s of
             ServiceTask c _ jt dc rc ev \<Rightarrow> Some (ServiceTask c v jt dc rc ev)
           | UserTask c _ jt ev \<Rightarrow> Some (UserTask c v jt ev)
           | Wait c _ ev \<Rightarrow> map_option (\<lambda>n. Wait c n ev) v
           | Transformation c _ ts \<Rightarrow> map_option (\<lambda>n. Transformation c n ts) v
           | JoinGateway c _ \<Rightarrow> map_option (JoinGateway c) v
           | DecisionTable c hp _ tbl \<Rightarrow> map_option (\<lambda>n. DecisionTable c hp n tbl) v
           | _ \<Rightarrow> None)
      | PJobType v \<Rightarrow>
          (case s of
             ServiceTask c n _ dc rc ev \<Rightarrow> Some (ServiceTask c n v dc rc ev)
           | UserTask c n _ ev \<Rightarrow> Some (UserTask c n v ev)
           | _ \<Rightarrow> None)
      | PDelegateClass v \<Rightarrow>
          (case s of ServiceTask c n jt _ rc ev \<Rightarrow> Some (ServiceTask c n jt v rc ev) | _ \<Rightarrow> None)
      | PRetryCount v \<Rightarrow>
          (case s of ServiceTask c n jt dc _ ev \<Rightarrow> Some (ServiceTask c n jt dc v ev) | _ \<Rightarrow> None)
      | PBoundaryEvents v \<Rightarrow>
          (case s of
             ServiceTask c n jt dc rc _ \<Rightarrow> Some (ServiceTask c n jt dc rc v)
           | UserTask c n jt _ \<Rightarrow> Some (UserTask c n jt v)
           | Wait c n _ \<Rightarrow> Some (Wait c n v)
           | _ \<Rightarrow> None)
      | PConditionalNextSteps v \<Rightarrow> (case s of Decision c _ \<Rightarrow> Some (Decision c v) | _ \<Rightarrow> None)
      | PHitPolicy v \<Rightarrow> (case s of DecisionTable c _ n tbl \<Rightarrow> Some (DecisionTable c v n tbl) | _ \<Rightarrow> None)
      | PDecisionTable v \<Rightarrow> (case s of DecisionTable c hp n _ \<Rightarrow> Some (DecisionTable c hp n v) | _ \<Rightarrow> None)
      | PTransformations v \<Rightarrow> (case s of Transformation c n _ \<Rightarrow> Some (Transformation c n v) | _ \<Rightarrow> None)
      | PParallelNextSteps v \<Rightarrow> (case s of ParallelGateway c _ j \<Rightarrow> Some (ParallelGateway c v j) | _ \<Rightarrow> None)
      | PJoinStep v \<Rightarrow> (case s of ParallelGateway c ts _ \<Rightarrow> Some (ParallelGateway c ts v) | _ \<Rightarrow> None))"

fun map_opt :: "('a \<Rightarrow> 'b option) \<Rightarrow> 'a list \<Rightarrow> 'b list option" where
  "map_opt f [] = Some []"
| "map_opt f (x # xs) =
     (case f x of None \<Rightarrow> None
      | Some y \<Rightarrow> (case map_opt f xs of None \<Rightarrow> None | Some ys \<Rightarrow> Some (y # ys)))"

definition updateStepProperty :: "step_id \<Rightarrow> step_prop \<Rightarrow> workflow_state \<Rightarrow> workflow_state option" where
  "updateStepProperty i prop st =
     (case map_opt (\<lambda>s. if step_id s = i then assign_prop prop s else Some s) (steps (defn st)) of
        None \<Rightarrow> None
      | Some ss \<Rightarrow> Some (st\<lparr>defn := (defn st)\<lparr>steps := ss\<rparr>, dirty := True\<rparr>))"

text \<open>\<^verbatim>\<open>addEdge\<close> and \<^verbatim>\<open>removeEdge\<close> have empty bodies.\<close>

definition addEdge :: "step_id \<Rightarrow> step_id \<Rightarrow> edge_variant \<Rightarrow> workflow_state \<Rightarrow> workflow_state" where
  "addEdge from to v st = st"

definition removeEdge :: "step_id \<Rightarrow> step_id \<Rightarrow> edge_variant \<Rightarrow> workflow_state \<Rightarrow> workflow_state" where
  "removeEdge from to v st = st"

text \<open>A \<^verbatim>\<open>Partial<WorkflowDefinition>\<close>: \<open>None\<close> is a key that is absent from the patch; an optional key
  may be present with the value \<^verbatim>\<open>undefined\<close>.\<close>

record definition_patch =
  pt_id :: "string option"
  pt_version :: "rat option option"
  pt_name :: "string option"
  pt_description :: "string option option"
  pt_autoStart :: "bool option option"
  pt_nextWorkflowId :: "string option option"
  pt_steps :: "step list option"
  pt_metadata :: "fields option option"
  pt_extra :: fields

definition patched :: "'a option \<Rightarrow> 'a \<Rightarrow> 'a" where
  "patched p v = (case p of None \<Rightarrow> v | Some x \<Rightarrow> x)"

definition apply_patch :: "definition_patch \<Rightarrow> workflow_definition \<Rightarrow> workflow_definition" where
  "apply_patch p d =
     \<lparr>def_id = patched (pt_id p) (def_id d), def_version = patched (pt_version p) (def_version d),
      def_name = patched (pt_name p) (def_name d),
      def_description = patched (pt_description p) (def_description d),
      autoStartNextWorkflow = patched (pt_autoStart p) (autoStartNextWorkflow d),
      nextWorkflowId = patched (pt_nextWorkflowId p) (nextWorkflowId d),
      steps = patched (pt_steps p) (steps d), metadata = patched (pt_metadata p) (metadata d),
      def_extra = fold (\<lambda>(k, v) m. map_set k v m) (pt_extra p) (def_extra d)\<rparr>"

definition setDefinitionMeta :: "definition_patch \<Rightarrow> workflow_state \<Rightarrow> workflow_state" where
  "setDefinitionMeta p st = st\<lparr>defn := apply_patch p (defn st), dirty := True\<rparr>"

definition newWorkflow :: "workflow_state \<Rightarrow> workflow_state" where
  "newWorkflow st =
     st\<lparr>defn := emptyDefinition, layout := [], edgeHandles := [], selection := SelNone,
        validation := no_validation, dirty := False, importWarnings := [], source := SrcNew\<rparr>"

section \<open>Drafts\<close>

definition saveDraftAction ::
  "(draft list \<Rightarrow> bool) \<Rightarrow> string \<Rightarrow> nat \<Rightarrow> string \<Rightarrow> workflow_state \<Rightarrow> stored_item \<Rightarrow>
   (save_failure + draft) \<times> stored_item" where
  "saveDraftAction accepts newId now name st item =
     saveDraft accepts newId now name (defn st) (layout st) (edgeHandles st) item"

definition loadDraft :: "string \<Rightarrow> stored_item \<Rightarrow> workflow_state \<Rightarrow> bool \<times> workflow_state" where
  "loadDraft i item st =
     (case getDraft item i of
        None \<Rightarrow> (False, st)
      | Some draft \<Rightarrow>
          (True, st\<lparr>defn := draft_definition draft, layout := draft_layout draft,
             edgeHandles := draft_edgeHandles draft, selection := SelNone, validation := no_validation,
             dirty := False, importWarnings := [], source := SrcNew\<rparr>))"

section \<open>View state\<close>

definition setLayout :: "step_id \<Rightarrow> position \<Rightarrow> workflow_state \<Rightarrow> workflow_state" where
  "setLayout i pos st = st\<lparr>layout := map_set i pos (layout st)\<rparr>"

definition setEdgeHandle :: "string \<Rightarrow> json \<Rightarrow> workflow_state \<Rightarrow> workflow_state" where
  "setEdgeHandle e handles st = st\<lparr>edgeHandles := map_set e handles (edgeHandles st)\<rparr>"

definition select :: "selection \<Rightarrow> workflow_state \<Rightarrow> workflow_state" where
  "select sel st = st\<lparr>selection := sel\<rparr>"

definition runValidation :: "nat \<Rightarrow> workflow_state \<Rightarrow> workflow_state" where
  "runValidation now st =
     st\<lparr>validation := \<lparr>lastRunAt = Some now, diagnostics = validate (defn st)\<rparr>\<rparr>"

record connection_patch =
  cp_baseUrl :: "string option"
  cp_authHeader :: "string option"
  cp_status :: "connection_status option"
  cp_lastCheckedAt :: "nat option option"

definition setEngineConnection :: "connection_patch \<Rightarrow> workflow_state \<Rightarrow> workflow_state" where
  "setEngineConnection p st =
     st\<lparr>engine := \<lparr>ec_baseUrl = patched (cp_baseUrl p) (ec_baseUrl (engine st)),
          ec_authHeader = patched (cp_authHeader p) (ec_authHeader (engine st)),
          ec_status = patched (cp_status p) (ec_status (engine st)),
          ec_lastCheckedAt = patched (cp_lastCheckedAt p) (ec_lastCheckedAt (engine st))\<rparr>\<rparr>"

section \<open>Import and export\<close>

definition importFromJson ::
  "import_result \<Rightarrow> string option \<Rightarrow> workflow_state \<Rightarrow> (string list + string list) \<times> workflow_state" where
  "importFromJson result name st =
     (case result of
        ImportErr errs \<Rightarrow> (Inl errs, st)
      | ImportOk d warnings \<Rightarrow>
          (let (l, h) = extractEmbeddedModeller d
           in (Inr warnings,
               st\<lparr>defn := d, layout := l, edgeHandles := h, selection := SelNone,
                  validation := no_validation, dirty := False, importWarnings := warnings,
                  source := SrcFile name\<rparr>)))"

definition applyDefinitionFromJson ::
  "import_result \<Rightarrow> workflow_state \<Rightarrow> (string list + string list) \<times> workflow_state" where
  "applyDefinitionFromJson result st =
     (case result of
        ImportErr errs \<Rightarrow> (Inl errs, st)
      | ImportOk d warnings \<Rightarrow>
          (Inr warnings,
           st\<lparr>defn := d, layout := filter (\<lambda>(i, _). i \<in> set (step_ids d)) (layout st),
              selection := SelNone, validation := no_validation, dirty := True,
              importWarnings := warnings\<rparr>))"

definition exportToJson ::
  "(workflow_definition \<Rightarrow> nat option \<Rightarrow> string) \<Rightarrow> bool option \<Rightarrow> workflow_state \<Rightarrow> string" where
  "exportToJson stringify include st =
     exportJson stringify (defn st)
       \<lparr>includeLayout = (case include of Some b \<Rightarrow> b | None \<Rightarrow> False), opt_layout = Some (layout st),
        opt_edgeHandles = Some (edgeHandles st), pretty = None\<rparr>"

section \<open>Engine\<close>

record upload_summary =
  us_id :: string
  us_version :: rat

datatype store_error = EngineFailure engine_error | TypeError

text \<open>The answer of \<^verbatim>\<open>client.getLatest\<close> or \<^verbatim>\<open>client.getVersion\<close>; an empty body is \<^verbatim>\<open>undefined\<close>, on which
  \<^verbatim>\<open>def.version\<close> throws before the state is set.\<close>

definition loadFromEngine ::
  "string \<Rightarrow> rat option \<Rightarrow> engine_error + workflow_definition option \<Rightarrow> workflow_state \<Rightarrow>
   store_error option \<times> workflow_state" where
  "loadFromEngine i version answer st =
     (case answer of
        Inl e \<Rightarrow> (Some (EngineFailure e), st)
      | Inr None \<Rightarrow> (Some TypeError, st)
      | Inr (Some d) \<Rightarrow>
          (let (l, h) = extractEmbeddedModeller d
           in (None,
               st\<lparr>defn := d, layout := l, edgeHandles := h, selection := SelNone,
                  validation := no_validation, dirty := False, importWarnings := [],
                  source := SrcEngine i (case def_version d of Some v \<Rightarrow> v
                     | None \<Rightarrow> (case version of Some v \<Rightarrow> v | None \<Rightarrow> 0))\<rparr>)))"

definition uploadRequest :: "workflow_state \<Rightarrow> workflow_definition" where
  "uploadRequest st = embedLayout (defn st) (layout st) (Some (edgeHandles st))"

definition drift :: diagnostic where
  "drift = diag STEP_TYPE_VALID Error"

definition uploadAnswer ::
  "nat \<Rightarrow> engine_error + upload_summary option \<Rightarrow> workflow_state \<Rightarrow> (store_error + rat) \<times> workflow_state" where
  "uploadAnswer now answer st =
     (case answer of
        Inr (Some summary) \<Rightarrow>
          (Inr (us_version summary),
           st\<lparr>defn := (defn st)\<lparr>def_version := Some (us_version summary)\<rparr>, dirty := False,
              source := SrcEngine (us_id summary) (us_version summary),
              engine := (engine st)\<lparr>ec_status := StOk, ec_lastCheckedAt := Some now\<rparr>\<rparr>)
      | Inr None \<Rightarrow> (Inl TypeError, st\<lparr>engine := (engine st)\<lparr>ec_status := StError\<rparr>\<rparr>)
      | Inl e \<Rightarrow>
          (Inl (EngineFailure e),
           if err_kind e = KHttp \<and> 400 \<le> err_status e \<and> err_status e < 500
           then st\<lparr>validation := \<lparr>lastRunAt = Some now, diagnostics = diagnostics (validation st) @ [drift]\<rparr>,
                   engine := (engine st)\<lparr>ec_status := StError\<rparr>\<rparr>
           else if err_kind e = KNetwork
           then st\<lparr>engine := (engine st)\<lparr>ec_status := StUnreachable, ec_lastCheckedAt := Some now\<rparr>\<rparr>
           else st\<lparr>engine := (engine st)\<lparr>ec_status := StError\<rparr>\<rparr>))"

definition testEngineConnection :: "nat \<Rightarrow> connection_status \<Rightarrow> workflow_state \<Rightarrow> workflow_state" where
  "testEngineConnection now status st =
     st\<lparr>engine := (engine st)\<lparr>ec_status := status, ec_lastCheckedAt := Some now\<rparr>\<rparr>"

definition reset :: "workflow_state \<Rightarrow> workflow_state" where
  "reset st = initialState"

section \<open>Selectors\<close>

record validation_summary =
  vs_errors :: nat
  vs_warnings :: nat
  vs_diagnostics :: "diagnostic list"
  vs_lastRunAt :: "nat option"

definition useValidationSummary :: "workflow_state \<Rightarrow> validation_summary" where
  "useValidationSummary st =
     (let ds = diagnostics (validation st)
      in \<lparr>vs_errors = length (filter (\<lambda>d. severity d = Error) ds),
          vs_warnings = length (filter (\<lambda>d. severity d = Warning) ds), vs_diagnostics = ds,
          vs_lastRunAt = lastRunAt (validation st)\<rparr>)"

record node_summary =
  ns_errors :: nat
  ns_warnings :: nat
  ns_diagnostics :: "diagnostic list"

definition useDiagnosticsForNode :: "step_id \<Rightarrow> workflow_state \<Rightarrow> node_summary" where
  "useDiagnosticsForNode i st =
     (let ds = filter (\<lambda>d. nodeId d = Some i) (diagnostics (validation st))
      in \<lparr>ns_errors = length (filter (\<lambda>d. severity d = Error) ds),
          ns_warnings = length (filter (\<lambda>d. severity d = Warning) ds), ns_diagnostics = ds\<rparr>)"

definition useNodes :: "workflow_state \<Rightarrow> graph_node list" where
  "useNodes st = toNodes (defn st)"

definition useEdges :: "workflow_state \<Rightarrow> graph_edge list" where
  "useEdges st = toEdges (defn st)"

end
