(* ===== verification/Store_Properties.thy ===== *)
theory Store_Properties
  imports Store
begin

text \<open>
  Correctness of the editor's store: fresh ids, deletion without dangling references, the invariants of
  an editing session as a step relation, and the round trips through drafts and through the engine.
\<close>

section \<open>Fresh step ids\<close>

lemma firstFree_spec:
  "candidate p (firstFree xs p i) \<notin> set xs \<and> i \<le> firstFree xs p i \<and>
   (\<forall>j. i \<le> j \<and> j < firstFree xs p i \<longrightarrow> candidate p j \<in> set xs)"
proof (induction xs p i rule: firstFree.induct)
  case (1 xs p i)
  show ?case
  proof (cases "candidate p i \<in> set xs")
    case True
    then have step: "firstFree xs p i = firstFree xs p (Suc i)" by (subst firstFree.simps) simp
    have IH: "candidate p (firstFree xs p (Suc i)) \<notin> set xs" "Suc i \<le> firstFree xs p (Suc i)"
        "\<forall>j. Suc i \<le> j \<and> j < firstFree xs p (Suc i) \<longrightarrow> candidate p j \<in> set xs"
      using 1 [OF True] by blast+
    have "candidate p j \<in> set xs" if "i \<le> j" "j < firstFree xs p (Suc i)" for j
      using that IH(3) True by (cases "j = i") auto
    then show ?thesis unfolding step using IH by auto
  next
    case False
    then have "firstFree xs p i = i" by (subst firstFree.simps) simp
    with False show ?thesis by auto
  qed
qed

lemma uniqueStepId_fresh: "uniqueStepId d p \<notin> set (step_ids d)"
  using firstFree_spec [of p "step_ids d" 2] by (simp add: uniqueStepId_def)

lemma newStep_id:
  "step_id (newStep tpl d) = uniqueStepId d (case tpl_id tpl of Some i \<Rightarrow> i
     | None \<Rightarrow> map (\<lambda>c. if c = CHR ''_'' then CHR ''-'' else c) (map lower_char (type_text (tpl_type tpl))))"
  by (cases "tpl_type tpl") (simp_all add: newStep_def Let_def)

lemma newStep_type: "type_of (newStep tpl d) = tpl_type tpl"
  by (cases "tpl_type tpl") (simp_all add: newStep_def Let_def)

lemma newStep_no_refs: "set (step_refs (newStep tpl d)) \<subseteq> {''''}"
  by (cases "tpl_type tpl") (simp_all add: newStep_def Let_def boundary_refs_def)

section \<open>Deleting a step\<close>

lemma step_id_scrub [simp]: "step_id (scrubStep r s) = step_id s"
  by (cases s) simp_all

lemma supports_scrub [simp]: "supports_boundary (scrubStep r s) = supports_boundary s"
  by (cases s) (simp_all add: supports_boundary_def)

lemma boundary_refs_scrub: "boundary_refs (scrub_events r ev) = filter (\<lambda>t. t \<noteq> r) (boundary_refs ev)"
  by (cases ev) (simp_all add: boundary_refs_def scrub_events_def filter_map o_def)

lemma scrub_refs: "r \<noteq> '''' \<Longrightarrow> r \<notin> set (step_refs (scrubStep r s))"
  by (cases s) (auto simp: boundary_refs_scrub scrub_id_def split: option.split)

lemma allOutgoing_refs: "allOutgoing s = outgoingTargets s @ (if supports_boundary s then boundary_refs (boundaryEvents s) else [])"
  by (simp add: allOutgoing_def boundary_refs_def)

lemma boundaryEvents_scrub: "supports_boundary s \<Longrightarrow> boundaryEvents (scrubStep r s) = scrub_events r (boundaryEvents s)"
  by (cases s) (simp_all add: supports_boundary_def)

lemma outgoing_scrub:
  assumes "r \<noteq> ''''"
  shows "filter (\<lambda>t. t \<noteq> '''') (outgoingTargets (scrubStep r s)) = filter (\<lambda>t. t \<noteq> '''' \<and> t \<noteq> r) (outgoingTargets s)"
proof (cases s)
  case (ServiceTask c n jt dc rc ev)
  then show ?thesis using assms by (cases n) (auto simp: scrub_id_def)
next
  case (UserTask c n jt ev)
  then show ?thesis using assms by (cases n) (auto simp: scrub_id_def)
qed (auto simp: scrub_id_def assms filter_map o_def split_def conj_commute)

lemma allOutgoing_scrub:
  assumes "r \<noteq> ''''"
  shows "filter (\<lambda>t. t \<noteq> '''') (allOutgoing (scrubStep r s)) = filter (\<lambda>t. t \<noteq> '''' \<and> t \<noteq> r) (allOutgoing s)"
proof -
  have "filter (\<lambda>t. t \<noteq> '''') (boundary_refs (scrub_events r ev)) = filter (\<lambda>t. t \<noteq> '''' \<and> t \<noteq> r) (boundary_refs ev)" for ev
    by (simp add: boundary_refs_scrub conj_commute)
  then show ?thesis
    by (simp add: allOutgoing_refs outgoing_scrub [OF assms] boundaryEvents_scrub)
qed

lemma deleteStep_defn:
  "defn (deleteStep i rep st) = scrubRefs ((defn st)\<lparr>steps := filter (\<lambda>s. step_id s \<noteq> i) (steps (defn st))\<rparr>) i"
  by (simp add: deleteStep_def Rename.renameStepId_def Let_def)

lemma deleteStep_steps:
  "steps (defn (deleteStep i rep st)) = map (scrubStep i) (filter (\<lambda>s. step_id s \<noteq> i) (steps (defn st)))"
  by (simp add: deleteStep_defn scrubRefs_def)

lemma deleteStep_ids: "step_ids (defn (deleteStep i rep st)) = filter (\<lambda>j. j \<noteq> i) (step_ids (defn st))"
  by (simp add: deleteStep_steps filter_map o_def)

lemma step_flow_iff: "(a, b) \<in> step_flow d \<longleftrightarrow> (\<exists>s \<in> set (steps d). step_id s = a \<and> b \<in> set (allOutgoing s))"
  by (auto simp: step_flow_def)

section \<open>Editing\<close>

text \<open>The id an assignment leaves; only the key \<^verbatim>\<open>id\<close> changes it.\<close>

definition assigned_id :: "step_prop \<Rightarrow> step_id \<Rightarrow> step_id" where
  "assigned_id p i = (case p of PId j \<Rightarrow> j | _ \<Rightarrow> i)"

lemma assign_prop_id: "assign_prop p s = Some s' \<Longrightarrow> step_id s' = assigned_id p (step_id s) \<and> type_of s' = type_of s"
  by (cases p; cases s) (auto simp: assign_prop_def with_common_def assigned_id_def)

lemma map_opt_ids:
  "(\<And>x y. f x = Some y \<Longrightarrow> g y = h (g x)) \<Longrightarrow> map_opt f xs = Some ys \<Longrightarrow> map g ys = map h (map g xs)"
  by (induction xs arbitrary: ys) (auto split: option.splits)

lemma updateStepProperty_ids:
  assumes "updateStepProperty i p st = Some st'"
  shows "step_ids (defn st') = map (\<lambda>j. if j = i then assigned_id p j else j) (step_ids (defn st)) \<and> dirty st'"
proof -
  obtain ss where ss: "map_opt (\<lambda>s. if step_id s = i then assign_prop p s else Some s) (steps (defn st)) = Some ss"
      "st' = st\<lparr>defn := (defn st)\<lparr>steps := ss\<rparr>, dirty := True\<rparr>"
    using assms by (auto simp: updateStepProperty_def split: option.splits)
  have "step_id y = (if step_id x = i then assigned_id p (step_id x) else step_id x)"
    if "(if step_id x = i then assign_prop p x else Some x) = Some y" for x y
    using that assign_prop_id [of p x y] by (cases "step_id x = i") simp_all
  then have "map step_id ss = map (\<lambda>j. if j = i then assigned_id p j else j) (map step_id (steps (defn st)))"
    by (rule map_opt_ids [OF _ ss(1)])
  with ss(2) show ?thesis by simp
qed

lemma updateStepProperty_distinct:
  assumes "updateStepProperty i p st = Some st'" "distinct (step_ids (defn st))"
    and "\<And>j. p = PId j \<Longrightarrow> j = i \<or> j \<notin> set (step_ids (defn st))"
  shows "distinct (step_ids (defn st'))"
proof -
  let ?f = "\<lambda>j. if j = i then assigned_id p j else j"
  have new: "assigned_id p i = i \<or> assigned_id p i \<notin> set (step_ids (defn st))"
    using assms(3) by (cases p) (simp_all add: assigned_id_def)
  have "inj_on ?f A" if "assigned_id p i = i \<or> assigned_id p i \<notin> A" for A
    using that by (auto simp: inj_on_def)
  with new have inj: "inj_on ?f (set (step_ids (defn st)))" by blast
  from updateStepProperty_ids [OF assms(1)] have ids: "step_ids (defn st') = map ?f (step_ids (defn st))" by blast
  show ?thesis unfolding ids using assms(2) inj distinct_map [of ?f "step_ids (defn st)"] by blast
qed

lemma rename_distinct:
  assumes "Rename.renameStepId d a b = Inr d'" "distinct (step_ids d)"
  shows "distinct (step_ids d')"
proof (cases "a = b")
  case False
  with assms(1) have b: "b \<notin> set (step_ids d)" and "step_ids d' = map (remap a b) (step_ids d)"
    by (simp_all add: renameStepId_Inr_iff)
  then show ?thesis using assms(2) inj_on_remap [OF b, of a] by (metis distinct_map)
qed (use assms in \<open>simp add: renameStepId_Inr_iff\<close>)

text \<open>One action of an editing session, that is, every action that changes the state without bringing in another
  workflow: loading, starting anew, resetting and uploading are the ends of a session, and undo is the package zundo's.
  Three actions can bring step ids of their own, an applied text, a patch with steps and an assignment to the key
  \<^verbatim>\<open>id\<close>; with \<open>fresh\<close> these bring no id twice.\<close>

inductive edit_step :: "bool \<Rightarrow> workflow_state \<Rightarrow> workflow_state \<Rightarrow> bool" for fresh where
  add: "edit_step fresh st (snd (addStep tpl st))"
| delete: "edit_step fresh st (deleteStep i rep st)"
| rename: "edit_step fresh st (snd (renameStepAction oldId newId st))"
| update: "updateStepProperty i p st = Some st' \<Longrightarrow>
     (\<And>j. fresh \<Longrightarrow> p = PId j \<Longrightarrow> j = i \<or> j \<notin> set (step_ids (defn st))) \<Longrightarrow> edit_step fresh st st'"
| meta: "(\<And>ss. fresh \<Longrightarrow> pt_steps p = Some ss \<Longrightarrow> distinct (map step_id ss)) \<Longrightarrow>
     edit_step fresh st (setDefinitionMeta p st)"
| apply_json: "(\<And>d ws. fresh \<Longrightarrow> result = ImportOk d ws \<Longrightarrow> distinct (step_ids d)) \<Longrightarrow>
     edit_step fresh st (snd (applyDefinitionFromJson result st))"
| add_edge: "edit_step fresh st (addEdge from to v st)"
| remove_edge: "edit_step fresh st (removeEdge from to v st)"
| layout: "edit_step fresh st (setLayout i pos st)"
| handle: "edit_step fresh st (setEdgeHandle e h st)"
| select: "edit_step fresh st (select sel st)"
| validate: "edit_step fresh st (runValidation now st)"
| connection: "edit_step fresh st (setEngineConnection cp st)"
| test: "edit_step fresh st (testEngineConnection now status st)"

inductive_cases edit_stepE: "edit_step fresh st st'"

lemmas action_defs = addStep_def renameStepAction_def setDefinitionMeta_def addEdge_def removeEdge_def
  setLayout_def setEdgeHandle_def select_def runValidation_def setEngineConnection_def
  testEngineConnection_def

definition view_inv :: "workflow_state \<Rightarrow> bool" where
  "view_inv st \<longleftrightarrow> distinct (map_keys (layout st)) \<and> distinct (map_keys (edgeHandles st))"

definition distinct_ids :: "workflow_state \<Rightarrow> bool" where
  "distinct_ids st \<longleftrightarrow> distinct (step_ids (defn st))"

lemma deleteStep_view: "layout (deleteStep i rep st) = layout st" "edgeHandles (deleteStep i rep st) = edgeHandles st"
  "dirty (deleteStep i rep st)"
  by (simp_all add: deleteStep_def Let_def)

lemma updateStepProperty_view:
  "updateStepProperty i p st = Some st' \<Longrightarrow> layout st' = layout st \<and> edgeHandles st' = edgeHandles st"
  by (auto simp: updateStepProperty_def split: option.splits)

lemma edit_step_view:
  assumes "edit_step fresh st st'" "view_inv st" shows "view_inv st'"
  using assms
proof (induction rule: edit_step.induct)
  case (delete st i rep)
  then show ?case by (simp add: view_inv_def deleteStep_view)
next
  case (rename st oldId newId)
  then show ?case by (simp add: view_inv_def renameStepAction_def split: sum.split)
next
  case (update i p st st')
  then show ?case using updateStepProperty_view [OF update(1)] by (simp add: view_inv_def)
next
  case (apply_json result st)
  have "distinct (map_keys (filter P l))" if "distinct (map_keys l)" for P and l :: "(string, position) omap"
    using that by (simp add: map_keys_def distinct_map_filter)
  with apply_json(2) show ?case by (simp add: view_inv_def applyDefinitionFromJson_def split: import_result.split)
next
  case (layout st i pos)
  then show ?case by (simp add: view_inv_def setLayout_def omap.invar_set)
next
  case (handle st e h)
  then show ?case by (simp add: view_inv_def setEdgeHandle_def omap.invar_set)
qed (simp_all add: view_inv_def action_defs Let_def)

lemma edit_step_ids:
  assumes "edit_step True st st'" "distinct_ids st" shows "distinct_ids st'"
  using assms
proof (induction rule: edit_step.induct)
  case (add st tpl)
  have "step_id (newStep tpl (defn st)) \<notin> set (step_ids (defn st))" by (simp only: newStep_id uniqueStepId_fresh not_False_eq_True)
  with add show ?case by (simp add: distinct_ids_def addStep_def Let_def)
next
  case (delete st i rep)
  then show ?case unfolding distinct_ids_def deleteStep_ids by simp
next
  case (rename st oldId newId)
  show ?case
  proof (cases "Rename.renameStepId (defn st) oldId newId")
    case (Inr d)
    then have "distinct (step_ids d)" using rename rename_distinct [OF Inr] unfolding distinct_ids_def by blast
    with Inr show ?thesis by (simp add: distinct_ids_def renameStepAction_def)
  qed (use rename in \<open>simp add: renameStepAction_def\<close>)
next
  case (update i p st st')
  then show ?case using updateStepProperty_distinct [OF update(1)] by (simp add: distinct_ids_def)
next
  case (apply_json result st)
  then show ?case by (simp add: distinct_ids_def applyDefinitionFromJson_def split: import_result.split)
next
  case (meta p st)
  then show ?case
    by (cases "pt_steps p") (simp_all add: distinct_ids_def setDefinitionMeta_def apply_patch_def patched_def)
qed (simp_all add: distinct_ids_def action_defs)

lemma edit_step_dirty:
  assumes "edit_step fresh st st'"
  shows "(dirty st \<longrightarrow> dirty st') \<and> (dirty st' \<or> defn st' = defn st)"
  using assms
proof (induction rule: edit_step.induct)
  case (rename st oldId newId)
  then show ?case by (simp add: renameStepAction_def split: sum.split)
next
  case (update i p st st')
  then show ?case using updateStepProperty_ids by blast
next
  case (delete st i rep)
  then show ?case by (simp add: deleteStep_view)
next
  case (apply_json result st)
  then show ?case by (simp add: applyDefinitionFromJson_def split: import_result.split)
qed (simp_all add: action_defs Let_def)

section \<open>Layout invariant of a load\<close>

lemma read_layout_distinct: "distinct (map_keys (read_layout es))"
proof -
  have "distinct (map_keys (fold (\<lambda>(i, pos) l. case read_position pos of None \<Rightarrow> l | Some p \<Rightarrow> map_set i p l) es l))"
    if "distinct (map_keys l)" for l
    using that
  proof (induction es arbitrary: l)
    case (Cons e es)
    obtain i pos where e: "e = (i, pos)" by (cases e)
    show ?case
      using Cons by (cases "read_position pos") (simp_all add: e omap.invar_set)
  qed simp
  from this [of "[]"] show ?thesis by (simp add: read_layout_def map_keys_def)
qed

section \<open>Properties\<close>

text \<open>A new step gets a fresh id: adding a step appends exactly one step of the requested type whose id
  no step had before; the id is the preferred one when that is free, and otherwise the preferred one with
  the smallest suffix from 2 on that is free.\<close>

theorem addStep_fresh:
  assumes "addStep tpl st = (i, st')"
  shows "i \<notin> set (step_ids (defn st)) \<and> step_ids (defn st') = step_ids (defn st) @ [i] \<and>
    (\<exists>s. steps (defn st') = steps (defn st) @ [s] \<and> type_of s = tpl_type tpl) \<and>
    (\<forall>p. tpl_id tpl = Some p \<longrightarrow>
       (if p \<notin> set (step_ids (defn st)) then i = p
        else \<exists>k \<ge> 2. i = candidate p k \<and> (\<forall>j. 2 \<le> j \<and> j < k \<longrightarrow> candidate p j \<in> set (step_ids (defn st)))))"
proof -
  have i: "i = step_id (newStep tpl (defn st))"
    and st': "steps (defn st') = steps (defn st) @ [newStep tpl (defn st)]"
    using assms by (auto simp: addStep_def Let_def)
  have fresh: "i \<notin> set (step_ids (defn st))" unfolding i newStep_id by (rule uniqueStepId_fresh)
  have "if p \<notin> set (step_ids (defn st)) then i = p
        else \<exists>k \<ge> 2. i = candidate p k \<and> (\<forall>j. 2 \<le> j \<and> j < k \<longrightarrow> candidate p j \<in> set (step_ids (defn st)))"
    if p: "tpl_id tpl = Some p" for p
  proof (cases "p \<notin> set (step_ids (defn st))")
    case True
    then have "i = p" unfolding i newStep_id p option.case uniqueStepId_def by (simp only: if_True not_False_eq_True)
    with True show ?thesis by (simp only: if_True not_False_eq_True)
  next
    case False
    then have "i = candidate p (firstFree (step_ids (defn st)) p 2)"
      unfolding i newStep_id p option.case uniqueStepId_def by (simp only: if_False)
    with False firstFree_spec [of p "step_ids (defn st)" 2] show ?thesis by (simp only: if_False) blast
  qed
  then show ?thesis using fresh st' i newStep_type by auto
qed

theorem addStep_fresh_witness:
  "fst (addStep \<lparr>tpl_type = WAIT, tpl_id = Some ''a'', tpl_name = None\<rparr>
     (initialState\<lparr>defn := sample_flow ''a'' ''b''\<rparr>)) \<notin> {''a'', ''b''}"
  using addStep_fresh [OF surjective_pairing, of "\<lparr>tpl_type = WAIT, tpl_id = Some ''a'', tpl_name = None\<rparr>"
      "initialState\<lparr>defn := sample_flow ''a'' ''b''\<rparr>"]
  by (simp add: sample_flow_def initialState_def)

text \<open>Deleting a step leaves nothing dangling: the step is gone and no remaining step refers to its id;
  the graph that is left (empty, unset targets aside) is the old one without the edges from and to the
  deleted step.\<close>

theorem deleteStep_scrubs:
  assumes "i \<noteq> ''''"
  shows "step_ids (defn (deleteStep i rep st)) = filter (\<lambda>j. j \<noteq> i) (step_ids (defn st)) \<and>
    i \<notin> set (def_refs (defn (deleteStep i rep st))) \<and>
    {(a, b). (a, b) \<in> step_flow (defn (deleteStep i rep st)) \<and> b \<noteq> ''''} =
      {(a, b). (a, b) \<in> step_flow (defn st) \<and> a \<noteq> i \<and> b \<noteq> i \<and> b \<noteq> ''''}"
proof -
  have out: "t \<in> set (allOutgoing (scrubStep i s)) \<and> t \<noteq> '''' \<longleftrightarrow> t \<in> set (allOutgoing s) \<and> t \<noteq> '''' \<and> t \<noteq> i" for s t
    using arg_cong [OF allOutgoing_scrub [OF assms, of s], of "\<lambda>xs. t \<in> set xs"] by auto
  have "i \<notin> set (def_refs (defn (deleteStep i rep st)))"
    using scrub_refs [OF assms] by (auto simp: def_refs_def deleteStep_steps)
  moreover have "{(a, b). (a, b) \<in> step_flow (defn (deleteStep i rep st)) \<and> b \<noteq> ''''} =
      {(a, b). (a, b) \<in> step_flow (defn st) \<and> a \<noteq> i \<and> b \<noteq> i \<and> b \<noteq> ''''}"
  proof (intro set_eqI, clarify)
    fix a b
    have "(a, b) \<in> step_flow (defn (deleteStep i rep st)) \<and> b \<noteq> '''' \<longleftrightarrow>
        (\<exists>s \<in> set (steps (defn st)). step_id s \<noteq> i \<and> step_id s = a \<and> b \<in> set (allOutgoing (scrubStep i s)) \<and> b \<noteq> '''')"
      by (auto simp: step_flow_iff deleteStep_steps)
    also have "\<dots> \<longleftrightarrow> (a, b) \<in> step_flow (defn st) \<and> a \<noteq> i \<and> b \<noteq> i \<and> b \<noteq> ''''"
      unfolding out step_flow_iff by blast
    finally show "(a, b) \<in> {(a, b). (a, b) \<in> step_flow (defn (deleteStep i rep st)) \<and> b \<noteq> ''''} \<longleftrightarrow>
        (a, b) \<in> {(a, b). (a, b) \<in> step_flow (defn st) \<and> a \<noteq> i \<and> b \<noteq> i \<and> b \<noteq> ''''}"
      unfolding mem_Collect_eq case_prod_conv .
  qed
  ultimately show ?thesis using deleteStep_ids by blast
qed

theorem deleteStep_scrubs_witness:
  "''b'' \<notin> set (def_refs (defn (deleteStep ''b'' None (initialState\<lparr>defn := sample_flow ''a'' ''b''\<rparr>))))"
  using deleteStep_scrubs [of "''b''" None "initialState\<lparr>defn := sample_flow ''a'' ''b''\<rparr>"] by simp

text \<open>C9. Editing invariants, along any sequence of the store's editing actions with any arguments that keep every step a
  step of its type (an update that gives a step a field its type does not have, or takes a required one away behind the
  cast of \<^verbatim>\<open>updateStepProperty\<close>, is outside the model): the keys of the layout
  and of the edge handles stay distinct; the dirty mark stays once it is set, and as long as it is not set the
  definition is the one the session started with. Step ids stay distinct as well, provided that no applied JSON text
  and no patch of the steps has an id twice and that the key \<^verbatim>\<open>id\<close> of a step is not assigned the id of another one; adding,
  renaming, deleting and all other updates then need no care. Loading, starting anew, resetting, uploading and undo
  are not editing actions.\<close>

theorem editing_invariants:
  assumes "(edit_step fresh)\<^sup>*\<^sup>* st st'"
  shows "(view_inv st \<longrightarrow> view_inv st') \<and> (fresh \<and> distinct_ids st \<longrightarrow> distinct_ids st') \<and>
    (dirty st \<longrightarrow> dirty st') \<and> (dirty st' \<or> defn st' = defn st)"
  using assms
proof (induction rule: rtranclp_induct)
  case (step st' st'')
  then show ?case using edit_step_view edit_step_ids edit_step_dirty by (cases fresh) metis+
qed simp

theorem editing_invariants_witness:
  "distinct_ids (snd (addStep \<lparr>tpl_type = END, tpl_id = None, tpl_name = None\<rparr> initialState)) \<and>
   view_inv (snd (addStep \<lparr>tpl_type = END, tpl_id = None, tpl_name = None\<rparr> initialState))"
proof -
  have "distinct_ids initialState" "view_inv initialState"
    by (simp_all add: distinct_ids_def view_inv_def initialState_def emptyDefinition_def map_keys_def)
  moreover have "(edit_step True)\<^sup>*\<^sup>* initialState (snd (addStep \<lparr>tpl_type = END, tpl_id = None, tpl_name = None\<rparr> initialState))"
    by (intro r_into_rtranclp edit_step.add)
  ultimately show ?thesis using editing_invariants by blast
qed

text \<open>A draft restores the work: saving the current state as a draft under an unused id and loading it,
  from whatever state, brings back the definition, the layout and the edge handles, clean and with no
  diagnostics, and keeps the engine connection of that state.\<close>

theorem draft_restores_work:
  assumes "getDraft item i = None" and "saveDraftAction accepts i now name st item = (Inr draft, item')"
  shows "\<exists>st''. loadDraft i item' st' = (True, st'') \<and> defn st'' = defn st \<and> layout st'' = layout st \<and>
    edgeHandles st'' = edgeHandles st \<and> \<not> dirty st'' \<and> diagnostics (validation st'') = [] \<and>
    engine st'' = engine st'"
proof -
  have "map_option (\<lambda>dr. (savedAt dr, draft_name dr, draft_definition dr, draft_layout dr, draft_edgeHandles dr))
      (getDraft item' i) = Some (now, trim name, defn st, layout st, edgeHandles st)"
    using drafts.read_back [of item i accepts "(now, name, defn st, layout st, edgeHandles st)" draft item'] assms
    by (simp add: saveDraftAction_def)
  then show ?thesis by (auto simp: loadDraft_def no_validation_def)
qed

theorem draft_restores_work_witness:
  "\<exists>item st''. loadDraft ''i'' item initialState = (True, st'') \<and> defn st'' = sample_flow ''a'' ''b''"
proof -
  let ?st = "initialState\<lparr>defn := sample_flow ''a'' ''b''\<rparr>"
  have "\<exists>draft item'. saveDraftAction (\<lambda>_. True) ''i'' 5 ''n'' ?st Missing = (Inr draft, item')"
    by (simp add: saveDraftAction_def saveDraft_def writeRaw_def trim_def js_space_def DRAFTS_LIMIT_def Let_def)
  then obtain draft item' where "saveDraftAction (\<lambda>_. True) ''i'' 5 ''n'' ?st Missing = (Inr draft, item')" by blast
  moreover have "getDraft Missing ''i'' = None" by (simp add: getDraft_def)
  ultimately obtain st'' where "loadDraft ''i'' item' initialState = (True, st'')" "defn st'' = defn ?st"
    using draft_restores_work [of Missing "''i''" "\<lambda>_. True" 5 "''n''" ?st draft item' initialState] by blast
  then show ?thesis by auto
qed

text \<open>C35. The engine keeps the layout: when the engine answers a later load with the uploaded definition and a
  version number, the editor gets back the same steps and the same layout, and remembers the version it came from.
  The edge handles come back too; when there are none any more, those that the definition's metadata still has from
  an earlier export come back instead. The keys of the layout are those of an object, so no key occurs twice.\<close>

theorem upload_load_roundtrip:
  assumes "distinct (map_keys (layout st))"
  shows "\<exists>st''. loadFromEngine i None (Inr (Some ((uploadRequest st)\<lparr>def_version := Some v\<rparr>))) st' = (None, st'') \<and>
    steps (defn st'') = steps (defn st) \<and> layout st'' = layout st \<and>
    edgeHandles st'' = (if edgeHandles st = [] then snd (extractEmbeddedModeller (defn st)) else edgeHandles st) \<and>
    source st'' = SrcEngine i v \<and> \<not> dirty st''"
proof -
  let ?d = "(uploadRequest st)\<lparr>def_version := Some v\<rparr>"
  let ?h = "if edgeHandles st = [] then snd (extractEmbeddedModeller (defn st)) else edgeHandles st"
  have "extractEmbeddedModeller ?d = extractEmbeddedModeller (uploadRequest st)"
    by (simp add: extractEmbeddedModeller_def)
  also have "\<dots> = (layout st, ?h)"
    unfolding uploadRequest_def by (simp add: embed_extract_roundtrip [OF assms])
  finally have "extractEmbeddedModeller ?d = (layout st, ?h)" .
  moreover have "steps ?d = steps (defn st)" by (simp add: uploadRequest_def embedLayout_def Let_def)
  ultimately show ?thesis by (simp add: loadFromEngine_def)
qed

theorem upload_load_roundtrip_witness:
  "\<exists>st''. loadFromEngine ''w'' None (Inr (Some ((uploadRequest (initialState\<lparr>layout := [(''a'', \<lparr>pos_x = 1, pos_y = 2\<rparr>)],
       edgeHandles := [(''e'', JNull)]\<rparr>))\<lparr>def_version := Some 3\<rparr>))) initialState = (None, st'') \<and>
     layout st'' = [(''a'', \<lparr>pos_x = 1, pos_y = 2\<rparr>)]"
proof -
  let ?st = "initialState\<lparr>layout := [(''a'', \<lparr>pos_x = 1, pos_y = 2\<rparr>)], edgeHandles := [(''e'', JNull)]\<rparr>"
  have "distinct (map_keys (layout ?st))" by (simp add: map_keys_def)
  from upload_load_roundtrip [OF this, of "''w''" 3 initialState] obtain st'' where
    "loadFromEngine ''w'' None (Inr (Some ((uploadRequest ?st)\<lparr>def_version := Some 3\<rparr>))) initialState = (None, st'')"
    "layout st'' = layout ?st" by blast
  moreover have "layout ?st = [(''a'', \<lparr>pos_x = 1, pos_y = 2\<rparr>)]" by simp
  ultimately show ?thesis by metis
qed

text \<open>A failed upload loses no work: on every error answer the definition, the layout, the edge handles,
  the source and the dirty mark stay as they are; a rejection by the engine (4xx) adds one error diagnostic
  and keeps the earlier ones, a network failure marks the engine unreachable, anything else marks an error.\<close>

theorem upload_failure_keeps_work:
  "let (res, st') = uploadAnswer now (Inl e) st
   in res = Inl (EngineFailure e) \<and> defn st' = defn st \<and> layout st' = layout st \<and>
      edgeHandles st' = edgeHandles st \<and> source st' = source st \<and> dirty st' = dirty st \<and>
      diagnostics (validation st') = diagnostics (validation st) @
        (if err_kind e = KHttp \<and> 400 \<le> err_status e \<and> err_status e < 500 then [drift] else []) \<and>
      ec_status (engine st') = (if err_kind e = KNetwork then StUnreachable else StError)"
  by (auto simp: uploadAnswer_def)

text \<open>The summary of a validation run is exact: after \<open>runValidation\<close> the panel shows no errors if and
  only if the current definition satisfies \<open>valid_definition\<close>, and the counts per severity add up to the
  diagnostics shown.\<close>

theorem validation_summary_exact:
  "(vs_errors (useValidationSummary (runValidation now st)) = 0 \<longleftrightarrow> valid_definition (defn st)) \<and>
   vs_diagnostics (useValidationSummary (runValidation now st)) = validate (defn st)"
  using valid_iff [of "defn st"] by (simp add: useValidationSummary_def runValidation_def errors_def Let_def)

text \<open>Applying edited JSON keeps exactly the positions of steps that still exist, and marks the state dirty;
  a text that does not import changes nothing.\<close>

theorem apply_json_layout:
  "let (res, st') = applyDefinitionFromJson result st
   in (case result of
         ImportErr errs \<Rightarrow> res = Inl errs \<and> st' = st
       | ImportOk d ws \<Rightarrow> res = Inr ws \<and> defn st' = d \<and> dirty st' \<and> edgeHandles st' = edgeHandles st \<and>
           (\<forall>i. map_get (layout st') i = (if i \<in> set (step_ids d) then map_get (layout st) i else None)))"
proof -
  have "map_get (filter (\<lambda>(i, _). i \<in> A) l) k = (if k \<in> A then map_get l k else None)" for A k and l :: layout
    by (induction l) auto
  then show ?thesis by (simp add: applyDefinitionFromJson_def split: import_result.split)
qed

section \<open>An edit during an upload\<close>

text \<open>The answer of an upload is applied to the state of that moment: an edit made while the request was under
  way is marked clean although the engine never saw it.\<close>

lemma upload_marks_concurrent_edit_clean:
  "\<exists>st st' answer. edit_step True st st' \<and> steps (uploadRequest st) \<noteq> steps (defn st') \<and>
     \<not> dirty (snd (uploadAnswer now answer st')) \<and> steps (defn (snd (uploadAnswer now answer st'))) = steps (defn st')"
proof (intro exI conjI)
  let ?st' = "snd (addStep \<lparr>tpl_type = END, tpl_id = None, tpl_name = None\<rparr> initialState)"
  show "edit_step True initialState ?st'" by (rule edit_step.add)
  show "steps (uploadRequest initialState) \<noteq> steps (defn ?st')"
    by (simp add: uploadRequest_def embedLayout_def addStep_def initialState_def Let_def)
  show "\<not> dirty (snd (uploadAnswer now (Inr (Some \<lparr>us_id = ''w'', us_version = 1\<rparr>)) ?st'))"
    "steps (defn (snd (uploadAnswer now (Inr (Some \<lparr>us_id = ''w'', us_version = 1\<rparr>)) ?st'))) = steps (defn ?st')"
    by (simp_all add: uploadAnswer_def)
qed

end
