(* ===== verification/Step_Deletion.thy ===== *)
theory Step_Deletion
  imports Store_Properties
begin

text \<open>
  \<^verbatim>\<open>workflow-modeller/src/panels/DeleteStepDialog.tsx\<close>: the references to a step that the dialog lists,
  rewriting them to a replacement, and the dialog itself. \<^verbatim>\<open>App.tsx\<close> keeps the dialog mounted, so its state
  \<^verbatim>\<open>replacement\<close> outlives a single deletion; \<^verbatim>\<open>deleteTarget\<close> of \<^verbatim>\<open>App\<close> is the step it is open for.
  The choices come from \<^verbatim>\<open>StepPicker\<close> of \<^verbatim>\<open>property-forms/FormPrimitives.tsx\<close>.
\<close>

section \<open>References\<close>

definition next_hit :: "step_id \<Rightarrow> step_id \<Rightarrow> step_id option \<Rightarrow> string list" where
  "next_hit i owner next = (if next = Some i then [owner @ ''.nextStep''] else [])"

definition boundary_hits :: "step_id \<Rightarrow> step_id \<Rightarrow> boundary_event list option \<Rightarrow> string list" where
  "boundary_hits i owner events =
     (case events of
        None \<Rightarrow> []
      | Some evts \<Rightarrow>
          concat (map (\<lambda>(k, evt). if evt_targetStepId evt = i
              then [owner @ ''.boundaryEvents['' @ nat_str k @ ''].targetStepId''] else []) (indexed evts)))"

fun step_hits :: "step_id \<Rightarrow> step \<Rightarrow> string list" where
  "step_hits i (ServiceTask c next _ _ _ events) = next_hit i (c_id c) next @ boundary_hits i (c_id c) events"
| "step_hits i (UserTask c next _ events) = next_hit i (c_id c) next @ boundary_hits i (c_id c) events"
| "step_hits i (Wait c next events) = next_hit i (c_id c) (Some next) @ boundary_hits i (c_id c) events"
| "step_hits i (Transformation c next _) = next_hit i (c_id c) (Some next)"
| "step_hits i (JoinGateway c next) = next_hit i (c_id c) (Some next)"
| "step_hits i (Decision c branches) =
     concat (map (\<lambda>(expr, target). if target = i
         then [c_id c @ ''.conditionalNextSteps[\"'' @ expr @ ''\"]''] else []) branches)"
| "step_hits i (DecisionTable c _ next _) = next_hit i (c_id c) (Some next)"
| "step_hits i (ParallelGateway c targets join) =
     concat (map (\<lambda>(k, t). if t = i
         then [c_id c @ ''.parallelNextSteps['' @ nat_str k @ '']''] else []) (indexed targets)) @
     (if join = i then [c_id c @ ''.joinStep''] else [])"
| "step_hits i (End _) = []"

definition findReferences :: "workflow_definition \<Rightarrow> step_id \<Rightarrow> string list" where
  "findReferences d i = concat (map (step_hits i) (steps d))"

section \<open>Rewriting references\<close>

definition rewrite_id :: "step_id \<Rightarrow> step_id \<Rightarrow> step_id \<Rightarrow> step_id" where
  "rewrite_id oldId newId i = (if i = oldId then newId else i)"

definition rewrite_events ::
  "step_id \<Rightarrow> step_id \<Rightarrow> boundary_event list option \<Rightarrow> boundary_event list option" where
  "rewrite_events oldId newId events =
     map_option (map (\<lambda>e. if evt_targetStepId e = oldId then e\<lparr>evt_targetStepId := newId\<rparr> else e)) events"

fun rewriteRefs :: "step_id \<Rightarrow> step_id \<Rightarrow> step \<Rightarrow> step" where
  "rewriteRefs oldId newId (ServiceTask c next jt dc rc events) =
     ServiceTask c (if next = Some oldId then Some newId else next) jt dc rc (rewrite_events oldId newId events)"
| "rewriteRefs oldId newId (UserTask c next jt events) =
     UserTask c (if next = Some oldId then Some newId else next) jt (rewrite_events oldId newId events)"
| "rewriteRefs oldId newId (Wait c next events) =
     Wait c (rewrite_id oldId newId next) (rewrite_events oldId newId events)"
| "rewriteRefs oldId newId (Transformation c next ts) = Transformation c (rewrite_id oldId newId next) ts"
| "rewriteRefs oldId newId (JoinGateway c next) = JoinGateway c (rewrite_id oldId newId next)"
| "rewriteRefs oldId newId (Decision c branches) =
     Decision c (map (\<lambda>(expr, target). (expr, rewrite_id oldId newId target)) branches)"
| "rewriteRefs oldId newId (DecisionTable c hp next tbl) = DecisionTable c hp (rewrite_id oldId newId next) tbl"
| "rewriteRefs oldId newId (ParallelGateway c targets join) =
     ParallelGateway c (map (rewrite_id oldId newId) targets) (rewrite_id oldId newId join)"
| "rewriteRefs oldId newId (End c) = End c"

section \<open>The dialog\<close>

record delete_dialog =
  dd_stepId :: "step_id option"
  dd_replacement :: string

definition closed_dialog :: delete_dialog where
  "closed_dialog = \<lparr>dd_stepId = None, dd_replacement = ''''\<rparr>"

text \<open>\<^verbatim>\<open>StepPicker\<close>: the values of its options, where a current value that is no candidate is offered too.\<close>

definition picker_values :: "(step \<Rightarrow> bool) \<Rightarrow> step_id list \<Rightarrow> bool \<Rightarrow> string \<Rightarrow> step list \<Rightarrow> string list" where
  "picker_values allowed excludeIds allowEmpty value ss =
     (let candidates = filter (\<lambda>s. allowed s \<and> step_id s \<notin> set excludeIds) ss
      in (if allowEmpty then [''''] else []) @ map step_id candidates @
         (if value \<noteq> '''' \<and> \<not> list_ex (\<lambda>c. step_id c = value) candidates then [value] else []))"

definition handleDeleteOnly :: "delete_dialog \<times> workflow_state \<Rightarrow> delete_dialog \<times> workflow_state" where
  "handleDeleteOnly = (\<lambda>(dlg, st).
     (if truthy (dd_stepId dlg)
      then (dlg\<lparr>dd_stepId := None\<rparr>, deleteStep (the (dd_stepId dlg)) None st) else (dlg, st)))"

definition handleReplaceAndDelete :: "delete_dialog \<times> workflow_state \<Rightarrow> delete_dialog \<times> workflow_state" where
  "handleReplaceAndDelete = (\<lambda>(dlg, st).
     (if \<not> truthy (dd_stepId dlg) \<or> dd_replacement dlg = '''' then (dlg, st)
      else
        let i = the (dd_stepId dlg);
            rewritten = (defn st)\<lparr>steps := map (rewriteRefs i (dd_replacement dlg)) (steps (defn st))\<rparr>
        in (dlg\<lparr>dd_stepId := None\<rparr>, deleteStep i None (st\<lparr>defn := rewritten, dirty := True\<rparr>))))"

text \<open>The dialog renders nothing unless \<^verbatim>\<open>stepId\<close> is truthy; the picker and the button for replacing are
  there only when the step has references, the button also needs a replacement.\<close>

definition offers_replacement :: "delete_dialog \<Rightarrow> workflow_state \<Rightarrow> bool" where
  "offers_replacement dlg st \<longleftrightarrow> truthy (dd_stepId dlg) \<and> findReferences (defn st) (the (dd_stepId dlg)) \<noteq> []"

inductive delete_session :: "workflow_state \<Rightarrow> delete_dialog \<times> workflow_state \<Rightarrow> bool" for st\<^sub>0 where
  start: "delete_session st\<^sub>0 (closed_dialog, st\<^sub>0)"
| request: "delete_session st\<^sub>0 (dlg, st) \<Longrightarrow> i \<in> set (step_ids (defn st)) \<Longrightarrow>
     delete_session st\<^sub>0 (dlg\<lparr>dd_stepId := Some i\<rparr>, st)"
| pick: "delete_session st\<^sub>0 (dlg, st) \<Longrightarrow> offers_replacement dlg st \<Longrightarrow>
     r \<in> set (picker_values (\<lambda>_. True) [the (dd_stepId dlg)] True (dd_replacement dlg) (steps (defn st))) \<Longrightarrow>
     delete_session st\<^sub>0 (dlg\<lparr>dd_replacement := r\<rparr>, st)"
| cancel: "delete_session st\<^sub>0 (dlg, st) \<Longrightarrow> delete_session st\<^sub>0 (dlg\<lparr>dd_stepId := None\<rparr>, st)"
| delete: "delete_session st\<^sub>0 (dlg, st) \<Longrightarrow> delete_session st\<^sub>0 (handleDeleteOnly (dlg, st))"
| replace: "delete_session st\<^sub>0 (dlg, st) \<Longrightarrow> offers_replacement dlg st \<Longrightarrow> dd_replacement dlg \<noteq> '''' \<Longrightarrow>
     delete_session st\<^sub>0 (handleReplaceAndDelete (dlg, st))"

section \<open>Lemmas\<close>

lemma next_hit_length: "length (next_hit i a n) = count_list (case n of None \<Rightarrow> [] | Some m \<Rightarrow> [m]) i"
  by (simp add: next_hit_def split: option.split)

lemma concat_hits_length:
  "length (concat (map (\<lambda>(k, t). if f t = i then [g k t] else []) ps)) = count_list (map f (map snd ps)) i"
  by (induction ps) auto

lemma boundary_hits_length: "length (boundary_hits i a ev) = count_list (boundary_refs ev) i"
  unfolding boundary_hits_def boundary_refs_def
  by (simp only: concat_hits_length map_snd_indexed split: option.split) simp

lemma decision_hits_length: "length (step_hits i (Decision c branches)) = count_list (map snd branches) i"
  unfolding step_hits.simps using concat_hits_length [of "\<lambda>t. t" i _ branches] by (simp only: list.map_ident)

lemma parallel_hits_length:
  "length (step_hits i (ParallelGateway c targets join)) = count_list (targets @ [join]) i"
  unfolding step_hits.simps length_append using concat_hits_length [of "\<lambda>t. t" i _ "indexed targets"]
  by (simp only: list.map_ident map_snd_indexed count_list_append) simp

lemma step_hits_length: "length (step_hits i s) = count_list (step_refs s) i"
proof (cases s)
  case (Decision c branches)
  then show ?thesis by (simp only: decision_hits_length step_refs.simps)
next
  case (ParallelGateway c targets join)
  then show ?thesis by (simp only: parallel_hits_length step_refs.simps)
qed (auto simp: next_hit_length boundary_hits_length)

lemma count_concat: "count_list (concat xss) i = sum_list (map (\<lambda>xs. count_list xs i) xss)"
  by (induction xss) simp_all

lemma findReferences_length: "length (findReferences d i) = count_list (def_refs d) i"
  by (simp add: findReferences_def def_refs_def length_concat o_def step_hits_length count_concat)

lemma rewrite_id_remap: "rewrite_id a b = remap a b"
  by (simp add: fun_eq_iff rewrite_id_def remap_def)

lemma rewrite_events_remap: "rewrite_events a b ev = withRemappedBoundary (remap a b) ev"
  by (auto simp: rewrite_events_def withRemappedBoundary_def remap_def intro!: map_option_cong)

text \<open>The rewriting is the one of a rename, except that the step keeps its own id.\<close>

lemma rewriteRefs_remap: "rewriteRefs a b s = with_common (\<lambda>_. common s) (remapStep a b s)"
proof -
  have "(if n = Some a then Some b else n) = map_option (remap a b) n" for n
    by (cases n) (simp_all add: remap_def)
  then show ?thesis by (cases s) (simp_all add: with_common_def rewrite_events_remap rewrite_id_remap)
qed

lemma step_refs_common [simp]: "step_refs (with_common f s) = step_refs s"
  by (cases s) (simp_all add: with_common_def)

lemma common_with_common [simp]: "common (with_common f s) = f (common s)"
  by (cases s) (simp_all add: with_common_def)

lemma step_refs_rewrite: "step_refs (rewriteRefs a b s) = map (remap a b) (step_refs s)"
  by (simp add: rewriteRefs_remap step_refs_remapStep)

lemma common_rewrite [simp]: "common (rewriteRefs a b s) = common s"
  by (simp add: rewriteRefs_remap)

lemma scrub_no_refs: "i \<notin> set (step_refs s) \<Longrightarrow> step_refs (scrubStep i s) = step_refs s"
proof (cases s)
  case (Decision c branches)
  assume "i \<notin> set (step_refs s)"
  then have "filter (\<lambda>(_, t). t \<noteq> i) branches = branches" using Decision by (force intro!: filter_True)
  then show ?thesis using Decision by simp
next
  case (ParallelGateway c targets join)
  assume "i \<notin> set (step_refs s)"
  then have "filter (\<lambda>t. t \<noteq> i) targets = targets" using ParallelGateway by (auto intro!: filter_True)
  then show ?thesis using ParallelGateway \<open>i \<notin> set (step_refs s)\<close> by (auto simp: scrub_id_def)
qed (auto simp: boundary_refs_scrub scrub_id_def filter_id_conv split: option.splits)

lemma set_map_remap: "i \<noteq> r \<Longrightarrow> i \<notin> set (map (remap i r) xs)"
  by (auto simp: remap_def split: if_splits)

text \<open>The references of the steps that stay when \<open>i\<close> goes.\<close>

definition refs_of_others :: "step_id \<Rightarrow> workflow_definition \<Rightarrow> step_id list" where
  "refs_of_others i d = concat (map step_refs (filter (\<lambda>s. step_id s \<noteq> i) (steps d)))"

lemma replaced_steps:
  "steps (defn (deleteStep i rep (st\<lparr>defn := (defn st)\<lparr>steps := map (rewriteRefs i r) (steps (defn st))\<rparr>, dirty := True\<rparr>))) =
   map (\<lambda>s. scrubStep i (rewriteRefs i r s)) (filter (\<lambda>s. step_id s \<noteq> i) (steps (defn st)))"
  by (simp add: deleteStep_steps filter_map o_def)

lemma replaced_refs:
  assumes "i \<noteq> r"
  shows "concat (map step_refs (map (\<lambda>s. scrubStep i (rewriteRefs i r s)) ss)) =
    map (remap i r) (concat (map step_refs ss))"
proof -
  have "step_refs (scrubStep i (rewriteRefs i r s)) = map (remap i r) (step_refs s)" for s
    using scrub_no_refs [of i "rewriteRefs i r s"] set_map_remap [OF assms] by (simp add: step_refs_rewrite)
  then show ?thesis by (simp add: map_concat o_def)
qed

text \<open>Every reference names a step or is unset (the empty text).\<close>

definition refs_resolve :: "workflow_definition \<Rightarrow> bool" where
  "refs_resolve d \<longleftrightarrow> set (def_refs d) \<subseteq> insert '''' (set (step_ids d))"

lemma refs_of_others_subset: "set (refs_of_others i d) \<subseteq> set (def_refs d)"
  by (auto simp: refs_of_others_def def_refs_def)

lemma scrub_refs_subset:
  assumes "i \<noteq> ''''"
  shows "set (step_refs (scrubStep i s)) \<subseteq> insert '''' (set (step_refs s) - {i})"
proof -
  have "set (step_refs (scrubStep i s)) \<subseteq> insert '''' (set (step_refs s))"
    by (cases s) (auto simp: boundary_refs_scrub scrub_id_def split: option.splits)
  then show ?thesis using scrub_refs [OF assms, of s] by blast
qed

lemma delete_resolves:
  assumes "i \<noteq> ''''" and "refs_resolve (defn st)"
  shows "refs_resolve (defn (deleteStep i rep st))"
proof -
  have "set (def_refs (defn (deleteStep i rep st))) \<subseteq> insert '''' (set (def_refs (defn st)) - {i})"
    using scrub_refs_subset [OF assms(1)] by (fastforce simp: def_refs_def deleteStep_steps)
  also have "\<dots> \<subseteq> insert '''' (set (step_ids (defn st)) - {i})" using assms(2) by (auto simp: refs_resolve_def)
  also have "set (step_ids (defn st)) - {i} = set (step_ids (defn (deleteStep i rep st)))"
    by (auto simp: deleteStep_steps)
  finally show ?thesis by (simp add: refs_resolve_def)
qed

lemma replace_state:
  assumes "dd_stepId dlg = Some i" "i \<noteq> ''''" "dd_replacement dlg \<noteq> ''''"
  shows "handleReplaceAndDelete (dlg, st) =
    (dlg\<lparr>dd_stepId := None\<rparr>,
     deleteStep i None (st\<lparr>defn := (defn st)\<lparr>steps := map (rewriteRefs i (dd_replacement dlg)) (steps (defn st))\<rparr>, dirty := True\<rparr>))"
  using assms by (simp add: handleReplaceAndDelete_def Let_def)

lemma replaced_result:
  assumes "dd_stepId dlg = Some i" "i \<noteq> []" "dd_replacement dlg = r" "r \<noteq> []" "r \<noteq> i"
    "handleReplaceAndDelete (dlg, st) = (dlg', st')"
  shows "step_ids (defn st') = filter (\<lambda>j. j \<noteq> i) (step_ids (defn st)) \<and>
    def_refs (defn st') = map (remap i r) (refs_of_others i (defn st)) \<and> dirty st' \<and> layout st' = layout st"
proof -
  have st': "st' = deleteStep i None (st\<lparr>defn := (defn st)\<lparr>steps := map (rewriteRefs i r) (steps (defn st))\<rparr>, dirty := True\<rparr>)"
    using assms(6) replace_state [OF assms(1,2)] assms(3,4) by simp
  have "def_refs (defn st') = map (remap i r) (refs_of_others i (defn st))"
    unfolding st' def_refs_def replaced_steps refs_of_others_def using replaced_refs assms(5) by metis
  then show ?thesis by (simp add: st' deleteStep_ids deleteStep_view o_def)
qed

section \<open>Properties\<close>

text \<open>With the step itself as replacement nothing is rewritten and the deletion scrubs the references.\<close>

lemma rewriteRefs_self: "rewriteRefs i i s = s"
proof -
  have "rewrite_id i i = id" "rewrite_events i i ev = ev" for ev
    by (auto simp: fun_eq_iff rewrite_id_def rewrite_events_def map_idI option.map_ident_strong)
  then show ?thesis by (cases s) (simp_all add: map_idI split_def)
qed

lemma self_replaced:
  assumes "dd_stepId dlg = Some i" "i \<noteq> []" "dd_replacement dlg = i" "handleReplaceAndDelete (dlg, st) = (dlg', st')"
  shows "st' = deleteStep i None st"
proof -
  have "map (rewriteRefs i i) ss = ss" for ss by (simp add: rewriteRefs_self map_idI)
  then show ?thesis using assms replace_state [OF assms(1,2)] by (simp add: deleteStep_def Let_def)
qed

lemma deleted_references:
  assumes "i \<noteq> []" shows "findReferences (defn (deleteStep i rep st)) i = []"
proof -
  have "i \<notin> set (def_refs (defn (deleteStep i rep st)))"
    using scrub_refs [OF assms] by (auto simp: def_refs_def deleteStep_steps)
  then have "length (findReferences (defn (deleteStep i rep st)) i) = 0" by (simp add: findReferences_length count_list_0_iff)
  then show ?thesis by blast
qed

lemma replaced_resolve:
  assumes "def_refs d' = map (remap i r) (refs_of_others i d)" "step_ids d' = filter (\<lambda>j. j \<noteq> i) (step_ids d)"
    and "i \<noteq> []" "r \<noteq> []" "r \<noteq> i" "refs_resolve d"
  shows "refs_resolve d' = (r \<in> set (step_ids d) \<or> i \<notin> set (refs_of_others i d))"
proof -
  have others: "set (refs_of_others i d) \<subseteq> insert '''' (set (step_ids d))"
    using assms(6) refs_of_others_subset unfolding refs_resolve_def by blast
  have "refs_resolve d' \<longleftrightarrow> (\<forall>x \<in> set (refs_of_others i d). remap i r x \<in> insert '''' (set (step_ids d) - {i}))"
    unfolding refs_resolve_def assms(1,2) by auto
  also have "\<dots> \<longleftrightarrow> (i \<in> set (refs_of_others i d) \<longrightarrow> r \<in> set (step_ids d))"
    using others assms(3-5) by (auto simp: remap_def split: if_splits)
  finally show ?thesis by blast
qed

text \<open>C13. Replacing and deleting is exact. Without a step or a replacement it does nothing. Otherwise the step is gone and
  no other step appears or disappears, no reference to it is left, the positions stay, and the dialog announced exactly
  as many references as there were. With a replacement that is another id, the references of the remaining steps are
  the old ones, in order, with every reference to the deleted step redirected and none dropped; when all references
  resolved before, they resolve afterwards exactly if the replacement is a step of the definition or no remaining step
  referred to the deleted one. With the deleted step itself as replacement, a choice the dialog may still hold from
  before, nothing is redirected: it is the plain deletion, which drops or empties the references.\<close>

theorem replace_and_delete_exact:
  assumes "handleReplaceAndDelete (dlg, st) = (dlg', st')"
  shows "if \<not> truthy (dd_stepId dlg) \<or> dd_replacement dlg = '''' then dlg' = dlg \<and> st' = st
    else \<exists>i r. dd_stepId dlg = Some i \<and> dd_replacement dlg = r \<and> dlg' = dlg\<lparr>dd_stepId := None\<rparr> \<and>
      step_ids (defn st') = filter (\<lambda>j. j \<noteq> i) (step_ids (defn st)) \<and>
      length (findReferences (defn st) i) = count_list (def_refs (defn st)) i \<and>
      findReferences (defn st') i = [] \<and> dirty st' \<and> layout st' = layout st \<and>
      (if r = i then st' = deleteStep i None st
       else def_refs (defn st') = map (remap i r) (refs_of_others i (defn st)) \<and>
         (refs_resolve (defn st) \<longrightarrow>
            refs_resolve (defn st') = (r \<in> set (step_ids (defn st)) \<or> i \<notin> set (refs_of_others i (defn st)))))"
proof (cases "\<not> truthy (dd_stepId dlg) \<or> dd_replacement dlg = ''''")
  case True
  then show ?thesis using assms by (auto simp: handleReplaceAndDelete_def)
next
  case False
  then obtain i where i: "dd_stepId dlg = Some i" "i \<noteq> []" and r: "dd_replacement dlg \<noteq> []"
    by (cases "dd_stepId dlg") auto
  have dlg': "dlg' = dlg\<lparr>dd_stepId := None\<rparr>" using assms replace_state [OF i r] by simp
  show ?thesis
  proof (cases "dd_replacement dlg = i")
    case True
    note st' = self_replaced [OF i True assms]
    show ?thesis using False i True dlg' unfolding st'
      by (simp add: findReferences_length deleted_references deleteStep_ids deleteStep_view)
  next
    case other: False
    note result = replaced_result [OF i refl r other assms]
    have "length (findReferences (defn st') i) = 0"
      using set_map_remap [of i "dd_replacement dlg"] other result by (metis count_list_0_iff findReferences_length)
    then have "findReferences (defn st') i = []" by blast
    then show ?thesis
      using False i other dlg' result replaced_resolve [OF _ _ i(2) r other] by (simp add: findReferences_length)
  qed
qed

text \<open>Four steps: the first two wait for the third, the third for the fourth.\<close>

definition waiting :: "step_id \<Rightarrow> step_id \<Rightarrow> step" where
  "waiting i j = Wait \<lparr>c_id = i, c_name = i, c_description = None, c_extra = []\<rparr> j None"

definition sample_deletion :: workflow_state where
  "sample_deletion = initialState\<lparr>defn := emptyDefinition\<lparr>steps :=
     [waiting ''a'' ''x'', waiting ''b'' ''y'', waiting ''x'' ''r'', waiting ''y'' ''r'', waiting ''r'' '''']\<rparr>\<rparr>"

lemmas sample_deletion_simps = sample_deletion_def waiting_def emptyDefinition_def initialState_def

lemma sample_resolves: "refs_resolve (defn sample_deletion)"
  by (simp add: sample_deletion_simps refs_resolve_def def_refs_def boundary_refs_def)

theorem replace_and_delete_exact_witness:
  "\<exists>st'. handleReplaceAndDelete (\<lparr>dd_stepId = Some ''x'', dd_replacement = ''y''\<rparr>, sample_deletion) =
      (\<lparr>dd_stepId = None, dd_replacement = ''y''\<rparr>, st') \<and>
    def_refs (defn st') = [''y'', ''y'', ''r'', ''''] \<and> refs_resolve (defn st')"
proof -
  let ?dlg = "\<lparr>dd_stepId = Some ''x'', dd_replacement = ''y''\<rparr>"
  obtain st' where st': "handleReplaceAndDelete (?dlg, sample_deletion) = (\<lparr>dd_stepId = None, dd_replacement = ''y''\<rparr>, st')"
    by (simp add: handleReplaceAndDelete_def Let_def)
  have others: "refs_of_others ''x'' (defn sample_deletion) = [''x'', ''y'', ''r'', '''']"
    by (simp add: refs_of_others_def sample_deletion_simps boundary_refs_def)
  have "''y'' \<in> set (step_ids (defn sample_deletion))" by (simp add: sample_deletion_simps)
  then have "def_refs (defn st') = [''y'', ''y'', ''r'', ''''] \<and> refs_resolve (defn st')"
    using replace_and_delete_exact [OF st'] sample_resolves by (simp add: others remap_def)
  with st' show ?thesis by blast
qed

text \<open>Closing the dialog keeps the replacement. A replacement chosen earlier stays preselected, also when
  its step has been deleted since: there is a session over a definition whose references resolve in which
  the button for replacing leaves references to a step that no longer exists.\<close>

theorem stale_replacement_dangles:
  "\<exists>dlg st. refs_resolve (defn sample_deletion) \<and> delete_session sample_deletion (dlg, st) \<and>
     \<not> refs_resolve (defn st) \<and> ''y'' \<in> set (def_refs (defn st)) \<and> ''y'' \<notin> set (step_ids (defn st))"
proof -
  let ?S = "delete_session sample_deletion"
  define d1 where "d1 = \<lparr>dd_stepId = Some ''x'', dd_replacement = ''''\<rparr>"
  define st2 where "st2 = deleteStep ''y'' None sample_deletion"
  define d3 where "d3 = \<lparr>dd_stepId = Some ''x'', dd_replacement = ''y''\<rparr>"
  have hits: "findReferences (defn sample_deletion) ''x'' \<noteq> []" "findReferences (defn st2) ''x'' \<noteq> []"
    by (simp_all add: findReferences_def st2_def deleteStep_steps sample_deletion_simps next_hit_def boundary_hits_def
        scrub_id_def scrub_events_def)
  have "?S (d1, sample_deletion)"
    using request [OF start, of "''x''"] by (simp add: closed_dialog_def d1_def sample_deletion_simps)
  from pick [OF this, of "''y''"] hits(1) have "?S (d3, sample_deletion)"
    by (simp add: offers_replacement_def d1_def d3_def picker_values_def sample_deletion_simps)
  from request [OF cancel [OF this], of "''y''"]
  have "?S (\<lparr>dd_stepId = Some ''y'', dd_replacement = ''y''\<rparr>, sample_deletion)"
    by (simp add: d3_def sample_deletion_simps)
  from delete [OF this] have "?S (\<lparr>dd_stepId = None, dd_replacement = ''y''\<rparr>, st2)"
    by (simp add: handleDeleteOnly_def st2_def)
  from request [OF this, of "''x''"] have "?S (d3, st2)"
    by (simp add: d3_def st2_def deleteStep_steps sample_deletion_simps)
  from replace [OF this] hits(2) have run: "?S (handleReplaceAndDelete (d3, st2))"
    by (simp add: offers_replacement_def d3_def)
  obtain dlg st where st: "handleReplaceAndDelete (d3, st2) = (dlg, st)" by fastforce
  have "step_ids (defn st) = [''a'', ''b'', ''r''] \<and> def_refs (defn st) = [''y'', '''', '''']"
    using replaced_result [of d3 "''x''" "''y''", OF _ _ _ _ _ st]
    by (simp add: d3_def st2_def deleteStep_steps refs_of_others_def sample_deletion_simps boundary_refs_def remap_def
        scrub_id_def scrub_events_def)
  then show ?thesis using run st sample_resolves unfolding refs_resolve_def by fastforce
qed

text \<open>The same way the dialog can hold the step it is open for: the button for replacing then empties the reference it
  announced instead of redirecting it.\<close>

theorem stale_replacement_scrubs:
  "\<exists>dlg st. delete_session sample_deletion (dlg, st) \<and> dd_stepId dlg = Some ''y'' \<and> dd_replacement dlg = ''y'' \<and>
     offers_replacement dlg st \<and> def_refs (defn (snd (handleReplaceAndDelete (dlg, st)))) = [''x'', '''', ''r'', '''']"
proof -
  let ?S = "delete_session sample_deletion" and ?d = "\<lparr>dd_stepId = Some ''y'', dd_replacement = ''y''\<rparr>"
  have hits: "findReferences (defn sample_deletion) ''x'' \<noteq> []" "findReferences (defn sample_deletion) ''y'' \<noteq> []"
    by (simp_all add: findReferences_def sample_deletion_simps next_hit_def boundary_hits_def)
  have "?S (\<lparr>dd_stepId = Some ''x'', dd_replacement = ''''\<rparr>, sample_deletion)"
    using request [OF start, of "''x''"] by (simp add: closed_dialog_def sample_deletion_simps)
  from pick [OF this, of "''y''"] hits(1) have "?S (\<lparr>dd_stepId = Some ''x'', dd_replacement = ''y''\<rparr>, sample_deletion)"
    by (simp add: offers_replacement_def picker_values_def sample_deletion_simps)
  from request [OF cancel [OF this], of "''y''"] have "?S (?d, sample_deletion)" by (simp add: sample_deletion_simps)
  moreover have "snd (handleReplaceAndDelete (?d, sample_deletion)) = deleteStep ''y'' None sample_deletion"
    by (rule self_replaced [of ?d]) (simp_all add: prod_eq_iff replace_state)
  then have "def_refs (defn (snd (handleReplaceAndDelete (?d, sample_deletion)))) = [''x'', '''', ''r'', '''']"
    by (simp add: def_refs_def deleteStep_steps sample_deletion_simps boundary_refs_def scrub_id_def scrub_events_def)
  ultimately show ?thesis using hits(2) by (intro exI [of _ ?d] exI [of _ sample_deletion]) (simp add: offers_replacement_def)
qed

end
