(* ===== verification/Modal_Dialogs.thy ===== *)
theory Modal_Dialogs
  imports Prelude
begin

text \<open>
  \<^verbatim>\<open>workflow-modeller/src/panels/useDialogs.tsx\<close>: the prompt and confirmation dialogs of the editor. A call
  of \<^verbatim>\<open>show\<close> returns a promise; the model numbers the promises in the order of the calls and logs the value
  each is resolved with (\<open>None\<close> is \<^verbatim>\<open>null\<close>). \<^verbatim>\<open>validate\<close> is a component of a request: a function from the
  text to an error, \<^verbatim>\<open>undefined\<close> or the empty text when there is none. Calls of \<^verbatim>\<open>show\<close> after the unmounting are
  not excluded and are treated like any other, although no dialog appears on the screen then.
\<close>

section \<open>The hook\<close>

datatype dialog_kind = Prompt | Confirm

record dialog_request =
  rq_kind :: dialog_kind
  rq_message :: string
  rq_initialValue :: "string option"
  rq_validate :: "(string \<Rightarrow> string option) option"

text \<open>\<^verbatim>\<open>AppDialog\<close> exists while a request is shown; its state starts from the request.\<close>

record app_dialog =
  ad_value :: string
  ad_error :: "string option"

record dialogs =
  dg_request :: "(dialog_request \<times> app_dialog) option"
  dg_pending :: "nat option"
  dg_calls :: "dialog_request list"
  dg_answers :: "(nat \<times> string option) list"

definition no_dialogs :: dialogs where
  "no_dialogs = \<lparr>dg_request = None, dg_pending = None, dg_calls = [], dg_answers = []\<rparr>"

definition open_app_dialog :: "dialog_request \<Rightarrow> app_dialog" where
  "open_app_dialog rq =
     \<lparr>ad_value = (case rq_initialValue rq of Some v \<Rightarrow> v | None \<Rightarrow> ''''), ad_error = None\<rparr>"

definition finish :: "string option \<Rightarrow> dialogs \<Rightarrow> dialogs" where
  "finish value g =
     g\<lparr>dg_answers := (case dg_pending g of Some n \<Rightarrow> dg_answers g @ [(n, value)] | None \<Rightarrow> dg_answers g),
       dg_pending := None, dg_request := None\<rparr>"

text \<open>The clean-up of the effect: the component is gone, so nothing is shown any more.\<close>

definition unmount :: "dialogs \<Rightarrow> dialogs" where
  "unmount g =
     g\<lparr>dg_answers := (case dg_pending g of Some n \<Rightarrow> dg_answers g @ [(n, None)] | None \<Rightarrow> dg_answers g),
       dg_pending := None, dg_request := None\<rparr>"

text \<open>\<^verbatim>\<open>show\<close>: the number of the promise it returns and the state after it.\<close>

definition show_dialog :: "dialog_request \<Rightarrow> dialogs \<Rightarrow> nat \<times> dialogs" where
  "show_dialog rq g =
     (let n = length (dg_calls g); g' = g\<lparr>dg_calls := dg_calls g @ [rq]\<rparr>
      in (n, case dg_pending g of
               Some _ \<Rightarrow> g'\<lparr>dg_answers := dg_answers g @ [(n, None)]\<rparr>
             | None \<Rightarrow> g'\<lparr>dg_pending := Some n, dg_request := Some (rq, open_app_dialog rq)\<rparr>))"

definition prompt :: "string \<Rightarrow> string option \<Rightarrow> (string \<Rightarrow> string option) option \<Rightarrow> dialogs \<Rightarrow> nat \<times> dialogs" where
  "prompt message initialValue validate =
     show_dialog \<lparr>rq_kind = Prompt, rq_message = message, rq_initialValue = initialValue, rq_validate = validate\<rparr>"

text \<open>\<^verbatim>\<open>confirm\<close> shows a request and compares the value its promise is resolved with with \<^verbatim>\<open>null\<close>.\<close>

definition confirm_request :: "string \<Rightarrow> dialog_request" where
  "confirm_request message = \<lparr>rq_kind = Confirm, rq_message = message, rq_initialValue = None, rq_validate = None\<rparr>"

definition confirm :: "string \<Rightarrow> dialogs \<Rightarrow> nat \<times> dialogs" where
  "confirm message = show_dialog (confirm_request message)"

definition confirmed :: "string option \<Rightarrow> bool" where
  "confirmed answer \<longleftrightarrow> answer \<noteq> None"

section \<open>The shown dialog\<close>

definition change_value :: "string \<Rightarrow> dialogs \<Rightarrow> dialogs" where
  "change_value v g =
     (case dg_request g of
        Some (rq, dlg) \<Rightarrow> g\<lparr>dg_request := Some (rq, dlg\<lparr>ad_value := v, ad_error := None\<rparr>)\<rparr>
      | None \<Rightarrow> g)"

definition submit_disabled :: "dialog_request \<Rightarrow> app_dialog \<Rightarrow> bool" where
  "submit_disabled rq dlg \<longleftrightarrow> rq_kind rq = Prompt \<and> trim (ad_value dlg) = ''''"

text \<open>The handler of \<^verbatim>\<open>onSubmit\<close>. A disabled submit button also keeps the form from being submitted by the
  return key.\<close>

definition submit_dialog :: "dialogs \<Rightarrow> dialogs" where
  "submit_dialog g =
     (case dg_request g of
        Some (rq, dlg) \<Rightarrow>
          if submit_disabled rq dlg then g
          else
            let error = (case rq_validate rq of Some validate \<Rightarrow> validate (ad_value dlg) | None \<Rightarrow> None)
            in if truthy error then g\<lparr>dg_request := Some (rq, dlg\<lparr>ad_error := error\<rparr>)\<rparr>
               else finish (Some (ad_value dlg)) g
      | None \<Rightarrow> g)"

definition cancel_dialog :: "dialogs \<Rightarrow> dialogs" where
  "cancel_dialog g = (case dg_request g of Some _ \<Rightarrow> finish None g | None \<Rightarrow> g)"

text \<open>Only a prompt has an input.\<close>

inductive dialog_step :: "dialogs \<Rightarrow> dialogs \<Rightarrow> bool" where
  show_step: "dialog_step g (snd (show_dialog rq g))"
| type_step: "dg_request g = Some (rq, dlg) \<Longrightarrow> rq_kind rq = Prompt \<Longrightarrow> dialog_step g (change_value v g)"
| submit_step: "dialog_step g (submit_dialog g)"
| cancel_step: "dialog_step g (cancel_dialog g)"
| unmount_step: "dialog_step g (unmount g)"

section \<open>Invariant\<close>

text \<open>What a caller may conclude from the value of the promise of a request.\<close>

definition answer_ok :: "dialog_request \<Rightarrow> string option \<Rightarrow> bool" where
  "answer_ok rq answer \<longleftrightarrow>
     (case answer of
        None \<Rightarrow> True
      | Some v \<Rightarrow>
          (rq_kind rq = Prompt \<longrightarrow> trim v \<noteq> '''') \<and>
          \<not> truthy (case rq_validate rq of Some validate \<Rightarrow> validate v | None \<Rightarrow> None))"

definition dialogs_inv :: "dialogs \<Rightarrow> bool" where
  "dialogs_inv g \<longleftrightarrow>
     distinct (map fst (dg_answers g)) \<and>
     {..< length (dg_calls g)} = set (map fst (dg_answers g)) \<union> set_option (dg_pending g) \<and>
     (\<forall>n \<in> set_option (dg_pending g). n \<notin> set (map fst (dg_answers g))) \<and>
     map_option fst (dg_request g) = map_option (\<lambda>n. dg_calls g ! n) (dg_pending g) \<and>
     (\<forall>(n, a) \<in> set (dg_answers g). answer_ok (dg_calls g ! n) a)"

lemma dialogs_inv_start: "dialogs_inv no_dialogs"
  by (simp add: dialogs_inv_def no_dialogs_def)



lemma dialogs_inv_answer:
  assumes "dialogs_inv g" and "\<And>n. dg_pending g = Some n \<Longrightarrow> answer_ok (dg_calls g ! n) a"
  shows "dialogs_inv (finish a g)"
  using assms by (cases "dg_pending g") (auto simp: dialogs_inv_def finish_def)

lemma unmount_finish: "unmount g = finish None g"
  by (simp add: unmount_def finish_def)

lemma answer_ok_None [simp]: "answer_ok rq None"
  by (simp add: answer_ok_def)

lemma dialogs_inv_show:
  assumes "dialogs_inv g" shows "dialogs_inv (snd (show_dialog rq g))"
proof -
  have old: "n < length (dg_calls g)" if "n \<in> set (map fst (dg_answers g)) \<union> set_option (dg_pending g)" for n
    using assms that unfolding dialogs_inv_def by blast
  have keep: "(dg_calls g @ [rq]) ! n = dg_calls g ! n" if "n \<in> set (map fst (dg_answers g)) \<union> set_option (dg_pending g)" for n
    using old [OF that] by (simp add: nth_append)
  have new: "length (dg_calls g) \<notin> set (map fst (dg_answers g)) \<union> set_option (dg_pending g)"
    using old by blast
  have answers: "\<forall>(n, a) \<in> set (dg_answers g). answer_ok ((dg_calls g @ [rq]) ! n) a"
    using assms keep unfolding dialogs_inv_def by fastforce
  show ?thesis
  proof (cases "dg_pending g")
    case None
    then show ?thesis
      using assms new answers
      by (simp add: dialogs_inv_def show_dialog_def Let_def lessThan_Suc open_app_dialog_def)
  next
    case (Some m)
    then have "(dg_calls g @ [rq]) ! m = dg_calls g ! m" using keep by simp
    then show ?thesis
      using assms new answers Some
      by (simp add: dialogs_inv_def show_dialog_def Let_def lessThan_Suc insert_commute)
  qed
qed

lemma dialogs_inv_update:
  assumes "dialogs_inv g" "dg_request g = Some (rq, dlg)"
  shows "dialogs_inv (g\<lparr>dg_request := Some (rq, dlg')\<rparr>)"
  using assms by (simp add: dialogs_inv_def)

lemma dialogs_inv_submit:
  assumes "dialogs_inv g" shows "dialogs_inv (submit_dialog g)"
proof (cases "dg_request g")
  case (Some r)
  obtain rq dlg where r: "r = (rq, dlg)" by fastforce
  then obtain n where n: "dg_pending g = Some n" "dg_calls g ! n = rq"
    using assms Some by (cases "dg_pending g") (auto simp: dialogs_inv_def)
  show ?thesis
    using assms Some r dialogs_inv_update [OF assms Some [unfolded r]] dialogs_inv_answer [OF assms, of "Some (ad_value dlg)"] n
    by (simp add: submit_dialog_def Let_def answer_ok_def submit_disabled_def)
qed (use assms in \<open>simp add: submit_dialog_def\<close>)

lemma dialogs_inv_step: "dialog_step g g' \<Longrightarrow> dialogs_inv g \<Longrightarrow> dialogs_inv g'"
proof (induction rule: dialog_step.induct)
  case (type_step g rq dlg v)
  then show ?case using dialogs_inv_update by (simp add: change_value_def)
next
  case (cancel_step g)
  then show ?case using dialogs_inv_answer [of g None] by (simp add: cancel_dialog_def split: option.split)
next
  case (unmount_step g)
  then show ?case using dialogs_inv_answer [of g None] by (simp add: unmount_finish)
qed (simp_all add: dialogs_inv_show dialogs_inv_submit)

lemma dialogs_reachable: "dialog_step\<^sup>*\<^sup>* no_dialogs g \<Longrightarrow> dialogs_inv g"
  by (induction rule: rtranclp_induct) (auto intro: dialogs_inv_start dialogs_inv_step)

section \<open>Properties\<close>

text \<open>C15. Every dialog is answered once: in every reachable state each promise is resolved at most once, all
  but the one of the dialog on the screen are resolved, and a dialog is on the screen exactly while a promise
  is open. A value other than \<^verbatim>\<open>null\<close> passed the validation of its own request and, for a prompt, is not
  blank. Cancelling resolves the open promise with \<^verbatim>\<open>null\<close>, so no caller can wait for ever, and a request
  made while a dialog is on the screen is declined at once.\<close>

theorem dialogs_answer_once:
  assumes "dialog_step\<^sup>*\<^sup>* no_dialogs g"
  shows "distinct (map fst (dg_answers g)) \<and>
    {..< length (dg_calls g)} - set (map fst (dg_answers g)) = set_option (dg_pending g) \<and>
    (dg_request g = None \<longleftrightarrow> dg_pending g = None) \<and>
    (\<forall>(n, a) \<in> set (dg_answers g). answer_ok (dg_calls g ! n) a) \<and>
    {..< length (dg_calls g)} = set (map fst (dg_answers (cancel_dialog g))) \<and>
    (dg_pending g \<noteq> None \<longrightarrow> (case show_dialog rq g of (n, g') \<Rightarrow> (n, None) \<in> set (dg_answers g') \<and> dg_request g' = dg_request g))"
proof -
  have inv: "dialogs_inv g" using assms by (rule dialogs_reachable)
  then have "{..< length (dg_calls g)} - set (map fst (dg_answers g)) = set_option (dg_pending g)"
    unfolding dialogs_inv_def by blast
  moreover have req: "dg_request g = None \<longleftrightarrow> dg_pending g = None"
    using inv unfolding dialogs_inv_def by (metis option.map_disc_iff)
  moreover have "{..< length (dg_calls g)} = set (map fst (dg_answers (cancel_dialog g)))"
  proof (cases "dg_pending g")
    case None
    with inv req show ?thesis by (simp add: cancel_dialog_def dialogs_inv_def)
  next
    case (Some n)
    moreover obtain r where "dg_request g = Some r" using req Some by fastforce
    ultimately show ?thesis using inv by (simp add: cancel_dialog_def finish_def dialogs_inv_def)
  qed
  moreover have "distinct (map fst (dg_answers g))" "\<forall>(n, a) \<in> set (dg_answers g). answer_ok (dg_calls g ! n) a"
    using inv unfolding dialogs_inv_def by blast+
  moreover have "dg_pending g \<noteq> None \<longrightarrow> (case show_dialog rq g of (n, g') \<Rightarrow> (n, None) \<in> set (dg_answers g') \<and> dg_request g' = dg_request g)"
    by (auto simp: show_dialog_def Let_def)
  ultimately show ?thesis by blast
qed

theorem dialogs_answer_once_witness:
  "{..< 1} = set (map fst (dg_answers (cancel_dialog (snd (confirm ''Sure?'' no_dialogs)))))"
proof -
  have "dialog_step\<^sup>*\<^sup>* no_dialogs (snd (confirm ''Sure?'' no_dialogs))"
    unfolding confirm_def by (intro r_into_rtranclp show_step)
  moreover have "length (dg_calls (snd (confirm ''Sure?'' no_dialogs))) = 1"
    by (simp add: confirm_def show_dialog_def Let_def no_dialogs_def)
  ultimately show ?thesis using dialogs_answer_once by metis
qed

end
