(* ===== verification/Editor_Panels.thy ===== *)
theory Editor_Panels
  imports Store_Properties Modal_Dialogs
begin

text \<open>
  The panels of the modeller around the canvas: \<^verbatim>\<open>panels/Toolbar.tsx\<close>, \<^verbatim>\<open>DraftsDialog.tsx\<close>, \<^verbatim>\<open>SettingsDialog.tsx\<close>,
  \<^verbatim>\<open>ImportDialog.tsx\<close>, \<^verbatim>\<open>ExportDialog.tsx\<close>, \<^verbatim>\<open>ValidationPanel.tsx\<close>, \<^verbatim>\<open>PropertyPanel.tsx\<close>, \<^verbatim>\<open>Banner.tsx\<close> and what \<^verbatim>\<open>App.tsx\<close>
  makes of their messages. A handler is a function of the component's state and of the store; the part of an
  asynchronous handler after an \<^verbatim>\<open>await\<close> takes the awaited value as an argument.
\<close>

section \<open>Messages\<close>

datatype tone = ToneInfo | ToneWarning | ToneError

record banner =
  bn_tone :: tone
  bn_messages :: "string list"
  bn_floating :: bool
  bn_autoDismissMs :: "nat option"

text \<open>\<^verbatim>\<open>App.tsx\<close>: the banner after the callbacks of the panels.\<close>

definition onUploadResult :: "bool \<Rightarrow> string \<Rightarrow> banner" where
  "onUploadResult ok message =
     \<lparr>bn_tone = (if ok then ToneInfo else ToneError), bn_messages = [message], bn_floating = False,
      bn_autoDismissMs = None\<rparr>"

definition onImported :: "string list \<Rightarrow> banner option" where
  "onImported warnings =
     (if length warnings > 0
      then Some \<lparr>bn_tone = ToneWarning, bn_messages = warnings, bn_floating = False, bn_autoDismissMs = None\<rparr>
      else None)"

definition onImportError :: "string list \<Rightarrow> banner" where
  "onImportError errs = \<lparr>bn_tone = ToneError, bn_messages = errs, bn_floating = False, bn_autoDismissMs = None\<rparr>"

definition onLoaded :: banner where
  "onLoaded = \<lparr>bn_tone = ToneInfo, bn_messages = [''Loaded definition from engine.''], bn_floating = True,
     bn_autoDismissMs = Some 3000\<rparr>"

definition onDraftMessage :: "tone \<Rightarrow> string \<Rightarrow> banner" where
  "onDraftMessage t txt =
     \<lparr>bn_tone = t, bn_messages = [txt], bn_floating = (t = ToneInfo),
      bn_autoDismissMs = (if t = ToneInfo then Some 3000 else None)\<rparr>"

text \<open>\<^verbatim>\<open>Banner.tsx\<close>: whether something is shown, and the delay of the timer the effect starts.\<close>

definition banner_shown :: "banner \<Rightarrow> bool" where
  "banner_shown b \<longleftrightarrow> length (bn_messages b) \<noteq> 0"

definition banner_timer :: "banner \<Rightarrow> nat option" where
  "banner_timer b =
     (case bn_autoDismissMs b of
        Some ms \<Rightarrow> if ms = 0 \<or> length (bn_messages b) = 0 then None else Some ms
      | None \<Rightarrow> None)"

text \<open>The width of the inspector while its border is dragged.\<close>

definition resize_inspector :: "int \<Rightarrow> int \<Rightarrow> int \<Rightarrow> int" where
  "resize_inspector startX startWidth clientX = max 200 (startWidth + (startX - clientX))"

section \<open>Toolbar\<close>

record key_event =
  ke_metaKey :: bool
  ke_ctrlKey :: bool
  ke_altKey :: bool
  ke_shiftKey :: bool
  ke_key :: string
  ke_inTextField :: bool

datatype history_action = Undo | Redo

text \<open>The keyboard handler; \<open>dialogOpen\<close> is \<^verbatim>\<open>document.querySelector('dialog[open]')\<close>.\<close>

definition handleHistory :: "bool \<Rightarrow> key_event \<Rightarrow> history_action option" where
  "handleHistory dialogOpen e =
     (if \<not> (ke_metaKey e \<or> ke_ctrlKey e) \<or> ke_altKey e \<or> map lower_char (ke_key e) \<noteq> ''z'' then None
      else if ke_inTextField e then None
      else if dialogOpen then None
      else Some (if ke_shiftKey e then Redo else Undo))"

definition blocksExport :: "workflow_state \<Rightarrow> bool" where
  "blocksExport st \<longleftrightarrow> vs_errors (useValidationSummary st) > 0"

text \<open>\<open>dash\<close> is the dash of the message, a character outside Latin-1.\<close>

definition blockedTitle :: "string \<Rightarrow> (diagnostic_code \<Rightarrow> string) \<Rightarrow> workflow_state \<Rightarrow> string option" where
  "blockedTitle dash code_text st =
     (if blocksExport st
      then Some (''Fix '' @ nat_str (vs_errors (useValidationSummary st)) @ '' validation error(s) before exporting'' @
        (case find (\<lambda>d. severity d = Error) (vs_diagnostics (useValidationSummary st)) of
           Some d \<Rightarrow> '' '' @ dash @ '' first: '' @ code_text (code d)
         | None \<Rightarrow> ''''))
      else None)"

datatype toolbar_wait = WaitNew nat | WaitUpload nat

text \<open>The toolbar with its dialogs: the continuation that awaits a promise, \<^verbatim>\<open>uploading\<close>, the requests under
  way and the banner of the last result.\<close>

record toolbar =
  tb_dialogs :: dialogs
  tb_wait :: "toolbar_wait option"
  tb_uploading :: bool
  tb_requests :: "workflow_definition list"
  tb_banner :: "banner option"

definition fresh_toolbar :: toolbar where
  "fresh_toolbar = \<lparr>tb_dialogs = no_dialogs, tb_wait = None, tb_uploading = False, tb_requests = [], tb_banner = None\<rparr>"

definition discard_message :: "workflow_state \<Rightarrow> string" where
  "discard_message st =
     (if dirty st then ''You have unsaved changes. Discard them and start a new workflow?''
      else ''Clear the current workflow and start fresh?'')"

text \<open>Up to the \<^verbatim>\<open>await\<close>; a declined dialog resolves at once with \<^verbatim>\<open>null\<close>, and the handler returns.\<close>

definition handleNewWorkflow :: "toolbar \<times> workflow_state \<Rightarrow> toolbar \<times> workflow_state" where
  "handleNewWorkflow = (\<lambda>(tb, st).
     if steps (defn st) = [] \<and> \<not> dirty st then (tb, newWorkflow st)
     else
       let (n, g) = confirm (discard_message st) (tb_dialogs tb)
       in (tb\<lparr>tb_dialogs := g, tb_wait := (if dg_pending g = Some n then Some (WaitNew n) else tb_wait tb)\<rparr>, st))"

definition handleUpload :: "toolbar \<times> workflow_state \<Rightarrow> toolbar \<times> workflow_state" where
  "handleUpload = (\<lambda>(tb, st).
     if tb_uploading tb then (tb, st)
     else
       let (n, g) = confirm (''Upload current definition to '' @ ec_baseUrl (engine st) @ ''?'') (tb_dialogs tb)
       in (tb\<lparr>tb_dialogs := g, tb_wait := (if dg_pending g = Some n then Some (WaitUpload n) else tb_wait tb)\<rparr>, st))"

text \<open>After the dialog: the promise the toolbar waits for has its value.\<close>

definition resume :: "toolbar \<times> workflow_state \<Rightarrow> toolbar \<times> workflow_state" where
  "resume = (\<lambda>(tb, st).
     case tb_wait tb of
       Some (WaitNew n) \<Rightarrow>
         (case map_of (dg_answers (tb_dialogs tb)) n of
            Some a \<Rightarrow> (tb\<lparr>tb_wait := None\<rparr>, if confirmed a then newWorkflow st else st)
          | None \<Rightarrow> (tb, st))
     | Some (WaitUpload n) \<Rightarrow>
         (case map_of (dg_answers (tb_dialogs tb)) n of
            Some a \<Rightarrow>
              (if confirmed a
               then (tb\<lparr>tb_wait := None, tb_uploading := True, tb_requests := tb_requests tb @ [uploadRequest st]\<rparr>, st)
               else (tb\<lparr>tb_wait := None\<rparr>, st))
          | None \<Rightarrow> (tb, st))
     | None \<Rightarrow> (tb, st))"

text \<open>The answer to the upload. \<open>num_text\<close> is the text of a number; the message of a \<^verbatim>\<open>TypeError\<close> is an
  argument as well.\<close>

definition uploadSettled ::
  "(rat \<Rightarrow> string) \<Rightarrow> string \<Rightarrow> nat \<Rightarrow> engine_error + upload_summary option \<Rightarrow> toolbar \<times> workflow_state \<Rightarrow>
   toolbar \<times> workflow_state" where
  "uploadSettled num_text type_message now answer = (\<lambda>(tb, st).
     let (res, st') = uploadAnswer now answer st;
         shown = (case res of
            Inr version \<Rightarrow> onUploadResult True (''Uploaded as version '' @ num_text version @ ''.'')
          | Inl (EngineFailure e) \<Rightarrow> onUploadResult False (err_message e)
          | Inl TypeError \<Rightarrow> onUploadResult False type_message)
     in (tb\<lparr>tb_uploading := False, tb_requests := tl (tb_requests tb), tb_banner := Some shown\<rparr>, st'))"

text \<open>The buttons and the dialog. The upload button is disabled while \<^verbatim>\<open>blocksExport || uploading\<close>. The user's
  answer to the dialog and the continuation it wakes are one step, since no event comes between them.\<close>

inductive toolbar_step ::
  "(rat \<Rightarrow> string) \<Rightarrow> string \<Rightarrow> toolbar \<times> workflow_state \<Rightarrow> toolbar \<times> workflow_state \<Rightarrow> bool"
  for num_text type_message where
  new_workflow: "toolbar_step num_text type_message (tb, st) (handleNewWorkflow (tb, st))"
| upload: "\<not> blocksExport st \<Longrightarrow> \<not> tb_uploading tb \<Longrightarrow>
     toolbar_step num_text type_message (tb, st) (handleUpload (tb, st))"
| submit: "toolbar_step num_text type_message (tb, st)
     (resume (tb\<lparr>tb_dialogs := submit_dialog (tb_dialogs tb)\<rparr>, st))"
| cancel: "toolbar_step num_text type_message (tb, st)
     (resume (tb\<lparr>tb_dialogs := cancel_dialog (tb_dialogs tb)\<rparr>, st))"
| settled: "tb_requests tb \<noteq> [] \<Longrightarrow>
     toolbar_step num_text type_message (tb, st) (uploadSettled num_text type_message now answer (tb, st))"
| edit: "edit_step False st st' \<Longrightarrow> toolbar_step num_text type_message (tb, st) (tb, st')"

section \<open>Drafts\<close>

record drafts_dialog =
  dr_drafts :: "draft_summary list"
  dr_name :: string
  dr_error :: "string option"

definition open_drafts :: "stored_item \<Rightarrow> workflow_state \<Rightarrow> drafts_dialog" where
  "open_drafts item st = \<lparr>dr_drafts = listDrafts item, dr_name = def_name (defn st), dr_error = None\<rparr>"

definition atCap :: "drafts_dialog \<Rightarrow> bool" where
  "atCap dlg \<longleftrightarrow> length (dr_drafts dlg) \<ge> DRAFTS_LIMIT"

definition canSave :: "drafts_dialog \<Rightarrow> workflow_state \<Rightarrow> bool" where
  "canSave dlg st \<longleftrightarrow> trim (dr_name dlg) \<noteq> '''' \<and> \<not> atCap dlg \<and> length (steps (defn st)) > 0"

text \<open>\<^verbatim>\<open>[...drafts].sort((a, b) => b.savedAt - a.savedAt)\<close>: a stable sort, latest first.\<close>

definition sorted_drafts :: "drafts_dialog \<Rightarrow> draft_summary list" where
  "sorted_drafts dlg = sort_key (\<lambda>d. - int (sum_savedAt d)) (dr_drafts dlg)"

fun reasonMessage :: "save_failure \<Rightarrow> string" where
  "reasonMessage DRAFT_NAME_REQUIRED = ''Please enter a name for the draft.''"
| "reasonMessage CAP_REACHED =
     ''You already have '' @ nat_str DRAFTS_LIMIT @ '' drafts. Delete one before saving a new one.''"
| "reasonMessage STORAGE_FAILED = ''Could not save to local storage. It may be full or blocked.''"

definition handleSave ::
  "(draft list \<Rightarrow> bool) \<Rightarrow> string \<Rightarrow> nat \<Rightarrow> workflow_state \<Rightarrow> drafts_dialog \<times> stored_item \<Rightarrow>
   (tone \<times> string) \<times> drafts_dialog \<times> stored_item" where
  "handleSave accepts newId now st = (\<lambda>(dlg, item).
     case saveDraftAction accepts newId now (dr_name dlg) st item of
       (Inl reason, item') \<Rightarrow>
         ((ToneError, reasonMessage reason), dlg\<lparr>dr_error := Some (reasonMessage reason)\<rparr>, item')
     | (Inr draft, item') \<Rightarrow>
         ((ToneInfo, ''Draft \"'' @ draft_name draft @ ''\" saved.''),
          dlg\<lparr>dr_error := None, dr_drafts := listDrafts item'\<rparr>, item'))"

text \<open>After the confirmation, which is asked for only when the state is dirty. The last component says
  whether \<^verbatim>\<open>onClose\<close> is called.\<close>

definition handleRestore ::
  "bool \<Rightarrow> string \<Rightarrow> string \<Rightarrow> stored_item \<Rightarrow> drafts_dialog \<times> workflow_state \<Rightarrow>
   (tone \<times> string) option \<times> (drafts_dialog \<times> workflow_state) \<times> bool" where
  "handleRestore answer i name item = (\<lambda>(dlg, st).
     if dirty st \<and> \<not> answer then (None, (dlg, st), False)
     else
       case loadDraft i item st of
         (True, st') \<Rightarrow> (Some (ToneInfo, ''Restored draft \"'' @ name @ ''\".''), (dlg, st'), True)
       | (False, st') \<Rightarrow>
           (Some (ToneError, ''Draft not found (it may have been deleted).''),
            (dlg\<lparr>dr_drafts := listDrafts item\<rparr>, st'), False))"

definition handleDelete ::
  "(draft list \<Rightarrow> bool) \<Rightarrow> bool \<Rightarrow> string \<Rightarrow> drafts_dialog \<times> stored_item \<Rightarrow> drafts_dialog \<times> stored_item" where
  "handleDelete accepts answer i = (\<lambda>(dlg, item).
     if \<not> answer then (dlg, item)
     else
       let item' = deleteDraft accepts i item
       in (dlg\<lparr>dr_drafts := listDrafts item', dr_error := None\<rparr>, item'))"

section \<open>Settings\<close>

record settings_dialog =
  sd_baseUrl :: string
  sd_authHeader :: string
  sd_testing :: bool
  sd_result :: "connection_status option"

definition connection_of :: "settings_dialog \<Rightarrow> connection_patch" where
  "connection_of dlg =
     \<lparr>cp_baseUrl = Some (strip_slashes (sd_baseUrl dlg)), cp_authHeader = Some (sd_authHeader dlg),
      cp_status = None, cp_lastCheckedAt = None\<rparr>"

definition save_settings :: "settings_dialog \<times> workflow_state \<Rightarrow> settings_dialog \<times> workflow_state" where
  "save_settings = (\<lambda>(dlg, st). (dlg, setEngineConnection (connection_of dlg) st))"

definition test_settings :: "settings_dialog \<times> workflow_state \<Rightarrow> settings_dialog \<times> workflow_state" where
  "test_settings = (\<lambda>(dlg, st).
     (dlg\<lparr>sd_testing := True, sd_result := None\<rparr>, setEngineConnection (connection_of dlg) st))"

definition test_settled ::
  "nat \<Rightarrow> connection_status \<Rightarrow> settings_dialog \<times> workflow_state \<Rightarrow> settings_dialog \<times> workflow_state" where
  "test_settled now status = (\<lambda>(dlg, st).
     (dlg\<lparr>sd_result := Some status, sd_testing := False\<rparr>, testEngineConnection now status st))"

section \<open>Import and export\<close>

record import_dialog =
  im_text :: string
  im_fileName :: "string option"
  im_errors :: "string list"
  im_reading :: bool

definition handleOpenFile :: "import_dialog \<Rightarrow> import_dialog" where
  "handleOpenFile dlg = dlg\<lparr>im_reading := True, im_errors := []\<rparr>"

text \<open>The answer of the file picker: an error message, or a file unless it was cancelled.\<close>

definition file_opened :: "string + (string \<times> string) option \<Rightarrow> import_dialog \<Rightarrow> import_dialog" where
  "file_opened answer dlg =
     (case answer of
        Inl message \<Rightarrow> dlg\<lparr>im_errors := [message], im_reading := False\<rparr>
      | Inr None \<Rightarrow> dlg\<lparr>im_reading := False\<rparr>
      | Inr (Some (name, txt)) \<Rightarrow> dlg\<lparr>im_fileName := Some name, im_text := txt, im_reading := False\<rparr>)"

definition import_disabled :: "import_dialog \<Rightarrow> bool" where
  "import_disabled dlg \<longleftrightarrow> im_reading dlg \<or> length (trim (im_text dlg)) = 0"

text \<open>\<open>parse\<close> is \<^verbatim>\<open>importJson\<close> at the text of the dialog. The results are the banner, the dialog, the store and
  whether the dialog closes.\<close>

definition handleSubmit ::
  "(string \<Rightarrow> import_result) \<Rightarrow> import_dialog \<times> workflow_state \<Rightarrow>
   banner option \<times> (import_dialog \<times> workflow_state) \<times> bool" where
  "handleSubmit parse = (\<lambda>(dlg, st).
     case importFromJson (parse (im_text dlg)) (if truthy (im_fileName dlg) then im_fileName dlg else None) st of
       (Inl errs, st') \<Rightarrow> (Some (onImportError errs), (dlg\<lparr>im_errors := errs\<rparr>, st'), False)
     | (Inr warnings, st') \<Rightarrow>
         (onImported warnings, (dlg\<lparr>im_errors := [], im_text := '''', im_fileName := None\<rparr>, st'), True))"

definition slug_char :: "char \<Rightarrow> bool" where
  "slug_char c \<longleftrightarrow> (CHR ''a'' \<le> c \<and> c \<le> CHR ''z'') \<or> is_digit c"

text \<open>\<^verbatim>\<open>replace(/[^a-z0-9]+/g, '-')\<close>: every maximal run of other characters becomes one dash.\<close>

fun dash_runs :: "string \<Rightarrow> string" where
  "dash_runs [] = []"
| "dash_runs (c # cs) =
     (if slug_char c then c # dash_runs cs
      else (case cs of d # _ \<Rightarrow> if slug_char d then CHR ''-'' # dash_runs cs else dash_runs cs | [] \<Rightarrow> ''-''))"

definition strip_dashes :: "string \<Rightarrow> string" where
  "strip_dashes s = rev (dropWhile (\<lambda>c. c = CHR ''-'') (rev (dropWhile (\<lambda>c. c = CHR ''-'') s)))"

definition slug :: "string \<Rightarrow> string" where
  "slug s = (let t = strip_dashes (dash_runs (map lower_char s)) in if t = '''' then ''workflow'' else t)"

datatype save_result = Saved | DownloadStarted | SaveCancelled

definition save_message :: "save_result \<Rightarrow> string" where
  "save_message r = (case r of Saved \<Rightarrow> ''File saved.'' | DownloadStarted \<Rightarrow> ''Download started.'' | SaveCancelled \<Rightarrow> '''')"

definition export_fileName :: "workflow_state \<Rightarrow> string" where
  "export_fileName st = slug (def_name (defn st)) @ ''.json''"

section \<open>Validation panel\<close>

definition VISIBLE_LIMIT :: nat where
  "VISIBLE_LIMIT = 50"

text \<open>The rows of a group and the number of rows that are not shown.\<close>

definition renderGroup :: "diagnostic list \<Rightarrow> (diagnostic list \<times> nat) option" where
  "renderGroup items =
     (if items = [] then None
      else Some (take VISIBLE_LIMIT items, if length items > VISIBLE_LIMIT then length items - VISIBLE_LIMIT else 0))"

definition validation_groups ::
  "bool \<Rightarrow> workflow_state \<Rightarrow> (diagnostic list \<times> nat) option \<times> (diagnostic list \<times> nat) option" where
  "validation_groups collapsed st =
     (if collapsed then (None, None)
      else (renderGroup (filter (\<lambda>d. severity d = Error) (diagnostics (validation st))),
            renderGroup (filter (\<lambda>d. severity d = Warning) (diagnostics (validation st)))))"

definition passed_message :: "bool \<Rightarrow> workflow_state \<Rightarrow> bool" where
  "passed_message collapsed st \<longleftrightarrow>
     \<not> collapsed \<and> diagnostics (validation st) = [] \<and> lastRunAt (validation st) \<noteq> None"

definition focus_diagnostic :: "diagnostic \<Rightarrow> workflow_state \<Rightarrow> workflow_state" where
  "focus_diagnostic d st = (if truthy (nodeId d) then select (SelStep (the (nodeId d))) st else st)"

section \<open>Property panel\<close>

definition selected_step :: "workflow_state \<Rightarrow> step option" where
  "selected_step st =
     (case selection st of
        SelStep i \<Rightarrow> find (\<lambda>s. step_id s = i) (steps (defn st))
      | _ \<Rightarrow> None)"

definition no_patch :: definition_patch where
  "no_patch = \<lparr>pt_id = None, pt_version = None, pt_name = None, pt_description = None, pt_autoStart = None,
     pt_nextWorkflowId = None, pt_steps = None, pt_metadata = None, pt_extra = []\<rparr>"

definition or_undefined :: "string \<Rightarrow> string option" where
  "or_undefined v = (if v = '''' then None else Some v)"

datatype definition_field =
    FieldId string | FieldName string | FieldDescription string | FieldAutoStart bool | FieldNextWorkflow string

definition patch_definition :: "definition_field \<Rightarrow> workflow_state \<Rightarrow> workflow_state" where
  "patch_definition f =
     setDefinitionMeta
       (case f of
          FieldId v \<Rightarrow> no_patch\<lparr>pt_id := Some v\<rparr>
        | FieldName v \<Rightarrow> no_patch\<lparr>pt_name := Some v\<rparr>
        | FieldDescription v \<Rightarrow> no_patch\<lparr>pt_description := Some (or_undefined v)\<rparr>
        | FieldAutoStart b \<Rightarrow> no_patch\<lparr>pt_autoStart := Some (if b then Some True else None)\<rparr>
        | FieldNextWorkflow v \<Rightarrow> no_patch\<lparr>pt_nextWorkflowId := Some (or_undefined v)\<rparr>)"

section \<open>File names\<close>

fun no_double_dash :: "string \<Rightarrow> bool" where
  "no_double_dash (a # b # s) \<longleftrightarrow> \<not> (a = CHR ''-'' \<and> b = CHR ''-'') \<and> no_double_dash (b # s)"
| "no_double_dash _ \<longleftrightarrow> True"

text \<open>The names \<open>slug\<close> gives: lower-case letters and digits in words joined by single dashes.\<close>

definition slug_form :: "string \<Rightarrow> bool" where
  "slug_form t \<longleftrightarrow> t \<noteq> [] \<and> list_all (\<lambda>c. slug_char c \<or> c = CHR ''-'') t \<and> hd t \<noteq> CHR ''-'' \<and>
     last t \<noteq> CHR ''-'' \<and> no_double_dash t"

lemma slug_char_dash [simp]: "\<not> slug_char CHR ''-''"
  by (simp add: slug_char_def is_digit_def)

lemma lower_slug: "slug_char c \<or> c = CHR ''-'' \<Longrightarrow> lower_char c = c"
  by (auto simp: slug_char_def is_digit_def lower_char_def less_eq_char_def)

lemma dash_runs_hd: "dash_runs (c # cs) \<noteq> [] \<and> hd (dash_runs (c # cs)) = (if slug_char c then c else CHR ''-'')"
proof (induction "c # cs" arbitrary: c cs rule: dash_runs.induct)
  case (2 c cs)
  then show ?case by (cases cs) auto
qed

lemma dash_runs_chars: "list_all (\<lambda>c. slug_char c \<or> c = CHR ''-'') (dash_runs s)"
  by (induction s rule: dash_runs.induct) (auto split: list.split)

lemma no_double_Cons: "no_double_dash (a # s) \<longleftrightarrow> (s = [] \<or> \<not> (a = CHR ''-'' \<and> hd s = CHR ''-'') \<and> no_double_dash s)"
  by (cases s) simp_all

lemma dash_runs_single: "no_double_dash (dash_runs s)"
proof (induction s rule: dash_runs.induct)
  case (2 c cs)
  show ?case
  proof (cases cs)
    case (Cons d ds)
    have "no_double_dash (dash_runs cs)" using 2 Cons by (cases "slug_char c") auto
    moreover have "hd (dash_runs cs) = (if slug_char d then d else CHR ''-'')" using dash_runs_hd Cons by blast
    ultimately show ?thesis
      using slug_char_dash by (cases "slug_char c"; cases "slug_char d") (auto simp: Cons no_double_Cons simp del: slug_char_dash)
  qed simp
qed simp

lemma no_double_append: "no_double_dash (a @ b) \<Longrightarrow> no_double_dash a \<and> no_double_dash b"
  by (induction a rule: no_double_dash.induct) (auto simp: no_double_Cons)

lemma strip_dashes_parts: "\<exists>a b. s = a @ strip_dashes s @ b"
proof -
  obtain a where a: "s = a @ dropWhile (\<lambda>c. c = CHR ''-'') s" by (metis takeWhile_dropWhile_id)
  obtain b where "rev (dropWhile (\<lambda>c. c = CHR ''-'') s) = b @ rev (strip_dashes s)"
    unfolding strip_dashes_def rev_rev_ident by (metis takeWhile_dropWhile_id)
  then have "dropWhile (\<lambda>c. c = CHR ''-'') s = strip_dashes s @ rev b"
    by (metis rev_append rev_rev_ident)
  with a show ?thesis by metis
qed

lemma strip_dashes_ends:
  assumes "strip_dashes s \<noteq> []"
  shows "hd (strip_dashes s) \<noteq> CHR ''-'' \<and> last (strip_dashes s) \<noteq> CHR ''-''"
proof -
  let ?d = "dropWhile (\<lambda>c. c = CHR ''-'') s"
  have last: "last (strip_dashes s) \<noteq> CHR ''-''"
    using assms hd_dropWhile [of "\<lambda>c. c = CHR ''-''" "rev ?d"] by (simp add: strip_dashes_def last_rev)
  obtain b where b: "?d = strip_dashes s @ b"
    unfolding strip_dashes_def by (metis rev_append rev_rev_ident takeWhile_dropWhile_id)
  then have "?d \<noteq> []" using assms by auto
  then have "hd ?d \<noteq> CHR ''-''" using hd_dropWhile by blast
  with b last assms show ?thesis by (metis hd_append2)
qed

lemma slug_form_slug: "slug_form (slug s)"
proof -
  define t where "t = strip_dashes (dash_runs (map lower_char s))"
  obtain a b where ab: "dash_runs (map lower_char s) = a @ t @ b" using strip_dashes_parts t_def by blast
  have "no_double_dash (a @ t @ b)" "list_all (\<lambda>c. slug_char c \<or> c = CHR ''-'') (a @ t @ b)"
    using dash_runs_single dash_runs_chars unfolding ab [symmetric] by blast+
  then have "no_double_dash t" "list_all (\<lambda>c. slug_char c \<or> c = CHR ''-'') t"
    using no_double_append [of a "t @ b"] no_double_append [of t b] by simp_all
  then have "slug_form t" if "t \<noteq> []"
    using that strip_dashes_ends [of "dash_runs (map lower_char s)"] unfolding slug_form_def t_def by blast
  moreover have "slug_form ''workflow''"
    by (simp add: slug_form_def slug_char_def less_eq_char_def)
  ultimately show ?thesis by (simp add: slug_def t_def [symmetric] Let_def)
qed

lemma dash_runs_id: "list_all (\<lambda>c. slug_char c \<or> c = CHR ''-'') t \<Longrightarrow> no_double_dash t \<Longrightarrow> dash_runs t = t"
proof (induction t rule: dash_runs.induct)
  case (2 c cs)
  then show ?case by (cases cs) (auto simp: no_double_Cons)
qed simp

lemma strip_dashes_id: "t \<noteq> [] \<Longrightarrow> hd t \<noteq> CHR ''-'' \<Longrightarrow> last t \<noteq> CHR ''-'' \<Longrightarrow> strip_dashes t = t"
proof -
  assume ends: "t \<noteq> []" "hd t \<noteq> CHR ''-''" "last t \<noteq> CHR ''-''"
  then have "dropWhile (\<lambda>c. c = CHR ''-'') t = t" by (cases t) simp_all
  moreover have "dropWhile (\<lambda>c. c = CHR ''-'') (rev t) = rev t"
    using ends by (cases t rule: rev_cases) simp_all
  ultimately show ?thesis by (simp add: strip_dashes_def)
qed

lemma slug_id: assumes "slug_form t" shows "slug t = t"
proof -
  have "map lower_char t = t" using assms lower_slug unfolding slug_form_def list_all_iff by (metis map_idI)
  then show ?thesis
    using assms dash_runs_id [of t] strip_dashes_id [of t] by (simp add: slug_def slug_form_def)
qed

text \<open>The file name of an export is normal: \<open>slug\<close> gives a name of the form above, and leaves exactly the
  names of that form as they are.\<close>

theorem slug_normal_form: "slug_form (slug s) \<and> (slug s = s \<longleftrightarrow> slug_form s)"
  using slug_form_slug slug_id by metis

section \<open>The export gate\<close>

text \<open>The toolbar blocks export and upload exactly after a validation run that found the current definition
  invalid. The guide says that both are disabled while validation errors remain; but the gate looks at the
  last run only, so a session can hold an invalid definition that was never validated, or was edited since,
  with the gate open.\<close>

lemma gate_after_validation: "blocksExport (runValidation now st) \<longleftrightarrow> \<not> valid_definition (defn st)"
proof -
  have "vs_errors (useValidationSummary (runValidation now st)) = length (errors (validate (defn st)))"
    by (simp add: useValidationSummary_def runValidation_def errors_def Let_def)
  then show ?thesis using valid_iff [of "defn st"] by (simp add: blocksExport_def)
qed

lemma gate_unchanged: "validation st' = validation st \<Longrightarrow> blocksExport st' = blocksExport st"
  by (simp add: blocksExport_def useValidationSummary_def)

lemma initial_invalid: "\<not> valid_definition (defn initialState)"
proof -
  have "errors (validate (defn initialState)) \<noteq> []"
    by (simp add: initialState_def emptyDefinition_def validate_def checkStepsNonEmpty_def diag_def Let_def)
  then show ?thesis using valid_iff by blast
qed

lemma edit_keeps_gate:
  assumes "edit_step fresh st st'"
  shows "(\<exists>now. st' = runValidation now st) \<or> validation st' = validation st \<or> validation st' = no_validation"
  using assms
proof (induction rule: edit_step.induct)
  case (rename st oldId newId)
  then show ?case by (simp add: renameStepAction_def split: sum.split)
next
  case (update i p st st')
  then show ?case by (auto simp: updateStepProperty_def split: option.splits)
next
  case (apply_json result st)
  then show ?case by (simp add: applyDefinitionFromJson_def split: import_result.split)
qed (auto simp: action_defs deleteStep_def Let_def)

text \<open>The export gate is exact only right after a validation: then it is closed if and only if the
  definition violates its specification. No other editing action closes the gate, whatever it
  does to the definition, and in the initial state the gate is open although the definition is not valid.\<close>

theorem export_gate:
  assumes "edit_step fresh st st'"
  shows "((\<exists>now. st' = runValidation now st) \<longrightarrow> blocksExport st' = (\<not> valid_definition (defn st'))) \<and>
    ((\<nexists>now. st' = runValidation now st) \<longrightarrow> blocksExport st' \<longrightarrow> blocksExport st) \<and>
    \<not> blocksExport initialState \<and> \<not> valid_definition (defn initialState)"
proof -
  have "\<not> blocksExport initialState"
    by (simp add: blocksExport_def useValidationSummary_def initialState_def no_validation_def)
  moreover have "defn (runValidation now st) = defn st" for now by (simp add: runValidation_def)
  moreover have "\<not> blocksExport st'" if "validation st' = no_validation"
    using that by (simp add: blocksExport_def useValidationSummary_def no_validation_def)
  ultimately show ?thesis
    using edit_keeps_gate [OF assms] gate_unchanged gate_after_validation initial_invalid by metis
qed

theorem export_gate_witness:
  "blocksExport (runValidation 0 initialState) \<and>
   \<not> blocksExport (snd (addStep \<lparr>tpl_type = WAIT, tpl_id = None, tpl_name = None\<rparr> initialState))"
proof -
  let ?st' = "snd (addStep \<lparr>tpl_type = WAIT, tpl_id = None, tpl_name = None\<rparr> initialState)"
  have "blocksExport (runValidation 0 initialState)"
    using export_gate [OF edit_step.validate [of False initialState 0]] by (auto simp: runValidation_def)
  moreover have "dirty ?st'" "\<not> dirty (runValidation now initialState)" for now
    by (simp_all add: addStep_def runValidation_def initialState_def Let_def)
  then have "\<not> blocksExport ?st'"
    using export_gate [OF edit_step.add [of False initialState]] by metis
  ultimately show ?thesis by blast
qed

section \<open>Drafts dialog\<close>

lemma sorted_drafts_latest_first:
  "set (sorted_drafts dlg) = set (dr_drafts dlg) \<and> length (sorted_drafts dlg) = length (dr_drafts dlg) \<and>
   sorted (map (\<lambda>d. - int (sum_savedAt d)) (sorted_drafts dlg))"
  by (simp add: sorted_drafts_def)

text \<open>A save that the dialog allows while its list is current fails only when the storage refuses it, and a
  successful one lists the new draft last and stays within the limit.\<close>

theorem drafts_dialog_saves:
  assumes "canSave dlg st" and "dr_drafts dlg = listDrafts item"
    and "handleSave accepts newId now st (dlg, item) = (msg, dlg', item')"
  shows "(fst msg = ToneError \<and> snd msg = reasonMessage STORAGE_FAILED \<and> item' = item \<and> dr_drafts dlg' = dr_drafts dlg) \<or>
    (fst msg = ToneInfo \<and> dr_drafts dlg' = listDrafts item' \<and> length (dr_drafts dlg') \<le> DRAFTS_LIMIT \<and>
     dr_drafts dlg' = dr_drafts dlg @ [\<lparr>sum_id = newId, sum_name = trim (dr_name dlg), sum_savedAt = now,
        stepCount = length (steps (defn st))\<rparr>])"
proof -
  have cap: "length (readRaw item) < DRAFTS_LIMIT"
    using assms(1,2) by (simp add: canSave_def atCap_def listDrafts_def)
  show ?thesis
  proof (cases "accepts (readRaw item @ [\<lparr>draft_id = newId, draft_name = trim (dr_name dlg), savedAt = now,
      draft_definition = defn st, draft_layout = layout st, draft_edgeHandles = edgeHandles st\<rparr>])")
    case True
    then show ?thesis
      using assms cap
      by (auto simp: handleSave_def saveDraftAction_def saveDraft_def writeRaw_def canSave_def Let_def listDrafts_def
          toSummary_def simp del: readRaw.simps)
  next
    case False
    then show ?thesis
      using assms cap
      by (auto simp: handleSave_def saveDraftAction_def saveDraft_def writeRaw_def canSave_def Let_def)
  qed
qed

text \<open>Restoring never discards unsaved changes without the user's consent, and when the draft is gone the
  store stays as it is.\<close>

lemma restore_asks:
  "dirty st \<Longrightarrow> handleRestore False i name item (dlg, st) = (None, (dlg, st), False)"
  by (simp add: handleRestore_def)

lemma restore_missing:
  "getDraft item i = None \<Longrightarrow> answer \<Longrightarrow> snd (fst (snd (handleRestore answer i name item (dlg, st)))) = st"
  by (simp add: handleRestore_def loadDraft_def)

section \<open>The toolbar's confirmations\<close>

text \<open>What the open dialog of the toolbar asks, for the continuation that waits for it.\<close>

definition asked :: "toolbar_wait \<Rightarrow> dialog_request \<Rightarrow> bool" where
  "asked w rq \<longleftrightarrow>
     (case w of
        WaitNew _ \<Rightarrow> \<exists>st. rq = confirm_request (discard_message st)
      | WaitUpload _ \<Rightarrow> \<exists>url. rq = confirm_request (''Upload current definition to '' @ url @ ''?''))"

fun wait_promise :: "toolbar_wait \<Rightarrow> nat" where
  "wait_promise (WaitNew n) = n"
| "wait_promise (WaitUpload n) = n"

definition toolbar_inv :: "toolbar \<Rightarrow> bool" where
  "toolbar_inv tb \<longleftrightarrow>
     dialogs_inv (tb_dialogs tb) \<and> length (tb_requests tb) \<le> 1 \<and> (tb_uploading tb \<longleftrightarrow> tb_requests tb \<noteq> []) \<and>
     dg_pending (tb_dialogs tb) = map_option wait_promise (tb_wait tb) \<and>
     (\<forall>w \<in> set_option (tb_wait tb). asked w (dg_calls (tb_dialogs tb) ! wait_promise w)) \<and>
     (\<forall>n. tb_wait tb = Some (WaitUpload n) \<longrightarrow> \<not> tb_uploading tb)"

lemma toolbar_inv_start: "toolbar_inv fresh_toolbar"
  by (simp add: toolbar_inv_def fresh_toolbar_def dialogs_inv_start) (simp add: no_dialogs_def)

lemma pending_last:
  assumes "dialogs_inv g" "dg_pending g = Some n" shows "n < length (dg_calls g)"
  using assms unfolding dialogs_inv_def by auto

lemma ask_inv:
  assumes inv: "toolbar_inv tb" and "confirm msg (tb_dialogs tb) = (n, g)"
    and w: "wait_promise w = n" "asked w (confirm_request msg)" "\<And>m. w = WaitUpload m \<Longrightarrow> \<not> tb_uploading tb"
  shows "toolbar_inv (tb\<lparr>tb_dialogs := g, tb_wait := (if dg_pending g = Some n then Some w else tb_wait tb)\<rparr>)"
proof -
  let ?g = "tb_dialogs tb"
  have g: "n = length (dg_calls ?g)" "g = snd (show_dialog (confirm_request msg) ?g)"
    using assms(2) by (auto simp: confirm_def show_dialog_def Let_def)
  have dinv: "dialogs_inv g" using inv dialogs_inv_show unfolding toolbar_inv_def g(2) by blast
  show ?thesis
  proof (cases "dg_pending ?g")
    case None
    then show ?thesis using inv dinv w g by (auto simp: toolbar_inv_def show_dialog_def Let_def)
  next
    case (Some m)
    then obtain v where v: "tb_wait tb = Some v" "wait_promise v = m"
      using inv by (cases "tb_wait tb") (auto simp: toolbar_inv_def)
    have less: "m < length (dg_calls ?g)" using inv Some pending_last unfolding toolbar_inv_def by blast
    have gp: "dg_pending g = Some m" "dg_calls g = dg_calls ?g @ [confirm_request msg]"
      using Some by (simp_all add: g(2) show_dialog_def Let_def)
    have "dg_calls g ! m = dg_calls ?g ! m" using less by (simp add: gp nth_append)
    then show ?thesis using inv dinv v gp less g(1) by (auto simp: toolbar_inv_def)
  qed
qed

text \<open>An answered dialog: the promise that was open now has the given value.\<close>

lemma answered:
  assumes "dialogs_inv g" "dg_pending g = Some n"
  shows "map_of (dg_answers (finish a g)) n = Some a"
proof -
  have "n \<notin> set (map fst (dg_answers g))" using assms unfolding dialogs_inv_def by simp
  then show ?thesis using assms(2) by (simp add: finish_def map_of_eq_None_iff map_add_Some_iff)
qed

lemma resume_answered:
  assumes "toolbar_inv tb" "tb_wait tb = Some w"
  shows "resume (tb\<lparr>tb_dialogs := finish a (tb_dialogs tb)\<rparr>, st) =
    (let tb' = tb\<lparr>tb_dialogs := finish a (tb_dialogs tb), tb_wait := None\<rparr>
     in case w of
          WaitNew n \<Rightarrow> (tb', if confirmed a then newWorkflow st else st)
        | WaitUpload n \<Rightarrow>
            (if confirmed a then tb'\<lparr>tb_uploading := True, tb_requests := tb_requests tb @ [uploadRequest st]\<rparr> else tb', st))"
proof -
  have "map_of (dg_answers (finish a (tb_dialogs tb))) (wait_promise w) = Some a"
    using assms answered unfolding toolbar_inv_def by fastforce
  then show ?thesis using assms(2) by (cases w) (simp_all add: resume_def Let_def)
qed

lemma resume_unanswered:
  assumes "toolbar_inv tb" "dialogs_inv g" "dg_pending g = dg_pending (tb_dialogs tb)"
  shows "resume (tb\<lparr>tb_dialogs := g\<rparr>, st) = (tb\<lparr>tb_dialogs := g\<rparr>, st)"
proof (cases "tb_wait tb")
  case (Some w)
  then have "dg_pending g = Some (wait_promise w)" using assms by (simp add: toolbar_inv_def)
  then have "map_of (dg_answers g) (wait_promise w) = None"
    using assms(2) by (simp add: dialogs_inv_def map_of_eq_None_iff)
  with Some show ?thesis by (cases w) (simp_all add: resume_def)
qed (simp add: resume_def)

lemma dialog_of_wait:
  assumes "toolbar_inv tb" "tb_wait tb = Some w"
  shows "cancel_dialog (tb_dialogs tb) = finish None (tb_dialogs tb)"
    and "\<exists>v. submit_dialog (tb_dialogs tb) = finish (Some v) (tb_dialogs tb)"
proof -
  let ?g = "tb_dialogs tb"
  have p: "dg_pending ?g = Some (wait_promise w)" and ask: "asked w (dg_calls ?g ! wait_promise w)"
    using assms by (simp_all add: toolbar_inv_def)
  then obtain dlg where r: "dg_request ?g = Some (dg_calls ?g ! wait_promise w, dlg)"
    using assms(1) by (cases "dg_request ?g") (auto simp: toolbar_inv_def dialogs_inv_def)
  then show "cancel_dialog ?g = finish None ?g" by (simp add: cancel_dialog_def)
  obtain msg where "dg_calls ?g ! wait_promise w = confirm_request msg"
    using ask by (cases w) (auto simp: asked_def)
  with r show "\<exists>v. submit_dialog ?g = finish (Some v) ?g"
    by (auto simp: submit_dialog_def confirm_request_def submit_disabled_def)
qed

lemma dialog_idle:
  assumes "toolbar_inv tb" "tb_wait tb = None"
  shows "cancel_dialog (tb_dialogs tb) = tb_dialogs tb" "submit_dialog (tb_dialogs tb) = tb_dialogs tb"
  using assms by (auto simp: toolbar_inv_def dialogs_inv_def cancel_dialog_def submit_dialog_def)

lemma resume_inv:
  assumes "toolbar_inv tb" "tb_wait tb = Some w"
  shows "toolbar_inv (fst (resume (tb\<lparr>tb_dialogs := finish a (tb_dialogs tb)\<rparr>, st)))"
proof -
  let ?rq = "dg_calls (tb_dialogs tb) ! wait_promise w"
  have ok: "answer_ok ?rq a"
    using assms by (cases w; cases a) (auto simp: toolbar_inv_def asked_def answer_ok_def confirm_request_def)
  have "dialogs_inv (finish a (tb_dialogs tb))"
    using assms ok dialogs_inv_answer [of "tb_dialogs tb" a] by (simp add: toolbar_inv_def)
  moreover have "dg_pending (finish a (tb_dialogs tb)) = None" by (simp add: finish_def)
  ultimately show ?thesis
    using assms unfolding resume_answered [OF assms] Let_def toolbar_inv_def by (cases w) auto
qed

lemma answer_inv:
  assumes "toolbar_inv tb"
  shows "toolbar_inv (fst (resume (tb\<lparr>tb_dialogs := submit_dialog (tb_dialogs tb)\<rparr>, st)))"
    and "toolbar_inv (fst (resume (tb\<lparr>tb_dialogs := cancel_dialog (tb_dialogs tb)\<rparr>, st)))"
proof -
  consider (idle) "tb_wait tb = None" | (wait) w where "tb_wait tb = Some w" by (cases "tb_wait tb") auto
  then have "toolbar_inv (fst (resume (tb\<lparr>tb_dialogs := submit_dialog (tb_dialogs tb)\<rparr>, st))) \<and>
      toolbar_inv (fst (resume (tb\<lparr>tb_dialogs := cancel_dialog (tb_dialogs tb)\<rparr>, st)))"
  proof cases
    case idle
    then show ?thesis using assms by (simp add: dialog_idle resume_def)
  next
    case wait
    then show ?thesis using dialog_of_wait [OF assms wait] resume_inv [OF assms wait] by auto
  qed
  then show "toolbar_inv (fst (resume (tb\<lparr>tb_dialogs := submit_dialog (tb_dialogs tb)\<rparr>, st)))"
    "toolbar_inv (fst (resume (tb\<lparr>tb_dialogs := cancel_dialog (tb_dialogs tb)\<rparr>, st)))" by blast+
qed

lemma toolbar_inv_step:
  assumes "toolbar_step num_text type_message s s'" "toolbar_inv (fst s)" shows "toolbar_inv (fst s')"
  using assms
proof (induction rule: toolbar_step.induct)
  case (new_workflow tb st)
  obtain n g where c: "confirm (discard_message st) (tb_dialogs tb) = (n, g)" by fastforce
  have "toolbar_inv (tb\<lparr>tb_dialogs := g, tb_wait := (if dg_pending g = Some n then Some (WaitNew n) else tb_wait tb)\<rparr>)"
    by (rule ask_inv [OF _ c]) (use new_workflow in \<open>auto simp: asked_def\<close>)
  then show ?case using new_workflow unfolding handleNewWorkflow_def prod.case c Let_def by simp
next
  case (upload st tb)
  obtain n g where c: "confirm (''Upload current definition to '' @ ec_baseUrl (engine st) @ ''?'') (tb_dialogs tb) = (n, g)"
    by fastforce
  have "toolbar_inv (tb\<lparr>tb_dialogs := g, tb_wait := (if dg_pending g = Some n then Some (WaitUpload n) else tb_wait tb)\<rparr>)"
    by (rule ask_inv [OF _ c]) (use upload in \<open>auto simp: asked_def\<close>)
  then show ?case using upload(2) unfolding handleUpload_def prod.case c Let_def by simp
next
  case (settled tb st now answer)
  then have "tl (tb_requests tb) = []" by (cases "tb_requests tb") (auto simp: toolbar_inv_def)
  with settled show ?case by (simp add: uploadSettled_def toolbar_inv_def Let_def case_prod_beta)
qed (simp_all add: answer_inv)

lemma toolbar_reachable:
  "(toolbar_step num_text type_message)\<^sup>*\<^sup>* (fresh_toolbar, st\<^sub>0) s \<Longrightarrow> toolbar_inv (fst s)"
  by (induction rule: rtranclp_induct) (use toolbar_inv_start toolbar_inv_step in auto)

text \<open>C16. The toolbar asks before it acts: in every reachable state at most one upload is under way, \<^verbatim>\<open>uploading\<close>
  says so, and while the toolbar waits for the user the dialog on the screen asks the question of that
  action. Cancelling leaves the store and the uploads alone. Confirming the question of a new workflow clears
  it, confirming that of an upload sends exactly one request with the definition of that moment and leaves
  the store alone; without a question nothing happens.\<close>

theorem toolbar_asks_first:
  assumes "(toolbar_step num_text type_message)\<^sup>*\<^sup>* (fresh_toolbar, st\<^sub>0) (tb, st)"
    and "resume (tb\<lparr>tb_dialogs := cancel_dialog (tb_dialogs tb)\<rparr>, st) = (tb\<^sub>c, st\<^sub>c)"
    and "resume (tb\<lparr>tb_dialogs := submit_dialog (tb_dialogs tb)\<rparr>, st) = (tb\<^sub>s, st\<^sub>s)"
  shows "length (tb_requests tb) \<le> 1 \<and> (tb_uploading tb \<longleftrightarrow> tb_requests tb \<noteq> []) \<and>
    (\<forall>w. tb_wait tb = Some w \<longrightarrow> (\<exists>rq dlg. dg_request (tb_dialogs tb) = Some (rq, dlg) \<and> asked w rq)) \<and>
    st\<^sub>c = st \<and> tb_requests tb\<^sub>c = tb_requests tb \<and> tb_wait tb\<^sub>c = None \<and>
    (case tb_wait tb of
       None \<Rightarrow> st\<^sub>s = st \<and> tb_requests tb\<^sub>s = tb_requests tb
     | Some (WaitNew _) \<Rightarrow> st\<^sub>s = newWorkflow st \<and> tb_requests tb\<^sub>s = tb_requests tb
     | Some (WaitUpload _) \<Rightarrow> st\<^sub>s = st \<and> tb_requests tb\<^sub>s = [uploadRequest st])"
proof -
  have inv: "toolbar_inv tb" using toolbar_reachable [OF assms(1)] by simp
  show ?thesis
  proof (cases "tb_wait tb")
    case None
    with inv assms(2,3) show ?thesis by (simp add: dialog_idle resume_def toolbar_inv_def)
  next
    case (Some w)
    obtain v where v: "submit_dialog (tb_dialogs tb) = finish (Some v) (tb_dialogs tb)"
      using dialog_of_wait(2) [OF inv Some] by blast
    have "\<exists>rq dlg. dg_request (tb_dialogs tb) = Some (rq, dlg) \<and> asked w rq"
      using inv Some by (cases "dg_request (tb_dialogs tb)") (auto simp: toolbar_inv_def dialogs_inv_def)
    moreover have "tb_requests tb = []" if "w = WaitUpload n" for n
      using inv Some that by (auto simp: toolbar_inv_def)
    ultimately show ?thesis
      using inv Some assms(2,3)
      unfolding dialog_of_wait(1) [OF inv Some] v resume_answered [OF inv Some] Let_def
      by (cases w) (auto simp: toolbar_inv_def confirmed_def)
  qed
qed

theorem toolbar_asks_first_witness:
  "\<exists>tb tb'. (toolbar_step (\<lambda>_. ''1'') ''error'')\<^sup>*\<^sup>* (fresh_toolbar, initialState) (tb, initialState) \<and>
     resume (tb\<lparr>tb_dialogs := submit_dialog (tb_dialogs tb)\<rparr>, initialState) = (tb', initialState) \<and>
     tb_requests tb' = [uploadRequest initialState]"
proof -
  let ?step = "toolbar_step (\<lambda>_. ''1'') ''error''"
  obtain tb where tb: "handleUpload (fresh_toolbar, initialState) = (tb, initialState)" "tb_wait tb = Some (WaitUpload 0)"
    by (simp add: handleUpload_def fresh_toolbar_def confirm_def show_dialog_def no_dialogs_def Let_def)
  have "\<not> blocksExport initialState"
    by (simp add: blocksExport_def useValidationSummary_def initialState_def no_validation_def)
  then have "?step (fresh_toolbar, initialState) (tb, initialState)"
    using toolbar_step.upload [of initialState fresh_toolbar "\<lambda>_. ''1''" "''error''"] tb(1) by (simp add: fresh_toolbar_def)
  then have run: "?step\<^sup>*\<^sup>* (fresh_toolbar, initialState) (tb, initialState)" by (rule r_into_rtranclp)
  obtain a b where ab: "resume (tb\<lparr>tb_dialogs := submit_dialog (tb_dialogs tb)\<rparr>, initialState) = (a, b)" by fastforce
  obtain c d where cd: "resume (tb\<lparr>tb_dialogs := cancel_dialog (tb_dialogs tb)\<rparr>, initialState) = (c, d)" by fastforce
  have "b = initialState \<and> tb_requests a = [uploadRequest initialState]"
    using toolbar_asks_first [OF run cd ab] tb(2) by simp
  with run ab show ?thesis by blast
qed

end
