(* ===== verification/Engine_Browser.thy ===== *)
theory Engine_Browser
  imports Editor_Panels
begin

text \<open>
  \<^verbatim>\<open>workflow-modeller/src/panels/EngineBrowser.tsx\<close>: the dialog that lists the definitions of the engine by keyword and
  page and loads one. Requests overlap: each keeps the keyword and page it was sent with, and its answer is written
  to the state whenever it arrives. The engine's answers are an argument, a function of keyword and page.
\<close>

section \<open>Model\<close>

definition PAGE_SIZE :: nat where
  "PAGE_SIZE = 20"

record definition_summary =
  ds_id :: string
  ds_name :: string
  ds_versions :: "nat list option"

record definition_page =
  dp_items :: "definition_summary list option"
  dp_total :: "nat option"

text \<open>What a listing gives: an error of the client, or the parsed body, which is absent when it was empty.\<close>

type_synonym list_answer = "engine_error + definition_page option"

record engine_browser =
  eb_open :: bool
  eb_items :: "definition_summary list"
  eb_page :: nat
  eb_total :: nat
  eb_keyword :: string
  eb_loading :: bool
  eb_error :: "string option"
  eb_selected :: "(string \<times> nat option) option"
  eb_requests :: "(string \<times> nat) list"
  eb_loads :: "(string \<times> nat option) list"

definition new_browser :: engine_browser where
  "new_browser = \<lparr>eb_open = False, eb_items = [], eb_page = 0, eb_total = 0, eb_keyword = '''', eb_loading = False,
     eb_error = None, eb_selected = None, eb_requests = [],
     eb_loads = []\<rparr>"

text \<open>\<^verbatim>\<open>refresh\<close> up to its \<^verbatim>\<open>await\<close>, with the keyword and page of the render it belongs to.\<close>

definition refresh :: "string \<Rightarrow> nat \<Rightarrow> engine_browser \<Rightarrow> engine_browser" where
  "refresh kw pg b = b\<lparr>eb_loading := True, eb_error := None, eb_requests := eb_requests b @ [(kw, pg)]\<rparr>"

definition list_settled :: "list_answer \<Rightarrow> engine_browser \<Rightarrow> engine_browser" where
  "list_settled answer b =
     (case answer of
        Inr (Some res) \<Rightarrow>
          b\<lparr>eb_items := (case dp_items res of Some xs \<Rightarrow> xs | None \<Rightarrow> []),
            eb_total := (case dp_total res of Some n \<Rightarrow> n | None \<Rightarrow> 0), eb_loading := False\<rparr>
      | Inr None \<Rightarrow> b\<lparr>eb_error := Some ''Unable to list definitions'', eb_loading := False\<rparr>
      | Inl e \<Rightarrow> b\<lparr>eb_error := Some (err_message e), eb_loading := False\<rparr>)"

text \<open>The effect runs \<^verbatim>\<open>refresh\<close> when the dialog opens and, while it is open, whenever the keyword or the page
  changes.\<close>

definition open_browser :: "engine_browser \<Rightarrow> engine_browser" where
  "open_browser b = (if eb_open b then b else refresh (eb_keyword b) (eb_page b) (b\<lparr>eb_open := True\<rparr>))"

definition setKeyword :: "string \<Rightarrow> engine_browser \<Rightarrow> engine_browser" where
  "setKeyword k b = (if k = eb_keyword b then b else refresh k (eb_page b) (b\<lparr>eb_keyword := k\<rparr>))"

definition setPage :: "nat \<Rightarrow> engine_browser \<Rightarrow> engine_browser" where
  "setPage p b = (if p = eb_page b then b else refresh (eb_keyword b) p (b\<lparr>eb_page := p\<rparr>))"

text \<open>The search button and the return key: \<^verbatim>\<open>setPage(0); refresh()\<close>, where \<^verbatim>\<open>refresh\<close> is still the one of the
  old page; the effect follows if the page changed.\<close>

definition search_clicked :: "engine_browser \<Rightarrow> engine_browser" where
  "search_clicked b = setPage 0 (refresh (eb_keyword b) (eb_page b) b)"

definition totalPages :: "engine_browser \<Rightarrow> nat" where
  "totalPages b = max 1 ((eb_total b + PAGE_SIZE - 1) div PAGE_SIZE)"

definition prev_clicked :: "engine_browser \<Rightarrow> engine_browser" where
  "prev_clicked b = (if eb_page b = 0 then b else setPage (eb_page b - 1) b)"

definition next_clicked :: "engine_browser \<Rightarrow> engine_browser" where
  "next_clicked b = (if eb_page b + 1 \<ge> totalPages b then b else setPage (eb_page b + 1) b)"

definition setSelected :: "string \<Rightarrow> nat option \<Rightarrow> engine_browser \<Rightarrow> engine_browser" where
  "setSelected i version b = b\<lparr>eb_selected := Some (i, version)\<rparr>"

text \<open>The versions a selected row offers: the latest first, then all of them in reverse.\<close>

definition offered_versions :: "definition_summary \<Rightarrow> nat list" where
  "offered_versions d = rev (case ds_versions d of Some vs \<Rightarrow> vs | None \<Rightarrow> [])"

text \<open>\<^verbatim>\<open>load\<close> up to its \<^verbatim>\<open>await\<close>: the button is disabled while something loads, and the selection is that of
  the click. Afterwards the dialog reports the failure or closes; a listing that is answered meanwhile enables the
  button again, so loads can overlap too.\<close>

definition load_clicked :: "engine_browser \<Rightarrow> engine_browser" where
  "load_clicked b =
     (case eb_selected b of
        Some sel \<Rightarrow> if eb_loading b then b
                    else b\<lparr>eb_loading := True, eb_error := None, eb_loads := eb_loads b @ [sel]\<rparr>
      | None \<Rightarrow> b)"

definition load_done :: "store_error option \<Rightarrow> engine_browser \<Rightarrow> engine_browser" where
  "load_done failure b =
     (case failure of
        None \<Rightarrow> b\<lparr>eb_open := False, eb_loading := False\<rparr>
      | Some (EngineFailure e) \<Rightarrow> b\<lparr>eb_error := Some (err_message e), eb_loading := False\<rparr>
      | Some TypeError \<Rightarrow> b\<lparr>eb_error := Some ''Load failed'', eb_loading := False\<rparr>)"

definition without :: "nat \<Rightarrow> 'a list \<Rightarrow> 'a list" where
  "without k xs = take k xs @ drop (Suc k) xs"

text \<open>The answer to the load at position \<open>k\<close> of those under way: the banner, the dialog and the store.\<close>

definition load_settled ::
  "nat \<Rightarrow> engine_error + workflow_definition option \<Rightarrow> engine_browser \<times> workflow_state \<Rightarrow>
   banner option \<times> engine_browser \<times> workflow_state" where
  "load_settled k answer = (\<lambda>(b, st).
     (case eb_loads b ! k of (i, version) \<Rightarrow>
       (case loadFromEngine i (map_option of_nat version) answer st of (failure, st') \<Rightarrow>
         (if failure = None then Some onLoaded else None, load_done failure (b\<lparr>eb_loads := without k (eb_loads b)\<rparr>), st'))))"

definition empty_hint :: "engine_browser \<Rightarrow> bool" where
  "empty_hint b \<longleftrightarrow> \<not> eb_loading b \<and> eb_error b = None \<and> eb_items b = []"

text \<open>The dialog and the engine. \<open>arrives\<close> says which of the listings under way may be answered next, by their
  position in the order of sending, and \<open>listing\<close> what the engine answers.\<close>

inductive browser_step ::
  "(nat \<Rightarrow> bool) \<Rightarrow> (string \<Rightarrow> nat \<Rightarrow> list_answer) \<Rightarrow> engine_browser \<times> workflow_state \<Rightarrow>
   engine_browser \<times> workflow_state \<Rightarrow> bool"
  for arrives listing where
  open_it: "browser_step arrives listing (b, st) (open_browser b, st)"
| close_it: "browser_step arrives listing (b, st) (b\<lparr>eb_open := False\<rparr>, st)"
| typing: "eb_open b \<Longrightarrow> browser_step arrives listing (b, st) (setKeyword kw b, st)"
| searching: "eb_open b \<Longrightarrow> browser_step arrives listing (b, st) (search_clicked b, st)"
| previous: "eb_open b \<Longrightarrow> browser_step arrives listing (b, st) (prev_clicked b, st)"
| forward: "eb_open b \<Longrightarrow> browser_step arrives listing (b, st) (next_clicked b, st)"
| choosing: "eb_open b \<Longrightarrow> browser_step arrives listing (b, st) (setSelected i version b, st)"
| loading: "eb_open b \<Longrightarrow> browser_step arrives listing (b, st) (load_clicked b, st)"
| loaded: "k < length (eb_loads b) \<Longrightarrow> browser_step arrives listing (b, st) (snd (load_settled k answer (b, st)))"
| listed: "arrives k \<Longrightarrow> k < length (eb_requests b) \<Longrightarrow>
     browser_step arrives listing (b, st)
       (list_settled (case eb_requests b ! k of (kw, pg) \<Rightarrow> listing kw pg)
          (b\<lparr>eb_requests := without k (eb_requests b)\<rparr>), st)"

section \<open>Answers in the order of the requests\<close>

text \<open>What the dialog is to show of an answer: its rows and total, or an error. A failed load may add an error of
  its own.\<close>

definition shown_listing :: "list_answer \<Rightarrow> engine_browser \<Rightarrow> bool" where
  "shown_listing answer b \<longleftrightarrow>
     (case answer of
        Inr (Some res) \<Rightarrow> eb_items b = (case dp_items res of Some xs \<Rightarrow> xs | None \<Rightarrow> []) \<and>
          eb_total b = (case dp_total res of Some n \<Rightarrow> n | None \<Rightarrow> 0)
      | _ \<Rightarrow> eb_loads b = [] \<longrightarrow> eb_error b \<noteq> None)"

definition browser_inv :: "(string \<Rightarrow> nat \<Rightarrow> list_answer) \<Rightarrow> engine_browser \<Rightarrow> bool" where
  "browser_inv listing b \<longleftrightarrow> eb_open b \<longrightarrow>
     (if eb_requests b \<noteq> [] then last (eb_requests b) = (eb_keyword b, eb_page b)
      else shown_listing (listing (eb_keyword b) (eb_page b)) b)"

lemmas browser_defs = refresh_def open_browser_def setKeyword_def setPage_def search_clicked_def prev_clicked_def
  next_clicked_def setSelected_def load_clicked_def

lemma without_first [simp]: "without 0 (x # xs) = xs"
  by (simp add: without_def)

lemma without_Nil_iff: "k < length xs \<Longrightarrow> without k xs = [] \<longleftrightarrow> length xs = 1"
  by (cases xs) (auto simp: without_def)

lemma settled_shown: "shown_listing answer (list_settled answer b)"
  by (auto simp: shown_listing_def list_settled_def split: sum.splits option.splits)

lemma list_settled_keeps [simp]:
  "eb_open (list_settled answer b) = eb_open b" "eb_requests (list_settled answer b) = eb_requests b"
  "eb_keyword (list_settled answer b) = eb_keyword b" "eb_page (list_settled answer b) = eb_page b"
  by (simp_all add: list_settled_def split: sum.splits option.splits)

text \<open>Opening, typing and paging either change nothing or send a request for what the dialog then asks for.\<close>

lemma refresh_inv: "browser_inv listing (refresh (eb_keyword b) (eb_page b) b)"
  by (simp add: browser_inv_def refresh_def)

lemma setPage_inv: "browser_inv listing b \<Longrightarrow> browser_inv listing (setPage p b)"
  by (simp add: browser_inv_def setPage_def refresh_def)

lemma setKeyword_inv: "browser_inv listing b \<Longrightarrow> browser_inv listing (setKeyword kw b)"
  by (simp add: browser_inv_def setKeyword_def refresh_def)

lemma load_done_inv:
  assumes "browser_inv listing b"
  shows "browser_inv listing (load_done failure (b\<lparr>eb_loads := ls\<rparr>))"
  using assms
  by (auto simp: browser_inv_def load_done_def shown_listing_def split: option.splits store_error.splits sum.splits)

lemma list_settled_inv:
  assumes "browser_inv listing b" "eb_requests b = (kw, pg) # rest"
  shows "browser_inv listing (list_settled (listing kw pg) (b\<lparr>eb_requests := rest\<rparr>))"
  using assms settled_shown by (cases rest) (auto simp: browser_inv_def)

lemma setSelected_inv: "browser_inv listing b \<Longrightarrow> browser_inv listing (setSelected i version b)"
  by (auto simp: browser_inv_def setSelected_def shown_listing_def split: sum.split option.split)

lemma load_clicked_shown: "shown_listing answer b \<Longrightarrow> shown_listing answer (load_clicked b)"
  by (cases "eb_selected b"; cases answer) (auto simp: load_clicked_def shown_listing_def split: option.split)

lemma load_clicked_inv:
  assumes "browser_inv listing b"
  shows "browser_inv listing (load_clicked b)"
proof -
  have "eb_open (load_clicked b) = eb_open b" "eb_requests (load_clicked b) = eb_requests b"
    "eb_keyword (load_clicked b) = eb_keyword b" "eb_page (load_clicked b) = eb_page b"
    by (simp_all add: load_clicked_def split: option.split)
  then show ?thesis
    using assms load_clicked_shown by (simp add: browser_inv_def)
qed

lemma open_browser_inv: "browser_inv listing b \<Longrightarrow> browser_inv listing (open_browser b)"
  by (simp add: browser_inv_def open_browser_def refresh_def)

lemma browser_step_inv:
  assumes "browser_step (\<lambda>k. k = 0) listing s s'" "browser_inv listing (fst s)"
  shows "browser_inv listing (fst s')"
  using assms
proof (induction rule: browser_step.induct)
  case (listed k b st)
  then obtain kw pg rest where "eb_requests b = (kw, pg) # rest"
    by (cases "eb_requests b") auto
  then show ?case
    using listed list_settled_inv by simp
next
  case (loaded k b st answer)
  then show ?case
    using load_done_inv by (simp add: load_settled_def split: prod.splits)
next
  case (searching b st)
  then show ?case
    by (simp add: search_clicked_def setPage_inv refresh_inv)
next
  case (close_it b st)
  then show ?case
    by (simp add: browser_inv_def)
qed (simp_all add: open_browser_inv setKeyword_inv setPage_inv prev_clicked_def next_clicked_def setSelected_inv
  load_clicked_inv)

text \<open>The spinner is never left on by itself, whatever the order of the answers.\<close>

definition spinner_inv :: "engine_browser \<Rightarrow> bool" where
  "spinner_inv b \<longleftrightarrow> (eb_loading b \<longrightarrow> eb_requests b \<noteq> [] \<or> eb_loads b \<noteq> [])"

lemma spinner_off: "\<not> eb_loading (list_settled answer b)" "\<not> eb_loading (load_done failure b)"
  by (simp_all add: list_settled_def load_done_def split: sum.splits option.splits store_error.splits)

lemma browser_step_spinner:
  assumes "browser_step arrives listing s s'" "spinner_inv (fst s)"
  shows "spinner_inv (fst s')"
  using assms
proof (induction rule: browser_step.induct)
  case (loading b st)
  then show ?case
    by (simp add: spinner_inv_def load_clicked_def split: option.splits)
qed (simp_all add: spinner_inv_def spinner_off load_settled_def browser_defs split: prod.splits)

lemma browser_reachable_inv:
  assumes "(browser_step (\<lambda>k. k = 0) listing)\<^sup>*\<^sup>* s s'" "browser_inv listing (fst s)" "spinner_inv (fst s)"
  shows "browser_inv listing (fst s') \<and> spinner_inv (fst s')"
  using assms
proof (induction rule: rtranclp_induct)
  case (step s' s'')
  then show ?case
    using browser_step_inv [of listing s' s''] browser_step_spinner [of _ listing s' s''] by simp
qed simp

lemma new_browser_inv: "browser_inv listing new_browser" "spinner_inv new_browser"
  by (simp_all add: browser_inv_def spinner_inv_def new_browser_def)

text \<open>C17. When the engine's answers arrive in the order of the requests, then after any sequence of opening, typing,
  searching, paging, choosing, loading and answers the open dialog with no listing under way shows the engine's
  answer for the keyword and page in its fields: the rows and total of that page, or an error; and when no load is
  under way either, the dialog is not shown as loading.\<close>

theorem browser_shows_current:
  assumes "(browser_step (\<lambda>k. k = 0) listing)\<^sup>*\<^sup>* (new_browser, st) (b, st')"
    and "eb_open b" "eb_requests b = []"
  shows "shown_listing (listing (eb_keyword b) (eb_page b)) b \<and> (eb_loads b = [] \<longrightarrow> \<not> eb_loading b)"
proof -
  have "browser_inv listing b \<and> spinner_inv b"
    using browser_reachable_inv [OF assms(1)] new_browser_inv by simp
  then show ?thesis
    using assms(2,3) by (auto simp: browser_inv_def spinner_inv_def)
qed

section \<open>What the dialog does not protect against\<close>

text \<open>A listing with 21 definitions of which one matches the keyword \<open>''loan''\<close>.\<close>

definition example_row :: definition_summary where
  "example_row = \<lparr>ds_id = ''loan'', ds_name = ''Loan'', ds_versions = Some [1, 2]\<rparr>"

definition example_listing :: "string \<Rightarrow> nat \<Rightarrow> list_answer" where
  "example_listing kw pg =
     (if kw = '''' then Inr (Some \<lparr>dp_items = Some (if pg = 0 then replicate 20 example_row else [example_row]),
        dp_total = Some 21\<rparr>)
      else Inr (Some \<lparr>dp_items = Some (if kw = ''loan'' \<and> pg = 0 then [example_row] else []),
        dp_total = Some (if kw = ''loan'' then 1 else 0)\<rparr>))"

definition second_page :: engine_browser where
  "second_page = list_settled (example_listing '''' 1) ((next_clicked (list_settled (example_listing '''' 0)
     ((open_browser new_browser)\<lparr>eb_requests := []\<rparr>)))\<lparr>eb_requests := []\<rparr>)"

lemma listed_first:
  assumes "eb_requests b = [(kw, pg)]" "arrives 0"
  shows "browser_step arrives listing (b, st) (list_settled (listing kw pg) (b\<lparr>eb_requests := []\<rparr>), st)"
  using browser_step.listed [of arrives 0 b listing st] assms by simp

lemma second_page_reached:
  "(browser_step (\<lambda>k. k = 0) example_listing)\<^sup>*\<^sup>* (new_browser, st) (second_page, st)"
  "eb_open second_page" "eb_page second_page = 1" "eb_keyword second_page = ''''" "eb_requests second_page = []"
proof -
  let ?step = "browser_step (\<lambda>k. k = 0) example_listing"
  let ?a = "open_browser new_browser"
  let ?b = "list_settled (example_listing '''' 0) (?a\<lparr>eb_requests := []\<rparr>)"
  let ?c = "next_clicked ?b"
  have a: "eb_requests ?a = [('''', 0)]" "eb_open ?b"
    by (simp_all add: open_browser_def refresh_def new_browser_def)
  have c: "eb_requests ?c = [('''', 1)]" "eb_open ?c" "eb_page ?c = 1" "eb_keyword ?c = ''''"
    by (simp_all add: open_browser_def refresh_def new_browser_def next_clicked_def setPage_def totalPages_def
        PAGE_SIZE_def list_settled_def example_listing_def)
  have "?step (new_browser, st) (?a, st)"
    by (rule browser_step.open_it)
  moreover have "?step (?a, st) (?b, st)"
    using listed_first [OF a(1)] by simp
  moreover have "?step (?b, st) (?c, st)"
    using a(2) by (rule browser_step.forward)
  moreover have "?step (?c, st) (second_page, st)"
    unfolding second_page_def using listed_first [OF c(1)] by simp
  ultimately show "?step\<^sup>*\<^sup>* (new_browser, st) (second_page, st)"
    by (meson converse_rtranclp_into_rtranclp rtranclp.rtrancl_refl)
  show "eb_open second_page" "eb_page second_page = 1" "eb_keyword second_page = ''''" "eb_requests second_page = []"
    using c by (simp_all add: second_page_def)
qed

text \<open>The witness: the second page of all definitions.\<close>

theorem browser_shows_current_witness:
  "shown_listing (example_listing '''' 1) second_page"
  using browser_shows_current [OF second_page_reached(1) second_page_reached(2,5)]
  by (simp add: second_page_reached)

text \<open>Typing a keyword keeps the page: on the second page of all definitions, the keyword that one definition
  matches gives the hint that none was found.\<close>

theorem keyword_keeps_page:
  "\<exists>b. (browser_step (\<lambda>k. k = 0) example_listing)\<^sup>*\<^sup>* (new_browser, st) (b, st) \<and> eb_keyword b = ''loan'' \<and>
     empty_hint b \<and> example_listing ''loan'' 0 = Inr (Some \<lparr>dp_items = Some [example_row], dp_total = Some 1\<rparr>)"
proof -
  let ?step = "browser_step (\<lambda>k. k = 0) example_listing"
  let ?a = "setKeyword ''loan'' second_page"
  let ?b = "list_settled (example_listing ''loan'' 1) (?a\<lparr>eb_requests := []\<rparr>)"
  have a: "eb_requests ?a = [(''loan'', 1)]" "eb_keyword ?a = ''loan''" "eb_error ?a = None"
    using second_page_reached(3-5) by (simp_all add: setKeyword_def refresh_def)
  have "?step (second_page, st) (?a, st)"
    using second_page_reached(2) by (rule browser_step.typing)
  moreover have "?step (?a, st) (?b, st)"
    using listed_first [OF a(1)] by simp
  ultimately have "?step\<^sup>*\<^sup>* (new_browser, st) (?b, st)"
    using second_page_reached(1) by (meson rtranclp.rtrancl_into_rtrancl)
  moreover have "empty_hint ?b" "eb_keyword ?b = ''loan''"
    using a by (simp_all add: empty_hint_def list_settled_def example_listing_def)
  ultimately show ?thesis
    by (auto simp: example_listing_def)
qed

text \<open>When the answer for an older keyword arrives last, its rows stay under the newer keyword.\<close>

theorem late_answer_wins:
  "\<exists>b. (browser_step (\<lambda>k. True) example_listing)\<^sup>*\<^sup>* (new_browser, st) (b, st) \<and> eb_keyword b = ''loan'' \<and>
     eb_page b = 0 \<and> eb_requests b = [] \<and> \<not> eb_loading b \<and> eb_error b = None \<and>
     eb_items b = replicate 20 example_row"
proof -
  let ?step = "browser_step (\<lambda>k. True) example_listing"
  let ?a = "open_browser new_browser"
  let ?b = "setKeyword ''loan'' ?a"
  let ?c = "list_settled (example_listing ''loan'' 0) (?b\<lparr>eb_requests := [('''', 0)]\<rparr>)"
  let ?d = "list_settled (example_listing '''' 0) (?c\<lparr>eb_requests := []\<rparr>)"
  have ab: "eb_open ?a" "eb_requests ?b = [('''', 0), (''loan'', 0)]" "eb_requests ?c = [('''', 0)]"
    by (simp_all add: open_browser_def setKeyword_def refresh_def new_browser_def)
  have "?step (new_browser, st) (?a, st)"
    by (rule browser_step.open_it)
  moreover have "?step (?a, st) (?b, st)"
    using ab(1) by (rule browser_step.typing)
  moreover have "?step (?b, st) (?c, st)"
    using browser_step.listed [of "\<lambda>k. True" 1 ?b example_listing st] by (simp add: ab without_def)
  moreover have "?step (?c, st) (?d, st)"
    using listed_first [OF ab(3)] by simp
  ultimately have "?step\<^sup>*\<^sup>* (new_browser, st) (?d, st)"
    by (meson converse_rtranclp_into_rtranclp rtranclp.rtrancl_refl)
  moreover have "eb_keyword ?d = ''loan''" "eb_page ?d = 0" "eb_requests ?d = []" "\<not> eb_loading ?d"
    "eb_error ?d = None" "eb_items ?d = replicate 20 example_row"
    by (simp_all add: open_browser_def setKeyword_def refresh_def new_browser_def list_settled_def
        example_listing_def)
  ultimately show ?thesis
    by blast
qed

end
