(* ===== verification/Json_Editor.thy ===== *)
theory Json_Editor
  imports Store_Properties
begin

text \<open>
  \<^verbatim>\<open>workflow-modeller/src/panels/JsonEditor.tsx\<close>: the tab that shows the workflow as JSON and applies what was typed
  when the text loses the focus. \<^verbatim>\<open>JSON.stringify\<close>, \<^verbatim>\<open>JSON.parse\<close> and the schema parser are arguments, as in
  \<open>Import_Export\<close>.
\<close>

section \<open>Model\<close>

text \<open>The last two fields are auxiliary, no operation reads them: what the user found in the text or typed since it has
  the focus, and the state of the store that the text was last taken from.\<close>

record json_editor =
  je_text :: string
  je_parseError :: "string option"
  je_schemaErrors :: "string list"
  je_focused :: bool
  je_lastSynced :: string
  je_draft :: string
  je_seen :: workflow_state

definition currentJson :: "(workflow_definition \<Rightarrow> nat option \<Rightarrow> string) \<Rightarrow> workflow_state \<Rightarrow> string" where
  "currentJson stringify st =
     exportJson stringify (defn st)
       \<lparr>includeLayout = True, opt_layout = Some (layout st), opt_edgeHandles = Some (edgeHandles st), pretty = None\<rparr>"

definition opened_editor :: "(workflow_definition \<Rightarrow> nat option \<Rightarrow> string) \<Rightarrow> workflow_state \<Rightarrow> json_editor" where
  "opened_editor stringify st =
     \<lparr>je_text = currentJson stringify st, je_parseError = None, je_schemaErrors = [], je_focused = False,
      je_lastSynced = currentJson stringify st, je_draft = currentJson stringify st, je_seen = st\<rparr>"

text \<open>The effect, which runs after a render in which \<^verbatim>\<open>currentJson\<close> differs from the one before.\<close>

definition sync :: "string \<Rightarrow> string \<Rightarrow> json_editor \<Rightarrow> json_editor" where
  "sync before now ed =
     (if before \<noteq> now \<and> \<not> je_focused ed
      then ed\<lparr>je_text := now, je_lastSynced := now, je_parseError := None, je_schemaErrors := []\<rparr> else ed)"

definition tryApply ::
  "(string \<Rightarrow> string + json) \<Rightarrow> (json \<Rightarrow> (string list \<times> string) list + workflow_definition) \<Rightarrow> string \<Rightarrow>
   json_editor \<times> workflow_state \<Rightarrow> json_editor \<times> workflow_state" where
  "tryApply jsonParse safeParse value = (\<lambda>(ed, st).
     case jsonParse value of
       Inl message \<Rightarrow> (ed\<lparr>je_parseError := Some message\<rparr>, st)
     | Inr _ \<Rightarrow>
         (case applyDefinitionFromJson (importJson jsonParse safeParse value) st of
            (Inl errs, st') \<Rightarrow> (ed\<lparr>je_parseError := None, je_schemaErrors := errs\<rparr>, st')
          | (Inr _, st') \<Rightarrow> (ed\<lparr>je_parseError := None, je_schemaErrors := []\<rparr>, st')))"

definition handleChange :: "(string \<Rightarrow> string + json) \<Rightarrow> string \<Rightarrow> json_editor \<Rightarrow> json_editor" where
  "handleChange jsonParse value ed =
     ed\<lparr>je_text := value, je_parseError := (case jsonParse value of Inl message \<Rightarrow> Some message | Inr _ \<Rightarrow> None)\<rparr>"

definition handleBlur ::
  "(workflow_definition \<Rightarrow> nat option \<Rightarrow> string) \<Rightarrow> (string \<Rightarrow> string + json) \<Rightarrow>
   (json \<Rightarrow> (string list \<times> string) list + workflow_definition) \<Rightarrow>
   json_editor \<times> workflow_state \<Rightarrow> json_editor \<times> workflow_state" where
  "handleBlur stringify jsonParse safeParse = (\<lambda>(ed, st).
     let ed' = ed\<lparr>je_focused := False\<rparr>
     in if je_text ed' = je_lastSynced ed' then (ed', st)
        else case tryApply jsonParse safeParse (je_text ed') (ed', st) of
               (ed'', st') \<Rightarrow> (sync (currentJson stringify st) (currentJson stringify st') ed'', st'))"

definition allErrors :: "json_editor \<Rightarrow> string list" where
  "allErrors ed =
     (case je_parseError ed of Some e \<Rightarrow> if e = '''' then [] else [e] | None \<Rightarrow> []) @ je_schemaErrors ed"

text \<open>The tab and the other changes of the store, which may come at any time, also while the text has the focus: the
  answers of an upload or of a load are not tied to what the user does.\<close>

definition seen_after :: "(workflow_definition \<Rightarrow> nat option \<Rightarrow> string) \<Rightarrow> bool \<Rightarrow> workflow_state \<Rightarrow> workflow_state \<Rightarrow> workflow_state \<Rightarrow> workflow_state" where
  "seen_after stringify has_focus seen st st' =
     (if \<not> has_focus \<and> currentJson stringify st \<noteq> currentJson stringify st' then st' else seen)"

inductive json_step ::
  "(workflow_definition \<Rightarrow> nat option \<Rightarrow> string) \<Rightarrow> (string \<Rightarrow> string + json) \<Rightarrow>
   (json \<Rightarrow> (string list \<times> string) list + workflow_definition) \<Rightarrow>
   json_editor \<times> workflow_state \<Rightarrow> json_editor \<times> workflow_state \<Rightarrow> bool"
  for stringify jsonParse safeParse where
  focus: "\<not> je_focused ed \<Longrightarrow>
     json_step stringify jsonParse safeParse (ed, st) (ed\<lparr>je_focused := True, je_draft := je_text ed\<rparr>, st)"
| type: "je_focused ed \<Longrightarrow>
     json_step stringify jsonParse safeParse (ed, st) ((handleChange jsonParse v ed)\<lparr>je_draft := v\<rparr>, st)"
| blur: "je_focused ed \<Longrightarrow> handleBlur stringify jsonParse safeParse (ed, st) = (ed', st') \<Longrightarrow>
     json_step stringify jsonParse safeParse (ed, st) (ed'\<lparr>je_seen := seen_after stringify False (je_seen ed) st st'\<rparr>, st')"
| outside: "json_step stringify jsonParse safeParse (ed, st)
     ((sync (currentJson stringify st) (currentJson stringify st') ed)
        \<lparr>je_seen := seen_after stringify (je_focused ed) (je_seen ed) st st'\<rparr>, st')"

section \<open>What the tab promises\<close>

text \<open>The outcomes of applying a text.\<close>

lemma tryApply_cases:
  obtains (malformed) m where "jsonParse typed = Inl m"
      "tryApply jsonParse safeParse typed (ed, st) = (ed\<lparr>je_parseError := Some m\<rparr>, st)"
  | (rejected) errs raw where "importJson jsonParse safeParse typed = ImportErr errs" "jsonParse typed = Inr raw"
      "tryApply jsonParse safeParse typed (ed, st) = (ed\<lparr>je_parseError := None, je_schemaErrors := errs\<rparr>, st)"
  | (accepted) d ws where "importJson jsonParse safeParse typed = ImportOk d ws"
      "tryApply jsonParse safeParse typed (ed, st) =
        (ed\<lparr>je_parseError := None, je_schemaErrors := []\<rparr>, snd (applyDefinitionFromJson (ImportOk d ws) st))"
proof (cases "jsonParse typed")
  case (Inl m)
  then show ?thesis using malformed by (simp add: tryApply_def)
next
  case (Inr raw)
  then show ?thesis
    using rejected accepted
    by (cases "importJson jsonParse safeParse typed") (simp_all add: tryApply_def applyDefinitionFromJson_def)
qed

text \<open>The text under the focus is the user's, and the text to compare with is that of the state last taken over.\<close>

definition editor_synced :: "(workflow_definition \<Rightarrow> nat option \<Rightarrow> string) \<Rightarrow> json_editor \<Rightarrow> bool" where
  "editor_synced stringify ed \<longleftrightarrow> (je_focused ed \<longrightarrow> je_text ed = je_draft ed) \<and> je_lastSynced ed = currentJson stringify (je_seen ed)"

lemma handleBlur_cases:
  assumes "handleBlur stringify jsonParse safeParse (ed, st) = (ed', st')"
  obtains (unchanged) "je_text ed = je_lastSynced ed" "ed' = ed\<lparr>je_focused := False\<rparr>" "st' = st"
  | (malformed) m where "je_text ed \<noteq> je_lastSynced ed" "jsonParse (je_text ed) = Inl m" "st' = st"
      "ed' = ed\<lparr>je_focused := False, je_parseError := Some m\<rparr>"
  | (rejected) errs raw where "je_text ed \<noteq> je_lastSynced ed" "jsonParse (je_text ed) = Inr raw" "st' = st"
      "importJson jsonParse safeParse (je_text ed) = ImportErr errs"
      "ed' = ed\<lparr>je_focused := False, je_parseError := None, je_schemaErrors := errs\<rparr>"
  | (accepted) d ws where "je_text ed \<noteq> je_lastSynced ed" "importJson jsonParse safeParse (je_text ed) = ImportOk d ws"
      "st' = snd (applyDefinitionFromJson (ImportOk d ws) st)"
      "ed' = sync (currentJson stringify st) (currentJson stringify st')
        (ed\<lparr>je_focused := False, je_parseError := None, je_schemaErrors := []\<rparr>)"
proof (cases "je_text ed = je_lastSynced ed")
  case True
  then show thesis using assms by (intro unchanged) (simp_all add: handleBlur_def)
next
  case False
  show thesis
    by (cases rule: tryApply_cases [where jsonParse = jsonParse and safeParse = safeParse and typed = "je_text ed" and
          ed = "ed\<lparr>je_focused := False\<rparr>" and st = st])
      (use False assms malformed rejected accepted in \<open>auto simp: handleBlur_def sync_def\<close>)
qed

lemma json_step_synced:
  assumes "json_step stringify jsonParse safeParse (ed, st) (ed', st')" "editor_synced stringify ed"
  shows "editor_synced stringify ed'"
  using assms(1)
proof cases
  case (blur ed1)
  from blur(3) show ?thesis
    by (cases rule: handleBlur_cases)
      (use assms(2) blur(1) in \<open>simp_all add: editor_synced_def seen_after_def sync_def\<close>)
qed (use assms(2) in \<open>auto simp: editor_synced_def seen_after_def sync_def handleChange_def\<close>)

lemma json_reachable_synced:
  assumes "(json_step stringify jsonParse safeParse)\<^sup>*\<^sup>* (opened_editor stringify st0, st0) (ed, st)"
  shows "editor_synced stringify ed"
  using assms
proof (induction "(ed, st)" arbitrary: ed st rule: rtranclp_induct)
  case base
  then show ?case by (simp add: editor_synced_def opened_editor_def)
next
  case (step s)
  then show ?case using json_step_synced by (cases s) blast
qed

text \<open>C14. Leaving the JSON tab's text, after any session with it and whatever changed the store meanwhile, also while the
  text had the focus. What counts is the user's draft, the text found on entering or typed since: a change of the store
  does not touch it. A draft that equals the JSON of the state last taken over changes nothing. A draft that is not
  accepted changes nothing in the store, stays as it was typed and is reported, the syntax error or the errors of the
  schema. An accepted draft becomes the definition of the present state, with the positions of the steps that remain
  and all handles kept, the errors are cleared, and the text is the JSON of the new state unless that is what it was
  before.\<close>

theorem json_blur_exact:
  assumes "(json_step stringify jsonParse safeParse)\<^sup>*\<^sup>* (opened_editor stringify st0, st0) (ed, st)" and "je_focused ed"
    and "handleBlur stringify jsonParse safeParse (ed, st) = (ed', st')"
  shows "\<not> je_focused ed' \<and>
    (if je_draft ed = currentJson stringify (je_seen ed) then st' = st \<and> je_text ed' = je_draft ed
     else case importJson jsonParse safeParse (je_draft ed) of
       ImportErr errs \<Rightarrow> st' = st \<and> je_text ed' = je_draft ed \<and>
         (case jsonParse (je_draft ed) of
            Inl m \<Rightarrow> je_parseError ed' = Some m
          | Inr _ \<Rightarrow> je_parseError ed' = None \<and> je_schemaErrors ed' = errs)
     | ImportOk d ws \<Rightarrow> defn st' = d \<and> dirty st' \<and> edgeHandles st' = edgeHandles st \<and>
         layout st' = filter (\<lambda>(i, _). i \<in> set (step_ids d)) (layout st) \<and> allErrors ed' = [] \<and>
         (if currentJson stringify st' = currentJson stringify st then je_text ed' = je_draft ed
          else je_text ed' = currentJson stringify st'))"
proof -
  have draft: "je_draft ed = je_text ed" and seen: "currentJson stringify (je_seen ed) = je_lastSynced ed"
    using json_reachable_synced [OF assms(1)] assms(2) by (simp_all add: editor_synced_def)
  from assms(3) show ?thesis unfolding draft seen
    by (cases rule: handleBlur_cases)
      (auto simp: importJson_def sync_def applyDefinitionFromJson_def allErrors_def)
qed

text \<open>A tab on an empty workflow, in which a text that is not JSON is typed.\<close>

definition malformed_draft :: json_editor where
  "malformed_draft = opened_editor (\<lambda>d _. def_id d) initialState
     \<lparr>je_text := ''x'', je_parseError := Some ''Unexpected token'', je_focused := True, je_draft := ''x''\<rparr>"

theorem json_blur_exact_witness:
  "\<exists>ed. handleBlur (\<lambda>d _. def_id d) (\<lambda>t. if t = ''x'' then Inl ''Unexpected token'' else Inr JNull) (\<lambda>_. Inl [])
      (malformed_draft, initialState) = (ed, initialState) \<and> je_text ed = ''x'' \<and> je_parseError ed = Some ''Unexpected token''"
proof -
  let ?str = "\<lambda>d (_ :: nat option). def_id d"
  let ?parse = "\<lambda>t. if t = ''x'' then Inl ''Unexpected token'' else Inr JNull"
  let ?safe = "\<lambda>_ :: json. Inl [] :: (string list \<times> string) list + workflow_definition"
  let ?o = "opened_editor ?str initialState"
  let ?f = "?o\<lparr>je_focused := True, je_draft := je_text ?o\<rparr>"
  have "json_step ?str ?parse ?safe (?o, initialState) (?f, initialState)"
    by (rule json_step.focus) (simp add: opened_editor_def)
  moreover have "json_step ?str ?parse ?safe (?f, initialState) (malformed_draft, initialState)"
    using json_step.type [of ?f ?str ?parse ?safe initialState "''x''"]
    by (simp add: handleChange_def opened_editor_def malformed_draft_def)
  ultimately have reach: "(json_step ?str ?parse ?safe)\<^sup>*\<^sup>* (?o, initialState) (malformed_draft, initialState)"
    by (meson converse_rtranclp_into_rtranclp rtranclp.rtrancl_refl)
  obtain ed st where r: "handleBlur ?str ?parse ?safe (malformed_draft, initialState) = (ed, st)"
    by (cases "handleBlur ?str ?parse ?safe (malformed_draft, initialState)")
  have "currentJson ?str initialState \<noteq> ''x''"
    by (simp add: currentJson_def exportJson_def embedLayout_def Let_def initialState_def emptyDefinition_def)
  then have "st = initialState \<and> je_text ed = ''x'' \<and> je_parseError ed = Some ''Unexpected token''"
    using json_blur_exact [OF reach _ r] by (simp add: malformed_draft_def opened_editor_def importJson_def)
  then show ?thesis using r by blast
qed

section \<open>What the tab does not do\<close>

text \<open>After the errors of a rejected text, typing the original text again and leaving it keeps them on the screen.\<close>

theorem restored_text_keeps_errors:
  assumes "importJson jsonParse safeParse t = ImportErr errs" "jsonParse t = Inr raw" "t \<noteq> currentJson stringify st"
    and "jsonParse (currentJson stringify st) = Inr raw'"
  shows "\<exists>ed. (json_step stringify jsonParse safeParse)\<^sup>*\<^sup>* (opened_editor stringify st, st) (ed, st) \<and>
    \<not> je_focused ed \<and> je_text ed = currentJson stringify st \<and> je_schemaErrors ed = errs"
proof -
  let ?step = "json_step stringify jsonParse safeParse" and ?j = "currentJson stringify st"
  let ?ed = "\<lambda>shown errs focused draft. \<lparr>je_text = shown, je_parseError = None, je_schemaErrors = errs, je_focused = focused,
    je_lastSynced = ?j, je_draft = draft, je_seen = st\<rparr>"
  have enter: "?step (?ed shown es False d, st) (?ed shown es True shown, st)" for shown es d
    using json_step.focus [of "?ed shown es False d" stringify jsonParse safeParse st] by simp
  have typed: "?step (?ed shown es True shown, st) (?ed v es True v, st)" if "jsonParse v = Inr x" for shown es v x
    using json_step.type [of "?ed shown es True shown" stringify jsonParse safeParse st v] that by (simp add: handleChange_def)
  have "?step (?ed t [] True t, st) (?ed t errs False t, st)"
    using json_step.blur [of "?ed t [] True t" stringify jsonParse safeParse st "?ed t errs False t" st] assms(1-3)
    by (simp add: handleBlur_def tryApply_def applyDefinitionFromJson_def sync_def seen_after_def)
  moreover have "?step (?ed ?j errs True ?j, st) (?ed ?j errs False ?j, st)"
    using json_step.blur [of "?ed ?j errs True ?j" stringify jsonParse safeParse st "?ed ?j errs False ?j" st]
    by (simp add: handleBlur_def seen_after_def)
  ultimately have "?step\<^sup>*\<^sup>* (?ed ?j [] False ?j, st) (?ed ?j errs False ?j, st)"
    using enter [of ?j "[]" ?j] typed [OF assms(2), of ?j "[]"] enter [of t errs t] typed [OF assms(4), of t errs]
    by (meson converse_rtranclp_into_rtranclp rtranclp.rtrancl_refl)
  then show ?thesis by (intro exI [of _ "?ed ?j errs False ?j"]) (simp add: opened_editor_def)
qed

text \<open>A change of the store while the text has the focus is never taken over: the user who leaves the text as it was
  looks at the JSON of the earlier state, without a hint, and the next edit of it, once applied, replaces the newer
  definition.\<close>

theorem change_under_focus_not_shown:
  "\<exists>ed. (json_step stringify jsonParse safeParse)\<^sup>*\<^sup>* (opened_editor stringify st, st) (ed, st') \<and>
     \<not> je_focused ed \<and> je_text ed = currentJson stringify st \<and> allErrors ed = []"
proof -
  let ?step = "json_step stringify jsonParse safeParse"
  let ?o = "opened_editor stringify st"
  let ?f = "?o\<lparr>je_focused := True, je_draft := je_text ?o\<rparr>"
  have "?step (?o, st) (?f, st)" by (rule json_step.focus) (simp add: opened_editor_def)
  moreover have "?step (?f, st) (?f, st')"
    using json_step.outside [of stringify jsonParse safeParse ?f st st'] by (simp add: sync_def seen_after_def)
  moreover have "?step (?f, st') (?f\<lparr>je_focused := False\<rparr>, st')"
    using json_step.blur [of ?f stringify jsonParse safeParse st' "?f\<lparr>je_focused := False\<rparr>" st']
    by (simp add: handleBlur_def opened_editor_def seen_after_def)
  ultimately have "?step\<^sup>*\<^sup>* (?o, st) (?f\<lparr>je_focused := False\<rparr>, st')"
    by (meson converse_rtranclp_into_rtranclp rtranclp.rtrancl_refl)
  then show ?thesis
    by (intro exI [of _ "?f\<lparr>je_focused := False\<rparr>"]) (simp add: opened_editor_def allErrors_def)
qed

text \<open>An applied text leaves the layout it shows in the metadata of the definition, so that an export without the
  layout has one all the same, with positions that are not followed any more.\<close>

theorem applied_text_keeps_layout:
  assumes "importJson jsonParse safeParse (je_text ed) = ImportOk d ws" "je_text ed \<noteq> je_lastSynced ed"
    and "modeller_prop d ''layout'' = Some l" "handleBlur stringify jsonParse safeParse (ed, st) = (ed', st')"
  shows "exportToJson stringify (Some False) st' = stringify (defn st') (Some 2) \<and>
    modeller_prop (defn st') ''layout'' = Some l \<and> layout st' = filter (\<lambda>(i, _). i \<in> set (step_ids d)) (layout st)"
proof -
  have "st' = snd (applyDefinitionFromJson (ImportOk d ws) st)"
    by (cases rule: tryApply_cases [where jsonParse = jsonParse and safeParse = safeParse and typed = "je_text ed" and
          ed = "ed\<lparr>je_focused := False\<rparr>" and st = st])
      (use assms(1,2,4) in \<open>auto simp: handleBlur_def importJson_def\<close>)
  then show ?thesis
    using assms(3) by (simp add: applyDefinitionFromJson_def exportToJson_def exportJson_def)
qed

end
