(* ===== verification/Property_Forms.thy ===== *)
theory Property_Forms
  imports Store Utc_Timestamp
begin

text \<open>
  The forms of the modeller's property panel that compute something, in \<^verbatim>\<open>workflow-modeller/src/panels/property-forms\<close>:
  the branches of a decision (\<^verbatim>\<open>DecisionForm.tsx\<close>), the entries of a transformation (\<^verbatim>\<open>TransformationForm.tsx\<close> with the
  key and value list of \<^verbatim>\<open>FormPrimitives.tsx\<close>), the rules and columns of a decision table (\<^verbatim>\<open>DecisionTableForm.tsx\<close>), the
  branches of a parallel gateway (\<^verbatim>\<open>ParallelGatewayForm.tsx\<close>) and the timers of a step (\<^verbatim>\<open>BoundaryEventsEditor.tsx\<close>).

  A handler gives the property it hands to \<^verbatim>\<open>updateStepProperty\<close>, or \<open>None\<close> when it returns without a change. The order
  of an object's keys is visible in these forms, so objects are built with the order of the language: keys that are
  array indices come first, in ascending order. \<^verbatim>\<open>JSON.parse\<close> and \<^verbatim>\<open>JSON.stringify\<close> are arguments. Parsed rules always have
  outputs, by the default of the schema.
\<close>

section \<open>Objects and arrays\<close>

definition index_key :: "string \<Rightarrow> bool" where
  "index_key k \<longleftrightarrow> k \<noteq> [] \<and> list_all is_digit k \<and> nat_str (number_of k) = k \<and> number_of k < 4294967295"

definition own_order :: "(string, 'v) omap \<Rightarrow> (string, 'v) omap" where
  "own_order m = sort_key (\<lambda>e. number_of (fst e)) (filter (\<lambda>e. index_key (fst e)) m) @ filter (\<lambda>e. \<not> index_key (fst e)) m"

definition from_entries :: "(string \<times> 'v) list \<Rightarrow> (string, 'v) omap" where
  "from_entries es = own_order (fold (\<lambda>e m. map_set (fst e) (snd e) m) es [])"

definition replace_at :: "nat \<Rightarrow> ('a \<Rightarrow> 'a) \<Rightarrow> 'a list \<Rightarrow> 'a list" where
  "replace_at i f xs = (if i < length xs then xs[i := f (xs ! i)] else xs)"

definition remove_at :: "nat \<Rightarrow> 'a list \<Rightarrow> 'a list" where
  "remove_at i xs = take i xs @ drop (Suc i) xs"

definition move_at :: "nat \<Rightarrow> int \<Rightarrow> 'a list \<Rightarrow> 'a list option" where
  "move_at i dir xs =
     (let target = int i + dir in
      if target < 0 \<or> target \<ge> int (length xs) \<or> i \<ge> length xs then None
      else Some (xs[nat target := xs ! i, i := xs ! nat target]))"

section \<open>Branches of a decision\<close>

definition decision_known_vars :: "step list \<Rightarrow> string list" where
  "decision_known_vars ss =
     rev (remdups (rev (concat (map (\<lambda>s. case s of Transformation _ _ ts \<Rightarrow> map_keys ts | _ \<Rightarrow> []) ss))))"

definition decision_commit :: "(string \<times> step_id) list \<Rightarrow> step_prop" where
  "decision_commit es = PConditionalNextSteps (from_entries es)"

definition decision_patchKey :: "nat \<Rightarrow> string \<Rightarrow> (string \<times> step_id) list \<Rightarrow> step_prop" where
  "decision_patchKey i key es = decision_commit (replace_at i (\<lambda>e. (key, snd e)) es)"

definition decision_patchValue :: "nat \<Rightarrow> step_id \<Rightarrow> (string \<times> step_id) list \<Rightarrow> step_prop" where
  "decision_patchValue i v es = decision_commit (replace_at i (\<lambda>e. (fst e, v)) es)"

definition decision_remove :: "nat \<Rightarrow> (string \<times> step_id) list \<Rightarrow> step_prop" where
  "decision_remove i es = decision_commit (remove_at i es)"

definition decision_move :: "nat \<Rightarrow> int \<Rightarrow> (string \<times> step_id) list \<Rightarrow> step_prop option" where
  "decision_move i dir es = map_option decision_commit (move_at i dir es)"

definition decision_add :: "(string \<times> step_id) list \<Rightarrow> step_prop" where
  "decision_add es = decision_commit (es @ [([], [])])"

section \<open>Values as texts\<close>

text \<open>\<^verbatim>\<open>/^-?\d+(\.\d+)?$/\<close> and the number of such a text.\<close>

definition unsigned_decimal :: "string \<Rightarrow> rat option" where
  "unsigned_decimal s =
     (let whole = takeWhile is_digit s; rest = dropWhile is_digit s in
      if whole = [] then None
      else if rest = [] then Some (of_nat (number_of whole))
      else if hd rest = CHR ''.'' \<and> tl rest \<noteq> [] \<and> list_all is_digit (tl rest)
      then Some (of_nat (number_of whole) + of_nat (number_of (tl rest)) / 10 ^ length (tl rest))
      else None)"

definition decimal_text :: "string \<Rightarrow> rat option" where
  "decimal_text s = (if starts_with ''-'' s then map_option uminus (unsigned_decimal (tl s)) else unsigned_decimal s)"

definition literal_brackets :: "string \<Rightarrow> bool" where
  "literal_brackets t \<longleftrightarrow>
     (starts_with [CHR 0x22] t \<and> ends_with [CHR 0x22] t) \<or> (starts_with ''['' t \<and> ends_with '']'' t) \<or> (starts_with ''{'' t \<and> ends_with ''}'' t)"

definition maybeParseLiteral :: "(string \<Rightarrow> json option) \<Rightarrow> string \<Rightarrow> json" where
  "maybeParseLiteral parse raw =
     (let trimmed = trim raw in
      if starts_with ''${'' trimmed \<and> ends_with ''}'' trimmed then JStr raw
      else if trimmed = ''true'' then JBool True
      else if trimmed = ''false'' then JBool False
      else if trimmed = ''null'' then JNull
      else case decimal_text trimmed of
        Some n \<Rightarrow> JNum n
      | None \<Rightarrow> if literal_brackets trimmed then (case parse trimmed of Some v \<Rightarrow> v | None \<Rightarrow> JStr raw) else JStr raw)"

text \<open>The text of the field for a value.\<close>

definition shown_value :: "(json \<Rightarrow> string) \<Rightarrow> json \<Rightarrow> string" where
  "shown_value stringify v = (case v of JStr s \<Rightarrow> s | _ \<Rightarrow> stringify v)"

section \<open>Entries of a transformation\<close>

definition transformation_entries :: "(json \<Rightarrow> string) \<Rightarrow> fields \<Rightarrow> (string \<times> string) list" where
  "transformation_entries stringify ts = map (\<lambda>(k, v). (k, shown_value stringify v)) ts"

definition transformation_commit :: "(string \<Rightarrow> json option) \<Rightarrow> (string \<times> string) list \<Rightarrow> step_prop" where
  "transformation_commit parse es =
     PTransformations (from_entries (map (\<lambda>(k, v). (k, maybeParseLiteral parse v)) (filter (\<lambda>e. fst e \<noteq> []) es)))"

definition list_patchKey :: "nat \<Rightarrow> string \<Rightarrow> (string \<times> string) list \<Rightarrow> (string \<times> string) list" where
  "list_patchKey i key es = replace_at i (\<lambda>e. (key, snd e)) es"

definition list_patchValue :: "nat \<Rightarrow> string \<Rightarrow> (string \<times> string) list \<Rightarrow> (string \<times> string) list" where
  "list_patchValue i v es = replace_at i (\<lambda>e. (fst e, v)) es"

definition list_add :: "(string \<times> string) list \<Rightarrow> (string \<times> string) list" where
  "list_add es = es @ [([], [])]"

section \<open>Decision tables\<close>

definition collect_columns :: "('a \<Rightarrow> string list) \<Rightarrow> 'a list \<Rightarrow> string list" where
  "collect_columns keys rules = fold (\<lambda>k seen. if k \<in> set seen then seen else seen @ [k]) (concat (map keys rules)) []"

definition outputs_of :: "decision_table_rule \<Rightarrow> fields" where
  "outputs_of r = (case rule_outputs r of Some f \<Rightarrow> f | None \<Rightarrow> [])"

definition collectInputColumns :: "decision_table_rule list \<Rightarrow> string list" where
  "collectInputColumns rules = collect_columns (\<lambda>r. map_keys (rule_when r)) rules"

definition collectOutputColumns :: "decision_table_rule list \<Rightarrow> string list" where
  "collectOutputColumns rules = collect_columns (\<lambda>r. map_keys (outputs_of r)) rules"

definition with_when :: "((string, string) omap \<Rightarrow> (string, string) omap) \<Rightarrow> decision_table_rule \<Rightarrow> decision_table_rule" where
  "with_when f r = r\<lparr>rule_when := f (rule_when r)\<rparr>"

definition with_outputs :: "(fields \<Rightarrow> fields) \<Rightarrow> decision_table_rule \<Rightarrow> decision_table_rule" where
  "with_outputs f r = r\<lparr>rule_outputs := Some (f (outputs_of r))\<rparr>"

definition object_set :: "string \<Rightarrow> 'v \<Rightarrow> (string, 'v) omap \<Rightarrow> (string, 'v) omap" where
  "object_set k v m = own_order (map_set k v m)"

definition rename_key :: "string \<Rightarrow> string \<Rightarrow> (string, 'v) omap \<Rightarrow> (string, 'v) omap" where
  "rename_key old new m =
     (if map_has m old then from_entries (map (\<lambda>(k, v). (if k = old then new else k, v)) m) else m)"

text \<open>The table shows an absent output as the empty text; its \<^verbatim>\<open>parseOutputValue\<close> repeats the text of \<^verbatim>\<open>maybeParseLiteral\<close>.\<close>

definition renderOutputValue :: "(json \<Rightarrow> string) \<Rightarrow> json option \<Rightarrow> string" where
  "renderOutputValue stringify v = (case v of None \<Rightarrow> [] | Some x \<Rightarrow> shown_value stringify x)"

definition parseOutputValue :: "(string \<Rightarrow> json option) \<Rightarrow> string \<Rightarrow> json" where
  "parseOutputValue parse raw = maybeParseLiteral parse raw"

definition patchCell :: "nat \<Rightarrow> string \<Rightarrow> string \<Rightarrow> decision_table_rule list \<Rightarrow> decision_table_rule list" where
  "patchCell i column expr rules =
     replace_at i (with_when (\<lambda>w. if expr = [] then map_delete column w else object_set column expr w)) rules"

definition patchOutputCell :: "(string \<Rightarrow> json option) \<Rightarrow> nat \<Rightarrow> string \<Rightarrow> string \<Rightarrow> decision_table_rule list \<Rightarrow> decision_table_rule list" where
  "patchOutputCell parse i column raw rules =
     replace_at i (with_outputs (\<lambda>f. if raw = [] then map_delete column f else object_set column (parseOutputValue parse raw) f)) rules"

text \<open>Leaving the field of an output: the cell is written only when its text has changed.\<close>

definition blurOutputCell :: "(json \<Rightarrow> string) \<Rightarrow> (string \<Rightarrow> json option) \<Rightarrow> nat \<Rightarrow> string \<Rightarrow> string \<Rightarrow> decision_table_rule list \<Rightarrow> decision_table_rule list" where
  "blurOutputCell stringify parse i column raw rules =
     (if i < length rules \<and> renderOutputValue stringify (map_get (outputs_of (rules ! i)) column) \<noteq> raw
      then patchOutputCell parse i column raw rules else rules)"

definition addRule :: "decision_table_rule list \<Rightarrow> decision_table_rule list" where
  "addRule rules =
     rules @ [\<lparr>rule_when = from_entries (map (\<lambda>c. (c, [])) (collectInputColumns rules)),
               rule_outputs = Some (from_entries (map (\<lambda>c. (c, JStr [])) (collectOutputColumns rules))), rule_extra = []\<rparr>]"

text \<open>The dialog for a column name: \<open>answer\<close> is \<open>None\<close> when it is cancelled; a name that is taken is not accepted.\<close>

definition addInputColumn :: "string option \<Rightarrow> decision_table_rule list \<Rightarrow> decision_table_rule list option" where
  "addInputColumn answer rules =
     (case answer of
        None \<Rightarrow> None
      | Some name \<Rightarrow>
          if name \<in> set (collectInputColumns rules) \<or> name = [] then None
          else Some (map (with_when (object_set name [])) rules))"

definition addOutputColumn :: "string option \<Rightarrow> decision_table_rule list \<Rightarrow> decision_table_rule list option" where
  "addOutputColumn answer rules =
     (case answer of
        None \<Rightarrow> None
      | Some name \<Rightarrow>
          if name \<in> set (collectOutputColumns rules) \<or> name = [] \<or> rules = [] then None
          else Some (map (with_outputs (object_set name (JStr []))) rules))"

definition renameInputColumn :: "string \<Rightarrow> string option \<Rightarrow> decision_table_rule list \<Rightarrow> decision_table_rule list option" where
  "renameInputColumn old answer rules =
     (case answer of
        None \<Rightarrow> None
      | Some new \<Rightarrow>
          if new = old \<or> new \<in> set (collectInputColumns rules) \<or> new = [] then None
          else Some (map (with_when (rename_key old new)) rules))"

definition renameOutputColumn :: "string \<Rightarrow> string option \<Rightarrow> decision_table_rule list \<Rightarrow> decision_table_rule list option" where
  "renameOutputColumn old answer rules =
     (case answer of
        None \<Rightarrow> None
      | Some new \<Rightarrow>
          if new = old \<or> new \<in> set (collectOutputColumns rules) \<or> new = [] then None
          else Some (map (with_outputs (rename_key old new)) rules))"

definition removeInputColumn :: "string \<Rightarrow> decision_table_rule list \<Rightarrow> decision_table_rule list" where
  "removeInputColumn name rules = map (with_when (map_delete name)) rules"

definition removeOutputColumn :: "string \<Rightarrow> decision_table_rule list \<Rightarrow> decision_table_rule list" where
  "removeOutputColumn name rules = map (with_outputs (map_delete name)) rules"

definition commitRules :: "decision_table \<Rightarrow> decision_table_rule list \<Rightarrow> step_prop" where
  "commitRules tbl rules = PDecisionTable (tbl\<lparr>tbl_rules := rules\<rparr>)"

section \<open>Parallel branches and timers\<close>

definition patchBranch :: "nat \<Rightarrow> step_id \<Rightarrow> step_id list \<Rightarrow> step_prop" where
  "patchBranch i v ts = PParallelNextSteps (replace_at i (\<lambda>_. v) ts)"

definition addBranch :: "step_id list \<Rightarrow> step_prop" where
  "addBranch ts = PParallelNextSteps (ts @ [[]])"

definition removeBranch :: "nat \<Rightarrow> step_id list \<Rightarrow> step_prop" where
  "removeBranch i ts = PParallelNextSteps (remove_at i ts)"

definition events_commit :: "boundary_event list \<Rightarrow> step_prop" where
  "events_commit es = PBoundaryEvents (if es = [] then None else Some es)"

definition events_patch :: "nat \<Rightarrow> (boundary_event \<Rightarrow> boundary_event) \<Rightarrow> boundary_event list \<Rightarrow> step_prop" where
  "events_patch i f es = events_commit (replace_at i f es)"

definition events_remove :: "nat \<Rightarrow> boundary_event list \<Rightarrow> step_prop" where
  "events_remove i es = events_commit (remove_at i es)"

definition events_add :: "boundary_event list \<Rightarrow> step_prop" where
  "events_add es =
     events_commit (es @ [\<lparr>evt_type = ''TIMER'', evt_duration = ''PT1H'', evt_interrupting = False, evt_targetStepId = [], evt_extra = []\<rparr>])"

section \<open>Lemmas\<close>

lemma map_of_update_other:
  assumes "i < length ts" "k \<noteq> fst (ts ! i)"
  shows "map_of ((map (\<lambda>(k, x). (k, f x)) ts)[i := (fst (ts ! i), y)]) k = map_option f (map_of ts k)"
  using assms
proof (induction ts arbitrary: i)
  case (Cons a ts)
  then show ?case by (cases i; cases a) (simp_all add: map_of_map)
qed simp

lemma map_of_eq_set: "distinct (map fst xs) \<Longrightarrow> distinct (map fst ys) \<Longrightarrow> set xs = set ys \<Longrightarrow> map_of xs = map_of ys"
  by (rule map_of_inject_set [THEN iffD2])

lemma distinct_map_sort: "distinct (map f (sort_key k xs)) \<longleftrightarrow> distinct (map f xs)"
  by (simp add: distinct_map)

lemma insort_key_map: "insort_key f (g x) (map g xs) = map g (insort_key (\<lambda>x. f (g x)) x xs)"
  by (induction xs) simp_all

lemma sort_key_map: "sort_key f (map g xs) = map g (sort_key (\<lambda>x. f (g x)) xs)"
  by (induction xs) (simp_all add: insort_key_map)

lemma update_append_other: "k \<notin> fst ` set m \<Longrightarrow> AList.update k v m = m @ [(k, v)]"
  by (induction m) auto

lemma own_order_set [simp]: "set (own_order m) = set m"
  by (auto simp: own_order_def)

lemma own_order_distinct: "distinct (map fst m) \<Longrightarrow> distinct (map fst (own_order m))"
  by (auto simp: own_order_def distinct_map_sort distinct_map_filter)

lemma map_get_own_order: "distinct (map fst m) \<Longrightarrow> map_get (own_order m) k = map_get m k"
  unfolding map_get_def by (subst map_of_eq_set [OF own_order_distinct _ own_order_set]) simp_all

lemma own_order_map: "own_order (map (\<lambda>(k, v). (k, f v)) m) = map (\<lambda>(k, v). (k, f v)) (own_order m)"
  by (simp add: own_order_def filter_map comp_def split_def sort_key_map)

lemma fold_set_get: "map_get (fold (\<lambda>e m. map_set (fst e) (snd e) m) es m) k = (case map_of (rev es) k of Some v \<Rightarrow> Some v | None \<Rightarrow> map_get m k)"
  by (induction es arbitrary: m) (auto split: option.split)

lemma fold_set_distinct: "distinct (map fst m) \<Longrightarrow> distinct (map fst (fold (\<lambda>e m. map_set (fst e) (snd e) m) es m))"
  using omap.invar_fold_set [of m fst snd es] by (simp add: map_keys_def)

lemma from_entries_get: "map_get (from_entries es) k = map_of (rev es) k"
  unfolding from_entries_def by (subst map_get_own_order) (auto simp: fold_set_get fold_set_distinct split: option.split)

lemma from_entries_keys: "distinct (map fst (from_entries es))" "fst ` set (from_entries es) = fst ` set es"
proof -
  show "distinct (map fst (from_entries es))" unfolding from_entries_def by (intro own_order_distinct fold_set_distinct) simp
  show "fst ` set (from_entries es) = fst ` set es"
    using omap.keys_fold_set [of fst snd es "[]"] by (simp add: from_entries_def map_keys_def)
qed

lemma from_entries_length: "length (from_entries es) = card (fst ` set es)"
  using distinct_card [OF from_entries_keys(1), of es] from_entries_keys(2) [of es] by simp

text \<open>Entries with different keys are kept as they are, up to the order of the object.\<close>

lemma fold_set_append: "distinct (map fst (m @ es)) \<Longrightarrow> fold (\<lambda>e m. map_set (fst e) (snd e) m) es m = m @ es"
proof (induction es arbitrary: m)
  case (Cons e es)
  have "map_set (fst e) (snd e) m = m @ [e]" using Cons.prems by (simp add: map_set_def update_append_other)
  then show ?case using Cons.IH [of "m @ [e]"] Cons.prems by simp
qed simp

lemma from_entries_own: "distinct (map fst es) \<Longrightarrow> from_entries es = own_order es"
  using fold_set_append [of "[]" es] by (simp add: from_entries_def)

lemma replace_at_split: "i < length xs \<Longrightarrow> replace_at i f xs = take i xs @ f (xs ! i) # drop (Suc i) xs"
  by (simp add: replace_at_def upd_conv_take_nth_drop)

lemma remove_at_set: "i < length xs \<Longrightarrow> set (replace_at i f xs) = insert (f (xs ! i)) (set (remove_at i xs))"
  by (simp add: replace_at_split remove_at_def)

lemma remove_at_distinct:
  assumes "distinct (map fst xs)" "i < length xs"
  shows "distinct (map fst (remove_at i xs))" "fst (xs ! i) \<notin> fst ` set (remove_at i xs)" "length (remove_at i xs) = length xs - 1"
proof -
  have "xs = take i xs @ xs ! i # drop (Suc i) xs" by (rule id_take_nth_drop [OF assms(2)])
  then have "distinct (map fst (take i xs @ xs ! i # drop (Suc i) xs))" using assms(1) by simp
  then show "distinct (map fst (remove_at i xs))" "fst (xs ! i) \<notin> fst ` set (remove_at i xs)" "length (remove_at i xs) = length xs - 1"
    using assms(2) by (auto simp: remove_at_def)
qed

section \<open>Editing a decision\<close>

text \<open>Editing the expression of a branch: a new expression replaces the old one and keeps the target and all other branches; but
  an expression that another branch already has merges the two, so that one branch and its target are lost without a message.\<close>

theorem decision_expression_edit:
  assumes "distinct (map fst es)" "i < length es" "decision_patchKey i key es = PConditionalNextSteps bs"
  shows "if key \<in> fst ` set (remove_at i es) then length bs = length es - 1
    else length bs = length es \<and> map_get bs key = Some (snd (es ! i)) \<and> (\<forall>e \<in> set (remove_at i es). map_get bs (fst e) = Some (snd e))"
proof -
  let ?new = "replace_at i (\<lambda>e. (key, snd e)) es" and ?rest = "remove_at i es"
  have bs: "bs = from_entries ?new" using assms(3) by (simp add: decision_patchKey_def decision_commit_def)
  note rest = remove_at_distinct [OF assms(1,2)]
  have keys: "fst ` set ?new = insert key (fst ` set ?rest)" using remove_at_set [OF assms(2)] by simp
  have card: "card (fst ` set ?rest) = length es - 1" using distinct_card [OF rest(1)] rest(3) by simp
  show ?thesis
  proof (cases "key \<in> fst ` set ?rest")
    case True
    then show ?thesis using card by (simp add: bs from_entries_length keys insert_absorb)
  next
    case False
    have "distinct (map fst ?new)" using False rest(1) assms(2) by (auto simp: replace_at_split remove_at_def)
    then have "map_get bs k = map_of ?new k" for k
      unfolding bs from_entries_get by (simp add: map_of_eq_set [of "rev ?new" ?new] rev_map [symmetric])
    moreover have "map_of ?new (fst e) = Some (snd e)" if "e \<in> insert (key, snd (es ! i)) (set ?rest)" for e
      using that remove_at_set [OF assms(2), of "\<lambda>e. (key, snd e)"] \<open>distinct (map fst ?new)\<close> by (intro map_of_is_SomeI) auto
    moreover have "length bs = length es" using False card assms(2) by (simp add: bs from_entries_length keys)
    ultimately show ?thesis using False by force
  qed
qed

text \<open>Moving a branch swaps it with its neighbour, unless an expression is an array index.\<close>

lemma decision_move_swaps:
  assumes "distinct (map fst es)" "\<forall>e \<in> set es. \<not> index_key (fst e)" "decision_move i dir es = Some (PConditionalNextSteps bs)"
  shows "int i + dir < int (length es) \<and> bs = es[nat (int i + dir) := es ! i, i := es ! nat (int i + dir)]"
proof -
  let ?t = "nat (int i + dir)" let ?new = "es[?t := es ! i, i := es ! ?t]"
  have t: "?t < length es" "i < length es" "int i + dir < int (length es)" "bs = from_entries ?new"
    using assms(3) by (auto simp: decision_move_def move_at_def decision_commit_def Let_def split: if_splits)
  have s: "set ?new = set es" using t(1,2) by simp
  have "map fst ?new = (map fst es)[?t := map fst es ! i, i := map fst es ! ?t]" using t(1,2) by (simp add: map_update)
  then have "distinct (map fst ?new)" using assms(1) t(1,2) distinct_swap [of ?t "map fst es" i] by simp
  moreover have "own_order ?new = ?new"
    using assms(2) s by (auto simp: own_order_def filter_empty_conv filter_id_conv)
  ultimately show ?thesis using t(3,4) by (simp add: from_entries_own)
qed

section \<open>Editing a transformation\<close>

text \<open>Editing one entry of a transformation reads every entry again: the edited value is what its text says, and every other value
  becomes what the text shown for it says. A value is therefore kept only when its text reads back as it; the text \<open>true\<close> is not
  such a value, it turns into the boolean.\<close>

theorem transformation_edit_rereads:
  assumes "distinct (map fst ts)" "[] \<notin> fst ` set ts" "i < length ts"
    and "transformation_commit parse (list_patchValue i v (transformation_entries stringify ts)) = PTransformations ts'"
  shows "map_get ts' (fst (ts ! i)) = Some (maybeParseLiteral parse v) \<and>
    (\<forall>k. k \<noteq> fst (ts ! i) \<longrightarrow> map_get ts' k = map_option (\<lambda>x. maybeParseLiteral parse (shown_value stringify x)) (map_get ts k)) \<and>
    maybeParseLiteral parse (shown_value stringify (JStr ''true'')) = JBool True"
proof -
  let ?es = "transformation_entries stringify ts" and ?p = "maybeParseLiteral parse"
  let ?f = "\<lambda>x. ?p (shown_value stringify x)"
  have fst_es: "map fst ?es = map fst ts" by (simp add: transformation_entries_def split_def comp_def)
  have len: "i < length ?es" using assms(3) by (simp add: transformation_entries_def)
  let ?new = "list_patchValue i v ?es"
  have new: "?new = ?es[i := (fst (ts ! i), v)]"
    using assms(3) len by (simp add: list_patchValue_def replace_at_def transformation_entries_def split_def)
  have keys: "map fst ?new = map fst ts"
    unfolding new map_update fst_es using assms(3) by (simp add: list_update_same_conv)
  have ne: "filter (\<lambda>e. fst e \<noteq> []) ?new = ?new"
  proof -
    have "fst ` set ?new = fst ` set ts" using arg_cong [OF keys, of set] by simp
    then have "[] \<notin> fst ` set ?new" using assms(2) by simp
    then show ?thesis by (force simp: filter_id_conv)
  qed
  let ?ps = "map (\<lambda>(k, x). (k, ?p x)) ?new"
  have pk: "map fst ?ps = map fst ts" unfolding keys [symmetric] by (simp add: split_def comp_def)
  have d: "distinct (map fst ?ps)" unfolding pk by (rule assms(1))
  have "ts' = from_entries ?ps" using assms(4) unfolding transformation_commit_def ne by simp
  then have get: "map_get ts' k = map_of ?ps k" for k
    using map_get_own_order [OF d] from_entries_own [OF d] by (simp add: map_get_def)
  have ps: "?ps = (map (\<lambda>(k, x). (k, ?f x)) ts)[i := (fst (ts ! i), ?p v)]"
    unfolding new map_update by (simp add: transformation_entries_def split_def comp_def)
  have split: "ts = take i ts @ ts ! i # drop (Suc i) ts" by (rule id_take_nth_drop [OF assms(3)])
  have "map_get ts' (fst (ts ! i)) = Some (?p v)"
    unfolding get by (rule map_of_is_SomeI [OF d]) (simp add: ps assms(3) set_update_memI)
  moreover have "map_get ts' k = map_option ?f (map_get ts k)" if "k \<noteq> fst (ts ! i)" for k
    unfolding get ps unfolding map_get_def by (rule map_of_update_other [OF assms(3) that])
  moreover have "?p (shown_value stringify (JStr ''true'')) = JBool True"
  proof -
    have "trim ''true'' = ''true''" by code_simp
    then show ?thesis by (simp add: maybeParseLiteral_def shown_value_def starts_with_def Let_def)
  qed
  ultimately show ?thesis by blast
qed

section \<open>Editing a decision table\<close>

lemma fold_seen: "set (fold (\<lambda>k seen. if k \<in> set seen then seen else seen @ [k]) ks acc) = set acc \<union> set ks"
  by (induction ks arbitrary: acc) auto

lemma collect_columns_set: "set (collect_columns keys rules) = (\<Union>r \<in> set rules. set (keys r))"
  by (simp add: collect_columns_def fold_seen)

lemma collect_columns_distinct: "distinct (collect_columns keys rules)"
proof -
  have "distinct acc \<Longrightarrow> distinct (fold (\<lambda>k seen. if k \<in> set seen then seen else seen @ [k]) ks acc)" for ks acc :: "string list"
    by (induction ks arbitrary: acc) auto
  then show ?thesis by (simp add: collect_columns_def)
qed

lemma object_set_get: "distinct (map fst m) \<Longrightarrow> map_get (object_set k v m) k' = (if k' = k then Some v else map_get m k')"
  using distinct_update [of m k v] by (simp add: object_set_def map_get_own_order map_set_def [symmetric])

lemma map_of_rename:
  assumes "new \<notin> fst ` set m" "new \<noteq> old"
  shows "map_of (map (\<lambda>(k, v). (if k = old then new else k, v)) m) k = (if k = new then map_of m old else if k = old then None else map_of m k)"
  using assms(1)
proof (induction m)
  case (Cons e m)
  obtain a b where e: "e = (a, b)" by (cases e)
  have n: "new \<noteq> a" "new \<notin> fst ` set m" using Cons.prems by (auto simp: e)
  show ?case using Cons.IH [OF n(2)] n(1) assms(2) by (cases "a = old"; cases "k = new"; cases "k = old") (simp_all add: e)
qed simp

lemma rename_key_get:
  assumes "distinct (map fst m)" "new \<notin> fst ` set m" "new \<noteq> old"
  shows "map_get (rename_key old new m) k = (if k = new then map_get m old else if k = old then None else map_get m k)"
proof (cases "map_has m old")
  case True
  let ?ren = "\<lambda>k. if k = old then new else k"
  let ?es = "map (\<lambda>(k, v). (?ren k, v)) m"
  have keys: "map fst ?es = map ?ren (map fst m)" by (simp add: split_def comp_def)
  have "inj_on ?ren (set (map fst m))" using assms(2) by (auto simp: inj_on_def)
  then have d: "distinct (map fst ?es)" unfolding keys using assms(1) by (simp only: distinct_map)
  have "map_get (rename_key old new m) k = map_of ?es k"
    using True map_get_own_order [OF d] from_entries_own [OF d] by (simp add: rename_key_def map_get_def)
  also have "\<dots> = (if k = new then map_of m old else if k = old then None else map_of m k)"
    by (rule map_of_rename [OF assms(2,3)])
  finally show ?thesis by (simp add: map_get_def)
next
  case False
  then have "map_get m old = None" by (simp add: map_has_def)
  moreover have "map_get m new = None" using assms(2) by (auto simp: map_get_def map_of_eq_None_iff)
  ultimately show ?thesis using False by (simp add: rename_key_def)
qed

text \<open>The objects of the rules hold every key once.\<close>

definition rules_ok :: "decision_table_rule list \<Rightarrow> bool" where
  "rules_ok rules \<longleftrightarrow> (\<forall>r \<in> set rules. distinct (map fst (rule_when r)) \<and> distinct (map fst (outputs_of r)))"

text \<open>Changing the input columns of a decision table touches nothing but that column: adding one gives every rule an empty cell,
  renaming one moves its cell in every rule, removing one takes it out, and each leaves every other cell and the outputs alone. A
  name that is already a column is never accepted, so no column is overwritten.\<close>

theorem input_columns_edit:
  assumes "rules_ok rules" "i < length rules"
  shows "(\<forall>rules'. addInputColumn (Some name) rules = Some rules' \<longrightarrow> length rules' = length rules \<and> outputs_of (rules' ! i) = outputs_of (rules ! i) \<and>
      (\<forall>k. map_get (rule_when (rules' ! i)) k = (if k = name then Some [] else map_get (rule_when (rules ! i)) k))) \<and>
    (\<forall>rules'. renameInputColumn old (Some name) rules = Some rules' \<longrightarrow> length rules' = length rules \<and> outputs_of (rules' ! i) = outputs_of (rules ! i) \<and>
      (\<forall>k. map_get (rule_when (rules' ! i)) k =
        (if k = name then map_get (rule_when (rules ! i)) old else if k = old then None else map_get (rule_when (rules ! i)) k))) \<and>
    (length (removeInputColumn old rules) = length rules \<and> outputs_of (removeInputColumn old rules ! i) = outputs_of (rules ! i) \<and>
      (\<forall>k. map_get (rule_when (removeInputColumn old rules ! i)) k = (if k = old then None else map_get (rule_when (rules ! i)) k)))"
proof -
  have r: "rules ! i \<in> set rules" using assms(2) by simp
  then have d: "distinct (map fst (rule_when (rules ! i)))" using assms(1) by (simp add: rules_ok_def)
  have new: "name \<notin> fst ` set (rule_when (rules ! i))" if "name \<notin> set (collectInputColumns rules)"
    using that r by (auto simp: collectInputColumns_def collect_columns_set map_keys_def)
  have out: "outputs_of (with_when f x) = outputs_of x" for f x by (simp add: with_when_def outputs_of_def)
  show ?thesis
    using assms(2) object_set_get [OF d] rename_key_get [OF d new]
    by (simp add: addInputColumn_def renameInputColumn_def removeInputColumn_def out) (simp add: with_when_def)
qed

text \<open>Unlike a transformation, a decision table writes only the cell that changed: leaving a field untouched changes nothing, and an
  edit leaves every other output of the rule as it is.\<close>

lemma output_cell_edit:
  assumes "rules_ok rules" "i < length rules"
  shows "blurOutputCell stringify parse i column (renderOutputValue stringify (map_get (outputs_of (rules ! i)) column)) rules = rules"
    "k \<noteq> column \<Longrightarrow> map_get (outputs_of (blurOutputCell stringify parse i column raw rules ! i)) k = map_get (outputs_of (rules ! i)) k"
proof -
  have d: "distinct (map fst (outputs_of (rules ! i)))" using assms by (simp add: rules_ok_def)
  show "blurOutputCell stringify parse i column (renderOutputValue stringify (map_get (outputs_of (rules ! i)) column)) rules = rules"
    by (simp add: blurOutputCell_def)
  show "k \<noteq> column \<Longrightarrow> map_get (outputs_of (blurOutputCell stringify parse i column raw rules ! i)) k = map_get (outputs_of (rules ! i)) k"
    using assms(2) object_set_get [OF d]
    by (simp add: blurOutputCell_def patchOutputCell_def replace_at_def with_outputs_def) (simp add: outputs_of_def)
qed

definition sample_rules :: "decision_table_rule list" where
  "sample_rules = [\<lparr>rule_when = [(''score'', ''> 650''), (''age'', ''>= 18'')], rule_outputs = Some [(''ok'', JBool True)], rule_extra = []\<rparr>,
     \<lparr>rule_when = [(''score'', ''<= 650'')], rule_outputs = Some [(''ok'', JBool False)], rule_extra = []\<rparr>]"

lemma sample_rules_ok: "rules_ok sample_rules"
  by (simp add: rules_ok_def sample_rules_def outputs_of_def)

theorem input_columns_edit_witness:
  "\<exists>rules. renameInputColumn ''score'' (Some ''rating'') sample_rules = Some rules \<and> map_get (rule_when (rules ! 0)) ''rating'' = Some ''> 650'' \<and>
     map_get (rule_when (rules ! 0)) ''age'' = Some ''>= 18''"
proof -
  have c: "collectInputColumns sample_rules = [''score'', ''age'']" by (simp add: collectInputColumns_def collect_columns_def sample_rules_def map_keys_def)
  then obtain rules where rules: "renameInputColumn ''score'' (Some ''rating'') sample_rules = Some rules" by (simp add: renameInputColumn_def)
  have "0 < length sample_rules" by (simp add: sample_rules_def)
  from input_columns_edit [OF sample_rules_ok this, of "''rating''" "''score''"] rules
  have "\<forall>k. map_get (rule_when (rules ! 0)) k = (if k = ''rating'' then map_get (rule_when (sample_rules ! 0)) ''score'' else if k = ''score'' then None
      else map_get (rule_when (sample_rules ! 0)) k)" by blast
  then have "map_get (rule_when (rules ! 0)) ''rating'' = Some ''> 650'' \<and> map_get (rule_when (rules ! 0)) ''age'' = Some ''>= 18''"
    by (simp add: sample_rules_def)
  with rules show ?thesis by blast
qed

theorem decision_expression_edit_witness:
  "length (from_entries [(''a'', ''x''), (''a'', ''y'')]) = 1"
proof -
  let ?es = "[(''a'', ''x''), (''b'', ''y'')]"
  have "decision_patchKey 1 ''a'' ?es = PConditionalNextSteps (from_entries [(''a'', ''x''), (''a'', ''y'')])"
    by (simp add: decision_patchKey_def decision_commit_def replace_at_def)
  from decision_expression_edit [OF _ _ this] show ?thesis by (simp add: remove_at_def)
qed

theorem transformation_edit_rereads_witness:
  "map_get (from_entries [(''a'', JBool True), (''b'', JNum 1)]) ''a'' = Some (JBool True)"
proof -
  let ?ts = "[(''a'', JStr ''true''), (''b'', JNum 7)]" and ?no = "\<lambda>_ :: string. None :: json option" and ?show = "\<lambda>_ :: json. ''7''"
  have "trim ''true'' = ''true''" "trim ''1'' = ''1''" by code_simp+
  then have p: "maybeParseLiteral ?no ''true'' = JBool True" "maybeParseLiteral ?no ''1'' = JNum 1"
    by (simp_all add: maybeParseLiteral_def starts_with_def decimal_text_def unsigned_decimal_def is_digit_def number_of_def Let_def)
  then have "transformation_commit ?no (list_patchValue 1 ''1'' (transformation_entries ?show ?ts)) = PTransformations (from_entries [(''a'', JBool True), (''b'', JNum 1)])"
    by (simp add: transformation_commit_def list_patchValue_def replace_at_def transformation_entries_def shown_value_def)
  from transformation_edit_rereads [OF _ _ _ this] p(1) show ?thesis by (simp add: shown_value_def)
qed

end
