(* ===== verification/Canvas.thy ===== *)
theory Canvas
  imports Property_Forms
begin

text \<open>
  The canvas of the modeller, \<^verbatim>\<open>workflow-modeller/src/canvas/Canvas.tsx\<close>: the nodes and edges given to the diagram
  package and the gestures on it. A gesture is a function of the state of the store; the answer of the dialog for a
  branch expression is an argument, \<open>None\<close> when it is cancelled. The dialog is modal, so the state does not change
  while it is open.
\<close>

section \<open>What is drawn\<close>

record flow_node =
  fn_id :: step_id
  fn_type :: step_type
  fn_position :: position
  fn_step :: step
  fn_isEntry :: bool

definition mapToFlowNodes :: "graph_node list \<Rightarrow> layout \<Rightarrow> flow_node list" where
  "mapToFlowNodes nodes lay =
     map (\<lambda>n. \<lparr>fn_id = n_id n, fn_type = n_type n,
        fn_position = (case map_get lay (n_id n) of Some p \<Rightarrow> p | None \<Rightarrow> \<lparr>pos_x = 0, pos_y = 0\<rparr>),
        fn_step = n_step n, fn_isEntry = n_isEntry n\<rparr>) nodes"

definition boundaryEventFor :: "step \<Rightarrow> nat \<Rightarrow> boundary_event option" where
  "boundaryEventFor s index =
     (case s of
        ServiceTask _ _ _ _ _ (Some es) \<Rightarrow> if index < length es then Some (es ! index) else None
      | step.UserTask _ _ _ (Some es) \<Rightarrow> if index < length es then Some (es ! index) else None
      | Wait _ _ (Some es) \<Rightarrow> if index < length es then Some (es ! index) else None
      | _ \<Rightarrow> None)"

datatype flow_data = No_Data | Expression string | Timer "string option" bool

record flow_edge =
  fe_id :: string
  fe_source :: step_id
  fe_target :: step_id
  fe_type :: string
  fe_sourceHandle :: "string option"
  fe_data :: flow_data

definition mapToFlowEdges :: "graph_edge list \<Rightarrow> graph_node list \<Rightarrow> flow_edge list" where
  "mapToFlowEdges es nodes =
     (let byId = fold (\<lambda>n m. map_set (n_id n) (n_step n) m) nodes [] in
      map (\<lambda>e. \<lparr>fe_id = e_id e, fe_source = e_from e, fe_target = e_to e, fe_type = variant_kind (e_variant e), fe_sourceHandle = e_sourceHandle e,
        fe_data = (case e_variant e of
            Conditional expression \<Rightarrow> Expression expression
          | Boundary index \<Rightarrow>
              (case Option.bind (map_get byId (e_from e)) (\<lambda>s. boundaryEventFor s index) of
                 Some evt \<Rightarrow> Timer (Some (evt_duration evt)) (evt_interrupting evt)
               | None \<Rightarrow> Timer None False)
          | _ \<Rightarrow> No_Data)\<rparr>) es)"

text \<open>The layout drawn, and the one stored after the layout engine has answered.\<close>

definition drawn_layout :: "layout \<Rightarrow> layout \<Rightarrow> layout" where
  "drawn_layout elk stored = fold (\<lambda>e m. map_set (fst e) (snd e) m) stored elk"

definition persist_layout :: "layout \<Rightarrow> workflow_state \<Rightarrow> workflow_state" where
  "persist_layout positions st =
     (let toSave = filter (\<lambda>e. \<not> map_has (layout st) (fst e)) positions in
      if toSave = [] then st else st\<lparr>layout := fold (\<lambda>e m. map_set (fst e) (snd e) m) toSave (layout st)\<rparr>)"

section \<open>Gestures\<close>

definition STEP_TYPE_SET :: "step_type list" where
  "STEP_TYPE_SET = [SERVICE_TASK, USER_TASK, DECISION, DECISION_TABLE, TRANSFORMATION, WAIT, PARALLEL_GATEWAY, JOIN_GATEWAY, END]"

definition onDrop :: "string \<Rightarrow> position \<Rightarrow> workflow_state \<Rightarrow> workflow_state" where
  "onDrop raw pos st =
     (case List.find (\<lambda>t. type_text t = raw) STEP_TYPE_SET of
        None \<Rightarrow> st
      | Some t \<Rightarrow> (let (i, st') = addStep \<lparr>tpl_type = t, tpl_id = None, tpl_name = None\<rparr> st in setLayout i pos st'))"

text \<open>The property a connection sets, if any.\<close>

definition connection_prop :: "string option \<Rightarrow> step_id \<Rightarrow> step \<Rightarrow> step_prop option" where
  "connection_prop answer target src =
     (case src of
        Decision c branches \<Rightarrow>
          (case answer of
             None \<Rightarrow> None
           | Some expr \<Rightarrow> if expr = [] then None else Some (PConditionalNextSteps (object_set expr target branches)))
      | ParallelGateway c targets j \<Rightarrow>
          if target \<in> set targets then None else Some (PParallelNextSteps (targets @ [target]))
      | End c \<Rightarrow> None
      | _ \<Rightarrow> Some (PNextStep (Some target)))"

definition onConnect :: "string option \<Rightarrow> step_id option \<Rightarrow> step_id option \<Rightarrow> workflow_state \<Rightarrow> workflow_state option" where
  "onConnect answer from target st =
     (case (from, target) of
        (Some i, Some t) \<Rightarrow>
          if i = [] \<or> t = [] \<or> i = t then Some st
          else (case List.find (\<lambda>s. step_id s = i) (steps (defn st)) of
                  None \<Rightarrow> Some st
                | Some src \<Rightarrow>
                    (case connection_prop answer t src of
                       None \<Rightarrow> Some st
                     | Some prop \<Rightarrow> updateStepProperty i prop st))
      | _ \<Rightarrow> Some st)"

section \<open>A connection is drawn\<close>

lemma map_opt_unique:
  assumes "distinct (map g xs)" "x \<in> set xs" "f x = Some y"
  shows "map_opt (\<lambda>z. if g z = g x then f z else Some z) xs = Some (map (\<lambda>z. if g z = g x then y else z) xs)"
  using assms(1,2)
proof (induction xs)
  case (Cons a xs)
  show ?case
  proof (cases "a = x")
    case True
    then have "g x \<notin> g ` set xs" using Cons.prems(1) by simp
    then have "map_opt (\<lambda>z. if g z = g x then f z else Some z) xs = Some xs" "map (\<lambda>z. if g z = g x then y else z) xs = xs"
      by (induction xs) auto
    then show ?thesis using True assms(3) by simp
  next
    case False
    then have "x \<in> set xs" "g a \<noteq> g x" using Cons.prems by auto
    then show ?thesis using Cons.IH Cons.prems(1) by simp
  qed
qed simp

text \<open>An accepted property replaces the step and nothing else, so the edges of the other steps stay.\<close>

lemma update_edges:
  assumes "distinct (step_ids (defn st))" "src \<in> set (steps (defn st))" "assign_prop pr src = Some s'"
    and i: "step_id s' = step_id src"
  shows "\<exists>st'. updateStepProperty (step_id src) pr st = Some st' \<and> s' \<in> set (steps (defn st')) \<and> step_ids (defn st') = step_ids (defn st) \<and>
    filter (\<lambda>e. e_from e \<noteq> step_id src) (toEdges (defn st')) = filter (\<lambda>e. e_from e \<noteq> step_id src) (toEdges (defn st))"
proof -
  let ?f = "\<lambda>s. if step_id s = step_id src then s' else s"
  have u: "updateStepProperty (step_id src) pr st = Some (st\<lparr>defn := (defn st)\<lparr>steps := map ?f (steps (defn st))\<rparr>, dirty := True\<rparr>)"
    using map_opt_unique [where g = "\<lambda>s. step_id s" and f = "assign_prop pr", OF assms(1-3)] by (simp add: updateStepProperty_def)
  have own: "filter (\<lambda>e. e_from e \<noteq> step_id src) (pushStepEdges s) = (if step_id s = step_id src then [] else pushStepEdges s)" for s
    using pushStepEdges_from [of _ s] by (auto simp: filter_empty_conv filter_id_conv)
  then have "filter (\<lambda>e. e_from e \<noteq> step_id src) (pushStepEdges (?f s)) = filter (\<lambda>e. e_from e \<noteq> step_id src) (pushStepEdges s)" for s
    using i by simp
  then have "map (\<lambda>s. filter (\<lambda>e. e_from e \<noteq> step_id src) (pushStepEdges (?f s))) ss = map (\<lambda>s. filter (\<lambda>e. e_from e \<noteq> step_id src) (pushStepEdges s)) ss" for ss
    by (simp only:)
  then have "filter (\<lambda>e. e_from e \<noteq> step_id src) (concat (map (\<lambda>s. pushStepEdges (?f s)) ss)) = filter (\<lambda>e. e_from e \<noteq> step_id src) (concat (map pushStepEdges ss))" for ss
    unfolding filter_concat map_map comp_def by (simp only:)
  then show ?thesis using u i assms(2) by (auto simp: toEdges_def comp_def image_iff intro!: bexI [of _ src])
qed

lemma parallel_edge: "target \<in> set ts \<Longrightarrow> \<exists>e \<in> set (pushStepEdges (ParallelGateway c ts j)). e_from e = c_id c \<and> e_to e = target"
proof -
  assume "target \<in> set ts"
  then obtain i where "i < length ts" "ts ! i = target" by (auto simp: in_set_conv_nth)
  then have "(i, target) \<in> set (indexed ts)" by (simp add: set_indexed)
  then show ?thesis by force
qed

text \<open>The step with the property of a connection has the edge.\<close>

lemma connection_edge:
  assumes "connection_prop answer target src = Some pr" "target \<noteq> []"
  shows "\<exists>s'. assign_prop pr src = Some s' \<and> (\<exists>e \<in> set (pushStepEdges s'). e_from e = step_id src \<and> e_to e = target) \<and>
    (\<forall>c bs expr. src = Decision c bs \<and> answer = Some expr \<longrightarrow> s' = Decision c (object_set expr target bs))"
proof (cases src)
  case (Decision c bs)
  then obtain expr where e: "answer = Some expr" "pr = PConditionalNextSteps (object_set expr target bs)"
    using assms(1) by (auto simp: connection_prop_def split: option.splits if_splits)
  have "(expr, target) \<in> set (object_set expr target bs)"
    by (simp add: object_set_def map_set_def) (metis map_of_SomeD map_upd_Some_unfold update_conv')
  then show ?thesis using e Decision by (force simp: assign_prop_def)
next
  case (ParallelGateway c ts j)
  then have "pr = PParallelNextSteps (ts @ [target])" using assms(1) by (auto simp: connection_prop_def split: if_splits)
  then show ?thesis using ParallelGateway parallel_edge [of target "ts @ [target]" c j] by (simp add: assign_prop_def del: pushStepEdges.simps)
qed (use assms in \<open>auto simp: connection_prop_def assign_prop_def truthy_def\<close>)

text \<open>A connection drawn between two different steps is drawn: apart from an end step, and from a decision whose expression is
  not given, connecting a step to a target succeeds and the canvas then has an edge from the step to the target; the steps and the
  edges of all other steps stay as they are. A decision keeps its branches with other expressions.\<close>

theorem connect_draws_edge:
  assumes "distinct (step_ids (defn st))" "src \<in> set (steps (defn st))" "step_id src \<noteq> []" "target \<noteq> []" "target \<noteq> step_id src"
    and "type_of src \<noteq> END" "type_of src = DECISION \<longrightarrow> answer = Some expr \<and> expr \<noteq> []"
  shows "\<exists>st'. onConnect answer (Some (step_id src)) (Some target) st = Some st' \<and>
    (\<exists>e \<in> set (toEdges (defn st')). e_from e = step_id src \<and> e_to e = target) \<and> step_ids (defn st') = step_ids (defn st) \<and>
    filter (\<lambda>e. e_from e \<noteq> step_id src) (toEdges (defn st')) = filter (\<lambda>e. e_from e \<noteq> step_id src) (toEdges (defn st)) \<and>
    (\<forall>c bs. src = Decision c bs \<and> distinct (map fst bs) \<longrightarrow>
      (\<exists>bs'. Decision c bs' \<in> set (steps (defn st')) \<and> (\<forall>k. map_get bs' k = (if k = expr then Some target else map_get bs k))))"
proof -
  have found: "List.find (\<lambda>s. step_id s = step_id src) (steps (defn st)) = Some src"
    using find_by_key [OF assms(1,2)] by simp
  show ?thesis
  proof (cases "connection_prop answer target src")
    case None
    then obtain c ts j where p: "src = ParallelGateway c ts j" "target \<in> set ts"
      using assms(6,7) by (cases src) (auto simp: connection_prop_def split: if_splits)
    then have "\<exists>e \<in> set (pushStepEdges src). e_from e = step_id src \<and> e_to e = target"
      using parallel_edge [OF p(2)] by simp
    then have "\<exists>e \<in> set (toEdges (defn st)). e_from e = step_id src \<and> e_to e = target" using assms(2) unfolding toEdges_def by auto
    moreover have "onConnect answer (Some (step_id src)) (Some target) st = Some st" using assms(3-5) None found by (auto simp: onConnect_def)
    ultimately show ?thesis using p(1) by auto
  next
    case (Some pr)
    obtain s' where s': "assign_prop pr src = Some s'" "\<exists>e \<in> set (pushStepEdges s'). e_from e = step_id src \<and> e_to e = target"
        and kept: "\<forall>c bs expr. src = Decision c bs \<and> answer = Some expr \<longrightarrow> s' = Decision c (object_set expr target bs)"
      using connection_edge [OF Some assms(4)] by (elim exE conjE)
    have decision: "s' = Decision c (object_set expr target bs)" if "src = Decision c bs" for c bs
      using kept assms(7) that by (simp add: that)
    obtain st' where st': "updateStepProperty (step_id src) pr st = Some st'" "s' \<in> set (steps (defn st'))" "step_ids (defn st') = step_ids (defn st)"
        "filter (\<lambda>e. e_from e \<noteq> step_id src) (toEdges (defn st')) = filter (\<lambda>e. e_from e \<noteq> step_id src) (toEdges (defn st))"
      using update_edges [OF assms(1,2) s'(1)] s'(2) pushStepEdges_from by metis
    have "onConnect answer (Some (step_id src)) (Some target) st = Some st'"
      using assms(3-5) found Some st'(1) by (auto simp: onConnect_def)
    moreover have "\<exists>e \<in> set (toEdges (defn st')). e_from e = step_id src \<and> e_to e = target"
      using s'(2) st'(2) by (auto simp: toEdges_def)
    moreover have "\<exists>bs'. Decision c bs' \<in> set (steps (defn st')) \<and> (\<forall>k. map_get bs' k = (if k = expr then Some target else map_get bs k))"
      if "src = Decision c bs" "distinct (map fst bs)" for c bs
      using decision [OF that(1)] st'(2) object_set_get [OF that(2)] by auto
    ultimately show ?thesis using st'(3,4) by blast
  qed
qed

section \<open>Dropping a step, and the layout\<close>

text \<open>A step dropped from the palette lands where it was dropped.\<close>

lemma onDrop_position:
  "onDrop (type_text t) pos st =
     (let (i, st') = addStep \<lparr>tpl_type = t, tpl_id = None, tpl_name = None\<rparr> st in setLayout i pos st')"
  by (cases t) (simp_all add: onDrop_def STEP_TYPE_SET_def)

text \<open>The layout engine never moves a step that has a position.\<close>

lemma persist_layout_keeps: "map_get (layout st) i = Some p \<Longrightarrow> map_get (layout (persist_layout positions st)) i = Some p"
proof -
  assume p: "map_get (layout st) i = Some p"
  let ?new = "filter (\<lambda>e. \<not> map_has (layout st) (fst e)) positions"
  have "map_of (rev ?new) i = None" using p by (auto simp: map_of_eq_None_iff map_has_def)
  with p show ?thesis by (simp add: persist_layout_def Let_def fold_set_get)
qed

lemma drawn_layout_stored: "distinct (map fst stored) \<Longrightarrow> map_get stored i = Some p \<Longrightarrow> map_get (drawn_layout elk stored) i = Some p"
  unfolding drawn_layout_def fold_set_get using map_of_eq_set [of "rev stored" stored] by (simp add: map_get_def rev_map [symmetric])

definition sample_common :: "step_id \<Rightarrow> step_common" where
  "sample_common i = \<lparr>c_id = i, c_name = i, c_description = None, c_extra = []\<rparr>"

definition sample_editor :: workflow_state where
  "sample_editor = initialState\<lparr>defn := (defn initialState)\<lparr>steps := [Wait (sample_common ''a'') [] None, End (sample_common ''b'')]\<rparr>\<rparr>"

theorem connect_draws_edge_witness:
  "\<exists>st'. onConnect None (Some ''a'') (Some ''b'') sample_editor = Some st' \<and> (\<exists>e \<in> set (toEdges (defn st')). e_from e = ''a'' \<and> e_to e = ''b'')"
proof -
  let ?src = "Wait (sample_common ''a'') [] None"
  have "distinct (step_ids (defn sample_editor))" "?src \<in> set (steps (defn sample_editor))" "step_id ?src \<noteq> []" "''b'' \<noteq> ([] :: string)" "''b'' \<noteq> step_id ?src"
    "type_of ?src \<noteq> END" "type_of ?src = DECISION \<longrightarrow> None = Some ([] :: string) \<and> [] \<noteq> ([] :: string)"
    by (simp_all add: sample_editor_def sample_common_def)
  from connect_draws_edge [OF this] show ?thesis by (auto simp: sample_common_def)
qed

end
