(* ===== verification/Node_Handles.thy ===== *)
theory Node_Handles
  imports Canvas
begin

text \<open>
  The nodes of the canvas and the handles edges are attached to: \<^verbatim>\<open>workflow-modeller/src/canvas/nodes/NodeShell.tsx\<close>
  with the node components that configure it (\<^verbatim>\<open>DecisionNode.tsx\<close>, \<^verbatim>\<open>ParallelGatewayNode.tsx\<close>, ...), the edge
  components of \<^verbatim>\<open>canvas/edges\<close>, and the handle overrides of \<^verbatim>\<open>Canvas.tsx\<close>. The diagram package draws an edge
  only if both of its nodes have the handle the edge names, or any handle if it names none.
\<close>

section \<open>Nodes\<close>

datatype shape = ShDefault | ShCircle | ShDiamond | ShDiamondSm

definition node_shape :: "step \<Rightarrow> shape" where
  "node_shape s =
     (case s of
        Decision _ _ \<Rightarrow> ShDiamond
      | ParallelGateway _ _ _ \<Rightarrow> ShDiamondSm
      | JoinGateway _ _ \<Rightarrow> ShDiamondSm
      | Wait _ _ _ \<Rightarrow> ShCircle
      | _ \<Rightarrow> ShDefault)"

definition isDiamond :: "shape \<Rightarrow> bool" where
  "isDiamond sh \<longleftrightarrow> sh = ShDiamond \<or> sh = ShDiamondSm"

text \<open>The ids of the prop \<^verbatim>\<open>source\<close> each component passes; without one the default is a single \<^verbatim>\<open>out\<close>.\<close>

definition decision_source :: "(string, step_id) omap \<Rightarrow> string list" where
  "decision_source branches =
     (if length (map_keys branches) \<noteq> 0 then map (\<lambda>expr. ''branch:'' @ expr) (map_keys branches) else [''out''])"

definition parallel_source :: "step_id list \<Rightarrow> string list" where
  "parallel_source targets =
     (if length targets \<noteq> 0 then map (\<lambda>(i, _). ''parallel:'' @ nat_str i) (indexed targets) else [''out''])"

definition node_source :: "step \<Rightarrow> string list" where
  "node_source s =
     (case s of
        Decision _ branches \<Rightarrow> decision_source branches
      | ParallelGateway _ targets _ \<Rightarrow> parallel_source targets
      | End _ \<Rightarrow> []
      | _ \<Rightarrow> [''out''])"

definition target_handles :: "shape \<Rightarrow> string list" where
  "target_handles sh =
     [''in''] @ (if \<not> isDiamond sh then [''in-top''] else []) @ [''in-right'', ''in-bottom''] @
     (if isDiamond sh then [''in-edge-tl'', ''in-c-right'', ''in-c-bottom'', ''in-c-left''] else [])"

definition source_handles :: "shape \<Rightarrow> string list \<Rightarrow> string list" where
  "source_handles sh ids =
     ids @
     (if ids = [''out''] \<and> \<not> isDiamond sh then [''out-top'', ''out-bottom'', ''out-left''] else []) @
     (if isDiamond sh
      then [''out-c-top'', ''out-c-right'', ''out-c-left'', ''out-edge-tl'', ''out-edge-tr'', ''out-edge-br'', ''out-edge-bl'']
      else [])"

definition handles_of :: "step \<Rightarrow> string list \<times> string list" where
  "handles_of s = (target_handles (node_shape s), source_handles (node_shape s) (node_source s))"

text \<open>The vertical place of a source handle in percent, where the node has several and is no diamond.\<close>

definition handle_offset :: "nat \<Rightarrow> nat \<Rightarrow> rat" where
  "handle_offset count i = of_nat ((i + 1) * 100) / of_nat (count + 1)"

text \<open>The classes of a node and the text of its badge; \<open>accent\<close> is the lower-case name of the type.\<close>

definition node_classes :: "shape \<Rightarrow> string \<Rightarrow> bool \<Rightarrow> node_summary \<Rightarrow> string list" where
  "node_classes sh accent isEntry ns =
     [''wm-node'', ''wm-node--'' @ accent] @
     (case sh of ShDefault \<Rightarrow> [] | ShCircle \<Rightarrow> [''wm-node--circle''] | ShDiamond \<Rightarrow> [''wm-node--diamond'']
        | ShDiamondSm \<Rightarrow> [''wm-node--diamond-sm'']) @
     (if isEntry then [''wm-node--entry''] else []) @
     (if ns_errors ns > 0 then [''wm-node--has-error''] else []) @
     (if ns_errors ns = 0 \<and> ns_warnings ns > 0 then [''wm-node--has-warning''] else [])"

definition node_badge :: "node_summary \<Rightarrow> (severity \<times> nat) option" where
  "node_badge ns =
     (if ns_errors ns > 0 \<or> ns_warnings ns > 0
      then Some (if ns_errors ns > 0 then (Error, ns_errors ns) else (Warning, ns_warnings ns)) else None)"

definition node_subtitle :: "step \<Rightarrow> string option" where
  "node_subtitle s =
     (case s of
        ServiceTask _ _ jt _ _ _ \<Rightarrow> if truthy jt then Some (''job: '' @ the jt) else None
      | step.UserTask _ _ jt _ \<Rightarrow> if truthy jt then Some (''job: '' @ the jt) else None
      | Transformation _ _ ts \<Rightarrow> Some (nat_str (length ts) @ '' transformation(s)'')
      | DecisionTable _ hp _ tbl \<Rightarrow>
          (let n = length (tbl_rules tbl); policy = (case hp of Some h \<Rightarrow> h | None \<Rightarrow> ''U'')
           in Some (if n = 0 then policy
                    else nat_str n @ '' rule'' @ (if n = 1 then '''' else ''s'') @ '' '' @ [CHR 0xB7] @ '' '' @ policy))
      | _ \<Rightarrow> None)"

section \<open>Edges\<close>

definition edge_class :: "string \<Rightarrow> string option" where
  "edge_class kind =
     map_of [(''sequential'', ''wm-edge-sequential''), (''conditional'', ''wm-edge-conditional''),
       (''parallel'', ''wm-edge-parallel''), (''join-out'', ''wm-edge-sequential''),
       (''join-target'', ''wm-edge-sequential''), (''boundary'', ''wm-edge-boundary'')] kind"

definition edge_label :: "flow_data \<Rightarrow> string option" where
  "edge_label d =
     (case d of
        No_Data \<Rightarrow> None
      | Expression e \<Rightarrow> if e = '''' then None else Some e
      | Timer duration interrupting \<Rightarrow>
          Some ((if truthy duration then the duration else '''') @ '' '' @ [CHR 0xB7] @ '' '' @
            (if interrupting then ''interrupting'' else ''non-interrupting'')))"

text \<open>\<^verbatim>\<open>{ ...e, ...ov }\<close> for the two keys an override has; a key that is absent leaves the edge's own handle.\<close>

definition override_handle :: "json \<Rightarrow> string \<Rightarrow> string option \<Rightarrow> string option" where
  "override_handle ov key own =
     (case ov of
        JObj fs \<Rightarrow> (case map_get fs key of Some (JStr h) \<Rightarrow> Some h | Some _ \<Rightarrow> None | None \<Rightarrow> own)
      | _ \<Rightarrow> own)"

record drawn_edge = flow_edge +
  de_targetHandle :: "string option"

definition draw_edge :: "edge_handles \<Rightarrow> flow_edge \<Rightarrow> drawn_edge" where
  "draw_edge overrides e =
     (let own = flow_edge.extend e \<lparr>de_targetHandle = None\<rparr>
      in case map_get overrides (fe_id e) of
           None \<Rightarrow> own
         | Some ov \<Rightarrow>
             if json_truthy ov
             then own\<lparr>fe_sourceHandle := override_handle ov ''sourceHandle'' (fe_sourceHandle e),
                      de_targetHandle := override_handle ov ''targetHandle'' None\<rparr>
             else own)"

definition drawn_edges :: "workflow_state \<Rightarrow> drawn_edge list" where
  "drawn_edges st = map (draw_edge (edgeHandles st)) (mapToFlowEdges (useEdges st) (useNodes st))"

definition handle_json :: "string option \<Rightarrow> json" where
  "handle_json h = (case h of Some s \<Rightarrow> JStr s | None \<Rightarrow> JNull)"

definition onReconnect :: "string \<Rightarrow> string option \<Rightarrow> string option \<Rightarrow> workflow_state \<Rightarrow> workflow_state" where
  "onReconnect edge sourceHandle targetHandle =
     setEdgeHandle edge (JObj [(''sourceHandle'', handle_json sourceHandle), (''targetHandle'', handle_json targetHandle)])"

text \<open>Whether the diagram package finds both ends of an edge.\<close>

definition finds :: "string list \<Rightarrow> string option \<Rightarrow> bool" where
  "finds handles h \<longleftrightarrow> (case h of None \<Rightarrow> handles \<noteq> [] | Some i \<Rightarrow> i \<in> set handles)"

definition visible_edge :: "workflow_state \<Rightarrow> drawn_edge \<Rightarrow> bool" where
  "visible_edge st e \<longleftrightarrow>
     (\<exists>s \<in> set (steps (defn st)). step_id s = fe_source e \<and> finds (snd (handles_of s)) (fe_sourceHandle e)) \<and>
     (\<exists>t \<in> set (steps (defn st)). step_id t = fe_target e \<and> finds (fst (handles_of t)) (de_targetHandle e))"

section \<open>Every edge has its handle\<close>

lemma target_handle_in [simp]: "''in'' \<in> set (fst (handles_of s))" "fst (handles_of s) \<noteq> []"
  by (simp_all add: handles_of_def target_handles_def)

lemma source_sub: "set (node_source s) \<subseteq> set (snd (handles_of s))"
  by (auto simp: handles_of_def source_handles_def)

lemma boundary_no_handle: "e \<in> set (pushBoundaryEdges i ev) \<Longrightarrow> e_sourceHandle e = None"
  by (auto simp: pushBoundaryEdges_def makeEdge_def split: option.splits)

lemma makeEdge_handle [simp]: "e_sourceHandle (makeEdge a b v) = None"
  by (simp add: makeEdge_def)

lemma step_edge_handle:
  assumes "e \<in> set (pushStepEdges s)"
  shows "finds (snd (handles_of s)) (e_sourceHandle e)"
proof (cases s)
  case (Decision c branches)
  then obtain expr t where "(expr, t) \<in> set branches" "e_sourceHandle e = Some (''branch:'' @ expr)" using assms by auto
  then have "e_sourceHandle e = Some (''branch:'' @ expr)" "''branch:'' @ expr \<in> set (node_source s)"
    using Decision by (force simp: node_source_def decision_source_def map_keys_def)+
  then show ?thesis using source_sub by (auto simp: finds_def)
next
  case (ParallelGateway c targets join)
  then obtain i t where i: "(i, t) \<in> set (indexed targets)" "e_sourceHandle e = Some (''parallel:'' @ nat_str i)" using assms by auto
  then have "targets \<noteq> []" by (auto simp: indexed_def)
  with i have "''parallel:'' @ nat_str i \<in> set (node_source s)"
    using ParallelGateway by (force simp: node_source_def parallel_source_def)
  with i show ?thesis using source_sub by (auto simp: finds_def)
qed (use assms in \<open>auto simp: finds_def handles_of_def source_handles_def node_source_def dest: boundary_no_handle split: if_splits\<close>)

lemma flow_edge_of:
  assumes "fe \<in> set (mapToFlowEdges (toEdges d) nodes)"
  obtains e s where "s \<in> set (steps d)" "e \<in> set (pushStepEdges s)" "fe_source fe = step_id s" "fe_target fe = e_to e"
    "fe_sourceHandle fe = e_sourceHandle e" "fe_id fe = e_id e"
proof -
  obtain e where "e \<in> set (toEdges d)" "fe_source fe = e_from e" "fe_target fe = e_to e" "fe_sourceHandle fe = e_sourceHandle e" "fe_id fe = e_id e"
    using assms by (auto simp: mapToFlowEdges_def Let_def)
  then show thesis using that pushStepEdges_from by (fastforce simp: toEdges_def)
qed

lemma draw_edge_sel [simp]: "fe_source (draw_edge ovs e) = fe_source e" "fe_target (draw_edge ovs e) = fe_target e"
  "fe_id (draw_edge ovs e) = fe_id e"
  by (simp_all add: draw_edge_def flow_edge.extend_def Let_def split: option.split)

lemma draw_edge_own:
  "map_get ovs (fe_id e) = None \<Longrightarrow> fe_sourceHandle (draw_edge ovs e) = fe_sourceHandle e \<and> de_targetHandle (draw_edge ovs e) = None"
  by (simp add: draw_edge_def flow_edge.extend_def)

lemma onReconnect_defn [simp]: "defn (onReconnect i h g st) = defn st"
  by (simp add: onReconnect_def setEdgeHandle_def)

lemma finds_None [simp]: "finds hs None \<longleftrightarrow> hs \<noteq> []"
  by (simp add: finds_def)

lemma reconnected_edge:
  assumes "fe \<in> set (mapToFlowEdges (useEdges st) (useNodes st))" "fe_id fe = i"
    and "s \<in> set (steps (defn st))" "step_id s = fe_source fe" "h \<in> set (snd (handles_of s))"
    and "t \<in> set (steps (defn st))" "step_id t = fe_target fe" "g \<in> set (fst (handles_of t))"
  shows "\<exists>e' \<in> set (drawn_edges (onReconnect i (Some h) (Some g) st)).
    fe_id e' = i \<and> fe_sourceHandle e' = Some h \<and> visible_edge (onReconnect i (Some h) (Some g) st) e'"
proof -
  let ?st = "onReconnect i (Some h) (Some g) st"
  define e where "e = draw_edge (edgeHandles ?st) fe"
  have "useEdges ?st = useEdges st" "useNodes ?st = useNodes st" by (simp_all add: useEdges_def useNodes_def)
  then have "e \<in> set (drawn_edges ?st)" using assms(1) by (simp add: drawn_edges_def e_def)
  moreover have "map_get (edgeHandles ?st) (fe_id fe) = Some (JObj [(''sourceHandle'', JStr h), (''targetHandle'', JStr g)])"
    by (simp add: assms(2) onReconnect_def setEdgeHandle_def handle_json_def map_get_set)
  then have "fe_sourceHandle e = Some h" "de_targetHandle e = Some g"
    by (simp_all add: e_def draw_edge_def flow_edge.extend_def override_handle_def map_get_Cons)
  moreover have "fe_id e = i" "fe_source e = fe_source fe" "fe_target e = fe_target fe" by (simp_all add: e_def assms(2))
  moreover from calculation have "visible_edge ?st e"
    unfolding visible_edge_def onReconnect_defn using assms(3-8) by (simp add: finds_def) blast
  ultimately show ?thesis by blast
qed

lemma own_edge_visible:
  assumes "fe \<in> set (mapToFlowEdges (toEdges (defn st)) (useNodes st))" "map_get (edgeHandles st) (fe_id fe) = None"
  shows "visible_edge st (draw_edge (edgeHandles st) fe) = (fe_target fe \<in> set (step_ids (defn st)))"
proof -
  obtain ge s where s: "s \<in> set (steps (defn st))" "ge \<in> set (pushStepEdges s)" "fe_source fe = step_id s"
      "fe_target fe = e_to ge" "fe_sourceHandle fe = e_sourceHandle ge" "fe_id fe = e_id ge"
    by (rule flow_edge_of [OF assms(1)])
  have "finds (snd (handles_of s)) (fe_sourceHandle fe)" using step_edge_handle [OF s(2)] s(5) by simp
  then have "\<exists>s \<in> set (steps (defn st)). step_id s = fe_source fe \<and> finds (snd (handles_of s)) (fe_sourceHandle fe)"
    using s(1,3) by (intro bexI [of _ s]) simp_all
  moreover have "fe_target fe \<in> set (step_ids (defn st)) \<longleftrightarrow> (\<exists>t \<in> set (steps (defn st)). step_id t = fe_target fe)"
    unfolding set_map image_iff by (simp only: eq_commute)
  moreover have d: "fe_sourceHandle (draw_edge (edgeHandles st) fe) = fe_sourceHandle fe" "de_targetHandle (draw_edge (edgeHandles st) fe) = None"
    using draw_edge_own [OF assms(2)] by blast+
  ultimately show ?thesis
    unfolding visible_edge_def draw_edge_sel d finds_None target_handle_in(2) by (simp only: target_handle_in(2) not_False_eq_True simp_thms)
qed

text \<open>Every edge can be attached: an edge of the canvas without an override is visible if and only if its target
  is a step of the definition, since its source node always has the handle the edge names. An override to handles the
  two nodes have keeps the edge visible.\<close>

theorem drawn_edges_attached:
  assumes "e \<in> set (drawn_edges st)"
  shows "(map_get (edgeHandles st) (fe_id e) = None \<longrightarrow> visible_edge st e = (fe_target e \<in> set (step_ids (defn st)))) \<and>
    (\<forall>s \<in> set (steps (defn st)). \<forall>t \<in> set (steps (defn st)). \<forall>h \<in> set (snd (handles_of s)). \<forall>g \<in> set (fst (handles_of t)).
       step_id s = fe_source e \<and> step_id t = fe_target e \<longrightarrow>
         (\<exists>e' \<in> set (drawn_edges (onReconnect (fe_id e) (Some h) (Some g) st)).
            fe_id e' = fe_id e \<and> fe_sourceHandle e' = Some h \<and> visible_edge (onReconnect (fe_id e) (Some h) (Some g) st) e'))"
proof -
  obtain fe where fe: "fe \<in> set (mapToFlowEdges (useEdges st) (useNodes st))" "e = draw_edge (edgeHandles st) fe"
    using assms by (auto simp: drawn_edges_def)
  then have own: "map_get (edgeHandles st) (fe_id e) = None \<longrightarrow> visible_edge st e = (fe_target e \<in> set (step_ids (defn st)))"
    using own_edge_visible [of fe st] by (simp add: useEdges_def)
  have moved: "\<exists>e' \<in> set (drawn_edges (onReconnect (fe_id e) (Some h) (Some g) st)).
      fe_id e' = fe_id e \<and> fe_sourceHandle e' = Some h \<and> visible_edge (onReconnect (fe_id e) (Some h) (Some g) st) e'"
    if "s \<in> set (steps (defn st))" "t \<in> set (steps (defn st))" "h \<in> set (snd (handles_of s))" "g \<in> set (fst (handles_of t))"
      "step_id s = fe_source e \<and> step_id t = fe_target e" for s t h g
    by (rule reconnected_edge [OF fe(1)]) (use that fe(2) in \<open>simp_all only: draw_edge_sel\<close>)
  show ?thesis by (intro conjI ballI impI; (rule moved | rule own [rule_format]); assumption)
qed

definition sample_fork :: "step_id list \<Rightarrow> workflow_state" where
  "sample_fork targets = initialState\<lparr>defn := emptyDefinition\<lparr>steps :=
     [ParallelGateway (sample_common ''g'') targets ''j'', End (sample_common ''a''), End (sample_common ''b''), JoinGateway (sample_common ''j'') ''a'']\<rparr>\<rparr>"

lemma nat_str_small: "nat_str 0 = ''0''" "nat_str (Suc 0) = ''1''"
  by code_simp+

lemmas fork_simps = nat_str_small sample_fork_def sample_common_def drawn_edges_def useEdges_def useNodes_def mapToFlowEdges_def toEdges_def
  draw_edge_def flow_edge.extend_def makeEdge_def edgeId_def discriminator_def indexed_def Let_def initialState_def
  emptyDefinition_def visible_edge_def finds_def handles_of_def source_handles_def target_handles_def node_source_def parallel_source_def node_shape_def isDiamond_def
  onReconnect_def setEdgeHandle_def handle_json_def override_handle_def map_get_def map_set_def

text \<open>The first branch of the fork, drawn.\<close>

definition fork_edge :: "string \<Rightarrow> string option \<Rightarrow> drawn_edge" where
  "fork_edge h g = \<lparr>fe_id = ''g--parallel-->a'', fe_source = ''g'', fe_target = ''a'', fe_type = ''parallel'',
     fe_sourceHandle = Some h, fe_data = No_Data, de_targetHandle = g\<rparr>"

lemma fork_edge_drawn: "fork_edge ''parallel:0'' None \<in> set (drawn_edges (sample_fork [''a'', ''b'']))"
  by (simp add: fork_simps fork_edge_def)

lemma fork_handles:
  "snd (handles_of (ParallelGateway c [a, b] j)) = [''parallel:0'', ''parallel:1''] @ source_handles ShDiamondSm []"
  "snd (handles_of (ParallelGateway c [a] j)) = [''parallel:0''] @ source_handles ShDiamondSm []"
  by (simp_all add: handles_of_def node_shape_def node_source_def parallel_source_def indexed_def nat_str_small source_handles_def
      isDiamond_def)

lemma fork_visible:
  "visible_edge st (fork_edge h (Some g)) \<longleftrightarrow>
   (\<exists>s \<in> set (steps (defn st)). step_id s = ''g'' \<and> h \<in> set (snd (handles_of s))) \<and>
   (\<exists>t \<in> set (steps (defn st)). step_id t = ''a'' \<and> g \<in> set (fst (handles_of t)))"
  by (simp add: visible_edge_def fork_edge_def finds_def)

lemma fork_steps: "steps (defn (sample_fork ts)) = [ParallelGateway (sample_common ''g'') ts ''j'', End (sample_common ''a''),
    End (sample_common ''b''), JoinGateway (sample_common ''j'') ''a'']" "edgeHandles (sample_fork ts) = []"
  by (simp_all add: sample_fork_def initialState_def)

theorem drawn_edges_attached_witness:
  "visible_edge (sample_fork [''a'', ''b'']) (fork_edge ''parallel:0'' None)"
proof -
  have "map_get (edgeHandles (sample_fork [''a'', ''b''])) (fe_id (fork_edge ''parallel:0'' None)) = None"
    by (simp add: fork_steps)
  moreover have "fe_target (fork_edge ''parallel:0'' None) \<in> set (step_ids (defn (sample_fork [''a'', ''b''])))"
    by (simp add: fork_steps fork_edge_def sample_common_def)
  ultimately show ?thesis using drawn_edges_attached [OF fork_edge_drawn] by blast
qed

lemma fork_moved_visible:
  "visible_edge (onReconnect ''g--parallel-->a'' (Some ''parallel:1'') (Some ''in'') (sample_fork [''a'', ''b'']))
    (fork_edge ''parallel:1'' (Some ''in''))"
  by (simp add: fork_visible fork_steps) (simp add: sample_common_def, simp only: fork_handles, simp)

text \<open>An override outlives its handle: after an edge of a fork was dragged to the handle of the second branch and that
  branch was removed in the form, the edge names a handle the node no longer has. The definition still has the edge,
  and the canvas does not show it.\<close>

theorem stale_handle_hides_edge:
  "\<exists>st. updateStepProperty ''g'' (PParallelNextSteps [''a''])
       (onReconnect ''g--parallel-->a'' (Some ''parallel:1'') (Some ''in'') (sample_fork [''a'', ''b''])) = Some st \<and>
     visible_edge (onReconnect ''g--parallel-->a'' (Some ''parallel:1'') (Some ''in'') (sample_fork [''a'', ''b'']))
       (fork_edge ''parallel:1'' (Some ''in'')) \<and>
     (\<exists>e \<in> set (toEdges (defn st)). e_from e = ''g'' \<and> e_to e = ''a'') \<and>
     filter (\<lambda>e. fe_source e = ''g'') (drawn_edges st) = [fork_edge ''parallel:1'' (Some ''in'')] \<and>
     \<not> visible_edge st (fork_edge ''parallel:1'' (Some ''in''))"
proof -
  let ?old = "onReconnect ''g--parallel-->a'' (Some ''parallel:1'') (Some ''in'') (sample_fork [''a'', ''b''])"
  let ?st = "(sample_fork [''a''])\<lparr>edgeHandles := edgeHandles ?old, dirty := True\<rparr>"
  have "updateStepProperty ''g'' (PParallelNextSteps [''a'']) ?old = Some ?st"
    by (simp add: updateStepProperty_def onReconnect_def setEdgeHandle_def sample_fork_def sample_common_def assign_prop_def
        initialState_def emptyDefinition_def)
  moreover have "visible_edge ?old (fork_edge ''parallel:1'' (Some ''in''))"
    by (rule fork_moved_visible)
  moreover have "filter (\<lambda>e. fe_source e = ''g'') (drawn_edges ?st) = [fork_edge ''parallel:1'' (Some ''in'')]"
    by (simp add: fork_simps fork_edge_def)
  moreover have "\<not> visible_edge ?st (fork_edge ''parallel:1'' (Some ''in''))"
    by (simp add: fork_visible fork_steps sample_common_def fork_handles source_handles_def isDiamond_def)
  moreover have "\<exists>e \<in> set (toEdges (defn ?st)). e_from e = ''g'' \<and> e_to e = ''a''"
    by (simp add: toEdges_def fork_steps sample_common_def indexed_def makeEdge_def)
  ultimately show ?thesis by blast
qed

end
