(* ===== verification/Instance_Page.thy ===== *)
theory Instance_Page
  imports Monitor_Navigation Instance_Detail
begin

text \<open>
  The page of one process instance, \<^verbatim>\<open>workflow-monitor/src/routes/ProcessInstanceRoute.tsx\<close>: its requests, what it
  shows while they are under way, and how it keeps itself up to date.

  The state of a query of the package react-query is the record \<open>query\<close> with the transitions its documentation
  gives: a request without earlier data is pending, a failure keeps the data, while the browser is offline a
  request is paused, and a refetch that may cancel replaces a request under way only when there is data already; a
  first request under way is joined. The contents of an answer that matter for freshness are the version of the server's state it
  was read from and, for the detail, the status of the instance.
\<close>

section \<open>Requests\<close>

datatype page_error = Instance_Not_Found | Page_Error string

definition detail_url :: "string \<Rightarrow> string" where
  "detail_url instanceId = ''/api/v1/process-instances/'' @ encodeURIComponent instanceId"

definition getProcessInstanceDetail :: "http_response \<Rightarrow> page_error + string" where
  "getProcessInstanceDetail response =
     (if resp_status response = 404 then Inl Instance_Not_Found
      else if \<not> response_ok response then Inl (Page_Error ''Unable to load Process Instance'')
      else Inr (resp_text response))"

text \<open>\<open>encode\<close> is the serialisation of one parameter by \<^verbatim>\<open>URLSearchParams\<close>.\<close>

definition executions_url :: "(string \<Rightarrow> string) \<Rightarrow> string \<Rightarrow> string option \<Rightarrow> string" where
  "executions_url encode instanceId cursor =
     detail_url instanceId @ ''/step-executions'' @ (if str_truthy cursor then ''?cursor='' @ encode (the cursor) else '''')"

definition listStepExecutions_answer :: "http_response \<Rightarrow> page_error + string" where
  "listStepExecutions_answer response =
     (if \<not> response_ok response then Inl (Page_Error ''Unable to load Step Executions'') else Inr (resp_text response))"

definition variables_url :: "string \<Rightarrow> string" where
  "variables_url instanceId = detail_url instanceId @ ''/variables''"

definition getCurrentVariables :: "http_response \<Rightarrow> page_error + string" where
  "getCurrentVariables response =
     (if \<not> response_ok response then Inl (Page_Error ''Unable to load Current Variables'') else Inr (resp_text response))"

section \<open>Queries\<close>

datatype 'a fetch = Not_Fetching | Paused | Sent | Read 'a

record 'a query =
  q_data :: "'a option"
  q_error :: "page_error option"
  q_fetch :: "'a fetch"

definition new_query :: "bool \<Rightarrow> 'a query" where
  "new_query enabled = \<lparr>q_data = None, q_error = None, q_fetch = (if enabled then Sent else Not_Fetching)\<rparr>"

definition isError :: "'a query \<Rightarrow> bool" where
  "isError q \<longleftrightarrow> q_error q \<noteq> None"

definition isPending :: "'a query \<Rightarrow> bool" where
  "isPending q \<longleftrightarrow> q_data q = None \<and> q_error q = None"

definition start_fetch :: "bool \<Rightarrow> 'a query \<Rightarrow> 'a query" where
  "start_fetch online q =
     q\<lparr>q_fetch := (if online then Sent else Paused), q_error := (if q_data q = None then None else q_error q)\<rparr>"

definition refetch :: "bool \<Rightarrow> bool \<Rightarrow> 'a query \<Rightarrow> 'a query" where
  "refetch cancelRefetch online q =
     (if q_fetch q \<noteq> Not_Fetching \<and> \<not> (cancelRefetch \<and> q_data q \<noteq> None) then q else start_fetch online q)"

definition first_load :: "'a query \<Rightarrow> bool" where
  "first_load q \<longleftrightarrow> q_fetch q \<noteq> Not_Fetching \<and> q_data q = None"

definition query_answer :: "'a \<Rightarrow> 'a query \<Rightarrow> 'a query" where
  "query_answer v q = \<lparr>q_data = Some v, q_error = None, q_fetch = Not_Fetching\<rparr>"

definition query_fail :: "page_error \<Rightarrow> 'a query \<Rightarrow> 'a query" where
  "query_fail e q = q\<lparr>q_error := Some e, q_fetch := Not_Fetching\<rparr>"

definition go_online :: "'a query \<Rightarrow> 'a query" where
  "go_online q = (if q_fetch q = Paused then q\<lparr>q_fetch := Sent\<rparr> else q)"

definition in_flight :: "'a query \<Rightarrow> bool" where
  "in_flight q \<longleftrightarrow> q_fetch q \<noteq> Not_Fetching \<and> q_fetch q \<noteq> Paused"

definition is_stale :: "'a query \<Rightarrow> bool" where
  "is_stale q \<longleftrightarrow> isError q \<or> q_fetch q = Paused"

section \<open>What the page shows\<close>



datatype section_state = Section_Loading | Section_Stale | Section_Failed | Section_Fresh

text \<open>The hints above the step executions and above the current variables: a query that is pending and paused
  shows both that it loads and that it could not be loaded.\<close>

definition section_states :: "'a query \<Rightarrow> section_state list" where
  "section_states q =
     (if isPending q then [Section_Loading] else []) @
     (if is_stale q then [if q_data q \<noteq> None then Section_Stale else Section_Failed] else [])"

text \<open>The step chosen by the query string, and by the diagram or the timeline afterwards.\<close>

definition selected_from_search :: "web_env \<Rightarrow> string \<Rightarrow> string option" where
  "selected_from_search web search = search_get (parse_search web search) ''stepId''"

definition selectedStepName :: "string option \<Rightarrow> (string \<times> string) list \<Rightarrow> string option" where
  "selectedStepName selectedStepId named = map_option snd (find (\<lambda>(i, _). Some i = selectedStepId) named)"

definition selectedFailedExecution :: "string \<Rightarrow> overlay \<Rightarrow> string option \<Rightarrow> (string \<times> string \<times> string \<times> int) option" where
  "selectedFailedExecution instanceStatus ov selectedStepId =
     (if instanceStatus \<noteq> ''CANCELLED''
      then find (\<lambda>(_, stepId, st, _). Some stepId = selectedStepId \<and> st = ''FAILED'') (o_latestByStep ov)
      else None)"

definition selected_incident_path :: "string \<Rightarrow> overlay \<Rightarrow> string option \<Rightarrow> string option" where
  "selected_incident_path instanceStatus ov selectedStepId =
     map_option (\<lambda>(executionId, _). ''/incidents/'' @ encodeURIComponent executionId)
       (selectedFailedExecution instanceStatus ov selectedStepId)"

definition timeline_partial :: "string option \<Rightarrow> string option \<Rightarrow> bool" where
  "timeline_partial stepExecutionCursor nextCursor \<longleftrightarrow> str_truthy stepExecutionCursor \<or> str_truthy nextCursor"

section \<open>Keeping up to date\<close>

text \<open>Where a run of \<^verbatim>\<open>refresh\<close> stands; \<^verbatim>\<open>refreshing.current\<close> is set unless it is \<open>Resting\<close>. \<open>Observing b\<close> waits
  for the detail, with \<open>b\<close> whether the variables were shown when the callback was made; \<open>Refetching e v\<close> waits for the
  step executions if \<open>e\<close> and for the variables if \<open>v\<close>.\<close>

datatype refresh_phase = Resting | Observing bool | Refetching bool bool


text \<open>\<open>pg_followed\<close> is auxiliary, no operation reads it: the last refresh that observed the status went on to send a
  request of its own for the step executions, rather than to join a first one under way, and the page of step
  executions shown since was not one whose request was under way already.\<close>

record page =
  pg_detail :: "(string \<times> nat) query"
  pg_executions :: "nat query"
  pg_variables :: "nat query"
  pg_variablesView :: bool
  pg_refresh :: refresh_phase
  pg_followed :: bool
  pg_online :: bool
  pg_status :: string
  pg_version :: nat

definition live_status :: "string \<Rightarrow> bool" where
  "live_status s \<longleftrightarrow> s = ''ACTIVE'' \<or> s = ''WAITING''"

definition shouldPoll :: "page \<Rightarrow> bool" where
  "shouldPoll p \<longleftrightarrow>
     (\<exists>d \<in> set_option (q_data (pg_detail p)). live_status (fst d)) \<or>
     is_stale (pg_detail p) \<or> is_stale (pg_executions p) \<or> (pg_variablesView p \<and> is_stale (pg_variables p))"

text \<open>Opening the page: the queries may have answers, failures or requests from an earlier visit; the first two are
  requested anew, joining a request under way.\<close>

definition opened_page :: "bool \<Rightarrow> (string \<times> nat) query \<Rightarrow> nat query \<Rightarrow> nat query \<Rightarrow> string \<Rightarrow> nat \<Rightarrow> page" where
  "opened_page isOnline qd qe qv st v =
     \<lparr>pg_detail = refetch False isOnline qd, pg_executions = refetch False isOnline qe, pg_variables = qv,
      pg_variablesView = False, pg_refresh = Resting, pg_followed = False, pg_online = isOnline, pg_status = st,
      pg_version = v\<rparr>"

text \<open>\<^verbatim>\<open>refresh\<close>: up to its first \<^verbatim>\<open>await\<close>, and from there, when the detail has settled, to the second.\<close>

definition refresh_start :: "page \<Rightarrow> page" where
  "refresh_start p =
     (if pg_refresh p \<noteq> Resting then p
      else p\<lparr>pg_refresh := Observing (pg_variablesView p), pg_detail := refetch False (pg_online p) (pg_detail p)\<rparr>)"

definition refresh_observed :: "page \<Rightarrow> page" where
  "refresh_observed p =
     (case pg_refresh p of
        Observing vars \<Rightarrow>
          p\<lparr>pg_refresh := Refetching True vars, pg_followed := (\<not> first_load (pg_executions p)),
            pg_executions := refetch True (pg_online p) (pg_executions p),
            pg_variables := (if vars then refetch True (pg_online p) (pg_variables p) else pg_variables p)\<rparr>
      | _ \<Rightarrow> p)"

definition settle :: "bool \<Rightarrow> bool \<Rightarrow> page \<Rightarrow> page" where
  "settle executions variables p =
     (case pg_refresh p of
        Refetching e v \<Rightarrow>
          (let e' = (e \<and> \<not> executions); v' = (v \<and> \<not> variables)
           in p\<lparr>pg_refresh := (if e' \<or> v' then Refetching e' v' else Resting)\<rparr>)
      | _ \<Rightarrow> p)"

text \<open>The steps of the page and of its environment. The engine changes an instance only while it is live. The timer
  of five seconds runs while \<^verbatim>\<open>shouldPoll\<close>; the page becoming visible, the browser coming online and the button
  start a refresh as well. A change of the page of step executions replaces their query: a page shown before has its
  cached answer, of an earlier state of the server, or a request still under way, and a page without one is requested
  anew. The earlier query then settles on its own.\<close>

inductive page_step :: "page \<Rightarrow> page \<Rightarrow> bool" where
  engine: "live_status (pg_status p) \<Longrightarrow> page_step p (p\<lparr>pg_status := st, pg_version := Suc (pg_version p)\<rparr>)"
| poll: "shouldPoll p \<Longrightarrow> page_step p (refresh_start p)"
| event: "page_step p (refresh_start p)"
| offline: "page_step p (p\<lparr>pg_online := False\<rparr>)"
| online: "page_step p (p\<lparr>pg_online := True, pg_detail := go_online (pg_detail p),
     pg_executions := go_online (pg_executions p), pg_variables := go_online (pg_variables p)\<rparr>)"
| read_detail: "q_fetch (pg_detail p) = Sent \<Longrightarrow>
     page_step p (p\<lparr>pg_detail := (pg_detail p)\<lparr>q_fetch := Read (pg_status p, pg_version p)\<rparr>\<rparr>)"
| read_executions: "q_fetch (pg_executions p) = Sent \<Longrightarrow>
     page_step p (p\<lparr>pg_executions := (pg_executions p)\<lparr>q_fetch := Read (pg_version p)\<rparr>\<rparr>)"
| read_variables: "q_fetch (pg_variables p) = Sent \<Longrightarrow>
     page_step p (p\<lparr>pg_variables := (pg_variables p)\<lparr>q_fetch := Read (pg_version p)\<rparr>\<rparr>)"
| detail: "q_fetch (pg_detail p) = Read d \<Longrightarrow>
     page_step p (refresh_observed (p\<lparr>pg_detail := query_answer d (pg_detail p)\<rparr>))"
| detail_failed: "in_flight (pg_detail p) \<Longrightarrow>
     page_step p (refresh_observed (p\<lparr>pg_detail := query_fail e (pg_detail p)\<rparr>))"
| executions: "q_fetch (pg_executions p) = Read v \<Longrightarrow>
     page_step p (settle True False (p\<lparr>pg_executions := query_answer v (pg_executions p)\<rparr>))"
| executions_failed: "in_flight (pg_executions p) \<Longrightarrow>
     page_step p (settle True False (p\<lparr>pg_executions := query_fail e (pg_executions p)\<rparr>))"
| variables: "q_fetch (pg_variables p) = Read v \<Longrightarrow>
     page_step p (settle False True (p\<lparr>pg_variables := query_answer v (pg_variables p)\<rparr>))"
| variables_failed: "in_flight (pg_variables p) \<Longrightarrow>
     page_step p (settle False True (p\<lparr>pg_variables := query_fail e (pg_variables p)\<rparr>))"
| show_variables: "\<not> pg_variablesView p \<Longrightarrow> page_step p (p\<lparr>pg_variablesView := True, pg_variables := refetch False (pg_online p) (pg_variables p)\<rparr>)"
| show_overview: "page_step p (p\<lparr>pg_variablesView := False\<rparr>)"
| other_page: "(\<And>v. q_data q = Some v \<or> q_fetch q = Read v \<Longrightarrow> v \<le> pg_version p) \<Longrightarrow>
     page_step p (p\<lparr>pg_followed := (pg_followed p \<and> q_fetch q = Not_Fetching),
       pg_executions := refetch False (pg_online p) q\<rparr>)"
| earlier_settles: "page_step p (settle True False p)"

definition at_rest :: "page \<Rightarrow> bool" where
  "at_rest p \<longleftrightarrow> pg_refresh p = Resting \<and> q_fetch (pg_detail p) = Not_Fetching \<and> q_fetch (pg_executions p) = Not_Fetching"

section \<open>Freshness\<close>



lemmas query_defs = new_query_def isError_def isPending_def start_fetch_def refetch_def query_answer_def query_fail_def
  go_online_def is_stale_def in_flight_def first_load_def













section \<open>Properties\<close>


lemmas page_simps = query_defs opened_page_def refresh_start_def refresh_observed_def settle_def shouldPoll_def
  live_status_def at_rest_def

text \<open>A first visit; a run that finishes: the instance is live when the page opens, completes, and the next refresh sees it.\<close>

abbreviation fresh_page :: "string \<Rightarrow> nat \<Rightarrow> page" where
  "fresh_page st v \<equiv> opened_page True (new_query False) (new_query False) (new_query False) st v"







text \<open>The first load has no such order: the two requests are sent together. When the step executions are read before
  the instance completes and the detail after it, the page shows a completed instance with an outdated history, says
  nothing about it and no longer polls.\<close>

theorem first_load_misses_history:
  "\<exists>p. page_step\<^sup>*\<^sup>* (fresh_page ''ACTIVE'' 0) p \<and> at_rest p \<and> \<not> shouldPoll p \<and> section_states (pg_executions p) = [] \<and>
     q_data (pg_detail p) = Some (''COMPLETED'', pg_version p) \<and> q_data (pg_executions p) = Some 0 \<and> pg_version p = 1"
proof -
  let ?p0 = "fresh_page ''ACTIVE'' 0"
  let ?p1 = "?p0\<lparr>pg_executions := (pg_executions ?p0)\<lparr>q_fetch := Read 0\<rparr>\<rparr>"
  let ?p2 = "?p1\<lparr>pg_status := ''COMPLETED'', pg_version := 1\<rparr>"
  let ?p3 = "?p2\<lparr>pg_detail := (pg_detail ?p2)\<lparr>q_fetch := Read (''COMPLETED'', 1)\<rparr>\<rparr>"
  let ?p4 = "?p3\<lparr>pg_detail := query_answer (''COMPLETED'', 1) (pg_detail ?p3)\<rparr>"
  let ?p5 = "?p4\<lparr>pg_executions := query_answer 0 (pg_executions ?p4)\<rparr>"
  have "page_step ?p0 ?p1" using read_executions [of ?p0] by (simp add: page_simps)
  moreover have "page_step ?p1 ?p2" using engine [of ?p1 "''COMPLETED''"] by (simp add: page_simps)
  moreover have "page_step ?p2 ?p3" using read_detail [of ?p2] by (simp add: page_simps)
  moreover have "page_step ?p3 ?p4" using detail [of ?p3 "(''COMPLETED'', 1)"] by (simp add: page_simps)
  moreover have "page_step ?p4 ?p5" using executions [of ?p4 0] by (simp add: page_simps)
  ultimately have "page_step\<^sup>*\<^sup>* ?p0 ?p5" by (meson converse_rtranclp_into_rtranclp rtranclp.rtrancl_refl)
  then show ?thesis
    by (intro exI [of _ ?p5]) (simp add: page_simps section_states_def)
qed

text \<open>A refresh during the first load does not help: it joins the request for the step executions that is under way,
  and with the same times the page stops polling with the outdated history.\<close>

theorem refresh_joins_first_load:
  "\<exists>p. page_step\<^sup>*\<^sup>* (fresh_page ''ACTIVE'' 0) p \<and> at_rest p \<and> \<not> shouldPoll p \<and> section_states (pg_executions p) = [] \<and>
     q_data (pg_detail p) = Some (''COMPLETED'', pg_version p) \<and> q_data (pg_executions p) = Some 0 \<and> pg_version p = 1 \<and>
     \<not> pg_followed p"
proof -
  let ?p0 = "fresh_page ''ACTIVE'' 0"
  let ?p1 = "?p0\<lparr>pg_executions := (pg_executions ?p0)\<lparr>q_fetch := Read 0\<rparr>\<rparr>"
  let ?p2 = "refresh_start ?p1"
  let ?p3 = "?p2\<lparr>pg_status := ''COMPLETED'', pg_version := 1\<rparr>"
  let ?p4 = "?p3\<lparr>pg_detail := (pg_detail ?p3)\<lparr>q_fetch := Read (''COMPLETED'', 1)\<rparr>\<rparr>"
  let ?p5 = "refresh_observed (?p4\<lparr>pg_detail := query_answer (''COMPLETED'', 1) (pg_detail ?p4)\<rparr>)"
  let ?p6 = "settle True False (?p5\<lparr>pg_executions := query_answer 0 (pg_executions ?p5)\<rparr>)"
  have "page_step ?p0 ?p1" using read_executions [of ?p0] by (simp add: page_simps)
  moreover have "page_step ?p1 ?p2" by (rule page_step.event)
  moreover have "page_step ?p2 ?p3" using engine [of ?p2 "''COMPLETED''"] by (simp add: page_simps)
  moreover have "page_step ?p3 ?p4" using read_detail [of ?p3] by (simp add: page_simps)
  moreover have "page_step ?p4 ?p5" by (rule page_step.detail) (simp add: page_simps)
  moreover have "page_step ?p5 ?p6" by (rule page_step.executions) (simp add: page_simps)
  ultimately have "page_step\<^sup>*\<^sup>* ?p0 ?p6" by (meson converse_rtranclp_into_rtranclp rtranclp.rtrancl_refl)
  then show ?thesis
    by (intro exI [of _ ?p6]) (simp add: page_simps section_states_def)
qed

end
