(* ===== verification/Process_Variables.thy ===== *)
theory Process_Variables
  imports Monitor_Paging
begin

text \<open>
  The variables of an instance and of its executions
  (\<^verbatim>\<open>workflow-monitor-bff/src/modules/process-variables/process-variable.queries.ts\<close> and its controller), the list of
  definitions (\<^verbatim>\<open>modules/workflow-definitions/workflow-definitions.controller.ts\<close>), and what the schema check of the
  database promises.
\<close>

section \<open>Variable documents\<close>

datatype variable_document = Present json nat | NotRecorded | ContentTooLarge nat

definition variableDocument :: "'b monitor_env \<Rightarrow> nat \<Rightarrow> json \<Rightarrow> variable_document" where
  "variableDocument env maxBytes v =
     (let sizeBytes = byte_length env (json_string env v)
      in if sizeBytes > maxBytes then ContentTooLarge sizeBytes else Present v sizeBytes)"

definition current_variables :: "'b monitor_env \<Rightarrow> nat \<Rightarrow> database \<Rightarrow> string \<Rightarrow> variable_document option" where
  "current_variables env maxBytes db instanceId =
     map_option (\<lambda>row. variableDocument env maxBytes (wi_variables row)) (first_row (filter (\<lambda>row. wi_id row = instanceId) (db_instances db)))"

datatype output_meaning = VariableDelta | FullState | UnknownOutput

record recorded_variables =
  rv_outputInterpretation :: output_meaning
  rv_recordedInput :: variable_document
  rv_recordedOutput :: variable_document

definition output_meaning_of :: "string \<Rightarrow> output_meaning" where
  "output_meaning_of step_type =
     (if step_type = ''SERVICE_TASK'' then VariableDelta
      else if step_type \<in> {''USER_TASK'', ''WAIT'', ''TRANSFORMATION''} then FullState else UnknownOutput)"

definition snapshot :: "'b monitor_env \<Rightarrow> nat \<Rightarrow> json option \<Rightarrow> variable_document" where
  "snapshot env maxBytes s = (case s of Some v \<Rightarrow> variableDocument env maxBytes v | None \<Rightarrow> NotRecorded)"

definition recorded :: "'b monitor_env \<Rightarrow> nat \<Rightarrow> database \<Rightarrow> string \<Rightarrow> string \<Rightarrow> recorded_variables option" where
  "recorded env maxBytes db instanceId executionId =
     map_option (\<lambda>row. \<lparr>rv_outputInterpretation = output_meaning_of (se_step_type row),
         rv_recordedInput = snapshot env maxBytes (se_input_snapshot row), rv_recordedOutput = snapshot env maxBytes (se_output_snapshot row)\<rparr>)
       (first_row (filter (\<lambda>row. se_id row = executionId \<and> se_instance_id row = instanceId) (db_executions db)))"

definition current_route :: "'b monitor_env \<Rightarrow> nat \<Rightarrow> database \<Rightarrow> string \<Rightarrow> monitor_error + variable_document" where
  "current_route env maxBytes db i =
     (case current_variables env maxBytes db i of None \<Rightarrow> Inl (NotFound ''Process Instance not found'') | Some d \<Rightarrow> Inr d)"

definition recorded_route :: "'b monitor_env \<Rightarrow> nat \<Rightarrow> database \<Rightarrow> string \<Rightarrow> string \<Rightarrow> monitor_error + recorded_variables" where
  "recorded_route env maxBytes db i e =
     (case recorded env maxBytes db i e of None \<Rightarrow> Inl (NotFound ''Step Execution not found'') | Some d \<Rightarrow> Inr d)"

section \<open>Definition options\<close>

text \<open>\<^verbatim>\<open>SELECT DISTINCT ON (id) id, name ... ORDER BY id, version DESC\<close>.\<close>

definition definition_options :: "'b monitor_env \<Rightarrow> database \<Rightarrow> (string \<times> string) list" where
  "definition_options env db =
     map (\<lambda>d. (wd_id d, wd_name d)) (distinct_on wd_id (sort_key (\<lambda>d. collate env (wd_id d)) (order_desc wd_version (db_definitions db))))"

section \<open>What they promise\<close>

text \<open>The content a document carries.\<close>

definition content_bytes :: "'b monitor_env \<Rightarrow> variable_document \<Rightarrow> nat" where
  "content_bytes env d = (case d of Present v _ \<Rightarrow> byte_length env (json_string env v) | _ \<Rightarrow> 0)"

lemma variableDocument_bytes: "content_bytes env (variableDocument env n v) \<le> n"
  by (simp add: content_bytes_def variableDocument_def Let_def)

lemma snapshot_bytes: "content_bytes env (snapshot env n s) \<le> n"
  using variableDocument_bytes [of env n] by (simp add: snapshot_def content_bytes_def split: option.split)

text \<open>No response carries a variable document larger than the configured limit: what is returned for an instance or an
  execution is the stored document when its JSON text fits, otherwise only its size.\<close>

theorem variable_documents_bounded:
  "(case current_route env n db i of Inl _ \<Rightarrow> True | Inr d \<Rightarrow> content_bytes env d \<le> n) \<and>
   (case recorded_route env n db i x of
      Inl _ \<Rightarrow> True
    | Inr r \<Rightarrow> content_bytes env (rv_recordedInput r) \<le> n \<and> content_bytes env (rv_recordedOutput r) \<le> n)"
  by (auto simp: current_route_def recorded_route_def current_variables_def recorded_def variableDocument_bytes snapshot_bytes split: option.split)

text \<open>The list of definitions names every stored definition once, with the name of its highest version.\<close>

theorem definition_options_latest:
  assumes "keys_unique db" "inj (collate env)"
  shows "distinct (map fst (definition_options env db)) \<and>
    ((i, n) \<in> set (definition_options env db) \<longleftrightarrow>
      (\<exists>d \<in> set (db_definitions db). wd_id d = i \<and> wd_name d = n \<and> (\<forall>x \<in> set (db_definitions db). wd_id x = i \<and> x \<noteq> d \<longrightarrow> wd_version x < wd_version d)))"
proof
  let ?xs = "sort_key (\<lambda>d. collate env (wd_id d)) (order_desc wd_version (db_definitions db))"
  show "distinct (map fst (definition_options env db))"
    using distinct_on_distinct [of wd_id ?xs] by (simp add: definition_options_def comp_def)
  have first: "first_row (filter (\<lambda>y. wd_id y = i) ?xs) = Some d \<longleftrightarrow>
      d \<in> set (db_definitions db) \<and> wd_id d = i \<and> (\<forall>x \<in> set (db_definitions db). wd_id x = i \<and> x \<noteq> d \<longrightarrow> wd_version x < wd_version d)" for d
  proof -
    let ?ds = "filter (\<lambda>y. wd_id y = i) (db_definitions db)"
    have "distinct (map (\<lambda>d. (wd_id d, wd_version d)) ?ds)" using assms(1) by (simp add: keys_unique_def distinct_map_filter)
    then have "distinct (map wd_version ?ds)" by (auto simp: distinct_map inj_on_def)
    from first_row_greatest [OF this, of d] show ?thesis
      unfolding stable_group [OF assms(2), of wd_id i] order_desc_filter by auto
  qed
  have "(i, n) \<in> set (definition_options env db) \<longleftrightarrow> (\<exists>d \<in> set (distinct_on wd_id ?xs). wd_id d = i \<and> wd_name d = n)"
    by (auto simp: definition_options_def)
  also have "\<dots> \<longleftrightarrow> (\<exists>d. first_row (filter (\<lambda>y. wd_id y = i) ?xs) = Some d \<and> wd_id d = i \<and> wd_name d = n)"
    unfolding distinct_on_first Bex_def by metis
  finally show "(i, n) \<in> set (definition_options env db) \<longleftrightarrow>
      (\<exists>d \<in> set (db_definitions db). wd_id d = i \<and> wd_name d = n \<and> (\<forall>x \<in> set (db_definitions db). wd_id x = i \<and> x \<noteq> d \<longrightarrow> wd_version x < wd_version d))"
    unfolding first by blast
qed

section \<open>Readiness\<close>

text \<open>A table agrees with the contract: the query for its columns succeeds and every field has the agreed type.\<close>

definition table_agrees :: "catalog \<Rightarrow> string \<times> (string, nat) omap \<Rightarrow> bool" where
  "table_agrees ask t =
     (case ask (fst t) (map_keys (snd t)) of
        Inl _ \<Rightarrow> False
      | Inr fs \<Rightarrow> list_all (\<lambda>f. map_get (snd t) (fst f) = Some (snd f)) fs)"

lemma check_fields_None: "check_fields columns fs = None \<longleftrightarrow> list_all (\<lambda>f. map_get columns (fst f) = Some (snd f)) fs"
  by (auto simp: check_fields_def find_None_iff list_all_iff case_prod_beta)

lemma check_tables_ok: "check_tables ask ts = Inr () \<longleftrightarrow> list_all (table_agrees ask) ts"
proof (induction ts)
  case (Cons t ts)
  obtain table columns where t: "t = (table, columns)" by (cases t)
  show ?case
  proof (cases "ask table (map_keys columns)")
    case (Inr fs)
    with Cons check_fields_None [of columns fs] show ?thesis
      by (cases "check_fields columns fs") (simp_all add: t table_agrees_def)
  qed (simp add: t table_agrees_def)
qed simp

text \<open>The readiness probe answers 200 exactly when a database is configured and, for every table of the contract, the
  query for its columns succeeds with the agreed types; otherwise it answers 503.\<close>

theorem ready_exact:
  "ready pool = (case pool of None \<Rightarrow> 503 | Some ask \<Rightarrow> if list_all (table_agrees ask) REQUIRED_SCHEMA then 200 else 503)"
proof (cases pool)
  case None
  then show ?thesis by (simp add: ready_def assertReady_def REQUIRED_SCHEMA_def)
next
  case (Some ask)
  then show ?thesis
    using check_tables_ok [of ask REQUIRED_SCHEMA] by (cases "check_tables ask REQUIRED_SCHEMA") (simp_all add: ready_def assertReady_def)
qed

section \<open>Samples\<close>

definition sample_versions :: database where
  "sample_versions = \<lparr>db_instances = [],
     db_definitions = [\<lparr>wd_id = ''loan'', wd_version = 1, wd_name = ''Loan'', wd_raw_json = []\<rparr>,
       \<lparr>wd_id = ''loan'', wd_version = 2, wd_name = ''Loan, revised'', wd_raw_json = []\<rparr>],
     db_executions = [], db_jobs = [], db_tasks = [], db_timers = []\<rparr>"

theorem definition_options_latest_witness:
  "(''loan'', ''Loan, revised'') \<in> set (definition_options sample_monitor sample_versions) \<and>
   (''loan'', ''Loan'') \<notin> set (definition_options sample_monitor sample_versions)"
proof -
  have "keys_unique sample_versions" by (simp add: keys_unique_def sample_versions_def)
  moreover have "inj (collate sample_monitor)" using sample_clock by (simp add: clock_laws_def)
  ultimately show ?thesis
    using definition_options_latest [of sample_versions sample_monitor "''loan''" "''Loan, revised''"]
      definition_options_latest [of sample_versions sample_monitor "''loan''" "''Loan''"]
    by (simp add: sample_versions_def)
qed

end
