(* ===== verification/Snapshot_Comparison.thy ===== *)
theory Snapshot_Comparison
  imports Process_Variables
begin

text \<open>
  The comparison of two variable snapshots in the browser,
  \<^verbatim>\<open>workflow-monitor/src/process-variables/SnapshotComparison.tsx\<close>: the limits on the work, the equality of JSON values,
  the list of changes and the text of a value. A JSON object is the list of its entries; \<open>wf_json\<close> says that its keys
  are distinct at every level, as those of a parsed document are.
\<close>

section \<open>Limits\<close>

definition MAX_BYTES :: nat where "MAX_BYTES = 256 * 1024"
definition MAX_NODES :: nat where "MAX_NODES = 10000"
definition MAX_CHANGES :: nat where "MAX_CHANGES = 100"

text \<open>\<^verbatim>\<open>Object.values\<close> of an object or array; nothing is read of another value.\<close>

fun children :: "json \<Rightarrow> json list" where
  "children (JArr xs) = xs"
| "children (JObj kvs) = map snd kvs"
| "children _ = []"

fun is_container :: "json \<Rightarrow> bool" where
  "is_container (JArr _) = True"
| "is_container (JObj _) = True"
| "is_container _ = False"

text \<open>The loop of \<^verbatim>\<open>withinLimits\<close>, with the top of the stack \<^verbatim>\<open>pending\<close> at the head of the list.\<close>

function within_loop :: "nat \<Rightarrow> (json \<times> nat) list \<Rightarrow> bool" where
  "within_loop visited [] = True"
| "within_loop visited ((v, d) # pending) =
     (if visited + 1 > MAX_NODES \<or> d > 64 then False
      else if is_container v
      then if length (children v) + length pending + (visited + 1) > MAX_NODES then False
           else within_loop (visited + 1) (rev (map (\<lambda>c. (c, d + 1)) (children v)) @ pending)
      else within_loop (visited + 1) pending)"
  by pat_completeness auto
termination
  by (relation "measure (\<lambda>(visited, _). Suc MAX_NODES - visited)") auto

definition withinLimits :: "json list \<Rightarrow> bool" where
  "withinLimits vs = within_loop 0 (rev (map (\<lambda>v. (v, 0)) vs))"

section \<open>Equality\<close>

lemma zip_size [termination_simp]: "(a, b) \<in> set (zip xs ys) \<Longrightarrow> size a < Suc (size_list size xs)"
  using set_zip_leftD [of a b xs ys] size_list_estimation [of a xs _ size] by (metis lessI less_Suc_eq_le size_list_estimation')

fun json_equal :: "json \<Rightarrow> json \<Rightarrow> bool" where
  "json_equal (JArr xs) (JArr ys) = (length xs = length ys \<and> list_all (\<lambda>(x, y). json_equal x y) (zip xs ys))"
| "json_equal (JObj kvs) (JObj kws) =
     (length kvs = length kws \<and>
      list_all (\<lambda>(k, v). case map_get kws k of None \<Rightarrow> False | Some w \<Rightarrow> json_equal v w) kvs)"
| "json_equal a b = (\<not> is_container a \<and> a = b)"

section \<open>Changes\<close>

text \<open>What \<^verbatim>\<open>o[k]\<close> gives for a plain object: the own value, otherwise what the prototype of objects has under this name,
  a built-in method or, for \<^verbatim>\<open>__proto__\<close>, the prototype, otherwise undefined.\<close>

datatype slot = Own json | Method | Prototype | Undefined

definition OBJECT_METHODS :: "string list" where
  "OBJECT_METHODS = [''constructor'', ''hasOwnProperty'', ''isPrototypeOf'', ''propertyIsEnumerable'', ''toLocaleString'', ''toString'',
     ''valueOf'', ''__defineGetter__'', ''__defineSetter__'', ''__lookupGetter__'', ''__lookupSetter__'']"

definition read_key :: "fields \<Rightarrow> string \<Rightarrow> slot" where
  "read_key kvs k =
     (case map_get kvs k of
        Some v \<Rightarrow> Own v
      | None \<Rightarrow> if k = ''__proto__'' then Prototype else if k \<in> set OBJECT_METHODS then Method else Undefined)"

datatype change_kind = Added | Removed | Changed

record change =
  ch_key :: string
  ch_before :: slot
  ch_after :: slot
  ch_kind :: change_kind

record comparison =
  cmp_changes :: "change list"
  cmp_truncated :: bool
  cmp_unavailable :: "string option"

definition unavailable :: "string \<Rightarrow> comparison" where
  "unavailable message = \<lparr>cmp_changes = [], cmp_truncated = False, cmp_unavailable = Some message\<rparr>"

definition key_change :: "fields \<Rightarrow> fields \<Rightarrow> string \<Rightarrow> change list" where
  "key_change before after key =
     (let had = map_has before key; has = map_has after key in
      if had \<and> has \<and> json_equal (the (map_get before key)) (the (map_get after key)) then []
      else [\<lparr>ch_key = key, ch_before = read_key before key, ch_after = read_key after key,
             ch_kind = (if \<not> had then Added else if \<not> has then Removed else Changed)\<rparr>])"

definition compared_keys :: "output_meaning \<Rightarrow> fields \<Rightarrow> fields \<Rightarrow> string list" where
  "compared_keys interpretation before after =
     sort (if interpretation = VariableDelta then map_keys after else remdups (map_keys before @ map_keys after))"

definition value_changes :: "output_meaning \<Rightarrow> json \<Rightarrow> json \<Rightarrow> change list" where
  "value_changes interpretation input output =
     (case (input, output) of
        (JObj before, JObj after) \<Rightarrow> concat (map (key_change before after) (compared_keys interpretation before after))
      | _ \<Rightarrow> if json_equal input output then []
            else [\<lparr>ch_key = ''Value'', ch_before = Own input, ch_after = Own output, ch_kind = Changed\<rparr>])"

fun is_record :: "json \<Rightarrow> bool" where
  "is_record (JObj _) = True"
| "is_record _ = False"

definition compareSnapshots :: "variable_document \<Rightarrow> variable_document \<Rightarrow> output_meaning \<Rightarrow> comparison" where
  "compareSnapshots input output interpretation =
     (case (input, output) of
        (Present v n, Present w m) \<Rightarrow>
          if n + m > MAX_BYTES \<or> \<not> withinLimits [v, w]
          then unavailable ''Comparison exceeds the 256 KiB, 10,000-value or 64-level processing limit. Raw snapshots remain available.''
          else if interpretation = VariableDelta \<and> (\<not> is_record v \<or> \<not> is_record w)
          then unavailable ''Returned-variable comparison requires object snapshots. Inspect the raw values.''
          else let changes = value_changes interpretation v w
               in \<lparr>cmp_changes = take MAX_CHANGES changes, cmp_truncated = (length changes > MAX_CHANGES), cmp_unavailable = None\<rparr>
      | _ \<Rightarrow> unavailable ''Both snapshots must be recorded and within the document size limit.'')"

text \<open>The component \<^verbatim>\<open>Value\<close>: the text of a value, long texts folded under a summary. \<^verbatim>\<open>JSON.stringify\<close> of a function is
  undefined, and reading its length throws.\<close>

datatype shown = Plain string | Folded nat string

definition Value :: "(json \<Rightarrow> string) \<Rightarrow> slot \<Rightarrow> shown option" where
  "Value stringify v =
     (let show_text = (\<lambda>text'. if length text' \<le> 160 then Plain text' else Folded (length text') text') in
      case v of
        Undefined \<Rightarrow> Some (Plain ''Missing'')
      | Own j \<Rightarrow> Some (show_text (stringify j))
      | Prototype \<Rightarrow> Some (show_text (stringify (JObj [])))
      | Method \<Rightarrow> None)"

section \<open>The limits are exact\<close>

fun nodes :: "json \<Rightarrow> nat" where
  "nodes (JArr xs) = Suc (sum_list (map nodes xs))"
| "nodes (JObj kvs) = Suc (sum_list (map (\<lambda>kv. nodes (snd kv)) kvs))"
| "nodes _ = 1"

fun within_depth :: "nat \<Rightarrow> json \<Rightarrow> bool" where
  "within_depth n (JArr xs) = list_all (\<lambda>x. 0 < n \<and> within_depth (n - 1) x) xs"
| "within_depth n (JObj kvs) = list_all (\<lambda>kv. 0 < n \<and> within_depth (n - 1) (snd kv)) kvs"
| "within_depth n _ = True"

lemma nodes_children: "nodes v = Suc (sum_list (map nodes (children v)))"
  by (cases v) (simp_all add: comp_def)

lemma depth_children: "within_depth n v \<longleftrightarrow> (\<forall>c \<in> set (children v). 0 < n \<and> within_depth (n - 1) c)"
  by (cases v) (auto simp: list_all_iff)

lemma nodes_pos: "length vs \<le> sum_list (map nodes vs)"
  by (induction vs) (auto simp: nodes_children)

definition pending_nodes :: "(json \<times> nat) list \<Rightarrow> nat" where
  "pending_nodes ps = sum_list (map (\<lambda>p. nodes (fst p)) ps)"

lemma pending_nodes_length: "length ps \<le> pending_nodes ps"
  using nodes_pos [of "map fst ps"] by (simp add: pending_nodes_def comp_def)

lemma pending_nodes_children: "pending_nodes (rev (map (\<lambda>c. (c, d)) (children v)) @ ps) + 1 = nodes v + pending_nodes ps"
  by (simp add: pending_nodes_def nodes_children [of v] rev_map [symmetric] comp_def sum_list_rev)

definition deep_enough :: "(json \<times> nat) list \<Rightarrow> bool" where
  "deep_enough ps \<longleftrightarrow> (\<forall>(v, d) \<in> set ps. d \<le> 64 \<and> within_depth (64 - d) v)"

lemma deep_children: "d \<le> 64 \<Longrightarrow> deep_enough (rev (map (\<lambda>c. (c, d + 1)) (children v)) @ ps) \<longleftrightarrow> within_depth (64 - d) v \<and> deep_enough ps"
  by (simp add: deep_enough_def depth_children [of _ v] ball_Un Suc_le_eq)

lemma within_loop_exact:
  "visited \<le> MAX_NODES \<Longrightarrow> within_loop visited ps \<longleftrightarrow> visited + pending_nodes ps \<le> MAX_NODES \<and> deep_enough ps"
proof (induction visited ps rule: within_loop.induct)
  case (1 visited)
  then show ?case by (simp add: pending_nodes_def deep_enough_def)
next
  case (2 visited v d pending)
  let ?next = "rev (map (\<lambda>c. (c, d + 1)) (children v)) @ pending"
  have total: "pending_nodes ((v, d) # pending) = pending_nodes ?next + 1" by (simp only: pending_nodes_children) (simp add: pending_nodes_def)
  have deep: "deep_enough ((v, d) # pending) \<longleftrightarrow> d \<le> 64 \<and> deep_enough ?next"
    using deep_children [of d v pending] by (auto simp: deep_enough_def)
  consider "visited + 1 > MAX_NODES \<or> d > 64" | "visited + 1 \<le> MAX_NODES" "d \<le> 64" "is_container v"
    | "visited + 1 \<le> MAX_NODES" "d \<le> 64" "\<not> is_container v" by linarith
  then show ?case
  proof cases
    case 1
    with total deep show ?thesis by auto
  next
    case 2
    show ?thesis
    proof (cases "length (children v) + length pending + (visited + 1) > MAX_NODES")
      case True
      then have "\<not> visited + pending_nodes ((v, d) # pending) \<le> MAX_NODES" using pending_nodes_length [of ?next] total by simp
      with True 2 show ?thesis by simp
    next
      case False
      with 2 "2.IH"(1) have "within_loop (visited + 1) ?next \<longleftrightarrow> visited + 1 + pending_nodes ?next \<le> MAX_NODES \<and> deep_enough ?next" by simp
      with False 2 total deep show ?thesis by simp
    qed
  next
    case 3
    then have "children v = []" by (cases v) simp_all
    with 3 "2.IH"(2) total deep show ?thesis by simp
  qed
qed

text \<open>The limits on the work are exact: the loop accepts documents exactly when they have at most 10,000 values together and no
  value lies deeper than 64 levels, and it stops early only when that is already decided.\<close>

theorem limits_exact:
  "withinLimits vs \<longleftrightarrow> sum_list (map nodes vs) \<le> MAX_NODES \<and> (\<forall>v \<in> set vs. within_depth 64 v)"
  using within_loop_exact [of 0 "rev (map (\<lambda>v. (v, 0)) vs)"]
  by (auto simp: withinLimits_def pending_nodes_def deep_enough_def rev_map [symmetric] comp_def sum_list_rev)


section \<open>The equality is that of documents\<close>

text \<open>Two documents are the same when they differ in the order of the entries of objects only: their forms with sorted
  entries are equal.\<close>

fun sorted_json :: "json \<Rightarrow> json" where
  "sorted_json (JArr xs) = JArr (map sorted_json xs)"
| "sorted_json (JObj kvs) = JObj (sort_key fst (map (\<lambda>kv. (fst kv, sorted_json (snd kv))) kvs))"
| "sorted_json v = v"

fun wf_json :: "json \<Rightarrow> bool" where
  "wf_json (JArr xs) = list_all wf_json xs"
| "wf_json (JObj kvs) = (distinct (map_keys kvs) \<and> list_all (\<lambda>kv. wf_json (snd kv)) kvs)"
| "wf_json v = True"

lemma map_get_iff: "distinct (map_keys m) \<Longrightarrow> map_get m k = Some v \<longleftrightarrow> (k, v) \<in> set m"
  by (simp add: map_get_def map_keys_def)

text \<open>Two maps of the same size with distinct keys agree when every entry of the first is one of the second.\<close>

lemma sorted_entries_eq:
  assumes "distinct (map fst xs)" "distinct (map fst ys)"
  shows "sort_key fst xs = sort_key fst ys \<longleftrightarrow> length xs = length ys \<and> set xs \<subseteq> set ys"
proof
  assume "sort_key fst xs = sort_key fst ys"
  then have "mset xs = mset ys" by (metis mset_sort)
  then show "length xs = length ys \<and> set xs \<subseteq> set ys" by (metis mset_eq_length mset_eq_setD order_refl)
next
  assume s: "length xs = length ys \<and> set xs \<subseteq> set ys"
  have d: "distinct xs" "distinct ys" using assms by (simp_all add: distinct_map)
  then have "card (set ys) \<le> card (set xs)" using s by (simp add: distinct_card)
  with s have "set xs = set ys" by (intro card_subset_eq) (auto intro: antisym card_mono)
  with d have "mset xs = mset ys" by (simp add: set_eq_iff_mset_eq_distinct)
  then show "sort_key fst xs = sort_key fst ys"
    using assms by (intro sort_key_inj_key_eq) (auto simp: distinct_map)
qed

lemma sorted_json_eq_simple:
  "\<not> is_container a \<Longrightarrow> a = sorted_json b \<longleftrightarrow> a = b" "\<not> is_container a \<Longrightarrow> sorted_json b = a \<longleftrightarrow> b = a"
  by (cases b; auto)+

lemma list_zip_map: "length xs = length ys \<Longrightarrow> list_all (\<lambda>(x, y). f x = f y) (zip xs ys) \<longleftrightarrow> map f xs = map f ys"
  by (induction xs ys rule: list_induct2) simp_all

text \<open>The comparison of values is equality of documents up to the order of entries.\<close>

lemma json_equal_exact: "wf_json a \<Longrightarrow> wf_json b \<Longrightarrow> json_equal a b \<longleftrightarrow> sorted_json a = sorted_json b"
proof (induction a b rule: json_equal.induct)
  case (1 xs ys)
  have "list_all (\<lambda>(x, y). json_equal x y) (zip xs ys) \<longleftrightarrow> list_all (\<lambda>(x, y). sorted_json x = sorted_json y) (zip xs ys)"
  proof (intro list_all_cong refl, clarify)
    fix x y
    assume xy: "(x, y) \<in> set (zip xs ys)"
    then have "wf_json x" "wf_json y" using "1.prems" by (auto simp: list_all_iff dest: set_zip_leftD set_zip_rightD)
    with "1.IH" [OF xy refl] show "json_equal x y \<longleftrightarrow> sorted_json x = sorted_json y" by blast
  qed
  then show ?case using list_zip_map [of xs ys sorted_json] by (auto dest: map_eq_imp_length_eq)
next
  case (2 kvs kws)
  let ?f = "\<lambda>kv. (fst kv, sorted_json (snd kv))"
  have d: "distinct (map fst kvs)" "distinct (map fst kws)" using "2.prems" by (simp_all add: map_keys_def)
  have entry: "(case map_get kws k of None \<Rightarrow> False | Some w \<Rightarrow> json_equal v w) \<longleftrightarrow> ?f (k, v) \<in> ?f ` set kws" if kv: "(k, v) \<in> set kvs" for k v
  proof (cases "map_get kws k")
    case None
    then have "k \<notin> fst ` set kws" by (simp add: map_get_def map_of_eq_None_iff)
    then show ?thesis using None by (auto simp: image_iff)
  next
    case (Some w)
    then have w: "(k, w) \<in> set kws" by (rule map_get_SomeD)
    have "json_equal v w \<longleftrightarrow> sorted_json v = sorted_json w"
      using kv w "2.prems" by (intro "2.IH" [OF kv refl Some]) (auto simp: list_all_iff)
    moreover have "?f (k, v) \<in> ?f ` set kws \<longleftrightarrow> sorted_json v = sorted_json w"
    proof
      assume "?f (k, v) \<in> ?f ` set kws"
      then obtain w' where "(k, w') \<in> set kws" "sorted_json v = sorted_json w'" by fastforce
      with w d(2) show "sorted_json v = sorted_json w" by (metis eq_key_imp_eq_value)
    next
      assume "sorted_json v = sorted_json w"
      then show "?f (k, v) \<in> ?f ` set kws" using imageI [OF w, of ?f] by simp
    qed
    ultimately show ?thesis by (simp only: Some option.case)
  qed
  have "list_all (\<lambda>(k, v). case map_get kws k of None \<Rightarrow> False | Some w \<Rightarrow> json_equal v w) kvs \<longleftrightarrow> (\<forall>kv \<in> set kvs. ?f kv \<in> ?f ` set kws)"
    unfolding list_all_iff by (intro ball_cong refl) (use entry in force)
  moreover have "sort_key fst (map ?f kvs) = sort_key fst (map ?f kws) \<longleftrightarrow> length kvs = length kws \<and> ?f ` set kvs \<subseteq> ?f ` set kws"
    using sorted_entries_eq [of "map ?f kvs" "map ?f kws"] d by (simp add: comp_def)
  ultimately show ?case by (simp add: image_subset_iff)
qed (auto simp: sorted_json_eq_simple)

section \<open>The changes are exact\<close>

definition unchanged :: "fields \<Rightarrow> fields \<Rightarrow> string \<Rightarrow> bool" where
  "unchanged before after k \<longleftrightarrow> map_has before k \<and> map_has after k \<and> json_equal (the (map_get before k)) (the (map_get after k))"

definition apply_change :: "change \<Rightarrow> fields \<Rightarrow> fields" where
  "apply_change c m =
     (case ch_kind c of
        Removed \<Rightarrow> map_delete (ch_key c) m
      | _ \<Rightarrow> (case ch_after c of Own v \<Rightarrow> map_set (ch_key c) v m | _ \<Rightarrow> m))"

lemma key_change_unchanged: "key_change before after k = (if unchanged before after k then [] else
    [\<lparr>ch_key = k, ch_before = read_key before k, ch_after = read_key after k,
      ch_kind = (if \<not> map_has before k then Added else if \<not> map_has after k then Removed else Changed)\<rparr>])"
  by (simp add: key_change_def unchanged_def Let_def)

lemma apply_key_change:
  assumes "k \<in> set (map_keys before) \<union> set (map_keys after)"
  shows "map_get (fold apply_change (key_change before after k) m) k' =
    (if k' = k \<and> \<not> unchanged before after k then map_get after k else map_get m k')"
  using assms
  by (auto simp: key_change_unchanged apply_change_def read_key_def map_has_iff map_keys_get split: option.splits)

lemma apply_key_changes:
  assumes "set ks \<subseteq> set (map_keys before) \<union> set (map_keys after)" "distinct ks"
  shows "map_get (fold apply_change (concat (map (key_change before after) ks)) m) k =
    (if k \<in> set ks \<and> \<not> unchanged before after k then map_get after k else map_get m k)"
  using assms
proof (induction ks arbitrary: m)
  case (Cons x ks)
  then show ?case using apply_key_change [of x before after m k] by auto
qed simp

lemma unchanged_same:
  assumes "wf_json (JObj before)" "wf_json (JObj after)" "map_has before k \<or> map_has after k"
  shows "unchanged before after k \<longleftrightarrow> map_option sorted_json (map_get before k) = map_option sorted_json (map_get after k)"
proof (cases "map_get before k"; cases "map_get after k")
  fix v w
  assume vw: "map_get before k = Some v" "map_get after k = Some w"
  then have "wf_json v" "wf_json w" using assms(1,2) by (auto simp: list_all_iff dest!: map_get_SomeD)
  from json_equal_exact [OF this] vw show ?thesis by (simp add: unchanged_def map_has_def)
qed (use assms(3) in \<open>auto simp: unchanged_def map_has_def\<close>)

lemma compared_keys_props:
  assumes "distinct (map_keys after)"
  shows "distinct (compared_keys i before after)" "sorted (compared_keys i before after)"
    "set (compared_keys i before after) = (if i = VariableDelta then {} else set (map_keys before)) \<union> set (map_keys after)"
  using assms by (auto simp: compared_keys_def)

lemma compared_untruncated:
  assumes "cmp_unavailable (compareSnapshots (Present (JObj before) n) (Present (JObj after) m) i) = None"
    and "\<not> cmp_truncated (compareSnapshots (Present (JObj before) n) (Present (JObj after) m) i)"
  shows "cmp_changes (compareSnapshots (Present (JObj before) n) (Present (JObj after) m) i) =
    concat (map (key_change before after) (compared_keys i before after))"
  using assms by (auto simp: compareSnapshots_def unavailable_def value_changes_def Let_def split: if_splits)

lemma change_keys: "map ch_key (concat (map (key_change before after) ks)) = filter (\<lambda>k. \<not> unchanged before after k) ks"
  by (induction ks) (auto simp: key_change_unchanged)

text \<open>C39. The comparison of two object snapshots is exact: when it is available and not truncated, the listed keys are in
  order, each once, and each names a real difference; and applying the changes to the input gives the output
  or, when the output is a delta, the input overlaid with it, up to the order of entries.\<close>

theorem snapshot_changes_exact:
  assumes "wf_json (JObj before)" "wf_json (JObj after)" "c = compareSnapshots (Present (JObj before) n) (Present (JObj after) m) i"
    and "cmp_unavailable c = None" "\<not> cmp_truncated c"
  shows "sorted_wrt (<) (map ch_key (cmp_changes c)) \<and>
    (\<forall>ch \<in> set (cmp_changes c). map_option sorted_json (map_get before (ch_key ch)) \<noteq> map_option sorted_json (map_get after (ch_key ch))) \<and>
    map_option sorted_json (map_get (fold apply_change (cmp_changes c) before) k) =
      map_option sorted_json (if i = VariableDelta \<and> k \<notin> set (map_keys after) then map_get before k else map_get after k)"
proof (intro conjI)
  have ch: "cmp_changes c = concat (map (key_change before after) (compared_keys i before after))"
    using compared_untruncated assms(3-5) by blast
  have da: "distinct (map_keys after)" using assms(2) by simp
  note ck = compared_keys_props [OF da, of i before]
  have known: "map_has before k \<or> map_has after k" if "k \<in> set (compared_keys i before after)" for k
    using that by (auto simp: ck map_has_iff split: if_splits)
  show "sorted_wrt (<) (map ch_key (cmp_changes c))"
    using ck(1,2) by (simp add: ch change_keys sorted_wrt_filter strict_sorted_iff)
  show "\<forall>ch \<in> set (cmp_changes c). map_option sorted_json (map_get before (ch_key ch)) \<noteq> map_option sorted_json (map_get after (ch_key ch))"
  proof
    fix x
    assume "x \<in> set (cmp_changes c)"
    then obtain k where "k \<in> set (compared_keys i before after)" "x \<in> set (key_change before after k)" unfolding ch by auto
    then show "map_option sorted_json (map_get before (ch_key x)) \<noteq> map_option sorted_json (map_get after (ch_key x))"
      using unchanged_same [OF assms(1,2) known] by (auto simp: key_change_unchanged split: if_splits)
  qed
  have "map_get (fold apply_change (cmp_changes c) before) k =
      (if k \<in> set (compared_keys i before after) \<and> \<not> unchanged before after k then map_get after k else map_get before k)"
    unfolding ch by (rule apply_key_changes) (use ck in auto)
  note this [simp]
  show "map_option sorted_json (map_get (fold apply_change (cmp_changes c) before) k) =
      map_option sorted_json (if i = VariableDelta \<and> k \<notin> set (map_keys after) then map_get before k else map_get after k)"
  proof (cases "map_has before k \<or> map_has after k")
    case True
    then show ?thesis
      using unchanged_same [OF assms(1,2) True] ck(3) by (cases "k \<in> set (map_keys after)") (auto simp: map_has_iff unchanged_def)
  next
    case False
    then show ?thesis
      by (auto simp: map_has_iff map_keys_get)
  qed
qed

section \<open>Showing a change\<close>

lemma Value_None: "Value stringify v = None \<longleftrightarrow> v = Method"
  by (cases v) (simp_all add: Value_def Let_def)

lemma key_change_Method:
  assumes "map_has before k \<or> map_has after k" "ch \<in> set (key_change before after k)"
  shows "ch_before ch = Method \<or> ch_after ch = Method \<longleftrightarrow> ch_kind ch \<noteq> Changed \<and> ch_key ch \<in> set OBJECT_METHODS"
proof -
  have "''__proto__'' \<notin> set OBJECT_METHODS" by (simp add: OBJECT_METHODS_def)
  then show ?thesis
    using assms by (auto simp: key_change_unchanged read_key_def map_has_def split: if_splits)
qed

text \<open>A change is shown without an error unless a key was added or removed that names a method every object inherits: the
  side without the key then reads the method, and showing it throws.\<close>

theorem change_shown_iff:
  assumes "ch \<in> set (value_changes i (JObj before) (JObj after))"
  shows "Value stringify (ch_before ch) \<noteq> None \<and> Value stringify (ch_after ch) \<noteq> None \<longleftrightarrow>
    ch_kind ch = Changed \<or> ch_key ch \<notin> set OBJECT_METHODS"
proof -
  obtain k where k: "k \<in> set (compared_keys i before after)" "ch \<in> set (key_change before after k)"
    using assms by (auto simp: value_changes_def)
  then have "map_has before k \<or> map_has after k" by (auto simp: compared_keys_def map_has_iff split: if_splits)
  from key_change_Method [OF this k(2)] show ?thesis by (auto simp: Value_None)
qed

definition sample_before :: fields where
  "sample_before = [(''b'', JArr [JNum 1]), (''a'', JObj [(''x'', JNull), (''y'', JBool True)]), (''gone'', JStr ''z'')]"

definition sample_after :: fields where
  "sample_after = [(''a'', JObj [(''y'', JBool True), (''x'', JNull)]), (''b'', JArr [JNum 2]), (''toString'', JStr ''n'')]"

lemma sample_comparison:
  "compareSnapshots (Present (JObj sample_before) 60) (Present (JObj sample_after) 60) FullState =
    \<lparr>cmp_changes = [\<lparr>ch_key = ''b'', ch_before = Own (JArr [JNum 1]), ch_after = Own (JArr [JNum 2]), ch_kind = Changed\<rparr>,
       \<lparr>ch_key = ''gone'', ch_before = Own (JStr ''z''), ch_after = Undefined, ch_kind = Removed\<rparr>,
       \<lparr>ch_key = ''toString'', ch_before = Method, ch_after = Own (JStr ''n''), ch_kind = Added\<rparr>],
     cmp_truncated = False, cmp_unavailable = None\<rparr>"
  by (simp add: compareSnapshots_def limits_exact MAX_BYTES_def MAX_NODES_def MAX_CHANGES_def value_changes_def compared_keys_def
      sample_before_def sample_after_def map_keys_def key_change_def map_has_def read_key_def OBJECT_METHODS_def Let_def)

theorem snapshot_changes_exact_witness:
  "map ch_key (cmp_changes (compareSnapshots (Present (JObj sample_before) 60) (Present (JObj sample_after) 60) FullState)) = [''b'', ''gone'', ''toString''] \<and>
   map_option sorted_json (map_get (fold apply_change (cmp_changes (compareSnapshots (Present (JObj sample_before) 60) (Present (JObj sample_after) 60) FullState))
     sample_before) ''gone'') = None"
proof -
  have wf: "wf_json (JObj sample_before)" "wf_json (JObj sample_after)"
    by (simp_all add: sample_before_def sample_after_def map_keys_def)
  have get: "map_get sample_after ''gone'' = None" by (simp add: sample_after_def)
  show ?thesis
    using snapshot_changes_exact [OF wf refl, where n = 60 and m = 60 and i = FullState and k = "''gone''"] get
    by (simp add: sample_comparison)
qed

theorem change_shown_iff_witness:
  "\<exists>ch \<in> set (value_changes FullState (JObj sample_before) (JObj sample_after)). ch_key ch = ''toString'' \<and> Value (\<lambda>_. ''v'') (ch_before ch) = None"
proof -
  let ?ch = "\<lparr>ch_key = ''toString'', ch_before = Method, ch_after = Own (JStr ''n''), ch_kind = Added\<rparr>"
  have ch: "?ch \<in> set (value_changes FullState (JObj sample_before) (JObj sample_after))"
    by (simp add: value_changes_def compared_keys_def sample_before_def sample_after_def map_keys_def key_change_def map_has_def read_key_def
        OBJECT_METHODS_def)
  have "Value (\<lambda>_. ''v'') (ch_before ?ch) = None" using change_shown_iff [OF ch, of "\<lambda>_. ''v''"] by (simp add: OBJECT_METHODS_def Value_None)
  then show ?thesis by (intro bexI [OF _ ch]) simp
qed

end
