(* ===== verification/Instance_Panels.thy ===== *)
theory Instance_Panels
  imports Instance_Page Snapshot_Comparison
begin

text \<open>
  The panels of the instance page under \<^verbatim>\<open>workflow-monitor/src\<close>: \<^verbatim>\<open>ExecutionContextPanel.tsx\<close>, \<^verbatim>\<open>DataFreshness.tsx\<close>,
  the table of step executions of \<^verbatim>\<open>routes/ProcessInstanceRoute.tsx\<close> and
  \<^verbatim>\<open>process-variables/VariableSnapshotInspector.tsx\<close>. An instant arrives as text and is read with \<^verbatim>\<open>Date.parse\<close>, an
  argument here; a result of \<open>None\<close> is NaN, with which every comparison is false.
\<close>

section \<open>Execution context\<close>

record panel_job =
  pj_id :: string
  pj_type :: string
  pj_workerId :: "string option"
  pj_lockedAt :: "string option"
  pj_lockExpiresAt :: "string option"
  pj_createdAt :: string
  pj_retriesRemaining :: int

record panel_timer =
  pt_timerId :: string
  pt_fireAt :: string
  pt_targetStepId :: string
  pt_interrupting :: bool

record step_context =
  sc_stepId :: string
  sc_status :: "string option"
  sc_startedAt :: "string option"
  sc_reason :: reason
  sc_unavailableReason :: "string option"
  sc_job :: "panel_job option"
  sc_task :: "context_task option"
  sc_timers :: "panel_timer list"
  sc_timersTruncated :: bool

fun reason_text :: "reason \<Rightarrow> string" where
  "reason_text Signal = ''Waiting for a signal''"
| "reason_text UserTask = ''Waiting for task completion''"
| "reason_text JobAvailable = ''Job available for acquisition''"
| "reason_text JobLocked = ''Job locked by worker''"
| "reason_text Unavailable = ''Wait reason unavailable''"

definition or_text :: "string \<Rightarrow> string option \<Rightarrow> string" where
  "or_text otherwise v = (case v of Some s \<Rightarrow> s | None \<Rightarrow> otherwise)"

text \<open>\<^verbatim>\<open>Math.max(0, Math.floor((observed - Date.parse(startedAt)) / 1000))\<close>.\<close>

definition elapsed_seconds :: "int option \<Rightarrow> int option \<Rightarrow> int option" where
  "elapsed_seconds observed started =
     (case (observed, started) of (Some o', Some s) \<Rightarrow> Some (max 0 ((o' - s) div 1000)) | _ \<Rightarrow> None)"

definition not_after :: "int option \<Rightarrow> int option \<Rightarrow> bool" where
  "not_after t observed \<longleftrightarrow> (case (t, observed) of (Some a, Some b) \<Rightarrow> a \<le> b | _ \<Rightarrow> False)"

text \<open>The article of one step: the line about the entry, the job with whether its lease is over, the task and the
  timers with whether their time has passed.\<close>

record context_article =
  ca_heading :: "string \<times> string"
  ca_status :: string
  ca_unavailable :: "string option"
  ca_entered :: "(string \<times> int option) option"
  ca_job :: "(panel_job \<times> bool) option"
  ca_task :: "(string \<times> string \<times> string) option"
  ca_timers :: "(panel_timer \<times> bool) list"
  ca_truncated :: bool

definition context_article :: "(string \<Rightarrow> int option) \<Rightarrow> string \<Rightarrow> step_context \<Rightarrow> context_article" where
  "context_article dateParse observedAt c =
     (let observed = dateParse observedAt
      in \<lparr>ca_heading = (sc_stepId c, reason_text (sc_reason c)),
          ca_status = or_text ''Not recorded'' (sc_status c),
          ca_unavailable = (if str_truthy (sc_unavailableReason c) then sc_unavailableReason c else None),
          ca_entered =
            (if str_truthy (sc_startedAt c) \<and> sc_status c = Some ''RUNNING'' \<and> sc_reason c \<noteq> Unavailable
             then Some (the (sc_startedAt c), elapsed_seconds observed (dateParse (the (sc_startedAt c)))) else None),
          ca_job = map_option (\<lambda>j. (j, str_truthy (pj_lockExpiresAt j) \<and> not_after (dateParse (the (pj_lockExpiresAt j))) observed))
            (sc_job c),
          ca_task = map_option (\<lambda>t. (ct_id t, or_text ''Unassigned'' (ct_assignee t), or_text ''Unassigned'' (ct_assigneeGroup t)))
            (sc_task c),
          ca_timers = map (\<lambda>t. (t, not_after (dateParse (pt_fireAt t)) observed)) (sc_timers c),
          ca_truncated = sc_timersTruncated c\<rparr>)"

definition ExecutionContextPanel ::
  "(string \<Rightarrow> int option) \<Rightarrow> step_context list \<Rightarrow> string \<Rightarrow> string option \<Rightarrow> context_article list" where
  "ExecutionContextPanel dateParse contexts observedAt selectedStepId =
     map (context_article dateParse observedAt)
       (filter (\<lambda>c. \<not> str_truthy selectedStepId \<or> Some (sc_stepId c) = selectedStepId) contexts)"

text \<open>What the server sends of a context: \<^verbatim>\<open>toISOString\<close> for a date, and for a timestamp inside a \<^verbatim>\<open>jsonb\<close> object the
  text the database gives, \<open>stamp\<close>.\<close>

definition sent_job :: "(int \<Rightarrow> string) \<Rightarrow> context_job \<Rightarrow> panel_job" where
  "sent_job stamp j = \<lparr>pj_id = cj_id j, pj_type = cj_type j, pj_workerId = cj_workerId j,
     pj_lockedAt = map_option stamp (cj_lockedAt j), pj_lockExpiresAt = map_option stamp (cj_lockExpiresAt j),
     pj_createdAt = stamp (cj_createdAt j), pj_retriesRemaining = cj_retriesRemaining j\<rparr>"

definition sent_timer :: "(int \<Rightarrow> string) \<Rightarrow> context_timer \<Rightarrow> panel_timer" where
  "sent_timer stamp t = \<lparr>pt_timerId = cm_id t, pt_fireAt = stamp (cm_fireAt t), pt_targetStepId = cm_targetStepId t,
     pt_interrupting = cm_interrupting t\<rparr>"

definition sent_context :: "(int \<Rightarrow> string) \<Rightarrow> execution_context \<Rightarrow> step_context" where
  "sent_context stamp c = \<lparr>sc_stepId = ec_stepId c, sc_status = ec_status c, sc_startedAt = map_option toISOString (ec_startedAt c),
     sc_reason = ec_reason c, sc_unavailableReason = ec_unavailableReason c, sc_job = map_option (sent_job stamp) (ec_job c),
     sc_task = ec_task c, sc_timers = map (sent_timer stamp) (ec_timers c), sc_timersTruncated = ec_timersTruncated c\<rparr>"

section \<open>Freshness and rows\<close>

definition DataFreshness :: "int \<Rightarrow> int \<Rightarrow> (string \<times> int) option" where
  "DataFreshness now updatedAt =
     (if updatedAt = 0 then None else Some (toISOString updatedAt, max 0 ((now - updatedAt) div 1000)))"

text \<open>One row of the table of step executions; \<open>num_text\<close> is the text of a number.\<close>

record execution_cells =
  xc_current :: bool
  xc_texts :: "string list"
  xc_failure :: failure_cell
  xc_snapshots :: "string \<times> string"

definition recorded_text :: "bool \<Rightarrow> string" where
  "recorded_text b = (if b then ''Recorded'' else ''Not recorded'')"

definition execution_cells_of :: "(int \<Rightarrow> string) \<Rightarrow> string \<Rightarrow> string option \<Rightarrow> step_item \<Rightarrow> execution_cells" where
  "execution_cells_of num_text instanceStatus selectedStepId e =
     \<lparr>xc_current = (Some (si_stepId e) = selectedStepId),
      xc_texts = [si_id e, si_stepId e, si_stepType e, num_text (si_attemptNumber e), si_status e,
        toISOString (si_startedAt e), (case si_endedAt e of Some t \<Rightarrow> toISOString t | None \<Rightarrow> ''In progress'')],
      xc_failure = failure_cell_of instanceStatus (si_id e) (si_status e) (si_hasFailure e),
      xc_snapshots = (recorded_text (si_hasInputSnapshot e), recorded_text (si_hasOutputSnapshot e))\<rparr>"

section \<open>Snapshots\<close>

definition snapshots_url :: "string \<Rightarrow> string \<Rightarrow> string" where
  "snapshots_url instanceId executionId =
     detail_url instanceId @ ''/step-executions/'' @ encodeURIComponent executionId @ ''/variables''"

definition getStepExecutionVariables :: "http_response \<Rightarrow> page_error + string" where
  "getStepExecutionVariables response =
     (if \<not> response_ok response then Inl (Page_Error ''Unable to load Variable Snapshots'') else Inr (resp_text response))"

definition stepLabel :: "string option \<Rightarrow> step_item \<Rightarrow> string" where
  "stepLabel stepName e =
     (case stepName of Some n \<Rightarrow> if trim n = [] then si_stepId e else trim n | None \<Rightarrow> si_stepId e)"

definition bool_text :: "bool \<Rightarrow> string" where
  "bool_text b = (if b then ''true'' else ''false'')"

definition signature :: "string \<Rightarrow> step_item \<Rightarrow> string" where
  "signature instanceId e =
     instanceId @ '':'' @ si_id e @ '':'' @ si_status e @ '':'' @ bool_text (si_hasInputSnapshot e) @ '':'' @
     bool_text (si_hasOutputSnapshot e)"

definition hasSnapshots :: "step_item \<Rightarrow> bool" where
  "hasSnapshots e \<longleftrightarrow> si_hasInputSnapshot e \<or> si_hasOutputSnapshot e"

text \<open>The inspector of one execution: the props of the last render, whether it is expanded, the remembered signature,
  the query and whether the browser is online. The last three fields are auxiliary, no operation reads them:
  \<open>ins_version\<close> counts the changes at the server and an answer is the count it was read at; \<open>ins_changed\<close> is the count
  when the execution last appeared changed on the page; \<open>ins_missed\<close> says that the server had then read an answer
  already whose request was not replaced.\<close>

record inspector =
  ins_execution :: step_item
  ins_expanded :: bool
  ins_previous :: string
  ins_query :: "nat query"
  ins_invalidated :: bool
  ins_online :: bool
  ins_version :: nat
  ins_changed :: nat
  ins_missed :: bool

definition enabled :: "inspector \<Rightarrow> bool" where
  "enabled s \<longleftrightarrow> ins_expanded s \<and> hasSnapshots (ins_execution s)"

text \<open>The query is stale when it has no data, was invalidated, or its \<^verbatim>\<open>staleTime\<close> is zero.\<close>

definition query_stale :: "inspector \<Rightarrow> bool" where
  "query_stale s \<longleftrightarrow> q_data (ins_query s) = None \<or> ins_invalidated s \<or> si_status (ins_execution s) \<noteq> ''COMPLETED''"

text \<open>Fetching stale data, joining a request under way: when the query becomes enabled, when the window gets the focus
  and when the browser comes online.\<close>

definition fetch_stale :: "inspector \<Rightarrow> inspector" where
  "fetch_stale s = (if enabled s \<and> query_stale s then s\<lparr>ins_query := refetch False (ins_online s) (ins_query s)\<rparr> else s)"

text \<open>The mount, on a query \<open>q\<close> that an earlier mount may have left.\<close>

definition new_inspector :: "string \<Rightarrow> step_item \<Rightarrow> bool \<Rightarrow> nat query \<Rightarrow> bool \<Rightarrow> bool \<Rightarrow> nat \<Rightarrow> inspector" where
  "new_inspector instanceId e initiallyExpanded q invalidated isOnline v =
     fetch_stale \<lparr>ins_execution = e, ins_expanded = initiallyExpanded, ins_previous = signature instanceId e, ins_query = q,
       ins_invalidated = invalidated, ins_online = isOnline, ins_version = v, ins_changed = v, ins_missed = False\<rparr>"

definition on_enabled :: "bool \<Rightarrow> inspector \<Rightarrow> inspector" where
  "on_enabled before s = (if before then s else fetch_stale s)"

definition toggle :: "inspector \<Rightarrow> inspector" where
  "toggle s = on_enabled (enabled s) (s\<lparr>ins_expanded := \<not> ins_expanded s\<rparr>)"

text \<open>A render with another state of the execution and the effect after it: \<^verbatim>\<open>invalidateQueries\<close> marks the query and,
  when it is enabled, refetches it, which replaces a request under way only if there is data.\<close>

definition rerender :: "string \<Rightarrow> step_item \<Rightarrow> inspector \<Rightarrow> inspector" where
  "rerender instanceId e s =
     (let s' = on_enabled (enabled s) (s\<lparr>ins_execution := e\<rparr>)
      in if ins_previous s = signature instanceId e then s'
         else s'\<lparr>ins_previous := signature instanceId e, ins_invalidated := True,
                 ins_query := (if enabled s' then refetch True (ins_online s') (ins_query s') else ins_query s')\<rparr>)"

definition snapshots_arrived :: "nat \<Rightarrow> inspector \<Rightarrow> inspector" where
  "snapshots_arrived v s = s\<lparr>ins_query := query_answer v (ins_query s), ins_invalidated := False\<rparr>"

definition inspector_hints :: "inspector \<Rightarrow> section_state list" where
  "inspector_hints s =
     (if ins_expanded s \<and> hasSnapshots (ins_execution s) \<and> isPending (ins_query s) then [Section_Loading] else []) @
     (if ins_expanded s \<and> isError (ins_query s)
      then [if q_data (ins_query s) \<noteq> None then Section_Stale else Section_Failed] else [])"

text \<open>\<^verbatim>\<open>VariableDocumentView\<close> and the rows of \<^verbatim>\<open>VariableTable\<close>.\<close>

fun jsonType :: "json \<Rightarrow> string" where
  "jsonType JNull = ''null''"
| "jsonType (JBool _) = ''boolean''"
| "jsonType (JNum _) = ''number''"
| "jsonType (JStr _) = ''string''"
| "jsonType (JArr _) = ''array''"
| "jsonType (JObj _) = ''object''"

definition VariableTable :: "(json \<Rightarrow> string) \<Rightarrow> json \<Rightarrow> (string \<times> string \<times> string) list" where
  "VariableTable stringify v =
     map (\<lambda>(name, x). (name, stringify x, jsonType x)) (case v of JObj kvs \<Rightarrow> kvs | _ \<Rightarrow> [(''Value'', v)])"

datatype document_view = View_Text string | View_Table "(string \<times> string \<times> string) list"

definition VariableDocumentView :: "(json \<Rightarrow> string) \<Rightarrow> (nat \<Rightarrow> string) \<Rightarrow> string \<Rightarrow> variable_document \<Rightarrow> document_view" where
  "VariableDocumentView stringify size_text label doc =
     (case doc of
        NotRecorded \<Rightarrow> View_Text (label @ '': Not recorded'')
      | ContentTooLarge n \<Rightarrow> View_Text (label @ '': Content too large ('' @ size_text n @ '' bytes).'')
      | Present v n \<Rightarrow> View_Table (VariableTable stringify v))"

definition already_read :: "'a query \<Rightarrow> bool" where
  "already_read q \<longleftrightarrow> (case q_fetch q of Read _ \<Rightarrow> True | _ \<Rightarrow> False)"

text \<open>The life of an inspector. A recorded snapshot stays recorded.\<close>

inductive inspector_step :: "string \<Rightarrow> inspector \<Rightarrow> inspector \<Rightarrow> bool" for instanceId where
  record_more: "inspector_step instanceId s (s\<lparr>ins_version := Suc (ins_version s)\<rparr>)"
| toggled: "inspector_step instanceId s (toggle s)"
| rerendered: "si_id e = si_id (ins_execution s) \<Longrightarrow>
     (si_hasInputSnapshot (ins_execution s) \<longrightarrow> si_hasInputSnapshot e) \<Longrightarrow>
     (si_hasOutputSnapshot (ins_execution s) \<longrightarrow> si_hasOutputSnapshot e) \<Longrightarrow>
     s' = rerender instanceId e s \<Longrightarrow>
     inspector_step instanceId s
       (if ins_previous s = signature instanceId e then s'
        else s'\<lparr>ins_changed := ins_version s, ins_missed := already_read (ins_query s')\<rparr>)"
| focused: "inspector_step instanceId s (fetch_stale s)"
| offline: "inspector_step instanceId s (s\<lparr>ins_online := False\<rparr>)"
| online: "inspector_step instanceId s (fetch_stale (s\<lparr>ins_online := True, ins_query := go_online (ins_query s)\<rparr>))"
| snapshots_read: "q_fetch (ins_query s) = Sent \<Longrightarrow>
     inspector_step instanceId s (s\<lparr>ins_query := (ins_query s)\<lparr>q_fetch := Read (ins_version s)\<rparr>, ins_missed := False\<rparr>)"
| arrived: "q_fetch (ins_query s) = Read v \<Longrightarrow> inspector_step instanceId s (snapshots_arrived v s)"
| failed: "in_flight (ins_query s) \<Longrightarrow> inspector_step instanceId s (s\<lparr>ins_query := query_fail e (ins_query s)\<rparr>)"
| retried: "ins_expanded s \<Longrightarrow> isError (ins_query s) \<Longrightarrow>
     inspector_step instanceId s (s\<lparr>ins_query := refetch True (ins_online s) (ins_query s)\<rparr>)"

section \<open>The context panel tells the truth\<close>

text \<open>What the panel relies on: the browser reads back the texts the server writes, those of the database at the
  precision of a millisecond.\<close>

definition reads_times :: "(string \<Rightarrow> int option) \<Rightarrow> (int \<Rightarrow> string) \<Rightarrow> bool" where
  "reads_times dateParse stamp \<longleftrightarrow>
     (\<forall>t. iso_date t \<longrightarrow> dateParse (toISOString t) = Some t) \<and>
     (\<forall>t. iso_date (t div 1000) \<longrightarrow> dateParse (stamp t) = Some (t div 1000) \<and> stamp t \<noteq> [])"

lemma toISOString_nonempty: "toISOString t \<noteq> []"
  by (simp add: toISOString_def Let_def)

text \<open>The panel has one article for each context the server sent for the selected step, or for every current step
  when none is selected; the seconds are those between the entry and the observation, rounded down; a lease is
  marked as expired exactly when its end, at the precision of a millisecond, is not after the observation, and a timer
  as passed likewise; and a step without a known reason shows no age.\<close>

theorem context_panel_exact:
  assumes "reads_times dateParse stamp" "iso_date observed" "c \<in> set contexts"
    and "list_all iso_date (case ec_startedAt c of Some t \<Rightarrow> [t] | None \<Rightarrow> [])"
    and "list_all (\<lambda>t. iso_date (t div 1000))
      ((case ec_job c of Some j \<Rightarrow> (case cj_lockExpiresAt j of Some t \<Rightarrow> [t] | None \<Rightarrow> []) | None \<Rightarrow> []) @ map cm_fireAt (ec_timers c))"
    and "a = context_article dateParse (toISOString observed) (sent_context stamp c)"
  shows "(a \<in> set (ExecutionContextPanel dateParse (map (sent_context stamp) contexts) (toISOString observed) (Some (ec_stepId c)))) \<and>
    (ca_entered a = (case ec_startedAt c of
        Some t \<Rightarrow> if ec_status c = Some ''RUNNING'' \<and> ec_reason c \<noteq> Unavailable
                  then Some (toISOString t, Some (max 0 ((observed - t) div 1000))) else None
      | None \<Rightarrow> None)) \<and>
    map_option snd (ca_job a) = map_option (\<lambda>j. case cj_lockExpiresAt j of Some t \<Rightarrow> t div 1000 \<le> observed | None \<Rightarrow> False) (ec_job c) \<and>
    map snd (ca_timers a) = map (\<lambda>t. cm_fireAt t div 1000 \<le> observed) (ec_timers c)"
proof -
  have iso: "dateParse (toISOString t) = Some t" if "iso_date t" for t using assms(1) that by (simp add: reads_times_def)
  have jsonb: "dateParse (stamp t) = Some (t div 1000)" "stamp t \<noteq> []" if "iso_date (t div 1000)" for t
    using assms(1) that by (simp_all add: reads_times_def)
  have "a \<in> set (ExecutionContextPanel dateParse (map (sent_context stamp) contexts) (toISOString observed) (Some (ec_stepId c)))"
    using assms(3,6) by (auto simp: ExecutionContextPanel_def sent_context_def)
  moreover have "ca_entered a = (case ec_startedAt c of
        Some t \<Rightarrow> if ec_status c = Some ''RUNNING'' \<and> ec_reason c \<noteq> Unavailable
                  then Some (toISOString t, Some (max 0 ((observed - t) div 1000))) else None
      | None \<Rightarrow> None)"
    unfolding assms(6)
    by (cases "ec_startedAt c") (use assms(2,4) iso in \<open>simp_all add: context_article_def sent_context_def Let_def
        str_truthy_def elapsed_seconds_def toISOString_nonempty\<close>)
  moreover have "map_option snd (ca_job a) =
      map_option (\<lambda>j. case cj_lockExpiresAt j of Some t \<Rightarrow> t div 1000 \<le> observed | None \<Rightarrow> False) (ec_job c)"
    unfolding assms(6)
  proof (cases "ec_job c")
    case (Some j)
    then show "map_option snd (ca_job (context_article dateParse (toISOString observed) (sent_context stamp c))) =
      map_option (\<lambda>j. case cj_lockExpiresAt j of Some t \<Rightarrow> t div 1000 \<le> observed | None \<Rightarrow> False) (ec_job c)"
      by (cases "cj_lockExpiresAt j") (use assms(2,5) iso jsonb in \<open>simp_all add: context_article_def sent_context_def
          sent_job_def Let_def str_truthy_def not_after_def\<close>)
  qed (simp add: context_article_def sent_context_def Let_def)
  moreover have "map snd (ca_timers a) = map (\<lambda>t. cm_fireAt t div 1000 \<le> observed) (ec_timers c)"
    unfolding assms(6) using assms(2,5) iso jsonb
    by (simp add: context_article_def sent_context_def sent_timer_def Let_def not_after_def list_all_iff)
  ultimately show ?thesis by blast
qed

text \<open>A job locked until one second after the observation, one second after the step was entered.\<close>

definition sample_context :: execution_context where
  "sample_context = \<lparr>ec_stepId = ''pay'', ec_executionId = Some ''e1'', ec_stepType = Some ''SERVICE_TASK'',
     ec_status = Some ''RUNNING'', ec_startedAt = Some 1735689598123, ec_reason = JobLocked, ec_unavailableReason = None,
     ec_job = Some \<lparr>cj_id = ''j'', cj_type = ''pay'', cj_status = ''LOCKED'', cj_workerId = None, cj_lockedAt = None,
       cj_lockExpiresAt = Some 1735689600123456, cj_createdAt = 0, cj_retriesRemaining = 3\<rparr>,
     ec_task = None, ec_timers = [], ec_timersTruncated = False\<rparr>"

definition iso_parse :: "string \<Rightarrow> int option" where
  "iso_parse s = Option.bind (utc_match s) parse_utc"

lemma iso_reads_times: "reads_times iso_parse (\<lambda>t. toISOString (t div 1000))"
  by (simp add: reads_times_def iso_parse_def iso_roundtrip_parts(2) toISOString_nonempty)

theorem context_panel_exact_witness:
  "ca_entered (context_article iso_parse (toISOString 1735689599123) (sent_context (\<lambda>t. toISOString (t div 1000)) sample_context)) =
     Some (toISOString 1735689598123, Some 1)"
proof -
  have iso: "iso_date 1735689599123" "iso_date 1735689598123" "iso_date (1735689600123456 div 1000)"
    by (simp_all add: iso_date_def day_from_year_def)
  note exact = context_panel_exact [OF iso_reads_times iso(1), of sample_context "[sample_context]", OF _ _ _ refl]
  from exact iso show ?thesis by (simp add: sample_context_def)
qed

section \<open>The inspector follows its execution\<close>














text \<open>An execution that runs with its input recorded, and the same after it has completed.\<close>

definition sample_running :: step_item where
  "sample_running = \<lparr>si_id = ''e1'', si_stepId = ''pay'', si_stepType = ''SERVICE_TASK'', si_attemptNumber = 1,
     si_status = ''RUNNING'', si_startedAt = 0, si_endedAt = None, si_hasFailure = False, si_hasInputSnapshot = True,
     si_hasOutputSnapshot = False\<rparr>"

definition sample_completed :: step_item where
  "sample_completed = sample_running\<lparr>si_status := ''COMPLETED'', si_endedAt := Some 1, si_hasOutputSnapshot := True\<rparr>"

abbreviation mounted :: "step_item \<Rightarrow> nat query \<Rightarrow> nat \<Rightarrow> inspector" where
  "mounted e q v \<equiv> new_inspector ''i'' e True q False True v"

definition open_inspector :: inspector where
  "open_inspector = mounted sample_running (new_query False) 0"

lemmas sample_inspector_defs = open_inspector_def new_inspector_def sample_running_def sample_completed_def
  hasSnapshots_def enabled_def inspector_hints_def fetch_stale_def query_stale_def query_defs

definition answered_inspector :: inspector where
  "answered_inspector = open_inspector\<lparr>ins_query := query_answer 0 (new_query True)\<rparr>"



text \<open>What the exceptions stand for: an inspector that shows, for a completed execution, snapshots from before its
  completion, without its output, and will not request them again, since a completed execution does not become stale.\<close>

definition keeps_old_snapshot :: "inspector \<Rightarrow> bool" where
  "keeps_old_snapshot s \<longleftrightarrow> ins_execution s = sample_completed \<and> enabled s \<and> q_fetch (ins_query s) = Not_Fetching \<and>
     inspector_hints s = [] \<and> q_data (ins_query s) = Some 0 \<and> ins_version s = 1 \<and> \<not> query_stale s"

lemmas old_snapshot_defs = sample_inspector_defs keeps_old_snapshot_def toggle_def on_enabled_def rerender_def
  snapshots_arrived_def signature_def bool_text_def already_read_def

text \<open>The first request is under way when the execution appears completed: it is joined, and its old answer clears the
  invalidation.\<close>

theorem first_answer_hides_completion: "\<exists>s. (inspector_step ''i'')\<^sup>*\<^sup>* open_inspector s \<and> keeps_old_snapshot s"
proof -
  let ?a = "open_inspector\<lparr>ins_query := (ins_query open_inspector)\<lparr>q_fetch := Read 0\<rparr>\<rparr>"
  let ?b = "?a\<lparr>ins_version := 1\<rparr>"
  let ?c = "(rerender ''i'' sample_completed ?b)\<lparr>ins_changed := 1, ins_missed := True\<rparr>"
  let ?d = "snapshots_arrived 0 ?c"
  have "inspector_step ''i'' open_inspector ?a"
    using inspector_step.snapshots_read [of open_inspector "''i''"] by (simp add: sample_inspector_defs)
  moreover have "inspector_step ''i'' ?a ?b"
    using inspector_step.record_more [of "''i''" ?a] by (simp add: sample_inspector_defs)
  moreover have "inspector_step ''i'' ?b ?c"
    using inspector_step.rerendered [OF _ _ _ refl, of sample_completed ?b "''i''"] by (simp add: old_snapshot_defs)
  moreover have "inspector_step ''i'' ?c ?d" by (rule inspector_step.arrived) (simp add: old_snapshot_defs)
  ultimately have "(inspector_step ''i'')\<^sup>*\<^sup>* open_inspector ?d"
    by (meson converse_rtranclp_into_rtranclp rtranclp.rtrancl_refl)
  moreover have "keeps_old_snapshot ?d" by (simp add: old_snapshot_defs)
  ultimately show ?thesis by blast
qed

text \<open>The inspector is collapsed while its request is under way: the completion then only marks the query, and the old
  answer clears the mark.\<close>

theorem closed_inspector_keeps_old_snapshot:
  "\<exists>s. (inspector_step ''i'')\<^sup>*\<^sup>* answered_inspector s \<and> keeps_old_snapshot s"
proof -
  let ?f = "fetch_stale answered_inspector"
  let ?a = "?f\<lparr>ins_query := (ins_query ?f)\<lparr>q_fetch := Read 0\<rparr>, ins_missed := False\<rparr>"
  let ?b = "toggle ?a"
  let ?c = "?b\<lparr>ins_version := 1\<rparr>"
  let ?d = "(rerender ''i'' sample_completed ?c)\<lparr>ins_changed := 1, ins_missed := True\<rparr>"
  let ?e = "snapshots_arrived 0 ?d"
  let ?g = "toggle ?e"
  note defs = old_snapshot_defs answered_inspector_def
  have "inspector_step ''i'' answered_inspector ?f" by (rule inspector_step.focused)
  moreover have "inspector_step ''i'' ?f ?a"
    using inspector_step.snapshots_read [of ?f "''i''"] by (simp add: defs)
  moreover have "inspector_step ''i'' ?a ?b" "inspector_step ''i'' ?e ?g" by (rule inspector_step.toggled)+
  moreover have "inspector_step ''i'' ?b ?c"
    using inspector_step.record_more [of "''i''" ?b] by (simp add: defs)
  moreover have "inspector_step ''i'' ?c ?d"
    using inspector_step.rerendered [OF _ _ _ refl, of sample_completed ?c "''i''"] by (simp add: defs)
  moreover have "inspector_step ''i'' ?d ?e" by (rule inspector_step.arrived) (simp add: defs)
  ultimately have "(inspector_step ''i'')\<^sup>*\<^sup>* answered_inspector ?g"
    by (meson converse_rtranclp_into_rtranclp rtranclp.rtrancl_refl)
  moreover have "keeps_old_snapshot ?g" by (simp add: defs)
  ultimately show ?thesis by blast
qed

text \<open>The inspector is left and mounted again after the completion: it remembers the signature of the second mount, so
  nothing invalidates the answer that the first one left in the cache.\<close>

theorem remounted_inspector_keeps_old_snapshot:
  "keeps_old_snapshot (mounted sample_completed (ins_query answered_inspector) 1)"
  by (simp add: old_snapshot_defs answered_inspector_def)

end
