(* ===== verification/Monitor_Api.thy ===== *)
theory Monitor_Api
  imports Instance_Panels Incidents Overview
begin

text \<open>
  The HTTP interface of the monitor's server: the routes of the controllers under
  \<^verbatim>\<open>workflow-monitor-bff/src/modules\<close>, the health checks and the logging middleware of \<^verbatim>\<open>app.ts\<close>, put together
  with the requests the instance page of the browser makes. The framework's router and its reading of the query
  string are parameters; of the router \<open>router_ok\<close> states what its documentation promises, that a path made from a
  route's template by putting escaped values for its parameters reaches that route with those values.
\<close>

section \<open>Routes\<close>

datatype handler =
    Health_Live
  | Health_Ready
  | Incident_List
  | Incident_One
  | Overview_Definitions
  | Overview_Steps
  | Instance_List
  | Instance_One
  | Instance_Executions
  | Instance_Variables
  | Execution_Variables
  | Definition_Options

text \<open>The paths of the decorators \<^verbatim>\<open>@Controller\<close> and \<^verbatim>\<open>@Get\<close>, in the order of \<^verbatim>\<open>AppModule.register\<close>.\<close>

definition api_routes :: "(string \<times> handler) list" where
  "api_routes =
     [(''/api/v1/incidents'', Incident_List), (''/api/v1/incidents/:id'', Incident_One),
      (''/api/v1/overview'', Overview_Definitions), (''/api/v1/overview/steps'', Overview_Steps),
      (''/api/v1/process-instances'', Instance_List), (''/api/v1/process-instances/:id'', Instance_One),
      (''/api/v1/process-instances/:id/step-executions'', Instance_Executions),
      (''/api/v1/process-instances/:id/variables'', Instance_Variables),
      (''/api/v1/process-instances/:id/step-executions/:executionId/variables'', Execution_Variables),
      (''/api/v1/workflow-definitions'', Definition_Options), (''/health/live'', Health_Live),
      (''/health/ready'', Health_Ready)]"

text \<open>The path a template stands for, with the values of its parameters.\<close>

fun is_param :: "string \<Rightarrow> bool" where
  "is_param (c # _) \<longleftrightarrow> c = CHR '':''"
| "is_param [] \<longleftrightarrow> False"

fun fill :: "string list \<Rightarrow> string list \<Rightarrow> string list" where
  "fill [] vs = []"
| "fill (s # t) vs =
     (if is_param s then encodeURIComponent (hd vs) # fill t (tl vs) else s # fill t vs)"

fun join_slash :: "string list \<Rightarrow> string" where
  "join_slash [] = []"
| "join_slash [s] = s"
| "join_slash (s # t) = s @ ''/'' @ join_slash t"

definition template_path :: "string \<Rightarrow> string list \<Rightarrow> string" where
  "template_path template vs = join_slash (fill (split_slash template) vs)"

definition param_count :: "string \<Rightarrow> nat" where
  "param_count template = length (filter is_param (split_slash template))"

type_synonym router = "string \<Rightarrow> (handler \<times> string list) option"

definition router_ok :: "router \<Rightarrow> bool" where
  "router_ok router \<longleftrightarrow>
     (\<forall>(template, h) \<in> set api_routes. \<forall>vs. length vs = param_count template \<and> [] \<notin> set vs \<longrightarrow>
        router (template_path template vs) = Some (h, vs))"

section \<open>Handlers\<close>

datatype api_body =
    Status_Body string
  | Incidents_Body "incident_item list \<times> string option"
  | Incident_Body incident_detail
  | Definitions_Body "definition_count overview_page"
  | Steps_Body steps_page
  | Instances_Body "instance_item list \<times> string option"
  | Detail_Body instance_detail
  | Executions_Body "step_item list \<times> string option"
  | Variables_Body variable_document
  | Recorded_Body recorded_variables
  | Options_Body "(string \<times> string) list"
  | Error_Body string

text \<open>The exceptions of the framework carry their status; every other exception is a status 500.\<close>

definition respond :: "('a \<Rightarrow> api_body) \<Rightarrow> monitor_error + 'a \<Rightarrow> nat \<times> api_body" where
  "respond body result =
     (case result of
        Inr x \<Rightarrow> (200, body x)
      | Inl (BadRequest m) \<Rightarrow> (400, Error_Body m)
      | Inl (NotFound m) \<Rightarrow> (404, Error_Body m)
      | Inl _ \<Rightarrow> (500, Error_Body ''Internal server error''))"

text \<open>The server with its database at the moment of the request; the last four fields read the query string.\<close>

record 'b backend =
  be_env :: "'b monitor_env"
  be_db :: database
  be_now :: int
  be_ok :: "conversation \<Rightarrow> statement \<Rightarrow> bool"
  be_catalog :: "catalog option"
  be_maxBytes :: nat
  be_instances :: "string \<Rightarrow> instance_query"
  be_steps :: "string \<Rightarrow> step_query"
  be_incidents :: "string \<Rightarrow> incident_query"
  be_overview :: "string \<Rightarrow> overview_query"

definition handle :: "'b backend \<Rightarrow> handler \<Rightarrow> string list \<Rightarrow> string \<Rightarrow> nat \<times> api_body" where
  "handle be h vs query =
     (case h of
        Health_Live \<Rightarrow> (200, Status_Body ''ok'')
      | Health_Ready \<Rightarrow> (ready (be_catalog be), Status_Body (if ready (be_catalog be) = 200 then ''ok'' else ''unavailable''))
      | Incident_List \<Rightarrow> respond Incidents_Body (list_incidents (be_env be) (be_db be) (be_incidents be query))
      | Incident_One \<Rightarrow> respond Incident_Body (incident_detail_route (be_env be) (be_db be) (vs ! 0))
      | Overview_Definitions \<Rightarrow>
          respond Definitions_Body (Overview.definitions (be_env be) (be_db be) (be_now be) (be_overview be query))
      | Overview_Steps \<Rightarrow> respond Steps_Body (Overview.steps (be_env be) (be_db be) (be_now be) (be_overview be query))
      | Instance_List \<Rightarrow> respond Instances_Body (list_instances (be_env be) (be_db be) (be_instances be query))
      | Instance_One \<Rightarrow> respond Detail_Body (detail_route (be_env be) (be_db be) (be_now be) (vs ! 0) (be_ok be))
      | Instance_Executions \<Rightarrow>
          respond Executions_Body (listStepExecutions (be_env be) (be_db be) (vs ! 0) (be_steps be query))
      | Instance_Variables \<Rightarrow> respond Variables_Body (current_route (be_env be) (be_maxBytes be) (be_db be) (vs ! 0))
      | Execution_Variables \<Rightarrow>
          respond Recorded_Body (recorded_route (be_env be) (be_maxBytes be) (be_db be) (vs ! 0) (vs ! 1))
      | Definition_Options \<Rightarrow> (200, Options_Body (definition_options (be_env be) (be_db be))))"

section \<open>Middleware\<close>

datatype header_value = One_Header string | Many_Headers "string list"

definition request_id :: "header_value option \<Rightarrow> string \<Rightarrow> string" where
  "request_id header uuid =
     (let h = (case header of
                 Some (One_Header s) \<Rightarrow> Some s
               | Some (Many_Headers (s # _)) \<Rightarrow> Some s
               | _ \<Rightarrow> None)
      in if str_truthy h then the h else uuid)"

text \<open>\<^verbatim>\<open>Math.round(d * 100) / 100\<close>.\<close>

definition round_cents :: "rat \<Rightarrow> rat" where
  "round_cents d = of_int \<lfloor>d * 100 + 1 / 2\<rfloor> / 100"

record log_record =
  lr_requestId :: string
  lr_route :: string
  lr_status :: nat
  lr_durationMs :: rat

record api_response =
  ar_status :: nat
  ar_requestId :: string
  ar_body :: api_body

text \<open>A \<^verbatim>\<open>GET\<close> request: the answer, and the line that is logged when it is finished. The log names the template of
  the route, not the path with its ids, unless no route was found.\<close>

definition route_text :: "handler \<Rightarrow> string option" where
  "route_text h = map_option fst (find (\<lambda>(_, h'). h' = h) api_routes)"

definition serve ::
  "router \<Rightarrow> 'b backend \<Rightarrow> header_value option \<Rightarrow> string \<Rightarrow> rat \<Rightarrow> string \<Rightarrow> string \<Rightarrow> api_response \<times> log_record" where
  "serve router be header uuid elapsed path query =
     (let i = request_id header uuid;
          (status, body) = (case router path of
                              Some (h, vs) \<Rightarrow> handle be h vs query
                            | None \<Rightarrow> (404, Error_Body (''Cannot GET '' @ path)));
          route = (case router path of
                     Some (h, _) \<Rightarrow> (case route_text h of Some t \<Rightarrow> t | None \<Rightarrow> path)
                   | None \<Rightarrow> path)
      in (\<lparr>ar_status = status, ar_requestId = i, ar_body = body\<rparr>,
          \<lparr>lr_requestId = i, lr_route = route, lr_status = status, lr_durationMs = round_cents elapsed\<rparr>))"

text \<open>The response as the browser's \<^verbatim>\<open>fetch\<close> gives it; \<open>body_text\<close> serialises a body.\<close>

definition received :: "(api_body \<Rightarrow> string) \<Rightarrow> api_response \<Rightarrow> http_response" where
  "received body_text r = \<lparr>resp_status = ar_status r, resp_statusText = [], resp_text = body_text (ar_body r)\<rparr>"

section \<open>The router reaches every route\<close>

lemma split_join_slash:
  "ss \<noteq> [] \<Longrightarrow> list_all (\<lambda>s. CHR ''/'' \<notin> set s) ss \<Longrightarrow> split_slash (join_slash ss) = ss"
  by (induction ss rule: join_slash.induct) (auto simp: split_slash_word split_slash_append [unfolded append.simps] append_eq_Cons_conv)

text \<open>Escaped values have none of the characters that end a segment or a path.\<close>

lemma encode_no_query: "CHR ''?'' \<notin> set (encodeURIComponent s)"
proof -
  have hex: "hex_digit n \<noteq> CHR ''?''" if "n < 16" for n
  proof
    assume "hex_digit n = CHR ''?''"
    then have "of_char (hex_digit n) = (63 :: nat)" by simp
    with that show False by (simp add: hex_digit_def split: if_splits)
  qed
  have "CHR ''?'' \<notin> set (percent b)" if "b < 256" for b
    using less_mult_imp_div_less [of b 16 16] that hex [of "b div 16"] hex [of "b mod 16"] by (simp add: percent_def)
  moreover have "of_char c < (256 :: nat)" "192 + (of_char c :: nat) div 64 < 256" "128 + (of_char c :: nat) mod 64 < 256" for c
    using of_char_div [of c] by (simp_all add: of_char_less)
  ultimately have "CHR ''?'' \<notin> set (encode_char c)" for c
    by (auto simp: encode_char_def Let_def unreserved_def is_alpha_def is_digit_def)
  then show ?thesis by (simp add: encodeURIComponent_def)
qed

text \<open>A router that compares the segments one by one.\<close>

definition decode_text :: "string \<Rightarrow> string option" where
  "decode_text s =
     (case decodeURIComponent s of
        Some ps \<Rightarrow> if list_all (\<lambda>p. p < 256) ps then Some (map char_of ps) else None
      | None \<Rightarrow> None)"

fun match_segments :: "string list \<Rightarrow> string list \<Rightarrow> string list option" where
  "match_segments [] [] = Some []"
| "match_segments (s # t) (w # ws) =
     (if is_param s
      then (if w = [] then None
            else case decode_text w of Some v \<Rightarrow> map_option ((#) v) (match_segments t ws) | None \<Rightarrow> None)
      else if s = w then match_segments t ws else None)"
| "match_segments _ _ = None"

fun first_match :: "(string \<times> handler) list \<Rightarrow> string list \<Rightarrow> (handler \<times> string list) option" where
  "first_match [] ws = None"
| "first_match ((template, h) # rest) ws =
     (case match_segments (split_slash template) ws of Some vs \<Rightarrow> Some (h, vs) | None \<Rightarrow> first_match rest ws)"

definition segment_router :: router where
  "segment_router path = first_match api_routes (split_slash path)"

lemma decode_text_encode [simp]: "decode_text (encodeURIComponent s) = Some s"
  by (simp add: decode_text_def uri_decode_encode list_all_iff of_char_less comp_def)

lemma fill_no_slash:
  assumes "list_all (\<lambda>s. CHR ''/'' \<notin> set s) ss"
  shows "list_all (\<lambda>s. CHR ''/'' \<notin> set s) (fill ss vs)"
  using assms by (induction ss vs rule: fill.induct) (auto simp: encode_segment)

lemma split_slash_no_slash: "list_all (\<lambda>s. CHR ''/'' \<notin> set s) (split_slash s)"
  by (induction s) (auto split: list.splits)

lemma split_slash_nonempty: "split_slash s \<noteq> []"
  by (cases s) (auto split: list.splits)

lemma split_template_path: "split_slash (template_path t vs) = fill (split_slash t) vs"
proof -
  have "fill (split_slash t) vs \<noteq> []" using split_slash_nonempty [of t] by (cases "split_slash t") auto
  then show ?thesis
    unfolding template_path_def by (rule split_join_slash [OF _ fill_no_slash [OF split_slash_no_slash]])
qed

lemma segment_router_ok: "router_ok segment_router"
  unfolding router_ok_def segment_router_def split_template_path
  by (auto simp: api_routes_def param_count_def length_Suc_conv encode_segment numeral_2_eq_2)

section \<open>The requests of the instance page\<close>

definition url_path :: "string \<Rightarrow> string" where
  "url_path url = takeWhile (\<lambda>c. c \<noteq> CHR ''?'') url"

definition url_query :: "string \<Rightarrow> string" where
  "url_query url = dropWhile (\<lambda>c. c \<noteq> CHR ''?'') url"

text \<open>What the browser gets for an address: \<open>answer_to\<close> is the response of the server to it.\<close>

definition answer_to ::
  "router \<Rightarrow> 'b backend \<Rightarrow> header_value option \<Rightarrow> string \<Rightarrow> (api_body \<Rightarrow> string) \<Rightarrow> string \<Rightarrow> http_response" where
  "answer_to router be header uuid body_text url =
     received body_text (fst (serve router be header uuid 0 (url_path url) (url_query url)))"

text \<open>The query string of a page of step executions is read back as its cursor.\<close>

definition reads_cursor :: "(string \<Rightarrow> string) \<Rightarrow> (string \<Rightarrow> step_query) \<Rightarrow> bool" where
  "reads_cursor encode parse \<longleftrightarrow>
     parse '''' = \<lparr>sq_cursor = None, sq_pageSize = None\<rparr> \<and>
     (\<forall>c. parse (''?cursor='' @ encode c) = \<lparr>sq_cursor = Some c, sq_pageSize = None\<rparr>)"

lemma url_parts:
  assumes "CHR ''?'' \<notin> set p" "q = [] \<or> hd q = CHR ''?''"
  shows "url_path (p @ q) = p" "url_query (p @ q) = q"
  using assms by (induction p; cases q; auto simp: url_path_def url_query_def)+

lemma routed:
  assumes "router_ok router" "(template, h) \<in> set api_routes" "length vs = param_count template" "[] \<notin> set vs"
  shows "router (template_path template vs) = Some (h, vs)"
  using assms unfolding router_ok_def by fastforce

lemma page_paths:
  "detail_url i = template_path ''/api/v1/process-instances/:id'' [i]"
  "detail_url i @ ''/step-executions'' = template_path ''/api/v1/process-instances/:id/step-executions'' [i]"
  "detail_url i @ ''/variables'' = template_path ''/api/v1/process-instances/:id/variables'' [i]"
  "snapshots_url i x = template_path ''/api/v1/process-instances/:id/step-executions/:executionId/variables'' [i, x]"
  by (simp_all add: detail_url_def snapshots_url_def template_path_def)

lemma page_routes:
  assumes "router_ok router" "i \<noteq> []"
  shows "router (detail_url i) = Some (Instance_One, [i])"
    "router (detail_url i @ ''/step-executions'') = Some (Instance_Executions, [i])"
    "router (detail_url i @ ''/variables'') = Some (Instance_Variables, [i])"
proof -
  note reach = routed [OF assms(1), of _ _ "[i]", unfolded api_routes_def param_count_def]
  show "router (detail_url i) = Some (Instance_One, [i])"
    unfolding page_paths(1) by (rule reach) (use assms(2) in simp_all)
  show "router (detail_url i @ ''/step-executions'') = Some (Instance_Executions, [i])"
    unfolding page_paths(2) by (rule reach) (use assms(2) in simp_all)
  show "router (detail_url i @ ''/variables'') = Some (Instance_Variables, [i])"
    unfolding page_paths(3) by (rule reach) (use assms(2) in simp_all)
qed

lemma snapshots_route:
  assumes "router_ok router" "i \<noteq> []" "x \<noteq> []"
  shows "router (snapshots_url i x) = Some (Execution_Variables, [i, x])"
  unfolding page_paths(4) by (rule routed [OF assms(1)]) (use assms(2,3) in \<open>simp_all add: api_routes_def param_count_def\<close>)

lemma detail_url_no_query: "CHR ''?'' \<notin> set (detail_url i)"
  by (simp add: detail_url_def encode_no_query)

lemma answer_to_routed:
  assumes "router path = Some (h, vs)" "CHR ''?'' \<notin> set path" "query = [] \<or> hd query = CHR ''?''"
  shows "answer_to router be header uuid body_text (path @ query) =
    \<lparr>resp_status = fst (handle be h vs query), resp_statusText = [], resp_text = body_text (snd (handle be h vs query))\<rparr>"
  using assms(1) url_parts [OF assms(2,3)]
  by (simp add: answer_to_def received_def serve_def Let_def split: prod.split)

lemma respond_status:
  "fst (respond body r) = 200 \<longleftrightarrow> (\<exists>x. r = Inr x)" "fst (respond body r) = 404 \<longleftrightarrow> (\<exists>m. r = Inl (NotFound m))"
  "fst (respond body r) \<in> {200, 400, 404, 500}"
  by (auto simp: respond_def split: sum.splits monitor_error.splits)

lemma handle_status: "fst (handle be h vs query) \<in> {200, 400, 404, 500} \<union> (if h = Health_Ready then {503} else {})"
  by (cases h) (simp_all add: respond_status(3) [simplified] handle_def ready_def split: sum.split)

lemma detail_error: "fst (detail env db now i ok) = Inl e \<Longrightarrow> e = DatabaseError"
  by (simp add: detail_def split: prod.splits option.splits)

lemma serve_found:
  assumes "router path = Some (h, vs)"
  shows "ar_status (fst (serve router be header uuid elapsed path query)) = fst (handle be h vs query)"
    "lr_route (snd (serve router be header uuid elapsed path query)) = (case route_text h of Some t \<Rightarrow> t | None \<Rightarrow> path)"
  using assms by (simp_all add: serve_def Let_def split: prod.split)

lemma serve_not_found:
  assumes "router path = None"
  shows "ar_status (fst (serve router be header uuid elapsed path query)) = 404"
    "lr_route (snd (serve router be header uuid elapsed path query)) = path"
  using assms by (simp_all add: serve_def Let_def)

lemma serve_same:
  "lr_status (snd (serve router be header uuid elapsed path query)) = ar_status (fst (serve router be header uuid elapsed path query))"
  "lr_requestId (snd (serve router be header uuid elapsed path query)) = request_id header uuid"
  "ar_requestId (fst (serve router be header uuid elapsed path query)) = request_id header uuid"
  by (simp_all add: serve_def Let_def split: prod.split)

lemma route_text_listed: "\<exists>t. route_text h = Some t \<and> (t, h) \<in> set api_routes"
  by (cases h) (simp_all add: route_text_def api_routes_def)

text \<open>C12. The requests of the instance page reach the handlers for exactly this instance, whatever characters its id
  has, and the page understands their answers: it reports that the instance does not exist exactly when the server
  found no such instance with its definition, and an error exactly when a statement failed; otherwise it has the
  detail. The page of step executions is the one of the cursor the page holds, the variables are those of the
  instance, and the snapshots those of the execution. (The ids of one or two dots are left out, which the browser's address parser removes from a path.)\<close>

theorem instance_page_answers:
  assumes "router_ok router" "i \<notin> {[], ''.'', ''..''}" "x \<notin> {[], ''.'', ''..''}" "reads_cursor encode (be_steps be)"
  shows "getProcessInstanceDetail (answer_to router be header uuid body_text (detail_url i)) =
      (case fst (detail (be_env be) (be_db be) (be_now be) i (be_ok be)) of
         Inr (Some d) \<Rightarrow> Inr (body_text (Detail_Body d))
       | Inr None \<Rightarrow> Inl Instance_Not_Found
       | Inl _ \<Rightarrow> Inl (Page_Error ''Unable to load Process Instance'')) \<and>
    listStepExecutions_answer (answer_to router be header uuid body_text (executions_url encode i cursor)) =
      (case listStepExecutions (be_env be) (be_db be) i
              \<lparr>sq_cursor = (if str_truthy cursor then cursor else None), sq_pageSize = None\<rparr> of
         Inr p \<Rightarrow> Inr (body_text (Executions_Body p))
       | Inl _ \<Rightarrow> Inl (Page_Error ''Unable to load Step Executions'')) \<and>
    getCurrentVariables (answer_to router be header uuid body_text (variables_url i)) =
      (case current_variables (be_env be) (be_maxBytes be) (be_db be) i of
         Some doc \<Rightarrow> Inr (body_text (Variables_Body doc))
       | None \<Rightarrow> Inl (Page_Error ''Unable to load Current Variables'')) \<and>
    getStepExecutionVariables (answer_to router be header uuid body_text (snapshots_url i x)) =
      (case recorded (be_env be) (be_maxBytes be) (be_db be) i x of
         Some docs \<Rightarrow> Inr (body_text (Recorded_Body docs))
       | None \<Rightarrow> Inl (Page_Error ''Unable to load Variable Snapshots''))"
    (is "?detail \<and> ?executions \<and> ?variables \<and> ?snapshots")
proof -
  have i: "i \<noteq> []" using assms(2) by simp
  note routes = page_routes [OF assms(1) i]
  note nq = detail_url_no_query [of i]
  let ?query = "if str_truthy cursor then ''?cursor='' @ encode (the cursor) else ''''"
  have "\<not> (\<exists>m. fst (detail (be_env be) (be_db be) (be_now be) i (be_ok be)) = Inl (NotFound m))"
    using detail_error by blast
  then have "?detail"
    using answer_to_routed [of router "detail_url i" Instance_One "[i]" "[]" be header uuid body_text] routes(1) nq
    by (simp add: handle_def getProcessInstanceDetail_def respond_def detail_route_def response_ok_def
        split: sum.split option.split monitor_error.split)
  moreover have "?executions"
  proof -
    have "be_steps be ?query = \<lparr>sq_cursor = (if str_truthy cursor then cursor else None), sq_pageSize = None\<rparr>"
      using assms(4) by (auto simp: reads_cursor_def str_truthy_def)
    then show ?thesis
      using answer_to_routed [of router "detail_url i @ ''/step-executions''" Instance_Executions "[i]" ?query
          be header uuid body_text] routes(2) nq
      by (simp add: executions_url_def handle_def listStepExecutions_answer_def respond_def response_ok_def
          split: sum.split monitor_error.split)
  qed
  moreover have "?variables"
    using answer_to_routed [of router "detail_url i @ ''/variables''" Instance_Variables "[i]" "[]" be header uuid
        body_text] routes(3) nq
    by (simp add: variables_url_def handle_def getCurrentVariables_def respond_def response_ok_def current_route_def
        split: option.split)
  moreover have "?snapshots"
  proof -
    have "CHR ''?'' \<notin> set (snapshots_url i x)" using nq by (simp add: snapshots_url_def encode_no_query)
    then show ?thesis
      using answer_to_routed [of router "snapshots_url i x" Execution_Variables "[i, x]" "[]" be header uuid body_text]
        snapshots_route [OF assms(1) i, of x] assms(3)
      by (simp add: handle_def getStepExecutionVariables_def respond_def response_ok_def recorded_route_def
          split: option.split)
  qed
  ultimately show ?thesis by blast
qed

text \<open>Every request is logged with the status and the id of its response, under the template of its route, so that
  the ids in the path are not written to the log; the statuses are 200, 400, 404, 500, and 503 only for the
  readiness check.\<close>

theorem request_logged:
  assumes "serve router be header uuid elapsed path query = (response, entry)"
  shows "lr_status entry = ar_status response \<and> lr_requestId entry = ar_requestId response \<and>
    ar_requestId response = (case header of
        Some (One_Header s) \<Rightarrow> if s = [] then uuid else s
      | Some (Many_Headers (s # _)) \<Rightarrow> if s = [] then uuid else s
      | _ \<Rightarrow> uuid) \<and>
    (case router path of
       Some (h, _) \<Rightarrow> (lr_route entry, h) \<in> set api_routes \<and>
         ar_status response \<in> {200, 400, 404, 500} \<union> (if h = Health_Ready then {503} else {})
     | None \<Rightarrow> lr_route entry = path \<and> ar_status response = 404)"
proof -
  let ?r = "serve router be header uuid elapsed path query"
  have parts: "response = fst ?r" "entry = snd ?r"
    using assms by simp_all
  have "request_id header uuid = (case header of
        Some (One_Header s) \<Rightarrow> if s = [] then uuid else s
      | Some (Many_Headers (s # _)) \<Rightarrow> if s = [] then uuid else s
      | _ \<Rightarrow> uuid)"
    by (simp add: request_id_def str_truthy_def split: option.split header_value.split list.split)
  moreover have "case router path of
       Some (h, _) \<Rightarrow> (lr_route entry, h) \<in> set api_routes \<and>
         ar_status response \<in> {200, 400, 404, 500} \<union> (if h = Health_Ready then {503} else {})
     | None \<Rightarrow> lr_route entry = path \<and> ar_status response = 404"
  proof (cases "router path")
    case (Some p)
    obtain h vs where p: "p = (h, vs)" by (cases p)
    with Some have r: "router path = Some (h, vs)" by simp
    obtain t where t: "route_text h = Some t" "(t, h) \<in> set api_routes" using route_text_listed by blast
    show ?thesis
      using handle_status [of be h vs query] t
      unfolding r parts serve_found [where router = router and path = path, OF r] by simp
  next
    case None
    then show ?thesis by (simp add: parts serve_not_found)
  qed
  ultimately show ?thesis by (simp add: parts serve_same)
qed

text \<open>A server whose query strings have at most a cursor.\<close>

definition sample_backend :: "json backend" where
  "sample_backend = \<lparr>be_env = sample_monitor, be_db = sample_history, be_now = 0, be_ok = (\<lambda>_ _. True), be_catalog = None,
     be_maxBytes = 100,
     be_instances = (\<lambda>_. \<lparr>f_definitionId = None, f_definitionVersion = None, f_currentStepId = None,
       f_stepStartedBefore = None, f_status = None, f_businessKey = None, f_from = None, f_to = None, q_cursor = None,
       q_pageSize = None\<rparr>),
     be_steps = (\<lambda>s. \<lparr>sq_cursor = (if s = [] then None else Some (drop 8 s)), sq_pageSize = None\<rparr>),
     be_incidents = (\<lambda>_. \<lparr>n_definitionId = None, n_jobType = None, n_from = None, n_to = None, nq_cursor = None,
       nq_pageSize = None\<rparr>),
     be_overview = (\<lambda>_. \<lparr>oq_cursor = None, oq_pageSize = None, oq_workflow = None, oq_definitionId = None,
       oq_definitionVersion = None, oq_minStepAgeSeconds = None\<rparr>)\<rparr>"

theorem instance_page_answers_witness:
  "getProcessInstanceDetail (answer_to segment_router sample_backend None ''u'' (\<lambda>_. ''{}'') (detail_url ''no/such'')) =
     Inl Instance_Not_Found"
proof -
  have "reads_cursor id (be_steps sample_backend)"
    by (simp add: reads_cursor_def sample_backend_def)
  note answers = instance_page_answers [OF segment_router_ok _ _ this, of "''no/such''" "''e''" None "''u''" "\<lambda>_. ''{}''" None]
  have "fst (detail sample_monitor sample_history 0 ''no/such'' (\<lambda>_ _. True)) = Inr None"
    by (simp add: detail_def detail_body_def andThen_def send_def ret_def sample_history_def sample_instance_def
        first_row_def sample_db_def)
  then show ?thesis
    using answers by (simp add: sample_backend_def)
qed

theorem request_logged_witness:
  "lr_status (snd (serve segment_router sample_backend (Some (One_Header ''r1'')) ''u'' 0 ''/health/ready'' '''')) = 503 \<and>
   ar_requestId (fst (serve segment_router sample_backend (Some (One_Header ''r1'')) ''u'' 0 ''/health/ready'' '''')) = ''r1''"
proof -
  let ?r = "serve segment_router sample_backend (Some (One_Header ''r1'')) ''u'' 0 ''/health/ready'' ''''"
  have "segment_router ''/health/ready'' = Some (Health_Ready, [])"
    by (simp add: segment_router_def api_routes_def)
  then have "ar_status (fst ?r) = 503"
    by (simp add: serve_found handle_def ready_def assertReady_def sample_backend_def REQUIRED_SCHEMA_def)
  then show ?thesis
    using request_logged [of segment_router sample_backend "Some (One_Header ''r1'')" "''u''" 0 "''/health/ready''" "''''"
        "fst ?r" "snd ?r"] by simp
qed

end
