(* ===== verification/List_Pages.thy ===== *)
theory List_Pages
  imports Instance_Panels
begin

text \<open>
  The two list pages of the monitor, \<^verbatim>\<open>workflow-monitor/src/routes/ProcessInstancesRoute.tsx\<close> and
  \<^verbatim>\<open>routes/IncidentsRoute.tsx\<close>: their filter forms over a session of editing, submitting and navigating, the hints and
  rows of the lists, and the page of one incident. What the two forms share is the locale \<open>filter_page\<close>.
\<close>

section \<open>Rows\<close>

text \<open>\<^verbatim>\<open>elapsedTime\<close>: days, hours, minutes and seconds of a duration in milliseconds.\<close>

definition elapsed_parts :: "int \<Rightarrow> nat \<times> nat \<times> nat \<times> nat" where
  "elapsed_parts ms =
     (let seconds = nat (max 0 (ms div 1000))
      in (seconds div 86400, seconds mod 86400 div 3600, seconds mod 3600 div 60, seconds mod 60))"

definition elapsedTime :: "(string \<Rightarrow> int option) \<Rightarrow> string \<Rightarrow> string option \<Rightarrow> int \<Rightarrow> string" where
  "elapsedTime dateParse start end observedAt =
     (case ((if str_truthy end then dateParse (the end) else Some observedAt), dateParse start) of
        (Some e, Some s) \<Rightarrow>
          (case elapsed_parts (e - s) of (days, hours, minutes, seconds) \<Rightarrow>
             (if days \<noteq> 0 then nat_str days @ ''d '' else '''') @ nat_str hours @ ''h '' @ nat_str minutes @ ''m '' @
             nat_str seconds @ ''s'')
      | _ \<Rightarrow> ''Not recorded'')"

text \<open>A row of the instances: the address of its link and the texts of the other cells.\<close>

definition instance_cells :: "(string \<Rightarrow> int option) \<Rightarrow> int \<Rightarrow> instance_item \<Rightarrow> string \<times> string list" where
  "instance_cells dateParse observedAt i =
     (''/process-instances/'' @ encodeURIComponent (it_id i),
      [it_id i, it_definitionId i, it_status i, or_text ''None'' (it_businessKey i), toISOString (it_startedAt i),
       elapsedTime dateParse (toISOString (it_startedAt i)) (map_option toISOString (it_completedAt i)) observedAt])"

definition attempt_text :: "bool \<Rightarrow> string" where
  "attempt_text historical = (if historical then ''Historical failure'' else ''Latest failed attempt'')"

definition incident_cells :: "(int \<Rightarrow> string) \<Rightarrow> incident_item \<Rightarrow> string \<times> string list" where
  "incident_cells num_text i =
     (''/incidents/'' @ encodeURIComponent (in_id i),
      [in_id i, in_definitionName i @ '' v'' @ num_text (in_definitionVersion i), in_stepId i,
       (case in_job i of Some j \<Rightarrow> ij_type j | None \<Rightarrow> ''Not applicable''),
       (case in_occurredAt i of Some t \<Rightarrow> toISOString t | None \<Rightarrow> ''''), attempt_text (in_historical i),
       fst (snd (in_latestAttempt i))])"

section \<open>Hints\<close>

datatype list_hint = Hint_Filter string | Hint_Retry string | Hint_Stale | Hint_Empty

text \<open>The alert of the form, the alert of the list, the stale mark and the empty state; \<open>message\<close> gives the text of an
  error, and the query of a list has the answer's rows.\<close>

definition list_hints ::
  "(fetch_error \<Rightarrow> string) \<Rightarrow> string option \<Rightarrow> fetch_error option \<Rightarrow> bool \<Rightarrow> 'a list option \<Rightarrow> list_hint list" where
  "list_hints message filterError err paused rows =
     (let refused = (case err of Some (Filter_Error _) \<Rightarrow> True | _ \<Rightarrow> False)
      in (if str_truthy filterError \<or> refused
          then [Hint_Filter (case filterError of Some m \<Rightarrow> m | None \<Rightarrow> message (the err))] else []) @
         (if err \<noteq> None \<and> rows = None \<and> \<not> refused then [Hint_Retry (message (the err))] else []) @
         (if (err \<noteq> None \<or> paused) \<and> rows \<noteq> None then [Hint_Stale] else []) @
         (if rows = Some [] then [Hint_Empty] else []))"

section \<open>Forms\<close>

text \<open>A time field shows its value without the final \<^verbatim>\<open>Z\<close>.\<close>

definition shown_time :: "string \<Rightarrow> string" where
  "shown_time v = (if v \<noteq> [] \<and> last v = CHR ''Z'' then butlast v else v)"

definition toggle_status :: "string \<Rightarrow> bool \<Rightarrow> instance_form \<Rightarrow> instance_form" where
  "toggle_status s checked f =
     f\<lparr>fm_statuses := (if checked then fm_statuses f @ [s] else filter (\<lambda>v. v \<noteq> s) (fm_statuses f))\<rparr>"

text \<open>What the fields of the two forms do.\<close>

datatype instance_edit =
    Edit_Definition string
  | Edit_Version string
  | Edit_Step string
  | Edit_StartedBefore string
  | Edit_Status string bool
  | Edit_BusinessKey string
  | Edit_From string
  | Edit_To string

definition edit_instance_form :: "instance_edit \<Rightarrow> instance_form \<Rightarrow> instance_form" where
  "edit_instance_form e f =
     (case e of
        Edit_Definition v \<Rightarrow> f\<lparr>fm_definitionId := v\<rparr>
      | Edit_Version v \<Rightarrow> f\<lparr>fm_definitionVersion := v\<rparr>
      | Edit_Step v \<Rightarrow> f\<lparr>fm_currentStepId := v\<rparr>
      | Edit_StartedBefore v \<Rightarrow> f\<lparr>fm_stepStartedBefore := utcInputValue v\<rparr>
      | Edit_Status s checked \<Rightarrow> toggle_status s checked f
      | Edit_BusinessKey v \<Rightarrow> f\<lparr>fm_businessKey := v\<rparr>
      | Edit_From v \<Rightarrow> f\<lparr>fm_from := utcInputValue v\<rparr>
      | Edit_To v \<Rightarrow> f\<lparr>fm_to := utcInputValue v\<rparr>)"

datatype incident_edit =
    Edit_IncidentDefinition string
  | Edit_JobType string
  | Edit_OccurredFrom string
  | Edit_OccurredTo string

definition edit_incident_form :: "incident_edit \<Rightarrow> incident_form \<Rightarrow> incident_form" where
  "edit_incident_form e f =
     (case e of
        Edit_IncidentDefinition v \<Rightarrow> f\<lparr>fi_definitionId := v\<rparr>
      | Edit_JobType v \<Rightarrow> f\<lparr>fi_jobType := v\<rparr>
      | Edit_OccurredFrom v \<Rightarrow> f\<lparr>fi_from := utcInputValue v\<rparr>
      | Edit_OccurredTo v \<Rightarrow> f\<lparr>fi_to := utcInputValue v\<rparr>)"

text \<open>The state of a list page. \<open>lp_touched\<close> records whether a field was changed since the form was last read from the
  location.\<close>

record 'f list_page =
  lp_search :: string
  lp_filters :: 'f
  lp_filterError :: "string option"
  lp_touched :: bool

definition opened_list :: "(string \<Rightarrow> 'f) \<Rightarrow> string \<Rightarrow> 'f list_page" where
  "opened_list fromSearch search =
     \<lparr>lp_search = search, lp_filters = fromSearch search, lp_filterError = None, lp_touched = False\<rparr>"

definition edit_filters :: "('f \<Rightarrow> 'f) \<Rightarrow> 'f list_page \<Rightarrow> 'f list_page" where
  "edit_filters g p = p\<lparr>lp_filters := g (lp_filters p), lp_touched := True\<rparr>"

text \<open>Another location, by paging, a saved filter or the history: the effect reads the form anew if it is another
  query string.\<close>

definition navigate :: "(string \<Rightarrow> 'f) \<Rightarrow> string \<Rightarrow> 'f list_page \<Rightarrow> 'f list_page" where
  "navigate fromSearch search p =
     (if search = lp_search p then p
      else p\<lparr>lp_search := search, lp_filters := fromSearch search, lp_touched := False\<rparr>)"

definition submit_filters :: "('f \<Rightarrow> string + target) \<Rightarrow> (string \<Rightarrow> 'f) \<Rightarrow> 'f list_page \<Rightarrow> 'f list_page" where
  "submit_filters applyFilters fromSearch p =
     (case applyFilters (lp_filters p) of
        Inl e \<Rightarrow> p\<lparr>lp_filterError := Some e\<rparr>
      | Inr (_, search) \<Rightarrow> (navigate fromSearch search (p\<lparr>lp_filterError := None\<rparr>))\<lparr>lp_touched := False\<rparr>)"

text \<open>A session; \<open>edits\<close> is \<open>edit_instance_form\<close> or \<open>edit_incident_form\<close>.\<close>

inductive list_step ::
  "('e \<Rightarrow> 'f \<Rightarrow> 'f) \<Rightarrow> ('f \<Rightarrow> string + target) \<Rightarrow> (string \<Rightarrow> 'f) \<Rightarrow> 'f list_page \<Rightarrow> 'f list_page \<Rightarrow> bool"
  for edits applyFilters fromSearch where
  edited: "list_step edits applyFilters fromSearch p (edit_filters (edits e) p)"
| submitted: "list_step edits applyFilters fromSearch p (submit_filters applyFilters fromSearch p)"
| moved: "list_step edits applyFilters fromSearch p (navigate fromSearch search p)"

section \<open>The page of an incident\<close>

definition processInstancePath :: "string \<Rightarrow> string \<Rightarrow> target" where
  "processInstancePath instanceId stepId =
     (''/process-instances/'' @ encodeURIComponent instanceId, ''?stepId='' @ encodeURIComponent stepId)"

definition getIncidentDetail :: "http_response \<Rightarrow> page_error + string" where
  "getIncidentDetail response =
     (if \<not> response_ok response then Inl (Page_Error ''Unable to load Incident'') else Inr (resp_text response))"

section \<open>What a filter form promises\<close>

text \<open>The contract of a form and its location: a form that is submitted moves to the first page of a location that shows
  this form.\<close>

locale filter_page =
  fixes applyFilters :: "'f \<Rightarrow> string + target" and fromSearch :: "string \<Rightarrow> 'f" and first_page :: "string \<Rightarrow> bool"
    and range_error :: "'f \<Rightarrow> string option"
  assumes refused: "range_error f = Some e \<Longrightarrow> applyFilters f = Inl e"
    and accepted: "range_error f = None \<Longrightarrow> \<exists>path search. applyFilters f = Inr (path, search) \<and> fromSearch search = f \<and> first_page search"
begin

lemma submit_result:
  shows "range_error (lp_filters p) = Some e \<Longrightarrow> submit_filters applyFilters fromSearch p = p\<lparr>lp_filterError := Some e\<rparr>"
    and "range_error (lp_filters p) = None \<Longrightarrow>
      (case submit_filters applyFilters fromSearch p of p' \<Rightarrow> lp_filters p' = lp_filters p \<and>
         fromSearch (lp_search p') = lp_filters p \<and> first_page (lp_search p') \<and> lp_filterError p' = None)"
  using refused [of "lp_filters p" e] accepted [of "lp_filters p"] by (auto simp: submit_filters_def navigate_def)

lemma step_follows:
  assumes "list_step edits applyFilters fromSearch p p'" "\<not> lp_touched p \<longrightarrow> lp_filters p = fromSearch (lp_search p)"
  shows "\<not> lp_touched p' \<longrightarrow> lp_filters p' = fromSearch (lp_search p')"
  using assms
proof (induction rule: list_step.induct)
  case (submitted p)
  show ?case
  proof (cases "range_error (lp_filters p)")
    case None
    then show ?thesis using submit_result(2) [of p] by simp
  next
    case (Some e)
    then show ?thesis using submit_result(1) [of p e] submitted by simp
  qed
qed (simp_all add: edit_filters_def navigate_def)

lemma reachable_follows:
  "(list_step edits applyFilters fromSearch)\<^sup>*\<^sup>* (opened_list fromSearch s) p \<Longrightarrow> \<not> lp_touched p \<longrightarrow> lp_filters p = fromSearch (lp_search p)"
  by (induction rule: rtranclp_induct) (simp add: opened_list_def, rule step_follows)

end

text \<open>A browser whose query strings are read back as they were printed has both forms under this contract.\<close>

locale list_browser =
  fixes web :: web_env
  assumes laws: "search_laws web"
begin

lemma instances_contract:
  "filter_page (instances_applyFilters web) (instances_filtersFromSearch web) (\<lambda>s. \<not> hasCursor web s)
     (\<lambda>f. timeRangeError (fm_from f) (fm_to f))"
proof
  fix f :: instance_form
  assume "timeRangeError (fm_from f) (fm_to f) = None"
  with conjunct1 [OF filter_forms_roundtrip [OF laws, of f undefined]]
  show "\<exists>path search. instances_applyFilters web f = Inr (path, search) \<and> instances_filtersFromSearch web search = f \<and>
      \<not> hasCursor web search"
    by (simp add: instances_applyFilters_def)
qed (simp add: instances_applyFilters_def)

lemma incidents_contract:
  "filter_page (incidents_applyFilters web) (incidents_filtersFromSearch web) (\<lambda>s. \<not> hasCursor web s)
     (\<lambda>f. timeRangeError (fi_from f) (fi_to f))"
proof
  fix f :: incident_form
  assume "timeRangeError (fi_from f) (fi_to f) = None"
  with conjunct2 [OF filter_forms_roundtrip [OF laws, of undefined f]]
  show "\<exists>path search. incidents_applyFilters web f = Inr (path, search) \<and> incidents_filtersFromSearch web search = f \<and>
      \<not> hasCursor web search"
    by (simp add: incidents_applyFilters_def)
qed (simp add: incidents_applyFilters_def)

end

sublocale list_browser \<subseteq> inst: filter_page "instances_applyFilters web" "instances_filtersFromSearch web"
    "\<lambda>s. \<not> hasCursor web s" "\<lambda>f. timeRangeError (fm_from f) (fm_to f)"
  by (rule instances_contract)

sublocale list_browser \<subseteq> inc: filter_page "incidents_applyFilters web" "incidents_filtersFromSearch web"
    "\<lambda>s. \<not> hasCursor web s" "\<lambda>f. timeRangeError (fi_from f) (fi_to f)"
  by (rule incidents_contract)

interpretation sample: list_browser sample_browser
  by unfold_locales (rule sample_browser_laws)

text \<open>What holds of a page in every state: an untouched form is the one of the location and paging leaves it so; a form
  with a bad range stays where it is with its message; any other form moves to the first page of a location that
  shows it.\<close>

definition follows_location ::
  "web_env \<Rightarrow> filter_kind \<Rightarrow> ('f \<Rightarrow> string + target) \<Rightarrow> (string \<Rightarrow> 'f) \<Rightarrow> ('f \<Rightarrow> string option) \<Rightarrow> 'f list_page \<Rightarrow> bool" where
  "follows_location web kind applyFilters fromSearch range_error p \<longleftrightarrow>
     (\<not> lp_touched p \<longrightarrow> lp_filters p = fromSearch (lp_search p) \<and>
        (\<forall>c. lp_filters (navigate fromSearch (snd (moveToCursor web kind (lp_search p) c)) p) = lp_filters p)) \<and>
     (let p' = submit_filters applyFilters fromSearch p
      in case range_error (lp_filters p) of
           Some e \<Rightarrow> p' = p\<lparr>lp_filterError := Some e\<rparr>
         | None \<Rightarrow> lp_filters p' = lp_filters p \<and> fromSearch (lp_search p') = lp_filters p \<and>
             \<not> hasCursor web (lp_search p') \<and> lp_filterError p' = None)"

text \<open>C19. In every session with the instance list and with the incident list, of typing, submitting, paging, saved
  filters and the browser's history, the form follows the location.\<close>

theorem list_forms_follow_location:
  assumes "search_laws web"
    and "(list_step edit_instance_form (instances_applyFilters web) (instances_filtersFromSearch web))\<^sup>*\<^sup>*
      (opened_list (instances_filtersFromSearch web) s) p"
    and "(list_step edit_incident_form (incidents_applyFilters web) (incidents_filtersFromSearch web))\<^sup>*\<^sup>*
      (opened_list (incidents_filtersFromSearch web) t) q"
  shows "follows_location web Instances (instances_applyFilters web) (instances_filtersFromSearch web)
      (\<lambda>f. timeRangeError (fm_from f) (fm_to f)) p \<and>
    follows_location web Incidents (incidents_applyFilters web) (incidents_filtersFromSearch web)
      (\<lambda>f. timeRangeError (fi_from f) (fi_to f)) q"
proof -
  have b: "list_browser web" using assms(1) by (rule list_browser.intro)
  note inst = filter_page.reachable_follows [OF list_browser.instances_contract [OF b] assms(2)]
    filter_page.submit_result [OF list_browser.instances_contract [OF b], of p]
  note inc = filter_page.reachable_follows [OF list_browser.incidents_contract [OF b] assms(3)]
    filter_page.submit_result [OF list_browser.incidents_contract [OF b], of q]
  have "instances_filtersFromSearch web (snd (moveToCursor web Instances u c)) = instances_filtersFromSearch web u"
    "incidents_filtersFromSearch web (snd (moveToCursor web Incidents u c)) = incidents_filtersFromSearch web u" for u c
    using paging_keeps_filters [OF assms(1) surjective_pairing] by blast+
  with inst inc show ?thesis
    by (simp add: follows_location_def navigate_def Let_def split: option.split)
qed

theorem list_forms_follow_location_witness:
  "follows_location sample_browser Instances (instances_applyFilters sample_browser) (instances_filtersFromSearch sample_browser)
     (\<lambda>f. timeRangeError (fm_from f) (fm_to f)) (opened_list (instances_filtersFromSearch sample_browser) [])"
  using list_forms_follow_location [OF sample_browser_laws rtranclp.rtrancl_refl rtranclp.rtrancl_refl] by blast

text \<open>Navigating does not clear the message of a form: after a bad range was refused, another location is shown with its
  own form and the old message.\<close>

theorem range_error_outlives_form:
  "\<exists>p. (list_step edit_instance_form (instances_applyFilters sample_browser) (instances_filtersFromSearch sample_browser))\<^sup>*\<^sup>*
      (opened_list (instances_filtersFromSearch sample_browser) []) p \<and> \<not> lp_touched p \<and> lp_filters p = sample_form \<and>
     timeRangeError (fm_from (lp_filters p)) (fm_to (lp_filters p)) = None \<and>
     Hint_Filter ''From must be a valid UTC date and time.'' \<in> set (list_hints message (lp_filterError p) None False rows)"
proof -
  let ?from = "instances_filtersFromSearch sample_browser"
  let ?step = "list_step edit_instance_form (instances_applyFilters sample_browser) ?from"
  let ?search = "next_search sample_browser (instance_form_params sample_form)"
  let ?a = "edit_filters (edit_instance_form (Edit_From ''x'')) (opened_list ?from [])"
  let ?b = "submit_filters (instances_applyFilters sample_browser) ?from ?a"
  let ?c = "navigate ?from ?search ?b"
  have "timeRangeError ''xZ'' u = Some ''From must be a valid UTC date and time.''" for u
    by (simp add: timeRangeError_def valid_utc_input_def utc_match_def)
  then have b: "?b = ?a\<lparr>lp_filterError := Some ''From must be a valid UTC date and time.''\<rparr>"
    by (simp add: submit_filters_def instances_applyFilters_def edit_filters_def edit_instance_form_def utcInputValue_def)
  have "instance_form_params sample_form \<noteq> []"
    using instance_form_fields(5) [of sample_form] by (auto simp: sample_form_def get_or_empty_def search_get_def)
  then have "?search \<noteq> []"
    by (simp add: next_search_def)
  then have c: "\<not> lp_touched ?c" "lp_filters ?c = sample_form" "lp_filterError ?c = Some ''From must be a valid UTC date and time.''"
    unfolding b by (simp_all add: navigate_def edit_filters_def opened_list_def sample_form_search)
  have "?step (opened_list ?from []) ?a" "?step ?a ?b" "?step ?b ?c"
    by (rule list_step.intros)+
  then have "?step\<^sup>*\<^sup>* (opened_list ?from []) ?c"
    by (meson converse_rtranclp_into_rtranclp rtranclp.rtrancl_refl)
  then show ?thesis
    using c by (intro exI [of _ ?c]) (simp add: list_hints_def str_truthy_def sample_form_def timeRangeError_def)
qed

section \<open>Rows and links\<close>

text \<open>The parts of a duration add up to its seconds, and each stays below its unit.\<close>

theorem elapsed_parts_exact:
  assumes "elapsed_parts ms = (d, h, m, s)"
  shows "int (((d * 24 + h) * 60 + m) * 60 + s) = max 0 (ms div 1000) \<and> h < 24 \<and> m < 60 \<and> s < 60"
proof -
  define n where "n = nat (max 0 (ms div 1000))"
  have parts: "d = n div 86400" "h = n mod 86400 div 3600" "m = n mod 3600 div 60" "s = n mod 60"
    using assms by (simp_all add: elapsed_parts_def Let_def n_def)
  have "n mod 86400 mod 3600 = n mod 3600" "n mod 3600 mod 60 = n mod 60"
    by (simp_all add: mod_mod_cancel)
  then have "d * 86400 + n mod 86400 = n" "h * 3600 + n mod 3600 = n mod 86400" "m * 60 + s = n mod 3600"
    unfolding parts using div_mult_mod_eq [of n 86400] div_mult_mod_eq [of "n mod 86400" 3600] div_mult_mod_eq [of "n mod 3600" 60]
    by argo+
  then have "((d * 24 + h) * 60 + m) * 60 + s = n"
    by (simp only: add_mult_distrib mult.assoc)
  then have "int (((d * 24 + h) * 60 + m) * 60 + s) = max 0 (ms div 1000)" by (simp add: n_def)
  moreover have "h < 24" "m < 60" "s < 60"
    unfolding parts using less_mult_imp_div_less [of "n mod 86400" 24 3600] less_mult_imp_div_less [of "n mod 3600" 60 60]
    by simp_all
  ultimately show ?thesis by blast
qed

text \<open>The link of an incident opens the page of its instance with the failed step selected.\<close>

theorem incident_context_link:
  assumes "instanceId \<noteq> []" "parse_search web (''?stepId='' @ encodeURIComponent stepId) = [(''stepId'', stepId)]"
  shows "App (fst (processInstancePath instanceId stepId)) = Some (Instance_View (map of_char instanceId), ''/'', Some (map of_char instanceId)) \<and>
    selected_from_search web (snd (processInstancePath instanceId stepId)) = Some stepId"
  using App_segment(1) [OF assms(1)] assms(2)
  by (simp add: processInstancePath_def selected_from_search_def search_get_def)

end
