(* ===== verification/Spec2Isabelle.thy ===== *)
theory Spec2Isabelle
  imports Definition_Validity Duration Layout Kafka_Safety Runner Monitor_Diagram Overview_Page Step_Deletion
    Engine_Browser Json_Editor Node_Handles Monitor_Api List_Pages
begin

text \<open>
  Verification development for the TypeScript parts of the Rochallor workflow engine: the workflow modeller, the worker SDK
  for Node, the monitor's backend and what its web application computes.

  \<^bold>\<open>The system.\<close> A workflow definition is a graph of steps. The \<^emph>\<open>modeller\<close> edits definitions, checks them and
  uploads them to the engine. The engine runs instances and hands jobs to \<^emph>\<open>workers\<close>, over polling with leases or
  over Kafka, and the worker SDK executes handlers and calls back. The \<^emph>\<open>monitor\<close> reads the engine's tables and shows
  instances, incidents and counts; its web application keeps the whole state of a view in the address and saved filters in
  the browser. The engine itself is not TypeScript and appears only through its answers and its tables.

  \<^bold>\<open>Conventions.\<close> A TypeScript union is a datatype, an interface a record with a prefix per record, a thrown error a left
  injection, a \<^verbatim>\<open>Map\<close> or object an association list in insertion order (with array indices first where the
  property forms show the order), a string a list of code units below 256.
  Code outside the repository is an argument: a function, or a record of functions such as \<open>monitor_env\<close> and \<open>web_env\<close>, and
  what the code relies on is a named predicate (\<open>codec_laws\<close>, \<open>clock_laws\<close>, \<open>keys_unique\<close>, \<open>query_laws\<close>,
  \<open>web_laws\<close>, \<open>search_laws\<close>, \<open>router_ok\<close>, \<open>reads_times\<close>) for which a concrete instance is given with the witnesses. Asynchronous code is a step relation whose
  steps are the stretches between two awaits, taken in any order, with the clock and every answer free; a sequential
  conversation with the database is a function of which statements succeed.

  \<^bold>\<open>Shared vocabulary\<close> (\<open>Prelude\<close>): strings, decimal texts, JavaScript numbers with NaN and the infinities, ordered
  maps, and the lemmas on them.

  \<^bold>\<open>Modeller\<close> (\<^verbatim>\<open>workflow-modeller/src\<close>).
  \<^item> \<open>Domain_Types\<close>: JSON, step types, definitions and diagnostics of \<^verbatim>\<open>domain/types.ts\<close> and \<^verbatim>\<open>domain/schema.ts\<close>.
  \<^item> \<open>Graph\<close>, \<open>Rename\<close>: \<^verbatim>\<open>domain/graph.ts\<close> and \<^verbatim>\<open>domain/rename.ts\<close>; a rename transports every edge.
  \<^item> \<open>Expr_Parser\<close>, \<open>Expr_Totality\<close>, \<open>Expr_Roundtrip\<close>, \<open>Lint\<close>: the generated parser of the expression language rule
    by rule, with fuel, that fuel above the length of the input always suffices, the round trip with a printer and the
    exact set of parsed trees, and the linter.
  \<^item> \<open>Validate\<close>, \<open>Graph_Walks\<close>, \<open>Validate_Spec\<close>, \<open>Definition_Validity\<close>, \<open>Duration\<close>: \<^verbatim>\<open>domain/validate.ts\<close> check by
    check with its three graph walks as loops (the fuel is the number of steps and edges, and is shown to be enough),
    correctness of the walks, the declarative specification and its equivalence with the checks, and what a rename and the
    canvas make of a valid definition.
  \<^item> \<open>Import_Export\<close>, \<open>Drafts\<close>, \<open>Engine_Client\<close>, \<open>Layout\<close>: \<^verbatim>\<open>io/\<close>, \<^verbatim>\<open>engine/client.ts\<close> and \<^verbatim>\<open>canvas/layout.ts\<close>.
  \<^item> \<open>Store\<close>, \<open>Store_Properties\<close>: the actions of \<^verbatim>\<open>store/workflowStore.ts\<close> as functions on its state, the invariants of a
    session with every editing action and any arguments (with the condition under which step ids stay distinct), and the
    round trips through drafts and through the engine.
  \<^item> \<open>Property_Forms\<close>, \<open>Canvas\<close>: the handlers of \<^verbatim>\<open>panels/property-forms\<close> and the gestures of \<^verbatim>\<open>canvas/Canvas.tsx\<close>, down to
    the property they hand to the store; what an edit keeps, and that a drawn connection becomes an edge.
  \<^item> \<open>Node_Handles\<close>: the nodes and edges of \<^verbatim>\<open>canvas/nodes\<close> and \<^verbatim>\<open>canvas/edges\<close> with the handles edges are attached to and
    the overrides of \<^verbatim>\<open>Canvas.tsx\<close>; every edge finds its handles, and when an override makes it disappear.
  \<^item> \<open>Modal_Dialogs\<close>, \<open>Editor_Panels\<close>: \<^verbatim>\<open>panels/useDialogs.tsx\<close> as a step relation over its promises, and on top of it the
    shell \<^verbatim>\<open>App.tsx\<close>, the toolbar and the dialogs and panels that act on the store; nothing is discarded or uploaded
    without its question being confirmed.
  \<^item> \<open>Step_Deletion\<close>: \<^verbatim>\<open>panels/DeleteStepDialog.tsx\<close>; what replacing the references to a step and deleting it does for
    every choice of the replacement, also one left over from an earlier deletion.
  \<^item> \<open>Json_Editor\<close>: \<^verbatim>\<open>panels/JsonEditor.tsx\<close>; what leaving the text does in every case, also when the store changed under
    the focus.
  \<^item> \<open>Engine_Browser\<close>: \<^verbatim>\<open>panels/EngineBrowser.tsx\<close> with its overlapping requests; what it shows when the answers keep their
    order, and what happens when they do not.

  \<^bold>\<open>Worker SDK\<close> (\<^verbatim>\<open>workflow-sdk-node/src\<close>).
  \<^item> \<open>Backoff\<close>, \<open>Dedup\<close>: \<^verbatim>\<open>retry/backoff.ts\<close>, \<^verbatim>\<open>runner/deduplication_cache.ts\<close>.
  \<^item> \<open>Worker_Client\<close>, \<open>Worker_Callback\<close>: the REST and gRPC clients, the registry, and the delivery of an outcome over a
    sequence of attempts, with and without retries.
  \<^item> \<open>Heartbeat\<close>: \<^verbatim>\<open>runner/heartbeat.ts\<close> as a step relation; a lost lease is never regained.
  \<^item> \<open>Runner\<close>: \<^verbatim>\<open>runner/runner.ts\<close>; the concurrency limit, what is known of the lease of a job at its callback,
    shutdown.
  \<^item> \<open>Kafka_Runner\<close>, \<open>Kafka_Consumer\<close>, \<open>Kafka_Safety\<close>: \<^verbatim>\<open>runner/kafka_runner.ts\<close>; the dispatch of a record, split
    where it awaits, and the exact condition for skipping a record as a duplicate among interleaved dispatches; the
    consumer as a step relation over rebalances, batches, dispatches, commits and stop, and at-least-once delivery as an
    invariant.

  \<^bold>\<open>Monitor backend\<close> (\<^verbatim>\<open>workflow-monitor-bff/src\<close>).
  \<^item> \<open>Utc_Timestamp\<close>: \<^verbatim>\<open>common/utils/utc-timestamp.ts\<close> over the calendar of \<^verbatim>\<open>Date\<close>.
  \<^item> \<open>Monitor_Store\<close>: the tables the monitor reads, times in microseconds, the schema contract and the settings.
  \<^item> \<open>Monitor_Paging\<close>: page sizes and cursors; the locales \<open>keyset_paging\<close> and \<open>keyset_query\<close> state what a listing
    and its query promise and prove that following the cursors reads everything once.
  \<^item> \<open>Process_Instances\<close>, \<open>Incidents\<close>, \<open>Overview\<close>: the listings, each an interpretation of \<open>keyset_query\<close>, with every SQL
    statement as operations on the lists of rows.
  \<^item> \<open>Execution_Context\<close>, \<open>Instance_Detail\<close>: what an instance waits for, and the detail with its transaction.
  \<^item> \<open>Process_Variables\<close>: variable documents, definition options and the readiness probe.

  \<^bold>\<open>Monitor web application\<close> (\<^verbatim>\<open>workflow-monitor/src\<close>).
  \<^item> \<open>Saved_Filters\<close>, \<open>Saved_Filter_Panel\<close>: \<^verbatim>\<open>saved-filter-storage.ts\<close> and \<^verbatim>\<open>SavedFilters.tsx\<close>, with the agreement of browser
    and server; any number of open pages work on one list without losing each other's filters.
  \<^item> \<open>Monitor_Navigation\<close>: the shell \<^verbatim>\<open>App.tsx\<close>, the filter forms of the lists and \<^verbatim>\<open>routes/listFilters.ts\<close>, the pages of step
    executions and the links to incidents; the address determines the form and the form the address.
  \<^item> \<open>Overview_Page\<close>: \<^verbatim>\<open>routes/OverviewRoute.tsx\<close> as a step relation over locations, together with the server of \<open>Overview\<close>: no
    location reached sends a cursor the server refuses, and the numbers shown are the lengths of the lists they open.
  \<^item> \<open>Monitor_Diagram\<close>: the edges of \<^verbatim>\<open>ExecutionDiagram.tsx\<close>, which are those of the modeller's canvas and those of
    passthrough fields, and the bars of \<^verbatim>\<open>ExecutionTimeline.tsx\<close>.
  \<^item> \<open>Snapshot_Comparison\<close>: \<^verbatim>\<open>process-variables/SnapshotComparison.tsx\<close>, the limits, the equality and the differences.
  \<^item> \<open>List_Pages\<close>: the forms of \<^verbatim>\<open>routes/ProcessInstancesRoute.tsx\<close> and \<^verbatim>\<open>routes/IncidentsRoute.tsx\<close> over a session, their alerts,
    rows and links; the form follows the location.
  \<^item> \<open>Instance_Page\<close>: \<^verbatim>\<open>routes/ProcessInstanceRoute.tsx\<close> with its three queries and its refresh as a step relation beside a
    server that changes; a page that has settled shows the final status, and the final step executions if its last refresh
    requested them after the status; two theorems show that it may not have.
  \<^item> \<open>Instance_Panels\<close>: \<^verbatim>\<open>ExecutionContextPanel.tsx\<close>, \<^verbatim>\<open>DataFreshness.tsx\<close> and
    \<^verbatim>\<open>process-variables/VariableSnapshotInspector.tsx\<close>; the ages and expiries are those of the server's instants, and an
    inspector follows its execution unless a request that was under way when the change appeared answers in its place,
    which three theorems show to happen.
  \<^item> \<open>Monitor_Api\<close>: the routes of the backend's controllers and the middleware of its \<^verbatim>\<open>app.ts\<close>, joined to the requests of the
    instance page: the page's addresses reach the handlers for its ids and its reading of the answers is exact.

  \<^bold>\<open>Interfaces.\<close> Where a component relies on another the contract is a locale with an interpretation on the model: the
  paging contracts above, the contract \<open>filter_page\<close> of a filter form with its location, which both list pages have in every
  \<open>list_browser\<close>, and those the component theories open with.

  \<^bold>\<open>Bounds.\<close> Fuel occurs in the expression parser (the length of the input suffices), in the graph walks of the validator
  (every step is visited once) and in reading all pages of a listing (one more than the number of rows). JavaScript
  doubles are exact rationals, which the code's numbers, milliseconds and small counts, do not leave; the generated
  parser's numerals keep their text.

  \<^bold>\<open>What the theorems do not cover.\<close> The paging theorems assume start times of whole milliseconds; without it a page can
  be lost, as \<open>Process_Instances\<close> shows on two rows. Following cursors is stated for a database that does not change
  meanwhile. Step types are a datatype, so a definition from the engine or from a draft with an unknown step type, which
  the validator reports, is outside the model. The editing actions do not include undo. Clocks do not go back. Of the
  package that caches the queries of the instance page the transitions its documentation gives are part of the model
  (\<open>query\<close> and its operations in \<open>Instance_Page\<close>): in particular a refetch joins a first request that is under way.

  \<^bold>\<open>Not modelled.\<close> The markup and styling of React components, focus and animation, in the modeller and the monitor; the
  caching of requests by the query package elsewhere; the platform adapters (file
  dialogs, clipboard, fetch); undo history and persistence of the store, which are configuration of libraries; the
  counters of \<^verbatim>\<open>metrics.ts\<close> that only forward to a library; module wiring and OpenAPI annotations
  of the backend; message texts of the validator's diagnostics and of parse errors; the load scripts.
\<close>

end
